(* ===== verification/Prelude.thy ===== *)
theory Prelude
  imports Main "HOL-Library.Word" "HOL-Library.List_Lexorder"
begin

text \<open>
  Shared vocabulary of the development: the machine integers and addresses of the contracts, the
  outcome of an invocation, the host environment a contract reads, the canonical error enum of
  \<open>contracts/common/src/lib.rs\<close>, and the rules that carry the component proofs.

  Integers. \<open>u32\<close> and \<open>u64\<close> values are naturals and \<open>i128\<close> values are integers; every
  arithmetic step of the code that can leave its type goes through a checked operation below.
  The workspace is built with \<open>overflow-checks = true\<close> in every profile, so a bare \<open>+\<close>, \<open>-\<close> or
  \<open>*\<close> that overflows aborts the invocation (\<open>Trap\<close>); the \<open>checked_\<close> and \<open>saturating_\<close> variants
  behave as in the Rust standard library. Byte strings are lists of \<open>8 word\<close>.

  Outcomes. An entry point ends in \<open>Ok\<close> (its value and the new state), in \<open>Err\<close> (the contract
  returned an error code) or in \<open>Trap\<close> (a panic, a missing authorization, a failed call through a
  client that does not catch errors). The host discards every storage write of an invocation that
  does not end in \<open>Ok\<close>, so only \<open>Ok\<close> carries a state.
\<close>

section \<open>Types\<close>

type_synonym u8 = "8 word"
type_synonym u32 = nat
type_synonym u64 = nat
type_synonym i128 = int
type_synonym address = nat
type_synonym bytes = "u8 list"

text \<open>The canonical error enum and its wire codes.\<close>

datatype (plugins only: code size) error =
    AlreadyInitialized | NotInitialized | Unauthorized | AlreadyRefunded | WindowExpired
     | InsufficientFloat | InvalidAmount | Paused | RefundNotFound | NoPendingTransfer
     | StrategyNotSet | InsufficientReserve | DeploymentExceedsMax | NothingToWithdraw
     | NothingToHarvest | InvalidRatio | ExceedsPayment | ReentrancyBlocked | SelfTransfer
     | FloatNotEmpty | RefundExpired | BatchNotFound | BatchTooLarge | ShardCallFailed
     | DuplicateRoot | DestinationMismatch | RoundTripMismatch | RootNotFound | ProofTooLong
     | AnchorRateLimited | InvalidProof | InvalidRateLimitConfig | NoPendingPolicy
     | TimelockNotExpired | VdfProofRequired | InvalidVdfProof | VdfNotConfigured | NoCommit
     | CommitAlreadyExists | CommitMismatch | CommitDelayNotElapsed | CommitOperationMismatch
     | NoOraclesConfigured | OracleAlreadyAdded | OracleNotFound | StaleOracleData
     | NoOraclePolicy | OraclePolicyDenied | InvalidMigrationVersion | ChannelNotFound
     | ChannelNotOpen | ChannelAlreadyClosed | StaleState | InvalidSignature | ChallengeActive
     | ChallengeExpired | InsufficientChannelBalance | ChannelExpired | UnsupportedAsset
     | HtlcNotFound | HtlcNotPending | HtlcNotExpired | InvalidPreimage | HtlcTimeoutOutOfOrder
     | HtlcInsufficientEscrow | HtlcTimeoutElapsed | PolicyContractsNotConfigured
     | InvalidPolicyParams | ClaimCooldownNotElapsed | MathOverflow | StrategyNotApproved
     | StrategyHasPrincipal | CouponNotFound | CouponAlreadyRedeemed | NftEscrowNotFound
     | NftAlreadyEscrowed | NftNotOwned | DisputeNotFound | DisputeClosed | InvalidTierLadder
     | RandomnessNotFound | DisputeExtensionLimitReached | HostError

primrec error_code :: "error \<Rightarrow> u32" where
  "error_code AlreadyInitialized = 1"
| "error_code NotInitialized = 2"
| "error_code Unauthorized = 3"
| "error_code AlreadyRefunded = 4"
| "error_code WindowExpired = 5"
| "error_code InsufficientFloat = 6"
| "error_code InvalidAmount = 7"
| "error_code Paused = 8"
| "error_code RefundNotFound = 9"
| "error_code NoPendingTransfer = 12"
| "error_code StrategyNotSet = 13"
| "error_code InsufficientReserve = 14"
| "error_code DeploymentExceedsMax = 15"
| "error_code NothingToWithdraw = 16"
| "error_code NothingToHarvest = 17"
| "error_code InvalidRatio = 18"
| "error_code ExceedsPayment = 19"
| "error_code ReentrancyBlocked = 20"
| "error_code SelfTransfer = 21"
| "error_code FloatNotEmpty = 22"
| "error_code RefundExpired = 23"
| "error_code BatchNotFound = 100"
| "error_code BatchTooLarge = 101"
| "error_code ShardCallFailed = 102"
| "error_code DuplicateRoot = 103"
| "error_code DestinationMismatch = 104"
| "error_code RoundTripMismatch = 105"
| "error_code RootNotFound = 200"
| "error_code ProofTooLong = 201"
| "error_code AnchorRateLimited = 202"
| "error_code InvalidProof = 203"
| "error_code InvalidRateLimitConfig = 204"
| "error_code NoPendingPolicy = 300"
| "error_code TimelockNotExpired = 301"
| "error_code VdfProofRequired = 302"
| "error_code InvalidVdfProof = 303"
| "error_code VdfNotConfigured = 304"
| "error_code NoCommit = 305"
| "error_code CommitAlreadyExists = 306"
| "error_code CommitMismatch = 307"
| "error_code CommitDelayNotElapsed = 308"
| "error_code CommitOperationMismatch = 309"
| "error_code NoOraclesConfigured = 310"
| "error_code OracleAlreadyAdded = 311"
| "error_code OracleNotFound = 312"
| "error_code StaleOracleData = 313"
| "error_code NoOraclePolicy = 314"
| "error_code OraclePolicyDenied = 315"
| "error_code InvalidMigrationVersion = 316"
| "error_code ChannelNotFound = 400"
| "error_code ChannelNotOpen = 401"
| "error_code ChannelAlreadyClosed = 402"
| "error_code StaleState = 403"
| "error_code InvalidSignature = 404"
| "error_code ChallengeActive = 405"
| "error_code ChallengeExpired = 406"
| "error_code InsufficientChannelBalance = 407"
| "error_code ChannelExpired = 408"
| "error_code UnsupportedAsset = 409"
| "error_code HtlcNotFound = 410"
| "error_code HtlcNotPending = 411"
| "error_code HtlcNotExpired = 412"
| "error_code InvalidPreimage = 413"
| "error_code HtlcTimeoutOutOfOrder = 414"
| "error_code HtlcInsufficientEscrow = 415"
| "error_code HtlcTimeoutElapsed = 416"
| "error_code PolicyContractsNotConfigured = 317"
| "error_code InvalidPolicyParams = 318"
| "error_code ClaimCooldownNotElapsed = 320"
| "error_code MathOverflow = 321"
| "error_code StrategyNotApproved = 322"
| "error_code StrategyHasPrincipal = 323"
| "error_code CouponNotFound = 324"
| "error_code CouponAlreadyRedeemed = 325"
| "error_code NftEscrowNotFound = 326"
| "error_code NftAlreadyEscrowed = 327"
| "error_code NftNotOwned = 328"
| "error_code DisputeNotFound = 329"
| "error_code DisputeClosed = 330"
| "error_code InvalidTierLadder = 331"
| "error_code RandomnessNotFound = 332"
| "error_code DisputeExtensionLimitReached = 417"
| "error_code HostError = 500"

text \<open>The result of an entry point, over the contract's own error enum; most contracts share \<open>error\<close>.\<close>

datatype ('e, 'a) result = Ok 'a | Err 'e | Trap

type_synonym 'a outcome = "(error, 'a) result"

text \<open>
  What a contract reads of its host: the ledger's sequence number and close time, its own address,
  and which addresses have authorized the current call (\<open>require_auth\<close> traps for any other).
\<close>

record env =
  sequence :: u32
  timestamp :: u64
  current_contract_address :: address
  authorized :: "address \<Rightarrow> bool"

section \<open>Sequencing\<close>

named_theorems ok_iff "when a step of an entry point succeeds"

fun obind :: "('e, 'a) result \<Rightarrow> ('a \<Rightarrow> ('e, 'b) result) \<Rightarrow> ('e, 'b) result" where
  "obind (Ok x) f = f x"
| "obind (Err e) f = Err e"
| "obind Trap f = Trap"

definition ok_or :: "'a option \<Rightarrow> 'e \<Rightarrow> ('e, 'a) result" where
  "ok_or m e = (case m of Some x \<Rightarrow> Ok x | None \<Rightarrow> Err e)"

definition unwrap :: "'a option \<Rightarrow> ('e, 'a) result" where
  "unwrap m = (case m of Some x \<Rightarrow> Ok x | None \<Rightarrow> Trap)"

definition unwrap_or :: "'a option \<Rightarrow> 'a \<Rightarrow> 'a" where
  "unwrap_or m d = (case m of Some x \<Rightarrow> x | None \<Rightarrow> d)"

definition require_auth :: "env \<Rightarrow> address \<Rightarrow> ('e, unit) result" where
  "require_auth E a = (if authorized E a then Ok () else Trap)"

text \<open>The environment of a call that the current contract makes to the contract at \<open>a\<close>: the host
  counts the invoking contract itself as having authorized its direct call.\<close>

definition callee_env :: "env \<Rightarrow> address \<Rightarrow> env" where
  "callee_env E a = E\<lparr>current_contract_address := a,
     authorized := (\<lambda>x. x = current_contract_address E \<or> authorized E x)\<rparr>"

lemma obind_Ok_iff [ok_iff]: "obind m f = Ok y \<longleftrightarrow> (\<exists>x. m = Ok x \<and> f x = Ok y)"
  by (cases m) auto

lemma obind_Err_iff: "obind m f = Err e \<longleftrightarrow> m = Err e \<or> (\<exists>x. m = Ok x \<and> f x = Err e)"
  by (cases m) auto

lemma obind_assoc: "obind (obind m f) g = obind m (\<lambda>x. obind (f x) g)"
  by (cases m) auto

lemma ok_or_simps [simp]: "ok_or (Some x) e = Ok x" "ok_or None e = Err e"
  by (simp_all add: ok_or_def)

lemma ok_or_Ok_iff [ok_iff]: "ok_or m e = Ok x \<longleftrightarrow> m = Some x"
  by (cases m) auto

lemma unwrap_simps [simp]: "unwrap (Some x) = Ok x" "unwrap None = Trap"
  by (simp_all add: unwrap_def)

lemma unwrap_Ok_iff [ok_iff]: "unwrap m = Ok x \<longleftrightarrow> m = Some x"
  by (cases m) auto

lemma unwrap_or_simps [simp]: "unwrap_or (Some x) d = x" "unwrap_or None d = d"
  by (simp_all add: unwrap_or_def)

lemma require_auth_Ok_iff [ok_iff]: "require_auth E a = Ok u \<longleftrightarrow> authorized E a"
  by (simp add: require_auth_def)

lemma callee_env_simps [simp]:
  "sequence (callee_env E a) = sequence E"
  "timestamp (callee_env E a) = timestamp E"
  "current_contract_address (callee_env E a) = a"
  "authorized (callee_env E a) x \<longleftrightarrow> x = current_contract_address E \<or> authorized E x"
  by (simp_all add: callee_env_def)

section \<open>Machine arithmetic\<close>

definition in_u32 :: "nat \<Rightarrow> bool" where
  "in_u32 n \<longleftrightarrow> n < 2 ^ 32"

definition in_u64 :: "nat \<Rightarrow> bool" where
  "in_u64 n \<longleftrightarrow> n < 2 ^ 64"

definition in_i128 :: "int \<Rightarrow> bool" where
  "in_i128 x \<longleftrightarrow> - (2 ^ 127) \<le> x \<and> x < 2 ^ 127"

text \<open>Unsigned operators as the overflow-checked build compiles them.\<close>

definition u32_add :: "u32 \<Rightarrow> u32 \<Rightarrow> ('e, u32) result" where
  "u32_add a b = (if in_u32 (a + b) then Ok (a + b) else Trap)"

definition u32_sub :: "u32 \<Rightarrow> u32 \<Rightarrow> ('e, u32) result" where
  "u32_sub a b = (if b \<le> a then Ok (a - b) else Trap)"

definition u32_checked :: "nat \<Rightarrow> u32 option" where
  "u32_checked n = (if in_u32 n then Some n else None)"

definition u64_add :: "u64 \<Rightarrow> u64 \<Rightarrow> ('e, u64) result" where
  "u64_add a b = (if in_u64 (a + b) then Ok (a + b) else Trap)"

definition u64_mul :: "u64 \<Rightarrow> u64 \<Rightarrow> ('e, u64) result" where
  "u64_mul a b = (if in_u64 (a * b) then Ok (a * b) else Trap)"

definition u64_sub :: "u64 \<Rightarrow> u64 \<Rightarrow> ('e, u64) result" where
  "u64_sub a b = (if b \<le> a then Ok (a - b) else Trap)"

definition i128_op :: "int \<Rightarrow> ('e, i128) result" where
  "i128_op x = (if in_i128 x then Ok x else Trap)"

definition u32_saturating_add :: "u32 \<Rightarrow> u32 \<Rightarrow> u32" where
  "u32_saturating_add a b = min (a + b) (2 ^ 32 - 1)"

definition u64_saturating_add :: "u64 \<Rightarrow> u64 \<Rightarrow> u64" where
  "u64_saturating_add a b = min (a + b) (2 ^ 64 - 1)"

text \<open>Natural subtraction is exactly \<open>saturating_sub\<close> on the unsigned types.\<close>

definition saturating_sub :: "nat \<Rightarrow> nat \<Rightarrow> nat" where
  "saturating_sub a b = a - b"

lemmas arith_defs = u32_add_def u64_add_def u64_mul_def u64_sub_def i128_op_def
  u32_saturating_add_def u64_saturating_add_def saturating_sub_def

lemma u32_add_Ok_iff [ok_iff]: "u32_add a b = Ok c \<longleftrightarrow> c = a + b \<and> in_u32 (a + b)"
  by (auto simp: u32_add_def)

lemma u32_sub_Ok_iff [ok_iff]: "u32_sub a b = Ok c \<longleftrightarrow> c = a - b \<and> b \<le> a"
  by (auto simp: u32_sub_def)

lemma u32_checked_Some_iff [ok_iff]: "u32_checked n = Some m \<longleftrightarrow> m = n \<and> in_u32 n"
  by (auto simp: u32_checked_def)

lemma u64_add_Ok_iff [ok_iff]: "u64_add a b = Ok c \<longleftrightarrow> c = a + b \<and> in_u64 (a + b)"
  by (auto simp: u64_add_def)

lemma u64_mul_Ok_iff [ok_iff]: "u64_mul a b = Ok c \<longleftrightarrow> c = a * b \<and> in_u64 (a * b)"
  by (auto simp: u64_mul_def)

lemma u64_sub_Ok_iff [ok_iff]: "u64_sub a b = Ok c \<longleftrightarrow> c = a - b \<and> b \<le> a"
  by (auto simp: u64_sub_def)

lemma i128_op_Ok_iff [ok_iff]: "i128_op x = Ok y \<longleftrightarrow> y = x \<and> in_i128 x"
  by (auto simp: i128_op_def)

text \<open>
  Rust's \<open>/\<close> and \<open>%\<close> truncate towards zero, while \<open>div\<close> and \<open>mod\<close> on \<open>int\<close> round towards minus
  infinity.
\<close>

definition trunc_div :: "int \<Rightarrow> int \<Rightarrow> int" where
  "trunc_div a b = sgn a * sgn b * (\<bar>a\<bar> div \<bar>b\<bar>)"

definition trunc_mod :: "int \<Rightarrow> int \<Rightarrow> int" where
  "trunc_mod a b = a - b * trunc_div a b"

lemma trunc_div_nonneg: "0 \<le> a \<Longrightarrow> 0 < b \<Longrightarrow> trunc_div a b = a div b"
  by (cases "a = 0") (auto simp: trunc_div_def)

lemma trunc_mod_nonneg: "0 \<le> a \<Longrightarrow> 0 < b \<Longrightarrow> trunc_mod a b = a mod b"
  by (simp add: trunc_mod_def trunc_div_nonneg minus_mult_div_eq_mod)

section \<open>Tokens\<close>

text \<open>
  The settlement token is a separate contract reached through the SEP-41 interface. Its ledger is
  an opaque state \<open>'w\<close>, and the two calls the contracts make are parameters: \<open>tok_balance\<close> reads a
  balance of a token contract, and \<open>tok_transfer\<close> moves an amount or fails (which aborts the
  calling invocation).
\<close>

record 'w token =
  tok_balance :: "'w \<Rightarrow> address \<Rightarrow> address \<Rightarrow> i128"
  tok_transfer :: "'w \<Rightarrow> address \<Rightarrow> address \<Rightarrow> address \<Rightarrow> i128 \<Rightarrow> 'w option"

text \<open>
  The documented behaviour of a SEP-41 transfer: it succeeds only for an amount that the sender
  holds, and then debits the sender, credits the receiver and touches no other balance and no
  other token.
\<close>

definition sep41 :: "'w token \<Rightarrow> bool" where
  "sep41 T \<longleftrightarrow> (\<forall>w tok from to amt w'. tok_transfer T w tok from to amt = Some w' \<longrightarrow>
     0 \<le> amt \<and> amt \<le> tok_balance T w tok from \<and>
     (\<forall>tok' a. tok_balance T w' tok' a = tok_balance T w tok' a
        - (if tok' = tok \<and> a = from then amt else 0) + (if tok' = tok \<and> a = to then amt else 0)))"

lemma sep41D:
  assumes "sep41 T" and "tok_transfer T w tok from to amt = Some w'"
  shows "0 \<le> amt" and "amt \<le> tok_balance T w tok from"
    and "tok_balance T w' tok' a = tok_balance T w tok' a
        - (if tok' = tok \<and> a = from then amt else 0) + (if tok' = tok \<and> a = to then amt else 0)"
  using assms unfolding sep41_def by blast+

text \<open>A ledger of balances with the transfer rule, on which witnesses are evaluated.\<close>

type_synonym ledger = "address \<Rightarrow> address \<Rightarrow> i128"

definition ledger_transfer ::
  "ledger \<Rightarrow> address \<Rightarrow> address \<Rightarrow> address \<Rightarrow> i128 \<Rightarrow> ledger option" where
  "ledger_transfer w tok from to amt =
     (if 0 \<le> amt \<and> amt \<le> w tok from
      then Some (\<lambda>t a. w t a - (if t = tok \<and> a = from then amt else 0)
                          + (if t = tok \<and> a = to then amt else 0))
      else None)"

definition ledger_token :: "ledger token" where
  "ledger_token = \<lparr>tok_balance = (\<lambda>w. w), tok_transfer = ledger_transfer\<rparr>"

lemma sep41_ledger_token: "sep41 ledger_token"
  unfolding sep41_def ledger_token_def ledger_transfer_def by (auto split: if_splits)

end
