(* ===== verification/Merkle.thy ===== *)
theory Merkle
  imports Prelude
begin

text \<open>
  Sorted-pair Merkle proofs: \<open>contracts/receipt-anchor/src/merkle.rs\<close> and the proof fold of
  \<open>contracts/receipt-shard/src/lib.rs\<close>. SHA-256 comes from the \<open>sha2\<close> crate and is the parameter
  \<open>H\<close> of every definition. The specification side is a binary tree whose inner nodes carry the
  sorted-pair hash of their children; the lemmas show that the verifier accepts every proof read
  off such a tree, and that a proof it accepts for a leaf that is not in the tree exhibits two
  different inputs of \<open>H\<close> with the same digest among the inputs that were actually hashed.
\<close>

section \<open>The verifier\<close>

definition pair_bytes :: "bytes \<Rightarrow> bytes \<Rightarrow> bytes" where
  "pair_bytes a b = (let (lo, hi) = (if a \<le> b then (a, b) else (b, a)) in lo @ hi)"

definition hash_pair :: "(bytes \<Rightarrow> bytes) \<Rightarrow> bytes \<Rightarrow> bytes \<Rightarrow> bytes" where
  "hash_pair H a b = H (pair_bytes a b)"

primrec fold_proof :: "(bytes \<Rightarrow> bytes) \<Rightarrow> bytes \<Rightarrow> bytes list \<Rightarrow> bytes" where
  "fold_proof H computed [] = computed"
| "fold_proof H computed (sibling # proof) = fold_proof H (hash_pair H computed sibling) proof"

definition merkle_verify :: "(bytes \<Rightarrow> bytes) \<Rightarrow> bytes \<Rightarrow> bytes \<Rightarrow> bytes list \<Rightarrow> bool" where
  "merkle_verify H root leaf proof \<longleftrightarrow> fold_proof H leaf proof = root"

text \<open>The storage shard folds the proof with its own loop, which fills the 64-byte buffer per
  branch.\<close>

primrec shard_fold_proof :: "(bytes \<Rightarrow> bytes) \<Rightarrow> bytes \<Rightarrow> bytes list \<Rightarrow> bytes" where
  "shard_fold_proof H computed_hash [] = computed_hash"
| "shard_fold_proof H computed_hash (sibling # proof) =
     (let combined = (if computed_hash \<le> sibling then computed_hash @ sibling
                      else sibling @ computed_hash)
      in shard_fold_proof H (H combined) proof)"

lemma pair_bytes_commute: "pair_bytes a b = pair_bytes b a"
  using linear [of a b] by (auto simp: pair_bytes_def)

lemma hash_pair_commute: "hash_pair H a b = hash_pair H b a"
  by (simp add: hash_pair_def pair_bytes_commute [of a])

lemma shard_fold_proof_eq: "shard_fold_proof H leaf p = fold_proof H leaf p"
  by (induction p arbitrary: leaf) (simp_all add: hash_pair_def pair_bytes_def Let_def)

lemma fold_proof_append:
  "fold_proof H leaf (p @ q) = fold_proof H (fold_proof H leaf p) q"
  by (induction p arbitrary: leaf) simp_all

text \<open>Equal concatenations of 32-byte nodes come from the same unordered pair.\<close>

lemma pair_bytes_eqD:
  assumes "pair_bytes a b = pair_bytes c d"
    and "length a = n" "length b = n" "length c = n" "length d = n"
  shows "(a = c \<and> b = d) \<or> (a = d \<and> b = c)"
  using assms by (auto simp: pair_bytes_def Let_def split: if_splits)

section \<open>Trees\<close>

datatype mtree = Tip bytes | Fork mtree mtree

primrec mroot :: "(bytes \<Rightarrow> bytes) \<Rightarrow> mtree \<Rightarrow> bytes" where
  "mroot H (Tip l) = l"
| "mroot H (Fork a b) = hash_pair H (mroot H a) (mroot H b)"

primrec tree_leaves :: "mtree \<Rightarrow> bytes list" where
  "tree_leaves (Tip l) = [l]"
| "tree_leaves (Fork a b) = tree_leaves a @ tree_leaves b"

primrec tree_height :: "mtree \<Rightarrow> nat" where
  "tree_height (Tip l) = 0"
| "tree_height (Fork a b) = Suc (max (tree_height a) (tree_height b))"

text \<open>Every leaf with its proof: the siblings from the leaf up.\<close>

primrec tree_proofs :: "(bytes \<Rightarrow> bytes) \<Rightarrow> mtree \<Rightarrow> (bytes \<times> bytes list) list" where
  "tree_proofs H (Tip l) = [(l, [])]"
| "tree_proofs H (Fork a b) =
     map (\<lambda>(l, p). (l, p @ [mroot H b])) (tree_proofs H a) @
     map (\<lambda>(l, p). (l, p @ [mroot H a])) (tree_proofs H b)"

lemma tree_proofs_leaves: "map fst (tree_proofs H t) = tree_leaves t"
  by (induction t) (simp_all add: comp_def case_prod_unfold)

lemma tree_proofs_height: "(l, p) \<in> set (tree_proofs H t) \<Longrightarrow> length p \<le> tree_height t"
  by (induction t arbitrary: p) fastforce+

lemma tree_proofs_verify: "(l, p) \<in> set (tree_proofs H t) \<Longrightarrow> merkle_verify H (mroot H t) l p"
  by (induction t arbitrary: p)
    (fastforce simp: merkle_verify_def fold_proof_append hash_pair_commute)+

section \<open>Soundness: a forged proof exhibits a collision\<close>

primrec fold_inputs :: "(bytes \<Rightarrow> bytes) \<Rightarrow> bytes \<Rightarrow> bytes list \<Rightarrow> bytes list" where
  "fold_inputs H computed [] = []"
| "fold_inputs H computed (sibling # proof) =
     pair_bytes computed sibling # fold_inputs H (hash_pair H computed sibling) proof"

primrec tree_inputs :: "(bytes \<Rightarrow> bytes) \<Rightarrow> mtree \<Rightarrow> bytes list" where
  "tree_inputs H (Tip l) = []"
| "tree_inputs H (Fork a b) =
     pair_bytes (mroot H a) (mroot H b) # tree_inputs H a @ tree_inputs H b"

primrec perfect :: "nat \<Rightarrow> mtree \<Rightarrow> bool" where
  "perfect n (Tip l) \<longleftrightarrow> n = 0"
| "perfect n (Fork a b) \<longleftrightarrow> (\<exists>m. n = Suc m \<and> perfect m a \<and> perfect m b)"

definition collision :: "(bytes \<Rightarrow> bytes) \<Rightarrow> bytes list \<Rightarrow> bytes list \<Rightarrow> bool" where
  "collision H xs ys \<longleftrightarrow> (\<exists>x\<in>set xs. \<exists>y\<in>set ys. x \<noteq> y \<and> H x = H y)"

lemma collision_mono:
  "collision H xs ys \<Longrightarrow> set xs \<subseteq> set xs' \<Longrightarrow> set ys \<subseteq> set ys' \<Longrightarrow> collision H xs' ys'"
  unfolding collision_def by blast

lemma fold_inputs_append:
  "fold_inputs H l (p @ q) = fold_inputs H l p @ fold_inputs H (fold_proof H l p) q"
  by (induction p arbitrary: l) simp_all

lemma fold_proof_length:
  assumes "\<And>x. length (H x) = 32" and "length l = 32"
  shows "length (fold_proof H l p) = 32"
  using assms(2) by (induction p arbitrary: l) (simp_all add: hash_pair_def assms(1))

lemma mroot_length:
  assumes "\<And>x. length (H x) = 32" and "\<And>l. l \<in> set (tree_leaves t) \<Longrightarrow> length l = 32"
  shows "length (mroot H t) = 32"
  using assms(2) by (induction t) (simp_all add: hash_pair_def assms(1))

lemma forged_proof_collision:
  assumes H: "\<And>x. length (H x) = 32"
    and "perfect (length p) t" and "fold_proof H l p = mroot H t"
    and "length l = 32" and "\<And>s. s \<in> set p \<Longrightarrow> length s = 32"
    and "\<And>x. x \<in> set (tree_leaves t) \<Longrightarrow> length x = 32"
  shows "l \<in> set (tree_leaves t) \<or> collision H (tree_inputs H t) (fold_inputs H l p)"
  using assms(2-)
proof (induction p arbitrary: t rule: rev_induct)
  case Nil
  then show ?case by (cases t) auto
next
  case (snoc s p)
  from snoc.prems(1) obtain a b where t: "t = Fork a b"
    and ab: "perfect (length p) a" "perfect (length p) b"
    by (cases t) auto
  let ?c = "fold_proof H l p" and ?x = "pair_bytes (mroot H a) (mroot H b)"
  have eq: "H (pair_bytes ?c s) = H ?x"
    using snoc.prems(2) by (simp add: t fold_proof_append hash_pair_def)
  show ?case
  proof (cases "pair_bytes ?c s = ?x")
    case True
    have "length ?c = 32" "length (mroot H a) = 32" "length (mroot H b) = 32" "length s = 32"
      using snoc.prems t by (auto intro!: fold_proof_length mroot_length H)
    with True have "?c = mroot H a \<or> ?c = mroot H b"
      by (blast dest: pair_bytes_eqD)
    then have "(l \<in> set (tree_leaves a) \<or> collision H (tree_inputs H a) (fold_inputs H l p)) \<or>
        (l \<in> set (tree_leaves b) \<or> collision H (tree_inputs H b) (fold_inputs H l p))"
      using snoc.IH [of a] snoc.IH [of b] snoc.prems ab t by auto
    then show ?thesis
      by (auto simp: t fold_inputs_append collision_def)
  next
    case False
    with eq have "collision H [?x] [pair_bytes ?c s]"
      by (auto simp: collision_def)
    then have "collision H (tree_inputs H t) (fold_inputs H l (p @ [s]))"
      by (rule collision_mono) (auto simp: t fold_inputs_append)
    then show ?thesis ..
  qed
qed

end
