(* ===== verification/Common.thy ===== *)
theory Common
  imports Prelude
begin

text \<open>
  The shared helpers of \<open>contracts/common/src\<close>: checked financial arithmetic (\<open>math.rs\<close>), the nonce
  revocation bitmap (\<open>nonce.rs\<close>), constant-time comparison (\<open>constant_time.rs\<close>) and the reentrancy
  lock (\<open>reentrancy.rs\<close>). The lemmas show that every arithmetic helper returns the mathematically
  exact result or an error, that the bitmap is a set of residues modulo 256, and that the
  branch-free comparison is equality.
\<close>

unbundle bit_operations_syntax

section \<open>Checked arithmetic\<close>

datatype math_error = Overflow | DivideByZero

text \<open>\<open>impl From<MathError> for Error\<close>, as the \<open>?\<close> operator applies it.\<close>

definition error_of_math :: "math_error \<Rightarrow> error" where
  "error_of_math e = (case e of Overflow \<Rightarrow> MathOverflow | DivideByZero \<Rightarrow> MathOverflow)"

definition math_q :: "math_error + 'a \<Rightarrow> 'a outcome" where
  "math_q r = (case r of Inl e \<Rightarrow> Err (error_of_math e) | Inr x \<Rightarrow> Ok x)"

definition math_expect :: "math_error + 'a \<Rightarrow> 'a outcome" where
  "math_expect r = (case r of Inl e \<Rightarrow> Trap | Inr x \<Rightarrow> Ok x)"

text \<open>Rust's \<open>checked_\<close> operations on \<open>i128\<close>.\<close>

definition i128_checked :: "int \<Rightarrow> i128 option" where
  "i128_checked x = (if in_i128 x then Some x else None)"

lemma i128_checked_Some_iff [ok_iff]: "i128_checked x = Some y \<longleftrightarrow> y = x \<and> in_i128 x"
  by (auto simp: i128_checked_def)

definition ok_or_math :: "'a option \<Rightarrow> math_error \<Rightarrow> math_error + 'a" where
  "ok_or_math m e = (case m of Some x \<Rightarrow> Inr x | None \<Rightarrow> Inl e)"

definition add_amounts :: "i128 \<Rightarrow> i128 \<Rightarrow> math_error + i128" where
  "add_amounts a b = ok_or_math (i128_checked (a + b)) Overflow"

definition sub_amounts :: "i128 \<Rightarrow> i128 \<Rightarrow> math_error + i128" where
  "sub_amounts a b = ok_or_math (i128_checked (a - b)) Overflow"

definition mul_amounts :: "i128 \<Rightarrow> i128 \<Rightarrow> math_error + i128" where
  "mul_amounts a b = ok_or_math (i128_checked (a * b)) Overflow"

definition div_amounts :: "i128 \<Rightarrow> i128 \<Rightarrow> math_error + i128" where
  "div_amounts a b =
     (if b = 0 then Inl DivideByZero else ok_or_math (i128_checked (trunc_div a b)) Overflow)"

definition checked_accumulate :: "i128 \<Rightarrow> i128 \<Rightarrow> i128 option \<Rightarrow> math_error + i128" where
  "checked_accumulate running delta ceiling =
     (case add_amounts running delta of
        Inl e \<Rightarrow> Inl e
      | Inr next_total \<Rightarrow>
          (case ceiling of
             Some cap \<Rightarrow> if next_total > cap then Inl Overflow else Inr next_total
           | None \<Rightarrow> Inr next_total))"

definition u64_to_amount :: "u64 \<Rightarrow> i128" where
  "u64_to_amount v = int v"

definition amount_to_u64 :: "i128 \<Rightarrow> math_error + u64" where
  "amount_to_u64 amount =
     (if amount < 0 then Inl Overflow
      else if amount < 2 ^ 64 then Inr (nat amount) else Inl Overflow)"

definition checked_ledger_add :: "u32 \<Rightarrow> u32 \<Rightarrow> math_error + u32" where
  "checked_ledger_add base offset =
     (if in_u32 (base + offset) then Inr (base + offset) else Inl Overflow)"

definition mul_ratio :: "i128 \<Rightarrow> i128 \<Rightarrow> i128 \<Rightarrow> math_error + i128" where
  "mul_ratio value numerator denominator =
     (if denominator = 0 then Inl DivideByZero
      else case mul_amounts value numerator of
          Inl e \<Rightarrow> Inl e
        | Inr p \<Rightarrow> div_amounts p denominator)"

definition MAX_FEE_BPS :: u32 where
  "MAX_FEE_BPS = 10000"

definition apply_fee_bps :: "i128 \<Rightarrow> u32 \<Rightarrow> math_error + i128" where
  "apply_fee_bps value fee_bps =
     (if fee_bps > MAX_FEE_BPS then Inl Overflow
      else mul_ratio value (int fee_bps) (int MAX_FEE_BPS))"

lemmas math_defs = add_amounts_def sub_amounts_def mul_amounts_def div_amounts_def
  ok_or_math_def i128_checked_def

lemma math_q_Ok_iff [ok_iff]: "math_q r = Ok x \<longleftrightarrow> r = Inr x"
  by (auto simp: math_q_def split: sum.splits)

lemma math_expect_Ok_iff [ok_iff]: "math_expect r = Ok x \<longleftrightarrow> r = Inr x"
  by (auto simp: math_expect_def split: sum.splits)

lemma math_simps [simp]:
  "math_q (Inr x) = Ok x" "math_q (Inl e) = Err MathOverflow"
  "math_expect (Inr x) = Ok x" "math_expect (Inl e) = Trap"
  by (auto simp: math_q_def math_expect_def error_of_math_def split: math_error.splits)

lemma add_amounts_Inr_iff [simp]: "add_amounts a b = Inr c \<longleftrightarrow> c = a + b \<and> in_i128 (a + b)"
  by (auto simp: math_defs)

lemma sub_amounts_Inr_iff [simp]: "sub_amounts a b = Inr c \<longleftrightarrow> c = a - b \<and> in_i128 (a - b)"
  by (auto simp: math_defs)

lemma mul_amounts_Inr_iff [simp]: "mul_amounts a b = Inr c \<longleftrightarrow> c = a * b \<and> in_i128 (a * b)"
  by (auto simp: math_defs)

lemma div_amounts_Inr_iff [simp]:
  "div_amounts a b = Inr c \<longleftrightarrow> b \<noteq> 0 \<and> c = trunc_div a b \<and> in_i128 (trunc_div a b)"
  by (auto simp: math_defs)

text \<open>Dividing a representable amount can only overflow at \<open>MIN / -1\<close>.\<close>

lemma abs_trunc_div_le: "\<bar>trunc_div a b\<bar> \<le> \<bar>a\<bar>"
proof -
  let ?q = "\<bar>a\<bar> div \<bar>b\<bar>"
  have q: "0 \<le> ?q" by (cases "b = 0") (simp_all add: pos_imp_zdiv_nonneg_iff)
  have "\<bar>trunc_div a b\<bar> = \<bar>sgn a * sgn b\<bar> * ?q"
    using q by (simp add: trunc_div_def abs_mult)
  also have "\<dots> \<le> 1 * ?q" using q by (intro mult_right_mono) (auto simp: abs_mult sgn_if)
  also have "\<dots> \<le> \<bar>a\<bar>" using zdiv_mono2 [of "\<bar>a\<bar>" 1 "\<bar>b\<bar>"] by (cases "b = 0") auto
  finally show ?thesis .
qed

lemma trunc_div_in_i128:
  assumes "in_i128 a" and "0 < b"
  shows "in_i128 (trunc_div a b)"
proof (cases "0 \<le> a")
  case True
  then have "0 \<le> trunc_div a b" using assms(2) by (simp add: trunc_div_nonneg pos_imp_zdiv_nonneg_iff)
  with True assms(1) abs_trunc_div_le [of a b] show ?thesis by (simp add: in_i128_def)
next
  case False
  then have "trunc_div a b = - ((- a) div b)" using assms(2) by (simp add: trunc_div_def)
  moreover have "0 \<le> (- a) div b" using False assms(2) by (simp add: pos_imp_zdiv_nonneg_iff)
  ultimately show ?thesis using False assms(1) abs_trunc_div_le [of a b] by (simp add: in_i128_def)
qed

lemma mul_ratio_pos:
  assumes "0 < d"
  shows "mul_ratio v n d =
    (if in_i128 (v * n) then Inr (trunc_div (v * n) d) else Inl Overflow)"
  using assms trunc_div_in_i128 [of "v * n" d] by (auto simp: mul_ratio_def math_defs)

text \<open>A floored fee never exceeds the amount it is taken from.\<close>

lemma fee_le_value:
  assumes "(0 :: int) \<le> v" and "0 \<le> b" and "b \<le> 10000"
  shows "0 \<le> v * b div 10000" and "v * b div 10000 \<le> v"
proof -
  show "0 \<le> v * b div 10000" using assms by (simp add: pos_imp_zdiv_nonneg_iff)
  have "v * b \<le> v * 10000" using assms by (intro mult_left_mono) auto
  then have "v * b div 10000 \<le> v * 10000 div 10000" by (intro zdiv_mono1) auto
  then show "v * b div 10000 \<le> v" by simp
qed

lemma apply_fee_bps_eq:
  assumes "0 \<le> v" and "b \<le> MAX_FEE_BPS"
  shows "apply_fee_bps v b =
    (if in_i128 (v * int b) then Inr (v * int b div 10000) else Inl Overflow)"
  using assms by (auto simp: apply_fee_bps_def MAX_FEE_BPS_def mul_ratio_pos trunc_div_nonneg)

section \<open>Nonce revocation bitmap\<close>

record nonce_bitmap =
  bitmap :: bytes

definition bytes_get :: "bytes \<Rightarrow> nat \<Rightarrow> u8 option" where
  "bytes_get bs i = (if i < length bs then Some (bs ! i) else None)"

definition is_revoked :: "nonce_bitmap \<Rightarrow> u64 \<Rightarrow> bool" where
  "is_revoked b nonce =
     (let bit_index = nonce mod 256;
          byte_index = bit_index div 8;
          bit_in_byte = bit_index mod 8;
          byte = unwrap_or (bytes_get (bitmap b) byte_index) 0
      in byte AND push_bit bit_in_byte 1 \<noteq> 0)"

lemma is_revoked_bit:
  "length (bitmap b) = 32 \<Longrightarrow>
     is_revoked b n \<longleftrightarrow> bit (bitmap b ! ((n mod 256) div 8)) ((n mod 256) mod 8)"
  using bit_iff_and_push_bit_not_eq_0 [of "bitmap b ! ((n mod 256) div 8)" "(n mod 256) mod 8"]
  by (simp add: is_revoked_def Let_def bytes_get_def less_mult_imp_div_less)

section \<open>Constant-time comparison\<close>

primrec or_bytes :: "32 word \<Rightarrow> bytes \<Rightarrow> 32 word" where
  "or_bytes diff [] = diff"
| "or_bytes diff (x # xs) = or_bytes (diff OR ucast x) xs"

fun or_diffs :: "32 word \<Rightarrow> bytes \<Rightarrow> bytes \<Rightarrow> 32 word" where
  "or_diffs diff (x # xs) (y # ys) = or_diffs (diff OR ucast (x XOR y)) xs ys"
| "or_diffs diff xs ys = diff"

text \<open>The loop over the common prefix, then over each tail; lengths are 32-bit on the wasm target.\<close>

definition constant_time_eq :: "bytes \<Rightarrow> bytes \<Rightarrow> bool" where
  "constant_time_eq a b =
     (let diff = word_of_nat (length a) XOR word_of_nat (length b);
          common = (if length a < length b then length a else length b);
          diff = or_diffs diff (take common a) (take common b);
          diff = or_bytes diff (drop common a);
          diff = or_bytes diff (drop common b)
      in diff = 0)"

lemma ucast_byte_0_iff [simp]: "(ucast (x :: u8) :: 32 word) = 0 \<longleftrightarrow> x = 0"
  by (simp add: word_uint_eq_iff uint_up_ucast is_up)

lemma xor_word_0_iff [simp]: "(x :: 'a :: len word) XOR y = 0 \<longleftrightarrow> x = y"
  by (auto simp: bit_eq_iff bit_xor_iff)

lemma or_bytes_0_iff: "or_bytes d xs = 0 \<longleftrightarrow> d = 0 \<and> (\<forall>x\<in>set xs. x = 0)"
  by (induction xs arbitrary: d) (auto simp: or_eq_0_iff)

lemma or_diffs_0_iff:
  "length xs = length ys \<Longrightarrow> or_diffs d xs ys = 0 \<longleftrightarrow> d = 0 \<and> xs = ys"
  by (induction d xs ys rule: or_diffs.induct) (auto simp: or_eq_0_iff)

lemma constant_time_eq_iff:
  assumes "length a < 2 ^ 32" and "length b < 2 ^ 32"
  shows "constant_time_eq a b \<longleftrightarrow> a = b"
proof -
  have len: "(word_of_nat (length a) :: 32 word) XOR word_of_nat (length b) = 0
      \<longleftrightarrow> length a = length b"
    using assms by (auto simp: word_of_nat_eq_iff take_bit_nat_eq_self)
  show ?thesis
  proof (cases "length a = length b")
    case True
    then show ?thesis
      using len by (simp add: constant_time_eq_def Let_def or_bytes_0_iff or_diffs_0_iff)
  next
    case False
    with len show ?thesis
      by (auto simp: constant_time_eq_def Let_def or_bytes_0_iff or_diffs_0_iff)
  qed
qed

section \<open>Reentrancy lock\<close>

text \<open>The instance-storage flag \<open>ReentrancyDataKey::Lock\<close>, absent before the first use.\<close>

definition acquire :: "bool option \<Rightarrow> bool option outcome" where
  "acquire lock = (if unwrap_or lock False then Err ReentrancyBlocked else Ok (Some True))"

definition release :: "bool option \<Rightarrow> bool option" where
  "release lock = Some False"

lemma acquire_Ok_iff [ok_iff]: "acquire l = Ok l' \<longleftrightarrow> \<not> unwrap_or l False \<and> l' = Some True"
  by (auto simp: acquire_def)

section \<open>Big-endian encoding\<close>

text \<open>\<open>to_be_bytes\<close> of an unsigned integer of \<open>n\<close> bytes.\<close>

primrec be_bytes :: "nat \<Rightarrow> nat \<Rightarrow> bytes" where
  "be_bytes 0 v = []"
| "be_bytes (Suc n) v = be_bytes n (v div 256) @ [word_of_nat (v mod 256)]"

lemma length_be_bytes [simp]: "length (be_bytes n v) = n"
  by (induction n arbitrary: v) simp_all

lemma byte_of_nat_inject: "a < 256 \<Longrightarrow> b < 256 \<Longrightarrow> (word_of_nat a :: u8) = word_of_nat b \<longleftrightarrow> a = b"
  by (simp add: word_of_nat_eq_iff take_bit_eq_mod)

lemma be_bytes_inject:
  "v < 256 ^ n \<Longrightarrow> w < 256 ^ n \<Longrightarrow> be_bytes n v = be_bytes n w \<longleftrightarrow> v = w"
proof (induction n arbitrary: v w)
  case (Suc n)
  have "v div 256 < 256 ^ n" "w div 256 < 256 ^ n"
    using Suc.prems by (simp_all add: div_less_iff_less_mult mult.commute)
  then have "be_bytes (Suc n) v = be_bytes (Suc n) w \<longleftrightarrow> v div 256 = w div 256 \<and> v mod 256 = w mod 256"
    using Suc.IH byte_of_nat_inject [of "v mod 256" "w mod 256"] by simp
  also have "\<dots> \<longleftrightarrow> v = w" by (metis div_mult_mod_eq)
  finally show ?case .
qed simp

definition i128_be_bytes :: "i128 \<Rightarrow> bytes" where
  "i128_be_bytes x = be_bytes 16 (nat (x mod 2 ^ 128))"

lemma i128_be_bytes_inject:
  assumes "in_i128 x" "in_i128 y" "i128_be_bytes x = i128_be_bytes y"
  shows "x = y"
proof -
  have "nat (z mod 2 ^ 128) < 256 ^ 16" for z :: int by (simp add: nat_less_iff)
  then have "nat (x mod 2 ^ 128) = nat (y mod 2 ^ 128)"
    using assms(3) by (simp add: i128_be_bytes_def be_bytes_inject)
  then have "x mod 2 ^ 128 = y mod 2 ^ 128" by (simp add: eq_nat_nat_iff)
  then have "(x + 2 ^ 127) mod 2 ^ 128 = (y + 2 ^ 127) mod 2 ^ 128" by (metis mod_add_left_eq)
  moreover have "0 \<le> x + 2 ^ 127" "x + 2 ^ 127 < 2 ^ 128" "0 \<le> y + 2 ^ 127" "y + 2 ^ 127 < 2 ^ 128"
    using assms(1,2) by (simp_all add: in_i128_def)
  ultimately show ?thesis by simp
qed

end
