(* ===== verification/Receipt_Shard.thy ===== *)
theory Receipt_Shard
  imports Merkle Common
begin

text \<open>
  The storage shard \<open>contracts/receipt-shard/src\<close>: batch records for one half-open range of batch
  ids (\<open>lib.rs\<close>), retention-based eviction with bounties (\<open>pruning.rs\<close>), health counters
  (\<open>diagnostics.rs\<close>) and consolidation between shards (\<open>consolidation.rs\<close>). Every storage key of
  the contract is a field; instance keys are optional because the code reports their absence.
  Rent and archival (\<open>extend_ttl\<close>) do not change what a key reads and are left out.

  The lemmas give the exact effect of both pruning loops, an invariant that ties the counters to
  the stored records and that every operation keeps, the correctness of the binary search over
  retained batches, and the exact effect of a consolidation.
\<close>

section \<open>State\<close>

record batch_record =
  br_root :: bytes
  br_count :: u32
  br_period_start :: u64
  br_period_end :: u64
  br_anchored_ledger :: u32

record shard_stats =
  ss_live_batches :: u64
  ss_live_leaves :: u64
  ss_total_leaves :: u64
  ss_high_water :: u64
  ss_max_batch_count :: u32

datatype shard_event =
    ReceiptsPrunedEvent address u32 u64
  | ShardsConsolidated u64 u64 u32

record shard =
  sh_router :: "address option"
  sh_start_batch_id :: "u64 option"
  sh_end_batch_id :: "u64 option"
  sh_batch :: "u64 \<rightharpoonup> batch_record"
  sh_pruned_up_to :: "u64 option"
  sh_prune_bounty :: "address \<rightharpoonup> i128"
  sh_stats :: "shard_stats option"
  sh_active :: "bool option"
  sh_events :: "shard_event list"

definition SHARD_MAX_PROOF_LEN :: u32 where
  "SHARD_MAX_PROOF_LEN = 10"

definition RETENTION_LEDGERS :: u32 where
  "RETENTION_LEDGERS = 3110400"

definition PRUNE_BOUNTY_PER_BATCH :: i128 where
  "PRUNE_BOUNTY_PER_BATCH = 100"

definition shard_constructor :: "address \<Rightarrow> u64 \<Rightarrow> u64 \<Rightarrow> shard" where
  "shard_constructor router start_batch_id end_batch_id =
     \<lparr>sh_router = Some router, sh_start_batch_id = Some start_batch_id,
      sh_end_batch_id = Some end_batch_id, sh_batch = Map.empty,
      sh_pruned_up_to = Some start_batch_id, sh_prune_bounty = Map.empty,
      sh_stats = None, sh_active = Some True, sh_events = []\<rparr>"

section \<open>Health counters\<close>

definition load_stats :: "shard \<Rightarrow> shard_stats" where
  "load_stats s = unwrap_or (sh_stats s)
     \<lparr>ss_live_batches = 0, ss_live_leaves = 0, ss_total_leaves = 0, ss_high_water = 0,
      ss_max_batch_count = 0\<rparr>"

definition store_stats :: "shard \<Rightarrow> shard_stats \<Rightarrow> shard" where
  "store_stats s stats = s\<lparr>sh_stats := Some stats\<rparr>"

fun bit_length :: "nat \<Rightarrow> nat" where
  "bit_length n = (if n = 0 then 0 else Suc (bit_length (n div 2)))"

declare bit_length.simps [simp del]

definition leading_zeros :: "u32 \<Rightarrow> u32" where
  "leading_zeros n = 32 - bit_length n"

definition merkle_depth :: "u32 \<Rightarrow> u32" where
  "merkle_depth cnt = (if cnt \<le> 1 then 0 else 32 - leading_zeros (cnt - 1))"

definition record_anchor :: "shard \<Rightarrow> u64 \<Rightarrow> batch_record option \<Rightarrow> u32 \<Rightarrow> shard outcome" where
  "record_anchor s batch_id previous cnt =
     (let stats = load_stats s in
      obind (case previous of
          Some old \<Rightarrow>
            Ok (stats\<lparr>ss_live_leaves := saturating_sub (ss_live_leaves stats) (br_count old)\<rparr>)
        | None \<Rightarrow> obind (u64_add (ss_live_batches stats) 1)
            (\<lambda>n. Ok (stats\<lparr>ss_live_batches := n\<rparr>))) (\<lambda>stats.
      obind (u64_add (ss_live_leaves stats) cnt) (\<lambda>live.
      obind (u64_add (ss_total_leaves stats) cnt) (\<lambda>total_leaves.
      obind (u64_add batch_id 1) (\<lambda>high.
      Ok (store_stats s (stats\<lparr>ss_live_leaves := live, ss_total_leaves := total_leaves,
        ss_high_water := max (ss_high_water stats) high,
        ss_max_batch_count := max (ss_max_batch_count stats) cnt\<rparr>)))))))"

definition record_removals :: "shard \<Rightarrow> u64 \<Rightarrow> u64 \<Rightarrow> shard" where
  "record_removals s cnt leaves =
     (if cnt = 0 then s
      else let stats = load_stats s in
        store_stats s (stats\<lparr>
          ss_live_batches := saturating_sub (ss_live_batches stats) cnt,
          ss_live_leaves := saturating_sub (ss_live_leaves stats) leaves\<rparr>))"

definition record_migration :: "shard \<Rightarrow> u64 \<Rightarrow> u32 \<Rightarrow> shard outcome" where
  "record_migration s batch_id cnt =
     (let stats = load_stats s in
      obind (u64_add (ss_live_batches stats) 1) (\<lambda>n.
      obind (u64_add (ss_live_leaves stats) cnt) (\<lambda>live.
      obind (u64_add (ss_total_leaves stats) cnt) (\<lambda>total_leaves.
      obind (u64_add batch_id 1) (\<lambda>high.
      Ok (store_stats s (stats\<lparr>ss_live_batches := n, ss_live_leaves := live,
        ss_total_leaves := total_leaves,
        ss_high_water := max (ss_high_water stats) high,
        ss_max_batch_count := max (ss_max_batch_count stats) cnt\<rparr>)))))))"

text \<open>Binary search for the first batch still inside the retention window.\<close>

definition is_retained :: "env \<Rightarrow> shard \<Rightarrow> u64 \<Rightarrow> bool" where
  "is_retained E s k = (case sh_batch s k of
     None \<Rightarrow> False
   | Some r \<Rightarrow> saturating_sub (sequence E) (br_anchored_ledger r) < RETENTION_LEDGERS)"

function retained_search :: "(u64 \<Rightarrow> bool) \<Rightarrow> u64 \<Rightarrow> u64 \<Rightarrow> u64" where
  "retained_search retained lo hi =
     (if lo < hi
      then let mid = lo + (hi - lo) div 2
           in if retained mid then retained_search retained lo mid
              else retained_search retained (mid + 1) hi
      else lo)"
  by pat_completeness auto
termination
  by (relation "measure (\<lambda>(retained, lo, hi). hi - lo)") auto

declare retained_search.simps [simp del]

definition count_retained :: "env \<Rightarrow> shard \<Rightarrow> u64 \<Rightarrow> u64 \<Rightarrow> u64" where
  "count_retained E s cursor high_water =
     high_water - retained_search (is_retained E s) cursor high_water"

record shard_diagnostics =
  sd_start_batch_id :: u64
  sd_end_batch_id :: u64
  sd_oldest_unpruned_batch_id :: u64
  sd_high_water_batch_id :: u64
  sd_live_batches :: u64
  sd_live_leaves :: u64
  sd_total_leaves :: u64
  sd_active_dispute_count :: u64
  sd_max_merkle_depth :: u32
  sd_storage_entries :: u64
  sd_consistent :: bool

definition get_shard_diagnostics :: "env \<Rightarrow> shard \<Rightarrow> shard_diagnostics outcome" where
  "get_shard_diagnostics E s =
     obind (ok_or (sh_start_batch_id s) NotInitialized) (\<lambda>start.
     obind (ok_or (sh_end_batch_id s) NotInitialized) (\<lambda>end_id.
     let cursor = unwrap_or (sh_pruned_up_to s) start;
         stats = load_stats s;
         high_water = max (ss_high_water stats) start;
         depth = merkle_depth (ss_max_batch_count stats);
         active_dispute_count =
           (if cursor < high_water
            then min (count_retained E s cursor high_water) (ss_live_batches stats) else 0);
         consistent =
           (start \<le> cursor \<and> cursor \<le> end_id \<and> start \<le> high_water \<and> high_water \<le> end_id \<and>
            ss_live_batches stats \<le> saturating_sub high_water cursor \<and>
            ss_live_leaves stats \<le> ss_total_leaves stats \<and>
            depth \<le> SHARD_MAX_PROOF_LEN)
     in Ok \<lparr>sd_start_batch_id = start, sd_end_batch_id = end_id,
          sd_oldest_unpruned_batch_id = cursor, sd_high_water_batch_id = high_water,
          sd_live_batches = ss_live_batches stats, sd_live_leaves = ss_live_leaves stats,
          sd_total_leaves = ss_total_leaves stats,
          sd_active_dispute_count = active_dispute_count, sd_max_merkle_depth = depth,
          sd_storage_entries = ss_live_batches stats, sd_consistent = consistent\<rparr>))"

section \<open>Anchoring and reading\<close>

definition shard_is_active :: "shard \<Rightarrow> bool" where
  "shard_is_active s = unwrap_or (sh_active s) True"

definition shard_anchor_batch ::
  "env \<Rightarrow> shard \<Rightarrow> u64 \<Rightarrow> bytes \<Rightarrow> u32 \<Rightarrow> u64 \<Rightarrow> u64 \<Rightarrow> shard outcome" where
  "shard_anchor_batch E s batch_id root cnt period_start period_end =
     obind (ok_or (sh_active s) NotInitialized) (\<lambda>active.
     if \<not> active then Err Unauthorized else
     obind (ok_or (sh_router s) NotInitialized) (\<lambda>router.
     obind (require_auth E router) (\<lambda>_.
     obind (ok_or (sh_start_batch_id s) NotInitialized) (\<lambda>start.
     obind (ok_or (sh_end_batch_id s) NotInitialized) (\<lambda>end_id.
     if batch_id < start \<or> batch_id \<ge> end_id then Err BatchNotFound else
     let rec = \<lparr>br_root = root, br_count = cnt, br_period_start = period_start,
           br_period_end = period_end, br_anchored_ledger = sequence E\<rparr>;
         previous = sh_batch s batch_id
     in obind (record_anchor s batch_id previous cnt) (\<lambda>s.
        Ok (s\<lparr>sh_batch := (sh_batch s)(batch_id \<mapsto> rec)\<rparr>)))))))"

definition shard_get_batch :: "shard \<Rightarrow> u64 \<Rightarrow> batch_record outcome" where
  "shard_get_batch s batch_id = ok_or (sh_batch s batch_id) BatchNotFound"

definition shard_verify_receipt ::
  "(bytes \<Rightarrow> bytes) \<Rightarrow> shard \<Rightarrow> u64 \<Rightarrow> bytes \<Rightarrow> bytes list \<Rightarrow> bool outcome" where
  "shard_verify_receipt H s batch_id leaf proof =
     (if length proof > SHARD_MAX_PROOF_LEN then Err ProofTooLong
      else obind (shard_get_batch s batch_id) (\<lambda>batch.
        let computed_hash = shard_fold_proof H leaf proof
        in Ok (computed_hash = br_root batch)))"

definition shard_extend_batch_ttl :: "shard \<Rightarrow> u64 \<Rightarrow> unit outcome" where
  "shard_extend_batch_ttl s batch_id =
     (if \<not> shard_is_active s then Trap
      else if sh_batch s batch_id = None then Err BatchNotFound
      else Ok ())"

definition shard_get_router :: "shard \<Rightarrow> address outcome" where
  "shard_get_router s = ok_or (sh_router s) NotInitialized"

definition shard_get_range :: "shard \<Rightarrow> (u64 \<times> u64) outcome" where
  "shard_get_range s =
     obind (ok_or (sh_start_batch_id s) NotInitialized) (\<lambda>start.
     obind (ok_or (sh_end_batch_id s) NotInitialized) (\<lambda>end_id.
     Ok (start, end_id)))"

section \<open>Pruning\<close>

text \<open>
  The loop of \<open>prune_batches\<close> over the cursor, the number of ids passed and the totals of removed
  records. \<open>cursor < ceiling\<close> and \<open>pruned < max_batches\<close> guard the increments, and at most
  \<open>2^32 - 1\<close> counts of at most \<open>2^32 - 1\<close> leaves are summed, so none of them can overflow.
\<close>

record prune_state =
  ps_batch :: "u64 \<rightharpoonup> batch_record"
  ps_cursor :: u64
  ps_pruned :: u64
  ps_removed_batches :: u64
  ps_removed_leaves :: u64

definition sweep_record :: "batch_record \<Rightarrow> prune_state \<Rightarrow> prune_state" where
  "sweep_record rec p = \<lparr>ps_batch = (ps_batch p)(ps_cursor p := None),
     ps_cursor = ps_cursor p + 1, ps_pruned = ps_pruned p + 1,
     ps_removed_batches = ps_removed_batches p + 1,
     ps_removed_leaves = ps_removed_leaves p + br_count rec\<rparr>"

definition sweep_absent :: "prune_state \<Rightarrow> prune_state" where
  "sweep_absent p = p\<lparr>ps_cursor := ps_cursor p + 1, ps_pruned := ps_pruned p + 1\<rparr>"

lemma sweep_cursor [simp]:
  "ps_cursor (sweep_record rec p) = Suc (ps_cursor p)" "ps_cursor (sweep_absent p) = Suc (ps_cursor p)"
  "ps_pruned (sweep_record rec p) = Suc (ps_pruned p)" "ps_pruned (sweep_absent p) = Suc (ps_pruned p)"
  by (simp_all add: sweep_record_def sweep_absent_def)

function prune_loop :: "u32 \<Rightarrow> u64 \<Rightarrow> u64 \<Rightarrow> prune_state \<Rightarrow> prune_state" where
  "prune_loop before_ledger ceiling max_batches p =
     (if ps_cursor p < ceiling \<and> ps_pruned p < max_batches
      then case ps_batch p (ps_cursor p) of
          Some rec \<Rightarrow>
            if br_anchored_ledger rec < before_ledger
            then prune_loop before_ledger ceiling max_batches
              (sweep_record rec p)
            else p
        | None \<Rightarrow> prune_loop before_ledger ceiling max_batches
            (sweep_absent p)
      else p)"
  by pat_completeness auto
termination
  by (relation "measure (\<lambda>(b, ceiling, m, p). ceiling - ps_cursor p)") auto

declare prune_loop.simps [simp del]

definition shard_prune_batches ::
  "env \<Rightarrow> shard \<Rightarrow> u32 \<Rightarrow> u32 \<Rightarrow> u64 \<Rightarrow> ((u64 \<times> u64) \<times> shard) outcome" where
  "shard_prune_batches E s before_ledger max_batches high_water_batch_id =
     (if \<not> shard_is_active s then Trap else
      obind (ok_or (sh_router s) NotInitialized) (\<lambda>router.
      obind (require_auth E router) (\<lambda>_.
      obind (ok_or (sh_end_batch_id s) NotInitialized) (\<lambda>end_batch_id.
      obind (ok_or (sh_pruned_up_to s) NotInitialized) (\<lambda>cursor.
      let ceiling = min high_water_batch_id end_batch_id;
          p = prune_loop before_ledger ceiling max_batches
                \<lparr>ps_batch = sh_batch s, ps_cursor = cursor, ps_pruned = 0,
                 ps_removed_batches = 0, ps_removed_leaves = 0\<rparr>;
          s = record_removals (s\<lparr>sh_batch := ps_batch p\<rparr>)
                (ps_removed_batches p) (ps_removed_leaves p);
          s = (if ps_pruned p > 0 then s\<lparr>sh_pruned_up_to := Some (ps_cursor p)\<rparr> else s)
      in Ok ((ps_cursor p, ps_pruned p), s))))))"

function expire_loop :: "u32 \<Rightarrow> u64 \<Rightarrow> u32 \<Rightarrow> prune_state \<Rightarrow> prune_state" where
  "expire_loop current_ledger end_id max_count p =
     (if ps_cursor p < end_id \<and> ps_pruned p < max_count
      then case ps_batch p (ps_cursor p) of
          Some rec \<Rightarrow>
            if saturating_sub current_ledger (br_anchored_ledger rec) \<ge> RETENTION_LEDGERS
            then expire_loop current_ledger end_id max_count
              (sweep_record rec p)
            else p
        | None \<Rightarrow> p
      else p)"
  by pat_completeness auto
termination
  by (relation "measure (\<lambda>(b, end_id, m, p). end_id - ps_cursor p)") auto

declare expire_loop.simps [simp del]

definition prune_expired_receipts ::
  "env \<Rightarrow> shard \<Rightarrow> address \<Rightarrow> u32 \<Rightarrow> (u32 \<times> shard) outcome" where
  "prune_expired_receipts E s pruner max_count =
     (if \<not> shard_is_active s then Trap else
      obind (require_auth E pruner) (\<lambda>_.
      obind (unwrap (sh_end_batch_id s)) (\<lambda>end_id.
      obind (unwrap (sh_pruned_up_to s)) (\<lambda>cursor.
      let p = expire_loop (sequence E) end_id max_count
                \<lparr>ps_batch = sh_batch s, ps_cursor = cursor, ps_pruned = 0,
                 ps_removed_batches = 0, ps_removed_leaves = 0\<rparr>;
          s = record_removals (s\<lparr>sh_batch := ps_batch p\<rparr>) (ps_pruned p) (ps_removed_leaves p)
      in obind (if ps_pruned p > 0
           then let accrued = unwrap_or (sh_prune_bounty s pruner) 0 in
             obind (i128_op (accrued + PRUNE_BOUNTY_PER_BATCH * int (ps_pruned p))) (\<lambda>b.
             Ok (s\<lparr>sh_pruned_up_to := Some (ps_cursor p),
                   sh_prune_bounty := (sh_prune_bounty s)(pruner \<mapsto> b)\<rparr>))
           else Ok s) (\<lambda>s.
         Ok (ps_pruned p,
           s\<lparr>sh_events := sh_events s @
               [ReceiptsPrunedEvent pruner (ps_pruned p) (ps_cursor p)]\<rparr>))))))"

definition claim_prune_bounty ::
  "'w token \<Rightarrow> env \<Rightarrow> 'w \<Rightarrow> shard \<Rightarrow> address \<Rightarrow> address \<Rightarrow> (i128 \<times> 'w \<times> shard) outcome" where
  "claim_prune_bounty T E w s tok claimer =
     obind (require_auth E claimer) (\<lambda>_.
     let accrued = unwrap_or (sh_prune_bounty s claimer) 0;
         s = s\<lparr>sh_prune_bounty := (sh_prune_bounty s)(claimer \<mapsto> 0)\<rparr>
     in if accrued > 0
        then let contract_addr = current_contract_address E;
                 balance = tok_balance T w tok contract_addr;
                 payout = min accrued balance
             in if payout > 0
                then obind (unwrap (tok_transfer T w tok contract_addr claimer payout)) (\<lambda>w.
                  Ok (payout, w, s))
                else Ok (payout, w, s)
        else Ok (0, w, s))"

section \<open>Consolidation\<close>

type_synonym shards = "address \<rightharpoonup> shard"

definition require_active_and_router :: "env \<Rightarrow> shard \<Rightarrow> unit outcome" where
  "require_active_and_router E s =
     (if \<not> shard_is_active s then Trap
      else obind (unwrap (sh_router s)) (\<lambda>router. require_auth E router))"

definition has_live_records :: "shard \<Rightarrow> bool outcome" where
  "has_live_records s =
     obind (ok_or (sh_start_batch_id s) NotInitialized) (\<lambda>start.
     obind (ok_or (sh_end_batch_id s) NotInitialized) (\<lambda>end_id.
     Ok (list_ex (\<lambda>batch_id. sh_batch s batch_id \<noteq> None) [start..<end_id])))"

definition decommission_internal :: "shard \<Rightarrow> shard" where
  "decommission_internal s = s\<lparr>sh_active := Some False\<rparr>"

definition decommission :: "env \<Rightarrow> shard \<Rightarrow> shard outcome" where
  "decommission E s =
     obind (require_active_and_router E s) (\<lambda>_.
     if has_live_records s = Ok False then Ok (decommission_internal s) else Trap)"

definition insert_migrated_batch ::
  "env \<Rightarrow> shard \<Rightarrow> address \<Rightarrow> u64 \<Rightarrow> batch_record \<Rightarrow> (batch_record \<times> shard) outcome" where
  "insert_migrated_batch E s source batch_id rec =
     (if \<not> shard_is_active s then Trap else
      obind (require_auth E source) (\<lambda>_.
      obind (unwrap (sh_start_batch_id s)) (\<lambda>start.
      obind (unwrap (sh_end_batch_id s)) (\<lambda>end_id.
      if \<not> (batch_id \<ge> start \<and> batch_id < end_id) then Trap
      else if sh_batch s batch_id \<noteq> None then Trap
      else obind (record_migration (s\<lparr>sh_batch := (sh_batch s)(batch_id \<mapsto> rec)\<rparr>)
             batch_id (br_count rec)) (\<lambda>s.
        Ok (rec, s))))))"

text \<open>
  One iteration of \<open>consolidate\<close> for each id: read the record here, hand it to the destination
  through the catching client (any failure there becomes \<open>ShardCallFailed\<close>), compare what came
  back and delete it here.
\<close>

primrec migrate_all :: "env \<Rightarrow> address \<Rightarrow> u64 list \<Rightarrow> shards \<Rightarrow> shards outcome" where
  "migrate_all E destination [] W = Ok W"
| "migrate_all E destination (batch_id # ids) W =
     (let source = current_contract_address E in
      obind (unwrap (W source)) (\<lambda>s.
      obind (ok_or (sh_batch s batch_id) BatchNotFound) (\<lambda>rec.
      case W destination of
        None \<Rightarrow> Err ShardCallFailed
      | Some d \<Rightarrow>
         (case insert_migrated_batch (callee_env E destination) d source batch_id rec of
            Ok (stored, d') \<Rightarrow>
              if stored \<noteq> rec then Err RoundTripMismatch
              else let s' = record_removals (s\<lparr>sh_batch := (sh_batch s)(batch_id := None)\<rparr>)
                              1 (br_count rec)
                   in migrate_all E destination ids (W(destination \<mapsto> d', source \<mapsto> s'))
          | _ \<Rightarrow> Err ShardCallFailed))))"

definition consolidate ::
  "env \<Rightarrow> shards \<Rightarrow> address \<Rightarrow> u64 \<Rightarrow> u64 \<Rightarrow> u64 list \<Rightarrow> (u32 \<times> shards) outcome" where
  "consolidate E W destination source_shard_id destination_shard_id batch_ids =
     (let source = current_contract_address E in
      obind (unwrap (W source)) (\<lambda>s.
      obind (require_active_and_router E s) (\<lambda>_.
      if destination = source then Err DestinationMismatch else
      obind (migrate_all E destination batch_ids W) (\<lambda>W.
      obind (unwrap (W source)) (\<lambda>s.
      let migrated = length batch_ids;
          s = (if migrated > 0 \<and> has_live_records s = Ok False
               then decommission_internal s else s);
          s = (if migrated > 0
               then s\<lparr>sh_events := sh_events s @
                      [ShardsConsolidated source_shard_id destination_shard_id migrated]\<rparr>
               else s)
      in Ok (migrated, W(source \<mapsto> s)))))))"

section \<open>What a pruning loop does\<close>

definition leaves_of :: "(u64 \<rightharpoonup> batch_record) \<Rightarrow> nat" where
  "leaves_of m = (\<Sum>k\<in>dom m. br_count (the (m k)))"

lemma leaves_of_upd:
  assumes "finite (dom m)"
  shows "leaves_of (m(k \<mapsto> r)) = leaves_of (m(k := None)) + br_count r"
proof -
  have "leaves_of (m(k \<mapsto> r)) = (\<Sum>j\<in>insert k (dom m - {k}). br_count (the ((m(k \<mapsto> r)) j)))"
    by (simp add: leaves_of_def insert_Diff_if insert_absorb)
  also have "\<dots> = br_count r + (\<Sum>j\<in>dom m - {k}. br_count (the ((m(k \<mapsto> r)) j)))"
    using assms by (subst sum.insert) auto
  also have "(\<Sum>j\<in>dom m - {k}. br_count (the ((m(k \<mapsto> r)) j))) = leaves_of (m(k := None))"
    unfolding leaves_of_def by (intro sum.cong) auto
  finally show ?thesis by (simp add: fun_upd_def)
qed

lemma leaves_of_remove:
  assumes "finite (dom m)" and "m k = Some r"
  shows "leaves_of m = leaves_of (m(k := None)) + br_count r"
proof -
  have "m(k \<mapsto> r) = m" using assms(2) by (rule map_upd_triv)
  with leaves_of_upd [OF assms(1), of k r] show ?thesis by simp
qed

lemma card_dom_remove:
  assumes "finite (dom m)" and "m k = Some r"
  shows "card (dom m) = Suc (card (dom (m(k := None))))"
  using card_Suc_Diff1 [OF assms(1) domI [of m, OF assms(2)]] by (simp add: dom_fun_upd)

text \<open>Computation rules of the two loops: they stop, or sweep one id and go on.\<close>

lemma prune_loop_induct [case_names stop found absent]:
  assumes "\<And>p. \<not> (ps_cursor p < c \<and> ps_pruned p < m) \<or>
      (\<exists>r. ps_batch p (ps_cursor p) = Some r \<and> b \<le> br_anchored_ledger r) \<Longrightarrow> P p p"
    and "\<And>p r p'. ps_cursor p < c \<Longrightarrow> ps_pruned p < m \<Longrightarrow> ps_batch p (ps_cursor p) = Some r \<Longrightarrow>
      br_anchored_ledger r < b \<Longrightarrow> P (sweep_record r p) p' \<Longrightarrow> P p p'"
    and "\<And>p p'. ps_cursor p < c \<Longrightarrow> ps_pruned p < m \<Longrightarrow> ps_batch p (ps_cursor p) = None \<Longrightarrow>
      P (sweep_absent p) p' \<Longrightarrow> P p p'"
  shows "P p (prune_loop b c m p)"
  using assms
proof (induction b c m p rule: prune_loop.induct)
  case (1 b c m p)
  show ?case
  proof (cases "ps_cursor p < c \<and> ps_pruned p < m")
    case False
    then have "prune_loop b c m p = p" by (subst prune_loop.simps) auto
    with False "1.prems"(1) [of p] show ?thesis by simp
  next
    case True
    with "1" show ?thesis
      by (subst prune_loop.simps) (auto split: option.splits)
  qed
qed

lemma expire_loop_induct [case_names stop found]:
  assumes "\<And>p. \<not> (ps_cursor p < c \<and> ps_pruned p < m) \<or> ps_batch p (ps_cursor p) = None \<or>
      (\<exists>r. ps_batch p (ps_cursor p) = Some r \<and>
         saturating_sub b (br_anchored_ledger r) < RETENTION_LEDGERS) \<Longrightarrow> P p p"
    and "\<And>p r p'. ps_cursor p < c \<Longrightarrow> ps_pruned p < m \<Longrightarrow> ps_batch p (ps_cursor p) = Some r \<Longrightarrow>
      RETENTION_LEDGERS \<le> saturating_sub b (br_anchored_ledger r) \<Longrightarrow>
      P (sweep_record r p) p' \<Longrightarrow> P p p'"
  shows "P p (expire_loop b c m p)"
  using assms
proof (induction b c m p rule: expire_loop.induct)
  case (1 b c m p)
  show ?case
  proof (cases "ps_cursor p < c \<and> ps_pruned p < m")
    case False
    then have "expire_loop b c m p = p" by (subst expire_loop.simps) auto
    with False "1.prems"(1) [of p] show ?thesis by simp
  next
    case True
    with "1" show ?thesis
      by (subst expire_loop.simps) (auto split: option.splits)
  qed
qed

text \<open>
  Both loops sweep a contiguous range: every id between the old and the new cursor is absent
  afterwards, every other id is untouched, and the totals account for what was removed.
\<close>

definition swept :: "prune_state \<Rightarrow> prune_state \<Rightarrow> bool" where
  "swept p p' \<longleftrightarrow> ps_cursor p \<le> ps_cursor p' \<and>
     ps_pruned p' = ps_pruned p + (ps_cursor p' - ps_cursor p) \<and>
     (\<forall>k. ps_batch p' k = (if ps_cursor p \<le> k \<and> k < ps_cursor p' then None else ps_batch p k)) \<and>
     (finite (dom (ps_batch p)) \<longrightarrow>
        ps_removed_batches p' + card (dom (ps_batch p'))
          = ps_removed_batches p + card (dom (ps_batch p)) \<and>
        ps_removed_leaves p' + leaves_of (ps_batch p')
          = ps_removed_leaves p + leaves_of (ps_batch p))"

lemma swept_refl: "swept p p"
  by (auto simp: swept_def)

lemma swept_record:
  assumes r: "ps_batch p (ps_cursor p) = Some r" and "swept (sweep_record r p) p'"
  shows "swept p p'"
proof -
  note * = leaves_of_remove [of "ps_batch p", OF _ r] card_dom_remove [of "ps_batch p", OF _ r]
  from assms(2) show ?thesis
    unfolding swept_def sweep_record_def using * by auto
qed

lemma swept_absent:
  assumes "ps_batch p (ps_cursor p) = None" and "swept (sweep_absent p) p'"
  shows "swept p p'"
  using assms by (auto simp: swept_def sweep_absent_def not_less_eq_eq le_Suc_eq dest: order.antisym)

lemma prune_loop_swept: "swept p (prune_loop b c m p)"
  by (rule prune_loop_induct) (auto intro: swept_refl swept_record swept_absent)

lemma expire_loop_swept: "swept p (expire_loop b c m p)"
  by (rule expire_loop_induct) (auto intro: swept_refl swept_record)

lemma prune_loop_bounds:
  "ps_cursor (prune_loop b c m p) \<le> max (ps_cursor p) c \<and>
   ps_pruned (prune_loop b c m p) \<le> max (ps_pruned p) m"
  by (rule prune_loop_induct [where P = "\<lambda>p p'. ps_cursor p' \<le> max (ps_cursor p) c \<and>
      ps_pruned p' \<le> max (ps_pruned p) m"]) auto

lemma expire_loop_bounds:
  "ps_cursor (expire_loop b c m p) \<le> max (ps_cursor p) c \<and>
   ps_pruned (expire_loop b c m p) \<le> max (ps_pruned p) m"
  by (rule expire_loop_induct [where P = "\<lambda>p p'. ps_cursor p' \<le> max (ps_cursor p) c \<and>
      ps_pruned p' \<le> max (ps_pruned p) m"]) auto

text \<open>Only old enough records are removed, and the loop stops only for one of its reasons.\<close>

lemma prune_loop_old:
  "\<forall>k r. ps_cursor p \<le> k \<and> k < ps_cursor (prune_loop b c m p) \<and> ps_batch p k = Some r \<longrightarrow>
     br_anchored_ledger r < b"
proof (rule prune_loop_induct [where P = "\<lambda>p p'. \<forall>k r. ps_cursor p \<le> k \<and> k < ps_cursor p' \<and>
    ps_batch p k = Some r \<longrightarrow> br_anchored_ledger r < b"], goal_cases)
  case (2 p r p')
  show ?case
  proof (intro allI impI)
    fix k ra assume k: "ps_cursor p \<le> k \<and> k < ps_cursor p' \<and> ps_batch p k = Some ra"
    show "br_anchored_ledger ra < b"
      using 2(3,4) 2(5) [rule_format, of k ra] k
      by (cases "k = ps_cursor p") (auto simp: sweep_record_def)
  qed
next
  case (3 p p')
  show ?case
  proof (intro allI impI)
    fix k ra assume k: "ps_cursor p \<le> k \<and> k < ps_cursor p' \<and> ps_batch p k = Some ra"
    show "br_anchored_ledger ra < b"
      using 3(3) 3(4) [rule_format, of k ra] k
      by (cases "k = ps_cursor p") (auto simp: sweep_absent_def)
  qed
qed auto

lemma expire_loop_old:
  "\<forall>k. ps_cursor p \<le> k \<and> k < ps_cursor (expire_loop b c m p) \<longrightarrow>
     (\<exists>r. ps_batch p k = Some r \<and> RETENTION_LEDGERS \<le> saturating_sub b (br_anchored_ledger r))"
proof (rule expire_loop_induct [where P = "\<lambda>p p'. \<forall>k. ps_cursor p \<le> k \<and> k < ps_cursor p' \<longrightarrow>
     (\<exists>r. ps_batch p k = Some r \<and> RETENTION_LEDGERS \<le> saturating_sub b (br_anchored_ledger r))"],
    goal_cases)
  case (2 p r p')
  show ?case
  proof (intro allI impI)
    fix k assume k: "ps_cursor p \<le> k \<and> k < ps_cursor p'"
    show "\<exists>r. ps_batch p k = Some r \<and>
        RETENTION_LEDGERS \<le> saturating_sub b (br_anchored_ledger r)"
      using 2 k by (cases "k = ps_cursor p") (auto simp: sweep_record_def Suc_le_eq)
  qed
qed auto

lemma prune_loop_stops:
  "ps_cursor (prune_loop b c m p) < c \<and> ps_pruned (prune_loop b c m p) < m \<longrightarrow>
     (\<exists>r. ps_batch p (ps_cursor (prune_loop b c m p)) = Some r \<and> b \<le> br_anchored_ledger r)"
proof (rule prune_loop_induct [where P = "\<lambda>p p'. ps_cursor p' < c \<and> ps_pruned p' < m \<longrightarrow>
     (\<exists>r. ps_batch p (ps_cursor p') = Some r \<and> b \<le> br_anchored_ledger r)"], goal_cases)
  case (2 p r p')
  then show ?case by (auto simp: sweep_record_def split: if_splits)
next
  case (3 p p')
  then show ?case by (auto simp: sweep_absent_def)
qed auto

section \<open>The shard invariant\<close>

text \<open>
  The counters describe the stored records: they count them, add up their leaves, bound their ids
  and their sizes; records and the cursor stay in the assigned range.
\<close>

definition stats_ok :: "shard_stats \<Rightarrow> (u64 \<rightharpoonup> batch_record) \<Rightarrow> bool" where
  "stats_ok st m \<longleftrightarrow> ss_live_batches st = card (dom m) \<and> ss_live_leaves st = leaves_of m \<and>
     ss_live_leaves st \<le> ss_total_leaves st \<and>
     (\<forall>k r. m k = Some r \<longrightarrow> k < ss_high_water st \<and> br_count r \<le> ss_max_batch_count st)"

definition shard_inv :: "shard \<Rightarrow> bool" where
  "shard_inv s \<longleftrightarrow> (\<exists>start end_id cursor.
     sh_start_batch_id s = Some start \<and> sh_end_batch_id s = Some end_id \<and>
     sh_pruned_up_to s = Some cursor \<and> start \<le> cursor \<and> cursor \<le> end_id \<and>
     dom (sh_batch s) \<subseteq> {start..<end_id} \<and> ss_high_water (load_stats s) \<le> end_id) \<and>
     stats_ok (load_stats s) (sh_batch s)"

lemma shard_inv_finite: "shard_inv s \<Longrightarrow> finite (dom (sh_batch s))"
  by (auto simp: shard_inv_def intro: finite_subset)

lemma load_store_stats [simp]: "load_stats (store_stats s st) = st"
  by (simp add: load_stats_def store_stats_def)

lemma store_stats_frame [simp]:
  "sh_router (store_stats s st) = sh_router s"
  "sh_start_batch_id (store_stats s st) = sh_start_batch_id s"
  "sh_end_batch_id (store_stats s st) = sh_end_batch_id s"
  "sh_batch (store_stats s st) = sh_batch s"
  "sh_pruned_up_to (store_stats s st) = sh_pruned_up_to s"
  "sh_prune_bounty (store_stats s st) = sh_prune_bounty s"
  "sh_active (store_stats s st) = sh_active s"
  "sh_events (store_stats s st) = sh_events s"
  by (simp_all add: store_stats_def)

lemma load_stats_frame [simp]:
  "load_stats (s\<lparr>sh_batch := m\<rparr>) = load_stats s"
  "load_stats (s\<lparr>sh_pruned_up_to := c\<rparr>) = load_stats s"
  "load_stats (s\<lparr>sh_prune_bounty := b\<rparr>) = load_stats s"
  "load_stats (s\<lparr>sh_events := ev\<rparr>) = load_stats s"
  "load_stats (s\<lparr>sh_active := a\<rparr>) = load_stats s"
  by (simp_all add: load_stats_def)

text \<open>The components of a shard that no counter update touches.\<close>

definition same_config :: "shard \<Rightarrow> shard \<Rightarrow> bool" where
  "same_config s s' \<longleftrightarrow> sh_router s' = sh_router s \<and> sh_start_batch_id s' = sh_start_batch_id s \<and>
     sh_end_batch_id s' = sh_end_batch_id s \<and> sh_active s' = sh_active s"

lemma record_removals_frame [simp]:
  "sh_router (record_removals s n l) = sh_router s"
  "sh_start_batch_id (record_removals s n l) = sh_start_batch_id s"
  "sh_end_batch_id (record_removals s n l) = sh_end_batch_id s"
  "sh_batch (record_removals s n l) = sh_batch s"
  "sh_pruned_up_to (record_removals s n l) = sh_pruned_up_to s"
  "sh_prune_bounty (record_removals s n l) = sh_prune_bounty s"
  "sh_active (record_removals s n l) = sh_active s"
  "sh_events (record_removals s n l) = sh_events s"
  by (simp_all add: record_removals_def Let_def)

lemma record_removals_stats:
  "ss_live_batches (load_stats (record_removals s n l)) = (if n = 0 then ss_live_batches (load_stats s) else ss_live_batches (load_stats s) - n)"
  "ss_live_leaves (load_stats (record_removals s n l)) = (if n = 0 then ss_live_leaves (load_stats s) else ss_live_leaves (load_stats s) - l)"
  "ss_total_leaves (load_stats (record_removals s n l)) = ss_total_leaves (load_stats s)"
  "ss_high_water (load_stats (record_removals s n l)) = ss_high_water (load_stats s)"
  "ss_max_batch_count (load_stats (record_removals s n l)) = ss_max_batch_count (load_stats s)"
  by (simp_all add: record_removals_def Let_def saturating_sub_def)

lemma shard_constructor_inv: "a \<le> b \<Longrightarrow> shard_inv (shard_constructor r a b)"
  by (simp add: shard_inv_def shard_constructor_def stats_ok_def load_stats_def leaves_of_def)

text \<open>Sweeping a range of records and settling the counters keeps the invariant.\<close>

lemma card_dom_eq_0_leaves: "finite (dom m) \<Longrightarrow> card (dom m) = card (dom m') \<Longrightarrow>
    (\<And>k. m' k = None \<or> m' k = m k) \<Longrightarrow> m' = m"
proof -
  assume fin: "finite (dom m)" and card: "card (dom m) = card (dom m')"
    and sub: "\<And>k. m' k = None \<or> m' k = m k"
  have "dom m' \<subseteq> dom m" using sub by (auto simp: dom_def) (metis not_None_eq)
  with fin card have "dom m' = dom m" by (metis card_subset_eq)
  with sub show "m' = m" by (metis domIff ext)
qed

lemma sweep_stats_ok:
  assumes ok: "stats_ok (load_stats s) (sh_batch s)" and fin: "finite (dom (sh_batch s))"
    and sw: "swept \<lparr>ps_batch = sh_batch s, ps_cursor = c, ps_pruned = 0,
      ps_removed_batches = 0, ps_removed_leaves = 0\<rparr> p"
  shows "stats_ok (load_stats (record_removals (s\<lparr>sh_batch := ps_batch p\<rparr>)
     (ps_removed_batches p) (ps_removed_leaves p))) (ps_batch p)"
proof -
  have sub: "ps_batch p k = None \<or> ps_batch p k = sh_batch s k" for k
    using sw by (simp add: swept_def)
  have cnt: "ps_removed_batches p + card (dom (ps_batch p)) = card (dom (sh_batch s))"
    "ps_removed_leaves p + leaves_of (ps_batch p) = leaves_of (sh_batch s)"
    using sw fin by (auto simp: swept_def)
  have zero: "ps_batch p = sh_batch s" if "ps_removed_batches p = 0"
    using card_dom_eq_0_leaves [OF fin _ sub] cnt(1) that by simp
  have pres: "ps_batch p k = Some r \<Longrightarrow> sh_batch s k = Some r" for k r
    using sub [of k] by auto
  show ?thesis
  proof (cases "ps_removed_batches p = 0")
    case True
    with zero ok show ?thesis by (simp add: record_removals_def)
  next
    case False
    have "k < ss_high_water (load_stats s) \<and> br_count r \<le> ss_max_batch_count (load_stats s)"
      if "ps_batch p k = Some r" for k r
      using ok pres [OF that] by (simp add: stats_ok_def)
    with False ok cnt show ?thesis
      by (simp add: stats_ok_def record_removals_stats) linarith
  qed
qed

lemma swept_dom: "swept p p' \<Longrightarrow> dom (ps_batch p') \<subseteq> dom (ps_batch p)"
  by (auto simp: swept_def dom_def split: if_splits)

lemma expire_loop_removed:
  "ps_removed_batches (expire_loop b c m p) + ps_pruned p =
   ps_pruned (expire_loop b c m p) + ps_removed_batches p"
  by (rule expire_loop_induct [where P = "\<lambda>p p'. ps_removed_batches p' + ps_pruned p =
      ps_pruned p' + ps_removed_batches p"]) (auto simp: sweep_record_def)

text \<open>Each operation of the shard keeps the invariant and the shard's configuration.\<close>

lemma record_anchor_Ok:
  assumes "record_anchor s k prev n = Ok s'"
  shows "\<exists>st. s' = store_stats s st \<and>
     ss_live_batches st = ss_live_batches (load_stats s) + (if prev = None then 1 else 0) \<and>
     ss_live_leaves st = ss_live_leaves (load_stats s)
       - (case prev of None \<Rightarrow> 0 | Some r \<Rightarrow> br_count r) + n \<and>
     ss_total_leaves st = ss_total_leaves (load_stats s) + n \<and>
     ss_high_water st = max (ss_high_water (load_stats s)) (k + 1) \<and>
     ss_max_batch_count st = max (ss_max_batch_count (load_stats s)) n"
  using assms
  by (cases prev) (auto simp: record_anchor_def Let_def ok_iff saturating_sub_def)

lemma card_dom_upd:
  "finite (dom m) \<Longrightarrow> card (dom (m(k \<mapsto> r))) = card (dom m) + (if m k = None then 1 else 0)"
  by (auto simp: card_insert_if domIff)

lemma anchored_stats_ok:
  assumes ok: "stats_ok st m" and fin: "finite (dom m)"
    and st': "ss_live_batches st' = ss_live_batches st + (if m k = None then 1 else 0)"
      "ss_live_leaves st' = ss_live_leaves st
         - (case m k of None \<Rightarrow> 0 | Some r \<Rightarrow> br_count r) + br_count r"
      "ss_total_leaves st' = ss_total_leaves st + br_count r"
      "ss_high_water st' = max (ss_high_water st) (k + 1)"
      "ss_max_batch_count st' = max (ss_max_batch_count st) (br_count r)"
  shows "stats_ok st' (m(k \<mapsto> r))"
proof -
  have "leaves_of (m(k \<mapsto> r)) = leaves_of m
      - (case m k of None \<Rightarrow> 0 | Some r \<Rightarrow> br_count r) + br_count r"
  proof (cases "m k")
    case None
    then have "m(k := None) = m" by auto
    with None leaves_of_upd [OF fin, of k r] show ?thesis by simp
  next
    case (Some r')
    then show ?thesis using leaves_of_upd [OF fin, of k r] leaves_of_remove [OF fin Some] by simp
  qed
  moreover have "k' < ss_high_water st' \<and> br_count r' \<le> ss_max_batch_count st'"
    if "(m(k \<mapsto> r)) k' = Some r'" for k' r'
    using ok that st'(4,5) by (auto simp: stats_ok_def less_max_iff_disj le_max_iff_disj split: if_splits)
  ultimately show ?thesis
    using ok st'(1-3) card_dom_upd [OF fin, of k r] by (auto simp: stats_ok_def)
qed

lemma shard_anchor_batch_Ok:
  assumes "shard_anchor_batch E s k root n ps pe = Ok s'"
  shows "\<exists>start end_id st. sh_active s = Some True \<and> sh_start_batch_id s = Some start \<and>
     sh_end_batch_id s = Some end_id \<and> start \<le> k \<and> k < end_id \<and>
     record_anchor s k (sh_batch s k) n = Ok (store_stats s st) \<and>
     s' = (store_stats s st)\<lparr>sh_batch := (sh_batch s)(k \<mapsto>
       \<lparr>br_root = root, br_count = n, br_period_start = ps, br_period_end = pe,
        br_anchored_ledger = sequence E\<rparr>)\<rparr>"
proof -
  from assms obtain start end_id s1 where
    *: "sh_active s = Some True" "sh_start_batch_id s = Some start"
      "sh_end_batch_id s = Some end_id" "start \<le> k" "k < end_id"
      "record_anchor s k (sh_batch s k) n = Ok s1"
      "s' = s1\<lparr>sh_batch := (sh_batch s1)(k \<mapsto>
        \<lparr>br_root = root, br_count = n, br_period_start = ps, br_period_end = pe,
         br_anchored_ledger = sequence E\<rparr>)\<rparr>"
    by (auto simp: shard_anchor_batch_def ok_iff Let_def not_less split: if_splits)
  moreover from *(6) obtain st where "s1 = store_stats s st"
    using record_anchor_Ok by blast
  ultimately show ?thesis by (simp; blast)
qed

lemma shard_anchor_batch_inv:
  assumes inv: "shard_inv s" and ok: "shard_anchor_batch E s k root n ps pe = Ok s'"
  shows "shard_inv s'" and "same_config s s'"
proof -
  from shard_anchor_batch_Ok [OF ok] obtain start end_id st where
    *: "sh_start_batch_id s = Some start" "sh_end_batch_id s = Some end_id" "start \<le> k" "k < end_id"
      "record_anchor s k (sh_batch s k) n = Ok (store_stats s st)"
      "s' = (store_stats s st)\<lparr>sh_batch := (sh_batch s)(k \<mapsto>
        \<lparr>br_root = root, br_count = n, br_period_start = ps, br_period_end = pe,
         br_anchored_ledger = sequence E\<rparr>)\<rparr>"
    by blast
  from record_anchor_Ok [OF *(5)] obtain st0 where "store_stats s st = store_stats s st0"
    and st0: "ss_live_batches st0 = ss_live_batches (load_stats s) + (if sh_batch s k = None then 1 else 0)"
      "ss_live_leaves st0 = ss_live_leaves (load_stats s)
        - (case sh_batch s k of None \<Rightarrow> 0 | Some r \<Rightarrow> br_count r) + n"
      "ss_total_leaves st0 = ss_total_leaves (load_stats s) + n"
      "ss_high_water st0 = max (ss_high_water (load_stats s)) (k + 1)"
      "ss_max_batch_count st0 = max (ss_max_batch_count (load_stats s)) n"
    by blast
  then have st: "st = st0" by (metis load_store_stats)
  have "stats_ok (load_stats s) (sh_batch s)" using inv by (simp add: shard_inv_def)
  then have "stats_ok st (sh_batch s')"
    using shard_inv_finite [OF inv] st0 by (simp add: *(6) st anchored_stats_ok)
  with inv * st st0(4) show "shard_inv s'" "same_config s s'"
    by (auto simp: shard_inv_def same_config_def)
qed

lemma sweep_shard_inv:
  assumes inv: "shard_inv s"
    and sw: "swept \<lparr>ps_batch = sh_batch s, ps_cursor = c, ps_pruned = 0,
      ps_removed_batches = 0, ps_removed_leaves = 0\<rparr> p"
    and "sh_end_batch_id s = Some end_id" "sh_pruned_up_to s = Some c"
    and "sh_batch s' = ps_batch p" "sh_pruned_up_to s' = Some c'" "same_config s s'"
      "load_stats s' = load_stats (record_removals (s\<lparr>sh_batch := ps_batch p\<rparr>)
         (ps_removed_batches p) (ps_removed_leaves p))"
    and "c \<le> c'" "c' \<le> max c end_id"
  shows "shard_inv s'"
proof -
  have "stats_ok (load_stats s') (sh_batch s')"
    unfolding assms(5,8) using inv shard_inv_finite [OF inv] sw
    by (intro sweep_stats_ok) (simp_all add: shard_inv_def)
  with assms swept_dom [OF sw] show ?thesis
    by (fastforce simp: shard_inv_def same_config_def record_removals_stats)
qed

lemma shard_prune_batches_effect:
  assumes ok: "shard_prune_batches E s before m hw = Ok ((c', n), s')"
  obtains router end_id c where "sh_router s = Some router" "authorized E router"
    "sh_end_batch_id s = Some end_id" "sh_pruned_up_to s = Some c" "shard_is_active s"
    "c \<le> c'" "c' \<le> max c (min hw end_id)" "n = c' - c" "n \<le> m"
    "\<And>k. sh_batch s' k = (if c \<le> k \<and> k < c' then None else sh_batch s k)"
    "\<And>k r. c \<le> k \<Longrightarrow> k < c' \<Longrightarrow> sh_batch s k = Some r \<Longrightarrow> br_anchored_ledger r < before"
    "c' < min hw end_id \<Longrightarrow> n < m \<Longrightarrow> \<exists>r. sh_batch s c' = Some r \<and> before \<le> br_anchored_ledger r"
    "sh_pruned_up_to s' = Some c'" "same_config s s'" "sh_prune_bounty s' = sh_prune_bounty s"
    "ss_high_water (load_stats s') = ss_high_water (load_stats s)"
    "shard_inv s \<Longrightarrow> shard_inv s'"
proof -
  from ok obtain router end_id c where pre: "sh_router s = Some router" "authorized E router"
    "sh_end_batch_id s = Some end_id" "sh_pruned_up_to s = Some c" "shard_is_active s"
    by (auto simp: shard_prune_batches_def ok_iff Let_def split: if_splits)
  define p0 where "p0 = \<lparr>ps_batch = sh_batch s, ps_cursor = c, ps_pruned = 0,
    ps_removed_batches = 0, ps_removed_leaves = 0\<rparr>"
  define p where "p = prune_loop before (min hw end_id) m p0"
  have p0 [simp]: "ps_batch p0 = sh_batch s" "ps_cursor p0 = c" "ps_pruned p0 = 0"
    by (simp_all add: p0_def)
  have sw: "swept p0 p" unfolding p_def by (rule prune_loop_swept)
  then have swc: "c \<le> ps_cursor p" "ps_pruned p = ps_cursor p - c"
    "\<And>k. ps_batch p k = (if c \<le> k \<and> k < ps_cursor p then None else sh_batch s k)"
    by (simp_all add: swept_def)
  have res: "c' = ps_cursor p" "n = ps_pruned p"
    and s': "sh_batch s' = ps_batch p" "sh_pruned_up_to s' = Some c'" "same_config s s'"
      "sh_prune_bounty s' = sh_prune_bounty s"
      "load_stats s' = load_stats (record_removals (s\<lparr>sh_batch := ps_batch p\<rparr>)
         (ps_removed_batches p) (ps_removed_leaves p))"
    using ok pre swc(1,2)
    by (auto simp: shard_prune_batches_def ok_iff Let_def p_def p0_def same_config_def
        require_auth_def split: if_splits)
  have b: "c' \<le> max c (min hw end_id)" "n \<le> m"
    using prune_loop_bounds [of before "min hw end_id" m p0] by (simp_all add: res p_def)
  have inv': "shard_inv s'" if "shard_inv s"
    using sweep_shard_inv [OF that sw [unfolded p0_def]] pre s' b(1) swc(1) res by simp
  show thesis
  proof (rule that [OF pre _ b(1) _ b(2) _ _ _ s'(2,3,4) _ inv'])
    show "c \<le> c'" "n = c' - c" using swc res by simp_all
    show "sh_batch s' k = (if c \<le> k \<and> k < c' then None else sh_batch s k)" for k
      using swc(3) s'(1) res by simp
    show "br_anchored_ledger r < before" if "c \<le> k" "k < c'" "sh_batch s k = Some r" for k r
      using prune_loop_old [of p0 before "min hw end_id" m] that by (auto simp: res p_def)
    show "\<exists>r. sh_batch s c' = Some r \<and> before \<le> br_anchored_ledger r"
      if "c' < min hw end_id" "n < m"
      using prune_loop_stops [of before "min hw end_id" m p0] that by (simp add: res p_def)
    show "ss_high_water (load_stats s') = ss_high_water (load_stats s)"
      by (simp add: s'(5) record_removals_stats)
  qed
qed

lemma prune_expired_receipts_effect:
  assumes ok: "prune_expired_receipts E s pruner m = Ok (n, s')"
  obtains end_id c c' where "sh_end_batch_id s = Some end_id" "sh_pruned_up_to s = Some c"
    "authorized E pruner" "c \<le> c'" "c' \<le> max c end_id" "n = c' - c" "n \<le> m"
    "\<And>k. sh_batch s' k = (if c \<le> k \<and> k < c' then None else sh_batch s k)"
    "\<And>k. c \<le> k \<Longrightarrow> k < c' \<Longrightarrow> \<exists>r. sh_batch s k = Some r \<and>
        RETENTION_LEDGERS \<le> sequence E - br_anchored_ledger r"
    "sh_pruned_up_to s' = Some c'" "same_config s s'"
    "unwrap_or (sh_prune_bounty s' pruner) 0 =
       unwrap_or (sh_prune_bounty s pruner) 0 + PRUNE_BOUNTY_PER_BATCH * int n"
    "\<And>a. a \<noteq> pruner \<Longrightarrow> sh_prune_bounty s' a = sh_prune_bounty s a"
    "sh_events s' = sh_events s @ [ReceiptsPrunedEvent pruner n c']"
    "shard_inv s \<Longrightarrow> shard_inv s'"
proof -
  from ok obtain end_id c where pre: "sh_end_batch_id s = Some end_id" "sh_pruned_up_to s = Some c"
    "authorized E pruner"
    by (auto simp: prune_expired_receipts_def ok_iff Let_def split: if_splits)
  define p0 where "p0 = \<lparr>ps_batch = sh_batch s, ps_cursor = c, ps_pruned = 0,
    ps_removed_batches = 0, ps_removed_leaves = 0\<rparr>"
  define p where "p = expire_loop (sequence E) end_id m p0"
  have p0 [simp]: "ps_batch p0 = sh_batch s" "ps_cursor p0 = c" "ps_pruned p0 = 0"
    "ps_removed_batches p0 = 0"
    by (simp_all add: p0_def)
  have sw: "swept p0 p" unfolding p_def by (rule expire_loop_swept)
  then have swc: "c \<le> ps_cursor p" "ps_pruned p = ps_cursor p - c"
    "\<And>k. ps_batch p k = (if c \<le> k \<and> k < ps_cursor p then None else sh_batch s k)"
    by (simp_all add: swept_def)
  have rem: "ps_removed_batches p = ps_pruned p"
    using expire_loop_removed [of "sequence E" end_id m p0] by (simp add: p_def)
  have res: "n = ps_pruned p"
    and s': "sh_batch s' = ps_batch p" "sh_pruned_up_to s' = Some (ps_cursor p)"
      "same_config s s'"
      "unwrap_or (sh_prune_bounty s' pruner) 0 =
         unwrap_or (sh_prune_bounty s pruner) 0 + PRUNE_BOUNTY_PER_BATCH * int n"
      "\<And>a. a \<noteq> pruner \<Longrightarrow> sh_prune_bounty s' a = sh_prune_bounty s a"
      "sh_events s' = sh_events s @ [ReceiptsPrunedEvent pruner n (ps_cursor p)]"
      "load_stats s' = load_stats (record_removals (s\<lparr>sh_batch := ps_batch p\<rparr>)
         (ps_removed_batches p) (ps_removed_leaves p))"
    using ok pre swc(1,2) rem
    by (auto simp: prune_expired_receipts_def ok_iff Let_def p_def p0_def same_config_def
        require_auth_def split: if_splits)
  have b: "ps_cursor p \<le> max c end_id" "n \<le> m"
    using expire_loop_bounds [of "sequence E" end_id m p0] by (simp_all add: res p_def)
  have inv': "shard_inv s'" if "shard_inv s"
    using sweep_shard_inv [OF that sw [unfolded p0_def]] pre s' b(1) swc(1) res by simp
  show thesis
  proof (rule that [OF pre swc(1) b(1) _ b(2) _ _ s'(2-6) inv'])
    show "n = ps_cursor p - c" using swc res by simp
    show "sh_batch s' k = (if c \<le> k \<and> k < ps_cursor p then None else sh_batch s k)" for k
      using swc(3) s'(1) by simp
    show "\<exists>r. sh_batch s k = Some r \<and> RETENTION_LEDGERS \<le> sequence E - br_anchored_ledger r"
      if "c \<le> k" "k < ps_cursor p" for k
      using expire_loop_old [of p0 "sequence E" end_id m] that
      by (auto simp: p_def saturating_sub_def)
  qed
qed

lemma insert_migrated_batch_Ok:
  assumes "insert_migrated_batch E s src k r = Ok (r', s')"
  shows "r' = r" "sh_batch s k = None" "sh_batch s' = (sh_batch s)(k \<mapsto> r)" "same_config s s'"
    "sh_pruned_up_to s' = sh_pruned_up_to s" "authorized E src"
    "\<exists>start end_id. sh_start_batch_id s = Some start \<and> sh_end_batch_id s = Some end_id \<and>
       start \<le> k \<and> k < end_id"
    "shard_inv s \<Longrightarrow> shard_inv s'"
proof -
  from assms obtain start end_id st where
    *: "sh_start_batch_id s = Some start" "sh_end_batch_id s = Some end_id" "start \<le> k" "k < end_id"
      "sh_batch s k = None" "r' = r" "authorized E src"
      "s' = store_stats (s\<lparr>sh_batch := (sh_batch s)(k \<mapsto> r)\<rparr>) st"
    and st: "ss_live_batches st = ss_live_batches (load_stats s) + 1"
      "ss_live_leaves st = ss_live_leaves (load_stats s) + br_count r"
      "ss_total_leaves st = ss_total_leaves (load_stats s) + br_count r"
      "ss_high_water st = max (ss_high_water (load_stats s)) (k + 1)"
      "ss_max_batch_count st = max (ss_max_batch_count (load_stats s)) (br_count r)"
    by (auto simp: insert_migrated_batch_def record_migration_def Let_def ok_iff split: if_splits)
  from * show "r' = r" "sh_batch s k = None" "sh_batch s' = (sh_batch s)(k \<mapsto> r)" "same_config s s'"
    "sh_pruned_up_to s' = sh_pruned_up_to s" "authorized E src"
    "\<exists>start end_id. sh_start_batch_id s = Some start \<and> sh_end_batch_id s = Some end_id \<and>
       start \<le> k \<and> k < end_id"
    by (simp_all add: same_config_def)
  assume inv: "shard_inv s"
  then have "stats_ok st ((sh_batch s)(k \<mapsto> r))"
    using shard_inv_finite [OF inv] st * by (intro anchored_stats_ok) (auto simp: shard_inv_def)
  with inv * st(4) show "shard_inv s'" by (auto simp: shard_inv_def)
qed

lemma claim_prune_bounty_inv:
  "claim_prune_bounty T E w s tok a = Ok (x, w', s') \<Longrightarrow> shard_inv s \<Longrightarrow> shard_inv s'"
  by (auto simp: claim_prune_bounty_def Let_def ok_iff shard_inv_def split: if_splits)

lemma decommission_inv: "decommission E s = Ok s' \<Longrightarrow> shard_inv s \<Longrightarrow> shard_inv s'"
  by (auto simp: decommission_def decommission_internal_def ok_iff shard_inv_def split: if_splits)

text \<open>Removing one record that migrated away keeps the invariant.\<close>

lemma remove_record_inv:
  assumes inv: "shard_inv s" and r: "sh_batch s k = Some r"
  shows "shard_inv (record_removals (s\<lparr>sh_batch := (sh_batch s)(k := None)\<rparr>) 1 (br_count r))"
proof -
  note fin = shard_inv_finite [OF inv]
  have "stats_ok (load_stats s) (sh_batch s)" using inv by (simp add: shard_inv_def)
  then have "stats_ok (load_stats (record_removals (s\<lparr>sh_batch := (sh_batch s)(k := None)\<rparr>)
      1 (br_count r))) ((sh_batch s)(k := None))"
    using leaves_of_remove [OF fin r] card_dom_remove [OF fin r]
    by (auto simp: stats_ok_def record_removals_stats split: if_splits)
  moreover have "dom ((sh_batch s)(k := None)) \<subseteq> dom (sh_batch s)" by auto
  ultimately show ?thesis
    using inv by (simp add: shard_inv_def record_removals_stats) blast
qed

section \<open>Moving records between shards\<close>

definition world_inv :: "shards \<Rightarrow> bool" where
  "world_inv W \<longleftrightarrow> (\<forall>a s. W a = Some s \<longrightarrow> shard_inv s)"

definition record_at :: "shards \<Rightarrow> address \<Rightarrow> u64 \<Rightarrow> batch_record option" where
  "record_at W a k = (case W a of None \<Rightarrow> None | Some s \<Rightarrow> sh_batch s k)"

lemma record_at_upd [simp]:
  "record_at (W(a \<mapsto> s)) b k = (if b = a then sh_batch s k else record_at W b k)"
  by (simp add: record_at_def)

text \<open>What one successful migration leaves behind.\<close>

definition moved :: "address \<Rightarrow> address \<Rightarrow> u64 set \<Rightarrow> shards \<Rightarrow> shards \<Rightarrow> bool" where
  "moved src dst ids W W' \<longleftrightarrow> dom W' = dom W \<and>
     (\<forall>k\<in>ids. record_at W src k \<noteq> None \<and> record_at W dst k = None \<and>
        record_at W' src k = None \<and> record_at W' dst k = record_at W src k) \<and>
     (\<forall>a k. (a \<noteq> src \<and> a \<noteq> dst) \<or> k \<notin> ids \<longrightarrow> record_at W' a k = record_at W a k)"

lemma migrate_all_moved:
  assumes "migrate_all E dst ids W = Ok W'" and "dst \<noteq> current_contract_address E"
  shows "moved (current_contract_address E) dst (set ids) W W' \<and> distinct ids \<and>
    (world_inv W \<longrightarrow> world_inv W') \<and> (\<forall>a. map_option sh_active (W' a) = map_option sh_active (W a))"
  using assms(1)
proof (induction ids arbitrary: W)
  case Nil
  then show ?case by (simp add: moved_def)
next
  case (Cons k ids)
  let ?src = "current_contract_address E"
  from Cons.prems obtain s r where s1: "W ?src = Some s" "sh_batch s k = Some r"
    by (auto simp: Let_def ok_iff)
  with Cons.prems obtain d where s2: "W dst = Some d" by (auto simp: Let_def split: option.splits)
  with Cons.prems s1 obtain r' d' where
    s3: "insert_migrated_batch (callee_env E dst) d ?src k r = Ok (r', d')"
    by (cases "insert_migrated_batch (callee_env E dst) d ?src k r") (auto simp: Let_def)
  note s = s1 s2 s3
  define W1 where "W1 = W(dst \<mapsto> d', ?src \<mapsto>
    record_removals (s\<lparr>sh_batch := (sh_batch s)(k := None)\<rparr>) 1 (br_count r))"
  have rest: "migrate_all E dst ids W1 = Ok W'"
    using Cons.prems s by (simp add: Let_def W1_def split: if_splits)
  note ins = insert_migrated_batch_Ok [OF s(4)]
  have w1: "record_at W1 a j = (if j = k \<and> a = ?src then None else if j = k \<and> a = dst then Some r
      else record_at W a j)" for a j
    using s ins assms(2) by (auto simp: record_at_def W1_def)
  have dom: "dom W1 = dom W" using s by (auto simp: W1_def)
  have inv1: "world_inv W \<longrightarrow> world_inv W1"
    using s ins(8) remove_record_inv by (auto simp: world_inv_def W1_def split: if_splits)
  have act1: "map_option sh_active (W1 a) = map_option sh_active (W a)" for a
    using s ins(4) by (auto simp: W1_def same_config_def)
  from Cons.IH [OF rest] have IH: "moved ?src dst (set ids) W1 W'" "distinct ids"
    "world_inv W1 \<longrightarrow> world_inv W'" "\<forall>a. map_option sh_active (W' a) = map_option sh_active (W1 a)"
    by auto
  have "k \<notin> set ids"
  proof
    assume "k \<in> set ids"
    with IH(1) have "record_at W1 ?src k \<noteq> None" by (simp only: moved_def) blast
    then show False by (simp add: w1)
  qed
  moreover have "record_at W ?src k = Some r" "record_at W dst k = None"
    using s ins(2) by (simp_all add: record_at_def)
  ultimately show ?case
    using IH inv1 act1 assms(2) unfolding moved_def dom w1 by (auto split: if_splits)
qed

lemma has_live_records_iff:
  assumes "shard_inv s"
  shows "has_live_records s = Ok (dom (sh_batch s) \<noteq> {})"
proof -
  from assms obtain start end_id where *: "sh_start_batch_id s = Some start"
    "sh_end_batch_id s = Some end_id" "dom (sh_batch s) \<subseteq> {start..<end_id}"
    by (auto simp: shard_inv_def)
  then have "(\<exists>k\<in>{start..<end_id}. sh_batch s k \<noteq> None) \<longleftrightarrow> dom (sh_batch s) \<noteq> {}" by blast
  with * show ?thesis by (simp add: has_live_records_def list_ex_iff)
qed

text \<open>
  A consolidation moves exactly the listed records, without losing or changing one, keeps every
  shard's invariant and retires the source exactly when it is left empty.
\<close>

lemma consolidate_effect:
  assumes ok: "consolidate E W dst sid did ids = Ok (n, W')" and inv: "world_inv W"
    and "ids \<noteq> []"
  defines "src \<equiv> current_contract_address E"
  obtains s s' router where "W src = Some s" "W' src = Some s'" "shard_is_active s"
    "sh_router s = Some router" "authorized E router" "src \<noteq> dst"
    "n = length ids" "distinct ids" "moved src dst (set ids) W W'" "world_inv W'"
    "shard_is_active s' \<longleftrightarrow> (\<exists>k. record_at W' src k \<noteq> None)"
proof -
  from ok obtain s router W1 s1 where s: "W src = Some s" "shard_is_active s"
      "sh_router s = Some router" "authorized E router" "src \<noteq> dst"
    and W1: "migrate_all E dst ids W = Ok W1" "W1 src = Some s1"
    and n: "n = length ids"
    and W': "W' = W1(src \<mapsto> (if has_live_records s1 = Ok False then decommission_internal s1 else s1)
        \<lparr>sh_events := sh_events s1 @ [ShardsConsolidated sid did (length ids)]\<rparr>)"
    using assms(3) by (auto simp: consolidate_def require_active_and_router_def Let_def ok_iff src_def
        decommission_internal_def split: if_splits)
  have mv: "moved src dst (set ids) W W1" "distinct ids" "world_inv W1"
    and act: "map_option sh_active (W1 src) = map_option sh_active (W src)"
    using migrate_all_moved [OF W1(1)] s(5) inv by (auto simp: src_def)
  let ?s = "(if has_live_records s1 = Ok False then decommission_internal s1 else s1)
        \<lparr>sh_events := sh_events s1 @ [ShardsConsolidated sid did (length ids)]\<rparr>"
  have same: "record_at W' a k = record_at W1 a k" "dom W' = dom W1" for a k
    using W1(2) by (auto simp: W' record_at_def decommission_internal_def)
  have inv1: "shard_inv s1" using mv(3) W1(2) by (auto simp: world_inv_def)
  then have "shard_inv ?s" by (auto simp: shard_inv_def decommission_internal_def)
  then have "world_inv W'" using mv(3) by (auto simp: world_inv_def W' split: if_splits)
  moreover have "moved src dst (set ids) W W'" using mv(1) by (simp add: moved_def same)
  moreover have "shard_is_active s1" using act s(1,2) W1(2) by (simp add: shard_is_active_def)
  then have "shard_is_active ?s \<longleftrightarrow> (\<exists>k. record_at W' src k \<noteq> None)"
    using has_live_records_iff [OF inv1] W1(2) unfolding same(1)
    by (auto simp: record_at_def shard_is_active_def decommission_internal_def fun_eq_iff)
  ultimately show thesis using that s n mv(2) W' by simp
qed

section \<open>Diagnostics\<close>

lemma bit_length_0 [simp]: "bit_length 0 = 0"
  by (subst bit_length.simps) simp

lemma bit_length_le_iff: "bit_length n \<le> d \<longleftrightarrow> n < 2 ^ d"
proof (induction n arbitrary: d rule: bit_length.induct)
  case (1 n)
  show ?case
  proof (cases "n = 0")
    case True
    then show ?thesis by simp
  next
    case False
    show ?thesis
    proof (cases d)
      case 0
      with False show ?thesis by (subst bit_length.simps) simp
    next
      case (Suc d')
      with False "1.IH" [of d'] show ?thesis
        by (subst bit_length.simps) (auto simp: div_less_iff_less_mult mult.commute)
    qed
  qed
qed

text \<open>\<open>merkle_depth\<close> is the least height of a binary tree with room for all leaves.\<close>

lemma merkle_depth_le_iff:
  assumes "in_u32 n" and "1 \<le> n"
  shows "merkle_depth n \<le> d \<longleftrightarrow> n \<le> 2 ^ d"
proof -
  have "bit_length (n - 1) \<le> 32"
    using assms by (simp add: bit_length_le_iff in_u32_def)
  then have "merkle_depth n = bit_length (n - 1)"
    using assms(2) by (cases "n = 1") (simp_all add: merkle_depth_def leading_zeros_def)
  then show ?thesis using assms(2) by (auto simp: bit_length_le_iff)
qed

lemma retained_search_spec:
  assumes "\<And>i j. lo \<le> i \<Longrightarrow> i \<le> j \<Longrightarrow> j < hi \<Longrightarrow> f i \<Longrightarrow> f j" and "lo \<le> hi"
  shows "lo \<le> retained_search f lo hi \<and> retained_search f lo hi \<le> hi \<and>
    (\<forall>k. lo \<le> k \<and> k < hi \<longrightarrow> (f k \<longleftrightarrow> retained_search f lo hi \<le> k))"
  using assms
proof (induction f lo hi rule: retained_search.induct)
  case (1 f lo hi)
  show ?case
  proof (cases "lo < hi")
    case False
    then have "retained_search f lo hi = lo" by (subst retained_search.simps) simp
    with False "1.prems" show ?thesis by auto
  next
    case True
    define mid where "mid = lo + (hi - lo) div 2"
    have mid: "lo \<le> mid" "mid < hi" using True by (auto simp: mid_def)
    show ?thesis
    proof (cases "f mid")
      case f: True
      have eq: "retained_search f lo hi = retained_search f lo mid"
        using True f by (subst retained_search.simps) (simp add: mid_def)
      have IH: "lo \<le> retained_search f lo mid \<and> retained_search f lo mid \<le> mid \<and>
          (\<forall>k. lo \<le> k \<and> k < mid \<longrightarrow> (f k \<longleftrightarrow> retained_search f lo mid \<le> k))"
      proof (rule "1.IH"(1) [OF True mid_def f])
        show "f j" if "lo \<le> i" "i \<le> j" "j < mid" "f i" for i j
          using "1.prems"(1) that mid by (meson less_trans)
      qed (rule mid(1))
      have "f k" if "mid \<le> k" "k < hi" for k using "1.prems"(1) [of mid k] f mid that by simp
      then have "f k \<longleftrightarrow> retained_search f lo mid \<le> k" if "lo \<le> k" "k < hi" for k
        using IH that by (cases "k < mid") auto
      with IH mid show ?thesis unfolding eq by auto
    next
      case f: False
      have eq: "retained_search f lo hi = retained_search f (mid + 1) hi"
        using True f by (subst retained_search.simps) (simp add: mid_def)
      have IH: "mid + 1 \<le> retained_search f (mid + 1) hi \<and> retained_search f (mid + 1) hi \<le> hi \<and>
          (\<forall>k. mid + 1 \<le> k \<and> k < hi \<longrightarrow> (f k \<longleftrightarrow> retained_search f (mid + 1) hi \<le> k))"
      proof (rule "1.IH"(2) [OF True mid_def f])
        show "f j" if "mid + 1 \<le> i" "i \<le> j" "j < hi" "f i" for i j
          using "1.prems"(1) [of i j] that mid by simp
      qed (use mid in simp)
      have "\<not> f k" if "lo \<le> k" "k \<le> mid" for k using "1.prems"(1) [of k mid] f mid that by auto
      then have "f k \<longleftrightarrow> retained_search f (mid + 1) hi \<le> k" if "lo \<le> k" "k < hi" for k
        using IH that by (cases "k \<le> mid") auto
      with IH mid show ?thesis unfolding eq by auto
    qed
  qed
qed

lemma is_retained_mono:
  assumes "\<And>i j r r'. c \<le> i \<Longrightarrow> i \<le> j \<Longrightarrow> j < h \<Longrightarrow> sh_batch s i = Some r \<Longrightarrow>
      \<exists>r'. sh_batch s j = Some r' \<and> br_anchored_ledger r \<le> br_anchored_ledger r'"
    and "c \<le> i" "i \<le> j" "j < h" "is_retained E s i"
  shows "is_retained E s j"
  using assms(1) [OF assms(2-4)] assms(5)
  by (fastforce simp: is_retained_def saturating_sub_def split: option.splits)

text \<open>
  Where records above the cursor have no gap and were anchored in id order, the binary search
  counts the retained records exactly.
\<close>

lemma count_retained_card:
  assumes "\<And>i j r. c \<le> i \<Longrightarrow> i \<le> j \<Longrightarrow> j < h \<Longrightarrow> sh_batch s i = Some r \<Longrightarrow>
      \<exists>r'. sh_batch s j = Some r' \<and> br_anchored_ledger r \<le> br_anchored_ledger r'"
    and "c \<le> h"
  shows "count_retained E s c h = card {k \<in> {c..<h}. is_retained E s k}"
proof -
  define b where "b = retained_search (is_retained E s) c h"
  have "c \<le> b \<and> b \<le> h \<and> (\<forall>k. c \<le> k \<and> k < h \<longrightarrow> (is_retained E s k \<longleftrightarrow> b \<le> k))"
    unfolding b_def using assms is_retained_mono [where s = s and c = c and h = h]
    by (intro retained_search_spec) blast+
  then have "{k \<in> {c..<h}. is_retained E s k} = {b..<h}" by auto
  then show ?thesis by (simp add: count_retained_def b_def)
qed

text \<open>The counters of a shard whose records all lie at or above the cursor are consistent.\<close>

lemma diagnostics_consistent:
  assumes inv: "shard_inv s" and c: "sh_pruned_up_to s = Some c"
    and above: "\<And>k. sh_batch s k \<noteq> None \<Longrightarrow> c \<le> k"
    and cnt: "ss_max_batch_count (load_stats s) \<le> 1000"
  obtains d where "get_shard_diagnostics E s = Ok d" "sd_consistent d"
    "sd_live_batches d = card (dom (sh_batch s))" "sd_live_leaves d = leaves_of (sh_batch s)"
proof -
  from inv c obtain start end_id where
    *: "sh_start_batch_id s = Some start" "sh_end_batch_id s = Some end_id"
       "start \<le> c" "c \<le> end_id" "dom (sh_batch s) \<subseteq> {start..<end_id}"
       "ss_high_water (load_stats s) \<le> end_id"
    and st: "stats_ok (load_stats s) (sh_batch s)"
    by (auto simp: shard_inv_def)
  have "dom (sh_batch s) \<subseteq> {c..<ss_high_water (load_stats s)}"
    using above st by (auto simp: stats_ok_def)
  then have "card (dom (sh_batch s)) \<le> ss_high_water (load_stats s) - c"
    using card_mono [of "{c..<ss_high_water (load_stats s)}"] by simp
  moreover have "merkle_depth (ss_max_batch_count (load_stats s)) \<le> 10"
    using cnt merkle_depth_le_iff [of "ss_max_batch_count (load_stats s)" 10]
    by (cases "ss_max_batch_count (load_stats s) = 0") (auto simp: in_u32_def merkle_depth_def)
  ultimately show thesis
    using * st c by (intro that)
      (auto simp: get_shard_diagnostics_def Let_def stats_ok_def saturating_sub_def
        SHARD_MAX_PROOF_LEN_def)
qed

text \<open>A bounty is paid once, never above what was accrued or what the shard holds.\<close>

lemma claim_prune_bounty_effect:
  assumes T: "sep41 T" and ok: "claim_prune_bounty T E w s tok a = Ok (x, w', s')"
    and pos: "0 \<le> tok_balance T w tok (current_contract_address E)"
      "0 \<le> unwrap_or (sh_prune_bounty s a) 0"
    and other: "a \<noteq> current_contract_address E"
  shows "authorized E a" "0 \<le> x" "x \<le> unwrap_or (sh_prune_bounty s a) 0"
    "x \<le> tok_balance T w tok (current_contract_address E)"
    "sh_prune_bounty s' a = Some 0" "sh_batch s' = sh_batch s"
    "tok_balance T w' tok a = tok_balance T w tok a + x"
    "tok_balance T w' tok (current_contract_address E) =
       tok_balance T w tok (current_contract_address E) - x"
proof -
  from ok pos show "authorized E a" "0 \<le> x" "x \<le> unwrap_or (sh_prune_bounty s a) 0"
    "x \<le> tok_balance T w tok (current_contract_address E)"
    "sh_prune_bounty s' a = Some 0" "sh_batch s' = sh_batch s"
    by (auto simp: claim_prune_bounty_def Let_def ok_iff split: if_splits)
  have "(x = 0 \<and> w' = w) \<or> tok_transfer T w tok (current_contract_address E) a x = Some w'"
    using ok pos by (auto simp: claim_prune_bounty_def Let_def ok_iff split: if_splits)
  then show "tok_balance T w' tok a = tok_balance T w tok a + x"
    "tok_balance T w' tok (current_contract_address E) =
       tok_balance T w tok (current_contract_address E) - x"
    using sep41D(3) [OF T] other by auto
qed

section \<open>The interface the router relies on\<close>

text \<open>
  A chunk \<open>start..<end_id\<close> of a stream of anchored records \<open>h\<close> (record \<open>k\<close> at position \<open>k - 1\<close>) with
  pruning cursor \<open>c\<close>: every anchored record of the chunk from the cursor on is stored, and whatever
  else is stored was injected, that is, belongs to \<open>J\<close>. Without injected records nothing is stored
  below the cursor, and the cursor stays within the stream.
\<close>

definition holds_log ::
  "(u64 \<rightharpoonup> batch_record) \<Rightarrow> u64 \<Rightarrow> u64 \<Rightarrow> batch_record list \<Rightarrow> (u64 \<times> batch_record) set \<Rightarrow> u64 \<Rightarrow> bool" where
  "holds_log m start end_id h J c \<longleftrightarrow> 1 \<le> start \<and> start \<le> c \<and> c \<le> end_id \<and>
     (\<forall>k. c \<le> k \<and> k < end_id \<and> k \<le> length h \<longrightarrow> m k = Some (h ! (k - 1))) \<and>
     (\<forall>k r. m k = Some r \<longrightarrow> start \<le> k \<and> k \<le> length h \<and> r = h ! (k - 1) \<or> (k, r) \<in> J) \<and>
     (J = {} \<longrightarrow> c \<le> length h + 1 \<and> (\<forall>k < c. m k = None))"

lemma holds_log_mono: "holds_log m start end_id h J c \<Longrightarrow> J \<subseteq> J' \<Longrightarrow> holds_log m start end_id h J' c"
  unfolding holds_log_def by blast

locale batch_store =
  fixes lookup :: "'s \<Rightarrow> u64 \<Rightarrow> batch_record option"
    and cursor_of :: "'s \<Rightarrow> u64 option"
    and upper :: "'s \<Rightarrow> u64 option"
    and store :: "env \<Rightarrow> 's \<Rightarrow> u64 \<Rightarrow> bytes \<Rightarrow> u32 \<Rightarrow> u64 \<Rightarrow> u64 \<Rightarrow> 's outcome"
    and prune :: "env \<Rightarrow> 's \<Rightarrow> u32 \<Rightarrow> u32 \<Rightarrow> u64 \<Rightarrow> ((u64 \<times> u64) \<times> 's) outcome"
    and expire :: "env \<Rightarrow> 's \<Rightarrow> address \<Rightarrow> u32 \<Rightarrow> (u32 \<times> 's) outcome"
    and inject :: "env \<Rightarrow> 's \<Rightarrow> address \<Rightarrow> u64 \<Rightarrow> batch_record \<Rightarrow> (batch_record \<times> 's) outcome"
  assumes store_law: "store E s k root n ps pe = Ok s' \<Longrightarrow>
      lookup s' = (lookup s)(k \<mapsto> \<lparr>br_root = root, br_count = n, br_period_start = ps,
        br_period_end = pe, br_anchored_ledger = sequence E\<rparr>) \<and>
      cursor_of s' = cursor_of s \<and> upper s' = upper s \<and> (\<exists>b. upper s = Some b \<and> k < b)"
    and prune_law: "prune E s before m hw = Ok ((c', n), s') \<Longrightarrow>
      \<exists>b c. upper s = Some b \<and> cursor_of s = Some c \<and> upper s' = upper s \<and> cursor_of s' = Some c' \<and>
        c \<le> c' \<and> c' \<le> max c (min hw b) \<and> n = c' - c \<and> n \<le> m \<and>
        (\<forall>k. lookup s' k = (if c \<le> k \<and> k < c' then None else lookup s k))"
    and expire_law: "expire E s pruner m' = Ok (n', s') \<Longrightarrow>
      \<exists>b c c'. upper s = Some b \<and> cursor_of s = Some c \<and> upper s' = upper s \<and>
        cursor_of s' = Some c' \<and> c \<le> c' \<and> c' \<le> max c b \<and>
        (\<forall>k. c \<le> k \<longrightarrow> k < c' \<longrightarrow> lookup s k \<noteq> None) \<and>
        (\<forall>k. lookup s' k = (if c \<le> k \<and> k < c' then None else lookup s k))"
    and inject_law: "inject E s src k r = Ok (r', s') \<Longrightarrow>
      lookup s k = None \<and> lookup s' = (lookup s)(k \<mapsto> r) \<and> cursor_of s' = cursor_of s \<and>
      upper s' = upper s \<and> (\<exists>b. upper s = Some b \<and> k < b)"
begin

lemma store_log:
  assumes "store E s (length h + 1) root n ps pe = Ok s'"
    and log: "holds_log (lookup s) start end_id h J c" and upper: "start \<le> length h + 1"
  shows "holds_log (lookup s') start end_id (h @ [\<lparr>br_root = root, br_count = n,
      br_period_start = ps, br_period_end = pe, br_anchored_ledger = sequence E\<rparr>]) J c"
proof -
  let ?r = "\<lparr>br_root = root, br_count = n, br_period_start = ps, br_period_end = pe,
    br_anchored_ledger = sequence E\<rparr>"
  have s': "lookup s' = (lookup s)(length h + 1 \<mapsto> ?r)" using store_law [OF assms(1)] by blast
  have old: "(h @ [?r]) ! (k - 1) = h ! (k - 1)" if "start \<le> k" "k \<le> length h" for k
  proof -
    have "1 \<le> start" using log by (simp add: holds_log_def)
    with that have "k - 1 < length h" by linarith
    then show ?thesis by (simp add: nth_append)
  qed
  have "lookup s' k = Some ((h @ [?r]) ! (k - 1))" if "c \<le> k" "k < end_id" "k \<le> length h + 1" for k
    using that log old [of k] by (cases "k = length h + 1") (auto simp: holds_log_def s')
  moreover have "start \<le> k \<and> k \<le> length h + 1 \<and> r = (h @ [?r]) ! (k - 1) \<or> (k, r) \<in> J"
    if "lookup s' k = Some r" for k r
  proof (cases "k = length h + 1")
    case False
    with that log have "start \<le> k \<and> k \<le> length h \<and> r = h ! (k - 1) \<or> (k, r) \<in> J"
      by (simp add: holds_log_def s')
    with old [of k] show ?thesis by auto
  qed (use that upper in \<open>simp add: s'\<close>)
  moreover have "c \<le> length h + 2 \<and> (\<forall>k < c. lookup s' k = None)" if "J = {}"
    using that log by (auto simp: holds_log_def s')
  ultimately show ?thesis using log by (simp add: holds_log_def)
qed

lemma prune_log:
  assumes "prune E s before m hw = Ok ((c', n), s')"
    and "holds_log (lookup s) start end_id h J c" "upper s = Some end_id" "cursor_of s = Some c"
    and "hw \<le> length h + 1"
  shows "holds_log (lookup s') start end_id h J c'" "c \<le> c'" "n = c' - c" "n \<le> m"
    "cursor_of s' = Some c'" "upper s' = Some end_id" "c' \<le> max c (min hw end_id)"
  using prune_law [OF assms(1)] assms(2-5) by (auto simp: holds_log_def split: if_splits)

lemma expire_log:
  assumes "expire E s pruner m = Ok (n, s')"
    and "holds_log (lookup s) start end_id h J c" "upper s = Some end_id" "cursor_of s = Some c"
  obtains c' where "holds_log (lookup s') start end_id h J c'" "c \<le> c'"
    "cursor_of s' = Some c'" "upper s' = Some end_id"
proof -
  from expire_law [OF assms(1)] assms(3,4) obtain c' where
    c': "c \<le> c'" "c' \<le> max c end_id" "cursor_of s' = Some c'" "upper s' = Some end_id"
      "\<And>k. c \<le> k \<Longrightarrow> k < c' \<Longrightarrow> lookup s k \<noteq> None"
      "\<And>k. lookup s' k = (if c \<le> k \<and> k < c' then None else lookup s k)" by auto
  have "c' \<le> length h + 1" if "J = {}"
  proof (cases "c = c'")
    case False
    with c'(1) have "c \<le> c' - 1" "c' - 1 < c'" by linarith+
    from c'(5) [OF this] obtain r where "lookup s (c' - 1) = Some r" by blast
    with assms(2) that have "c' - 1 \<le> length h" by (simp add: holds_log_def)
    then show ?thesis by simp
  qed (use assms(2) that in \<open>simp add: holds_log_def\<close>)
  with c' assms(2) have "holds_log (lookup s') start end_id h J c'"
    by (auto simp: holds_log_def split: if_splits)
  with c' that show thesis by blast
qed

text \<open>An injected record fills a gap: it never replaces a record that the chunk still owes.\<close>

lemma inject_log:
  assumes "inject E s src k r = Ok (r', s')"
    and "holds_log (lookup s) start end_id h J c" "upper s = Some end_id" "cursor_of s = Some c"
  shows "holds_log (lookup s') start end_id h (insert (k, r) J) c" "cursor_of s' = Some c"
    "upper s' = Some end_id"
  using inject_law [OF assms(1)] assms(2-4) by (fastforce simp: holds_log_def)+

text \<open>From the cursor on every anchored record is there, and a stored record that was never anchored
  under its id was injected.\<close>

lemma lookup_log:
  assumes "holds_log (lookup s) start end_id h J c" "k < end_id"
  shows "c \<le> k \<Longrightarrow> k \<le> length h \<Longrightarrow> lookup s k = Some (h ! (k - 1))"
    and "J = {} \<Longrightarrow> k < c \<Longrightarrow> lookup s k = None"
    and "lookup s k = Some r \<Longrightarrow> (k, r) \<notin> J \<Longrightarrow> start \<le> k \<and> k \<le> length h \<and> r = h ! (k - 1)"
  using assms by (auto simp: holds_log_def)

end

interpretation shard_store: batch_store sh_batch sh_pruned_up_to sh_end_batch_id
  shard_anchor_batch shard_prune_batches prune_expired_receipts insert_migrated_batch
proof
  fix E s k root n ps pe s'
  assume "shard_anchor_batch E s k root n ps pe = Ok s'"
  from shard_anchor_batch_Ok [OF this]
  show "sh_batch s' = (sh_batch s)(k \<mapsto> \<lparr>br_root = root, br_count = n, br_period_start = ps,
        br_period_end = pe, br_anchored_ledger = sequence E\<rparr>) \<and>
      sh_pruned_up_to s' = sh_pruned_up_to s \<and> sh_end_batch_id s' = sh_end_batch_id s \<and>
      (\<exists>b. sh_end_batch_id s = Some b \<and> k < b)" by auto
next
  fix E s before m hw c' n s'
  assume "shard_prune_batches E s before m hw = Ok ((c', n), s')"
  then show "\<exists>b c. sh_end_batch_id s = Some b \<and> sh_pruned_up_to s = Some c \<and>
      sh_end_batch_id s' = sh_end_batch_id s \<and> sh_pruned_up_to s' = Some c' \<and>
      c \<le> c' \<and> c' \<le> max c (min hw b) \<and> n = c' - c \<and> n \<le> m \<and>
      (\<forall>k. sh_batch s' k = (if c \<le> k \<and> k < c' then None else sh_batch s k))"
    by (rule shard_prune_batches_effect) (simp add: same_config_def)
next
  fix E s pruner m n s'
  assume "prune_expired_receipts E s pruner m = Ok (n, s')"
  then show "\<exists>b c c'. sh_end_batch_id s = Some b \<and> sh_pruned_up_to s = Some c \<and>
      sh_end_batch_id s' = sh_end_batch_id s \<and> sh_pruned_up_to s' = Some c' \<and> c \<le> c' \<and> c' \<le> max c b \<and>
      (\<forall>k. c \<le> k \<longrightarrow> k < c' \<longrightarrow> sh_batch s k \<noteq> None) \<and>
      (\<forall>k. sh_batch s' k = (if c \<le> k \<and> k < c' then None else sh_batch s k))"
    by (rule prune_expired_receipts_effect) (fastforce simp: same_config_def)
next
  fix E s src k r r' s'
  assume "insert_migrated_batch E s src k r = Ok (r', s')"
  from insert_migrated_batch_Ok [OF this]
  show "sh_batch s k = None \<and> sh_batch s' = (sh_batch s)(k \<mapsto> r) \<and>
      sh_pruned_up_to s' = sh_pruned_up_to s \<and> sh_end_batch_id s' = sh_end_batch_id s \<and>
      (\<exists>b. sh_end_batch_id s = Some b \<and> k < b)" by (auto simp: same_config_def)
qed

end
