(* ===== verification/Incremental_Merkle.thy ===== *)
theory Incremental_Merkle
  imports Merkle
begin

text \<open>
  The append-only Merkle tree of \<open>contracts/receipt-anchor/src/incremental_merkle.rs\<close>: leaf count,
  root and the packed frontier of 32-byte slots, with the byte-level slot accesses of the source.
  The specification is the batch builder (pair neighbours, pair a last odd node with itself, until
  one node is left). The lemmas show that inserting leaves one by one never traps and keeps the
  stored root equal to the batch root of all inserted leaves.
\<close>

section \<open>The tree\<close>

definition MAX_DEPTH :: u32 where
  "MAX_DEPTH = 32"

definition MAX_LEAVES :: u64 where
  "MAX_LEAVES = 2 ^ MAX_DEPTH"

record incremental_tree =
  it_count :: u64
  it_root :: bytes
  it_frontier :: bytes

text \<open>The module's own \<open>hash_pair\<close> feeds the two halves to a streaming hasher; the digest is that of
  their concatenation.\<close>

definition inc_hash_pair :: "(bytes \<Rightarrow> bytes) \<Rightarrow> bytes \<Rightarrow> bytes \<Rightarrow> bytes" where
  "inc_hash_pair H a b = (let (lo, hi) = (if a \<le> b then (a, b) else (b, a)) in H (lo @ hi))"

definition slot :: "bytes \<Rightarrow> u32 \<Rightarrow> bytes outcome" where
  "slot fr level =
     (if level * 32 + 32 \<le> length fr then Ok (take 32 (drop (level * 32) fr)) else Trap)"

primrec set_bytes_from :: "bytes \<Rightarrow> bytes \<Rightarrow> nat \<Rightarrow> bytes outcome" where
  "set_bytes_from [] fr i = Ok fr"
| "set_bytes_from (b # bs) fr i =
     (if i < length fr then set_bytes_from bs (fr[i := b]) (Suc i) else Trap)"

definition set_slot :: "bytes \<Rightarrow> u32 \<Rightarrow> bytes \<Rightarrow> bytes outcome" where
  "set_slot fr level node =
     (let start = level * 32
      in if length fr = start then Ok (fr @ node) else set_bytes_from node fr start)"

function compute_root_from ::
  "(bytes \<Rightarrow> bytes) \<Rightarrow> bytes \<Rightarrow> u64 \<Rightarrow> bytes option \<Rightarrow> u32 \<Rightarrow> bytes outcome" where
  "compute_root_from H fr count partial level =
     (if level \<ge> 64 then Trap
      else let nodes = (count - 1) div 2 ^ level + 1;
               bit_set = (count div 2 ^ level) mod 2 = 1
      in if nodes = 1
         then (case partial of Some p \<Rightarrow> Ok p | None \<Rightarrow> slot fr level)
         else case (partial, bit_set) of
             (Some p, True) \<Rightarrow> obind (slot fr level)
                (\<lambda>s. compute_root_from H fr count (Some (inc_hash_pair H s p)) (level + 1))
           | (Some p, False) \<Rightarrow>
                compute_root_from H fr count (Some (inc_hash_pair H p p)) (level + 1)
           | (None, True) \<Rightarrow> obind (slot fr level)
                (\<lambda>s. compute_root_from H fr count (Some (inc_hash_pair H s s)) (level + 1))
           | (None, False) \<Rightarrow> compute_root_from H fr count None (level + 1))"
  by pat_completeness auto
termination
  by (relation "measure (\<lambda>(H, fr, count, partial, level). 64 - level)") auto

definition compute_root :: "(bytes \<Rightarrow> bytes) \<Rightarrow> bytes \<Rightarrow> u64 \<Rightarrow> bytes outcome" where
  "compute_root H fr count = (if count = 0 then Trap else compute_root_from H fr count None 0)"

function carry ::
  "(bytes \<Rightarrow> bytes) \<Rightarrow> bytes \<Rightarrow> u64 \<Rightarrow> bytes \<Rightarrow> u32 \<Rightarrow> (bytes \<times> u32) outcome" where
  "carry H fr index node level =
     (if level \<ge> 64 then Trap
      else if (index div 2 ^ level) mod 2 = 1
      then obind (slot fr level) (\<lambda>s. carry H fr index (inc_hash_pair H s node) (level + 1))
      else Ok (node, level))"
  by pat_completeness auto
termination
  by (relation "measure (\<lambda>(H, fr, index, node, level). 64 - level)") auto

definition tree_insert ::
  "(bytes \<Rightarrow> bytes) \<Rightarrow> incremental_tree \<Rightarrow> bytes \<Rightarrow> (u64 \<times> incremental_tree) outcome" where
  "tree_insert H tree leaf =
     (if it_count tree \<ge> MAX_LEAVES then Err BatchTooLarge
      else let index = it_count tree in
        obind (carry H (it_frontier tree) index leaf 0) (\<lambda>(node, level).
        obind (set_slot (it_frontier tree) level node) (\<lambda>fr.
        obind (compute_root H fr (index + 1)) (\<lambda>r.
        Ok (index, \<lparr>it_count = index + 1, it_root = r, it_frontier = fr\<rparr>)))))"

definition tree_empty :: incremental_tree where
  "tree_empty = \<lparr>it_count = 0, it_root = replicate 32 0, it_frontier = []\<rparr>"

primrec tree_insert_all ::
  "(bytes \<Rightarrow> bytes) \<Rightarrow> incremental_tree \<Rightarrow> bytes list \<Rightarrow> incremental_tree outcome" where
  "tree_insert_all H t [] = Ok t"
| "tree_insert_all H t (x # xs) = obind (tree_insert H t x) (\<lambda>(i, t'). tree_insert_all H t' xs)"

declare compute_root_from.simps [simp del] carry.simps [simp del]

section \<open>The batch builder\<close>

fun pad_pairs :: "(bytes \<Rightarrow> bytes) \<Rightarrow> bytes list \<Rightarrow> bytes list" where
  "pad_pairs H (x # y # r) = hash_pair H x y # pad_pairs H r"
| "pad_pairs H [x] = [hash_pair H x x]"
| "pad_pairs H [] = []"

lemma length_pad_pairs [simp]: "length (pad_pairs H xs) = (length xs + 1) div 2"
  by (induction H xs rule: pad_pairs.induct) auto

function batch_root :: "(bytes \<Rightarrow> bytes) \<Rightarrow> bytes list \<Rightarrow> bytes" where
  "batch_root H [] = replicate 32 0"
| "batch_root H [x] = x"
| "batch_root H (x # y # r) = batch_root H (pad_pairs H (x # y # r))"
  by pat_completeness auto
termination
  by (relation "measure (\<lambda>(H, xs). length xs)") auto

lemma batch_root_step: "2 \<le> length xs \<Longrightarrow> batch_root H xs = batch_root H (pad_pairs H xs)"
  by (cases "(H, xs)" rule: batch_root.cases) auto

text \<open>The complete nodes of a level: the pairs that need no padding.\<close>

fun pairs :: "(bytes \<Rightarrow> bytes) \<Rightarrow> bytes list \<Rightarrow> bytes list" where
  "pairs H (x # y # r) = hash_pair H x y # pairs H r"
| "pairs H [x] = []"
| "pairs H [] = []"

primrec cnodes :: "(bytes \<Rightarrow> bytes) \<Rightarrow> nat \<Rightarrow> bytes list \<Rightarrow> bytes list" where
  "cnodes H 0 xs = xs"
| "cnodes H (Suc l) xs = pairs H (cnodes H l xs)"

lemma length_pairs [simp]: "length (pairs H xs) = length xs div 2"
  by (induction H xs rule: pairs.induct) auto

lemma length_cnodes [simp]: "length (cnodes H l xs) = length xs div 2 ^ l"
  by (induction l) (simp_all add: div_mult2_eq [symmetric] mult.commute)

lemma pairs_snoc:
  "pairs H (ys @ [y]) =
     (if even (length ys) then pairs H ys else pairs H ys @ [hash_pair H (last ys) y])"
  by (induction H ys rule: pairs.induct) auto

lemma pad_pairs_even: "even (length ys) \<Longrightarrow> pad_pairs H ys = pairs H ys"
  by (induction H ys rule: pairs.induct) auto

lemma pad_pairs_odd:
  "odd (length ys) \<Longrightarrow> pad_pairs H ys = pairs H ys @ [hash_pair H (last ys) (last ys)]"
  by (induction H ys rule: pairs.induct) auto

lemma pad_pairs_snoc:
  "pad_pairs H (ys @ [p]) =
     pairs H ys @ [if even (length ys) then hash_pair H p p else hash_pair H (last ys) p]"
  by (cases "even (length ys)") (simp_all add: pad_pairs_even pad_pairs_odd pairs_snoc)

lemma inc_hash_pair_eq [simp]: "inc_hash_pair H a b = hash_pair H a b"
  by (simp add: inc_hash_pair_def hash_pair_def pair_bytes_def Let_def)

lemma odd_iff_mod: "(a mod 2 = 1) \<longleftrightarrow> odd (a :: nat)" "(a mod 2 = Suc 0) \<longleftrightarrow> odd a"
  by presburger+

section \<open>The frontier\<close>

text \<open>
  The frontier of the leaves \<open>xs\<close>: one slot per binary digit of the leaf count, and under every set
  digit the last complete node of that level.
\<close>

definition frontier_ok :: "(bytes \<Rightarrow> bytes) \<Rightarrow> bytes list \<Rightarrow> bytes \<Rightarrow> bool" where
  "frontier_ok H xs fr \<longleftrightarrow>
     (\<exists>m. length fr = 32 * m \<and> length xs < 2 ^ m \<and> (m > 0 \<longrightarrow> 2 ^ (m - 1) \<le> length xs)) \<and>
     (\<forall>l. odd (length xs div 2 ^ l) \<longrightarrow> slot fr l = Ok (last (cnodes H l xs)))"

lemma set_bytes_from_eq:
  "i + length bs \<le> length fr \<Longrightarrow>
     set_bytes_from bs fr i = Ok (take i fr @ bs @ drop (i + length bs) fr)"
proof (induction bs arbitrary: fr i)
  case Nil
  then show ?case by simp
next
  case (Cons b bs)
  from Cons.prems have i: "i < length fr" by simp
  with Cons show ?case
    by (simp add: take_Suc_conv_app_nth take_update_swap drop_update_cancel list_update_append)
qed

lemma slot_Ok_iff: "slot fr l = Ok s \<longleftrightarrow> l * 32 + 32 \<le> length fr \<and> s = take 32 (drop (l * 32) fr)"
  by (auto simp: slot_def)

lemma set_slot_in_range:
  assumes "l * 32 + 32 \<le> length fr" and "length node = 32"
  obtains fr' where "set_slot fr l node = Ok fr'" and "length fr' = length fr"
    and "slot fr' l = Ok node" and "\<And>j. j \<noteq> l \<Longrightarrow> slot fr' j = slot fr j"
proof
  let ?fr' = "take (l * 32) fr @ node @ drop (l * 32 + 32) fr"
  show "set_slot fr l node = Ok ?fr'"
    using assms by (simp add: set_slot_def set_bytes_from_eq Let_def)
  show len: "length ?fr' = length fr" using assms by simp
  show "slot ?fr' l = Ok node"
    using assms len by (simp add: slot_def)
  fix j assume "j \<noteq> l"
  then consider "j * 32 + 32 \<le> l * 32" | "l * 32 + 32 \<le> j * 32" by linarith
  then show "slot ?fr' j = slot fr j"
  proof cases
    case 1
    then show ?thesis using assms len by (simp add: slot_def drop_take)
  next
    case 2
    then show ?thesis using assms len by (simp add: slot_def)
  qed
qed

lemma set_slot_append:
  assumes "length fr = l * 32" and "length node = 32"
  shows "set_slot fr l node = Ok (fr @ node)" and "slot (fr @ node) l = Ok node"
    and "\<And>j. j < l \<Longrightarrow> slot (fr @ node) j = slot fr j"
  using assms by (simp_all add: set_slot_def slot_def)

section \<open>One insertion\<close>

text \<open>Carrying a new leaf closes exactly the complete subtrees below the first clear digit.\<close>

lemma cnodes_snoc_high:
  assumes "even (length xs div 2 ^ l)" and "cnodes H l (xs @ [x]) = cnodes H l xs @ [node]"
    and "l < j"
  shows "cnodes H j (xs @ [x]) = cnodes H j xs"
  using assms(3)
proof (induction j)
  case 0
  then show ?case by simp
next
  case (Suc j)
  show ?case
  proof (cases "j = l")
    case True
    with assms show ?thesis by (simp add: pairs_snoc)
  next
    case False
    with Suc show ?thesis by simp
  qed
qed

lemma carry_correct:
  assumes fr: "\<And>l. odd (length xs div 2 ^ l) \<Longrightarrow> slot fr l = Ok (last (cnodes H l xs))"
    and small: "length xs < 2 ^ 32"
    and "cnodes H l (xs @ [x]) = cnodes H l xs @ [node]"
    and "\<forall>j<l. odd (length xs div 2 ^ j)"
  shows "\<exists>node' l'. carry H fr (length xs) node l = Ok (node', l') \<and>
      cnodes H l' (xs @ [x]) = cnodes H l' xs @ [node'] \<and>
      even (length xs div 2 ^ l') \<and> (\<forall>j<l'. odd (length xs div 2 ^ j))"
  using assms(3,4)
proof (induction "64 - l" arbitrary: l node rule: less_induct)
  case less
  have l: "l \<le> 32"
  proof (rule ccontr)
    assume "\<not> l \<le> 32"
    then have "odd (length xs div 2 ^ 32)" using less.prems(2) not_le by blast
    with small show False by simp
  qed
  show ?case
  proof (cases "odd (length xs div 2 ^ l)")
    case True
    let ?node = "hash_pair H (last (cnodes H l xs)) node"
    have "cnodes H (Suc l) (xs @ [x]) = cnodes H (Suc l) xs @ [?node]"
      using less.prems(1) True by (simp add: pairs_snoc)
    moreover have "\<forall>j<Suc l. odd (length xs div 2 ^ j)"
      using less.prems(2) True by (simp add: less_Suc_eq)
    ultimately have "\<exists>node' l'. carry H fr (length xs) ?node (Suc l) = Ok (node', l') \<and>
      cnodes H l' (xs @ [x]) = cnodes H l' xs @ [node'] \<and>
      even (length xs div 2 ^ l') \<and> (\<forall>j<l'. odd (length xs div 2 ^ j))"
      using less.hyps [of "Suc l"] l by simp
    with True l show ?thesis
      by (subst carry.simps) (simp add: odd_iff_mod fr)
  next
    case False
    with less.prems l show ?thesis
      by (subst carry.simps) (auto simp: odd_iff_mod)
  qed
qed

lemma nat_mask_if_bits:
  assumes "n < 2 ^ m" and "\<forall>j<m. odd (n div 2 ^ j)"
  shows "Suc n = 2 ^ m"
proof -
  have "n = mask m"
  proof (rule bit_eqI)
    fix j
    show "bit n j \<longleftrightarrow> bit (mask m :: nat) j"
    proof (cases "j < m")
      case True
      with assms(2) show ?thesis by (simp add: bit_mask_iff) (simp add: bit_iff_odd)
    next
      case False
      then have "n < 2 ^ j"
        using assms(1) by (meson less_le_trans linorder_not_less one_le_numeral power_increasing)
      with False show ?thesis by (simp add: bit_mask_iff) (simp add: bit_iff_odd)
    qed
  qed
  then show ?thesis by (simp add: mask_eq_exp_minus_1)
qed

lemma bits_if_nat_mask:
  assumes "Suc n = 2 ^ m" and "j < m"
  shows "odd (n div 2 ^ j)"
proof -
  from assms(1) have "n = mask m" by (simp add: mask_eq_exp_minus_1)
  with assms(2) show ?thesis by (metis bit_iff_odd bit_mask_iff possible_bit_nat)
qed


text \<open>Every node the tree stores is a digest or a leaf, hence 32 bytes long.\<close>

lemma cnodes_length32:
  assumes "\<And>x. length (H x) = 32" and "\<And>x. x \<in> set xs \<Longrightarrow> length x = 32"
    and "s \<in> set (cnodes H l xs)"
  shows "length s = 32"
proof -
  have step: "s \<in> set (pairs H ys) \<Longrightarrow> length s = 32" for ys
    by (induction ys rule: induct_list012) (auto simp: hash_pair_def assms(1))
  show ?thesis using assms(2,3) step by (cases l) auto
qed

lemma cnodes_snoc_low:
  assumes "\<forall>i<j. odd (length xs div 2 ^ i)"
  shows "\<exists>nj. cnodes H j (xs @ [x]) = cnodes H j xs @ [nj]"
  using assms
proof (induction j)
  case 0
  then show ?case by simp
next
  case (Suc j)
  then obtain nj where "cnodes H j (xs @ [x]) = cnodes H j xs @ [nj]" by auto
  with Suc.prems show ?case by (simp add: pairs_snoc)
qed

lemma slots_snoc:
  assumes slots: "\<And>l. odd (length xs div 2 ^ l) \<Longrightarrow> slot fr l = Ok (last (cnodes H l xs))"
    and node: "cnodes H l (xs @ [x]) = cnodes H l xs @ [node]"
    and even: "even (length xs div 2 ^ l)" and low: "\<forall>j<l. odd (length xs div 2 ^ j)"
    and new: "slot fr' l = Ok node"
    and old: "\<And>j. l < j \<Longrightarrow> odd (length xs div 2 ^ j) \<Longrightarrow> slot fr' j = slot fr j"
    and odd: "odd (length (xs @ [x]) div 2 ^ j)"
  shows "slot fr' j = Ok (last (cnodes H j (xs @ [x])))"
proof -
  consider "j < l" | "j = l" | "l < j" by linarith
  then show ?thesis
  proof cases
    case 1
    with low obtain nj where "cnodes H j (xs @ [x]) = cnodes H j xs @ [nj]"
      using cnodes_snoc_low [of j xs H x] by auto
    then have "length (cnodes H j (xs @ [x])) = Suc (length (cnodes H j xs))" by simp
    with low 1 odd have False by simp
    then show ?thesis ..
  next
    case 2
    with new node show ?thesis by simp
  next
    case 3
    then have eq: "cnodes H j (xs @ [x]) = cnodes H j xs"
      by (rule cnodes_snoc_high [OF even node])
    then have "length (cnodes H j (xs @ [x])) = length (cnodes H j xs)" by simp
    with odd have "odd (length xs div 2 ^ j)" by simp
    with old [OF 3] slots eq show ?thesis by simp
  qed
qed

lemma div_power_small: "n < 2 ^ m \<Longrightarrow> m \<le> j \<Longrightarrow> n div 2 ^ j = (0 :: nat)"
  by (metis div_less le_less_trans less_le_trans one_le_numeral power_increasing order_refl)

lemma insert_frontier:
  assumes ok: "frontier_ok H xs fr" and small: "length xs < 2 ^ 32"
    and H: "\<And>x. length (H x) = 32" and len: "\<And>y. y \<in> set (xs @ [x]) \<Longrightarrow> length y = 32"
  obtains node l fr' where "carry H fr (length xs) x 0 = Ok (node, l)"
    and "set_slot fr l node = Ok fr'" and "frontier_ok H (xs @ [x]) fr'"
proof -
  let ?n = "length xs"
  from ok obtain m where m: "length fr = 32 * m" "?n < 2 ^ m" "m > 0 \<longrightarrow> 2 ^ (m - 1) \<le> ?n"
    and slots: "\<And>l. odd (?n div 2 ^ l) \<Longrightarrow> slot fr l = Ok (last (cnodes H l xs))"
    unfolding frontier_ok_def by blast
  from carry_correct [OF slots small, of 0 x x] obtain node l
    where c: "carry H fr ?n x 0 = Ok (node, l)"
      and node: "cnodes H l (xs @ [x]) = cnodes H l xs @ [node]"
      and even: "even (?n div 2 ^ l)" and low: "\<forall>j<l. odd (?n div 2 ^ j)"
    by auto
  have snoc: "slot fr' j = Ok (last (cnodes H j (xs @ [x])))"
    if "slot fr' l = Ok node" "\<And>j. l < j \<Longrightarrow> odd (?n div 2 ^ j) \<Longrightarrow> slot fr' j = slot fr j"
      "odd (length (xs @ [x]) div 2 ^ j)" for fr' j
    using slots node even low that by (rule slots_snoc)
  have node32: "length node = 32"
    using cnodes_length32 [of H "xs @ [x]" node l] H len node by simp
  have lm: "l \<le> m" using low div_power_small [OF m(2) order_refl] by (metis even_zero not_le)
  show thesis
  proof (cases "l = m")
    case True
    have app: "set_slot fr l node = Ok (fr @ node)" "slot (fr @ node) l = Ok node"
      using set_slot_append [of fr l node] m(1) True node32 by simp_all
    have "Suc ?n = 2 ^ m" using nat_mask_if_bits m(2) low True by blast
    moreover have "slot (fr @ node) j = Ok (last (cnodes H j (xs @ [x])))"
      if "odd (length (xs @ [x]) div 2 ^ j)" for j
      by (rule snoc [OF app(2) _ that]) (simp add: div_power_small [OF m(2)] True)
    ultimately have "frontier_ok H (xs @ [x]) (fr @ node)"
      unfolding frontier_ok_def using m(1) node32 by (intro conjI exI [of _ "Suc m"]) auto
    with that c app(1) show ?thesis by blast
  next
    case False
    with lm have "l * 32 + 32 \<le> length fr" using m(1) by simp
    from set_slot_in_range [OF this node32] obtain fr' where
      fr': "set_slot fr l node = Ok fr'" "length fr' = length fr"
        "slot fr' l = Ok node" "\<And>j. j \<noteq> l \<Longrightarrow> slot fr' j = slot fr j" by metis
    have "Suc ?n \<noteq> 2 ^ m" using bits_if_nat_mask even False lm by (metis le_neq_implies_less)
    with fr' m snoc [OF fr'(3)] have "frontier_ok H (xs @ [x]) fr'"
      unfolding frontier_ok_def by (intro conjI exI [of _ m]) auto
    with that c fr' show ?thesis by blast
  qed
qed

section \<open>The root\<close>

definition opt_list :: "'a option \<Rightarrow> 'a list" where
  "opt_list m = (case m of None \<Rightarrow> [] | Some x \<Rightarrow> [x])"

lemma opt_list_simps [simp]: "opt_list None = []" "opt_list (Some x) = [x]"
  by (simp_all add: opt_list_def)

lemma halve_nodes: "(n - 1) div 2 ^ Suc l + 1 = ((n - 1) div 2 ^ l + 1 + 1) div (2 :: nat)"
  by (simp add: div_mult2_eq [symmetric] mult.commute)

text \<open>At every level the complete nodes followed by the partial node are the batch builder's level.\<close>

lemma compute_root_from_correct:
  assumes slots: "\<And>l. odd (length xs div 2 ^ l) \<Longrightarrow> slot fr l = Ok (last (cnodes H l xs))"
    and n: "xs \<noteq> []" "length xs \<le> 2 ^ 32"
    and "length (cnodes H l xs @ opt_list p) = (length xs - 1) div 2 ^ l + 1" and "l \<le> 32"
  shows "compute_root_from H fr (length xs) p l = Ok (batch_root H (cnodes H l xs @ opt_list p))"
  using assms(4,5)
proof (induction "64 - l" arbitrary: l p rule: less_induct)
  case less
  let ?n = "length xs" and ?c = "cnodes H l xs"
  show ?case
  proof (cases "(?n - 1) div 2 ^ l = 0")
    case True
    with less.prems(1) have len: "length ?c + length (opt_list p) = 1" by simp
    show ?thesis
    proof (cases p)
      case None
      with len obtain y where y: "?c = [y]" by (metis One_nat_def Suc_length_conv add.right_neutral
          length_0_conv list.size(3) opt_list_simps(1))
      then have "?n div 2 ^ l = 1" by (metis One_nat_def length_Cons length_cnodes list.size(3))
      with y None True less.prems(2) show ?thesis
        by (subst compute_root_from.simps) (simp add: slots)
    next
      case (Some q)
      with len have "?c = []" by (metis add_cancel_left_left length_0_conv length_Cons list.size(3)
          One_nat_def opt_list_simps(2))
      with Some True less.prems(2) show ?thesis
        by (subst compute_root_from.simps) simp
    qed
  next
    case False
    have "l < 32"
    proof (rule ccontr)
      assume "\<not> l < 32"
      moreover have "?n - 1 < 2 ^ 32" using n by (cases xs) auto
      ultimately show False using False div_power_small [of "?n - 1" 32 l] by simp
    qed
    define p' where "p' = (case (p, odd (?n div 2 ^ l)) of
        (Some q, True) \<Rightarrow> Some (hash_pair H (last ?c) q) | (Some q, False) \<Rightarrow> Some (hash_pair H q q)
      | (None, True) \<Rightarrow> Some (hash_pair H (last ?c) (last ?c)) | (None, False) \<Rightarrow> None)"
    have step: "pad_pairs H (?c @ opt_list p) = cnodes H (Suc l) xs @ opt_list p'"
      by (cases p; cases "odd (?n div 2 ^ l)")
        (auto simp: p'_def pad_pairs_snoc pad_pairs_even pad_pairs_odd)
    have len2: "2 \<le> length (?c @ opt_list p)" using less.prems(1) False by simp
    have "length (cnodes H (Suc l) xs @ opt_list p') = (?n - 1) div 2 ^ Suc l + 1"
      unfolding step [symmetric] halve_nodes length_pad_pairs less.prems(1) ..
    with less.hyps [of "Suc l" p'] \<open>l < 32\<close>
    have IH: "compute_root_from H fr ?n p' (Suc l) = Ok (batch_root H (?c @ opt_list p))"
      by (simp add: batch_root_step [OF len2] step)
    show ?thesis
      using IH False \<open>l < 32\<close>
      by (subst compute_root_from.simps; cases p; cases "odd (?n div 2 ^ l)")
        (auto simp: p'_def odd_iff_mod slots)
  qed
qed

lemma compute_root_correct:
  assumes "frontier_ok H xs fr" and "xs \<noteq> []" and "length xs \<le> 2 ^ 32"
  shows "compute_root H fr (length xs) = Ok (batch_root H xs)"
  using compute_root_from_correct [of xs fr H 0 None] assms
  by (auto simp: compute_root_def frontier_ok_def)

section \<open>Representation invariant and the main lemma\<close>

text \<open>The stored tree represents the inserted leaves.\<close>

definition represents :: "(bytes \<Rightarrow> bytes) \<Rightarrow> incremental_tree \<Rightarrow> bytes list \<Rightarrow> bool" where
  "represents H t xs \<longleftrightarrow> it_count t = length xs \<and> it_root t = batch_root H xs \<and>
     frontier_ok H xs (it_frontier t)"

lemma represents_empty: "represents H tree_empty []"
  by (auto simp: represents_def tree_empty_def frontier_ok_def)

lemma tree_insert_represents:
  assumes r: "represents H t xs" and small: "length xs < 2 ^ 32"
    and H: "\<And>x. length (H x) = 32" and len: "\<And>y. y \<in> set (xs @ [x]) \<Longrightarrow> length y = 32"
  shows "\<exists>t'. tree_insert H t x = Ok (length xs, t') \<and> represents H t' (xs @ [x])"
proof -
  from r have ok: "frontier_ok H xs (it_frontier t)" and c: "it_count t = length xs"
    by (simp_all add: represents_def)
  obtain node l fr' where *: "carry H (it_frontier t) (length xs) x 0 = Ok (node, l)"
    "set_slot (it_frontier t) l node = Ok fr'" "frontier_ok H (xs @ [x]) fr'"
    using insert_frontier [OF ok small H len] .
  have "compute_root H fr' (length (xs @ [x])) = Ok (batch_root H (xs @ [x]))"
    by (rule compute_root_correct) (use * small in auto)
  with * c small show ?thesis
    by (simp add: tree_insert_def represents_def MAX_LEAVES_def MAX_DEPTH_def Let_def)
qed

lemma tree_insert_full:
  "MAX_LEAVES \<le> it_count t \<Longrightarrow> tree_insert H t x = Err BatchTooLarge"
  by (simp add: tree_insert_def)

lemma tree_insert_all_represents:
  assumes H: "\<And>x. length (H x) = 32"
  shows "represents H t xs \<Longrightarrow> length (xs @ ys) \<le> 2 ^ 32 \<Longrightarrow>
    (\<And>y. y \<in> set (xs @ ys) \<Longrightarrow> length y = 32) \<Longrightarrow>
    \<exists>t'. tree_insert_all H t ys = Ok t' \<and> represents H t' (xs @ ys)"
proof (induction ys arbitrary: t xs)
  case Nil
  then show ?case by simp
next
  case (Cons y ys)
  from Cons.prems obtain t' where t': "tree_insert H t y = Ok (length xs, t')"
    "represents H t' (xs @ [y])"
    using tree_insert_represents [OF Cons.prems(1) _ H, of y] by auto
  with Cons.IH [of t' "xs @ [y]"] Cons.prems(2,3) show ?case by auto
qed

section \<open>The batch tree behind the root\<close>

text \<open>
  The batch builder as a tree: padding duplicates the last subtree of an odd level, so the result
  is a perfect tree whose leaves are the batch's leaves (some of them repeated).
\<close>

fun pad_forks :: "mtree list \<Rightarrow> mtree list" where
  "pad_forks (x # y # r) = Fork x y # pad_forks r"
| "pad_forks [x] = [Fork x x]"
| "pad_forks [] = []"

lemma length_pad_forks [simp]: "length (pad_forks ts) = (length ts + 1) div 2"
  by (induction ts rule: pad_forks.induct) auto

function join_trees :: "mtree list \<Rightarrow> mtree" where
  "join_trees [] = Tip (replicate 32 0)"
| "join_trees [t] = t"
| "join_trees (x # y # r) = join_trees (pad_forks (x # y # r))"
  by pat_completeness auto
termination
  by (relation "measure length") auto

definition batch_tree :: "bytes list \<Rightarrow> mtree" where
  "batch_tree leaves = join_trees (map Tip leaves)"

lemma map_mroot_pad_forks: "map (mroot H) (pad_forks ts) = pad_pairs H (map (mroot H) ts)"
  by (induction ts rule: pad_forks.induct) auto

lemma mroot_join_trees: "mroot H (join_trees ts) = batch_root H (map (mroot H) ts)"
proof (induction ts rule: join_trees.induct)
  case (3 x y r)
  then show ?case
    unfolding join_trees.simps(3) by (simp add: map_mroot_pad_forks)
qed simp_all

lemma mroot_batch_tree: "mroot H (batch_tree leaves) = batch_root H leaves"
  by (simp add: batch_tree_def mroot_join_trees comp_def)

lemma set_pad_forks_leaves:
  "(\<Union>t\<in>set (pad_forks ts). set (tree_leaves t)) = (\<Union>t\<in>set ts. set (tree_leaves t))"
  by (induction ts rule: pad_forks.induct) auto

lemma join_trees_leaves:
  "ts \<noteq> [] \<Longrightarrow> set (tree_leaves (join_trees ts)) = (\<Union>t\<in>set ts. set (tree_leaves t))"
proof (induction ts rule: join_trees.induct)
  case (3 x y r)
  then show ?case
    unfolding join_trees.simps(3) by (subst "3.IH") (auto simp: set_pad_forks_leaves)
qed simp_all

lemma batch_tree_leaves: "leaves \<noteq> [] \<Longrightarrow> set (tree_leaves (batch_tree leaves)) = set leaves"
  by (simp add: batch_tree_def join_trees_leaves)

lemma pad_forks_perfect: "\<forall>t\<in>set ts. perfect n t \<Longrightarrow> \<forall>t\<in>set (pad_forks ts). perfect (Suc n) t"
  by (induction ts rule: pad_forks.induct) auto

lemma perfect_height: "perfect n t \<Longrightarrow> tree_height t = n"
  by (induction t arbitrary: n) auto

lemma join_trees_perfect:
  "ts \<noteq> [] \<Longrightarrow> \<forall>t\<in>set ts. perfect n t \<Longrightarrow> \<exists>m. perfect m (join_trees ts)"
proof (induction ts arbitrary: n rule: join_trees.induct)
  case (3 x y r)
  from "3.prems"(2) have "\<forall>t\<in>set (pad_forks (x # y # r)). perfect (Suc n) t"
    by (rule pad_forks_perfect)
  with "3.IH" [of "Suc n"] show ?case unfolding join_trees.simps(3) by simp
qed auto

lemma batch_tree_perfect:
  "leaves \<noteq> [] \<Longrightarrow> perfect (tree_height (batch_tree leaves)) (batch_tree leaves)"
  using join_trees_perfect [of "map Tip leaves" 0] perfect_height
  by (fastforce simp: batch_tree_def)

text \<open>A batch of at most \<open>2 ^ d\<close> leaves has proofs of at most \<open>d\<close> siblings.\<close>

lemma join_trees_height:
  "ts \<noteq> [] \<Longrightarrow> \<forall>t\<in>set ts. perfect n t \<Longrightarrow> length ts \<le> 2 ^ d \<Longrightarrow> tree_height (join_trees ts) \<le> n + d"
proof (induction ts arbitrary: n d rule: join_trees.induct)
  case (2 t)
  then show ?case by (simp add: perfect_height)
next
  case (3 x y r)
  from "3.prems"(3) obtain d' where d: "d = Suc d'" by (cases d) auto
  have "\<forall>t\<in>set (pad_forks (x # y # r)). perfect (Suc n) t"
    using "3.prems"(2) by (rule pad_forks_perfect)
  moreover have "length (pad_forks (x # y # r)) \<le> 2 ^ d'" using "3.prems"(3) d by simp
  ultimately show ?case
    using "3.IH" [of "Suc n" d'] d unfolding join_trees.simps(3) by simp
qed simp

lemma batch_tree_height:
  "leaves \<noteq> [] \<Longrightarrow> length leaves \<le> 2 ^ d \<Longrightarrow> tree_height (batch_tree leaves) \<le> d"
  using join_trees_height [of "map Tip leaves" 0 d] by (simp add: batch_tree_def)

end
