(* ===== verification/Receipt_Anchor.thy ===== *)
theory Receipt_Anchor
  imports Receipt_Shard Incremental_Merkle
begin

text \<open>
  The router \<open>contracts/receipt-anchor/src/lib.rs\<close> and its proof pre-filter \<open>zk_verifier.rs\<close>: batch
  streams per logical shard id, storage shards of 200 batches deployed on demand, a ring buffer of
  roots, a token-bucket limiter, pruning across storage shards and the incremental tree.

  The router's storage is the record \<open>anchor\<close>; the deployed shards are a map from addresses, and an
  entry point takes and returns both. The host's derivation of a contract address from the
  deployer and the salt is the parameter \<open>D\<close>; deploying at an address that is taken traps, as the
  host does. A call through the plain client traps when the callee fails; a call through the
  \<open>try_\<close> client yields the callee's error or \<open>ShardCallFailed\<close>.
\<close>

section \<open>State\<close>

record rate_limit_config =
  burst_capacity :: u32
  refill_interval_secs :: u32

record bucket_state =
  tokens :: u32
  last_refill :: u64

datatype anchor_event =
    AnchorPayload u64 u64 u64 bytes u32 u64 u64 u32
  | PrunePayload u64 u64 u64 u64
  | ShardCreatedEvent u64 u64 address u64 u64
  | InitializedEvent address bytes u32
  | RateLimitUpdatedEvent u32 u32 u32 u32 u32
  | AnchorIntervalUpdatedEvent u32 u32 u32
  | ReceiptLeafInsertedEvent u64 bytes bytes

record anchor =
  an_admin :: "address option"
  an_shard_batch_count :: "u64 \<rightharpoonup> u64"
  an_shard_pruned_up_to :: "u64 \<rightharpoonup> u64"
  an_shard_root_buffer :: "u64 \<rightharpoonup> bytes list"
  an_shard_ids :: "u64 list option"
  an_rate_limit_config :: "rate_limit_config option"
  an_rate_limit_bucket :: "address \<rightharpoonup> bucket_state"
  an_shard_wasm_hash :: "bytes option"
  an_min_anchor_interval :: "u32 option"
  an_shard :: "u64 \<times> u64 \<rightharpoonup> address"
  an_pending_admin :: "address option"
  an_incremental_tree :: "incremental_tree option"
  an_events :: "anchor_event list"

definition MAX_BATCH_SIZE :: u32 where
  "MAX_BATCH_SIZE = 1000"

definition MAX_PROOF_LEN :: u32 where
  "MAX_PROOF_LEN = 10"

definition MAX_PRUNE_BATCHES :: u32 where
  "MAX_PRUNE_BATCHES = 100"

definition ROOT_BUFFER_SIZE :: u32 where
  "ROOT_BUFFER_SIZE = 100"

definition MAX_ANCHOR_INTERVAL :: u32 where
  "MAX_ANCHOR_INTERVAL = 86400"

definition MAX_RATE_BURST :: u32 where
  "MAX_RATE_BURST = 1000"

definition MAX_RATE_REFILL_INTERVAL :: u32 where
  "MAX_RATE_REFILL_INTERVAL = 86400"

definition SHARD_CAPACITY :: u64 where
  "SHARD_CAPACITY = 200"

text \<open>Storage before \<open>initialize\<close>.\<close>

definition anchor_new :: anchor where
  "anchor_new = \<lparr>an_admin = None, an_shard_batch_count = Map.empty,
     an_shard_pruned_up_to = Map.empty, an_shard_root_buffer = Map.empty, an_shard_ids = None,
     an_rate_limit_config = None, an_rate_limit_bucket = Map.empty, an_shard_wasm_hash = None,
     an_min_anchor_interval = None, an_shard = Map.empty, an_pending_admin = None,
     an_incremental_tree = None, an_events = []\<rparr>"

definition anchor_publish :: "anchor_event \<Rightarrow> anchor \<Rightarrow> anchor" where
  "anchor_publish ev A = A\<lparr>an_events := an_events A @ [ev]\<rparr>"

definition anchor_initialize :: "env \<Rightarrow> anchor \<Rightarrow> address \<Rightarrow> bytes \<Rightarrow> anchor outcome" where
  "anchor_initialize E A merchant shard_wasm_hash =
     (if an_admin A \<noteq> None then Err AlreadyInitialized
      else Ok (anchor_publish (InitializedEvent merchant shard_wasm_hash (sequence E))
        (A\<lparr>an_admin := Some merchant, an_shard_ids := Some [],
           an_rate_limit_config := Some \<lparr>burst_capacity = 0, refill_interval_secs = 0\<rparr>,
           an_shard_wasm_hash := Some shard_wasm_hash\<rparr>)))"

section \<open>Storage shards\<close>

definition shard_salt :: "u64 \<Rightarrow> u64 \<Rightarrow> bytes" where
  "shard_salt shard_id shard_index = replicate 16 0 @ be_bytes 8 shard_id @ be_bytes 8 shard_index"

definition get_or_create_shard ::
  "(address \<Rightarrow> bytes \<Rightarrow> address) \<Rightarrow> env \<Rightarrow> anchor \<Rightarrow> shards \<Rightarrow> u64 \<Rightarrow> u64 \<Rightarrow>
    (address \<times> anchor \<times> shards) outcome" where
  "get_or_create_shard D E A W shard_id shard_index =
     (case an_shard A (shard_id, shard_index) of
        Some addr \<Rightarrow> Ok (addr, A, W)
      | None \<Rightarrow>
          obind (ok_or (an_shard_wasm_hash A) NotInitialized) (\<lambda>wasm_hash.
          obind (u64_mul shard_index SHARD_CAPACITY) (\<lambda>base.
          obind (u64_add base 1) (\<lambda>start_batch_id.
          obind (u64_add start_batch_id SHARD_CAPACITY) (\<lambda>end_batch_id.
          let salt = shard_salt shard_id shard_index;
              shard_addr = D (current_contract_address E) salt
          in if W shard_addr \<noteq> None then Trap
             else Ok (shard_addr,
               anchor_publish
                 (ShardCreatedEvent shard_id shard_index shard_addr start_batch_id end_batch_id)
                 (A\<lparr>an_shard := (an_shard A)((shard_id, shard_index) \<mapsto> shard_addr)\<rparr>),
               W(shard_addr \<mapsto> shard_constructor (current_contract_address E)
                 start_batch_id end_batch_id)))))))"

definition shard_for_batch :: "anchor \<Rightarrow> u64 \<Rightarrow> u64 \<Rightarrow> address outcome" where
  "shard_for_batch A shard_id batch_id =
     (if batch_id = 0 then Err BatchNotFound
      else let shard_index = (batch_id - 1) div SHARD_CAPACITY
           in ok_or (an_shard A (shard_id, shard_index)) BatchNotFound)"

definition register_shard_id :: "anchor \<Rightarrow> u64 \<Rightarrow> anchor" where
  "register_shard_id A shard_id =
     (let ids = unwrap_or (an_shard_ids A) []
      in if shard_id \<in> set ids then A else A\<lparr>an_shard_ids := Some (ids @ [shard_id])\<rparr>)"

text \<open>A call through the \<open>try_\<close> client to whatever is deployed at \<open>addr\<close>.\<close>

definition unwrap_shard_result :: "'a outcome \<Rightarrow> 'a outcome" where
  "unwrap_shard_result res = (case res of
     Ok v \<Rightarrow> Ok v | Err e \<Rightarrow> Err e | Trap \<Rightarrow> Err ShardCallFailed)"

definition get_batch :: "anchor \<Rightarrow> shards \<Rightarrow> u64 \<Rightarrow> u64 \<Rightarrow> batch_record outcome" where
  "get_batch A W shard_id batch_id =
     obind (shard_for_batch A shard_id batch_id) (\<lambda>addr.
     unwrap_shard_result (obind (unwrap (W addr)) (\<lambda>s. shard_get_batch s batch_id)))"

definition verify_receipt ::
  "(bytes \<Rightarrow> bytes) \<Rightarrow> anchor \<Rightarrow> shards \<Rightarrow> u64 \<Rightarrow> u64 \<Rightarrow> bytes \<Rightarrow> bytes list \<Rightarrow> bool outcome" where
  "verify_receipt H A W shard_id batch_id leaf proof =
     obind (shard_for_batch A shard_id batch_id) (\<lambda>addr.
     unwrap_shard_result (obind (unwrap (W addr)) (\<lambda>s. shard_verify_receipt H s batch_id leaf proof)))"

definition extend_batch_ttl :: "anchor \<Rightarrow> shards \<Rightarrow> u64 \<Rightarrow> u64 \<Rightarrow> unit outcome" where
  "extend_batch_ttl A W shard_id batch_id =
     obind (shard_for_batch A shard_id batch_id) (\<lambda>addr.
     unwrap_shard_result (obind (unwrap (W addr)) (\<lambda>s. shard_extend_batch_ttl s batch_id)))"

section \<open>The rate limiter\<close>

definition is_valid_rate_limit :: "rate_limit_config \<Rightarrow> bool" where
  "is_valid_rate_limit config =
     (if burst_capacity config = 0 \<and> refill_interval_secs config = 0 then True
      else burst_capacity config > 0 \<and> refill_interval_secs config > 0 \<and>
        burst_capacity config \<le> MAX_RATE_BURST \<and>
        refill_interval_secs config \<le> MAX_RATE_REFILL_INTERVAL)"

definition refill_bucket :: "bucket_state \<Rightarrow> u64 \<Rightarrow> rate_limit_config \<Rightarrow> bucket_state" where
  "refill_bucket state now config =
     (let elapsed = saturating_sub now (last_refill state)
      in if elapsed \<ge> refill_interval_secs config
         then let refilled = elapsed div refill_interval_secs config
              in \<lparr>tokens = min (u64_saturating_add (tokens state) refilled) (burst_capacity config),
                  last_refill = now\<rparr>
         else state)"

definition bucket_of :: "anchor \<Rightarrow> env \<Rightarrow> address \<Rightarrow> rate_limit_config \<Rightarrow> bucket_state" where
  "bucket_of A E who config = unwrap_or (an_rate_limit_bucket A who)
     \<lparr>tokens = burst_capacity config, last_refill = timestamp E\<rparr>"

definition rate_limit_admitted :: "env \<Rightarrow> anchor \<Rightarrow> address \<Rightarrow> rate_limit_config \<Rightarrow> unit outcome" where
  "rate_limit_admitted E A who config =
     (let state = refill_bucket (bucket_of A E who config) (timestamp E) config
      in if tokens state = 0 then Err AnchorRateLimited else Ok ())"

definition rate_limit_consume :: "env \<Rightarrow> anchor \<Rightarrow> address \<Rightarrow> rate_limit_config \<Rightarrow> anchor" where
  "rate_limit_consume E A who config =
     (let state = refill_bucket (bucket_of A E who config) (timestamp E) config
      in A\<lparr>an_rate_limit_bucket := (an_rate_limit_bucket A)
             (who \<mapsto> state\<lparr>tokens := saturating_sub (tokens state) 1\<rparr>)\<rparr>)"

definition get_anchor_rate_limit :: "anchor \<Rightarrow> rate_limit_config" where
  "get_anchor_rate_limit A = unwrap_or (an_rate_limit_config A)
     \<lparr>burst_capacity = 0, refill_interval_secs = 0\<rparr>"

definition set_anchor_rate_limit :: "env \<Rightarrow> anchor \<Rightarrow> u32 \<Rightarrow> u32 \<Rightarrow> anchor outcome" where
  "set_anchor_rate_limit E A burst interval =
     obind (ok_or (an_admin A) NotInitialized) (\<lambda>merchant.
     obind (require_auth E merchant) (\<lambda>_.
     let config = \<lparr>burst_capacity = burst, refill_interval_secs = interval\<rparr>
     in if \<not> is_valid_rate_limit config then Err InvalidRateLimitConfig
        else let previous = get_anchor_rate_limit A
             in Ok (anchor_publish
               (RateLimitUpdatedEvent (burst_capacity previous) (refill_interval_secs previous)
                 (burst_capacity config) (refill_interval_secs config) (sequence E))
               (A\<lparr>an_rate_limit_config := Some config\<rparr>))))"

definition get_min_anchor_interval :: "anchor \<Rightarrow> u32" where
  "get_min_anchor_interval A = unwrap_or (an_min_anchor_interval A) 0"

definition set_min_anchor_interval :: "env \<Rightarrow> anchor \<Rightarrow> u32 \<Rightarrow> anchor outcome" where
  "set_min_anchor_interval E A interval =
     obind (ok_or (an_admin A) NotInitialized) (\<lambda>merchant.
     obind (require_auth E merchant) (\<lambda>_.
     if interval > MAX_ANCHOR_INTERVAL then Err BatchTooLarge
     else Ok (anchor_publish
       (AnchorIntervalUpdatedEvent (get_min_anchor_interval A) interval (sequence E))
       (A\<lparr>an_min_anchor_interval := Some interval\<rparr>))))"

section \<open>Proof pre-filter\<close>

record zk_proof =
  zk_a :: bytes
  zk_b :: bytes
  zk_c :: bytes

record verifying_key =
  alpha_g1 :: bytes
  beta_g2 :: bytes
  gamma_g2 :: bytes
  delta_g2 :: bytes
  vk_ic :: "bytes list"

definition all_zero :: "bytes \<Rightarrow> bool" where
  "all_zero bs = list_all (\<lambda>b. b = 0) bs"

definition verify_groth16 :: "zk_proof \<Rightarrow> verifying_key \<Rightarrow> bytes list \<Rightarrow> bool outcome" where
  "verify_groth16 proof vk public_inputs =
     (if length (vk_ic vk) \<noteq> length public_inputs + 1 then Ok False
      else if zk_a proof = [] \<or> zk_b proof = [] \<or> zk_c proof = [] then Ok False
      else if alpha_g1 vk = [] \<or> beta_g2 vk = [] \<or> gamma_g2 vk = [] \<or> delta_g2 vk = [] then Ok False
      else if length (zk_a proof) < 32 \<or> length (zk_b proof) < 32 \<or> length (zk_c proof) < 32
        then Ok False
      else if all_zero (zk_a proof) then Ok False
      else if all_zero (zk_b proof) then Ok False
      else if all_zero (zk_c proof) then Ok False
      else Ok True)"

definition verify_batch_zk_proof :: "bytes \<Rightarrow> zk_proof \<Rightarrow> u32 \<Rightarrow> bool outcome" where
  "verify_batch_zk_proof state_root proof cnt =
     (if cnt = 0 then Ok False
      else if zk_a proof = [] \<or> zk_b proof = [] \<or> zk_c proof = [] then Ok False
      else if length (zk_a proof) < 32 \<or> length (zk_b proof) < 32 \<or> length (zk_c proof) < 32
        then Ok False
      else if all_zero (zk_a proof) then Ok False
      else Ok True)"

definition verify_zk_proof :: "zk_proof \<Rightarrow> verifying_key \<Rightarrow> bytes list \<Rightarrow> bool outcome" where
  "verify_zk_proof proof vk public_inputs = verify_groth16 proof vk public_inputs"

section \<open>Anchoring\<close>

definition check_no_duplicate_root ::
  "anchor \<Rightarrow> shards \<Rightarrow> u64 \<Rightarrow> u64 \<Rightarrow> bytes \<Rightarrow> unit outcome" where
  "check_no_duplicate_root A W shard_id batch_count root =
     (if batch_count > 0
      then case get_batch A W shard_id batch_count of
          Ok last_batch \<Rightarrow> if br_root last_batch = root then Err DuplicateRoot else Ok ()
        | _ \<Rightarrow> Ok ()
      else Ok ())"

definition get_root_buffer :: "anchor \<Rightarrow> u64 \<Rightarrow> bytes list" where
  "get_root_buffer A shard_id = unwrap_or (an_shard_root_buffer A shard_id) []"

definition push_shard_root :: "anchor \<Rightarrow> u64 \<Rightarrow> bytes \<Rightarrow> anchor" where
  "push_shard_root A shard_id root =
     (let buffer = get_root_buffer A shard_id;
          buffer = (if length buffer \<ge> ROOT_BUFFER_SIZE then tl buffer else buffer)
      in A\<lparr>an_shard_root_buffer := (an_shard_root_buffer A)(shard_id \<mapsto> buffer @ [root])\<rparr>)"

definition batch_count_of :: "anchor \<Rightarrow> u64 \<Rightarrow> u64" where
  "batch_count_of A shard_id = unwrap_or (an_shard_batch_count A shard_id) 0"

text \<open>What \<open>anchor_batch_internal\<close> writes once the storage shard has accepted the record.\<close>

definition rate_limit_active :: "rate_limit_config \<Rightarrow> bool" where
  "rate_limit_active rate_limit \<longleftrightarrow> burst_capacity rate_limit > 0 \<and> refill_interval_secs rate_limit > 0"

definition anchor_commit ::
  "env \<Rightarrow> anchor \<Rightarrow> address \<Rightarrow> rate_limit_config \<Rightarrow> u64 \<Rightarrow> u64 \<Rightarrow> bytes \<Rightarrow> anchor" where
  "anchor_commit E A merchant rate_limit shard_id batch_id root =
     (let A = A\<lparr>an_shard_batch_count := (an_shard_batch_count A)(shard_id \<mapsto> batch_id)\<rparr>;
          A = register_shard_id A shard_id;
          A = (if rate_limit_active rate_limit then rate_limit_consume E A merchant rate_limit else A)
      in push_shard_root A shard_id root)"

definition anchor_batch_internal ::
  "(address \<Rightarrow> bytes \<Rightarrow> address) \<Rightarrow> env \<Rightarrow> anchor \<Rightarrow> shards \<Rightarrow> u64 \<Rightarrow> bytes \<Rightarrow> u32 \<Rightarrow> u64 \<Rightarrow> u64 \<Rightarrow>
    (u64 \<times> anchor \<times> shards) outcome" where
  "anchor_batch_internal D E A W shard_id root cnt period_start period_end =
     (if cnt > MAX_BATCH_SIZE then Err BatchTooLarge else
      obind (ok_or (an_admin A) NotInitialized) (\<lambda>merchant.
      obind (require_auth E merchant) (\<lambda>_.
      let rate_limit = get_anchor_rate_limit A
      in obind (if rate_limit_active rate_limit then rate_limit_admitted E A merchant rate_limit else Ok ()) (\<lambda>_.
      let batch_count = batch_count_of A shard_id
      in obind (check_no_duplicate_root A W shard_id batch_count root) (\<lambda>_.
      obind (u64_add batch_count 1) (\<lambda>batch_id.
      let shard_index = (batch_id - 1) div SHARD_CAPACITY
      in obind (get_or_create_shard D E A W shard_id shard_index) (\<lambda>(shard_addr, A, W).
      case W shard_addr of None \<Rightarrow> Trap | Some s \<Rightarrow>
      (case shard_anchor_batch (callee_env E shard_addr) s batch_id root cnt period_start period_end of
         Ok s' \<Rightarrow>
           Ok (batch_id,
             anchor_publish (AnchorPayload batch_id (timestamp E) shard_id root cnt
               period_start period_end (sequence E))
               (anchor_commit E A merchant rate_limit shard_id batch_id root),
             W(shard_addr \<mapsto> s'))
       | _ \<Rightarrow> Trap))))))))"

definition anchor_batch ::
  "(address \<Rightarrow> bytes \<Rightarrow> address) \<Rightarrow> env \<Rightarrow> anchor \<Rightarrow> shards \<Rightarrow> u64 \<Rightarrow> bytes \<Rightarrow> u32 \<Rightarrow> u64 \<Rightarrow> u64 \<Rightarrow>
    (u64 \<times> anchor \<times> shards) outcome" where
  "anchor_batch D E A W shard_id root cnt period_start period_end =
     anchor_batch_internal D E A W shard_id root cnt period_start period_end"

definition anchor_batch_zk ::
  "(address \<Rightarrow> bytes \<Rightarrow> address) \<Rightarrow> env \<Rightarrow> anchor \<Rightarrow> shards \<Rightarrow> u64 \<Rightarrow> bytes \<Rightarrow> zk_proof \<Rightarrow> u32 \<Rightarrow>
    u64 \<Rightarrow> u64 \<Rightarrow> (u64 \<times> anchor \<times> shards) outcome" where
  "anchor_batch_zk D E A W shard_id state_root proof cnt period_start period_end =
     obind (verify_batch_zk_proof state_root proof cnt) (\<lambda>is_valid.
     if \<not> is_valid then Err InvalidProof
     else anchor_batch_internal D E A W shard_id state_root cnt period_start period_end)"

section \<open>Reading\<close>

definition require_initialized :: "anchor \<Rightarrow> unit outcome" where
  "require_initialized A = (if an_admin A \<noteq> None then Ok () else Err NotInitialized)"

definition verify_receipt_by_root ::
  "(bytes \<Rightarrow> bytes) \<Rightarrow> anchor \<Rightarrow> u64 \<Rightarrow> bytes \<Rightarrow> bytes \<Rightarrow> bytes list \<Rightarrow> bool outcome" where
  "verify_receipt_by_root H A shard_id root leaf proof =
     (if length proof > MAX_PROOF_LEN then Err ProofTooLong else
      obind (require_initialized A) (\<lambda>_.
      let buffer = get_root_buffer A shard_id;
          found = list_ex (\<lambda>stored_root. stored_root = root) buffer
      in if \<not> found then Err RootNotFound else Ok (merkle_verify H root leaf proof)))"

definition verify_receipt_leaf ::
  "(bytes \<Rightarrow> bytes) \<Rightarrow> anchor \<Rightarrow> u64 \<Rightarrow> bytes \<Rightarrow> bytes \<Rightarrow> bytes list \<Rightarrow> bool outcome" where
  "verify_receipt_leaf H A shard_id root leaf proof = verify_receipt_by_root H A shard_id root leaf proof"

definition get_batch_count :: "anchor \<Rightarrow> u64 \<Rightarrow> u64 outcome" where
  "get_batch_count A shard_id = obind (require_initialized A) (\<lambda>_. Ok (batch_count_of A shard_id))"

definition get_shard_root :: "anchor \<Rightarrow> shards \<Rightarrow> u64 \<Rightarrow> bytes outcome" where
  "get_shard_root A W shard_id =
     obind (require_initialized A) (\<lambda>_.
     let cnt = batch_count_of A shard_id
     in if cnt = 0 then Err BatchNotFound
        else obind (get_batch A W shard_id cnt) (\<lambda>last. Ok (br_root last)))"

definition get_shard_ids :: "anchor \<Rightarrow> u64 list" where
  "get_shard_ids A = unwrap_or (an_shard_ids A) []"

definition get_shard_count :: "anchor \<Rightarrow> u64 \<Rightarrow> u64 outcome" where
  "get_shard_count A shard_id =
     obind (require_initialized A) (\<lambda>_.
     let batch_count = batch_count_of A shard_id
     in if batch_count = 0 then Ok 0 else Ok ((batch_count - 1) div SHARD_CAPACITY + 1))"

definition get_shard_address :: "anchor \<Rightarrow> u64 \<Rightarrow> u64 \<Rightarrow> address outcome" where
  "get_shard_address A shard_id shard_index = ok_or (an_shard A (shard_id, shard_index)) BatchNotFound"

definition get_pruned_up_to :: "anchor \<Rightarrow> u64 \<Rightarrow> u64 outcome" where
  "get_pruned_up_to A shard_id =
     obind (require_initialized A) (\<lambda>_. Ok (unwrap_or (an_shard_pruned_up_to A shard_id) 1))"

section \<open>The incremental tree\<close>

definition insert_receipt_leaf ::
  "(bytes \<Rightarrow> bytes) \<Rightarrow> env \<Rightarrow> anchor \<Rightarrow> bytes \<Rightarrow> (u64 \<times> anchor) outcome" where
  "insert_receipt_leaf H E A leaf_hash =
     obind (ok_or (an_admin A) NotInitialized) (\<lambda>merchant.
     obind (require_auth E merchant) (\<lambda>_.
     let tree = unwrap_or (an_incremental_tree A) tree_empty
     in obind (tree_insert H tree leaf_hash) (\<lambda>(leaf_index, tree).
     Ok (leaf_index, anchor_publish (ReceiptLeafInsertedEvent leaf_index leaf_hash (it_root tree))
       (A\<lparr>an_incremental_tree := Some tree\<rparr>)))))"

definition get_incremental_root :: "anchor \<Rightarrow> bytes outcome" where
  "get_incremental_root A = ok_or (map_option it_root (an_incremental_tree A)) RootNotFound"

definition get_incremental_leaf_count :: "anchor \<Rightarrow> u64" where
  "get_incremental_leaf_count A = (case an_incremental_tree A of None \<Rightarrow> 0 | Some t \<Rightarrow> it_count t)"

section \<open>Administration\<close>

definition anchor_get_admin :: "anchor \<Rightarrow> address outcome" where
  "anchor_get_admin A = ok_or (an_admin A) NotInitialized"

definition anchor_transfer_admin :: "env \<Rightarrow> anchor \<Rightarrow> address \<Rightarrow> anchor outcome" where
  "anchor_transfer_admin E A proposed =
     obind (ok_or (an_admin A) NotInitialized) (\<lambda>admin.
     obind (require_auth E admin) (\<lambda>_. Ok (A\<lparr>an_pending_admin := Some proposed\<rparr>)))"

definition anchor_accept_admin :: "env \<Rightarrow> anchor \<Rightarrow> anchor outcome" where
  "anchor_accept_admin E A =
     obind (ok_or (an_pending_admin A) NoPendingTransfer) (\<lambda>proposed.
     obind (require_auth E proposed) (\<lambda>_.
     Ok (A\<lparr>an_admin := Some proposed, an_pending_admin := None\<rparr>)))"

definition anchor_get_pending_admin :: "anchor \<Rightarrow> address outcome" where
  "anchor_get_pending_admin A = ok_or (an_pending_admin A) NoPendingTransfer"

section \<open>Pruning across storage shards\<close>

text \<open>
  The loop of \<open>prune_batches\<close>. Nothing in the code itself forces the callee's cursor forward, so the
  loop is a partial function: a run that does not end has the value \<open>None\<close>.
\<close>

partial_function (option) anchor_prune_loop ::
  "env \<Rightarrow> anchor \<Rightarrow> u64 \<Rightarrow> u32 \<Rightarrow> u64 \<Rightarrow> u64 \<Rightarrow> u64 \<Rightarrow> shards \<Rightarrow> (u64 \<times> u64 \<times> shards) outcome option" where
  "anchor_prune_loop E A shard_id before_ledger batch_count cursor pruned_count W =
     (if cursor \<le> batch_count \<and> pruned_count mod 2 ^ 32 < MAX_PRUNE_BATCHES
      then case shard_for_batch A shard_id cursor of
          Ok shard_addr \<Rightarrow>
            (let max_to_prune = saturating_sub MAX_PRUNE_BATCHES (pruned_count mod 2 ^ 32)
             in case obind (u64_add batch_count 1) (\<lambda>high. obind (unwrap (W shard_addr)) (\<lambda>s.
                    shard_prune_batches (callee_env E shard_addr) s before_ledger max_to_prune high)) of
                  Ok r \<Rightarrow>
                    (case (u64_add pruned_count (snd (fst r)) :: u64 outcome) of
                       Ok pruned_count \<Rightarrow>
                         if fst (fst r) = cursor
                         then Some (Ok (cursor, pruned_count, W(shard_addr \<mapsto> snd r)))
                         else anchor_prune_loop E A shard_id before_ledger batch_count
                                (fst (fst r)) pruned_count (W(shard_addr \<mapsto> snd r))
                     | _ \<Rightarrow> Some Trap)
                | _ \<Rightarrow> Some Trap)
        | _ \<Rightarrow>
            (case (obind (u64_add cursor 1) (\<lambda>c. obind (u64_add pruned_count 1) (\<lambda>n. Ok (c, n))) :: (u64 \<times> u64) outcome) of
               Ok r \<Rightarrow> anchor_prune_loop E A shard_id before_ledger batch_count (fst r) (snd r) W
             | _ \<Rightarrow> Some Trap)
      else Some (Ok (cursor, pruned_count, W)))"

definition prune_batches ::
  "env \<Rightarrow> anchor \<Rightarrow> shards \<Rightarrow> u64 \<Rightarrow> u32 \<Rightarrow> (u64 \<times> anchor \<times> shards) outcome option" where
  "prune_batches E A W shard_id before_ledger =
     (let cursor = unwrap_or (an_shard_pruned_up_to A shard_id) 1;
          batch_count = batch_count_of A shard_id;
          start_batch_id = cursor
      in map_option (\<lambda>res. obind res (\<lambda>(cursor, pruned_count, W).
           let A = A\<lparr>an_shard_pruned_up_to := (an_shard_pruned_up_to A)(shard_id \<mapsto> cursor)\<rparr>;
               A = (if cursor > start_batch_id
                    then anchor_publish (PrunePayload (timestamp E) shard_id start_batch_id (cursor - 1)) A
                    else A)
           in Ok (cursor, A, W)))
         (anchor_prune_loop E A shard_id before_ledger batch_count cursor 0 W))"

section \<open>The router invariant\<close>

text \<open>
  \<open>h\<close> is the list of records the router has anchored for each logical shard, and \<open>J\<close> collects the
  records that were put into a storage shard past the router, with the shard's address and the id. A
  storage shard at index \<open>i\<close> holds its chunk of \<open>h\<close> from its own cursor on; the router's cursor \<open>rc\<close>
  never runs ahead of the cursors of the storage shards, and never past the last deployed one.
\<close>

definition chunk_ok ::
  "address \<Rightarrow> batch_record list \<Rightarrow> (u64 \<times> batch_record) set \<Rightarrow> u64 \<Rightarrow> u64 \<Rightarrow> shard \<Rightarrow> bool" where
  "chunk_ok R h J rc i s \<longleftrightarrow> shard_inv s \<and> sh_router s = Some R \<and> sh_active s = Some True \<and>
     sh_start_batch_id s = Some (i * 200 + 1) \<and> sh_end_batch_id s = Some (i * 200 + 201) \<and>
     (\<exists>c. sh_pruned_up_to s = Some c \<and> min rc (i * 200 + 201) \<le> c \<and>
        holds_log (sh_batch s) (i * 200 + 1) (i * 200 + 201) h J c)"

definition chunk_end :: "nat \<Rightarrow> u64" where
  "chunk_end n = (n + 199) div 200 * 200 + 1"

definition pruned_cursor :: "anchor \<Rightarrow> u64 \<Rightarrow> u64" where
  "pruned_cursor A sid = unwrap_or (an_shard_pruned_up_to A sid) 1"

definition stream_inv ::
  "address \<Rightarrow> anchor \<Rightarrow> shards \<Rightarrow> (u64 \<Rightarrow> batch_record list) \<Rightarrow> (address \<times> u64 \<times> batch_record) set \<Rightarrow> bool" where
  "stream_inv R A W h J \<longleftrightarrow>
     (\<forall>sid. batch_count_of A sid = length (h sid)) \<and>
     (\<forall>sid. 1 \<le> pruned_cursor A sid \<and> pruned_cursor A sid \<le> chunk_end (length (h sid)) \<and>
        (J = {} \<longrightarrow> pruned_cursor A sid \<le> length (h sid) + 1)) \<and>
     (\<forall>k k' a. an_shard A k = Some a \<longrightarrow> an_shard A k' = Some a \<longrightarrow> k = k') \<and>
     (\<forall>sid i. an_shard A (sid, i) \<noteq> None \<longleftrightarrow> i * 200 < length (h sid)) \<and>
     (\<forall>sid i a. an_shard A (sid, i) = Some a \<longrightarrow>
        (\<exists>s. W a = Some s \<and> chunk_ok R (h sid) (J `` {a}) (pruned_cursor A sid) i s))"

definition recent :: "nat \<Rightarrow> 'a list \<Rightarrow> 'a list" where
  "recent n xs = drop (length xs - n) xs"

definition index_inv :: "anchor \<Rightarrow> (u64 \<Rightarrow> batch_record list) \<Rightarrow> bool" where
  "index_inv A h \<longleftrightarrow>
     (\<forall>sid. get_root_buffer A sid = recent 100 (map br_root (h sid))) \<and>
     distinct (get_shard_ids A) \<and> set (get_shard_ids A) = {sid. h sid \<noteq> []} \<and>
     (\<forall>sid. \<forall>r\<in>set (h sid). br_count r \<le> MAX_BATCH_SIZE)"

lemma stream_invD:
  assumes "stream_inv R A W h J"
  shows "batch_count_of A sid = length (h sid)" "1 \<le> pruned_cursor A sid"
    "pruned_cursor A sid \<le> chunk_end (length (h sid))"
    "an_shard A k = Some a \<Longrightarrow> an_shard A k' = Some a \<Longrightarrow> k = k'"
    "an_shard A (sid, i) \<noteq> None \<longleftrightarrow> i * 200 < length (h sid)"
    "an_shard A (sid, i) = Some a \<Longrightarrow> \<exists>s. W a = Some s \<and> chunk_ok R (h sid) (J `` {a}) (pruned_cursor A sid) i s"
    "J = {} \<Longrightarrow> pruned_cursor A sid \<le> length (h sid) + 1"
  using assms unfolding stream_inv_def by blast+

lemma recent_snoc:
  assumes "0 < n"
  shows "recent n (xs @ [x]) = (if n \<le> length (recent n xs) then tl (recent n xs) else recent n xs) @ [x]"
proof (cases "n \<le> length xs")
  case True
  then have "drop (Suc (length xs) - n) xs = tl (drop (length xs - n) xs)"
    by (metis Suc_diff_le drop_Suc tl_drop)
  with True \<open>0 < n\<close> show ?thesis by (simp add: recent_def)
next
  case False
  then show ?thesis by (simp add: recent_def)
qed

text \<open>The chunk that owns a batch id.\<close>

lemma chunk_index: "1 \<le> k \<Longrightarrow> (k - 1) div 200 * 200 + 1 \<le> k \<and> k < (k - 1) div 200 * 200 + (201 :: nat)"
  using div_mult_mod_eq [of "k - 1" 200] mod_less_divisor [of 200 "k - 1"] by linarith

lemma chunk_end_mono: "m \<le> n \<Longrightarrow> chunk_end m \<le> chunk_end n"
  unfolding chunk_end_def by (intro add_mono mult_le_mono1 div_le_mono) simp_all

lemma chunk_end_chunk: "1 \<le> k \<Longrightarrow> k \<le> n \<Longrightarrow> (k - 1) div 200 * 200 + 201 \<le> chunk_end n"
proof -
  assume "1 \<le> k" "k \<le> n"
  then have "((k - 1) + 200) div 200 \<le> (n + 199) div 200" by (intro div_le_mono) simp
  then have "((k - 1) div 200 + 1) * 200 \<le> (n + 199) div 200 * 200"
    by (intro mult_le_mono1) simp
  then show ?thesis by (simp add: chunk_end_def)
qed

lemma chunk_end_full [simp]: "chunk_end (i * 200) = i * 200 + 1"
  by (simp add: chunk_end_def)

text \<open>The cursor of the storage shard that owns an id.\<close>

definition shard_cursor :: "anchor \<Rightarrow> shards \<Rightarrow> u64 \<Rightarrow> u64 \<Rightarrow> u64" where
  "shard_cursor A W sid k = (case an_shard A (sid, (k - 1) div SHARD_CAPACITY) of
     None \<Rightarrow> 0
   | Some a \<Rightarrow> (case W a of None \<Rightarrow> 0 | Some s \<Rightarrow> unwrap_or (sh_pruned_up_to s) 0))"

lemma stream_chunk:
  assumes inv: "stream_inv R A W h J" and k: "1 \<le> k" "k \<le> length (h sid)"
  obtains a s where "shard_for_batch A sid k = Ok a" "an_shard A (sid, (k - 1) div 200) = Some a"
    "W a = Some s" "chunk_ok R (h sid) (J `` {a}) (pruned_cursor A sid) ((k - 1) div 200) s"
proof -
  have "(k - 1) div 200 * 200 < length (h sid)" using k chunk_index [of k] by simp
  with stream_invD(5) [OF inv] obtain a where a: "an_shard A (sid, (k - 1) div 200) = Some a"
    by blast
  with stream_invD(6) [OF inv a] k that show thesis
    by (auto simp: shard_for_batch_def SHARD_CAPACITY_def Let_def)
qed

lemma shard_for_batch_absent:
  assumes "stream_inv R A W h J" and "k = 0 \<or> length (h sid) < (k - 1) div 200 * 200 + 1"
  shows "shard_for_batch A sid k = Err BatchNotFound"
  using assms(2) stream_invD(5) [OF assms(1), of sid "(k - 1) div 200"]
  by (auto simp: shard_for_batch_def SHARD_CAPACITY_def Let_def)

text \<open>
  What the router reads back: the anchored record from its shard's cursor on; any other record was
  injected under its id; and nothing but a record or \<open>BatchNotFound\<close>.
\<close>

lemma get_batch_stream:
  assumes inv: "stream_inv R A W h J"
  shows "1 \<le> k \<Longrightarrow> k \<le> length (h sid) \<Longrightarrow> shard_cursor A W sid k \<le> k \<Longrightarrow>
      get_batch A W sid k = Ok (h sid ! (k - 1))"
    and "get_batch A W sid k = Ok r \<Longrightarrow> 1 \<le> k \<and> k \<le> length (h sid) \<and> r = h sid ! (k - 1) \<or>
      (\<exists>a. get_shard_address A sid ((k - 1) div 200) = Ok a \<and> (a, k, r) \<in> J)"
    and "get_batch A W sid k = Err BatchNotFound \<or> (\<exists>r. get_batch A W sid k = Ok r)"
    and "J = {} \<Longrightarrow> k < shard_cursor A W sid k \<Longrightarrow> get_batch A W sid k = Err BatchNotFound"
proof -
  let ?i = "(k - 1) div 200"
  show "get_batch A W sid k = Err BatchNotFound \<or> (\<exists>r. get_batch A W sid k = Ok r)"
  proof (cases "shard_for_batch A sid k")
    case (Ok a)
    then have "an_shard A (sid, ?i) = Some a"
      by (auto simp: shard_for_batch_def SHARD_CAPACITY_def Let_def ok_iff split: if_splits)
    with stream_invD(6) [OF inv this] Ok show ?thesis
      by (auto simp: get_batch_def shard_get_batch_def unwrap_shard_result_def ok_or_def
          split: option.splits)
  qed (auto simp: get_batch_def shard_for_batch_def Let_def ok_or_def split: if_splits option.splits)
  have own: "get_batch A W sid k = ok_or (sh_batch s k) BatchNotFound \<and> shard_cursor A W sid k = c \<and>
      holds_log (sh_batch s) (?i * 200 + 1) (?i * 200 + 201) (h sid) (J `` {a}) c"
    if "1 \<le> k" "an_shard A (sid, ?i) = Some a" "W a = Some s" "sh_pruned_up_to s = Some c" for a s c
    using that stream_invD(6) [OF inv that(2)]
    by (auto simp: get_batch_def shard_for_batch_def SHARD_CAPACITY_def Let_def shard_get_batch_def
        shard_cursor_def chunk_ok_def unwrap_shard_result_def ok_or_def split: option.splits)
  have shard: "\<exists>s c. W a = Some s \<and> sh_pruned_up_to s = Some c" if "an_shard A (sid, ?i) = Some a" for a
    using stream_invD(6) [OF inv that] by (auto simp: chunk_ok_def)
  show "get_batch A W sid k = Ok (h sid ! (k - 1))"
    if k: "1 \<le> k" "k \<le> length (h sid)" "shard_cursor A W sid k \<le> k"
  proof -
    obtain a where a: "an_shard A (sid, ?i) = Some a" by (rule stream_chunk [OF inv k(1,2)])
    with shard obtain s c where "W a = Some s" "sh_pruned_up_to s = Some c" by blast
    from own [OF k(1) a this] k chunk_index [OF k(1)] show ?thesis by (simp add: holds_log_def)
  qed
  show "1 \<le> k \<and> k \<le> length (h sid) \<and> r = h sid ! (k - 1) \<or>
      (\<exists>a. get_shard_address A sid ((k - 1) div 200) = Ok a \<and> (a, k, r) \<in> J)"
    if r: "get_batch A W sid k = Ok r"
  proof -
    have k: "1 \<le> k" using r by (cases k) (auto simp: get_batch_def shard_for_batch_def)
    from r obtain a where a: "an_shard A (sid, ?i) = Some a"
      by (auto simp: get_batch_def shard_for_batch_def SHARD_CAPACITY_def Let_def ok_iff split: if_splits)
    with shard obtain s c where "W a = Some s" "sh_pruned_up_to s = Some c" by blast
    note o = own [OF k a this]
    with r have "sh_batch s k = Some r" by (cases "sh_batch s k") auto
    with o k have "1 \<le> k \<and> k \<le> length (h sid) \<and> r = h sid ! (k - 1) \<or> (a, k, r) \<in> J"
      unfolding holds_log_def by blast
    with a show ?thesis by (auto simp: get_shard_address_def)
  qed
  show "get_batch A W sid k = Err BatchNotFound" if J: "J = {}" "k < shard_cursor A W sid k"
  proof (cases "k = 0")
    case False
    from J(2) obtain a where a: "an_shard A (sid, ?i) = Some a"
      by (auto simp: shard_cursor_def SHARD_CAPACITY_def split: option.splits)
    with shard obtain s c where "W a = Some s" "sh_pruned_up_to s = Some c" by blast
    from own [OF _ a this] False J show ?thesis by (simp add: holds_log_def)
  qed (simp add: get_batch_def shard_for_batch_def)
qed

section \<open>Anchoring extends the stream\<close>

lemma get_or_create_shard_Ok:
  assumes inv: "stream_inv R A W h J" and R: "current_contract_address E = R"
    and ok: "get_or_create_shard D E A W sid (length (h sid) div 200) = Ok (a, A1, W1)"
  shows "\<exists>s ev. W1 = W(a \<mapsto> s) \<and> an_shard A1 = (an_shard A)((sid, length (h sid) div 200) \<mapsto> a) \<and>
    A1 = A\<lparr>an_shard := an_shard A1, an_events := ev\<rparr> \<and>
    (\<forall>key. key \<noteq> (sid, length (h sid) div 200) \<longrightarrow> an_shard A key \<noteq> Some a) \<and>
    chunk_ok R (h sid) (J `` {a}) (pruned_cursor A sid) (length (h sid) div 200) s"
proof (cases "an_shard A (sid, length (h sid) div 200)")
  case (Some b)
  with ok have b: "b = a" "A1 = A" "W1 = W" by (auto simp: get_or_create_shard_def)
  from stream_invD(6) [OF inv Some] obtain s where
    "W b = Some s" "chunk_ok R (h sid) (J `` {b}) (pruned_cursor A sid) (length (h sid) div 200) s" by blast
  moreover have "an_shard A key \<noteq> Some a" if "key \<noteq> (sid, length (h sid) div 200)" for key
    using stream_invD(4) [OF inv Some] that b(1) by blast
  ultimately show ?thesis using Some b by (intro exI [of _ s] exI [of _ "an_events A"]) auto
next
  case None
  let ?i = "length (h sid) div 200"
  from None ok have *: "W a = None" "W1 = W(a \<mapsto> shard_constructor R (?i * 200 + 1) (?i * 200 + 201))"
      "A1 = anchor_publish (ShardCreatedEvent sid ?i a (?i * 200 + 1) (?i * 200 + 201))
        (A\<lparr>an_shard := (an_shard A)((sid, ?i) \<mapsto> a)\<rparr>)"
    by (auto simp: get_or_create_shard_def R SHARD_CAPACITY_def Let_def ok_iff add.commute
        split: if_splits)
  have len: "length (h sid) = ?i * 200"
    using None stream_invD(5) [OF inv, of sid ?i] by auto
  have "pruned_cursor A sid \<le> ?i * 200 + 1"
    using stream_invD(3) [OF inv, of sid] len by (metis chunk_end_full)
  then have "chunk_ok R (h sid) (J `` {a}) (pruned_cursor A sid) ?i
      (shard_constructor R (?i * 200 + 1) (?i * 200 + 201))"
    using len
    by (auto simp: chunk_ok_def holds_log_def shard_constructor_inv)
      (auto simp: shard_constructor_def)
  moreover have "an_shard A key \<noteq> Some a" for key
    using stream_invD(6) [OF inv, of "fst key" "snd key" a] *(1) by auto
  ultimately show ?thesis using * by (intro exI) (auto simp: anchor_publish_def)
qed

lemma chunk_ok_snoc:
  assumes c: "chunk_ok R h J rc i s" and len: "i * 200 + 200 \<le> length h"
  shows "chunk_ok R (h @ [r]) J rc i s"
proof -
  have same: "(h @ [r]) ! (k - 1) = h ! (k - 1)" if "1 \<le> k" "k \<le> length h" for k
    using that by (simp add: nth_append)
  have "holds_log m (i * 200 + 1) (i * 200 + 201) (h @ [r]) J c"
    if log: "holds_log m (i * 200 + 1) (i * 200 + 201) h J c" for m c
  proof -
    have "m k = Some ((h @ [r]) ! (k - 1))" if "c \<le> k" "k < i * 200 + 201" for k
      using that log len same [of k] by (simp add: holds_log_def)
    moreover have "i * 200 + 1 \<le> k \<and> k \<le> length (h @ [r]) \<and> x = (h @ [r]) ! (k - 1) \<or> (k, x) \<in> J"
      if x: "m k = Some x" for k x
    proof -
      have "i * 200 + 1 \<le> k \<and> k \<le> length h \<and> x = h ! (k - 1) \<or> (k, x) \<in> J"
        using log x unfolding holds_log_def by blast
      with same [of k] show ?thesis by auto
    qed
    moreover have "c \<le> length (h @ [r]) + 1 \<and> (\<forall>k < c. m k = None)" if "J = {}"
      using that log by (simp add: holds_log_def)
    ultimately show ?thesis using log unfolding holds_log_def by blast
  qed
  with c show ?thesis unfolding chunk_ok_def by blast
qed

lemma chunk_ok_anchor:
  assumes c: "chunk_ok R h J rc i s" and i: "i * 200 \<le> length h"
    and ok: "shard_anchor_batch E s (length h + 1) root n ps pe = Ok s'"
  shows "chunk_ok R (h @ [\<lparr>br_root = root, br_count = n, br_period_start = ps,
      br_period_end = pe, br_anchored_ledger = sequence E\<rparr>]) J rc i s'"
proof -
  from c obtain c where c: "shard_inv s" "sh_router s = Some R" "sh_active s = Some True"
    "sh_start_batch_id s = Some (i * 200 + 1)" "sh_end_batch_id s = Some (i * 200 + 201)"
    "sh_pruned_up_to s = Some c" "min rc (i * 200 + 201) \<le> c"
    "holds_log (sh_batch s) (i * 200 + 1) (i * 200 + 201) h J c"
    by (auto simp: chunk_ok_def)
  have "i * 200 + 1 \<le> length h + 1" using i by simp
  note log = shard_store.store_log [OF ok c(8) this]
  with c shard_anchor_batch_inv [OF c(1) ok] shard_store.store_law [OF ok] show ?thesis
    by (auto simp: chunk_ok_def same_config_def)
qed

lemmas anchor_frame = register_shard_id_def rate_limit_consume_def push_shard_root_def
  anchor_publish_def

lemma anchor_batch_internal_Ok:
  assumes "anchor_batch_internal D E A W sid root n ps pe = Ok (k, A', W')"
  obtains merchant a A1 W1 s s' where "n \<le> MAX_BATCH_SIZE" "an_admin A = Some merchant"
    "authorized E merchant" "k = batch_count_of A sid + 1"
    "get_or_create_shard D E A W sid (batch_count_of A sid div 200) = Ok (a, A1, W1)"
    "W1 a = Some s" "shard_anchor_batch (callee_env E a) s k root n ps pe = Ok s'"
    "W' = W1(a \<mapsto> s')"
    "an_shard A' = an_shard A1" "an_shard_pruned_up_to A' = an_shard_pruned_up_to A1"
    "an_shard_batch_count A' = (an_shard_batch_count A1)(sid \<mapsto> k)"
    "get_shard_ids A' = (if sid \<in> set (get_shard_ids A1) then get_shard_ids A1
       else get_shard_ids A1 @ [sid])"
    "get_root_buffer A' = (get_root_buffer A1)(sid :=
       (if length (get_root_buffer A1 sid) \<ge> 100 then tl (get_root_buffer A1 sid)
        else get_root_buffer A1 sid) @ [root])"
    "in_u64 k" "check_no_duplicate_root A W sid (batch_count_of A sid) root = Ok ()"
    "an_admin A' = an_admin A1" "an_rate_limit_config A' = an_rate_limit_config A1"
    "an_events A' = an_events A1 @ [AnchorPayload k (timestamp E) sid root n ps pe (sequence E)]"
    "rate_limit_active (get_anchor_rate_limit A) \<Longrightarrow>
       rate_limit_admitted E A merchant (get_anchor_rate_limit A) = Ok ()"
    "rate_limit_active (get_anchor_rate_limit A) \<Longrightarrow> an_rate_limit_bucket A' =
       an_rate_limit_bucket (rate_limit_consume E A1 merchant (get_anchor_rate_limit A))"
proof -
  have n: "n \<le> MAX_BATCH_SIZE" using assms by (rule contrapos_pp) (simp add: anchor_batch_internal_def)
  with assms obtain merchant a A1 W1 where 1: "an_admin A = Some merchant"
      "authorized E merchant" "in_u64 (Suc (batch_count_of A sid))"
      "check_no_duplicate_root A W sid (batch_count_of A sid) root = Ok ()"
      "get_or_create_shard D E A W sid (batch_count_of A sid div 200) = Ok (a, A1, W1)"
      "(if rate_limit_active (get_anchor_rate_limit A)
        then rate_limit_admitted E A merchant (get_anchor_rate_limit A) else Ok ()) = Ok ()"
    and tail: "(case W1 a of None \<Rightarrow> Trap | Some s \<Rightarrow>
      (case shard_anchor_batch (callee_env E a) s (Suc (batch_count_of A sid)) root n ps pe of
         Ok s' \<Rightarrow> Ok (Suc (batch_count_of A sid),
             anchor_publish (AnchorPayload (Suc (batch_count_of A sid)) (timestamp E) sid root n
               ps pe (sequence E))
               (anchor_commit E A1 merchant (get_anchor_rate_limit A) sid (Suc (batch_count_of A sid)) root),
             W1(a \<mapsto> s'))
       | _ \<Rightarrow> Trap)) = (Ok (k, A', W') :: (u64 \<times> anchor \<times> shards) outcome)"
    by (auto simp: anchor_batch_internal_def ok_iff Let_def SHARD_CAPACITY_def)
  from tail obtain s s' where 2: "W1 a = Some s" "k = batch_count_of A sid + 1"
      "shard_anchor_batch (callee_env E a) s k root n ps pe = Ok s'" "W' = W1(a \<mapsto> s')"
    and A': "A' = anchor_publish (AnchorPayload k (timestamp E) sid root n ps pe (sequence E))
      (anchor_commit E A1 merchant (get_anchor_rate_limit A) sid k root)"
    by (auto split: option.splits result.splits)
  show thesis
    by (rule that [OF n 1(1,2) 2(2) 1(5) 2(1,3,4)])
      (use 1(6) in \<open>simp_all add: A' 1(1-5) 2 anchor_commit_def Let_def anchor_frame get_shard_ids_def
        get_root_buffer_def ROOT_BUFFER_SIZE_def bucket_of_def fun_eq_iff\<close>)
qed

definition anchored :: "env \<Rightarrow> bytes \<Rightarrow> u32 \<Rightarrow> u64 \<Rightarrow> u64 \<Rightarrow> batch_record" where
  "anchored E root n ps pe = \<lparr>br_root = root, br_count = n, br_period_start = ps,
     br_period_end = pe, br_anchored_ledger = sequence E\<rparr>"

lemma anchored_simps [simp]: "br_root (anchored E root n ps pe) = root"
  "br_count (anchored E root n ps pe) = n"
  by (simp_all add: anchored_def)

lemma anchor_batch_stream:
  assumes inv: "stream_inv R A W h J" and R: "current_contract_address E = R"
    and ok: "anchor_batch_internal D E A W sid root n ps pe = Ok (k, A', W')"
  shows "k = length (h sid) + 1"
    "stream_inv R A' W' (h(sid := h sid @ [anchored E root n ps pe])) J"
proof -
  let ?i = "length (h sid) div 200" let ?r = "anchored E root n ps pe"
  let ?h = "h(sid := h sid @ [?r])"
  note len = stream_invD(1) [OF inv]
  from ok obtain a A1 W1 s s' where k: "k = length (h sid) + 1"
    and g: "get_or_create_shard D E A W sid ?i = Ok (a, A1, W1)"
    and s: "W1 a = Some s" "shard_anchor_batch (callee_env E a) s k root n ps pe = Ok s'"
    and W': "W' = W1(a \<mapsto> s')"
    and A': "an_shard A' = an_shard A1" "an_shard_pruned_up_to A' = an_shard_pruned_up_to A1"
      "an_shard_batch_count A' = (an_shard_batch_count A1)(sid \<mapsto> k)"
    by (rule anchor_batch_internal_Ok) (auto simp: len)
  from get_or_create_shard_Ok [OF inv R g] obtain ev s0 where
    W1: "W1 = W(a \<mapsto> s0)" and sh: "an_shard A1 = (an_shard A)((sid, ?i) \<mapsto> a)"
    and A1: "A1 = A\<lparr>an_shard := an_shard A1, an_events := ev\<rparr>"
    and free: "\<And>key. key \<noteq> (sid, ?i) \<Longrightarrow> an_shard A key \<noteq> Some a"
    and chunk0: "chunk_ok R (h sid) (J `` {a}) (pruned_cursor A sid) ?i s0"
    by blast
  have s0: "s0 = s" using s(1) W1 by simp
  note W1 = W1 [unfolded s0] and chunk = chunk0 [unfolded s0]
  have same: "an_shard_pruned_up_to A1 = an_shard_pruned_up_to A"
    "an_shard_batch_count A1 = an_shard_batch_count A" by (subst A1, simp)+
  have pc: "pruned_cursor A' x = pruned_cursor A x" for x
    by (simp add: pruned_cursor_def A' same)
  have chunk': "chunk_ok R (h sid @ [?r]) (J `` {a}) (pruned_cursor A sid) ?i s'"
    using chunk_ok_anchor [OF chunk _ s(2) [unfolded k]] by (simp add: anchored_def)
  show "k = length (h sid) + 1" by (rule k)
  show "stream_inv R A' W' ?h J"
    unfolding stream_inv_def pc
  proof (intro conjI allI impI)
    fix x i b assume *: "an_shard A' (x, i) = Some b"
    show "\<exists>s. W' b = Some s \<and> chunk_ok R (?h x) (J `` {b}) (pruned_cursor A x) i s"
    proof (cases "(x, i) = (sid, ?i)")
      case True
      with * sh A' have "b = a" by simp
      with True chunk' show ?thesis by (simp add: W')
    next
      case False
      with * sh A' have b: "an_shard A (x, i) = Some b" by auto
      with free False have "b \<noteq> a" by auto
      from stream_invD(6) [OF inv b] obtain t where
        t: "W b = Some t" "chunk_ok R (h x) (J `` {b}) (pruned_cursor A x) i t" by blast
      have "i * 200 + 200 \<le> length (h x)" if "x = sid"
      proof -
        have "i < ?i" using False that b stream_invD(5) [OF inv, of x i]
          by (cases "i < ?i") (auto simp: not_less)
        then have "(i + 1) * 200 \<le> ?i * 200" by (intro mult_le_mono1) simp
        also have "\<dots> \<le> length (h sid)" by (rule div_times_less_eq_dividend)
        finally show ?thesis using that by simp
      qed
      with t chunk_ok_snoc [OF t(2)] \<open>b \<noteq> a\<close> show ?thesis by (auto simp: W' W1)
    qed
  next
    fix x i
    have "i * 200 < length (h sid) + 1 \<longleftrightarrow> i * 200 < length (h sid) \<or> i = ?i" 
      by (metis Suc_eq_plus1 div_times_less_eq_dividend less_Suc_eq nonzero_mult_div_cancel_right zero_neq_numeral le_neq_implies_less)
    then show "(an_shard A' (x, i) \<noteq> None) = (i * 200 < length (?h x))"
      using stream_invD(5) [OF inv, of x i] by (auto simp: A' sh)
  next
    fix key key' b assume "an_shard A' key = Some b" "an_shard A' key' = Some b"
    then show "key = key'"
      using stream_invD(4) [OF inv] free by (auto simp: A' sh split: if_splits)
  next
    fix x
    have "chunk_end (length (h x)) \<le> chunk_end (length (?h x))" by (intro chunk_end_mono) simp
    with stream_invD(3) [OF inv, of x] show "pruned_cursor A x \<le> chunk_end (length (?h x))" by simp
    show "pruned_cursor A x \<le> length (?h x) + 1" if "J = {}"
      using stream_invD(7) [OF inv that, of x] by (cases "x = sid") auto
  qed (use stream_invD(1,2) [OF inv] in \<open>auto simp: batch_count_of_def A' same k\<close>)
qed

lemma get_or_create_shard_index:
  assumes "get_or_create_shard D E A W sid i = Ok (a, A1, W1)"
  shows "get_root_buffer A1 = get_root_buffer A" "get_shard_ids A1 = get_shard_ids A"
    "an_admin A1 = an_admin A" "an_rate_limit_config A1 = an_rate_limit_config A"
    "an_rate_limit_bucket A1 = an_rate_limit_bucket A"
  using assms by (auto simp: get_or_create_shard_def Let_def ok_iff anchor_publish_def
      get_root_buffer_def get_shard_ids_def fun_eq_iff split: option.splits if_splits)

lemma anchor_batch_index:
  assumes inv: "index_inv A h"
    and ok: "anchor_batch_internal D E A W sid root n ps pe = Ok (k, A', W')"
  shows "index_inv A' (h(sid := h sid @ [anchored E root n ps pe]))"
proof -
  from ok obtain a A1 W1 where "n \<le> MAX_BATCH_SIZE"
    and g: "get_or_create_shard D E A W sid (batch_count_of A sid div 200) = Ok (a, A1, W1)"
    and "get_shard_ids A' = (if sid \<in> set (get_shard_ids A1) then get_shard_ids A1
       else get_shard_ids A1 @ [sid])"
    "get_root_buffer A' = (get_root_buffer A1)(sid :=
       (if length (get_root_buffer A1 sid) \<ge> 100 then tl (get_root_buffer A1 sid)
        else get_root_buffer A1 sid) @ [root])"
    by (rule anchor_batch_internal_Ok)
  with inv show ?thesis
    unfolding index_inv_def get_or_create_shard_index [OF g]
    by (auto simp: recent_snoc recent_def [of _ "[]"] recent_def [of _ "[root]"])
qed

section \<open>Pruning removes a bounded prefix and terminates\<close>

lemma unwrap_shard_result_ok_or [simp]: "unwrap_shard_result (ok_or m e) = ok_or m e"
  by (cases m) (simp_all add: unwrap_shard_result_def)

lemma unwrap_shard_result_Ok_iff [ok_iff]: "unwrap_shard_result m = Ok v \<longleftrightarrow> m = Ok v"
  by (cases m) (simp_all add: unwrap_shard_result_def)

lemma shard_cursor_upd:
  assumes inv: "stream_inv R A W h J" and a: "an_shard A (sid, i) = Some a"
  shows "shard_cursor A (W(a \<mapsto> s')) x k =
    (if x = sid \<and> (k - 1) div 200 = i then unwrap_or (sh_pruned_up_to s') 0 else shard_cursor A W x k)"
proof -
  have "b \<noteq> a" if "an_shard A (x, (k - 1) div 200) = Some b" "\<not> (x = sid \<and> (k - 1) div 200 = i)" for b
    using stream_invD(4) [OF inv a, of "(x, (k - 1) div 200)"] that by auto
  with a show ?thesis
    by (cases "an_shard A (x, (k - 1) div 200)") (auto simp: shard_cursor_def SHARD_CAPACITY_def)
qed

lemma get_batch_upd:
  assumes inv: "stream_inv R A W h J" and a: "an_shard A (sid, i) = Some a"
  shows "get_batch A (W(a \<mapsto> s')) x k =
    (if x = sid \<and> 1 \<le> k \<and> (k - 1) div 200 = i then shard_get_batch s' k else get_batch A W x k)"
proof -
  have "b \<noteq> a" if "an_shard A (x, (k - 1) div 200) = Some b" "\<not> (x = sid \<and> (k - 1) div 200 = i)" for b
    using stream_invD(4) [OF inv a, of "(x, (k - 1) div 200)"] that by auto
  with a show ?thesis
    by (cases "an_shard A (x, (k - 1) div 200)")
      (auto simp: get_batch_def shard_for_batch_def SHARD_CAPACITY_def Let_def shard_get_batch_def)
qed

definition at_cursor :: "anchor \<Rightarrow> u64 \<Rightarrow> u64 \<Rightarrow> anchor" where
  "at_cursor A sid c = A\<lparr>an_shard_pruned_up_to := (an_shard_pruned_up_to A)(sid \<mapsto> c)\<rparr>"

lemma at_cursor_simps [simp]:
  "an_shard (at_cursor A sid c) = an_shard A"
  "shard_for_batch (at_cursor A sid c) = shard_for_batch A"
  "get_batch (at_cursor A sid c) = get_batch A"
  "pruned_cursor (at_cursor A sid c) x = (if x = sid then c else pruned_cursor A x)"
  "batch_count_of (at_cursor A sid c) = batch_count_of A"
  "shard_cursor (at_cursor A sid c) = shard_cursor A"
  by (simp_all add: at_cursor_def shard_for_batch_def get_batch_def pruned_cursor_def
      batch_count_of_def shard_cursor_def fun_eq_iff)

text \<open>Moving the cursor within the chunk it points into touches no other chunk's promise.\<close>

lemma stream_inv_advance:
  assumes inv: "stream_inv R (at_cursor A sid c) W h J" and a: "an_shard A (sid, (c - 1) div 200) = Some a"
    and chunk: "chunk_ok R (h sid) (J `` {a}) c' ((c - 1) div 200) s'" and c1: "1 \<le> c"
    and c': "1 \<le> c'" "c' \<le> chunk_end (length (h sid))" "c' \<le> (c - 1) div 200 * 200 + 201"
      "J = {} \<Longrightarrow> c' \<le> length (h sid) + 1"
  shows "stream_inv R (at_cursor A sid c') (W(a \<mapsto> s')) h J"
  unfolding stream_inv_def
proof (intro conjI allI impI)
  let ?i = "(c - 1) div 200"
  fix x i b assume "an_shard (at_cursor A sid c') (x, i) = Some b"
  then have b: "an_shard (at_cursor A sid c) (x, i) = Some b" by simp
  from stream_invD(6) [OF inv b] obtain t where t: "W b = Some t"
    "chunk_ok R (h x) (J `` {b}) (pruned_cursor (at_cursor A sid c) x) i t" by blast
  show "\<exists>s. (W(a \<mapsto> s')) b = Some s \<and> chunk_ok R (h x) (J `` {b}) (pruned_cursor (at_cursor A sid c') x) i s"
  proof (cases "(x, i) = (sid, ?i)")
    case True
    then have "b = a" using a b by simp
    with True chunk show ?thesis by simp
  next
    case False
    then have "b \<noteq> a" using stream_invD(4) [OF inv b, of "(sid, ?i)"] a by auto
    moreover have "chunk_ok R (h x) (J `` {b}) (pruned_cursor (at_cursor A sid c') x) i t"
    proof (cases "x = sid")
      case True
      with False have "i < ?i \<or> ?i < i" by auto
      then have "i * 200 + 201 \<le> ?i * 200 + 1 \<or> ?i * 200 + 201 \<le> i * 200 + 1" by auto
      with t(2) True chunk_index [OF c1] c'(3) show ?thesis
        by (auto simp: chunk_ok_def holds_log_def)
    qed (use t in simp)
    ultimately show ?thesis using t(1) by simp
  qed
next
  fix x
  show "batch_count_of (at_cursor A sid c') x = length (h x)"
    using stream_invD(1) [OF inv, of x] by simp
  show "1 \<le> pruned_cursor (at_cursor A sid c') x" "pruned_cursor (at_cursor A sid c') x \<le> chunk_end (length (h x))"
    using stream_invD(2,3) [OF inv, of x] c' by (auto split: if_splits)
  show "pruned_cursor (at_cursor A sid c') x \<le> length (h x) + 1" if "J = {}"
    using stream_invD(7) [OF inv that, of x] c'(4) [OF that] by (auto split: if_splits)
  show "an_shard (at_cursor A sid c') k = Some b \<Longrightarrow> an_shard (at_cursor A sid c') k' = Some b \<Longrightarrow> k = k'"
    for k k' b using stream_invD(4) [OF inv] by simp
  show "(an_shard (at_cursor A sid c') (x, i) \<noteq> None) = (i * 200 < length (h x))" for i
    using stream_invD(5) [OF inv] by simp
qed

text \<open>
  What pruning a stream from cursor \<open>c\<close> to \<open>c'\<close> means to a reader: the ids in between that their
  storage shard had not already passed are gone, everything else reads as before, and only records
  older than the bound were given up. From \<open>c'\<close> on no storage shard passes another id.
\<close>

definition prune_effect ::
  "anchor \<Rightarrow> u64 \<Rightarrow> u32 \<Rightarrow> u64 \<Rightarrow> shards \<Rightarrow> u64 \<Rightarrow> shards \<Rightarrow> bool" where
  "prune_effect A sid before c W c' W' \<longleftrightarrow> c \<le> c' \<and>
     (\<forall>x k. get_batch A W' x k =
        (if x = sid \<and> c \<le> k \<and> k < c' \<and> shard_cursor A W sid k \<le> k then Err BatchNotFound
         else get_batch A W x k)) \<and>
     (\<forall>k r. c \<le> k \<and> k < c' \<and> shard_cursor A W sid k \<le> k \<and> get_batch A W sid k = Ok r \<longrightarrow>
        br_anchored_ledger r < before) \<and>
     (\<forall>k. c' \<le> k \<longrightarrow> (shard_cursor A W' sid k \<le> k \<longleftrightarrow> shard_cursor A W sid k \<le> k))"

definition readable :: "anchor \<Rightarrow> shards \<Rightarrow> u64 \<Rightarrow> u64 \<Rightarrow> u64 \<Rightarrow> u64 set" where
  "readable A W sid c c' =
     {k \<in> {c..<c'}. shard_cursor A W sid k \<le> k \<and> get_batch A W sid k \<noteq> Err BatchNotFound}"

lemma prune_effectD:
  assumes "prune_effect A sid before c W c' W'"
  shows "c \<le> c'" "c' \<le> k \<Longrightarrow> get_batch A W' sid k = get_batch A W sid k"
    "c' \<le> k \<Longrightarrow> shard_cursor A W' sid k \<le> k \<longleftrightarrow> shard_cursor A W sid k \<le> k"
    "c \<le> k \<Longrightarrow> k < c' \<Longrightarrow> shard_cursor A W sid k \<le> k \<Longrightarrow> get_batch A W sid k = Ok r \<Longrightarrow>
       br_anchored_ledger r < before"
  using assms by (simp_all add: prune_effect_def)

lemma prune_effect_refl: "prune_effect A sid before c W c W"
  by (auto simp: prune_effect_def)

lemma prune_effect_trans:
  assumes "prune_effect A sid before c W c1 W1" "prune_effect A sid before c1 W1 c2 W2"
  shows "prune_effect A sid before c W c2 W2"
proof -
  note 1 = prune_effectD [OF assms(1)] and 2 = prune_effectD [OF assms(2)]
  have "br_anchored_ledger r < before"
    if "c \<le> k" "k < c2" "shard_cursor A W sid k \<le> k" "get_batch A W sid k = Ok r" for k r
  proof (cases "k < c1")
    case False
    then show ?thesis using that 1(2) [of k] 1(3) [of k] 2(4) [of k r] by simp
  qed (use 1(4) that in blast)
  moreover have "get_batch A W2 x k =
     (if x = sid \<and> c \<le> k \<and> k < c2 \<and> shard_cursor A W sid k \<le> k then Err BatchNotFound
      else get_batch A W x k)" for x k
    using assms 1(1) 1(3) [of k] 2(1) by (cases "k < c1") (auto simp: prune_effect_def)
  moreover have "shard_cursor A W2 sid k \<le> k \<longleftrightarrow> shard_cursor A W sid k \<le> k" if "c2 \<le> k" for k
    using 1(3) [of k] 2(1) 2(3) [OF that] that by simp
  moreover have "c \<le> c2" using 1(1) 2(1) by simp
  ultimately show ?thesis unfolding prune_effect_def by blast
qed

lemma readable_trans:
  assumes "prune_effect A sid before c W c1 W1" "prune_effect A sid before c1 W1 c2 W2"
  shows "card (readable A W sid c c2) \<le> card (readable A W sid c c1) + card (readable A W1 sid c1 c2)"
proof -
  have "readable A W sid c c2 \<subseteq> readable A W sid c c1 \<union> readable A W1 sid c1 c2"
  proof
    fix k assume "k \<in> readable A W sid c c2"
    with prune_effectD(2,3) [OF assms(1), of k]
    show "k \<in> readable A W sid c c1 \<union> readable A W1 sid c1 c2"
      by (cases "k < c1") (simp_all add: readable_def)
  qed
  then have "card (readable A W sid c c2) \<le> card (readable A W sid c c1 \<union> readable A W1 sid c1 c2)"
    by (intro card_mono) (auto simp: readable_def)
  then show ?thesis by (rule le_trans) (rule card_Un_le)
qed

lemma readable_same [simp]: "readable A W sid c c = {}"
  by (simp add: readable_def)

text \<open>One call to a storage shard's \<open>prune_batches\<close>, as the router's loop makes it.\<close>

lemma shard_prune_step:
  assumes inv: "stream_inv R (at_cursor A sid c) W h J" and R: "current_contract_address E = R"
    and c: "1 \<le> c" "c \<le> length (h sid)"
  obtains a s c' n s' where "shard_for_batch A sid c = Ok a" "W a = Some s"
    "shard_prune_batches (callee_env E a) s before m (length (h sid) + 1) = Ok ((c', n), s')"
    "stream_inv R (at_cursor A sid c') (W(a \<mapsto> s')) h J" "c \<le> c'"
    "n \<le> m" "card (readable A W sid c c') \<le> n" "n \<le> c' - c" "prune_effect A sid before c W c' (W(a \<mapsto> s'))"
    "c' = c \<Longrightarrow> 0 < m \<Longrightarrow> \<exists>r. get_batch A W sid c = Ok r \<and> before \<le> br_anchored_ledger r"
proof -
  let ?i = "(c - 1) div 200"
  obtain a s where a: "shard_for_batch A sid c = Ok a" "an_shard A (sid, ?i) = Some a" "W a = Some s"
    and chunk: "chunk_ok R (h sid) (J `` {a}) c ?i s"
    using stream_chunk [OF inv, of c sid] c by auto
  note ci = chunk_index [OF c(1)]
  from chunk obtain cs where s: "shard_inv s" "sh_router s = Some R" "sh_active s = Some True"
    "sh_start_batch_id s = Some (?i * 200 + 1)" "sh_end_batch_id s = Some (?i * 200 + 201)"
    "sh_pruned_up_to s = Some cs" "min c (?i * 200 + 201) \<le> cs"
    and log: "holds_log (sh_batch s) (?i * 200 + 1) (?i * 200 + 201) (h sid) (J `` {a}) cs"
    by (auto simp: chunk_ok_def)
  have cs: "c \<le> cs" using s(7) ci by simp
  obtain c' n s' where ok: "shard_prune_batches (callee_env E a) s before m (length (h sid) + 1)
      = Ok ((c', n), s')"
    using s R by (simp add: shard_prune_batches_def shard_is_active_def require_auth_def Let_def)
  note p = shard_store.prune_log [OF ok log s(5,6) order.refl]
  from ok obtain e where eff: "same_config s s'" "shard_inv s'"
      "\<And>k. sh_batch s' k = (if cs \<le> k \<and> k < c' then None else sh_batch s k)"
      "\<And>k r. cs \<le> k \<Longrightarrow> k < c' \<Longrightarrow> sh_batch s k = Some r \<Longrightarrow> br_anchored_ledger r < before"
      "c' < min (length (h sid) + 1) (?i * 200 + 201) \<Longrightarrow> n < m \<Longrightarrow>
         \<exists>r. sh_batch s c' = Some r \<and> before \<le> br_anchored_ledger r"
    by (rule shard_prune_batches_effect) (use s in auto)
  have c': "c' \<le> ?i * 200 + 201" "?i * 200 + 1 \<le> c'" "J = {} \<Longrightarrow> c' \<le> length (h sid) + 1"
    using p(1) by (simp_all add: holds_log_def)
  have idx: "(k - 1) div 200 = ?i \<longleftrightarrow> ?i * 200 + 1 \<le> k \<and> k < ?i * 200 + 201" if "1 \<le> k" for k
    using chunk_index [OF that] by auto
  have inside: "1 \<le> k \<and> (k - 1) div 200 = ?i" if "c \<le> k" "k < c'" for k
    using idx [of k] ci c c'(1) that by linarith
  have own: "get_batch A W sid k = ok_or (sh_batch s k) BatchNotFound" "shard_cursor A W sid k = cs"
    if "1 \<le> k \<and> (k - 1) div 200 = ?i" for k
    using that a s(6) by (auto simp: get_batch_def shard_for_batch_def SHARD_CAPACITY_def Let_def
        shard_get_batch_def shard_cursor_def)
  note upd = get_batch_upd [OF inv, simplified, OF a(2)]
    and cur = shard_cursor_upd [OF inv, simplified, OF a(2)]
  have gb: "get_batch A (W(a \<mapsto> s')) x k =
       (if x = sid \<and> c \<le> k \<and> k < c' \<and> shard_cursor A W sid k \<le> k then Err BatchNotFound
        else get_batch A W x k)" for x k
  proof (cases "x = sid \<and> 1 \<le> k \<and> (k - 1) div 200 = ?i")
    case True
    then have "get_batch A (W(a \<mapsto> s')) x k = ok_or (sh_batch s' k) BatchNotFound"
      using upd by (simp add: shard_get_batch_def)
    with True own [of k] eff(3) [of k] cs show ?thesis by auto
  next
    case False
    then have "\<not> (x = sid \<and> c \<le> k \<and> k < c')" using inside [of k] by blast
    with False upd show ?thesis by auto
  qed
  have after: "shard_cursor A (W(a \<mapsto> s')) sid k \<le> k \<longleftrightarrow> shard_cursor A W sid k \<le> k" if "c' \<le> k" for k
    using that cur [of s' sid k] own(2) [of k] p(2,5) cs c(1) by (cases "(k - 1) div 200 = ?i") simp_all
  have chunk': "chunk_ok R (h sid) (J `` {a}) c' ?i s'"
    using s p eff(1,2) by (auto simp: chunk_ok_def same_config_def)
  have "c' \<le> chunk_end (length (h sid))" using c'(1) chunk_end_chunk [OF c] by linarith
  then have inv': "stream_inv R (at_cursor A sid c') (W(a \<mapsto> s')) h J"
    using c' by (intro stream_inv_advance [OF inv a(2) chunk' c(1)]) auto
  show thesis
  proof (rule that [OF a(1,3) ok inv' _ p(4)])
    show "c \<le> c'" "n \<le> c' - c" using cs p by auto
    have "cs \<le> k" if "k \<in> readable A W sid c c'" for k
      using that inside [of k] own(2) [of k] by (auto simp: readable_def)
    then have "readable A W sid c c' \<subseteq> {cs..<c'}" by (auto simp: readable_def)
    then show "card (readable A W sid c c') \<le> n" using card_mono [of "{cs..<c'}"] p(3) by simp
    have "br_anchored_ledger r < before"
      if k: "c \<le> k" "k < c'" "shard_cursor A W sid k \<le> k" "get_batch A W sid k = Ok r" for k r
      using own [OF inside [OF k(1,2)]] k(2-4) eff(4) [of k r] by (cases "sh_batch s k") auto
    with gb cs p(2) after show "prune_effect A sid before c W c' (W(a \<mapsto> s'))"
      by (auto simp: prune_effect_def)
    show "\<exists>r. get_batch A W sid c = Ok r \<and> before \<le> br_anchored_ledger r" if "c' = c" "0 < m"
      using eff(5) p(2,3) cs that c ci own [of c] by auto
  qed
qed

lemma anchor_prune_loop_correct:
  assumes "stream_inv R (at_cursor A sid c) W h J" and R: "current_contract_address E = R"
    and "p \<le> 100" and u: "in_u64 (length (h sid) + 1)"
  shows "\<exists>c' p' W'. anchor_prune_loop E A sid before (length (h sid)) c p W = Some (Ok (c', p', W')) \<and>
     stream_inv R (at_cursor A sid c') W' h J \<and> prune_effect A sid before c W c' W' \<and>
     p \<le> p' \<and> p' \<le> 100 \<and> card (readable A W sid c c') \<le> p' - p \<and> p' - p \<le> c' - c \<and>
     (c' \<le> length (h sid) \<and> p' < 100 \<longrightarrow>
        (\<exists>r. get_batch A W sid c' = Ok r \<and> before \<le> br_anchored_ledger r))"
  using assms(1,3)
proof (induction "length (h sid) + 1 - c" arbitrary: c p W rule: less_induct)
  case less
  note inv = less.prems(1)
  have c: "1 \<le> c" using stream_invD(2) [OF inv, of sid] by simp
  have small: "q mod 4294967296 = q" if "q \<le> 100" for q :: nat using that by simp
  show ?case
  proof (cases "c \<le> length (h sid) \<and> p < 100")
    case False
    then have "anchor_prune_loop E A sid before (length (h sid)) c p W = Some (Ok (c, p, W))"
      using less.prems(2) by (subst anchor_prune_loop.simps) (auto simp: MAX_PRUNE_BATCHES_def small)
    with False inv less.prems(2) show ?thesis by (auto simp: prune_effect_refl)
  next
    case True
    from True have c2: "c \<le> length (h sid)" "0 < 100 - p" by simp_all
    obtain a s c' n s' where st: "shard_for_batch A sid c = Ok a" "W a = Some s"
      "shard_prune_batches (callee_env E a) s before (100 - p) (length (h sid) + 1) = Ok ((c', n), s')"
      "stream_inv R (at_cursor A sid c') (W(a \<mapsto> s')) h J" "c \<le> c'"
      "n \<le> 100 - p" "card (readable A W sid c c') \<le> n" "n \<le> c' - c"
      and eff: "prune_effect A sid before c W c' (W(a \<mapsto> s'))"
      and stop: "c' = c \<Longrightarrow> 0 < 100 - p \<Longrightarrow>
        \<exists>r. get_batch A W sid c = Ok r \<and> before \<le> br_anchored_ledger r"
      by (rule shard_prune_step [OF inv R c c2(1), where before = before and m = "100 - p"])
        (rule that)
    have "u64_add (length (h sid)) 1 = (Ok (length (h sid) + 1) :: u64 outcome)" "u64_add p n = (Ok (p + n) :: u64 outcome)"
      using u st(6) True by (auto simp: u64_add_def in_u64_def)
    then have step: "anchor_prune_loop E A sid before (length (h sid)) c p W =
        (if c' = c then Some (Ok (c, p + n, W(a \<mapsto> s')))
         else anchor_prune_loop E A sid before (length (h sid)) c' (p + n) (W(a \<mapsto> s')))"
      using True st(1-3)
      by (subst anchor_prune_loop.simps)
        (simp add: MAX_PRUNE_BATCHES_def saturating_sub_def Let_def small)
    show ?thesis
    proof (cases "c' = c")
      case True
      with step st(4-8) eff stop \<open>c \<le> length (h sid) \<and> p < 100\<close> show ?thesis by auto
    next
      case neq: False
      with st(5) c2(1) have m: "length (h sid) + 1 - c' < length (h sid) + 1 - c" by linarith
      have "p + n \<le> 100" using st(6) less.prems(2) by linarith
      from less.hyps [OF m st(4) this] obtain c2 p2 W2 where
        IH: "anchor_prune_loop E A sid before (length (h sid)) c' (p + n) (W(a \<mapsto> s'))
          = Some (Ok (c2, p2, W2))" "stream_inv R (at_cursor A sid c2) W2 h J"
          "prune_effect A sid before c' (W(a \<mapsto> s')) c2 W2" "p + n \<le> p2" "p2 \<le> 100"
          "card (readable A (W(a \<mapsto> s')) sid c' c2) \<le> p2 - (p + n)" "p2 - (p + n) \<le> c2 - c'"
          "c2 \<le> length (h sid) \<and> p2 < 100 \<longrightarrow>
             (\<exists>r. get_batch A (W(a \<mapsto> s')) sid c2 = Ok r \<and> before \<le> br_anchored_ledger r)"
        by blast
      have "get_batch A (W(a \<mapsto> s')) sid c2 = get_batch A W sid c2"
        using prune_effectD(2) [OF eff] prune_effectD(1) [OF IH(3)] by simp
      moreover have "card (readable A W sid c c2) \<le> p2 - p"
        using readable_trans [OF eff IH(3)] IH(4,6) st(7) by linarith
      moreover have "p2 - p \<le> c2 - c" using prune_effectD(1) [OF IH(3)] IH(7) st(5,8) by linarith
      ultimately show ?thesis
        using step neq IH prune_effect_trans [OF eff IH(3)] by auto
    qed
  qed
qed

lemma prune_batches_correct:
  assumes inv: "stream_inv R A W h J" and R: "current_contract_address E = R"
    and u: "in_u64 (length (h sid) + 1)"
  defines "c \<equiv> pruned_cursor A sid"
  obtains c' p W' A' where "prune_batches E A W sid before = Some (Ok (c', A', W'))"
    "stream_inv R A' W' h J" "prune_effect A sid before c W c' W'" "pruned_cursor A' sid = c'"
    "c' \<le> length (h sid) \<Longrightarrow>
       p = 100 \<or> (\<exists>r. get_batch A W sid c' = Ok r \<and> before \<le> br_anchored_ledger r)"
    "p \<le> 100" "card (readable A W sid c c') \<le> p" "p \<le> c' - c" "get_batch A' = get_batch A"
    "an_events A' = an_events A @ (if c < c' then [PrunePayload (timestamp E) sid c (c' - 1)] else [])"
    "get_root_buffer A' = get_root_buffer A" "get_shard_ids A' = get_shard_ids A"
proof -
  have "stream_inv R (at_cursor A sid c) W h J"
    using inv by (simp add: stream_inv_def c_def)
  from anchor_prune_loop_correct [OF this R _ u, of 0 before] obtain c' p W' where
    l: "anchor_prune_loop E A sid before (length (h sid)) c 0 W = Some (Ok (c', p, W'))"
      "stream_inv R (at_cursor A sid c') W' h J" "prune_effect A sid before c W c' W'"
      "p \<le> 100" "card (readable A W sid c c') \<le> p" "p \<le> c' - c"
      "c' \<le> length (h sid) \<and> p < 100 \<longrightarrow>
        (\<exists>r. get_batch A W sid c' = Ok r \<and> before \<le> br_anchored_ledger r)"
    by auto
  define A' where "A' = (at_cursor A sid c')
    \<lparr>an_events := an_events A @ (if c < c' then [PrunePayload (timestamp E) sid c (c' - 1)] else [])\<rparr>"
  have eq: "an_shard A' = an_shard A" "batch_count_of A' = batch_count_of A"
    "pruned_cursor A' = pruned_cursor (at_cursor A sid c')"
    by (simp_all add: A'_def fun_eq_iff batch_count_of_def pruned_cursor_def at_cursor_def)
  have "prune_batches E A W sid before = Some (Ok (c', A', W'))"
    using l(1) stream_invD(1) [OF inv, of sid]
    by (simp add: prune_batches_def Let_def A'_def at_cursor_def anchor_publish_def
        c_def pruned_cursor_def)
  moreover have "stream_inv R A' W' h J" using l(2) by (simp add: stream_inv_def eq)
  moreover have "get_batch A' = get_batch A"
    by (simp add: fun_eq_iff get_batch_def shard_for_batch_def eq)
  moreover have "p = 100 \<or> (\<exists>r. get_batch A W sid c' = Ok r \<and> before \<le> br_anchored_ledger r)"
    if "c' \<le> length (h sid)" using l(4,7) that by (cases "p = 100") auto
  moreover have "get_root_buffer A' = get_root_buffer A" "get_shard_ids A' = get_shard_ids A"
    by (simp_all add: A'_def at_cursor_def get_root_buffer_def get_shard_ids_def fun_eq_iff)
  moreover have "pruned_cursor A' sid = c'" by (simp add: eq)
  moreover have "an_events A' = an_events A @
      (if c < c' then [PrunePayload (timestamp E) sid c (c' - 1)] else [])" by (simp add: A'_def)
  ultimately show thesis using l(3-6) that by blast
qed

section \<open>Reachable states\<close>

text \<open>
  Runs of a deployment at address \<open>R\<close>: the router's own entry points, and every entry point of the
  storage shards that needs no authorization by the router, \<open>insert_migrated_batch\<close> included, which
  accepts a record from whoever signs for \<open>source\<close>. The other entry points of a shard that change its
  state (\<open>anchor_batch\<close>, \<open>prune_batches\<close>, \<open>consolidate\<close>, \<open>decommission\<close>) ask for the router's
  authorization, which only a call made by the router gives, and the router makes only the first two.
  \<open>h\<close> records, per logical shard, what was anchored; \<open>J\<close> what was inserted past the router, with the
  shard's address and the id. \<open>T\<close> is the token the bounties are paid in.
\<close>

inductive anchor_reach ::
  "(address \<Rightarrow> bytes \<Rightarrow> address) \<Rightarrow> (bytes \<Rightarrow> bytes) \<Rightarrow> ledger token \<Rightarrow> address \<Rightarrow>
    anchor \<Rightarrow> shards \<Rightarrow> (u64 \<Rightarrow> batch_record list) \<Rightarrow> (address \<times> u64 \<times> batch_record) set \<Rightarrow> bool"
  for D H T R where
  init: "anchor_initialize E anchor_new merchant wasm = Ok A \<Longrightarrow> anchor_reach D H T R A W (\<lambda>_. []) {}"
| anchor: "anchor_reach D H T R A W h J \<Longrightarrow> current_contract_address E = R \<Longrightarrow>
    anchor_batch D E A W sid root n ps pe = Ok (k, A', W') \<Longrightarrow>
    anchor_reach D H T R A' W' (h(sid := h sid @ [anchored E root n ps pe])) J"
| anchor_zk: "anchor_reach D H T R A W h J \<Longrightarrow> current_contract_address E = R \<Longrightarrow>
    anchor_batch_zk D E A W sid root pf n ps pe = Ok (k, A', W') \<Longrightarrow>
    anchor_reach D H T R A' W' (h(sid := h sid @ [anchored E root n ps pe])) J"
| prune: "anchor_reach D H T R A W h J \<Longrightarrow> current_contract_address E = R \<Longrightarrow>
    prune_batches E A W sid before = Some (Ok (c, A', W')) \<Longrightarrow> anchor_reach D H T R A' W' h J"
| rate_limit: "anchor_reach D H T R A W h J \<Longrightarrow>
    set_anchor_rate_limit E A burst interval = Ok A' \<Longrightarrow> anchor_reach D H T R A' W h J"
| min_interval: "anchor_reach D H T R A W h J \<Longrightarrow>
    set_min_anchor_interval E A interval = Ok A' \<Longrightarrow> anchor_reach D H T R A' W h J"
| insert_leaf: "anchor_reach D H T R A W h J \<Longrightarrow>
    insert_receipt_leaf H E A leaf = Ok (i, A') \<Longrightarrow> anchor_reach D H T R A' W h J"
| transfer: "anchor_reach D H T R A W h J \<Longrightarrow>
    anchor_transfer_admin E A proposed = Ok A' \<Longrightarrow> anchor_reach D H T R A' W h J"
| accept: "anchor_reach D H T R A W h J \<Longrightarrow>
    anchor_accept_admin E A = Ok A' \<Longrightarrow> anchor_reach D H T R A' W h J"
| expire: "anchor_reach D H T R A W h J \<Longrightarrow> W a = Some s \<Longrightarrow>
    prune_expired_receipts E s pruner m = Ok (cnt, s') \<Longrightarrow> anchor_reach D H T R A (W(a \<mapsto> s')) h J"
| bounty: "anchor_reach D H T R A W h J \<Longrightarrow> W a = Some s \<Longrightarrow>
    claim_prune_bounty T E w s tok claimer = Ok (x, w', s') \<Longrightarrow> anchor_reach D H T R A (W(a \<mapsto> s')) h J"
| migrate: "anchor_reach D H T R A W h J \<Longrightarrow> W a = Some s \<Longrightarrow>
    insert_migrated_batch E s src k r = Ok (r', s') \<Longrightarrow>
    anchor_reach D H T R A (W(a \<mapsto> s')) h (insert (a, k, r) J)"

text \<open>Changes that leave the streams alone: other router fields, and shards read the same.\<close>

lemma stream_inv_cong:
  assumes "stream_inv R A W h J" "an_shard A' = an_shard A"
    "an_shard_batch_count A' = an_shard_batch_count A"
    "an_shard_pruned_up_to A' = an_shard_pruned_up_to A"
  shows "stream_inv R A' W h J"
  using assms by (simp add: stream_inv_def batch_count_of_def pruned_cursor_def)

lemma index_inv_cong:
  assumes "index_inv A h" "an_shard_root_buffer A' = an_shard_root_buffer A"
    "an_shard_ids A' = an_shard_ids A"
  shows "index_inv A' h"
  using assms by (simp add: index_inv_def get_root_buffer_def get_shard_ids_def)

lemma chunk_ok_mono: "chunk_ok R l J rc i s \<Longrightarrow> J \<subseteq> J' \<Longrightarrow> chunk_ok R l J' rc i s"
  unfolding chunk_ok_def using holds_log_mono by blast

lemma stream_inv_shard:
  assumes inv: "stream_inv R A W h J" and s: "W a = Some s" and J: "J \<subseteq> J'"
    and step: "\<And>l rc i. chunk_ok R l (J `` {a}) rc i s \<Longrightarrow> chunk_ok R l (J' `` {a}) rc i s'"
  shows "stream_inv R A (W(a \<mapsto> s')) h J'"
proof -
  have "\<exists>t. (W(a \<mapsto> s')) b = Some t \<and> chunk_ok R (h x) (J' `` {b}) (pruned_cursor A x) i t"
    if "an_shard A (x, i) = Some b" for x i b
  proof (cases "b = a")
    case True
    with stream_invD(6) [OF inv that] s step show ?thesis by auto
  next
    case False
    have "J `` {b} \<subseteq> J' `` {b}" using J by blast
    with stream_invD(6) [OF inv that] chunk_ok_mono False show ?thesis by fastforce
  qed
  moreover have "J = {}" if "J' = {}" using J that by blast
  ultimately show ?thesis using inv unfolding stream_inv_def by blast
qed

lemma chunk_ok_expire:
  assumes c: "chunk_ok R l J rc i s" and ok: "prune_expired_receipts E s pruner m = Ok (cnt, s')"
  shows "chunk_ok R l J rc i s'"
proof -
  from c obtain c where c: "shard_inv s" "sh_end_batch_id s = Some (i * 200 + 201)"
    "sh_pruned_up_to s = Some c" "min rc (i * 200 + 201) \<le> c"
    "holds_log (sh_batch s) (i * 200 + 1) (i * 200 + 201) l J c"
    by (auto simp: chunk_ok_def)
  obtain c' where "holds_log (sh_batch s') (i * 200 + 1) (i * 200 + 201) l J c'" "c \<le> c'"
    "sh_pruned_up_to s' = Some c'"
    by (rule shard_store.expire_log [OF ok c(5,2,3)])
  moreover from ok have "shard_inv s'" "same_config s s'"
    by (rule prune_expired_receipts_effect; simp add: c(1))+
  ultimately show ?thesis using assms(1) c by (auto simp: chunk_ok_def same_config_def)
qed

lemma chunk_ok_bounty:
  "chunk_ok R l J rc i s \<Longrightarrow> claim_prune_bounty T E w s tok a = Ok (x, w', s') \<Longrightarrow> chunk_ok R l J rc i s'"
  using claim_prune_bounty_inv [of T E w s tok a x w' s']
  by (auto simp: chunk_ok_def claim_prune_bounty_def Let_def ok_iff split: if_splits)

lemma chunk_ok_inject:
  assumes c: "chunk_ok R l J rc i s" and ok: "insert_migrated_batch E s src k r = Ok (r', s')"
  shows "chunk_ok R l (insert (k, r) J) rc i s'"
proof -
  from c obtain c where c: "shard_inv s" "sh_end_batch_id s = Some (i * 200 + 201)"
    "sh_pruned_up_to s = Some c" "min rc (i * 200 + 201) \<le> c"
    "holds_log (sh_batch s) (i * 200 + 1) (i * 200 + 201) l J c"
    by (auto simp: chunk_ok_def)
  from shard_store.inject_log [OF ok c(5,2,3)] insert_migrated_batch_Ok(4,8) [OF ok] c assms(1)
  show ?thesis by (auto simp: chunk_ok_def same_config_def)
qed

lemma prune_batches_index:
  assumes "prune_batches E A W sid before = Some (Ok (c, A', W'))"
  shows "an_shard_root_buffer A' = an_shard_root_buffer A" "an_shard_ids A' = an_shard_ids A"
    "an_admin A' = an_admin A"
  using assms by (auto simp: prune_batches_def Let_def ok_iff anchor_publish_def)

lemma prune_batches_stream:
  assumes inv: "stream_inv R A W h J" and R: "current_contract_address E = R"
    and ok: "prune_batches E A W sid before = Some (Ok (c', A', W'))"
  shows "stream_inv R A' W' h J"
proof (cases "in_u64 (length (h sid) + 1)")
  case True
  from prune_batches_correct [OF inv R True, of before] ok show ?thesis by fastforce
next
  case False
  let ?c = "unwrap_or (an_shard_pruned_up_to A sid) 1"
  note pc = pruned_cursor_def [of A sid, symmetric]
  show ?thesis
  proof (cases "?c \<le> length (h sid)")
    case le: True
    then obtain a where "shard_for_batch A sid ?c = Ok a"
      using stream_chunk [OF inv, of ?c sid] stream_invD(2) [OF inv, of sid] pc by auto
    with le False have "anchor_prune_loop E A sid before (length (h sid)) ?c 0 W = Some Trap"
      by (subst anchor_prune_loop.simps) (simp add: MAX_PRUNE_BATCHES_def u64_add_def)
    with ok stream_invD(1) [OF inv, of sid] show ?thesis by (simp add: prune_batches_def)
  next
    case gt: False
    then have "anchor_prune_loop E A sid before (length (h sid)) ?c 0 W = Some (Ok (?c, 0, W))"
      by (subst anchor_prune_loop.simps) simp
    with ok stream_invD(1) [OF inv, of sid] have "A' = at_cursor A sid (pruned_cursor A sid)" "W' = W"
      by (auto simp: prune_batches_def at_cursor_def pruned_cursor_def Let_def)
    with inv show ?thesis by (simp add: stream_inv_def)
  qed
qed

lemma anchor_reach_anchor:
  assumes "stream_inv R A W h J \<and> index_inv A h \<and> an_admin A \<noteq> None"
    and R: "current_contract_address E = R"
    and ok: "anchor_batch_internal D E A W sid root n ps pe = Ok (k, A', W')"
  defines "h' \<equiv> h(sid := h sid @ [anchored E root n ps pe])"
  shows "stream_inv R A' W' h' J \<and> index_inv A' h' \<and> an_admin A' \<noteq> None"
proof -
  from ok obtain a A1 W1 where "an_admin A' = an_admin A1"
    "get_or_create_shard D E A W sid (batch_count_of A sid div 200) = Ok (a, A1, W1)"
    by (rule anchor_batch_internal_Ok)
  with get_or_create_shard_index(3) assms(1) have "an_admin A' \<noteq> None" by metis
  with anchor_batch_stream(2) [OF _ R ok] anchor_batch_index [OF _ ok] assms(1) show ?thesis
    by (simp add: h'_def)
qed

lemmas anchor_config_defs = set_anchor_rate_limit_def set_min_anchor_interval_def
  insert_receipt_leaf_def anchor_transfer_admin_def anchor_accept_admin_def anchor_publish_def

lemma anchor_reach_inv:
  assumes "anchor_reach D H T R A W h J"
  shows "stream_inv R A W h J \<and> index_inv A h \<and> an_admin A \<noteq> None"
  using assms
proof induction
  case (init E merchant wasm A W)
  then show ?case
    by (auto simp: anchor_initialize_def anchor_new_def anchor_publish_def stream_inv_def index_inv_def
        batch_count_of_def pruned_cursor_def get_root_buffer_def get_shard_ids_def recent_def chunk_end_def)
next
  case (anchor A W h J E sid root n ps pe k A' W')
  then show ?case by (intro anchor_reach_anchor) (auto simp: anchor_batch_def)
next
  case (anchor_zk A W h J E sid root pf n ps pe k A' W')
  then show ?case by (intro anchor_reach_anchor) (auto simp: anchor_batch_zk_def ok_iff split: if_splits)
next
  case (prune A W h J E sid before c A' W')
  from prune_batches_stream [OF _ prune.hyps(2,3)] prune_batches_index [OF prune.hyps(3)] prune.IH
  show ?case using index_inv_cong [of A h A'] by simp
next
  case (expire A W h J a s E pruner m cnt s')
  have "stream_inv R A (W(a \<mapsto> s')) h J"
    by (rule stream_inv_shard [where s = s]) (use expire chunk_ok_expire in auto)
  with expire.IH show ?case by blast
next
  case (bounty A W h J a s E w tok claimer x w' s')
  have "stream_inv R A (W(a \<mapsto> s')) h J"
    by (rule stream_inv_shard [where s = s]) (use bounty chunk_ok_bounty in auto)
  with bounty.IH show ?case by blast
next
  case (migrate A W h J a s E src k r r' s')
  have a: "insert (a, k, r) J `` {a} = insert (k, r) (J `` {a})" by auto
  have "stream_inv R A (W(a \<mapsto> s')) h (insert (a, k, r) J)"
    by (rule stream_inv_shard [where s = s]) (use migrate chunk_ok_inject in \<open>auto simp only: a\<close>)
  with migrate.IH show ?case by blast
qed (auto simp: anchor_config_defs ok_iff Let_def elim!: stream_inv_cong index_inv_cong split: if_splits)

section \<open>The limiter bounds bursts\<close>

lemma div_add_le: "a div n + b div n \<le> (a + b) div (n :: nat)"
proof (cases "n = 0")
  case False
  have "(a div n + b div n) * n \<le> a + b"
    unfolding distrib_right by (intro add_mono div_times_less_eq_dividend)
  with False show ?thesis by (simp add: less_eq_div_iff_mult_less_eq)
qed simp

text \<open>Tokens plus what the rest of the time up to \<open>t\<close> can still earn never grows by refilling.\<close>

lemma refill_potential:
  assumes "now \<le> t"
  shows "tokens (refill_bucket b now cfg) + (t - last_refill (refill_bucket b now cfg)) div refill_interval_secs cfg
    \<le> tokens b + (t - last_refill b) div refill_interval_secs cfg"
proof -
  let ?I = "refill_interval_secs cfg"
  have "(now - last_refill b) div ?I + (t - now) div ?I \<le> (t - last_refill b) div ?I" if "last_refill b \<le> now"
    using div_add_le [of "now - last_refill b" ?I "t - now"] assms that by simp
  moreover have "(t - now) div ?I \<le> (t - last_refill b) div ?I" if "now < last_refill b" "?I = 0"
    using that by simp
  ultimately show ?thesis
    by (cases "last_refill b \<le> now")
      (auto simp: refill_bucket_def Let_def saturating_sub_def u64_saturating_add_def)
qed

lemma refill_le_burst: "tokens b \<le> burst_capacity cfg \<Longrightarrow> tokens (refill_bucket b now cfg) \<le> burst_capacity cfg"
  by (simp add: refill_bucket_def Let_def)

fun bucket_run :: "rate_limit_config \<Rightarrow> bucket_state \<Rightarrow> u64 list \<Rightarrow> bool" where
  "bucket_run cfg b [] = True"
| "bucket_run cfg b (t # ts) = (let b' = refill_bucket b t cfg
     in tokens b' \<noteq> 0 \<and> bucket_run cfg (b'\<lparr>tokens := saturating_sub (tokens b') 1\<rparr>) ts)"

lemma bucket_run_bound:
  "bucket_run cfg b ts \<Longrightarrow> sorted ts \<Longrightarrow> ts \<noteq> [] \<Longrightarrow>
   length ts \<le> tokens b + (last ts - last_refill b) div refill_interval_secs cfg"
proof (induction ts arbitrary: b)
  case (Cons t ts)
  let ?b = "refill_bucket b t cfg" and ?I = "refill_interval_secs cfg"
  have pot: "tokens ?b + (last (t # ts) - last_refill ?b) div ?I
      \<le> tokens b + (last (t # ts) - last_refill b) div ?I"
    using Cons.prems(2) by (intro refill_potential) auto
  have pos: "0 < tokens ?b" using Cons.prems(1) by (simp add: Let_def)
  show ?case
  proof (cases "ts = []")
    case True
    with pot pos show ?thesis by simp
  next
    case False
    with Cons.IH [of "?b\<lparr>tokens := saturating_sub (tokens ?b) 1\<rparr>"] Cons.prems
    have "length ts \<le> tokens ?b - 1 + (last ts - last_refill ?b) div ?I"
      by (simp add: Let_def saturating_sub_def)
    with pot pos False show ?thesis by simp
  qed
qed simp

text \<open>A run of successful anchors, whatever they contain.\<close>

type_synonym anchor_call = "env \<times> u64 \<times> bytes \<times> u32 \<times> u64 \<times> u64"

fun anchor_run ::
  "(address \<Rightarrow> bytes \<Rightarrow> address) \<Rightarrow> anchor_call list \<Rightarrow> anchor \<Rightarrow> shards \<Rightarrow> (anchor \<times> shards) outcome" where
  "anchor_run D [] A W = Ok (A, W)"
| "anchor_run D ((E, sid, root, n, ps, pe) # calls) A W =
     obind (anchor_batch D E A W sid root n ps pe) (\<lambda>(k, A, W). anchor_run D calls A W)"

lemma anchor_batch_limit:
  assumes "anchor_batch D E A W sid root n ps pe = Ok (k, A', W')"
    and m: "an_admin A = Some m" and "rate_limit_active (get_anchor_rate_limit A)"
  defines "b \<equiv> refill_bucket (bucket_of A E m (get_anchor_rate_limit A)) (timestamp E) (get_anchor_rate_limit A)"
  shows "tokens b \<noteq> 0" "an_rate_limit_bucket A' m = Some (b\<lparr>tokens := saturating_sub (tokens b) 1\<rparr>)"
    "an_admin A' = Some m" "get_anchor_rate_limit A' = get_anchor_rate_limit A"
proof -
  from assms(1) [unfolded anchor_batch_def] obtain a A1 W1 where
    g: "get_or_create_shard D E A W sid (batch_count_of A sid div 200) = Ok (a, A1, W1)"
    and *: "an_admin A' = an_admin A1" "an_rate_limit_config A' = an_rate_limit_config A1"
      "rate_limit_admitted E A m (get_anchor_rate_limit A) = Ok ()" "an_rate_limit_bucket A' =
         an_rate_limit_bucket (rate_limit_consume E A1 m (get_anchor_rate_limit A))"
    by (rule anchor_batch_internal_Ok) (use m assms(3) in simp)
  note same = get_or_create_shard_index [OF g]
  show "tokens b \<noteq> 0" using *(3) by (simp add: rate_limit_admitted_def b_def Let_def split: if_splits)
  show "an_admin A' = Some m" "get_anchor_rate_limit A' = get_anchor_rate_limit A"
    using * same m by (simp_all add: get_anchor_rate_limit_def)
  show "an_rate_limit_bucket A' m = Some (b\<lparr>tokens := saturating_sub (tokens b) 1\<rparr>)"
    using *(4) same(5) by (simp add: rate_limit_consume_def b_def bucket_of_def Let_def)
qed

lemma anchor_run_bucket:
  assumes "anchor_run D calls A W = Ok (A', W')" "an_admin A = Some m"
    "get_anchor_rate_limit A = cfg" "rate_limit_active cfg" "an_rate_limit_bucket A m = Some b"
  shows "bucket_run cfg b (map (timestamp \<circ> fst) calls)"
  using assms
proof (induction D calls A W arbitrary: b rule: anchor_run.induct)
  case (2 D E sid root n ps pe calls A W)
  then obtain k A1 W1 where ok: "anchor_batch D E A W sid root n ps pe = Ok (k, A1, W1)"
    and rest: "anchor_run D calls A1 W1 = Ok (A', W')" by (auto simp: ok_iff)
  have "bucket_of A E m cfg = b" using "2.prems" by (simp add: bucket_of_def)
  with anchor_batch_limit [OF ok "2.prems"(2)] "2.prems" "2.IH" [OF rest] show ?case
    by (simp add: Let_def ok)
qed simp

lemma anchor_run_bucket_of:
  assumes run: "anchor_run D calls A W = Ok (A', W')" and m: "an_admin A = Some m"
    and cfg: "get_anchor_rate_limit A = cfg" "rate_limit_active cfg" and ne: "calls \<noteq> []"
  shows "bucket_run cfg (bucket_of A (fst (hd calls)) m cfg) (map (timestamp \<circ> fst) calls)"
proof -
  obtain E sid root n ps pe rest where calls: "calls = (E, sid, root, n, ps, pe) # rest"
    using ne by (metis list.exhaust prod_cases6)
  from run calls obtain k A1 W1 where ok: "anchor_batch D E A W sid root n ps pe = Ok (k, A1, W1)"
    and r: "anchor_run D rest A1 W1 = Ok (A', W')" by (auto simp: ok_iff)
  note l = anchor_batch_limit [OF ok m, unfolded cfg(1), OF cfg(2)]
  from anchor_run_bucket [OF r l(3) _ cfg(2) l(2)] l(1,4) show ?thesis
    by (simp add: calls Let_def)
qed

text \<open>
  The bound in terms of the bucket the run starts from, and, for a bucket within the capacity, in
  terms of the capacity and the time the run takes. A stored bucket may be one interval short of its
  last refill when the run starts, which is worth one more anchor.
\<close>

lemma bucket_run_capacity:
  assumes run: "bucket_run cfg b (t # ts)" and sorted: "sorted (t # ts)"
    and cap: "tokens b \<le> burst_capacity cfg" and pos: "0 < refill_interval_secs cfg"
  shows "length (t # ts) \<le> burst_capacity cfg + (last (t # ts) - t) div refill_interval_secs cfg + 1"
proof -
  let ?I = "refill_interval_secs cfg" and ?l = "last (t # ts)"
  have le: "length (t # ts) \<le> tokens b' + (?l - last_refill b') div ?I"
    if "bucket_run cfg b' (t # ts)" for b'
    using bucket_run_bound [OF that sorted] by simp
  have l: "t \<le> ?l" using sorted by auto
  show ?thesis
  proof (cases "?I \<le> t - last_refill b")
    case True
    let ?b = "refill_bucket b t cfg"
    have b: "last_refill ?b = t" "tokens ?b \<le> burst_capacity cfg"
      using True by (simp_all add: refill_bucket_def saturating_sub_def Let_def)
    then have "refill_bucket ?b t cfg = ?b"
      using pos by (simp add: refill_bucket_def [of ?b] saturating_sub_def Let_def)
    with run have "bucket_run cfg ?b (t # ts)" by (simp add: Let_def)
    from le [OF this] b show ?thesis by simp
  next
    case False
    then have "?l - last_refill b \<le> (?l - t) + ?I" using l by linarith
    then have "(?l - last_refill b) div ?I \<le> ((?l - t) + ?I) div ?I" by (rule div_le_mono)
    also have "\<dots> = (?l - t) div ?I + 1" using pos div_add_self2 [of ?I "?l - t"] by simp
    finally show ?thesis using le [OF run] cap by simp
  qed
qed

section \<open>Receipts verify through the router\<close>

lemma verify_receipt_of_batch:
  assumes "get_batch A W sid k = Ok r" and "length p \<le> 10"
  shows "verify_receipt H A W sid k leaf p = Ok (merkle_verify H (br_root r) leaf p)"
proof -
  from assms(1) obtain a s where "shard_for_batch A sid k = Ok a" "W a = Some s" "sh_batch s k = Some r"
    by (auto simp: get_batch_def ok_iff shard_get_batch_def)
  with assms(2) show ?thesis
    by (simp add: verify_receipt_def shard_verify_receipt_def shard_get_batch_def
        SHARD_MAX_PROOF_LEN_def unwrap_shard_result_def shard_fold_proof_eq merkle_verify_def Let_def)
qed

lemma verify_receipt_missing:
  assumes inv: "stream_inv R A W h J" and none: "get_batch A W sid k = Err BatchNotFound"
    and p: "length p \<le> 10"
  shows "verify_receipt H A W sid k leaf p = Err BatchNotFound"
proof (cases "shard_for_batch A sid k")
  case (Ok a)
  then have "an_shard A (sid, (k - 1) div 200) = Some a"
    by (auto simp: shard_for_batch_def SHARD_CAPACITY_def Let_def ok_iff split: if_splits)
  with stream_invD(6) [OF inv this] Ok none p show ?thesis
    by (auto simp: get_batch_def verify_receipt_def shard_verify_receipt_def SHARD_MAX_PROOF_LEN_def
        shard_get_batch_def unwrap_shard_result_def ok_or_def split: option.splits)
qed (use none in \<open>auto simp: get_batch_def verify_receipt_def\<close>)

lemma recent_member: "1 \<le> k \<Longrightarrow> k \<le> length xs \<Longrightarrow> length xs < k + n \<Longrightarrow> xs ! (k - 1) \<in> set (recent n xs)"
  unfolding recent_def by (auto simp: in_set_conv_nth intro!: exI [of _ "k - 1 - (length xs - n)"])

text \<open>Every leaf of a batch of at most 1000 leaves has a proof that both verifiers accept.\<close>

lemma batch_leaf_proof:
  assumes "xs \<noteq> []" "length xs \<le> 1000" "leaf \<in> set xs"
  obtains p where "(leaf, p) \<in> set (tree_proofs H (batch_tree xs))" "length p \<le> 10"
    "merkle_verify H (batch_root H xs) leaf p"
proof -
  have "leaf \<in> fst ` set (tree_proofs H (batch_tree xs))"
    using assms batch_tree_leaves [OF assms(1)] tree_proofs_leaves [of H "batch_tree xs"]
    by (metis set_map)
  then obtain p where p: "(leaf, p) \<in> set (tree_proofs H (batch_tree xs))" by auto
  have "length p \<le> 10"
    using tree_proofs_height [OF p] batch_tree_height [OF assms(1), of 10] assms(2) by simp
  with p tree_proofs_verify [OF p] that show thesis by (simp add: mroot_batch_tree)
qed

section \<open>The incremental tree through the contract\<close>

fun insert_leaves :: "(bytes \<Rightarrow> bytes) \<Rightarrow> env \<Rightarrow> anchor \<Rightarrow> bytes list \<Rightarrow> anchor outcome" where
  "insert_leaves H E A [] = Ok A"
| "insert_leaves H E A (x # xs) =
     obind (insert_receipt_leaf H E A x) (\<lambda>(i, A). insert_leaves H E A xs)"

lemma insert_leaves_represents:
  assumes H: "\<And>x. length (H x) = 32" and m: "an_admin A = Some m" "authorized E m"
    and "represents H (unwrap_or (an_incremental_tree A) tree_empty) xs"
    and "length (xs @ ys) \<le> 2 ^ 32" "\<And>y. y \<in> set (xs @ ys) \<Longrightarrow> length y = 32"
  shows "\<exists>A'. insert_leaves H E A ys = Ok A' \<and> an_admin A' = Some m \<and>
    represents H (unwrap_or (an_incremental_tree A') tree_empty) (xs @ ys) \<and>
    (ys \<noteq> [] \<longrightarrow> an_incremental_tree A' \<noteq> None)"
  using m(1) assms(4-6)
proof (induction ys arbitrary: A xs)
  case (Cons y ys)
  let ?t = "unwrap_or (an_incremental_tree A) tree_empty"
  obtain t' where t': "tree_insert H ?t y = Ok (length xs, t')" "represents H t' (xs @ [y])"
    using tree_insert_represents [OF Cons.prems(2) _ H, of y] Cons.prems(3,4) by auto
  let ?A = "anchor_publish (ReceiptLeafInsertedEvent (length xs) y (it_root t'))
       (A\<lparr>an_incremental_tree := Some t'\<rparr>)"
  have ins: "insert_receipt_leaf H E A y = Ok (length xs, ?A)"
    using t'(1) Cons.prems(1) m(2) by (simp add: insert_receipt_leaf_def require_auth_def Let_def)
  have pre: "an_admin ?A = Some m" "represents H (unwrap_or (an_incremental_tree ?A) tree_empty) (xs @ [y])"
    "an_incremental_tree ?A \<noteq> None"
    using t'(2) Cons.prems(1) by (simp_all add: anchor_publish_def)
  from Cons.IH [OF pre(1,2)] Cons.prems(3,4) obtain A' where
    A': "insert_leaves H E ?A ys = Ok A'" "an_admin A' = Some m"
      "represents H (unwrap_or (an_incremental_tree A') tree_empty) ((xs @ [y]) @ ys)"
      "ys \<noteq> [] \<longrightarrow> an_incremental_tree A' \<noteq> None" by auto
  then have "an_incremental_tree A' \<noteq> None" using pre(3) by (cases ys) auto
  with A' ins show ?case by auto
qed simp

lemma shard_salt_inject:
  assumes "in_u64 a" "in_u64 b" "in_u64 c" "in_u64 d"
  shows "shard_salt a b = shard_salt c d \<longleftrightarrow> a = c \<and> b = d"
proof -
  have "be_bytes 8 a = be_bytes 8 c \<longleftrightarrow> a = c" "be_bytes 8 b = be_bytes 8 d \<longleftrightarrow> b = d"
    using assms be_bytes_inject [of _ 8] by (simp_all add: in_u64_def)
  then show ?thesis by (simp add: shard_salt_def)
qed

section \<open>What an anchor changes for a reader\<close>

lemma anchor_batch_reads:
  assumes inv: "stream_inv R A W h J" and R: "current_contract_address E = R"
    and ok: "anchor_batch_internal D E A W sid root n ps pe = Ok (k, A', W')"
  shows "get_batch A' W' x j =
    (if x = sid \<and> j = k then Ok (anchored E root n ps pe) else get_batch A W x j)"
proof -
  let ?i = "length (h sid) div 200"
  note len = stream_invD(1) [OF inv, of sid]
  from ok obtain a A1 W1 s s' where k: "k = length (h sid) + 1"
    and g: "get_or_create_shard D E A W sid ?i = Ok (a, A1, W1)"
    and s: "W1 a = Some s" "shard_anchor_batch (callee_env E a) s k root n ps pe = Ok s'"
    and W': "W' = W1(a \<mapsto> s')" and A': "an_shard A' = an_shard A1"
    by (rule anchor_batch_internal_Ok) (auto simp: len)
  have s': "sh_batch s' = (sh_batch s)(k \<mapsto> anchored E root n ps pe)"
    using shard_store.store_law [OF s(2)] by (simp add: anchored_def)
  from get_or_create_shard_Ok [OF inv R g] obtain s0 where
    sh: "an_shard A1 = (an_shard A)((sid, ?i) \<mapsto> a)" and W0: "W1 = W(a \<mapsto> s0)"
    and free: "\<And>key. key \<noteq> (sid, ?i) \<Longrightarrow> an_shard A key \<noteq> Some a"
    by blast
  have W1: "W1 b = (if b = a then Some s else W b)" for b using s(1) W0 by auto
  have old: "sh_batch s = Map.empty" if "an_shard A (sid, ?i) = None"
    using g s(1) that by (auto simp: get_or_create_shard_def Let_def ok_iff shard_constructor_def
        split: if_splits)
  have same: "W a = Some s" if "an_shard A (sid, ?i) \<noteq> None"
    using g s(1) that by (auto simp: get_or_create_shard_def)
  show ?thesis
  proof (cases "x = sid \<and> 1 \<le> j \<and> (j - 1) div 200 = ?i")
    case True
    then have new: "get_batch A' W' x j = ok_or (sh_batch s' j) BatchNotFound"
      by (auto simp: get_batch_def shard_for_batch_def SHARD_CAPACITY_def Let_def A' sh W'
          shard_get_batch_def)
    show ?thesis
    proof (cases "an_shard A (sid, ?i)")
      case None
      with True have "get_batch A W x j = Err BatchNotFound"
        by (auto simp: get_batch_def shard_for_batch_def SHARD_CAPACITY_def)
      with new s' old [OF None] True show ?thesis by simp
    next
      case (Some b)
      then have "b = a" using g by (simp add: get_or_create_shard_def)
      with Some same True have "get_batch A W x j = ok_or (sh_batch s j) BatchNotFound"
        by (auto simp: get_batch_def shard_for_batch_def SHARD_CAPACITY_def Let_def shard_get_batch_def)
      with new s' True show ?thesis by simp
    qed
  next
    case False
    then have "an_shard A' (x, (j - 1) div 200) = an_shard A (x, (j - 1) div 200)"
      if "1 \<le> j" using that by (auto simp: A' sh)
    moreover have "b \<noteq> a" if "1 \<le> j" "an_shard A (x, (j - 1) div 200) = Some b" for b
      using free [of "(x, (j - 1) div 200)"] False that by auto
    moreover have "\<not> (x = sid \<and> j = k)" using False k by auto
    ultimately show ?thesis
      by (cases "j = 0"; cases "an_shard A (x, (j - 1) div 200)")
        (auto simp: get_batch_def shard_for_batch_def SHARD_CAPACITY_def Let_def W' W1)
  qed
qed

end
