(* ===== verification/Receipt_Claims.thy ===== *)
theory Receipt_Claims
  imports Receipt_Anchor
begin

text \<open>
  What the receipt subsystem guarantees to its users: the router of \<open>Receipt_Anchor\<close> together with the
  storage shards of \<open>Receipt_Shard\<close>, the Merkle verifier of \<open>Merkle\<close> and the incremental tree of
  \<open>Incremental_Merkle\<close>. The guarantees are stated for every state reachable by the contracts' entry
  points, and each comes with an instance on a small concrete deployment.
\<close>

section \<open>A small deployment\<close>

definition ex_env :: env where
  "ex_env = \<lparr>sequence = 10, timestamp = 1000, current_contract_address = 1, authorized = (\<lambda>a. a = 7)\<rparr>"

definition ex_hash :: "bytes \<Rightarrow> bytes" where
  "ex_hash x = replicate 32 0"

definition ex_deploy :: "address \<Rightarrow> bytes \<Rightarrow> address" where
  "ex_deploy a salt = 100"

definition ex_leaf :: bytes where
  "ex_leaf = replicate 32 5"

definition ex_record :: batch_record where
  "ex_record = anchored ex_env ex_leaf 1 0 9"

definition ex_history :: "u64 \<Rightarrow> batch_record list" where
  "ex_history = (\<lambda>_. [])(5 := [ex_record])"

lemma ex_anchor:
  assumes "anchor_initialize ex_env anchor_new 7 [] = Ok A"
  obtains A' W' where "anchor_batch ex_deploy ex_env A Map.empty 5 ex_leaf 1 0 9 = Ok (1, A', W')"
  using assms
  by (auto simp: anchor_initialize_def anchor_new_def anchor_publish_def ex_env_def ex_deploy_def
      anchor_batch_def anchor_batch_internal_def MAX_BATCH_SIZE_def require_auth_def Let_def
      get_anchor_rate_limit_def rate_limit_active_def batch_count_of_def check_no_duplicate_root_def
      u64_add_def u64_mul_def in_u64_def SHARD_CAPACITY_def get_or_create_shard_def
      shard_anchor_batch_def shard_constructor_def callee_env_def record_anchor_def load_stats_def)

lemma ex_reach:
  obtains A W where "anchor_reach ex_deploy ex_hash ledger_token 1 A W ex_history {}"
    "get_batch A W 5 1 = Ok ex_record"
proof -
  obtain A0 where A0: "anchor_initialize ex_env anchor_new 7 [] = Ok A0"
    by (simp add: anchor_initialize_def anchor_new_def)
  then obtain A W where A: "anchor_batch ex_deploy ex_env A0 Map.empty 5 ex_leaf 1 0 9 = Ok (1, A, W)"
    by (rule ex_anchor)
  have 0: "anchor_reach ex_deploy ex_hash ledger_token 1 A0 Map.empty (\<lambda>_. []) {}"
    by (rule anchor_reach.init [OF A0])
  have "anchor_reach ex_deploy ex_hash ledger_token 1 A W ex_history {}"
    using anchor_reach.anchor [OF 0 _ A] by (simp add: ex_history_def ex_record_def ex_env_def)
  moreover have "get_batch A W 5 1 = Ok ex_record"
    using anchor_batch_reads [of 1 A0 Map.empty "\<lambda>_. []" "{}" ex_env ex_deploy 5 ex_leaf 1 0 9 1 A W 5 1]
      anchor_reach_inv [OF 0] A by (simp add: anchor_batch_def ex_record_def ex_env_def)
  ultimately show thesis by (rule that)
qed

section \<open>Anchored batches\<close>

text \<open>C1: an anchored batch is durable. In every reachable state of the router and its storage shards,
  the records that anyone inserted with a shard's \<open>insert_migrated_batch\<close> included, reading an
  assigned batch id returns exactly the record that was anchored under it, as long as the cursor of
  the storage shard that owns the id has not been moved past it. Whatever id is read, a record that
  comes back is the one anchored under that id or one that was inserted under that very id into the
  owning shard past the router; the only other answer is \<open>BatchNotFound\<close>. In particular, while
  nothing has been inserted, ids that were never assigned and ids below the cursor read as
  \<open>BatchNotFound\<close>.\<close>

theorem anchored_batch_durable:
  assumes reach: "anchor_reach D H T R A W h J"
  shows "(1 \<le> k \<and> k \<le> length (h sid) \<and> shard_cursor A W sid k \<le> k \<longrightarrow>
      get_batch A W sid k = Ok (h sid ! (k - 1))) \<and>
    (\<forall>r. get_batch A W sid k = Ok r \<longrightarrow>
      1 \<le> k \<and> k \<le> length (h sid) \<and> r = h sid ! (k - 1) \<or>
      (\<exists>a. get_shard_address A sid ((k - 1) div 200) = Ok a \<and> (a, k, r) \<in> J)) \<and>
    (get_batch A W sid k = Err BatchNotFound \<or> (\<exists>r. get_batch A W sid k = Ok r)) \<and>
    (J = {} \<and> (k = 0 \<or> length (h sid) < k \<or> k < shard_cursor A W sid k) \<longrightarrow>
      get_batch A W sid k = Err BatchNotFound)"
proof -
  have inv: "stream_inv R A W h J" using anchor_reach_inv [OF reach] by blast
  note g = get_batch_stream [OF inv]
  have "get_batch A W sid k = Err BatchNotFound"
    if "J = {}" "k = 0 \<or> length (h sid) < k \<or> k < shard_cursor A W sid k"
    using g(2) [of sid k] g(3) [of sid k] g(4) [OF that(1), of k sid] that
    by (metis empty_iff leD not_one_le_zero)
  with g(1-3) show ?thesis by blast
qed

theorem anchored_batch_durable_witness:
  "\<exists>A W. anchor_reach ex_deploy ex_hash ledger_token 1 A W ex_history {} \<and>
     get_batch A W 5 1 = Ok ex_record \<and> get_batch A W 5 2 = Err BatchNotFound"
proof -
  obtain A W where r: "anchor_reach ex_deploy ex_hash ledger_token 1 A W ex_history {}"
    "get_batch A W 5 1 = Ok ex_record" by (rule ex_reach)
  with anchored_batch_durable [OF r(1), of 2 5] show ?thesis by (auto simp: ex_history_def)
qed

text \<open>C2: anchoring appends. A successful \<open>anchor_batch\<close> assigns the next id of its own stream, a read of
  that id then returns the submitted root, count and period stamped with the current ledger, every
  other id of every stream reads as before, and the root is the last one of the stream's ring
  buffer.\<close>

theorem anchor_batch_appends:
  assumes reach: "anchor_reach D H T R A W h J" and R: "current_contract_address E = R"
    and ok: "anchor_batch D E A W sid root n ps pe = Ok (k, A', W')"
  shows "k = length (h sid) + 1 \<and> n \<le> 1000 \<and> get_batch_count A' sid = Ok k \<and>
    get_batch A' W' sid k = Ok \<lparr>br_root = root, br_count = n, br_period_start = ps,
      br_period_end = pe, br_anchored_ledger = sequence E\<rparr> \<and>
    (\<forall>x j. (x, j) \<noteq> (sid, k) \<longrightarrow> get_batch A' W' x j = get_batch A W x j) \<and>
    last (get_root_buffer A' sid) = root"
proof -
  note ok' = ok [unfolded anchor_batch_def]
  have inv: "stream_inv R A W h J" "index_inv A h" using anchor_reach_inv [OF reach] by auto
  have reach': "anchor_reach D H T R A' W' (h(sid := h sid @ [anchored E root n ps pe])) J"
    by (rule anchor_reach.anchor [OF reach R ok])
  note inv' = anchor_reach_inv [OF reach']
  have "n \<le> 1000" using ok' by (rule anchor_batch_internal_Ok) (simp add: MAX_BATCH_SIZE_def)
  moreover have "get_batch_count A' sid = Ok k"
    using inv' anchor_batch_stream(1) [OF inv(1) R ok']
    by (auto simp: get_batch_count_def require_initialized_def stream_invD(1))
  moreover have "last (get_root_buffer A' sid) = root"
    using inv' by (simp add: index_inv_def recent_snoc)
  ultimately show ?thesis
    using anchor_batch_stream(1) [OF inv(1) R ok'] anchor_batch_reads [OF inv(1) R ok']
    by (simp add: anchored_def)
qed

theorem anchor_batch_appends_witness:
  "\<exists>A A' W'. anchor_initialize ex_env anchor_new 7 [] = Ok A \<and>
     anchor_batch ex_deploy ex_env A Map.empty 5 ex_leaf 1 0 9 = Ok (1, A', W') \<and>
     get_batch_count A' 5 = Ok 1 \<and> last (get_root_buffer A' 5) = ex_leaf"
proof -
  obtain A where A: "anchor_initialize ex_env anchor_new 7 [] = Ok A"
    by (simp add: anchor_initialize_def anchor_new_def)
  then obtain A' W' where A': "anchor_batch ex_deploy ex_env A Map.empty 5 ex_leaf 1 0 9 = Ok (1, A', W')"
    by (rule ex_anchor)
  have "anchor_reach ex_deploy ex_hash ledger_token 1 A Map.empty (\<lambda>_. []) {}"
    by (rule anchor_reach.init [OF A])
  from anchor_batch_appends [OF this _ A'] A A' show ?thesis by (auto simp: ex_env_def)
qed

text \<open>C3: pruning terminates and removes a bounded part of a prefix. In every reachable state in which
  the stream's next id still fits \<open>u64\<close>, the router's \<open>prune_batches\<close> ends without an error, whoever
  calls it. The cursor never moves back and never passes the last storage shard of the stream. Of the
  ids between the old and the new cursor exactly those that their storage shard's own cursor had not
  already passed are removed, everything else reads as before; no removed record was anchored at or
  after the bound, and at most 100 are removed. Where the cursor stops short of the stream's end it
  passed 100 ids or the record there is too young. A prune event is published exactly when the cursor
  moved, with the swept range. While nothing has been inserted past the router, the cursor stays at
  or below the next free id and every id it passed is unreadable afterwards.\<close>

theorem prune_batches_prefix:
  assumes reach: "anchor_reach D H T R A W h J" and R: "current_contract_address E = R"
    and "length (h sid) + 1 < 2 ^ 64"
  shows "\<exists>c c' A' W'. get_pruned_up_to A sid = Ok c \<and> get_pruned_up_to A' sid = Ok c' \<and>
    prune_batches E A W sid before = Some (Ok (c', A', W')) \<and>
    c \<le> c' \<and> c' \<le> (length (h sid) + 199) div 200 * 200 + 1 \<and>
    (\<forall>x k. get_batch A' W' x k =
       (if x = sid \<and> c \<le> k \<and> k < c' \<and> shard_cursor A W sid k \<le> k then Err BatchNotFound
        else get_batch A W x k)) \<and>
    (\<forall>k r. c \<le> k \<and> k < c' \<and> shard_cursor A W sid k \<le> k \<and> get_batch A W sid k = Ok r \<longrightarrow>
       br_anchored_ledger r < before) \<and>
    card {k \<in> {c..<c'}. shard_cursor A W sid k \<le> k \<and> get_batch A W sid k \<noteq> Err BatchNotFound} \<le> 100 \<and>
    (c' \<le> length (h sid) \<longrightarrow>
       100 \<le> c' - c \<or> (\<exists>r. get_batch A W sid c' = Ok r \<and> before \<le> br_anchored_ledger r)) \<and>
    an_events A' = an_events A @ (if c < c' then [PrunePayload (timestamp E) sid c (c' - 1)] else []) \<and>
    (J = {} \<longrightarrow> c' \<le> length (h sid) + 1 \<and>
       (\<forall>k. c \<le> k \<and> k < c' \<longrightarrow> get_batch A' W' sid k = Err BatchNotFound))"
proof -
  have inv: "stream_inv R A W h J" "an_admin A \<noteq> None" using anchor_reach_inv [OF reach] by auto
  have u: "in_u64 (length (h sid) + 1)" using assms(3) by (simp add: in_u64_def)
  let ?c = "pruned_cursor A sid"
  obtain c' p W' A' where p: "prune_batches E A W sid before = Some (Ok (c', A', W'))"
    "stream_inv R A' W' h J" "prune_effect A sid before ?c W c' W'" "pruned_cursor A' sid = c'"
    "c' \<le> length (h sid) \<Longrightarrow>
       p = 100 \<or> (\<exists>r. get_batch A W sid c' = Ok r \<and> before \<le> br_anchored_ledger r)"
    "p \<le> 100" "card (readable A W sid ?c c') \<le> p" "p \<le> c' - ?c" "get_batch A' = get_batch A"
    "an_events A' = an_events A @
       (if ?c < c' then [PrunePayload (timestamp E) sid ?c (c' - 1)] else [])"
    by (rule prune_batches_correct [OF inv(1) R u, where before = before]) (rule that)
  have "an_admin A' \<noteq> None" using prune_batches_index [OF p(1)] inv(2) by simp
  then have cur: "get_pruned_up_to A sid = Ok ?c" "get_pruned_up_to A' sid = Ok c'"
    using inv(2) p(4) by (auto simp: get_pruned_up_to_def require_initialized_def pruned_cursor_def)
  have "100 \<le> c' - ?c \<or> (\<exists>r. get_batch A W sid c' = Ok r \<and> before \<le> br_anchored_ledger r)"
    if "c' \<le> length (h sid)" using p(5) [OF that] p(8) by auto
  moreover have "card {k \<in> {?c..<c'}. shard_cursor A W sid k \<le> k \<and>
      get_batch A W sid k \<noteq> Err BatchNotFound} \<le> 100"
    using p(6,7) by (simp add: readable_def)
  moreover have "c' \<le> (length (h sid) + 199) div 200 * 200 + 1"
    using stream_invD(3) [OF p(2), of sid] p(4) by (simp add: chunk_end_def)
  moreover have eff: "get_batch A' W' x k =
       (if x = sid \<and> ?c \<le> k \<and> k < c' \<and> shard_cursor A W sid k \<le> k then Err BatchNotFound
        else get_batch A W x k)" for x k
    using p(3,9) by (simp add: prune_effect_def)
  moreover have "c' \<le> length (h sid) + 1" if "J = {}"
    using stream_invD(7) [OF p(2) that, of sid] p(4) by simp
  moreover have "get_batch A' W' sid k = Err BatchNotFound" if "J = {}" "?c \<le> k" "k < c'" for k
    using eff [of sid k] get_batch_stream(4) [OF inv(1) that(1), of k sid] that by auto
  ultimately show ?thesis
    using cur p(1,10) prune_effectD(1,4) [OF p(3)]
    by - (rule exI [of _ ?c], rule exI [of _ c'], rule exI [of _ A'], rule exI [of _ W'],
        intro conjI allI impI; (assumption | blast | simp only:))
qed

theorem prune_batches_prefix_witness:
  "\<exists>A W c A' W'. anchor_reach ex_deploy ex_hash ledger_token 1 A W ex_history {} \<and>
     prune_batches ex_env A W 5 11 = Some (Ok (c, A', W')) \<and> c \<le> 2"
proof -
  obtain A W where r: "anchor_reach ex_deploy ex_hash ledger_token 1 A W ex_history {}"
    by (rule ex_reach)
  have "current_contract_address ex_env = 1" "length (ex_history 5) = 1"
    by (simp_all add: ex_env_def ex_history_def)
  with prune_batches_prefix [OF r, of ex_env 5 11] obtain c A' W' where
    "prune_batches ex_env A W 5 11 = Some (Ok (c, A', W'))" "c \<le> 1 + 1" by fastforce
  with r show ?thesis by (metis one_add_one)
qed

text \<open>C4: the router's indexes describe the streams. In every reachable state the ring buffer of a
  stream holds the roots of its last 100 batches in order, \<open>get_shard_ids\<close> lists exactly the streams
  that have anchored, without repetition, batch counts equal the number of anchored batches, and
  \<open>get_shard_count\<close> is the number of storage shards that were deployed for the stream.\<close>

theorem router_indexes:
  assumes "anchor_reach D H T R A W h J"
  shows "get_root_buffer A sid = drop (length (h sid) - 100) (map br_root (h sid)) \<and>
    distinct (get_shard_ids A) \<and> set (get_shard_ids A) = {x. h x \<noteq> []} \<and>
    get_batch_count A sid = Ok (length (h sid)) \<and>
    (\<exists>n. get_shard_count A sid = Ok n \<and>
       (\<forall>i. i < n \<longleftrightarrow> (\<exists>a. get_shard_address A sid i = Ok a)))"
proof -
  have inv: "stream_inv R A W h J" "index_inv A h" "an_admin A \<noteq> None"
    using anchor_reach_inv [OF assms] by auto
  let ?n = "length (h sid)"
  have "i < (if ?n = 0 then 0 else (?n - 1) div 200 + 1) \<longleftrightarrow> i * 200 < ?n" for i
    by (cases "h sid") (auto simp: less_Suc_eq_le less_eq_div_iff_mult_less_eq)
  then have "\<exists>n. get_shard_count A sid = Ok n \<and>
       (\<forall>i. i < n \<longleftrightarrow> (\<exists>a. get_shard_address A sid i = Ok a))"
    using stream_invD(1,5) [OF inv(1), of sid] inv(3)
    by (intro exI [of _ "if ?n = 0 then 0 else (?n - 1) div 200 + 1"])
      (auto simp: get_shard_count_def require_initialized_def SHARD_CAPACITY_def Let_def
        get_shard_address_def ok_iff)
  with inv show ?thesis
    by (auto simp: index_inv_def recent_def get_batch_count_def require_initialized_def stream_invD(1))
qed

theorem router_indexes_witness:
  "\<exists>A W. anchor_reach ex_deploy ex_hash ledger_token 1 A W ex_history {} \<and>
     get_root_buffer A 5 = [ex_leaf] \<and> get_batch_count A 5 = Ok 1"
proof -
  obtain A W where r: "anchor_reach ex_deploy ex_hash ledger_token 1 A W ex_history {}"
    by (rule ex_reach)
  with router_indexes [OF r, of 5] show ?thesis
    by (auto simp: ex_history_def ex_record_def)
qed

text \<open>The same root is never anchored twice in a row. An otherwise acceptable \<open>anchor_batch\<close> whose
  root equals the root of the stream's latest readable batch is refused with \<open>DuplicateRoot\<close>; a
  batch above 1000 receipts is refused before anything else is read.\<close>

theorem anchor_batch_refusals:
  "(1000 < n \<longrightarrow> anchor_batch D E A W sid root n ps pe = Err BatchTooLarge) \<and>
   (n \<le> 1000 \<and> an_admin A = None \<longrightarrow> anchor_batch D E A W sid root n ps pe = Err NotInitialized) \<and>
   (n \<le> 1000 \<and> an_admin A = Some m \<and> \<not> authorized E m \<longrightarrow>
      anchor_batch D E A W sid root n ps pe = Trap) \<and>
   (n \<le> 1000 \<and> an_admin A = Some m \<and> authorized E m \<and> rate_limit_active (get_anchor_rate_limit A) \<and>
      rate_limit_admitted E A m (get_anchor_rate_limit A) = Err AnchorRateLimited \<longrightarrow>
      anchor_batch D E A W sid root n ps pe = Err AnchorRateLimited) \<and>
   (n \<le> 1000 \<and> an_admin A = Some m \<and> authorized E m \<and> \<not> rate_limit_active (get_anchor_rate_limit A) \<and>
      0 < batch_count_of A sid \<and> get_batch A W sid (batch_count_of A sid) = Ok r \<and> br_root r = root \<longrightarrow>
      anchor_batch D E A W sid root n ps pe = Err DuplicateRoot)"
  by (auto simp: anchor_batch_def anchor_batch_internal_def MAX_BATCH_SIZE_def require_auth_def
      check_no_duplicate_root_def Let_def)

theorem anchor_batch_refusals_witness:
  "anchor_batch ex_deploy ex_env anchor_new Map.empty 5 ex_leaf 1001 0 9 = Err BatchTooLarge"
  using anchor_batch_refusals [of 1001 ex_deploy ex_env anchor_new Map.empty 5 ex_leaf 0 9 7 ex_record]
  by simp

text \<open>C5: the token bucket bounds bursts. While a limit is configured, a run of successful anchors by the
  merchant, whatever the calls contain, is never longer than the tokens of the bucket it starts from
  plus one per full refill interval from that bucket's last refill to the last call. The bucket is
  the stored one, whatever limit it was filled under; a merchant without a stored bucket starts from
  a full one, so that the run is at most the burst capacity plus one per full interval between its
  first and last call; a stored bucket within the current capacity allows at most one anchor more
  than that. A stored bucket that holds more than a lowered capacity is bounded by its own tokens
  only.\<close>

theorem anchor_burst_bound:
  assumes run: "anchor_run D calls A W = Ok (A', W')" and m: "an_admin A = Some m"
    and cfg: "get_anchor_rate_limit A = cfg" "rate_limit_active cfg"
    and times: "sorted (map (timestamp \<circ> fst) calls)" "calls \<noteq> []"
  shows "length calls \<le> tokens (bucket_of A (fst (hd calls)) m cfg) +
      (timestamp (fst (last calls)) - last_refill (bucket_of A (fst (hd calls)) m cfg))
        div refill_interval_secs cfg \<and>
    (an_rate_limit_bucket A m = None \<longrightarrow> length calls \<le> burst_capacity cfg +
      (timestamp (fst (last calls)) - timestamp (fst (hd calls))) div refill_interval_secs cfg) \<and>
    (\<forall>b. an_rate_limit_bucket A m = Some b \<and> tokens b \<le> burst_capacity cfg \<longrightarrow>
      length calls \<le> burst_capacity cfg +
        (timestamp (fst (last calls)) - timestamp (fst (hd calls))) div refill_interval_secs cfg + 1)"
proof -
  let ?b = "bucket_of A (fst (hd calls)) m cfg" and ?ts = "map (timestamp \<circ> fst) calls"
  have run': "bucket_run cfg ?b ?ts" by (rule anchor_run_bucket_of [OF run m cfg times(2)])
  have ts: "last ?ts = timestamp (fst (last calls))" using times(2) by (simp add: last_map)
  have 1: "length calls \<le> tokens ?b +
      (timestamp (fst (last calls)) - last_refill ?b) div refill_interval_secs cfg"
    using bucket_run_bound [OF run' times(1)] times(2) ts by simp
  moreover have "length calls \<le> burst_capacity cfg +
      (timestamp (fst (last calls)) - timestamp (fst (hd calls))) div refill_interval_secs cfg"
    if "an_rate_limit_bucket A m = None"
    using 1 that by (simp add: bucket_of_def)
  moreover have "length calls \<le> burst_capacity cfg +
      (timestamp (fst (last calls)) - timestamp (fst (hd calls))) div refill_interval_secs cfg + 1"
    if "an_rate_limit_bucket A m = Some b" "tokens b \<le> burst_capacity cfg" for b
  proof -
    have "?ts = timestamp (fst (hd calls)) # tl ?ts" using times(2) by (cases calls) auto
    with bucket_run_capacity [of cfg b "timestamp (fst (hd calls))" "tl ?ts"] run' times(1) that cfg(2) ts
    show ?thesis by (simp add: bucket_of_def rate_limit_active_def)
  qed
  ultimately show ?thesis by blast
qed

definition ex_limited :: anchor where
  "ex_limited = anchor_new\<lparr>an_admin := Some 7, an_shard_wasm_hash := Some [],
     an_rate_limit_config := Some \<lparr>burst_capacity = 2, refill_interval_secs = 60\<rparr>\<rparr>"

theorem anchor_burst_bound_witness:
  "\<exists>A' W'. anchor_run ex_deploy [(ex_env, 5, ex_leaf, 1, 0, 9)] ex_limited Map.empty = Ok (A', W') \<and>
     length [(ex_env, 5, ex_leaf, 1, 0, 9)] \<le> 2 + (0 :: nat) div 60"
proof -
  obtain A' W' where run: "anchor_run ex_deploy [(ex_env, 5, ex_leaf, 1, 0, 9)] ex_limited Map.empty
      = Ok (A', W')"
    by (auto simp: ex_limited_def anchor_new_def anchor_publish_def ex_env_def ex_deploy_def
      anchor_batch_def anchor_batch_internal_def MAX_BATCH_SIZE_def require_auth_def Let_def
      get_anchor_rate_limit_def rate_limit_active_def batch_count_of_def check_no_duplicate_root_def
      u64_add_def u64_mul_def in_u64_def SHARD_CAPACITY_def get_or_create_shard_def
      shard_anchor_batch_def shard_constructor_def callee_env_def record_anchor_def load_stats_def
      rate_limit_admitted_def bucket_of_def refill_bucket_def saturating_sub_def)
  from anchor_burst_bound [OF run, of 7 "\<lparr>burst_capacity = 2, refill_interval_secs = 60\<rparr>"]
  show ?thesis
    using run by (auto simp: ex_limited_def anchor_new_def get_anchor_rate_limit_def
        rate_limit_active_def simp del: anchor_run.simps)
qed

section \<open>Receipts\<close>

text \<open>C6: every receipt of an anchored batch verifies while the batch is kept. Let an anchored batch, in
  any reachable state, have the batch root of a list of at most 1000 leaves. Each of these leaves has
  a proof of at most 10 hashes that \<open>verify_receipt\<close> accepts as long as the cursor of the owning
  storage shard is not past the batch, and that \<open>verify_receipt_by_root\<close> accepts as long as the batch
  is among the last 100 of its stream, pruned or not. With the root out of the ring buffer
  \<open>verify_receipt_by_root\<close> answers \<open>RootNotFound\<close>, and once the batch cannot be read \<open>verify_receipt\<close>
  answers \<open>BatchNotFound\<close>.\<close>

theorem receipts_verify:
  assumes reach: "anchor_reach D H T R A W h J" and k: "1 \<le> k" "k \<le> length (h sid)"
    and root: "br_root (h sid ! (k - 1)) = batch_root H xs"
    and xs: "xs \<noteq> []" "length xs \<le> 1000" "leaf \<in> set xs"
  shows "\<exists>p. length p \<le> 10 \<and>
    (shard_cursor A W sid k \<le> k \<longrightarrow> verify_receipt H A W sid k leaf p = Ok True) \<and>
    (length (h sid) < k + 100 \<longrightarrow>
       verify_receipt_by_root H A sid (batch_root H xs) leaf p = Ok True) \<and>
    (batch_root H xs \<notin> set (get_root_buffer A sid) \<longrightarrow>
       verify_receipt_by_root H A sid (batch_root H xs) leaf p = Err RootNotFound) \<and>
    (get_batch A W sid k = Err BatchNotFound \<longrightarrow>
       verify_receipt H A W sid k leaf p = Err BatchNotFound)"
proof -
  have inv: "stream_inv R A W h J" "index_inv A h" "an_admin A \<noteq> None"
    using anchor_reach_inv [OF reach] by auto
  obtain p where p: "length p \<le> 10" "merkle_verify H (batch_root H xs) leaf p"
    by (rule batch_leaf_proof [OF xs])
  have "verify_receipt H A W sid k leaf p = Ok True" if "shard_cursor A W sid k \<le> k"
    using verify_receipt_of_batch [OF get_batch_stream(1) [OF inv(1) k that] p(1)] p(2) root by simp
  moreover have "batch_root H xs \<in> set (get_root_buffer A sid)" if "length (h sid) < k + 100"
    using recent_member [of k "map br_root (h sid)" 100] k root inv(2) that by (simp add: index_inv_def)
  moreover have "verify_receipt_by_root H A sid (batch_root H xs) leaf p =
      (if batch_root H xs \<in> set (get_root_buffer A sid) then Ok True else Err RootNotFound)"
    using inv(3) p by (auto simp: verify_receipt_by_root_def MAX_PROOF_LEN_def
        require_initialized_def list_ex_iff Let_def)
  moreover have "verify_receipt H A W sid k leaf p = Err BatchNotFound"
    if "get_batch A W sid k = Err BatchNotFound"
    using verify_receipt_missing [OF inv(1) that p(1)] .
  ultimately show ?thesis using p(1) by auto
qed

theorem receipts_verify_witness:
  "\<exists>A W p. anchor_reach ex_deploy ex_hash ledger_token 1 A W ex_history {} \<and>
     verify_receipt_by_root ex_hash A 5 ex_leaf ex_leaf p = Ok True"
proof -
  obtain A W where r: "anchor_reach ex_deploy ex_hash ledger_token 1 A W ex_history {}"
    "get_batch A W 5 1 = Ok ex_record" by (rule ex_reach)
  with receipts_verify [OF r(1), of 1 5 "[ex_leaf]" ex_leaf] show ?thesis
    by (auto simp: ex_record_def ex_history_def)
qed

text \<open>C7: a forged receipt costs a hash collision. When \<open>verify_receipt\<close> accepts a proof as long as the
  tree of the anchored leaves is high for a 32-byte value that is not one of these leaves, the
  inputs hashed by the builder and by the verifier contain two different strings with the same
  digest.\<close>

theorem forged_receipt_collision:
  assumes "\<And>x. length (H x) = 32" and "get_batch A W sid k = Ok r" "br_root r = batch_root H xs"
    and "xs \<noteq> []" "\<And>x. x \<in> set xs \<Longrightarrow> length x = 32"
    and "verify_receipt H A W sid k leaf p = Ok True" "length leaf = 32"
    and "\<And>x. x \<in> set p \<Longrightarrow> length x = 32" "length p = tree_height (batch_tree xs)"
  shows "leaf \<in> set xs \<or> collision H (tree_inputs H (batch_tree xs)) (fold_inputs H leaf p)"
proof -
  have "length p \<le> 10"
    using assms(6) by (rule contrapos_pp)
      (auto simp: verify_receipt_def shard_verify_receipt_def SHARD_MAX_PROOF_LEN_def ok_iff
        unwrap_shard_result_def split: result.splits)
  then have "fold_proof H leaf p = mroot H (batch_tree xs)"
    using assms(6) verify_receipt_of_batch [OF assms(2), of p H leaf] assms(3)
    by (simp add: merkle_verify_def mroot_batch_tree)
  moreover have "perfect (length p) (batch_tree xs)"
    using batch_tree_perfect [OF assms(4)] assms(9) by simp
  ultimately show ?thesis
    using forged_proof_collision [OF assms(1), where p = p and t = "batch_tree xs" and l = leaf] assms(5,7,8)
      batch_tree_leaves [OF assms(4)] by auto
qed

theorem forged_receipt_collision_witness:
  "\<exists>A W. verify_receipt ex_hash A W 5 1 ex_leaf [] = Ok True \<and>
     (ex_leaf \<in> set [ex_leaf] \<or>
      collision ex_hash (tree_inputs ex_hash (batch_tree [ex_leaf])) (fold_inputs ex_hash ex_leaf []))"
proof -
  obtain A W where r: "anchor_reach ex_deploy ex_hash ledger_token 1 A W ex_history {}"
    "get_batch A W 5 1 = Ok ex_record" by (rule ex_reach)
  have "verify_receipt ex_hash A W 5 1 ex_leaf [] = Ok True"
    using verify_receipt_of_batch [OF r(2), of "[]" ex_hash ex_leaf]
    by (simp add: merkle_verify_def ex_record_def)
  with forged_receipt_collision [OF _ r(2), of ex_hash "[ex_leaf]" ex_leaf "[]"] show ?thesis
    by (auto simp: ex_hash_def ex_record_def ex_leaf_def batch_tree_def)
qed

text \<open>C8: the incremental tree keeps the batch root. Inserting any list of 32-byte leaves one by one
  through \<open>insert_receipt_leaf\<close> succeeds up to the capacity of \<open>2 ^ 32\<close> leaves, and the stored root
  is then the root the off-chain batch builder computes for the whole list.\<close>

theorem incremental_root_is_batch_root:
  assumes "\<And>x. length (H x) = 32" "an_admin A = Some m" "authorized E m"
    and "an_incremental_tree A = None" "xs \<noteq> []" "length xs \<le> 2 ^ 32" "\<And>x. x \<in> set xs \<Longrightarrow> length x = 32"
  shows "\<exists>A'. insert_leaves H E A xs = Ok A' \<and> get_incremental_root A' = Ok (batch_root H xs) \<and>
    get_incremental_leaf_count A' = length xs"
proof -
  have "represents H (unwrap_or (an_incremental_tree A) tree_empty) []"
    using assms(4) by (simp add: represents_empty)
  from insert_leaves_represents [OF assms(1-3) this, of xs] assms(5-7) obtain A' where
    "insert_leaves H E A xs = Ok A'" "an_incremental_tree A' \<noteq> None"
    "represents H (unwrap_or (an_incremental_tree A') tree_empty) xs" by auto
  then show ?thesis
    by (auto simp: get_incremental_root_def get_incremental_leaf_count_def represents_def)
qed

theorem incremental_root_is_batch_root_witness:
  "\<exists>A'. insert_leaves ex_hash ex_env (anchor_new\<lparr>an_admin := Some 7\<rparr>) [ex_leaf, ex_leaf, ex_leaf] = Ok A' \<and>
     get_incremental_leaf_count A' = 3"
  using incremental_root_is_batch_root [of ex_hash "anchor_new\<lparr>an_admin := Some 7\<rparr>" 7 ex_env
      "[ex_leaf, ex_leaf, ex_leaf]"]
  by (auto simp: ex_hash_def ex_env_def anchor_new_def ex_leaf_def simp del: insert_leaves.simps)

text \<open>Storage shards never share a deployment address by construction of their salts: distinct pairs
  of logical shard id and storage index have distinct 32-byte salts.\<close>

theorem shard_salts_distinct:
  assumes "in_u64 a" "in_u64 b" "in_u64 c" "in_u64 d"
  shows "(shard_salt a b = shard_salt c d) = ((a, b) = (c, d)) \<and> length (shard_salt a b) = 32"
  using shard_salt_inject [OF assms] by (simp add: shard_salt_def)

theorem shard_salts_distinct_witness: "shard_salt 1 0 \<noteq> shard_salt 0 1"
  using shard_salts_distinct [of 1 0 0 1] by (simp add: in_u64_def)

section \<open>Storage shards\<close>

definition ex_shard :: shard where
  "ex_shard = shard_constructor 1 1 201"

definition ex_shard1 :: shard where
  "ex_shard1 = (store_stats ex_shard \<lparr>ss_live_batches = 1, ss_live_leaves = 1, ss_total_leaves = 1,
     ss_high_water = 2, ss_max_batch_count = 1\<rparr>)\<lparr>sh_batch := [1 \<mapsto> ex_record]\<rparr>"

definition ex_late :: env where
  "ex_late = \<lparr>sequence = 4000000, timestamp = 0, current_contract_address = 100,
     authorized = (\<lambda>a. a = 1 \<or> a = 9)\<rparr>"

lemma ex_shard_inv: "shard_inv ex_shard"
  by (simp add: ex_shard_def shard_constructor_inv)

lemma ex_shard1_inv: "shard_inv ex_shard1"
  by (auto simp: ex_shard1_def ex_shard_def shard_inv_def shard_constructor_def stats_ok_def
      leaves_of_def ex_record_def load_stats_def store_stats_def)

lemma ex_shard1_anchored: "shard_anchor_batch (callee_env ex_env 100) ex_shard 1 ex_leaf 1 0 9 = Ok ex_shard1"
  by (simp add: shard_anchor_batch_def ex_shard_def ex_shard1_def shard_constructor_def ex_env_def
      callee_env_def require_auth_def record_anchor_def load_stats_def store_stats_def Let_def
      ex_record_def anchored_def u64_add_def in_u64_def)

text \<open>The health counters of a storage shard stay exact. Every entry point that changes a shard keeps
  the invariant that the counters are the number of stored records, the sum of their leaf counts and
  bounds on their ids and sizes, and that records and the cursor stay inside the assigned range.\<close>

theorem shard_operations_keep_invariant:
  assumes "shard_inv s"
  shows "(shard_anchor_batch E s k root n ps pe = Ok s' \<longrightarrow> shard_inv s') \<and>
    (shard_prune_batches E s before m hw = Ok (cn, s') \<longrightarrow> shard_inv s') \<and>
    (prune_expired_receipts E s pruner m = Ok (cnt, s') \<longrightarrow> shard_inv s') \<and>
    (claim_prune_bounty T E w s tok a = Ok (x, w', s') \<longrightarrow> shard_inv s') \<and>
    (insert_migrated_batch E s src k r = Ok (r', s') \<longrightarrow> shard_inv s') \<and>
    (decommission E s = Ok s' \<longrightarrow> shard_inv s')"
proof (intro conjI impI)
  assume "shard_prune_batches E s before m hw = Ok (cn, s')"
  then show "shard_inv s'" using assms
    by (cases cn) (auto elim: shard_prune_batches_effect)
next
  assume "prune_expired_receipts E s pruner m = Ok (cnt, s')"
  then show "shard_inv s'" using assms by (auto elim: prune_expired_receipts_effect)
next
  show "shard_inv s'" if "shard_anchor_batch E s k root n ps pe = Ok s'"
    using assms that by (rule shard_anchor_batch_inv(1))
  show "shard_inv s'" if "claim_prune_bounty T E w s tok a = Ok (x, w', s')"
    using that assms by (rule claim_prune_bounty_inv)
  show "shard_inv s'" if "insert_migrated_batch E s src k r = Ok (r', s')"
    using that assms by (rule insert_migrated_batch_Ok(8))
  show "shard_inv s'" if "decommission E s = Ok s'"
    using that assms by (rule decommission_inv)
qed

theorem shard_operations_keep_invariant_witness: "shard_inv ex_shard \<and> shard_inv ex_shard1"
  using conjunct1 [OF shard_operations_keep_invariant
      [OF ex_shard_inv, of "callee_env ex_env 100" 1 ex_leaf 1 0 9 ex_shard1]]
    ex_shard1_anchored ex_shard_inv by simp

text \<open>Eviction for a bounty touches only expired records. A successful \<open>prune_expired_receipts\<close> removes
  exactly the records between the old and the new cursor, each of them outside the retention
  window, never more than requested, credits the caller 100 per removed record and nobody else, and
  records the sweep in the event log.\<close>

theorem prune_expired_receipts_exact:
  assumes "prune_expired_receipts E s pruner m = Ok (n, s')"
  shows "authorized E pruner \<and> (\<exists>c c'. sh_pruned_up_to s = Some c \<and> sh_pruned_up_to s' = Some c' \<and>
    c \<le> c' \<and> n = c' - c \<and> n \<le> m \<and>
    (\<forall>k. sh_batch s' k = (if c \<le> k \<and> k < c' then None else sh_batch s k)) \<and>
    (\<forall>k. c \<le> k \<and> k < c' \<longrightarrow> (\<exists>r. sh_batch s k = Some r \<and> 3110400 \<le> sequence E - br_anchored_ledger r)) \<and>
    sh_events s' = sh_events s @ [ReceiptsPrunedEvent pruner n c']) \<and>
    unwrap_or (sh_prune_bounty s' pruner) 0 = unwrap_or (sh_prune_bounty s pruner) 0 + 100 * int n \<and>
    (\<forall>a. a \<noteq> pruner \<longrightarrow> sh_prune_bounty s' a = sh_prune_bounty s a)"
  using assms
  by (rule prune_expired_receipts_effect)
    (auto simp: PRUNE_BOUNTY_PER_BATCH_def RETENTION_LEDGERS_def)

theorem prune_expired_receipts_exact_witness:
  "\<exists>s'. prune_expired_receipts ex_late ex_shard1 9 5 = Ok (1, s') \<and> sh_batch s' 1 = None \<and>
     unwrap_or (sh_prune_bounty s' 9) 0 = 100"
proof -
  obtain s' where ok: "prune_expired_receipts ex_late ex_shard1 9 5 = Ok (1, s')"
    by (simp add: prune_expired_receipts_def ex_late_def ex_shard1_def ex_shard_def shard_constructor_def
        shard_is_active_def require_auth_def Let_def store_stats_def expire_loop.simps sweep_record_def
        ex_record_def anchored_def ex_env_def saturating_sub_def RETENTION_LEDGERS_def i128_op_def
        in_i128_def PRUNE_BOUNTY_PER_BATCH_def record_removals_def)
  have "sh_pruned_up_to ex_shard1 = Some 1" "sh_prune_bounty ex_shard1 9 = None"
    by (simp_all add: ex_shard1_def ex_shard_def shard_constructor_def store_stats_def)
  with prune_expired_receipts_exact [OF ok] ok show ?thesis by auto
qed

text \<open>Consolidation loses nothing. A successful consolidation of a non-empty list of ids was
  authorized by the source's router, moves exactly these records unchanged from the source to the
  destination, changes no other record of any shard, keeps every shard's invariant, and leaves the
  source active exactly when it still holds a record.\<close>

theorem consolidate_exact:
  assumes "consolidate E W dst sid did ids = Ok (n, W')" "world_inv W" "ids \<noteq> []"
  shows "n = length ids \<and> distinct ids \<and> current_contract_address E \<noteq> dst \<and> world_inv W' \<and>
    (\<exists>s r. W (current_contract_address E) = Some s \<and> sh_router s = Some r \<and> authorized E r) \<and>
    (\<forall>k\<in>set ids. record_at W (current_contract_address E) k \<noteq> None \<and> record_at W dst k = None \<and>
       record_at W' (current_contract_address E) k = None \<and>
       record_at W' dst k = record_at W (current_contract_address E) k) \<and>
    (\<forall>a k. (a \<noteq> current_contract_address E \<and> a \<noteq> dst) \<or> k \<notin> set ids \<longrightarrow>
       record_at W' a k = record_at W a k) \<and>
    (\<exists>s'. W' (current_contract_address E) = Some s' \<and>
       shard_is_active s' = (\<exists>k. record_at W' (current_contract_address E) k \<noteq> None))"
  using assms by (rule consolidate_effect) (simp add: moved_def)

definition ex_shards :: shards where
  "ex_shards = [100 \<mapsto> ex_shard1, 101 \<mapsto> ex_shard]"

theorem consolidate_exact_witness:
  "\<exists>W'. consolidate ex_late ex_shards 101 5 6 [1] = Ok (1, W') \<and> record_at W' 101 1 = Some ex_record \<and>
     record_at W' 100 1 = None"
proof -
  have inv: "world_inv ex_shards"
    using ex_shard_inv ex_shard1_inv by (auto simp: world_inv_def ex_shards_def split: if_splits)
  obtain W' where ok: "consolidate ex_late ex_shards 101 5 6 [1] = Ok (1, W')"
    by (simp add: consolidate_def ex_late_def ex_shards_def ex_shard1_def ex_shard_def
        shard_constructor_def require_active_and_router_def shard_is_active_def require_auth_def Let_def
        insert_migrated_batch_def record_migration_def load_stats_def store_stats_def callee_env_def
        u64_add_def in_u64_def ex_record_def)
  from consolidate_exact [OF ok inv] have "record_at W' 101 1 = record_at ex_shards 100 1"
    "record_at W' 100 1 = None" by (simp_all add: ex_late_def)
  with ok show ?thesis
    by (auto simp: record_at_def ex_shards_def ex_shard1_def)
qed

text \<open>Diagnostics report what is stored. For a shard whose records lie at or above the cursor and
  hold at most 1000 receipts each, \<open>get_shard_diagnostics\<close> succeeds, reports the exact number of
  records and of leaves and declares the shard consistent; and where the records from the cursor up
  to the high-water mark are gapless and anchored in id order, the binary search over the retention
  window counts exactly the retained records.\<close>

theorem shard_diagnostics_exact:
  assumes "shard_inv s" "sh_pruned_up_to s = Some c" "\<And>k. sh_batch s k \<noteq> None \<Longrightarrow> c \<le> k"
    and "ss_max_batch_count (load_stats s) \<le> 1000"
    and "\<And>i j r. c \<le> i \<Longrightarrow> i \<le> j \<Longrightarrow> j < hw \<Longrightarrow> sh_batch s i = Some r \<Longrightarrow>
      \<exists>r'. sh_batch s j = Some r' \<and> br_anchored_ledger r \<le> br_anchored_ledger r'" and "c \<le> hw"
  shows "(\<exists>d. get_shard_diagnostics E s = Ok d \<and> sd_consistent d \<and>
      sd_live_batches d = card (dom (sh_batch s)) \<and> sd_live_leaves d = leaves_of (sh_batch s)) \<and>
    count_retained E s c hw = card {k \<in> {c..<hw}. \<exists>r. sh_batch s k = Some r \<and>
      sequence E - br_anchored_ledger r < 3110400}"
proof
  show "\<exists>d. get_shard_diagnostics E s = Ok d \<and> sd_consistent d \<and>
      sd_live_batches d = card (dom (sh_batch s)) \<and> sd_live_leaves d = leaves_of (sh_batch s)"
    using assms(1-4) by (rule diagnostics_consistent) blast+
  have "is_retained E s k \<longleftrightarrow> (\<exists>r. sh_batch s k = Some r \<and> sequence E - br_anchored_ledger r < 3110400)"
    for k by (auto simp: is_retained_def saturating_sub_def RETENTION_LEDGERS_def split: option.splits)
  with count_retained_card [where s = s and c = c and h = hw and E = E] assms(5,6)
  show "count_retained E s c hw = card {k \<in> {c..<hw}. \<exists>r. sh_batch s k = Some r \<and>
      sequence E - br_anchored_ledger r < 3110400}" by simp
qed

theorem shard_diagnostics_exact_witness:
  "\<exists>d. get_shard_diagnostics ex_env ex_shard1 = Ok d \<and> sd_consistent d \<and> sd_live_leaves d = 1"
proof -
  have pre: "sh_pruned_up_to ex_shard1 = Some 1" "\<And>k. sh_batch ex_shard1 k \<noteq> None \<Longrightarrow> 1 \<le> k"
    "ss_max_batch_count (load_stats ex_shard1) \<le> 1000"
    by (auto simp: ex_shard1_def ex_shard_def shard_constructor_def store_stats_def load_stats_def
        split: if_splits)
  have gap: "\<exists>r'. sh_batch ex_shard1 j = Some r' \<and> br_anchored_ledger r \<le> br_anchored_ledger r'"
    if "1 \<le> i" "i \<le> j" "j < 2" "sh_batch ex_shard1 i = Some r" for i j r
    using that by (auto simp: ex_shard1_def le_Suc_eq numeral_2_eq_2 split: if_splits)
  have "leaves_of (sh_batch ex_shard1) = 1"
    by (simp add: ex_shard1_def leaves_of_def ex_record_def)
  moreover have "\<exists>d. get_shard_diagnostics ex_env ex_shard1 = Ok d \<and> sd_consistent d \<and>
      sd_live_batches d = card (dom (sh_batch ex_shard1)) \<and> sd_live_leaves d = leaves_of (sh_batch ex_shard1)"
    by (rule conjunct1 [OF shard_diagnostics_exact [OF ex_shard1_inv pre, where hw = 2]])
      (use gap in auto)
  ultimately show ?thesis by auto
qed

text \<open>A bounty is paid once. Under the documented behaviour of the token, a successful claim was
  authorized by the claimer, pays at most what was accrued and at most what the shard holds, moves
  exactly that amount from the shard to the claimer and clears the accrual.\<close>

theorem prune_bounty_paid_once:
  assumes "sep41 T" "claim_prune_bounty T E w s tok a = Ok (x, w', s')"
    "0 \<le> tok_balance T w tok (current_contract_address E)"
    "0 \<le> unwrap_or (sh_prune_bounty s a) 0" "a \<noteq> current_contract_address E"
  shows "authorized E a \<and> 0 \<le> x \<and> x \<le> unwrap_or (sh_prune_bounty s a) 0 \<and>
    x \<le> tok_balance T w tok (current_contract_address E) \<and>
    sh_prune_bounty s' a = Some 0 \<and> sh_batch s' = sh_batch s \<and>
    tok_balance T w' tok a = tok_balance T w tok a + x \<and>
    tok_balance T w' tok (current_contract_address E) =
      tok_balance T w tok (current_contract_address E) - x"
  using claim_prune_bounty_effect [OF assms] by simp

theorem prune_bounty_paid_once_witness:
  "\<exists>w' s'. claim_prune_bounty ledger_token ex_late (\<lambda>t a. if a = 100 then 70 else 0)
     (ex_shard\<lparr>sh_prune_bounty := [9 \<mapsto> 100]\<rparr>) 3 9 = Ok (70, w', s') \<and>
     tok_balance ledger_token w' 3 9 = 70 \<and> sh_prune_bounty s' 9 = Some 0"
proof -
  let ?w = "\<lambda>t a. if a = (100 :: nat) then 70 else (0 :: int)"
  obtain w' s' where ok: "claim_prune_bounty ledger_token ex_late ?w
     (ex_shard\<lparr>sh_prune_bounty := [9 \<mapsto> 100]\<rparr>) 3 9 = Ok (70, w', s')"
    by (simp add: claim_prune_bounty_def ex_late_def require_auth_def Let_def ledger_token_def
        ledger_transfer_def)
  with prune_bounty_paid_once [OF sep41_ledger_token ok] show ?thesis
    by (auto simp: ex_late_def ledger_token_def)
qed

text \<open>A storage shard accepts a record from any caller that authorizes itself. \<open>insert_migrated_batch\<close>
  only asks the address it is given as the source to authorize, so for an active shard any address
  can store an arbitrary record under any absent id of the range, whether that id was pruned or was
  never anchored; a read then returns the injected record.\<close>

theorem migrated_batch_from_anyone:
  assumes "shard_is_active s" "sh_start_batch_id s = Some a" "sh_end_batch_id s = Some b"
    and "a \<le> k" "k < b" "sh_batch s k = None" "authorized E anyone"
    and "ss_live_batches (load_stats s) + 1 < 2 ^ 64" "ss_live_leaves (load_stats s) + br_count r < 2 ^ 64"
      "ss_total_leaves (load_stats s) + br_count r < 2 ^ 64" "k + 1 < 2 ^ 64"
  shows "\<exists>s'. insert_migrated_batch E s anyone k r = Ok (r, s') \<and> shard_get_batch s' k = Ok r"
  using assms
  by (auto simp: insert_migrated_batch_def require_auth_def record_migration_def Let_def u64_add_def
      in_u64_def shard_get_batch_def store_stats_def)

theorem migrated_batch_from_anyone_witness:
  "\<exists>s'. insert_migrated_batch ex_late ex_shard 9 150 ex_record = Ok (ex_record, s') \<and>
     shard_get_batch s' 150 = Ok ex_record"
  by (rule migrated_batch_from_anyone [of _ 1 201])
    (simp_all add: ex_shard_def shard_constructor_def shard_is_active_def ex_late_def load_stats_def
      ex_record_def)

text \<open>A lowered limit does not bind a stored bucket. After the burst capacity has been reduced, a
  bucket that was filled under the old configuration is neither cut to the new capacity nor
  otherwise changed until a refill interval has passed, so an identity can still submit as many
  anchors back to back as the old bucket held.\<close>

theorem stale_bucket_outlives_limit:
  assumes "t - last_refill b < refill_interval_secs cfg" "n \<le> tokens b"
  shows "bucket_run cfg b (replicate n t)"
  using assms
proof (induction n arbitrary: b)
  case (Suc n)
  then have "refill_bucket b t cfg = b"
    by (simp add: refill_bucket_def saturating_sub_def Let_def)
  with Suc.IH [of "b\<lparr>tokens := saturating_sub (tokens b) 1\<rparr>"] Suc.prems show ?case
    by (simp add: Let_def saturating_sub_def)
qed simp

theorem stale_bucket_outlives_limit_witness:
  "bucket_run \<lparr>burst_capacity = 1, refill_interval_secs = 60\<rparr> \<lparr>tokens = 900, last_refill = 1000\<rparr>
     (replicate 900 1001)"
  by (rule stale_bucket_outlives_limit) simp_all

end
