(* ===== verification/Invocation.thy ===== *)
theory Invocation
  imports Prelude
begin

text \<open>
  Invocations that thread a contract's state: a step reads and writes the state and ends in an
  outcome, and the writes of a step that failed are still there for a caller inside the same
  contract that goes on after an error. Only at the boundary of the invocation does the host discard
  them (\<open>invoke\<close>). The combinators are used by contracts in which one function calls another and
  observes its error.
\<close>

type_synonym ('e, 's, 'a) action = "'s \<Rightarrow> ('e, 'a) result \<times> 's"

type_synonym ('s, 'a) act = "(error, 's, 'a) action"

definition aret :: "'a \<Rightarrow> ('e, 's, 'a) action" where
  "aret x = (\<lambda>s. (Ok x, s))"

definition abind :: "('e, 's, 'a) action \<Rightarrow> ('a \<Rightarrow> ('e, 's, 'b) action) \<Rightarrow> ('e, 's, 'b) action" where
  "abind m f = (\<lambda>s. case m s of
     (Ok x, s') \<Rightarrow> f x s' | (Err e, s') \<Rightarrow> (Err e, s') | (Trap, s') \<Rightarrow> (Trap, s'))"

definition aseq :: "('e, 's, 'a) action \<Rightarrow> ('e, 's, 'b) action \<Rightarrow> ('e, 's, 'b) action" where
  "aseq m n = abind m (\<lambda>_. n)"

definition alift :: "('e, 'a) result \<Rightarrow> ('e, 's, 'a) action" where
  "alift r = (\<lambda>s. (r, s))"

definition aread :: "('s \<Rightarrow> 'a) \<Rightarrow> ('e, 's, 'a) action" where
  "aread f = (\<lambda>s. (Ok (f s), s))"

definition amodify :: "('s \<Rightarrow> 's) \<Rightarrow> ('e, 's, unit) action" where
  "amodify f = (\<lambda>s. (Ok (), f s))"

definition arefuse :: "bool \<Rightarrow> 'e \<Rightarrow> ('e, 's, unit) action" where
  "arefuse b e = (\<lambda>s. (if b then Err e else Ok (), s))"

text \<open>\<open>result.is_ok()\<close>: a returned error is a value here, a panic still aborts.\<close>

definition ais_ok :: "('e, 's, 'a) action \<Rightarrow> ('e, 's, bool) action" where
  "ais_ok m = (\<lambda>s. case m s of
     (Ok x, s') \<Rightarrow> (Ok True, s') | (Err e, s') \<Rightarrow> (Ok False, s') | (Trap, s') \<Rightarrow> (Trap, s'))"

primrec afor :: "('a \<Rightarrow> ('e, 's, unit) action) \<Rightarrow> 'a list \<Rightarrow> ('e, 's, unit) action" where
  "afor f [] = aret ()"
| "afor f (x # xs) = aseq (f x) (afor f xs)"

primrec amap :: "('a \<Rightarrow> ('e, 's, 'b) action) \<Rightarrow> 'a list \<Rightarrow> ('e, 's, 'b list) action" where
  "amap f [] = aret []"
| "amap f (x # xs) = abind (f x) (\<lambda>y. abind (amap f xs) (\<lambda>ys. aret (y # ys)))"

text \<open>The boundary of an invocation.\<close>

definition invoke :: "('e, 's, 'a) action \<Rightarrow> 's \<Rightarrow> ('e, 'a \<times> 's) result" where
  "invoke m s = (case m s of (Ok x, s') \<Rightarrow> Ok (x, s') | (Err e, s') \<Rightarrow> Err e | (Trap, s') \<Rightarrow> Trap)"

section \<open>When a step succeeds\<close>

lemma aret_iff [ok_iff]: "aret x s = (r, s') \<longleftrightarrow> r = Ok x \<and> s' = s"
  by (auto simp: aret_def)

lemma abind_Ok_iff [ok_iff]:
  "abind m f s = (Ok y, s'') \<longleftrightarrow> (\<exists>x s'. m s = (Ok x, s') \<and> f x s' = (Ok y, s''))"
  by (auto simp: abind_def split: prod.splits result.splits)

lemma aseq_Ok_iff [ok_iff]:
  "aseq m n s = (Ok y, s'') \<longleftrightarrow> (\<exists>x s'. m s = (Ok x, s') \<and> n s' = (Ok y, s''))"
  by (simp add: aseq_def abind_Ok_iff)

lemma alift_Ok_iff [ok_iff]: "alift r s = (Ok x, s') \<longleftrightarrow> r = Ok x \<and> s' = s"
  by (auto simp: alift_def)

lemma aread_iff [ok_iff]: "aread f s = (r, s') \<longleftrightarrow> r = Ok (f s) \<and> s' = s"
  by (auto simp: aread_def)

lemma amodify_iff [ok_iff]: "amodify f s = (r, s') \<longleftrightarrow> r = Ok () \<and> s' = f s"
  by (auto simp: amodify_def)

lemma arefuse_Ok_iff [ok_iff]: "arefuse b e s = (Ok u, s') \<longleftrightarrow> \<not> b \<and> s' = s"
  by (auto simp: arefuse_def)

lemma if_Err_Ok_iff [ok_iff]: "(if b then Err e else Ok x) = Ok y \<longleftrightarrow> \<not> b \<and> x = y"
  by simp

lemma invoke_Ok_iff [ok_iff]: "invoke m s = Ok (x, s') \<longleftrightarrow> m s = (Ok x, s')"
  by (auto simp: invoke_def split: prod.splits result.splits)

lemma ais_ok_Ok_iff [ok_iff]:
  "ais_ok m s = (Ok b, s') \<longleftrightarrow>
     (b \<and> (\<exists>x. m s = (Ok x, s'))) \<or> (\<not> b \<and> (\<exists>e. m s = (Err e, s')))"
  by (auto simp: ais_ok_def split: prod.splits result.splits)

section \<open>When a step returns an error\<close>

named_theorems err_iff "when a step returns an error"

lemma act_Err_iff [err_iff]:
  "abind m f s = (Err e, s'') \<longleftrightarrow> m s = (Err e, s'') \<or> (\<exists>x s'. m s = (Ok x, s') \<and> f x s' = (Err e, s''))"
  "aseq m n s = (Err e, s'') \<longleftrightarrow> m s = (Err e, s'') \<or> (\<exists>x s'. m s = (Ok x, s') \<and> n s' = (Err e, s''))"
  "alift r s = (Err e, s'') \<longleftrightarrow> r = Err e \<and> s'' = s"
  "arefuse b e' s = (Err e, s'') \<longleftrightarrow> b \<and> e' = e \<and> s'' = s"
  by (auto simp: aseq_def abind_def alift_def arefuse_def split: prod.splits result.splits)

lemma outcome_Err_iff [err_iff]:
  "obind m f = Err e \<longleftrightarrow> m = Err e \<or> (\<exists>x. m = Ok x \<and> f x = Err e)"
  "unwrap o' \<noteq> Err e" "ok_or o' e' = Err e \<longleftrightarrow> o' = None \<and> e' = e" "require_auth E a \<noteq> Err e"
  "u64_add x y \<noteq> Err e" "i128_op z \<noteq> Err e" "(if b then Err e' else Ok u) = Err e \<longleftrightarrow> b \<and> e' = e"
  by (cases m; auto simp: unwrap_def ok_or_def require_auth_def u64_add_def i128_op_def split: option.splits)+

section \<open>Stepping through a concrete run\<close>

lemma act_simps [simp]:
  "aret x s = (Ok x, s)"
  "alift r s = (r, s)"
  "aread f s = (Ok (f s), s)"
  "amodify g s = (Ok (), g s)"
  "arefuse b e s = (if b then Err e else Ok (), s)"
  by (simp_all add: aret_def alift_def aread_def amodify_def arefuse_def)

lemma abind_simps:
  "m s = (Ok x, s') \<Longrightarrow> abind m f s = f x s'"
  "m s = (Err e, s') \<Longrightarrow> abind m f s = (Err e, s')"
  "m s = (Trap, s') \<Longrightarrow> abind m f s = (Trap, s')"
  by (simp_all add: abind_def)

lemma aseq_simps:
  "m s = (Ok x, s') \<Longrightarrow> aseq m n s = n s'"
  "m s = (Err e, s') \<Longrightarrow> aseq m n s = (Err e, s')"
  "m s = (Trap, s') \<Longrightarrow> aseq m n s = (Trap, s')"
  by (simp_all add: aseq_def abind_def)

section \<open>What a sequence of steps keeps\<close>

text \<open>\<open>keeps P m\<close>: whatever the outcome, a step from a state with \<open>P\<close> ends in one with \<open>P\<close>.\<close>

definition keeps :: "('s \<Rightarrow> bool) \<Rightarrow> ('e, 's, 'a) action \<Rightarrow> bool" where
  "keeps P m \<longleftrightarrow> (\<forall>s. P s \<longrightarrow> P (snd (m s)))"

named_theorems keeps_intro "steps that keep a property"

lemma keepsD: "keeps P m \<Longrightarrow> P s \<Longrightarrow> m s = (r, s') \<Longrightarrow> P s'"
  unfolding keeps_def by (metis snd_conv)

lemma keepsI: "(\<And>s. P s \<Longrightarrow> P (snd (m s))) \<Longrightarrow> keeps P m"
  by (simp add: keeps_def)

lemma keeps_pure [keeps_intro]:
  "keeps P (aret x)" "keeps P (alift r)" "keeps P (aread f)" "keeps P (arefuse b e)"
  by (simp_all add: keeps_def)

lemma keeps_abind [keeps_intro]: "keeps P m \<Longrightarrow> (\<And>x. keeps P (f x)) \<Longrightarrow> keeps P (abind m f)"
  by (auto simp: keeps_def abind_def split: prod.splits result.splits)

lemma keeps_aseq [keeps_intro]: "keeps P m \<Longrightarrow> keeps P n \<Longrightarrow> keeps P (aseq m n)"
  unfolding aseq_def by (intro keeps_abind)

lemma keeps_amodify: "(\<And>s. P s \<Longrightarrow> P (f s)) \<Longrightarrow> keeps P (amodify f)"
  by (simp add: keeps_def)

lemma keeps_if [keeps_intro]: "(b \<Longrightarrow> keeps P m) \<Longrightarrow> (\<not> b \<Longrightarrow> keeps P n) \<Longrightarrow> keeps P (if b then m else n)"
  by simp

lemma keeps_option [keeps_intro]:
  "(x = None \<Longrightarrow> keeps P m) \<Longrightarrow> (\<And>y. x = Some y \<Longrightarrow> keeps P (f y)) \<Longrightarrow>
    keeps P (case x of None \<Rightarrow> m | Some y \<Rightarrow> f y)"
  by (cases x) auto

lemma keeps_case_prod [keeps_intro]: "(\<And>a b. x = (a, b) \<Longrightarrow> keeps P (f a b)) \<Longrightarrow> keeps P (case x of (a, b) \<Rightarrow> f a b)"
  by (cases x) simp

lemma keeps_Let [keeps_intro]: "(\<And>x. x = t \<Longrightarrow> keeps P (f x)) \<Longrightarrow> keeps P (let x = t in f x)"
  by simp

lemma keeps_ais_ok [keeps_intro]: "keeps P m \<Longrightarrow> keeps P (ais_ok m)"
  by (auto simp: keeps_def ais_ok_def split: prod.splits result.splits)

lemma keeps_afor [keeps_intro]: "(\<And>x. keeps P (f x)) \<Longrightarrow> keeps P (afor f xs)"
  by (induction xs) (auto intro: keeps_intro)

lemma keeps_amap [keeps_intro]: "(\<And>x. keeps P (f x)) \<Longrightarrow> keeps P (amap f xs)"
  by (induction xs) (auto intro: keeps_intro)

end
