(* ===== verification/Policy_Time.thy ===== *)
theory Policy_Time
  imports Prelude
begin

text \<open>
  The stateless time policy \<open>contracts/refund-policy-time/src\<close> and the interface of refund policies in
  \<open>contracts/common/src/lib.rs\<close>: the facts of a claim a policy sees, the parameters of the time and
  VDF policies, the clock gates, and the delivery oracle that can override them. A delivery oracle
  is a contract of a third party; its answer is the parameter \<open>delivery\<close>, \<open>None\<close> when the call traps
  or returns something that is not a report. The XDR encoding of parameters is the host's; the
  decoded parameters are a datatype, and decoding a map of another shape into the time parameters
  traps. The event a resolution publishes carries nothing the decision depends on and is left out.
\<close>

section \<open>The policy interface\<close>

record policy_context =
  pc_payment_ref :: bytes
  pc_amount :: i128
  pc_paid_at_ledger :: u32
  pc_current_ledger :: u32
  pc_timestamp :: u64
  pc_vdf_proof :: "bytes option"

datatype policy_params =
    TimePolicyParams u32 u64
  | VdfPolicyParams u32
  | TimeOraclePolicyParams u32 u64 address u64

section \<open>Clock gates and delivery reports\<close>

datatype delivery_status = Pending | Delivered | Lost

record delivery_report =
  dr_payment_ref :: bytes
  dr_status :: delivery_status
  dr_timestamp :: u64
  dr_proof :: bytes

datatype resolution = Admit | Deny | Fallback

definition is_usable :: "delivery_report \<Rightarrow> policy_context \<Rightarrow> u64 \<Rightarrow> bool" where
  "is_usable report ctx max_age \<longleftrightarrow> dr_payment_ref report = pc_payment_ref ctx \<and>
     dr_timestamp report \<le> pc_timestamp ctx \<and> pc_timestamp ctx - dr_timestamp report \<le> max_age"

definition resolve ::
  "(address \<Rightarrow> bytes \<Rightarrow> delivery_report option) \<Rightarrow> address \<Rightarrow> u64 \<Rightarrow> policy_context \<Rightarrow> resolution" where
  "resolve delivery oracle max_report_age ctx =
     (case delivery oracle (pc_payment_ref ctx) of
        None \<Rightarrow> Fallback
      | Some report \<Rightarrow>
          if \<not> is_usable report ctx max_report_age then Fallback
          else case dr_status report of Lost \<Rightarrow> Admit | Delivered \<Rightarrow> Deny | Pending \<Rightarrow> Fallback)"

definition check_time_gates :: "u32 \<Rightarrow> u64 \<Rightarrow> policy_context \<Rightarrow> unit outcome" where
  "check_time_gates window deadline ctx =
     obind (if window > 0
            then obind (u32_add (pc_paid_at_ledger ctx) window) (\<lambda>last.
              if pc_current_ledger ctx > last then Err WindowExpired else Ok ())
            else Ok ()) (\<lambda>_.
     if deadline > 0 \<and> pc_timestamp ctx > deadline then Err RefundExpired else Ok ())"

definition oracle_evaluate ::
  "(address \<Rightarrow> bytes \<Rightarrow> delivery_report option) \<Rightarrow> u32 \<Rightarrow> u64 \<Rightarrow> address \<Rightarrow> u64 \<Rightarrow> policy_context \<Rightarrow>
    unit outcome" where
  "oracle_evaluate delivery window deadline oracle max_report_age ctx =
     (case resolve delivery oracle max_report_age ctx of
        Admit \<Rightarrow> Ok ()
      | Deny \<Rightarrow> Err OraclePolicyDenied
      | Fallback \<Rightarrow> check_time_gates window deadline ctx)"

definition time_policy_evaluate ::
  "(address \<Rightarrow> bytes \<Rightarrow> delivery_report option) \<Rightarrow> policy_params \<Rightarrow> policy_context \<Rightarrow> unit outcome" where
  "time_policy_evaluate delivery params ctx =
     (case params of
        TimeOraclePolicyParams window deadline oracle max_report_age \<Rightarrow>
          oracle_evaluate delivery window deadline oracle max_report_age ctx
      | TimePolicyParams window deadline \<Rightarrow> check_time_gates window deadline ctx
      | VdfPolicyParams delay \<Rightarrow> Trap)"

datatype refund_state = Active | GracePeriod | Cooldown | Expired

definition determine_refund_state :: "u64 \<Rightarrow> u64 \<Rightarrow> u64 \<Rightarrow> u64 \<Rightarrow> refund_state outcome" where
  "determine_refund_state current_time start_time grace_period cooldown =
     (if current_time < start_time then Ok Active
      else obind (u64_add start_time grace_period) (\<lambda>grace_end.
        if current_time < grace_end then Ok GracePeriod
        else obind (u64_add grace_end cooldown) (\<lambda>cooldown_end.
          if current_time < cooldown_end then Ok Cooldown else Ok Expired)))"

section \<open>What the gates admit\<close>

lemma check_time_gates_Ok_iff:
  "check_time_gates window deadline ctx = Ok () \<longleftrightarrow>
     (window > 0 \<longrightarrow> in_u32 (pc_paid_at_ledger ctx + window) \<and>
        pc_current_ledger ctx \<le> pc_paid_at_ledger ctx + window) \<and>
     (deadline > 0 \<longrightarrow> pc_timestamp ctx \<le> deadline)"
  by (auto simp: check_time_gates_def u32_add_def split: if_splits)

text \<open>
  An oracle can force a decision only with a fresh report about the same payment; in every other
  case the clock gates decide.
\<close>

lemma oracle_evaluate_cases:
  "oracle_evaluate delivery window deadline oracle age ctx =
     (case delivery oracle (pc_payment_ref ctx) of
        Some r \<Rightarrow> if is_usable r ctx age \<and> dr_status r = Lost then Ok ()
                 else if is_usable r ctx age \<and> dr_status r = Delivered then Err OraclePolicyDenied
                 else check_time_gates window deadline ctx
      | None \<Rightarrow> check_time_gates window deadline ctx)"
  by (auto simp: oracle_evaluate_def resolve_def split: option.splits delivery_status.splits)

section \<open>The policy interface of the vault\<close>

text \<open>
  What a vault relies on when it delegates its clock gates: a policy that admits a claim under time
  parameters only inside the window and before the deadline.
\<close>

locale clock_policy =
  fixes eval :: "policy_params \<Rightarrow> policy_context \<Rightarrow> unit outcome"
  assumes admits_in_window:
    "eval (TimePolicyParams window deadline) ctx = Ok () \<Longrightarrow> 0 < window \<Longrightarrow>
      pc_current_ledger ctx \<le> pc_paid_at_ledger ctx + window"
    and admits_before_deadline:
    "eval (TimePolicyParams window deadline) ctx = Ok () \<Longrightarrow> 0 < deadline \<Longrightarrow> pc_timestamp ctx \<le> deadline"
begin

lemma admits_in_time:
  assumes "eval (TimePolicyParams window deadline) ctx = Ok ()"
  shows "(0 < window \<longrightarrow> pc_current_ledger ctx \<le> pc_paid_at_ledger ctx + window) \<and>
    (0 < deadline \<longrightarrow> pc_timestamp ctx \<le> deadline)"
  using assms admits_in_window admits_before_deadline by blast

end

interpretation time_policy: clock_policy "time_policy_evaluate delivery" for delivery
  by unfold_locales (auto simp: time_policy_evaluate_def check_time_gates_Ok_iff)

end
