(* ===== verification/Vault_State.thy ===== *)
theory Vault_State
  imports Common Invocation Policy_Time
begin

text \<open>
  The storage of the refund vault \<open>contracts/refund-vault/src/lib.rs\<close>, one field for each variant of
  its \<open>DataKey\<close> and one for the lock of \<open>common/src/reentrancy.rs\<close>, with the outside world (token
  ledger, policies, oracles, yield strategy, flash-loan receiver) as the last field. The world is
  opaque; the calls the vault makes into it are the record \<open>externals\<close>. A callee acts on the world
  only: every call into foreign code that could call back happens under the vault's lock or through
  a read-only client, and the entry points that take no lock need the merchant's authorization.
  Absent keys are \<open>None\<close>; time-to-live extensions change no value and are left out.
\<close>

section \<open>Data\<close>

record refund_param =
  rp_payment_ref :: bytes
  rp_recipient :: address
  rp_amount :: i128
  rp_paid_at_ledger :: u32
  rp_payment_amount :: i128
  rp_vdf_proof :: "bytes option"

record refund_claim =
  rc_payment_ref :: bytes
  rc_recipient :: address
  rc_amount :: i128
  rc_paid_at_ledger :: u32
  rc_payment_amount :: i128
  rc_vdf_proof :: "bytes option"

record refund_record =
  rr_amount_refunded :: i128
  rr_payment_amount :: i128
  rr_paid_at_ledger :: u32
  rr_recipient :: address
  rr_ledger :: u32

record policy_proposal =
  pp_window :: u32
  pp_deadline :: u64
  pp_vdf_delay :: u32
  pp_proposed_at_ledger :: u32

record commit_record =
  cr_caller :: address
  cr_operation :: string
  cr_committed_at_ledger :: u32

record oracle_policy =
  op_feed_id :: bytes
  op_threshold :: i128
  op_max_staleness_ledgers :: u32
  op_refund_when_below :: bool

record coupon_record =
  co_owner :: address
  co_discount_bps :: u32
  co_redeemed :: bool

record nft_escrow_record =
  ne_merchant :: address
  ne_buyer :: address

record deposit_permit =
  dp_from :: address
  dp_amount :: i128
  dp_nonce :: u64
  dp_deadline :: u64

record merchant_tier =
  mt_min_settled :: i128
  mt_fee_bps :: u32

record merchant_tier_state =
  ts_settled_volume :: i128
  ts_current_tier :: u32
  ts_fee_bps :: u32
  ts_next_threshold :: i128

record vault_init =
  vi_merchant :: address
  vi_token :: address
  vi_time_policy :: "address option"
  vi_vdf_policy :: "address option"
  vi_fee_bps :: u32
  vi_fee_recipient :: "address option"
  vi_refund_window :: u32
  vi_deadline :: u64
  vi_vdf_delay :: u32

datatype (plugins only: code size) vault_event =
    RefundEvent bytes i128 i128 i128 address u32 u64
  | BatchRefundEvent "bytes list" "bool list"
  | FeeConfigUpdatedEvent string u32 address
  | DepositEvent address i128 u64
  | PauseEvent u32
  | UnpauseEvent u32
  | WithdrawEvent address i128 u64
  | AdminTransferInitiatedEvent address address
  | AdminTransferAcceptedEvent address address
  | YieldDeployedEvent address i128 u64
  | YieldWithdrawnEvent address i128 i128 u64
  | YieldHarvestedEvent i128 u64
  | YieldDistributedEvent address i128 u64
  | StrategyApprovalEvent address bool
  | PolicyProposedEvent u32 u64 u32 u32
  | PolicyExecutedEvent u32 u64
  | OraclePolicySetEvent bytes i128 bool u32
  | OraclePolicyClearedEvent bytes
  | CommitEvent string bytes u32
  | CommitRevealedEvent string bytes u32
  | CouponAppliedEvent u64 address i128 i128 u32
  | MerchantTierPromoted u32 u32 i128 u32
  | MerchantTierLadderUpdated u32 u32 u32
  | DustSweptEvent bytes i128 address
  | FlashLoanEvent address i128 i128 address
  | NftDepositedEvent address nat address address
  | NftClaimedEvent address nat address
  | NftRefundedEvent address nat address
  | PermitDepositEvent address address i128 u64

record 'w vault =
  v_admin :: "address option"
  v_domain_separator :: "bytes option"
  v_nonce :: "u64 option"
  v_token :: "address option"
  v_refund_window :: "u32 option"
  v_refund_deadline :: "u64 option"
  v_vdf_delay :: "u32 option"
  v_time_policy :: "address option"
  v_vdf_policy :: "address option"
  v_fee_bps :: "u32 option"
  v_fee_recipient :: "address option"
  v_refund_v2 :: "bytes \<rightharpoonup> refund_record"
  v_refund_legacy :: "bytes \<Rightarrow> bool"
  v_is_paused :: "bool option"
  v_pending_admin :: "address option"
  v_settlement_contract :: "address option"
  v_yield_strategy :: "address option"
  v_deployed_principal :: "i128 option"
  v_harvested_yield :: "i128 option"
  v_reserve_ratio :: "u32 option"
  v_max_deploy_ratio :: "u32 option"
  v_pending_policy :: "policy_proposal option"
  v_oracles :: "address list option"
  v_oracle_policy :: "oracle_policy option"
  v_reentrancy_lock :: "bool option"
  v_guard_lock :: "bool option"
  v_storage_version :: "u32 option"
  v_commit :: "bytes \<rightharpoonup> commit_record"
  v_user_nonce :: "address \<rightharpoonup> u64"
  v_claim_cooldown :: "u64 option"
  v_last_claim :: "u64 option"
  v_dust_threshold :: "i128 option"
  v_dust_treasury :: "address option"
  v_approved_strategy :: "address \<rightharpoonup> bool"
  v_yield_recipient :: "address option"
  v_coupon :: "u64 \<rightharpoonup> coupon_record"
  v_tier_ladder :: "merchant_tier list option"
  v_tier_state :: "merchant_tier_state option"
  v_nft_escrow :: "address \<times> nat \<rightharpoonup> nft_escrow_record"
  v_events :: "vault_event list"
  world :: 'w

text \<open>The contracts of others the vault calls.\<close>

record 'w externals =
  ex_token :: "'w token"
  ex_policy :: "'w \<Rightarrow> address \<Rightarrow> policy_params \<Rightarrow> policy_context \<Rightarrow> unit outcome"
  ex_price :: "'w \<Rightarrow> address \<Rightarrow> bytes \<Rightarrow> i128 option"
  ex_last_update :: "'w \<Rightarrow> address \<Rightarrow> bytes \<Rightarrow> u32 option"
  ex_strategy_deposit :: "'w \<Rightarrow> address \<Rightarrow> i128 \<Rightarrow> 'w option"
  ex_strategy_withdraw :: "'w \<Rightarrow> address \<Rightarrow> i128 \<Rightarrow> ((i128 \<times> i128) \<times> 'w) option"
  ex_strategy_harvest :: "'w \<Rightarrow> address \<Rightarrow> (i128 \<times> 'w) option"
  ex_transfer_from :: "'w \<Rightarrow> address \<Rightarrow> address \<Rightarrow> address \<Rightarrow> address \<Rightarrow> i128 \<Rightarrow> 'w option"
  ex_nft_owner :: "'w \<Rightarrow> address \<Rightarrow> nat \<Rightarrow> address option"
  ex_nft_transfer :: "'w \<Rightarrow> address \<Rightarrow> address \<Rightarrow> address \<Rightarrow> nat \<Rightarrow> 'w option"
  ex_ed25519_verify :: "bytes \<Rightarrow> bytes \<Rightarrow> bytes \<Rightarrow> bool"
  ex_on_flash_loan :: "'w \<Rightarrow> address \<Rightarrow> address \<Rightarrow> address \<Rightarrow> i128 \<Rightarrow> i128 \<Rightarrow> bytes \<Rightarrow> 'w option"

definition vault_empty :: "'w \<Rightarrow> 'w vault" where
  "vault_empty w = \<lparr>v_admin = None, v_domain_separator = None, v_nonce = None, v_token = None,
     v_refund_window = None, v_refund_deadline = None, v_vdf_delay = None, v_time_policy = None,
     v_vdf_policy = None, v_fee_bps = None, v_fee_recipient = None, v_refund_v2 = Map.empty,
     v_refund_legacy = (\<lambda>_. False), v_is_paused = None, v_pending_admin = None,
     v_settlement_contract = None, v_yield_strategy = None, v_deployed_principal = None,
     v_harvested_yield = None, v_reserve_ratio = None, v_max_deploy_ratio = None,
     v_pending_policy = None, v_oracles = None, v_oracle_policy = None, v_reentrancy_lock = None,
     v_guard_lock = None, v_storage_version = None, v_commit = Map.empty, v_user_nonce = Map.empty,
     v_claim_cooldown = None, v_last_claim = None, v_dust_threshold = None, v_dust_treasury = None,
     v_approved_strategy = Map.empty, v_yield_recipient = None, v_coupon = Map.empty,
     v_tier_ladder = None, v_tier_state = None, v_nft_escrow = Map.empty, v_events = [], world = w\<rparr>"

section \<open>Steps shared by the entry points\<close>

definition publish :: "vault_event \<Rightarrow> ('w vault, unit) act" where
  "publish ev = amodify (\<lambda>s. s\<lparr>v_events := v_events s @ [ev]\<rparr>)"

text \<open>\<open>get(Admin).ok_or(NotInitialized)?\<close> followed by \<open>require_auth()\<close>.\<close>

definition require_admin :: "env \<Rightarrow> ('w vault, address) act" where
  "require_admin E = abind (aread v_admin) (\<lambda>a. alift (obind (ok_or a NotInitialized) (\<lambda>admin.
     obind (require_auth E admin) (\<lambda>_. Ok admin))))"

definition guard_acquire :: "('w vault, unit) act" where
  "guard_acquire = abind (aread v_guard_lock) (\<lambda>l. abind (alift (acquire l)) (\<lambda>l'.
     amodify (\<lambda>s. s\<lparr>v_guard_lock := l'\<rparr>)))"

definition guard_release :: "('w vault, unit) act" where
  "guard_release = amodify (\<lambda>s. s\<lparr>v_guard_lock := release (v_guard_lock s)\<rparr>)"

text \<open>A read of the administrator without asking for authorization.\<close>

definition admin_of :: "('w vault, address) act" where
  "admin_of = abind (aread v_admin) (\<lambda>a. alift (ok_or a NotInitialized))"

definition refuse_paused :: "('w vault, unit) act" where
  "refuse_paused = abind (aread v_is_paused) (\<lambda>p. arefuse (unwrap_or p False) Paused)"

definition token_of :: "('w vault, address) act" where
  "token_of = abind (aread v_token) (\<lambda>t. alift (ok_or t NotInitialized))"

definition balance :: "'w externals \<Rightarrow> address \<Rightarrow> address \<Rightarrow> ('w vault, i128) act" where
  "balance X tok a = aread (\<lambda>s. tok_balance (ex_token X) (world s) tok a)"

definition transfer :: "'w externals \<Rightarrow> address \<Rightarrow> address \<Rightarrow> address \<Rightarrow> i128 \<Rightarrow> ('w vault, unit) act" where
  "transfer X tok from to amount = abind (aread world) (\<lambda>w.
     abind (alift (unwrap (tok_transfer (ex_token X) w tok from to amount))) (\<lambda>w'.
     amodify (\<lambda>s. s\<lparr>world := w'\<rparr>)))"

definition increment_nonce :: "('w vault, u64) act" where
  "increment_nonce = abind (aread (\<lambda>s. unwrap_or (v_nonce s) 0)) (\<lambda>current.
     abind (alift (u64_add current 1)) (\<lambda>n.
     aseq (amodify (\<lambda>s. s\<lparr>v_nonce := Some n\<rparr>)) (aret current)))"

definition current_user_nonce :: "'w vault \<Rightarrow> address \<Rightarrow> u64" where
  "current_user_nonce s caller = unwrap_or (v_user_nonce s caller) 0"

definition check_and_bump_user_nonce :: "address \<Rightarrow> u64 \<Rightarrow> ('w vault, unit) act" where
  "check_and_bump_user_nonce caller provided =
     abind (aread (\<lambda>s. current_user_nonce s caller)) (\<lambda>expected.
     aseq (arefuse (provided \<noteq> expected) StaleState)
     (abind (alift (u64_add expected 1)) (\<lambda>n.
      amodify (\<lambda>s. s\<lparr>v_user_nonce := (v_user_nonce s)(caller \<mapsto> n)\<rparr>))))"

definition active_fee_recipient :: "('w vault, address) act" where
  "active_fee_recipient = abind (aread v_fee_recipient) (\<lambda>r. case r of
     Some a \<Rightarrow> aret a | None \<Rightarrow> abind (aread v_admin) (\<lambda>a. alift (unwrap a)))"

lemmas step_defs = publish_def require_admin_def guard_acquire_def guard_release_def
  refuse_paused_def token_of_def balance_def transfer_def increment_nonce_def
  check_and_bump_user_nonce_def active_fee_recipient_def

lemma publish_iff [ok_iff]:
  "publish ev s = (r, s') \<longleftrightarrow> r = Ok () \<and> s' = s\<lparr>v_events := v_events s @ [ev]\<rparr>"
  by (auto simp: publish_def)

lemma require_admin_Ok_iff [ok_iff]:
  "require_admin E s = (Ok a, s') \<longleftrightarrow> v_admin s = Some a \<and> authorized E a \<and> s' = s"
  by (auto simp: require_admin_def ok_iff)

lemma guard_acquire_Ok_iff [ok_iff]:
  "guard_acquire s = (Ok u, s') \<longleftrightarrow> \<not> unwrap_or (v_guard_lock s) False \<and> s' = s\<lparr>v_guard_lock := Some True\<rparr>"
  by (auto simp: guard_acquire_def ok_iff)

lemma guard_release_iff [ok_iff]:
  "guard_release s = (r, s') \<longleftrightarrow> r = Ok () \<and> s' = s\<lparr>v_guard_lock := Some False\<rparr>"
  by (auto simp: guard_release_def release_def)

lemma refuse_paused_Ok_iff [ok_iff]:
  "refuse_paused s = (Ok u, s') \<longleftrightarrow> \<not> unwrap_or (v_is_paused s) False \<and> s' = s"
  by (auto simp: refuse_paused_def ok_iff)

lemma admin_of_Ok_iff [ok_iff]: "admin_of s = (Ok a, s') \<longleftrightarrow> v_admin s = Some a \<and> s' = s"
  by (auto simp: admin_of_def ok_iff)

lemma token_of_Ok_iff [ok_iff]: "token_of s = (Ok t, s') \<longleftrightarrow> v_token s = Some t \<and> s' = s"
  by (auto simp: token_of_def ok_iff)

lemma balance_iff [ok_iff]:
  "balance X tok a s = (r, s') \<longleftrightarrow> r = Ok (tok_balance (ex_token X) (world s) tok a) \<and> s' = s"
  by (auto simp: balance_def)

lemma transfer_Ok_iff [ok_iff]:
  "transfer X tok from to x s = (Ok u, s') \<longleftrightarrow>
     (\<exists>w'. tok_transfer (ex_token X) (world s) tok from to x = Some w' \<and> s' = s\<lparr>world := w'\<rparr>)"
  by (auto simp: transfer_def ok_iff)

lemma increment_nonce_Ok_iff [ok_iff]:
  "increment_nonce s = (Ok n, s') \<longleftrightarrow> n = unwrap_or (v_nonce s) 0 \<and> in_u64 (n + 1) \<and>
     s' = s\<lparr>v_nonce := Some (n + 1)\<rparr>"
  by (auto simp: increment_nonce_def ok_iff)

lemma check_and_bump_user_nonce_Ok_iff [ok_iff]:
  "check_and_bump_user_nonce a n s = (Ok u, s') \<longleftrightarrow> n = current_user_nonce s a \<and> in_u64 (n + 1) \<and>
     s' = s\<lparr>v_user_nonce := (v_user_nonce s)(a \<mapsto> n + 1)\<rparr>"
  by (auto simp: check_and_bump_user_nonce_def ok_iff)

lemma active_fee_recipient_Ok_iff [ok_iff]:
  "active_fee_recipient s = (Ok a, s') \<longleftrightarrow> s' = s \<and>
     (v_fee_recipient s = Some a \<or> (v_fee_recipient s = None \<and> v_admin s = Some a))"
  by (auto simp: active_fee_recipient_def ok_iff split: option.splits)

lemma steps_Err_iff [err_iff]:
  "publish ev s \<noteq> (Err e, s')" "balance X tok a s \<noteq> (Err e, s')" "transfer X tok a b x s \<noteq> (Err e, s')"
  "increment_nonce s \<noteq> (Err e, s')" "active_fee_recipient s \<noteq> (Err e, s')"
  "guard_release s \<noteq> (Err e, s')"
  by (auto simp: step_defs err_iff split: option.splits)

end
