(* ===== verification/Vault_Fees.thy ===== *)
theory Vault_Fees
  imports Vault_State
begin

text \<open>
  The fee side of the refund vault: \<open>refund_fee\<close> of \<open>refund-vault/src/lib.rs\<close>, the settlement split
  of \<open>settlement.rs\<close>, the merchant fee ladder of \<open>tiers.rs\<close> and the discount coupons of
  \<open>coupons.rs\<close>. The lemmas show that the fee is the exact ceiling of the proportional amount and
  never traps on a valid rate, that the cached tier state always mirrors the ladder, and that a
  coupon is spent at most once.
\<close>

section \<open>Fees\<close>

definition refund_fee :: "i128 \<Rightarrow> u32 \<Rightarrow> i128 outcome" where
  "refund_fee amount fee_bps =
     (let q = trunc_div amount 10000; r = trunc_mod amount 10000 in
      obind (math_expect (mul_amounts q (int fee_bps))) (\<lambda>whole.
      obind (math_expect (mul_amounts r (int fee_bps))) (\<lambda>rp.
      obind (math_expect (add_amounts rp 9999)) (\<lambda>fractional.
      obind (math_expect (div_amounts fractional 10000)) (\<lambda>rounded.
      math_expect (add_amounts whole rounded))))))"

definition split_amount :: "i128 \<Rightarrow> u32 \<Rightarrow> (i128 \<times> i128) outcome" where
  "split_amount amount fee_bps =
     obind (refund_fee amount fee_bps) (\<lambda>fee.
     obind (i128_op (amount - fee)) (\<lambda>payout. Ok (fee, payout)))"

text \<open>The fee is the ceiling of \<open>amount * fee_bps / 10000\<close>, computed without a wide product.\<close>

lemma fee_ceil_eq:
  "(a div 10000) * b + ((a mod 10000) * b + 9999) div 10000 = (a * b + 9999) div (10000 :: int)"
proof -
  have "a * b = (a div 10000 * 10000 + a mod 10000) * b" by (simp only: div_mult_mod_eq)
  also have "\<dots> = (a mod 10000) * b + ((a div 10000) * b) * 10000" by (simp only: algebra_simps)
  finally have "a * b + 9999 = ((a mod 10000) * b + 9999) + ((a div 10000) * b) * 10000" by linarith
  then show ?thesis by (simp only: div_mult_self1)
qed

lemma fee_ceil_bounds:
  assumes "(0 :: int) \<le> a" "0 \<le> b" "b \<le> 10000"
  shows "0 \<le> (a * b + 9999) div 10000" "(a * b + 9999) div 10000 \<le> a"
    "a * b \<le> 10000 * ((a * b + 9999) div 10000)" "10000 * ((a * b + 9999) div 10000) < a * b + 10000"
proof -
  have "0 \<le> a * b" using assms by simp
  then show "0 \<le> (a * b + 9999) div 10000" by (simp add: pos_imp_zdiv_nonneg_iff)
  have "a * b \<le> a * 10000" using assms by (intro mult_left_mono) auto
  then have "(a * b + 9999) div 10000 \<le> (a * 10000 + 9999) div 10000" by (intro zdiv_mono1) auto
  then show "(a * b + 9999) div 10000 \<le> a" by simp
  have "10000 * ((a * b + 9999) div 10000) = a * b + 9999 - (a * b + 9999) mod 10000"
    by (rule minus_mod_eq_mult_div [symmetric])
  moreover have "0 \<le> (a * b + 9999) mod 10000" "(a * b + 9999) mod 10000 < 10000" by simp_all
  ultimately show "a * b \<le> 10000 * ((a * b + 9999) div 10000)"
    "10000 * ((a * b + 9999) div 10000) < a * b + 10000" by linarith+
qed

lemma in_i128_smaller: "0 \<le> x \<Longrightarrow> x \<le> y \<Longrightarrow> in_i128 y \<Longrightarrow> in_i128 x"
  by (auto simp: in_i128_def)

lemma math_amounts_Inr:
  "in_i128 (a + b) \<Longrightarrow> add_amounts a b = Inr (a + b)"
  "in_i128 (a * b) \<Longrightarrow> mul_amounts a b = Inr (a * b)"
  "b \<noteq> 0 \<Longrightarrow> in_i128 (trunc_div a b) \<Longrightarrow> div_amounts a b = Inr (trunc_div a b)"
  by simp_all

lemma refund_fee_eq:
  assumes "0 \<le> a" "in_i128 a" "b \<le> 10000"
  shows "refund_fee a b = Ok ((a * int b + 9999) div 10000)"
proof -
  define q r c where "q = a div 10000" and "r = a mod 10000" and "c = int b"
  have c: "0 \<le> c" "c \<le> 10000" using assms by (simp_all add: c_def)
  have qr: "0 \<le> q" "0 \<le> r" "r < 10000" "q * 10000 \<le> a"
    using assms by (simp_all add: q_def r_def pos_imp_zdiv_nonneg_iff)
  have "q * c \<le> q * 10000" using c qr by (intro mult_left_mono)
  then have w: "in_i128 (q * c)" using qr c assms(2) by - (rule in_i128_smaller [of _ a], auto)
  have "r * c \<le> 10000 * 10000" using qr c by (intro mult_mono) auto
  moreover have "0 \<le> r * c" using qr c by simp
  ultimately obtain p where p: "p = r * c" "0 \<le> p" "p \<le> 100000000" by simp
  have small: "in_i128 x" if "0 \<le> x" "x \<le> 100010000" for x using that by (simp add: in_i128_def)
  have d: "trunc_div (p + 9999) 10000 = (p + 9999) div 10000"
    using p by (intro trunc_div_nonneg) auto
  have "0 \<le> (p + 9999) div 10000" "(p + 9999) div 10000 \<le> p + 9999"
    using p(2) zdiv_mono2 [of "p + 9999" 1 10000] by (simp_all add: pos_imp_zdiv_nonneg_iff)
  then have i: "in_i128 p" "in_i128 (p + 9999)" "in_i128 ((p + 9999) div 10000)"
    using p by (auto intro!: small)
  have sum: "q * c + (p + 9999) div 10000 = (a * c + 9999) div 10000"
    unfolding p(1) q_def r_def by (rule fee_ceil_eq)
  have s: "in_i128 ((a * c + 9999) div 10000)"
    using fee_ceil_bounds [OF assms(1) c] assms(2) by - (rule in_i128_smaller [of _ a], auto)
  have "trunc_div a 10000 = q" "trunc_mod a 10000 = r"
    using assms(1) by (simp_all add: q_def r_def trunc_div_nonneg trunc_mod_nonneg)
  then have "refund_fee a b = obind (math_expect (mul_amounts q c)) (\<lambda>whole.
      obind (math_expect (mul_amounts r c)) (\<lambda>rp.
      obind (math_expect (add_amounts rp 9999)) (\<lambda>fractional.
      obind (math_expect (div_amounts fractional 10000)) (\<lambda>rounded.
      math_expect (add_amounts whole rounded)))))"
    by (simp only: refund_fee_def Let_def c_def)
  also have "\<dots> = obind (math_expect (div_amounts (p + 9999) 10000)) (\<lambda>rounded.
      math_expect (add_amounts (q * c) rounded))"
    using w i by (simp add: math_amounts_Inr p(1) [symmetric])
  also have "\<dots> = Ok ((a * c + 9999) div 10000)"
    using i s d by (simp add: math_amounts_Inr sum)
  finally show ?thesis by (simp add: c_def)
qed

lemma split_amount_eq:
  assumes "0 \<le> a" "in_i128 a" "b \<le> 10000"
  shows "split_amount a b = Ok ((a * int b + 9999) div 10000, a - (a * int b + 9999) div 10000)"
proof -
  have "in_i128 (a - (a * int b + 9999) div 10000)"
    using fee_ceil_bounds [of a "int b"] assms by - (rule in_i128_smaller [of _ a], auto)
  then show ?thesis using refund_fee_eq [OF assms] by (simp add: split_amount_def i128_op_def)
qed

section \<open>The fee ladder\<close>

definition MAX_TIERS :: u32 where
  "MAX_TIERS = 16"

definition BPS_DENOMINATOR :: u32 where
  "BPS_DENOMINATOR = 10000"

definition I128_MAX :: i128 where
  "I128_MAX = 2 ^ 127 - 1"

definition i128_saturating_add :: "i128 \<Rightarrow> i128 \<Rightarrow> i128" where
  "i128_saturating_add a b = max (- (2 ^ 127)) (min (a + b) I128_MAX)"

fun validate_rungs :: "i128 option \<Rightarrow> merchant_tier list \<Rightarrow> unit outcome" where
  "validate_rungs previous [] = Ok ()"
| "validate_rungs previous (tier # rest) =
     (if mt_fee_bps tier > BPS_DENOMINATOR then Err InvalidTierLadder
      else if (case previous of None \<Rightarrow> mt_min_settled tier \<noteq> 0 | Some prev \<Rightarrow> mt_min_settled tier \<le> prev)
        then Err InvalidTierLadder
      else validate_rungs (Some (mt_min_settled tier)) rest)"

definition validate :: "merchant_tier list \<Rightarrow> unit outcome" where
  "validate ladder =
     (if ladder = [] \<or> length ladder > MAX_TIERS then Err InvalidTierLadder
      else validate_rungs None ladder)"

fun tier_scan :: "i128 \<Rightarrow> u32 \<Rightarrow> u32 \<Rightarrow> merchant_tier list \<Rightarrow> u32" where
  "tier_scan volume index active [] = active"
| "tier_scan volume index active (tier # rest) =
     tier_scan volume (index + 1) (if mt_min_settled tier \<le> volume then index else active) rest"

definition tier_for_volume :: "merchant_tier list \<Rightarrow> i128 \<Rightarrow> u32" where
  "tier_for_volume ladder volume = tier_scan volume 0 0 ladder"

definition next_threshold :: "merchant_tier list \<Rightarrow> u32 \<Rightarrow> i128" where
  "next_threshold ladder tier =
     (let nxt = tier + 1 in if nxt < length ladder then mt_min_settled (ladder ! nxt) else I128_MAX)"

definition effective_fee_bps :: "'w vault \<Rightarrow> u32" where
  "effective_fee_bps s = (case v_tier_state s of
     Some st \<Rightarrow> ts_fee_bps st | None \<Rightarrow> unwrap_or (v_fee_bps s) 0)"

definition on_settled :: "i128 \<Rightarrow> ('w vault, unit) act" where
  "on_settled amount = abind (aread v_tier_state) (\<lambda>state. case state of
     None \<Rightarrow> aret ()
   | Some state \<Rightarrow>
      abind (aread v_tier_ladder) (\<lambda>ladder.
      let state = state\<lparr>ts_settled_volume := i128_saturating_add (ts_settled_volume state) amount\<rparr>
      in (case (if ts_settled_volume state \<ge> ts_next_threshold state then ladder else None) of
            None \<Rightarrow> amodify (\<lambda>s. s\<lparr>v_tier_state := Some state\<rparr>)
          | Some ladder \<Rightarrow>
              let new_tier = tier_for_volume ladder (ts_settled_volume state) in
              if new_tier > ts_current_tier state
              then let fee_bps = (if new_tier < length ladder then mt_fee_bps (ladder ! new_tier)
                                  else ts_fee_bps state)
                   in aseq (publish (MerchantTierPromoted new_tier (ts_current_tier state)
                              (ts_settled_volume state) fee_bps))
                        (amodify (\<lambda>s. s\<lparr>v_tier_state := Some (state\<lparr>ts_current_tier := new_tier,
                           ts_fee_bps := fee_bps, ts_next_threshold := next_threshold ladder new_tier\<rparr>)\<rparr>))
              else amodify (\<lambda>s. s\<lparr>v_tier_state := Some (state\<lparr>ts_next_threshold :=
                     next_threshold ladder (ts_current_tier state)\<rparr>)\<rparr>))))"

definition set_tier_ladder :: "env \<Rightarrow> merchant_tier list \<Rightarrow> ('w vault, unit) act" where
  "set_tier_ladder E tiers =
     aseq (require_admin E)
     (aseq (alift (validate tiers))
     (abind (aread (\<lambda>s. case v_tier_state s of None \<Rightarrow> 0 | Some st \<Rightarrow> ts_settled_volume st))
       (\<lambda>settled_volume.
      let current_tier = tier_for_volume tiers settled_volume in
      aseq (arefuse (current_tier \<ge> length tiers) InvalidTierLadder)
      (let fee_bps = mt_fee_bps (tiers ! current_tier) in
      aseq (amodify (\<lambda>s. s\<lparr>v_tier_ladder := Some tiers, v_tier_state := Some
        \<lparr>ts_settled_volume = settled_volume, ts_current_tier = current_tier, ts_fee_bps = fee_bps,
         ts_next_threshold = next_threshold tiers current_tier\<rparr>\<rparr>))
      (publish (MerchantTierLadderUpdated (length tiers) current_tier fee_bps))))))"

definition clear_tier_ladder :: "env \<Rightarrow> ('w vault, unit) act" where
  "clear_tier_ladder E =
     aseq (require_admin E)
     (aseq (amodify (\<lambda>s. s\<lparr>v_tier_ladder := None, v_tier_state := None\<rparr>))
     (abind (aread (\<lambda>s. unwrap_or (v_fee_bps s) 0)) (\<lambda>fee_bps.
      publish (MerchantTierLadderUpdated 0 0 fee_bps))))"

section \<open>Coupons\<close>

definition MAX_COUPON_DISCOUNT_BPS :: u32 where
  "MAX_COUPON_DISCOUNT_BPS = 5000"

definition coupons_mint_coupon :: "u64 \<Rightarrow> address \<Rightarrow> u32 \<Rightarrow> ('w vault, unit) act" where
  "coupons_mint_coupon coupon_id owner discount_bps =
     aseq (arefuse (discount_bps > MAX_COUPON_DISCOUNT_BPS) InvalidRatio)
     (abind (aread (\<lambda>s. v_coupon s coupon_id)) (\<lambda>c.
      aseq (arefuse (c \<noteq> None) AlreadyInitialized)
      (amodify (\<lambda>s. s\<lparr>v_coupon := (v_coupon s)(coupon_id \<mapsto>
         \<lparr>co_owner = owner, co_discount_bps = discount_bps, co_redeemed = False\<rparr>)\<rparr>))))"

definition apply_coupon :: "address \<Rightarrow> u64 \<Rightarrow> i128 \<Rightarrow> ('w vault, i128) act" where
  "apply_coupon caller coupon_id amount =
     abind (aread (\<lambda>s. v_coupon s coupon_id)) (\<lambda>c.
     abind (alift (ok_or c CouponNotFound)) (\<lambda>c.
     aseq (arefuse (co_owner c \<noteq> caller) Unauthorized)
     (aseq (arefuse (co_redeemed c) CouponAlreadyRedeemed)
     (abind (alift (math_q (apply_fee_bps amount (co_discount_bps c)))) (\<lambda>discount.
      abind (alift (ok_or (i128_checked (amount - discount)) MathOverflow)) (\<lambda>effective_amount.
      aseq (amodify (\<lambda>s. s\<lparr>v_coupon := (v_coupon s)(coupon_id \<mapsto> c\<lparr>co_redeemed := True\<rparr>)\<rparr>))
      (aret effective_amount)))))))"

definition get_coupon :: "'w vault \<Rightarrow> u64 \<Rightarrow> coupon_record option" where
  "get_coupon s coupon_id = v_coupon s coupon_id"

lemma coupons_mint_coupon_Ok_iff [ok_iff]:
  "coupons_mint_coupon i a d s = (Ok u, s') \<longleftrightarrow> d \<le> 5000 \<and> get_coupon s i = None \<and>
     s' = s\<lparr>v_coupon := (v_coupon s)(i \<mapsto> \<lparr>co_owner = a, co_discount_bps = d, co_redeemed = False\<rparr>)\<rparr>"
  by (auto simp: coupons_mint_coupon_def ok_iff MAX_COUPON_DISCOUNT_BPS_def get_coupon_def)

text \<open>
  A coupon at or below the cap, applied to a positive amount, leaves at least half of it; the
  discount is floored, so the holder never gains by it.
\<close>

lemma apply_coupon_Ok:
  assumes "apply_coupon a i x s = (Ok e, s')"
  obtains c where "get_coupon s i = Some c" "co_owner c = a" "\<not> co_redeemed c"
    "apply_fee_bps x (co_discount_bps c) = Inr (x - e)"
    "s' = s\<lparr>v_coupon := (v_coupon s)(i \<mapsto> c\<lparr>co_redeemed := True\<rparr>)\<rparr>"
  using assms by (force simp: apply_coupon_def ok_iff get_coupon_def intro: that)

lemma apply_coupon_refused:
  "get_coupon s i = Some c \<Longrightarrow> co_owner c = a \<Longrightarrow> co_redeemed c \<Longrightarrow>
    apply_coupon a i x s = (Err CouponAlreadyRedeemed, s)"
  by (simp add: apply_coupon_def get_coupon_def abind_simps aseq_simps ok_or_def)

section \<open>The cached tier\<close>

text \<open>
  The tier state is a cache of what the ladder says about the settled volume: a valid ladder and its
  state are stored together, the active tier is the highest rung the volume reaches, and the next
  threshold is the next rung's minimum.
\<close>

definition tier_inv :: "'w vault \<Rightarrow> bool" where
  "tier_inv s \<longleftrightarrow> (case (v_tier_ladder s, v_tier_state s) of
     (None, None) \<Rightarrow> True
   | (Some ladder, Some st) \<Rightarrow> validate ladder = Ok () \<and> 0 \<le> ts_settled_volume st \<and>
       in_i128 (ts_settled_volume st) \<and>
       ts_current_tier st = tier_for_volume ladder (ts_settled_volume st) \<and>
       ts_fee_bps st = mt_fee_bps (ladder ! ts_current_tier st) \<and>
       ts_next_threshold st = next_threshold ladder (ts_current_tier st)
   | _ \<Rightarrow> False)"

lemma validate_rungs_Ok:
  "validate_rungs prev ladder = Ok () \<Longrightarrow>
     sorted_wrt (<) (map mt_min_settled ladder) \<and>
     (\<forall>t \<in> set ladder. mt_fee_bps t \<le> 10000 \<and> 0 \<le> mt_min_settled t - unwrap_or prev 0) \<and>
     (case prev of None \<Rightarrow> ladder \<noteq> [] \<longrightarrow> mt_min_settled (hd ladder) = 0
        | Some p \<Rightarrow> \<forall>t \<in> set ladder. p < mt_min_settled t)"
proof (induction prev ladder rule: validate_rungs.induct)
  case (2 prev tier rest)
  then show ?case
    by (auto simp: BPS_DENOMINATOR_def not_le split: if_splits option.splits)
qed (simp split: option.splits)

lemma validate_Ok:
  assumes "validate ladder = Ok ()"
  shows "0 < length ladder" "mt_min_settled (ladder ! 0) = 0"
    "\<And>i j. i < j \<Longrightarrow> j < length ladder \<Longrightarrow> mt_min_settled (ladder ! i) < mt_min_settled (ladder ! j)"
    "\<And>i. i < length ladder \<Longrightarrow> mt_fee_bps (ladder ! i) \<le> 10000"
proof -
  have v: "ladder \<noteq> []" "validate_rungs None ladder = Ok ()"
    using assms by (auto simp: validate_def split: if_splits)
  note r = validate_rungs_Ok [OF v(2)]
  show "0 < length ladder" using v(1) by simp
  show "mt_min_settled (ladder ! 0) = 0" using r v(1) by (simp add: hd_conv_nth)
  show "\<And>i. i < length ladder \<Longrightarrow> mt_fee_bps (ladder ! i) \<le> 10000" using r by auto
  show "\<And>i j. i < j \<Longrightarrow> j < length ladder \<Longrightarrow> mt_min_settled (ladder ! i) < mt_min_settled (ladder ! j)"
    using conjunct1 [OF r] by (auto simp: sorted_wrt_iff_nth_less)
qed

text \<open>The scan finds the last rung whose minimum the volume reaches.\<close>

lemma tier_scan_bounds:
  "a \<le> k \<Longrightarrow> (\<forall>i < length l. mt_min_settled (l ! i) \<le> v \<longrightarrow> k + i \<le> tier_scan v k a l) \<and>
     a \<le> tier_scan v k a l \<and>
     (tier_scan v k a l = a \<or> (k \<le> tier_scan v k a l \<and> tier_scan v k a l < k + length l \<and>
        mt_min_settled (l ! (tier_scan v k a l - k)) \<le> v))"
proof (induction l arbitrary: k a)
  case (Cons t l)
  let ?a = "if mt_min_settled t \<le> v then k else a"
  note IH = Cons.IH [of ?a "k + 1"]
  have a: "?a \<le> k + 1" using Cons.prems by simp
  let ?r = "tier_scan v (k + 1) ?a l"
  have "k + i \<le> ?r" if "i < Suc (length l)" "mt_min_settled ((t # l) ! i) \<le> v" for i
    using that IH [OF a] by (cases i) (auto split: if_splits)
  moreover have "?r = a \<or> (k \<le> ?r \<and> ?r < k + Suc (length l) \<and> mt_min_settled ((t # l) ! (?r - k)) \<le> v)"
  proof (cases "?r = ?a")
    case False
    then have "k + 1 \<le> ?r" "?r < k + 1 + length l" "mt_min_settled (l ! (?r - (k + 1))) \<le> v"
      using IH [OF a] by blast+
    then show ?thesis by (simp add: nth_Cons' Suc_le_eq)
  qed auto
  moreover have "a \<le> ?r" using IH [OF a] Cons.prems by (auto split: if_splits)
  ultimately show ?case by simp
qed simp

lemma tier_for_volume_ge: "i < length l \<Longrightarrow> mt_min_settled (l ! i) \<le> v \<Longrightarrow> i \<le> tier_for_volume l v"
  using tier_scan_bounds [of 0 0 l v] by (simp add: tier_for_volume_def)

lemma tier_for_volume_reached:
  assumes "validate l = Ok ()" "0 \<le> v"
  shows "tier_for_volume l v < length l" "mt_min_settled (l ! tier_for_volume l v) \<le> v"
  using tier_scan_bounds [of 0 0 l v] validate_Ok(1,2) [OF assms(1)] assms(2)
  by (auto simp: tier_for_volume_def)

lemma tier_for_volume_eqI:
  assumes "t < length l" "mt_min_settled (l ! t) \<le> v"
    and "\<And>i. t < i \<Longrightarrow> i < length l \<Longrightarrow> v < mt_min_settled (l ! i)"
  shows "tier_for_volume l v = t"
proof -
  have "t \<le> tier_for_volume l v" using assms(1,2) by (rule tier_for_volume_ge)
  moreover have "\<not> t < tier_for_volume l v"
    using tier_scan_bounds [of 0 0 l v] assms(3) [of "tier_for_volume l v"]
    by (auto simp: tier_for_volume_def)
  ultimately show ?thesis by simp
qed

text \<open>Below the cached threshold no promotion is due, so the cheap path of \<open>on_settled\<close> is exact.\<close>

lemma tier_unchanged_below_threshold:
  assumes "validate l = Ok ()" "0 \<le> v" "v \<le> v'"
    and "v' < next_threshold l (tier_for_volume l v)"
  shows "tier_for_volume l v' = tier_for_volume l v"
proof (rule tier_for_volume_eqI)
  let ?t = "tier_for_volume l v"
  show "?t < length l" using assms(1,2) by (rule tier_for_volume_reached)
  show "mt_min_settled (l ! ?t) \<le> v'" using tier_for_volume_reached(2) [OF assms(1,2)] assms(3) by simp
  fix i assume i: "?t < i" "i < length l"
  then have "mt_min_settled (l ! (?t + 1)) \<le> mt_min_settled (l ! i)"
    using validate_Ok(3) [OF assms(1), of "?t + 1" i] by (cases "i = ?t + 1") auto
  moreover have "v' < mt_min_settled (l ! (?t + 1))" using assms(4) i by (simp add: next_threshold_def Let_def)
  ultimately show "v' < mt_min_settled (l ! i)" by simp
qed

lemma tier_for_volume_mono:
  assumes "validate l = Ok ()" "0 \<le> v" "v \<le> v'"
  shows "tier_for_volume l v \<le> tier_for_volume l v'"
  using tier_for_volume_reached [OF assms(1,2)] assms(3) by (intro tier_for_volume_ge) auto

lemma saturating_add_bounds:
  "in_i128 a \<Longrightarrow> 0 \<le> x \<Longrightarrow> a \<le> i128_saturating_add a x \<and> in_i128 (i128_saturating_add a x)"
  by (auto simp: i128_saturating_add_def I128_MAX_def in_i128_def)

text \<open>Settling never traps and promotes exactly to the rung the new volume reaches.\<close>

lemma on_settled_tracks:
  assumes inv: "tier_inv s" and x: "0 \<le> x"
  obtains s' where "on_settled x s = (Ok (), s')" "tier_inv s'"
    "v_tier_ladder s' = v_tier_ladder s"
    "map_option ts_settled_volume (v_tier_state s') =
       map_option (\<lambda>st. i128_saturating_add (ts_settled_volume st) x) (v_tier_state s)"
    "s' = s\<lparr>v_tier_state := v_tier_state s', v_events := v_events s'\<rparr>"
proof (cases "v_tier_state s")
  case None
  then show ?thesis using inv by (intro that [of s]) (simp_all add: on_settled_def abind_simps)
next
  case (Some st)
  then obtain l where l: "v_tier_ladder s = Some l"
    using inv by (auto simp: tier_inv_def split: option.splits)
  let ?v = "ts_settled_volume st" and ?v' = "i128_saturating_add (ts_settled_volume st) x"
  have i: "validate l = Ok ()" "0 \<le> ?v" "in_i128 ?v" "ts_current_tier st = tier_for_volume l ?v"
      "ts_fee_bps st = mt_fee_bps (l ! ts_current_tier st)"
      "ts_next_threshold st = next_threshold l (ts_current_tier st)"
    using inv Some l by (auto simp: tier_inv_def)
  have v': "?v \<le> ?v'" "in_i128 ?v'" using saturating_add_bounds [OF i(3) x] by auto
  note mono = tier_for_volume_mono [OF i(1,2) v'(1)]
  have reach: "tier_for_volume l ?v' < length l" using i(1,2) v'(1) by (intro tier_for_volume_reached) auto
  show ?thesis
  proof (cases "?v' \<ge> ts_next_threshold st \<and> tier_for_volume l ?v' > ts_current_tier st")
    case True
    then show ?thesis
      using Some l i v' reach
      by (intro that [of "snd (on_settled x s)"]) (auto simp: on_settled_def abind_simps aseq_simps publish_def tier_inv_def Let_def)
  next
    case False
    have "tier_for_volume l ?v' = ts_current_tier st"
      using False mono i(4) tier_unchanged_below_threshold [OF i(1,2) v'(1)] i(6) by fastforce
    then show ?thesis
      using Some l i v' False
      by (intro that [of "snd (on_settled x s)"]) (auto simp: on_settled_def abind_simps aseq_simps publish_def tier_inv_def Let_def)
  qed
qed

lemma set_tier_ladder_Ok:
  assumes "set_tier_ladder E tiers s = (Ok (), s')" "tier_inv s"
  shows "tier_inv s'" "v_tier_ladder s' = Some tiers"
    "\<exists>a. v_admin s = Some a \<and> authorized E a"
proof -
  define v where "v = (case v_tier_state s of None \<Rightarrow> 0 | Some st \<Rightarrow> ts_settled_volume st)"
  have "0 \<le> v" "in_i128 v"
    using assms(2) by (auto simp: v_def tier_inv_def in_i128_def split: option.splits)
  moreover have "validate tiers = Ok ()"
      "s' = s\<lparr>v_tier_ladder := Some tiers, v_tier_state := Some
        \<lparr>ts_settled_volume = v, ts_current_tier = tier_for_volume tiers v,
         ts_fee_bps = mt_fee_bps (tiers ! tier_for_volume tiers v),
         ts_next_threshold = next_threshold tiers (tier_for_volume tiers v)\<rparr>,
        v_events := v_events s @ [MerchantTierLadderUpdated (length tiers) (tier_for_volume tiers v)
          (mt_fee_bps (tiers ! tier_for_volume tiers v))]\<rparr>"
    using assms(1) by (auto simp: set_tier_ladder_def ok_iff Let_def v_def)
  ultimately show "tier_inv s'" "v_tier_ladder s' = Some tiers" by (simp_all add: tier_inv_def)
  show "\<exists>a. v_admin s = Some a \<and> authorized E a"
    using assms(1) by (auto simp: set_tier_ladder_def ok_iff)
qed

lemma clear_tier_ladder_Ok:
  "clear_tier_ladder E s = (Ok (), s') \<Longrightarrow> tier_inv s' \<and> v_tier_state s' = None"
  by (auto simp: clear_tier_ladder_def ok_iff tier_inv_def)

end
