(* ===== verification/Vault_Oracle.thy ===== *)
theory Vault_Oracle
  imports Vault_State "HOL-Library.Multiset"
begin

text \<open>
  The oracle aggregator of \<open>refund-vault/src/oracle.rs\<close>: the fresh prices of the whitelisted oracles,
  their median by an in-place insertion sort, and the comparison that gates refunds. The lemmas show
  that the loop sorts, that the median of an odd number of prices is the middle one of the sorted
  list, and that a minority of oracles cannot move it outside the range of the others.
\<close>

section \<open>The median\<close>

text \<open>The inner \<open>while j > 0\<close>: shift larger elements right, then store the key.\<close>

fun shift_in :: "i128 \<Rightarrow> nat \<Rightarrow> i128 list \<Rightarrow> i128 list" where
  "shift_in key 0 prices = prices[0 := key]"
| "shift_in key (Suc j) prices =
     (let prev = prices ! j in
      if prev \<le> key then prices[Suc j := key] else shift_in key j (prices[Suc j := prev]))"

function sort_from :: "nat \<Rightarrow> i128 list \<Rightarrow> i128 list" where
  "sort_from i prices =
     (if i < length prices then sort_from (i + 1) (shift_in (prices ! i) i prices) else prices)"
  by auto

lemma length_shift_in [simp]: "length (shift_in key j xs) = length xs"
  by (induction key j xs rule: shift_in.induct) (auto simp: Let_def)

termination sort_from
  by (relation "measure (\<lambda>(i, prices). length prices - i)") auto

declare sort_from.simps [simp del]

definition median :: "i128 list \<Rightarrow> i128 outcome" where
  "median prices =
     (let n = length prices; sorted_prices = sort_from 1 prices; mid = n div 2 in
      if n mod 2 = 1 then Ok (sorted_prices ! mid)
      else let hi = sorted_prices ! mid; lo = sorted_prices ! (mid - 1) in
        obind (i128_op (hi - lo)) (\<lambda>d. i128_op (lo + trunc_div d 2)))"

section \<open>Aggregation\<close>

text \<open>A whitelisted oracle that traps aborts the whole call.\<close>

fun fresh_prices ::
  "'w externals \<Rightarrow> 'w \<Rightarrow> u32 \<Rightarrow> bytes \<Rightarrow> u32 \<Rightarrow> address list \<Rightarrow> i128 list outcome" where
  "fresh_prices X w now feed_id max_staleness [] = Ok []"
| "fresh_prices X w now feed_id max_staleness (oracle # rest) =
     obind (unwrap (ex_last_update X w oracle feed_id)) (\<lambda>last_update.
     if max_staleness > 0 \<and> u32_saturating_add last_update max_staleness < now
     then fresh_prices X w now feed_id max_staleness rest
     else obind (unwrap (ex_price X w oracle feed_id)) (\<lambda>price.
       obind (fresh_prices X w now feed_id max_staleness rest) (\<lambda>prices. Ok (price # prices))))"

definition median_price :: "'w externals \<Rightarrow> env \<Rightarrow> 'w vault \<Rightarrow> bytes \<Rightarrow> u32 \<Rightarrow> i128 outcome" where
  "median_price X E s feed_id max_staleness =
     obind (ok_or (v_oracles s) NoOraclesConfigured) (\<lambda>oracles.
     if oracles = [] then Err NoOraclesConfigured
     else obind (fresh_prices X (world s) (sequence E) feed_id max_staleness oracles) (\<lambda>prices.
       if prices = [] then Err StaleOracleData else median prices))"

definition evaluate_policy :: "'w externals \<Rightarrow> env \<Rightarrow> 'w vault \<Rightarrow> oracle_policy \<Rightarrow> bool outcome" where
  "evaluate_policy X E s policy =
     obind (median_price X E s (op_feed_id policy) (op_max_staleness_ledgers policy)) (\<lambda>m.
     if op_refund_when_below policy then Ok (m < op_threshold policy) else Ok (m > op_threshold policy))"

section \<open>The loop sorts\<close>

lemma mset_shift_in: "j < length xs \<Longrightarrow> mset (shift_in key j xs) = mset (xs[j := key])"
proof (induction key j xs rule: shift_in.induct)
  case (2 key j xs)
  have "mset (xs[Suc j := xs ! j, j := key]) = mset (xs[Suc j := key])"
    using 2(2) mset_swap [of j "xs[Suc j := key]" "Suc j"] by simp
  with 2 show ?case by (simp add: Let_def)
qed simp

text \<open>\<open>sorted_but xs n j\<close>: the cells \<open>0..n\<close> other than \<open>j\<close> are in order.\<close>

definition sorted_but :: "i128 list \<Rightarrow> nat \<Rightarrow> nat \<Rightarrow> bool" where
  "sorted_but xs n j \<longleftrightarrow> (\<forall>a b. a < b \<longrightarrow> b \<le> n \<longrightarrow> a \<noteq> j \<longrightarrow> b \<noteq> j \<longrightarrow> xs ! a \<le> xs ! b)"

lemma sorted_shift_in:
  "j \<le> n \<Longrightarrow> n < length xs \<Longrightarrow> sorted_but xs n j \<Longrightarrow> (\<And>b. j < b \<Longrightarrow> b \<le> n \<Longrightarrow> key \<le> xs ! b) \<Longrightarrow>
    a < b \<Longrightarrow> b \<le> n \<Longrightarrow> shift_in key j xs ! a \<le> shift_in key j xs ! b"
proof (induction key j xs rule: shift_in.induct)
  case (1 key xs)
  moreover have "xs \<noteq> []" using 1(2) by auto
  ultimately show ?case by (cases "a = 0") (auto simp: sorted_but_def)
next
  case (2 key j xs)
  note but = 2(4) [unfolded sorted_but_def, rule_format]
  show ?case
  proof (cases "xs ! j \<le> key")
    case True
    have "xs ! a \<le> key" if "a < Suc j"
      using but [of a j] that True 2(2) by (cases "a = j") auto
    moreover have "Suc j < length xs" using 2(2,3) by simp
    ultimately show ?thesis using True 2(5-) but [of a b] by (auto simp: Let_def nth_list_update)
  next
    case False
    have "sorted_but (xs[Suc j := xs ! j]) n j"
      unfolding sorted_but_def using but 2(2,3) by (auto simp: nth_list_update)
    moreover have "key \<le> xs[Suc j := xs ! j] ! c" if "j < c" "c \<le> n" for c
      using that False 2(3,5) by (auto simp: nth_list_update)
    ultimately have "shift_in key j (xs[Suc j := xs ! j]) ! a \<le> shift_in key j (xs[Suc j := xs ! j]) ! b"
      using 2(2,3) 2(6,7) by (intro 2(1) [OF refl False]) auto
    then show ?thesis using False by (simp add: Let_def)
  qed
qed

lemma sorted_shift_in_prefix:
  assumes "i < length xs" "sorted (take i xs)"
  shows "sorted (take (Suc i) (shift_in (xs ! i) i xs))"
proof -
  have "sorted_but xs i i"
    using assms unfolding sorted_but_def by (auto simp: sorted_iff_nth_mono_less)
  then show ?thesis
    using sorted_shift_in [of i i xs "xs ! i"] assms(1) by (auto simp: sorted_iff_nth_mono_less)
qed

lemma sort_from_sorts: "sorted (take i xs) \<Longrightarrow> sort_from i xs = sort xs"
proof (induction i xs rule: sort_from.induct)
  case (1 i xs)
  show ?case
  proof (cases "i < length xs")
    case True
    then have "sort_from (i + 1) (shift_in (xs ! i) i xs) = sort (shift_in (xs ! i) i xs)"
      using 1 sorted_shift_in_prefix [of i xs] by simp
    also have "mset (shift_in (xs ! i) i xs) = mset xs" using True by (simp add: mset_shift_in)
    then have "sort (shift_in (xs ! i) i xs) = sort xs" by (metis mset_sort properties_for_sort sorted_sort)
    finally show ?thesis using True by (subst sort_from.simps) simp
  next
    case False
    then show ?thesis using 1(2) by (subst sort_from.simps) (simp add: sorted_sort_id)
  qed
qed

lemma sort_from_1: "sort_from (Suc 0) xs = sort xs"
  by (rule sort_from_sorts) (cases xs, simp_all)

lemma length_filter_parts:
  "length (filter P (take n xs)) \<le> length (filter P xs)" "length (filter P (drop n xs)) \<le> length (filter P xs)"
  by (metis append_take_drop_id filter_append le_add1 le_add2 length_append)+

text \<open>A number that at least half of the prices reach, and one that at least half stay below.\<close>

lemma sorted_nth_count:
  fixes xs :: "i128 list"
  assumes "sorted xs" "i < length xs"
  shows "i < length (filter (\<lambda>x. x \<le> xs ! i) xs)" "length xs - i \<le> length (filter (\<lambda>x. xs ! i \<le> x) xs)"
proof -
  have "filter (\<lambda>x. x \<le> xs ! i) (take (Suc i) xs) = take (Suc i) xs"
    using assms by (intro filter_True) (auto simp: in_set_conv_nth sorted_iff_nth_mono)
  then have "Suc i \<le> length (filter (\<lambda>x. x \<le> xs ! i) (take (Suc i) xs))" using assms(2) by simp
  also have "\<dots> \<le> length (filter (\<lambda>x. x \<le> xs ! i) xs)" by (rule length_filter_parts)
  finally show "i < length (filter (\<lambda>x. x \<le> xs ! i) xs)" by simp
  have "filter (\<lambda>x. xs ! i \<le> x) (drop i xs) = drop i xs"
    using assms by (intro filter_True) (auto simp: in_set_conv_nth sorted_iff_nth_mono)
  then have "length xs - i \<le> length (filter (\<lambda>x. xs ! i \<le> x) (drop i xs))" by simp
  also have "\<dots> \<le> length (filter (\<lambda>x. xs ! i \<le> x) xs)" by (rule length_filter_parts)
  finally show "length xs - i \<le> length (filter (\<lambda>x. xs ! i \<le> x) xs)" .
qed

lemma length_filter_implies: "(\<And>x. P x \<Longrightarrow> Q x) \<Longrightarrow> length (filter P xs) \<le> length (filter Q xs)"
  by (induction xs) (auto intro: le_SucI)

lemma filter_sort_length: "length (filter P (sort xs)) = length (filter P (xs :: i128 list))"
  by (simp add: filter_sort)

text \<open>
  With fewer than half of the prices outside an interval, both middle elements of the sorted list are
  inside it.
\<close>

lemma sorted_middle_within:
  fixes xs :: "i128 list"
  assumes out: "2 * length (filter (\<lambda>x. \<not> (lo \<le> x \<and> x \<le> hi)) xs) < length xs"
    and i: "i = length xs div 2 \<or> (even (length xs) \<and> i = length xs div 2 - 1)"
  shows "lo \<le> sort xs ! i" "sort xs ! i \<le> hi"
proof -
  let ?s = "sort xs" and ?out = "\<lambda>x. \<not> (lo \<le> x \<and> x \<le> hi)"
  have n: "0 < length xs" using out by (cases xs) simp_all
  then have i': "i < length ?s" using i by (auto intro: less_imp_diff_less)
  note c = sorted_nth_count [OF sorted_sort i', unfolded filter_sort_length]
  have sub: "length (filter P xs) \<le> length (filter ?out xs)" if "\<And>x. P x \<Longrightarrow> ?out x" for P
    by (rule length_filter_implies) (rule that)
  show "lo \<le> ?s ! i"
  proof (rule ccontr)
    assume "\<not> lo \<le> ?s ! i"
    then have "i < length (filter ?out xs)" using c(1) sub [of "\<lambda>x. x \<le> ?s ! i"] by fastforce
    with out i n show False by auto
  qed
  show "?s ! i \<le> hi"
  proof (rule ccontr)
    assume "\<not> ?s ! i \<le> hi"
    then have "length xs - i \<le> length (filter ?out xs)" using c(2) sub [of "\<lambda>x. ?s ! i \<le> x"] by fastforce
    with out i n show False by auto
  qed
qed

lemma median_within:
  assumes "2 * length (filter (\<lambda>x. \<not> (lo \<le> x \<and> x \<le> hi)) xs) < length xs" and "median xs = Ok m"
  shows "lo \<le> m" "m \<le> hi"
proof -
  note w = sorted_middle_within [OF assms(1)]
  let ?n = "length xs div 2"
  have "lo \<le> m \<and> m \<le> hi"
  proof (cases "length xs mod 2 = 1")
    case True
    then have "m = sort xs ! ?n" using assms(2) by (simp add: median_def sort_from_1 Let_def)
    then show ?thesis using w [of ?n] by simp
  next
    case False
    let ?hi = "sort xs ! ?n" and ?lo = "sort xs ! (?n - 1)"
    have "m = ?lo + trunc_div (?hi - ?lo) 2"
      using assms(2) False by (auto simp: median_def sort_from_1 Let_def ok_iff)
    moreover have "?lo \<le> ?hi"
    proof (rule sorted_nth_mono)
      show "?n < length (sort xs)" using assms(1) by (cases xs) auto
    qed auto
    moreover have "even (length xs)" using False by presburger
    ultimately show ?thesis
      using w [of ?n] w [of "?n - 1"] by (simp add: trunc_div_nonneg) linarith
  qed
  then show "lo \<le> m" "m \<le> hi" by auto
qed

lemma median_Ok:
  assumes "xs \<noteq> []" "\<And>x. x \<in> set xs \<Longrightarrow> 0 \<le> x \<and> in_i128 x"
  shows "\<exists>m. median xs = Ok m"
proof (cases "length xs mod 2 = 1")
  case True
  then show ?thesis by (simp add: median_def Let_def)
next
  case False
  let ?n = "length xs div 2"
  let ?hi = "sort xs ! ?n" and ?lo = "sort xs ! (?n - 1)"
  have n: "?n < length (sort xs)" using assms(1) by (cases xs) auto
  have "?hi \<in> set xs" "?lo \<in> set xs" using n nth_mem [of _ "sort xs"] by (metis less_imp_diff_less set_sort)+
  then have r: "0 \<le> ?lo" "in_i128 ?lo" "in_i128 ?hi" "0 \<le> ?hi" using assms(2) by auto
  moreover have "?lo \<le> ?hi" using n by (intro sorted_nth_mono) auto
  ultimately have "in_i128 (?hi - ?lo)" "in_i128 (?lo + (?hi - ?lo) div 2)"
    unfolding in_i128_def by linarith+
  then show ?thesis using False r \<open>?lo \<le> ?hi\<close>
    by (simp add: median_def Let_def sort_from_1 i128_op_def trunc_div_nonneg)
qed

text \<open>The prices that enter the median are those of the oracles that are not stale, in order.\<close>

definition is_fresh :: "'w externals \<Rightarrow> 'w \<Rightarrow> u32 \<Rightarrow> bytes \<Rightarrow> u32 \<Rightarrow> address \<Rightarrow> bool" where
  "is_fresh X w now feed_id max_staleness oracle \<longleftrightarrow>
     (\<exists>u. ex_last_update X w oracle feed_id = Some u \<and>
        \<not> (max_staleness > 0 \<and> u32_saturating_add u max_staleness < now))"

lemma fresh_prices_Ok:
  "fresh_prices X w now feed age oracles = Ok ps \<Longrightarrow>
     map Some ps = map (\<lambda>a. ex_price X w a feed) (filter (is_fresh X w now feed age) oracles)"
proof (induction oracles arbitrary: ps)
  case (Cons a oracles)
  obtain u where u: "ex_last_update X w a feed = Some u" using Cons.prems by (auto simp: ok_iff)
  show ?case
  proof (cases "is_fresh X w now feed age a")
    case True
    then show ?thesis using Cons u by (auto simp: is_fresh_def ok_iff split: if_splits)
  next
    case False
    then show ?thesis using Cons u by (auto simp: is_fresh_def ok_iff split: if_splits)
  qed
qed simp

lemma fresh_prices_total:
  assumes "\<And>a. a \<in> set oracles \<Longrightarrow> ex_last_update X w a feed \<noteq> None"
    and "\<And>a. a \<in> set oracles \<Longrightarrow> is_fresh X w now feed age a \<Longrightarrow> ex_price X w a feed \<noteq> None"
  shows "\<exists>ps. fresh_prices X w now feed age oracles = Ok ps"
  using assms
proof (induction oracles)
  case (Cons a oracles)
  then obtain ps where "fresh_prices X w now feed age oracles = Ok ps" by auto
  moreover obtain u where "ex_last_update X w a feed = Some u" using Cons.prems(1) [of a] by auto
  moreover have "is_fresh X w now feed age a \<Longrightarrow> \<exists>p. ex_price X w a feed = Some p" using Cons.prems(2) by auto
  ultimately show ?case by (auto simp: is_fresh_def)
qed simp

text \<open>One whitelisted oracle that does not answer, or a fresh one without a price, aborts the call.\<close>

lemma fresh_prices_Trap:
  assumes "a \<in> set oracles"
    "ex_last_update X w a feed = None \<or> is_fresh X w now feed age a \<and> ex_price X w a feed = None"
  shows "fresh_prices X w now feed age oracles = Trap"
  using assms
proof (induction oracles)
  case (Cons b oracles)
  then show ?case
    by (cases "ex_last_update X w b feed"; cases "ex_price X w b feed") (auto simp: is_fresh_def)
qed simp

lemma map_Some_filter:
  "map Some ps = map f xs \<Longrightarrow> length (filter Q ps) = length (filter (\<lambda>a. \<exists>p. f a = Some p \<and> Q p) xs)"
proof (induction xs arbitrary: ps)
  case (Cons a xs)
  then show ?case by (cases ps) auto
qed simp

end
