(* ===== verification/Vault_Strategy.thy ===== *)
theory Vault_Strategy
  imports Vault_State
begin

text \<open>
  The yield strategy hook \<open>refund-vault/src/strategy.rs\<close>: the whitelist, the active strategy, recalls
  measured by the vault's own token balance, the recall that keeps deployed principal redeemable, the
  emergency exit and the payout of harvested yield. The lemmas show that principal is only ever
  credited against tokens that arrived, and that deployed principal always belongs to an approved
  active strategy.
\<close>

section \<open>Operations\<close>

definition deployed_principal :: "'w vault \<Rightarrow> i128" where
  "deployed_principal s = unwrap_or (v_deployed_principal s) 0"

definition harvested_yield :: "'w vault \<Rightarrow> i128" where
  "harvested_yield s = unwrap_or (v_harvested_yield s) 0"

definition active_strategy :: "'w vault \<Rightarrow> address option" where
  "active_strategy s = v_yield_strategy s"

definition is_approved :: "'w vault \<Rightarrow> address \<Rightarrow> bool" where
  "is_approved s strategy = unwrap_or (v_approved_strategy s strategy) False"

definition approve :: "env \<Rightarrow> address \<Rightarrow> ('w vault, unit) act" where
  "approve E strategy =
     aseq (require_admin E)
     (aseq (amodify (\<lambda>s. s\<lparr>v_approved_strategy := (v_approved_strategy s)(strategy \<mapsto> True)\<rparr>))
     (publish (StrategyApprovalEvent strategy True)))"

definition revoke :: "env \<Rightarrow> address \<Rightarrow> ('w vault, unit) act" where
  "revoke E strategy =
     aseq (require_admin E)
     (abind (aread (\<lambda>s. active_strategy s = Some strategy)) (\<lambda>active.
      abind (aread deployed_principal) (\<lambda>deployed.
      aseq (arefuse (active \<and> deployed > 0) StrategyHasPrincipal)
      (aseq (amodify (\<lambda>s. if active then s\<lparr>v_yield_strategy := None\<rparr> else s))
      (aseq (amodify (\<lambda>s. s\<lparr>v_approved_strategy := (v_approved_strategy s)(strategy := None)\<rparr>))
      (publish (StrategyApprovalEvent strategy False)))))))"

definition set_active :: "env \<Rightarrow> address \<Rightarrow> ('w vault, unit) act" where
  "set_active E strategy =
     aseq (require_admin E)
     (abind (aread (\<lambda>s. is_approved s strategy)) (\<lambda>ok.
      aseq (arefuse (\<not> ok) StrategyNotApproved)
      (abind (aread (\<lambda>s. case active_strategy s of
           Some current \<Rightarrow> current \<noteq> strategy \<and> deployed_principal s > 0 | None \<Rightarrow> False)) (\<lambda>busy.
      aseq (arefuse busy StrategyHasPrincipal)
      (amodify (\<lambda>s. s\<lparr>v_yield_strategy := Some strategy\<rparr>))))))"

definition set_recipient :: "env \<Rightarrow> address \<Rightarrow> ('w vault, unit) act" where
  "set_recipient E recipient =
     aseq (require_admin E)
     (aseq (arefuse (recipient = current_contract_address E) SelfTransfer)
     (amodify (\<lambda>s. s\<lparr>v_yield_recipient := Some recipient\<rparr>)))"

definition yield_recipient :: "'w vault \<Rightarrow> address outcome" where
  "yield_recipient s = (case v_yield_recipient s of
     Some r \<Rightarrow> Ok r | None \<Rightarrow> ok_or (v_admin s) NotInitialized)"

definition strategy_withdraw :: "'w externals \<Rightarrow> address \<Rightarrow> i128 \<Rightarrow> ('w vault, i128 \<times> i128) act" where
  "strategy_withdraw X strategy amount = abind (aread world) (\<lambda>w.
     abind (alift (unwrap (ex_strategy_withdraw X w strategy amount))) (\<lambda>(r, w').
     aseq (amodify (\<lambda>s. s\<lparr>world := w'\<rparr>)) (aret r)))"

text \<open>
  The new principal is stored before the harvested yield is summed, so an overflow of that sum leaves
  the first write behind for a caller that goes on.
\<close>

definition recall_principal ::
  "'w externals \<Rightarrow> env \<Rightarrow> address \<Rightarrow> i128 \<Rightarrow> ('w vault, i128 \<times> i128) act" where
  "recall_principal X E strategy amount =
     abind (aread deployed_principal) (\<lambda>deployed.
     aseq (arefuse (amount \<le> 0 \<or> amount > deployed) NothingToWithdraw)
     (abind token_of (\<lambda>tok.
      abind (balance X tok (current_contract_address E)) (\<lambda>before.
      abind (strategy_withdraw X strategy amount) (\<lambda>(principal_returned, yield_returned).
      abind (balance X tok (current_contract_address E)) (\<lambda>now.
      abind (alift (i128_op (now - before))) (\<lambda>received.
      aseq (arefuse (principal_returned \<le> 0 \<or> principal_returned > amount \<or> yield_returned < 0)
              InsufficientFloat)
      (abind (alift (math_q (add_amounts principal_returned yield_returned))) (\<lambda>claimed.
      aseq (arefuse (received < claimed) InsufficientFloat)
      (abind (aread harvested_yield) (\<lambda>harvested.
      abind (alift (i128_op (deployed - principal_returned))) (\<lambda>left.
      aseq (amodify (\<lambda>s. s\<lparr>v_deployed_principal := Some left\<rparr>))
      (abind (alift (math_q (add_amounts harvested yield_returned))) (\<lambda>total_yield.
      aseq (amodify (\<lambda>s. s\<lparr>v_harvested_yield := Some total_yield\<rparr>))
      (abind increment_nonce (\<lambda>nonce.
      aseq (publish (YieldWithdrawnEvent strategy principal_returned yield_returned nonce))
      (aret (principal_returned, yield_returned))))))))))))))))))"

text \<open>The lock taken here is \<open>DataKey::ReentrancyLock\<close>, not the one the guard of the entry points
  tests; \<open>?\<close> leaves it set on an error.\<close>

definition ensure_liquidity ::
  "'w externals \<Rightarrow> env \<Rightarrow> address \<Rightarrow> i128 \<Rightarrow> i128 \<Rightarrow> ('w vault, i128) act" where
  "ensure_liquidity X E tok bal needed =
     (if bal \<ge> needed then aret bal
      else abind (aread deployed_principal) (\<lambda>deployed.
        if deployed \<le> 0 then aret bal
        else abind (aread active_strategy) (\<lambda>st. case st of
          None \<Rightarrow> aret bal
        | Some strategy \<Rightarrow>
            abind (alift (i128_op (needed - bal))) (\<lambda>shortfall.
            let recall = min shortfall deployed in
            abind (aread (\<lambda>s. unwrap_or (v_reentrancy_lock s) False)) (\<lambda>held.
            aseq (amodify (\<lambda>s. if held then s else s\<lparr>v_reentrancy_lock := Some True\<rparr>))
            (aseq (recall_principal X E strategy recall)
            (aseq (amodify (\<lambda>s. if held then s else s\<lparr>v_reentrancy_lock := Some False\<rparr>))
            (balance X tok (current_contract_address E)))))))))"

definition emergency_exit :: "'w externals \<Rightarrow> env \<Rightarrow> ('w vault, i128) act" where
  "emergency_exit X E =
     aseq (require_admin E)
     (abind (aread active_strategy) (\<lambda>st.
      abind (alift (ok_or st StrategyNotSet)) (\<lambda>strategy.
      abind (aread deployed_principal) (\<lambda>deployed.
      aseq (arefuse (deployed \<le> 0) NothingToWithdraw)
      (abind (recall_principal X E strategy deployed) (\<lambda>(principal_returned, _).
      aret principal_returned))))))"

definition distribute :: "'w externals \<Rightarrow> env \<Rightarrow> ('w vault, i128) act" where
  "distribute X E =
     aseq (require_admin E)
     (abind (aread harvested_yield) (\<lambda>harvested.
      aseq (arefuse (harvested \<le> 0) NothingToHarvest)
      (abind (aread yield_recipient) (\<lambda>r.
      abind (alift r) (\<lambda>to.
      aseq (arefuse (to = current_contract_address E) SelfTransfer)
      (abind token_of (\<lambda>tok.
      abind (balance X tok (current_contract_address E)) (\<lambda>bal.
      aseq (arefuse (bal < harvested) InsufficientFloat)
      (aseq (amodify (\<lambda>s. s\<lparr>v_harvested_yield := Some 0\<rparr>))
      (aseq (transfer X tok (current_contract_address E) to harvested)
      (abind increment_nonce (\<lambda>nonce.
      aseq (publish (YieldDistributedEvent to harvested nonce))
      (aret harvested)))))))))))))"

section \<open>Whitelist and principal\<close>

text \<open>
  What the whitelist guarantees: the active strategy is approved, deployed principal is never
  negative, and it is positive only while a strategy is active.
\<close>

definition strategy_inv :: "'w vault \<Rightarrow> bool" where
  "strategy_inv s \<longleftrightarrow> 0 \<le> deployed_principal s \<and> 0 \<le> harvested_yield s \<and>
     (\<forall>a. active_strategy s = Some a \<longrightarrow> is_approved s a) \<and>
     (0 < deployed_principal s \<longrightarrow> active_strategy s \<noteq> None)"

lemmas strategy_reads = deployed_principal_def harvested_yield_def active_strategy_def is_approved_def

lemma strategy_withdraw_Ok_iff [ok_iff]:
  "strategy_withdraw X a p s = (Ok r, s') \<longleftrightarrow>
     (\<exists>w'. ex_strategy_withdraw X (world s) a p = Some (r, w') \<and> s' = s\<lparr>world := w'\<rparr>)"
  by (cases r) (auto simp: strategy_withdraw_def ok_iff)

lemma approve_Ok_iff [ok_iff]:
  "approve E a s = (Ok u, s') \<longleftrightarrow> (\<exists>m. v_admin s = Some m \<and> authorized E m) \<and>
     s' = s\<lparr>v_approved_strategy := (v_approved_strategy s)(a \<mapsto> True),
            v_events := v_events s @ [StrategyApprovalEvent a True]\<rparr>"
  by (auto simp: approve_def ok_iff)

lemma revoke_Ok_iff [ok_iff]:
  "revoke E a s = (Ok u, s') \<longleftrightarrow> (\<exists>m. v_admin s = Some m \<and> authorized E m) \<and>
     \<not> (active_strategy s = Some a \<and> deployed_principal s > 0) \<and>
     s' = s\<lparr>v_yield_strategy := (if active_strategy s = Some a then None else v_yield_strategy s),
            v_approved_strategy := (v_approved_strategy s)(a := None),
            v_events := v_events s @ [StrategyApprovalEvent a False]\<rparr>"
  by (auto simp: revoke_def ok_iff)

lemma set_active_Ok_iff [ok_iff]:
  "set_active E a s = (Ok u, s') \<longleftrightarrow> (\<exists>m. v_admin s = Some m \<and> authorized E m) \<and> is_approved s a \<and>
     (\<forall>b. active_strategy s = Some b \<and> b \<noteq> a \<longrightarrow> deployed_principal s \<le> 0) \<and>
     s' = s\<lparr>v_yield_strategy := Some a\<rparr>"
  by (auto simp: set_active_def ok_iff split: option.splits)

lemma approve_inv: "approve E a s = (Ok u, s') \<Longrightarrow> strategy_inv s \<Longrightarrow> strategy_inv s'"
  by (auto simp: ok_iff strategy_inv_def strategy_reads)

lemma revoke_inv: "revoke E a s = (Ok u, s') \<Longrightarrow> strategy_inv s \<Longrightarrow> strategy_inv s'"
  by (auto simp: ok_iff strategy_inv_def strategy_reads)

lemma set_active_inv: "set_active E a s = (Ok u, s') \<Longrightarrow> strategy_inv s \<Longrightarrow> strategy_inv s'"
  by (auto simp: ok_iff strategy_inv_def strategy_reads)

section \<open>Recalls\<close>

text \<open>
  A recall credits what it books against tokens that really arrived: the vault's balance grew by at
  least the principal and the yield the strategy reports.
\<close>

lemma recall_principal_Ok:
  assumes "recall_principal X E a p s = (Ok (pr, y), s')"
  obtains tok w' where "v_token s = Some tok"
    "ex_strategy_withdraw X (world s) a p = Some ((pr, y), w')"
    "0 < pr" "pr \<le> p" "p \<le> deployed_principal s" "0 \<le> y"
    "tok_balance (ex_token X) w' tok (current_contract_address E) \<ge>
       tok_balance (ex_token X) (world s) tok (current_contract_address E) + pr + y"
    "s' = s\<lparr>world := w', v_deployed_principal := Some (deployed_principal s - pr),
       v_harvested_yield := Some (harvested_yield s + y), v_nonce := Some (unwrap_or (v_nonce s) 0 + 1),
       v_events := v_events s @ [YieldWithdrawnEvent a pr y (unwrap_or (v_nonce s) 0)]\<rparr>"
  using assms by (auto simp: recall_principal_def ok_iff strategy_reads not_le not_less intro!: that)

lemma recall_principal_inv:
  assumes "recall_principal X E a p s = (Ok r, s')" "strategy_inv s"
  shows "strategy_inv s'"
proof -
  obtain pr y where r: "r = (pr, y)" by fastforce
  show ?thesis
    by (rule recall_principal_Ok [OF assms(1) [unfolded r]])
      (use assms(2) in \<open>auto simp: strategy_inv_def strategy_reads\<close>)
qed

text \<open>
  Liquidity on demand. A recall, even one that fails half way, touches the strategy's books, the
  counters and the outside world, and nothing a claim or an administrator wrote.
\<close>

definition same_claims :: "'w vault \<Rightarrow> 'w vault \<Rightarrow> bool" where
  "same_claims s t \<longleftrightarrow>
     v_admin t = v_admin s \<and> v_domain_separator t = v_domain_separator s \<and>
     v_token t = v_token s \<and> v_refund_window t = v_refund_window s \<and>
     v_refund_deadline t = v_refund_deadline s \<and> v_vdf_delay t = v_vdf_delay s \<and>
     v_time_policy t = v_time_policy s \<and> v_vdf_policy t = v_vdf_policy s \<and>
     v_fee_bps t = v_fee_bps s \<and> v_fee_recipient t = v_fee_recipient s \<and>
     v_refund_v2 t = v_refund_v2 s \<and> v_refund_legacy t = v_refund_legacy s \<and>
     v_is_paused t = v_is_paused s \<and> v_pending_admin t = v_pending_admin s \<and>
     v_settlement_contract t = v_settlement_contract s \<and> v_yield_strategy t = v_yield_strategy s \<and>
     v_reserve_ratio t = v_reserve_ratio s \<and> v_max_deploy_ratio t = v_max_deploy_ratio s \<and>
     v_pending_policy t = v_pending_policy s \<and> v_oracles t = v_oracles s \<and>
     v_oracle_policy t = v_oracle_policy s \<and> v_guard_lock t = v_guard_lock s \<and>
     v_storage_version t = v_storage_version s \<and> v_commit t = v_commit s \<and>
     v_user_nonce t = v_user_nonce s \<and> v_claim_cooldown t = v_claim_cooldown s \<and>
     v_last_claim t = v_last_claim s \<and> v_dust_threshold t = v_dust_threshold s \<and>
     v_dust_treasury t = v_dust_treasury s \<and> v_approved_strategy t = v_approved_strategy s \<and>
     v_yield_recipient t = v_yield_recipient s \<and> v_coupon t = v_coupon s \<and>
     v_tier_ladder t = v_tier_ladder s \<and> v_tier_state t = v_tier_state s \<and>
     v_nft_escrow t = v_nft_escrow s"

lemma same_claims_refl [simp]: "same_claims s s"
  by (simp add: same_claims_def)

lemma same_claims_trans: "same_claims s t \<Longrightarrow> same_claims t u \<Longrightarrow> same_claims s u"
  by (simp add: same_claims_def)

lemma same_claims_updates [simp]:
  "same_claims s (t\<lparr>world := w\<rparr>) = same_claims s t"
  "same_claims s (t\<lparr>v_deployed_principal := d\<rparr>) = same_claims s t"
  "same_claims s (t\<lparr>v_harvested_yield := h\<rparr>) = same_claims s t"
  "same_claims s (t\<lparr>v_reentrancy_lock := l\<rparr>) = same_claims s t"
  "same_claims s (t\<lparr>v_nonce := n\<rparr>) = same_claims s t"
  "same_claims s (t\<lparr>v_events := ev\<rparr>) = same_claims s t"
  by (simp_all add: same_claims_def)

lemma keeps_steps [keeps_intro]:
  "keeps (same_claims s) (publish ev)" "keeps (same_claims s) increment_nonce"
  "keeps P token_of" "keeps P (balance X tok a)"
  "keeps (same_claims s) (transfer X tok a b x)" "keeps (same_claims s) (strategy_withdraw X c p)"
  by (auto simp: step_defs strategy_withdraw_def intro!: keeps_intro keeps_amodify
      split: prod.splits)

lemma keeps_recall_principal [keeps_intro]: "keeps (same_claims s) (recall_principal X E a p)"
  unfolding recall_principal_def
  by (auto intro!: keeps_intro keeps_amodify split: prod.splits)

lemma keeps_ensure_liquidity [keeps_intro]: "keeps (same_claims s) (ensure_liquidity X E tok b n)"
  unfolding ensure_liquidity_def
  by (auto simp: Let_def intro!: keeps_intro keeps_amodify)

text \<open>
  What it reports on success is the vault's balance afterwards, and liquid funds plus deployed
  principal less harvested yield never shrink.
\<close>

lemma ensure_liquidity_cases:
  assumes "ensure_liquidity X E tok bal need s = (Ok b, s')"
  obtains (idle) "s' = s" "b = bal"
  | (recall) a p pr y t l where "bal < need" "recall_principal X E a p (s\<lparr>v_reentrancy_lock := l\<rparr>) = (Ok (pr, y), t)"
      "\<exists>l. s' = t\<lparr>v_reentrancy_lock := l\<rparr>"
      "b = tok_balance (ex_token X) (world t) tok (current_contract_address E)"
proof (cases "bal \<ge> need \<or> deployed_principal s \<le> 0 \<or> active_strategy s = None")
  case True
  then show ?thesis
    using assms by (intro idle) (auto simp: ensure_liquidity_def ok_iff split: if_splits)
next
  case False
  then obtain a where a: "active_strategy s = Some a" and need: "bal < need" by auto
  define held where "held = unwrap_or (v_reentrancy_lock s) False"
  obtain x where "i128_op (need - bal) = (Ok x :: i128 outcome)"
    using assms False a by (auto simp: ensure_liquidity_def abind_simps ok_iff)
  then have "aseq (amodify (\<lambda>s. if held then s else s\<lparr>v_reentrancy_lock := Some True\<rparr>))
      (aseq (recall_principal X E a (min x (deployed_principal s)))
      (aseq (amodify (\<lambda>s. if held then s else s\<lparr>v_reentrancy_lock := Some False\<rparr>))
      (balance X tok (current_contract_address E)))) s = (Ok b, s')"
    using assms False a by (simp add: ensure_liquidity_def abind_simps Let_def held_def)
  then obtain r t where r: "recall_principal X E a (min x (deployed_principal s))
      (if held then s else s\<lparr>v_reentrancy_lock := Some True\<rparr>) = (Ok r, t)"
    and t: "s' = (if held then t else t\<lparr>v_reentrancy_lock := Some False\<rparr>)"
      "b = tok_balance (ex_token X) (world s') tok (current_contract_address E)"
    by (auto simp: ok_iff)
  obtain pr y where pry: "r = (pr, y)" by (cases r)
  let ?l = "if held then v_reentrancy_lock s else Some True"
  show ?thesis
  proof (rule recall [OF need])
    show "recall_principal X E a (min x (deployed_principal s)) (s\<lparr>v_reentrancy_lock := ?l\<rparr>) = (Ok (pr, y), t)"
      using r pry by (cases held) simp_all
    show "\<exists>l. s' = t\<lparr>v_reentrancy_lock := l\<rparr>"
      using t(1) by (intro exI [of _ "if held then v_reentrancy_lock t else Some False"]) simp
    show "b = tok_balance (ex_token X) (world t) tok (current_contract_address E)" using t by simp
  qed
qed

lemma ensure_liquidity_Ok:
  assumes "ensure_liquidity X E tok bal need s = (Ok b, s')" "v_token s = Some tok"
    and bal: "bal = tok_balance (ex_token X) (world s) tok (current_contract_address E)"
  shows "b = tok_balance (ex_token X) (world s') tok (current_contract_address E)"
    "bal + deployed_principal s - harvested_yield s \<le> b + deployed_principal s' - harvested_yield s'"
    "bal \<ge> need \<Longrightarrow> s' = s" "bal \<le> b" "strategy_inv s \<Longrightarrow> strategy_inv s'"
proof -
  note cases = ensure_liquidity_cases [OF assms(1)]
  have "b = tok_balance (ex_token X) (world s') tok (current_contract_address E) \<and>
    bal + deployed_principal s - harvested_yield s \<le> b + deployed_principal s' - harvested_yield s' \<and>
    (bal \<ge> need \<longrightarrow> s' = s) \<and> bal \<le> b \<and> (strategy_inv s \<longrightarrow> strategy_inv s')"
  proof (rule cases, goal_cases)
    case 1
    then show ?case using bal by simp
  next
    case (2 a p pr y t l)
    obtain l' where s': "s' = t\<lparr>v_reentrancy_lock := l'\<rparr>" using 2(3) by blast
    show ?case
      using 2(1,4) assms(2) bal unfolding s'
      by - (rule recall_principal_Ok [OF 2(2)], simp add: strategy_inv_def strategy_reads)
  qed
  then show "b = tok_balance (ex_token X) (world s') tok (current_contract_address E)"
    "bal + deployed_principal s - harvested_yield s \<le> b + deployed_principal s' - harvested_yield s'"
    "bal \<ge> need \<Longrightarrow> s' = s" "bal \<le> b" "strategy_inv s \<Longrightarrow> strategy_inv s'" by blast+
qed

lemma emergency_exit_Ok:
  assumes "emergency_exit X E s = (Ok p, s')"
  obtains m a y where "v_admin s = Some m" "authorized E m" "active_strategy s = Some a"
    "recall_principal X E a (deployed_principal s) s = (Ok (p, y), s')"
  using assms by (auto simp: emergency_exit_def ok_iff intro: that)

lemma distribute_Ok:
  assumes "distribute X E s = (Ok x, s')"
  obtains m to tok w' where "v_admin s = Some m" "authorized E m" "0 < x" "x = harvested_yield s"
    "yield_recipient s = Ok to" "to \<noteq> current_contract_address E" "v_token s = Some tok"
    "tok_transfer (ex_token X) (world s) tok (current_contract_address E) to x = Some w'"
    "s' = s\<lparr>v_harvested_yield := Some 0, world := w', v_nonce := Some (unwrap_or (v_nonce s) 0 + 1),
       v_events := v_events s @ [YieldDistributedEvent to x (unwrap_or (v_nonce s) 0)]\<rparr>"
proof -
  obtain m where m: "require_admin E s = (Ok m, s)" and h: "0 < harvested_yield s"
    using assms by (auto simp: distribute_def ok_iff)
  obtain to where to: "yield_recipient s = Ok to" "to \<noteq> current_contract_address E"
    using assms m h by (auto simp: distribute_def aseq_simps abind_simps ok_iff)
  obtain tok where tok: "v_token s = Some tok"
    using assms m h to by (auto simp: distribute_def aseq_simps abind_simps ok_iff)
  show ?thesis
    using assms m h to tok
    by (auto simp: distribute_def aseq_simps abind_simps ok_iff token_of_def intro: that)
qed

end
