(* ===== verification/Vault_Claim.thy ===== *)
theory Vault_Claim
  imports Vault_Fees Vault_Oracle Vault_Strategy
begin

text \<open>
  The claim path of the refund vault: the ceiling rule of \<open>settlement.rs\<close> and its read-only preview,
  the policy cache and \<open>claim_single\<close> of \<open>lib.rs\<close>, shared by \<open>refund\<close>, \<open>claim_batch\<close> and
  \<open>process_batch\<close>. The lemmas give the exact effect of a successful claim on the books and on the
  token ledger, and what a claim that fails leaves behind.
\<close>

section \<open>Settlement\<close>

record refund_settlement =
  rs_recipient_amount :: i128
  rs_fee :: i128
  rs_merchant_retained :: i128
  rs_cumulative_refunded :: i128

definition resolve_ceiling :: "'w vault \<Rightarrow> bytes \<Rightarrow> i128 \<Rightarrow> i128 \<Rightarrow> (i128 \<times> i128) outcome" where
  "resolve_ceiling s payment_ref amount payment_amount =
     (let (previous_refunded, record_ceiling) = (case v_refund_v2 s payment_ref of
            Some rec \<Rightarrow> (rr_amount_refunded rec, rr_payment_amount rec)
          | None \<Rightarrow> (0, payment_amount))
      in case add_amounts previous_refunded amount of
           Inr cumulative \<Rightarrow>
             if cumulative > record_ceiling \<or> record_ceiling \<le> 0 then Err ExceedsPayment
             else Ok (previous_refunded, record_ceiling)
         | Inl _ \<Rightarrow> Err MathOverflow)"

definition preview_settlement ::
  "'w vault \<Rightarrow> bytes \<Rightarrow> i128 \<Rightarrow> i128 \<Rightarrow> refund_settlement outcome" where
  "preview_settlement s payment_ref amount payment_amount =
     (if amount \<le> 0 then Err InvalidAmount
      else if v_refund_legacy s payment_ref then Err ExceedsPayment
      else obind (resolve_ceiling s payment_ref amount payment_amount) (\<lambda>(previous_refunded, ceiling).
        obind (split_amount amount (effective_fee_bps s)) (\<lambda>(fee, recipient_amount).
        obind (math_q (add_amounts previous_refunded amount)) (\<lambda>cumulative_refunded.
        obind (i128_op (ceiling - cumulative_refunded)) (\<lambda>retained.
        Ok \<lparr>rs_recipient_amount = recipient_amount, rs_fee = fee, rs_merchant_retained = retained,
            rs_cumulative_refunded = cumulative_refunded\<rparr>)))))"

section \<open>Claims\<close>

record policy_cache =
  ca_refund_window :: u32
  ca_refund_deadline :: u64
  ca_time_policy_contract :: "address option"
  ca_oracle_policy :: "oracle_policy option"
  ca_vdf_delay :: u32
  ca_vdf_policy_contract :: "address option"
  ca_token_addr :: address
  ca_fee_bps :: u32
  ca_tiers_active :: bool

definition read_policy_cache :: "('w vault, policy_cache) act" where
  "read_policy_cache = (\<lambda>s. (obind (unwrap (v_refund_window s)) (\<lambda>window.
     obind (unwrap (v_token s)) (\<lambda>tok.
     Ok \<lparr>ca_refund_window = window, ca_refund_deadline = unwrap_or (v_refund_deadline s) 0,
         ca_time_policy_contract = v_time_policy s, ca_oracle_policy = v_oracle_policy s,
         ca_vdf_delay = unwrap_or (v_vdf_delay s) 0, ca_vdf_policy_contract = v_vdf_policy s,
         ca_token_addr = tok,
         ca_fee_bps = (case v_tier_state s of Some st \<Rightarrow> ts_fee_bps st | None \<Rightarrow> unwrap_or (v_fee_bps s) 0),
         ca_tiers_active = (v_tier_state s \<noteq> None)\<rparr>)), s))"

text \<open>A policy is called through a client that turns its error into a trap.\<close>

definition evaluate_gate ::
  "'w externals \<Rightarrow> address \<Rightarrow> policy_params \<Rightarrow> policy_context \<Rightarrow> ('w vault, unit) act" where
  "evaluate_gate X contract params ctx = abind (aread world) (\<lambda>w.
     alift (case ex_policy X w contract params ctx of Ok u \<Rightarrow> Ok () | _ \<Rightarrow> Trap))"

definition claim_context :: "env \<Rightarrow> refund_claim \<Rightarrow> bytes option \<Rightarrow> policy_context" where
  "claim_context E claim vdf_proof =
     \<lparr>pc_payment_ref = rc_payment_ref claim, pc_amount = rc_amount claim,
      pc_paid_at_ledger = rc_paid_at_ledger claim, pc_current_ledger = sequence E,
      pc_timestamp = timestamp E, pc_vdf_proof = vdf_proof\<rparr>"

definition time_gate :: "'w externals \<Rightarrow> env \<Rightarrow> policy_cache \<Rightarrow> refund_claim \<Rightarrow> ('w vault, unit) act" where
  "time_gate X E cache claim =
     (if ca_refund_window cache > 0 \<or> ca_refund_deadline cache > 0
      then abind (alift (ok_or (ca_time_policy_contract cache) PolicyContractsNotConfigured)) (\<lambda>contract.
        evaluate_gate X contract (TimePolicyParams (ca_refund_window cache) (ca_refund_deadline cache))
          (claim_context E claim None))
      else aret ())"

definition oracle_gate :: "'w externals \<Rightarrow> env \<Rightarrow> policy_cache \<Rightarrow> ('w vault, unit) act" where
  "oracle_gate X E cache = (case ca_oracle_policy cache of
     None \<Rightarrow> aret ()
   | Some policy \<Rightarrow> abind (aread (\<lambda>s. evaluate_policy X E s policy)) (\<lambda>r.
       abind (alift r) (\<lambda>ok. arefuse (\<not> ok) OraclePolicyDenied)))"

definition cooldown_gate :: "env \<Rightarrow> ('w vault, unit) act" where
  "cooldown_gate E = abind (aread (\<lambda>s. unwrap_or (v_claim_cooldown s) 0)) (\<lambda>cooldown.
     abind (aread (\<lambda>s. unwrap_or (v_last_claim s) 0)) (\<lambda>last.
     arefuse (cooldown > 0 \<and> timestamp E < u64_saturating_add last cooldown) ClaimCooldownNotElapsed))"

definition vdf_gate :: "'w externals \<Rightarrow> env \<Rightarrow> policy_cache \<Rightarrow> refund_claim \<Rightarrow> ('w vault, unit) act" where
  "vdf_gate X E cache claim =
     (if ca_vdf_delay cache = 0 then arefuse (rc_vdf_proof claim \<noteq> None) VdfNotConfigured
      else abind (alift (ok_or (ca_vdf_policy_contract cache) PolicyContractsNotConfigured)) (\<lambda>contract.
        evaluate_gate X contract (VdfPolicyParams (ca_vdf_delay cache))
          (claim_context E claim (rc_vdf_proof claim))))"

text \<open>Everything that is checked before the books are read.\<close>

definition claim_gates :: "'w externals \<Rightarrow> env \<Rightarrow> policy_cache \<Rightarrow> refund_claim \<Rightarrow> ('w vault, unit) act" where
  "claim_gates X E cache claim =
     aseq (arefuse (rc_amount claim \<le> 0) InvalidAmount)
     (aseq (arefuse (rc_recipient claim = current_contract_address E) SelfTransfer)
     (abind (aread (\<lambda>s. v_refund_legacy s (rc_payment_ref claim))) (\<lambda>legacy.
      aseq (arefuse legacy ExceedsPayment)
      (aseq (time_gate X E cache claim)
      (aseq (oracle_gate X E cache)
      (aseq (cooldown_gate E) (vdf_gate X E cache claim)))))))"

text \<open>The transfers: the fee recipient is resolved first, and only when there is a fee.\<close>

definition pay_out ::
  "'w externals \<Rightarrow> env \<Rightarrow> address \<Rightarrow> address \<Rightarrow> i128 \<Rightarrow> i128 \<Rightarrow> ('w vault, unit) act" where
  "pay_out X E tok recipient fee payout =
     (let vault = current_contract_address E in
      abind (if fee > 0
             then abind active_fee_recipient (\<lambda>r. aseq (arefuse (r = vault) SelfTransfer) (aret (Some r)))
             else aret None) (\<lambda>fee_recipient.
      aseq (transfer X tok vault recipient payout)
      (case fee_recipient of Some r \<Rightarrow> transfer X tok vault r fee | None \<Rightarrow> aret ())))"

definition record_claim ::
  "env \<Rightarrow> refund_claim \<Rightarrow> i128 \<Rightarrow> i128 \<Rightarrow> ('w vault, i128) act" where
  "record_claim E claim previous_refunded record_ceiling =
     abind (alift (math_q (add_amounts previous_refunded (rc_amount claim)))) (\<lambda>cumulative_refunded.
     aseq (amodify (\<lambda>s. s\<lparr>v_refund_v2 := (v_refund_v2 s)(rc_payment_ref claim \<mapsto>
       \<lparr>rr_amount_refunded = cumulative_refunded, rr_payment_amount = record_ceiling,
        rr_paid_at_ledger = rc_paid_at_ledger claim, rr_recipient = rc_recipient claim,
        rr_ledger = sequence E\<rparr>), v_last_claim := Some (timestamp E)\<rparr>))
     (aret cumulative_refunded))"

definition claim_single ::
  "'w externals \<Rightarrow> env \<Rightarrow> policy_cache \<Rightarrow> refund_claim \<Rightarrow> ('w vault, unit) act" where
  "claim_single X E cache claim =
     (let vault = current_contract_address E; tok = ca_token_addr cache; amount = rc_amount claim in
      aseq (claim_gates X E cache claim)
      (abind (aread (\<lambda>s. resolve_ceiling s (rc_payment_ref claim) amount (rc_payment_amount claim))) (\<lambda>c.
       abind (alift c) (\<lambda>(previous_refunded, record_ceiling).
       abind (balance X tok vault) (\<lambda>bal.
       abind (ensure_liquidity X E tok bal amount) (\<lambda>bal.
       aseq (arefuse (bal < amount) InsufficientFloat)
       (abind (alift (split_amount amount (ca_fee_bps cache))) (\<lambda>(fee, payout).
       aseq (pay_out X E tok (rc_recipient claim) fee payout)
       (abind (record_claim E claim previous_refunded record_ceiling) (\<lambda>cumulative_refunded.
       abind increment_nonce (\<lambda>nonce.
       aseq (publish (RefundEvent (rc_payment_ref claim) amount fee cumulative_refunded
               (rc_recipient claim) (sequence E) nonce))
       (if ca_tiers_active cache then on_settled amount else aret ()))))))))))))"

section \<open>Gates and ceiling\<close>

lemma keeps_gates [keeps_intro]: "keeps P (claim_gates X E cache claim)"
  unfolding claim_gates_def time_gate_def oracle_gate_def cooldown_gate_def vdf_gate_def evaluate_gate_def
  by (intro keeps_intro)

lemma claim_gates_state: "claim_gates X E cache claim s = (r, s') \<Longrightarrow> s' = s"
  using keepsD [OF keeps_gates [where P = "\<lambda>t. t = s"]] by metis

definition gates_ok :: "'w externals \<Rightarrow> env \<Rightarrow> policy_cache \<Rightarrow> refund_claim \<Rightarrow> 'w vault \<Rightarrow> bool" where
  "gates_ok X E cache claim s \<longleftrightarrow> fst (claim_gates X E cache claim s) = Ok ()"

lemma claim_gates_Ok_iff [ok_iff]:
  "claim_gates X E cache claim s = (Ok u, s') \<longleftrightarrow> gates_ok X E cache claim s \<and> s' = s"
  using claim_gates_state [of X E cache claim s] by (auto simp: gates_ok_def prod_eq_iff)

lemma gates_ok_iff:
  "gates_ok X E cache claim s \<longleftrightarrow> 0 < rc_amount claim \<and>
     rc_recipient claim \<noteq> current_contract_address E \<and> \<not> v_refund_legacy s (rc_payment_ref claim) \<and>
     (ca_refund_window cache > 0 \<or> ca_refund_deadline cache > 0 \<longrightarrow>
        (\<exists>p. ca_time_policy_contract cache = Some p \<and> ex_policy X (world s) p
           (TimePolicyParams (ca_refund_window cache) (ca_refund_deadline cache))
           (claim_context E claim None) = Ok ())) \<and>
     (\<forall>p. ca_oracle_policy cache = Some p \<longrightarrow> evaluate_policy X E s p = Ok True) \<and>
     (0 < unwrap_or (v_claim_cooldown s) 0 \<longrightarrow>
        u64_saturating_add (unwrap_or (v_last_claim s) 0) (unwrap_or (v_claim_cooldown s) 0) \<le> timestamp E) \<and>
     (ca_vdf_delay cache = 0 \<longrightarrow> rc_vdf_proof claim = None) \<and>
     (ca_vdf_delay cache \<noteq> 0 \<longrightarrow> (\<exists>p. ca_vdf_policy_contract cache = Some p \<and> ex_policy X (world s) p
        (VdfPolicyParams (ca_vdf_delay cache)) (claim_context E claim (rc_vdf_proof claim)) = Ok ()))"
proof -
  have gate: "evaluate_gate X p params ctx t = (Ok u, t') \<longleftrightarrow>
      ex_policy X (world t) p params ctx = Ok () \<and> t' = t" for p params ctx t u t'
    by (auto simp: evaluate_gate_def ok_iff split: result.splits)
  have tg: "time_gate X E cache claim t = (Ok u, t') \<longleftrightarrow> t' = t \<and>
      (ca_refund_window cache > 0 \<or> ca_refund_deadline cache > 0 \<longrightarrow>
        (\<exists>p. ca_time_policy_contract cache = Some p \<and> ex_policy X (world t) p
           (TimePolicyParams (ca_refund_window cache) (ca_refund_deadline cache))
           (claim_context E claim None) = Ok ()))" for t u t'
    by (auto simp: time_gate_def ok_iff gate)
  have og: "oracle_gate X E cache t = (Ok u, t') \<longleftrightarrow> t' = t \<and>
      (\<forall>p. ca_oracle_policy cache = Some p \<longrightarrow> evaluate_policy X E t p = Ok True)" for t u t'
    by (auto simp: oracle_gate_def ok_iff split: option.splits)
  have cg: "cooldown_gate E t = (Ok u, t') \<longleftrightarrow> t' = t \<and> (0 < unwrap_or (v_claim_cooldown t) 0 \<longrightarrow>
      u64_saturating_add (unwrap_or (v_last_claim t) 0) (unwrap_or (v_claim_cooldown t) 0) \<le> timestamp E)"
    for t :: "'a vault" and u t' by (auto simp: cooldown_gate_def ok_iff)
  have vg: "vdf_gate X E cache claim t = (Ok u, t') \<longleftrightarrow> t' = t \<and>
     (ca_vdf_delay cache = 0 \<longrightarrow> rc_vdf_proof claim = None) \<and>
     (ca_vdf_delay cache \<noteq> 0 \<longrightarrow> (\<exists>p. ca_vdf_policy_contract cache = Some p \<and> ex_policy X (world t) p
        (VdfPolicyParams (ca_vdf_delay cache)) (claim_context E claim (rc_vdf_proof claim)) = Ok ()))" for t u t'
    by (auto simp: vdf_gate_def ok_iff gate)
  have "gates_ok X E cache claim s \<longleftrightarrow> claim_gates X E cache claim s = (Ok (), s)"
    by (simp add: claim_gates_Ok_iff)
  then show ?thesis unfolding claim_gates_def aseq_Ok_iff abind_Ok_iff arefuse_Ok_iff aread_iff tg og cg vg
    by (simp add: not_le not_less)
qed

definition refunded :: "'w vault \<Rightarrow> bytes \<Rightarrow> i128" where
  "refunded s payment_ref = (case v_refund_v2 s payment_ref of
     Some rec \<Rightarrow> rr_amount_refunded rec | None \<Rightarrow> 0)"

definition ceiling_of :: "'w vault \<Rightarrow> bytes \<Rightarrow> i128 \<Rightarrow> i128" where
  "ceiling_of s payment_ref payment_amount = (case v_refund_v2 s payment_ref of
     Some rec \<Rightarrow> rr_payment_amount rec | None \<Rightarrow> payment_amount)"

lemma resolve_ceiling_eq:
  "resolve_ceiling s r x p =
     (if \<not> in_i128 (refunded s r + x) then Err MathOverflow
      else if ceiling_of s r p < refunded s r + x \<or> ceiling_of s r p \<le> 0 then Err ExceedsPayment
      else Ok (refunded s r, ceiling_of s r p))"
  by (auto simp: resolve_ceiling_def refunded_def ceiling_of_def math_defs split: option.splits)

lemma resolve_ceiling_Ok_iff [ok_iff]:
  "resolve_ceiling s r x p = Ok c \<longleftrightarrow> in_i128 (refunded s r + x) \<and> 0 < ceiling_of s r p \<and>
     refunded s r + x \<le> ceiling_of s r p \<and> c = (refunded s r, ceiling_of s r p)"
  by (auto simp: resolve_ceiling_eq)

section \<open>The transfers of a claim\<close>

lemma pay_out_Ok:
  assumes "pay_out X E tok a fee payout s = (Ok (), s')"
  obtains w1 w2 r where "tok_transfer (ex_token X) (world s) tok (current_contract_address E) a payout = Some w1"
    "fee > 0 \<longrightarrow> (v_fee_recipient s = Some r \<or> v_fee_recipient s = None \<and> v_admin s = Some r) \<and>
       r \<noteq> current_contract_address E \<and>
       tok_transfer (ex_token X) w1 tok (current_contract_address E) r fee = Some w2"
    "fee \<le> 0 \<longrightarrow> w2 = w1" "s' = s\<lparr>world := w2\<rparr>"
proof (cases "fee > 0")
  case True
  with assms obtain r w1 w2 where "v_fee_recipient s = Some r \<or> v_fee_recipient s = None \<and> v_admin s = Some r"
      "r \<noteq> current_contract_address E"
      "tok_transfer (ex_token X) (world s) tok (current_contract_address E) a payout = Some w1"
      "tok_transfer (ex_token X) w1 tok (current_contract_address E) r fee = Some w2" "s' = s\<lparr>world := w2\<rparr>"
    by (fastforce simp: pay_out_def Let_def ok_iff)
  then show ?thesis using True by (intro that [of w1 _ w2]) auto
next
  case False
  with assms obtain w1 where
      "tok_transfer (ex_token X) (world s) tok (current_contract_address E) a payout = Some w1"
      "s' = s\<lparr>world := w1\<rparr>"
    by (auto simp: pay_out_def Let_def ok_iff)
  then show ?thesis using False by (intro that [of w1]) auto
qed

lemma pay_out_Err: "pay_out X E tok a fee payout s = (Err e, s') \<Longrightarrow> s' = s"
  by (auto simp: pay_out_def Let_def err_iff ok_iff split: option.splits if_splits)

text \<open>Under the token's documented behaviour a claim moves exactly the amount out of the vault.\<close>

lemma pay_out_moves:
  assumes "pay_out X E tok a fee payout s = (Ok (), s')" "sep41 (ex_token X)"
    and "a \<noteq> current_contract_address E" "0 \<le> fee"
  shows "tok_balance (ex_token X) (world s') tok (current_contract_address E) =
      tok_balance (ex_token X) (world s) tok (current_contract_address E) - (payout + fee)"
    "tok_balance (ex_token X) (world s) tok a + payout \<le> tok_balance (ex_token X) (world s') tok a"
    "tok_balance (ex_token X) (world s') tok' b \<noteq> tok_balance (ex_token X) (world s) tok' b \<Longrightarrow>
      tok' = tok \<and> (b = a \<or> b = current_contract_address E \<or> v_fee_recipient s = Some b \<or> v_admin s = Some b)"
    "0 \<le> payout"
proof -
  let ?T = "ex_token X" and ?v = "current_contract_address E"
  obtain w1 w2 r where w1: "tok_transfer ?T (world s) tok ?v a payout = Some w1"
    and w2: "fee > 0 \<longrightarrow> (v_fee_recipient s = Some r \<or> v_fee_recipient s = None \<and> v_admin s = Some r) \<and>
       r \<noteq> ?v \<and> tok_transfer ?T w1 tok ?v r fee = Some w2"
    and z: "fee \<le> 0 \<longrightarrow> w2 = w1" and s': "s' = s\<lparr>world := w2\<rparr>"
    using assms(1) by (rule pay_out_Ok) (rule that)
  note m1 = sep41D [OF assms(2) w1]
  have m2: "tok_balance ?T w2 t b = tok_balance ?T w1 t b - (if t = tok \<and> b = ?v then fee else 0) +
      (if t = tok \<and> b = r \<and> 0 < fee then fee else 0)" for t b
    using sep41D(3) [OF assms(2), of w1 tok ?v r fee w2 t b] w2 z assms(4) by (cases "fee > 0") auto
  have r: "0 < fee \<longrightarrow> r \<noteq> ?v \<and> (v_fee_recipient s = Some r \<or> v_admin s = Some r)" using w2 by auto
  show "0 \<le> payout" by (rule m1)
  show "tok_balance ?T (world s') tok ?v = tok_balance ?T (world s) tok ?v - (payout + fee)"
    using m1(3) m2 r assms(3) by (auto simp: s')
  show "tok_balance ?T (world s) tok a + payout \<le> tok_balance ?T (world s') tok a"
    using m1(3) m2 assms(3,4) by (auto simp: s')
  show "tok' = tok \<and> (b = a \<or> b = ?v \<or> v_fee_recipient s = Some b \<or> v_admin s = Some b)"
    if "tok_balance ?T (world s') tok' b \<noteq> tok_balance ?T (world s) tok' b"
    using that r by (auto simp: s' m2 m1(3) split: if_splits)
qed

section \<open>The effect of a claim\<close>

definition claimed_record :: "env \<Rightarrow> 'w vault \<Rightarrow> refund_claim \<Rightarrow> refund_record" where
  "claimed_record E s claim =
     \<lparr>rr_amount_refunded = refunded s (rc_payment_ref claim) + rc_amount claim,
      rr_payment_amount = ceiling_of s (rc_payment_ref claim) (rc_payment_amount claim),
      rr_paid_at_ledger = rc_paid_at_ledger claim, rr_recipient = rc_recipient claim,
      rr_ledger = sequence E\<rparr>"

text \<open>The state a claim has reached when only the tier bookkeeping is left.\<close>

definition claimed_state :: "env \<Rightarrow> 'w vault \<Rightarrow> refund_claim \<Rightarrow> i128 \<Rightarrow> 'w vault \<Rightarrow> 'w vault" where
  "claimed_state E s claim fee t = t\<lparr>v_refund_v2 := (v_refund_v2 t)(rc_payment_ref claim \<mapsto> claimed_record E s claim),
     v_last_claim := Some (timestamp E), v_nonce := Some (unwrap_or (v_nonce t) 0 + 1),
     v_events := v_events t @ [RefundEvent (rc_payment_ref claim) (rc_amount claim) fee
       (refunded s (rc_payment_ref claim) + rc_amount claim) (rc_recipient claim) (sequence E)
       (unwrap_or (v_nonce t) 0)]\<rparr>"

lemma claim_single_Ok:
  assumes "claim_single X E cache claim s = (Ok (), s')"
  obtains fee payout b t u where
    "gates_ok X E cache claim s"
    "in_i128 (refunded s (rc_payment_ref claim) + rc_amount claim)"
    "0 < ceiling_of s (rc_payment_ref claim) (rc_payment_amount claim)"
    "refunded s (rc_payment_ref claim) + rc_amount claim
       \<le> ceiling_of s (rc_payment_ref claim) (rc_payment_amount claim)"
    "ensure_liquidity X E (ca_token_addr cache) (tok_balance (ex_token X) (world s) (ca_token_addr cache)
       (current_contract_address E)) (rc_amount claim) s = (Ok b, t)"
    "rc_amount claim \<le> b" "split_amount (rc_amount claim) (ca_fee_bps cache) = Ok (fee, payout)"
    "pay_out X E (ca_token_addr cache) (rc_recipient claim) fee payout t = (Ok (), u)"
    "(if ca_tiers_active cache then on_settled (rc_amount claim) else aret ()) (claimed_state E s claim fee u) = (Ok (), s')"
  using assms
  by (auto simp: claim_single_def record_claim_def claimed_state_def claimed_record_def ok_iff Let_def
      not_less simp del: act_simps intro!: that)

text \<open>
  A claim that ends in an error has paid nothing and recorded nothing; at most principal was recalled
  on its way.
\<close>

lemma on_settled_no_Err [err_iff]: "on_settled x s \<noteq> (Err e, s')"
  by (auto simp: on_settled_def Let_def err_iff ok_iff split: option.splits if_splits)

lemma refund_fee_no_Err [err_iff]: "refund_fee x b \<noteq> Err e"
  by (auto simp: refund_fee_def Let_def err_iff math_expect_def split: sum.splits)

lemma split_amount_no_Err [err_iff]: "split_amount x b \<noteq> Err e"
  by (auto simp: split_amount_def err_iff)

lemma claim_single_Err:
  assumes "claim_single X E cache claim s = (Err e, s')"
  shows "same_claims s s'"
proof -
  note keeps = keepsD [OF keeps_ensure_liquidity same_claims_refl]
  let ?bal = "tok_balance (ex_token X) (world s) (ca_token_addr cache) (current_contract_address E)"
  consider "claim_gates X E cache claim s = (Err e, s')" | "s' = s"
    | r where "ensure_liquidity X E (ca_token_addr cache) ?bal (rc_amount claim) s = (r, s')"
    | b t fee payout where "ensure_liquidity X E (ca_token_addr cache) ?bal (rc_amount claim) s = (Ok b, t)"
      "pay_out X E (ca_token_addr cache) (rc_recipient claim) fee payout t = (Err e, s')"
    using assms
    by (auto simp: claim_single_def record_claim_def err_iff ok_iff Let_def math_q_def error_of_math_def
        math_defs simp del: act_simps split: sum.splits if_splits)
  then show ?thesis
  proof cases
    case 1
    then have "s' = s" by (rule claim_gates_state)
    then show ?thesis by simp
  next
    case (4 b t fee payout)
    from 4(2) have "s' = t" by (rule pay_out_Err)
    then show ?thesis using keeps [OF 4(1)] by simp
  qed (simp_all add: keeps)
qed

section \<open>The ceiling\<close>

text \<open>
  The books of the vault: what was refunded for a payment is positive and never exceeds the ceiling
  recorded with it.
\<close>

definition books_inv :: "'w vault \<Rightarrow> bool" where
  "books_inv s \<longleftrightarrow> (\<forall>r rec. v_refund_v2 s r = Some rec \<longrightarrow>
     0 < rr_amount_refunded rec \<and> rr_amount_refunded rec \<le> rr_payment_amount rec)"

lemma books_inv_bounds: "books_inv s \<Longrightarrow> 0 \<le> refunded s r"
  by (fastforce simp: books_inv_def refunded_def split: option.splits)

lemma on_settled_frame:
  assumes "on_settled x s = (r, s')"
  shows "s' = s\<lparr>v_tier_state := v_tier_state s', v_events := v_events s'\<rparr>"
  using assms
  by (auto simp: on_settled_def Let_def abind_simps aseq_simps publish_def split: option.splits if_splits)

lemma claim_single_books:
  assumes "claim_single X E cache claim s = (Ok (), s')"
  shows "v_refund_v2 s' = (v_refund_v2 s)(rc_payment_ref claim \<mapsto> claimed_record E s claim)"
    "v_last_claim s' = Some (timestamp E)" "v_user_nonce s' = v_user_nonce s"
    "v_guard_lock s' = v_guard_lock s" "v_admin s' = v_admin s" "v_token s' = v_token s"
    "v_refund_legacy s' = v_refund_legacy s" "v_is_paused s' = v_is_paused s"
    "v_fee_recipient s' = v_fee_recipient s" "v_tier_ladder s' = v_tier_ladder s"
proof -
  obtain fee payout b t u where
    l: "ensure_liquidity X E (ca_token_addr cache) (tok_balance (ex_token X) (world s) (ca_token_addr cache)
       (current_contract_address E)) (rc_amount claim) s = (Ok b, t)"
    and p: "pay_out X E (ca_token_addr cache) (rc_recipient claim) fee payout t = (Ok (), u)"
    and o: "(if ca_tiers_active cache then on_settled (rc_amount claim) else aret ())
      (claimed_state E s claim fee u) = (Ok (), s')"
    using assms by (rule claim_single_Ok)
  have t: "same_claims s t" using keepsD [OF keeps_ensure_liquidity same_claims_refl l] .
  obtain w where u: "u = t\<lparr>world := w\<rparr>" using p by (rule pay_out_Ok)
  have s': "s' = (claimed_state E s claim fee u)\<lparr>v_tier_state := v_tier_state s', v_events := v_events s'\<rparr>"
  proof (cases "ca_tiers_active cache")
    case True
    then show ?thesis using o on_settled_frame by simp
  qed (use o in simp)
  show "v_refund_v2 s' = (v_refund_v2 s)(rc_payment_ref claim \<mapsto> claimed_record E s claim)"
    "v_last_claim s' = Some (timestamp E)" "v_user_nonce s' = v_user_nonce s"
    "v_guard_lock s' = v_guard_lock s" "v_admin s' = v_admin s" "v_token s' = v_token s"
    "v_refund_legacy s' = v_refund_legacy s" "v_is_paused s' = v_is_paused s"
    "v_fee_recipient s' = v_fee_recipient s" "v_tier_ladder s' = v_tier_ladder s"
    using t by (subst s', simp add: claimed_state_def u same_claims_def)+
qed

lemma claim_single_inv:
  assumes "claim_single X E cache claim s = (Ok (), s')" "books_inv s"
  shows "books_inv s'"
proof -
  have "0 < rc_amount claim" "refunded s (rc_payment_ref claim) + rc_amount claim
      \<le> ceiling_of s (rc_payment_ref claim) (rc_payment_amount claim)"
    using claim_single_Ok [OF assms(1)] by (metis gates_ok_iff)+
  then show ?thesis
    using assms(2) books_inv_bounds [OF assms(2), of "rc_payment_ref claim"] claim_single_books(1) [OF assms(1)]
    by (auto simp: books_inv_def claimed_record_def)
qed

text \<open>A later claim cannot raise the ceiling the first claim of a payment fixed.\<close>

lemma claim_single_ceiling:
  assumes "claim_single X E cache claim s = (Ok (), s')" "v_refund_v2 s r = Some rec"
  obtains rec' where "v_refund_v2 s' r = Some rec'" "rr_payment_amount rec' = rr_payment_amount rec"
    "rr_amount_refunded rec \<le> rr_amount_refunded rec'"
proof -
  have "0 < rc_amount claim" using claim_single_Ok [OF assms(1)] by (metis gates_ok_iff)
  then show ?thesis
    using that claim_single_books(1) [OF assms(1)] assms(2)
    by (cases "r = rc_payment_ref claim") (auto simp: claimed_record_def ceiling_of_def refunded_def)
qed

text \<open>The preview announces exactly the split the claim then makes.\<close>

lemma preview_settlement_exact:
  assumes "claim_single X E cache claim s = (Ok (), s')" "read_policy_cache s = (Ok cache, s)"
    and "books_inv s" "in_i128 (ceiling_of s (rc_payment_ref claim) (rc_payment_amount claim))"
  obtains p where "preview_settlement s (rc_payment_ref claim) (rc_amount claim) (rc_payment_amount claim) = Ok p"
    "rs_cumulative_refunded p = refunded s' (rc_payment_ref claim)"
    "rs_merchant_retained p = ceiling_of s' (rc_payment_ref claim) (rc_payment_amount claim) - refunded s' (rc_payment_ref claim)"
    "split_amount (rc_amount claim) (ca_fee_bps cache) = Ok (rs_fee p, rs_recipient_amount p)"
proof -
  obtain fee payout where g: "gates_ok X E cache claim s"
    and c: "in_i128 (refunded s (rc_payment_ref claim) + rc_amount claim)"
      "0 < ceiling_of s (rc_payment_ref claim) (rc_payment_amount claim)"
      "refunded s (rc_payment_ref claim) + rc_amount claim
       \<le> ceiling_of s (rc_payment_ref claim) (rc_payment_amount claim)"
    and sp: "split_amount (rc_amount claim) (ca_fee_bps cache) = Ok (fee, payout)"
    using assms(1) by (rule claim_single_Ok)
  have fee: "effective_fee_bps s = ca_fee_bps cache"
    using assms(2) by (auto simp: read_policy_cache_def ok_iff effective_fee_bps_def split: option.splits)
  let ?r = "rc_payment_ref claim"
  have "in_i128 (ceiling_of s ?r (rc_payment_amount claim) - (refunded s ?r + rc_amount claim))"
    using c(3) g assms(4) books_inv_bounds [OF assms(3), of ?r] by (auto simp: gates_ok_iff in_i128_def)
  then have "preview_settlement s ?r (rc_amount claim) (rc_payment_amount claim) = Ok
      \<lparr>rs_recipient_amount = payout, rs_fee = fee,
       rs_merchant_retained = ceiling_of s ?r (rc_payment_amount claim) - (refunded s ?r + rc_amount claim),
       rs_cumulative_refunded = refunded s ?r + rc_amount claim\<rparr>"
    using g c sp fee by (simp add: preview_settlement_def gates_ok_iff resolve_ceiling_eq i128_op_def
        math_amounts_Inr)
  then show ?thesis
    by (rule that) (simp_all add: sp claim_single_books(1) [OF assms(1)] refunded_def ceiling_of_def
        claimed_record_def)
qed

end
