(* ===== verification/Refund_Vault.thy ===== *)
theory Refund_Vault
  imports Vault_Claim
begin

text \<open>
  The entry points of the refund vault in \<open>refund-vault/src/lib.rs\<close>: construction, deposits, refunds
  and batches of refunds, withdrawals, the time-locked refund policy, commit and reveal, oracle and
  fee configuration, pausing, and the transfer of administration. Time-to-live extensions change no
  value; \<open>extend_refund_ttl\<close> keeps its checks. \<open>upgrade_wasm\<close> replaces the code itself and is not an
  operation on the state.
\<close>

section \<open>Construction\<close>

definition INITIAL_STORAGE_VERSION :: u32 where
  "INITIAL_STORAGE_VERSION = 1"

text \<open>\<open>H\<close> is SHA-256 and \<open>strkey\<close> the textual form of an address.\<close>

definition vault_constructor ::
  "(bytes \<Rightarrow> bytes) \<Rightarrow> (address \<Rightarrow> bytes) \<Rightarrow> env \<Rightarrow> vault_init \<Rightarrow> ('w vault, unit) act" where
  "vault_constructor H strkey E init =
     abind (aread v_admin) (\<lambda>a.
     aseq (arefuse (a \<noteq> None) AlreadyInitialized)
     (amodify (\<lambda>s. s\<lparr>v_admin := Some (vi_merchant init), v_token := Some (vi_token init),
        v_refund_window := Some (vi_refund_window init), v_refund_deadline := Some (vi_deadline init),
        v_vdf_delay := Some (vi_vdf_delay init), v_fee_bps := Some (vi_fee_bps init),
        v_fee_recipient := (case vi_fee_recipient init of None \<Rightarrow> v_fee_recipient s | Some r \<Rightarrow> Some r),
        v_time_policy := (case vi_time_policy init of None \<Rightarrow> v_time_policy s | Some p \<Rightarrow> Some p),
        v_vdf_policy := (case vi_vdf_policy init of None \<Rightarrow> v_vdf_policy s | Some p \<Rightarrow> Some p),
        v_storage_version := Some INITIAL_STORAGE_VERSION,
        v_domain_separator := Some (H (strkey (current_contract_address E))), v_nonce := Some 0\<rparr>)))"

definition get_domain_separator :: "'w vault \<Rightarrow> bytes outcome" where
  "get_domain_separator s = ok_or (v_domain_separator s) NotInitialized"

definition get_nonce :: "'w vault \<Rightarrow> u64" where
  "get_nonce s = unwrap_or (v_nonce s) 0"

definition get_user_nonce :: "'w vault \<Rightarrow> address \<Rightarrow> u64" where
  "get_user_nonce s caller = current_user_nonce s caller"

section \<open>Deposits, coupons and the token\<close>

definition use_coupon :: "address \<Rightarrow> i128 \<Rightarrow> u64 option \<Rightarrow> ('w vault, i128) act" where
  "use_coupon from amount coupon_id = (case coupon_id of
     None \<Rightarrow> aret amount
   | Some i \<Rightarrow>
       abind (aread (\<lambda>s. get_coupon s i)) (\<lambda>c.
       abind (alift (ok_or c CouponNotFound)) (\<lambda>c.
       abind (apply_coupon from i amount) (\<lambda>eff.
       aseq (publish (CouponAppliedEvent i from amount eff (co_discount_bps c))) (aret eff)))))"

definition deposit ::
  "'w externals \<Rightarrow> env \<Rightarrow> address \<Rightarrow> i128 \<Rightarrow> u64 option \<Rightarrow> ('w vault, unit) act" where
  "deposit X E from amount coupon_id =
     aseq guard_acquire
     (aseq refuse_paused
     (aseq (arefuse (amount \<le> 0) InvalidAmount)
     (abind admin_of (\<lambda>admin.
      aseq (arefuse (from \<noteq> admin) Unauthorized)
      (aseq (alift (require_auth E admin))
      (abind (use_coupon from amount coupon_id) (\<lambda>effective_amount.
      abind token_of (\<lambda>tok.
      aseq (transfer X tok admin (current_contract_address E) effective_amount)
      (abind increment_nonce (\<lambda>nonce.
      aseq (publish (DepositEvent from effective_amount nonce)) guard_release))))))))))"

definition mint_coupon :: "env \<Rightarrow> u64 \<Rightarrow> address \<Rightarrow> u32 \<Rightarrow> ('w vault, unit) act" where
  "mint_coupon E coupon_id owner discount_bps =
     aseq (require_admin E) (coupons_mint_coupon coupon_id owner discount_bps)"

definition set_token :: "'w externals \<Rightarrow> env \<Rightarrow> address \<Rightarrow> ('w vault, unit) act" where
  "set_token X E new_token =
     aseq (require_admin E)
     (abind (aread v_token) (\<lambda>t.
      abind (alift (unwrap t)) (\<lambda>current_token.
      abind (balance X current_token (current_contract_address E)) (\<lambda>bal.
      aseq (arefuse (bal > 0) FloatNotEmpty)
      (amodify (\<lambda>s. s\<lparr>v_token := Some new_token\<rparr>))))))"

section \<open>Refunds\<close>

definition VAULT_MAX_BATCH_SIZE :: u32 where
  "VAULT_MAX_BATCH_SIZE = 100"

definition refund ::
  "'w externals \<Rightarrow> env \<Rightarrow> bytes \<Rightarrow> address \<Rightarrow> i128 \<Rightarrow> u32 \<Rightarrow> i128 \<Rightarrow> bytes option \<Rightarrow> u64 \<Rightarrow>
    ('w vault, unit) act" where
  "refund X E payment_ref recipient amount paid_at_ledger payment_amount vdf_proof nonce =
     aseq guard_acquire
     (aseq refuse_paused
     (abind (require_admin E) (\<lambda>merchant.
      aseq (check_and_bump_user_nonce merchant nonce)
      (abind read_policy_cache (\<lambda>cache.
      aseq (claim_single X E cache
        \<lparr>rc_payment_ref = payment_ref, rc_recipient = recipient, rc_amount = amount,
         rc_paid_at_ledger = paid_at_ledger, rc_payment_amount = payment_amount,
         rc_vdf_proof = vdf_proof\<rparr>)
      guard_release)))))"

definition claim_batch :: "'w externals \<Rightarrow> env \<Rightarrow> refund_claim list \<Rightarrow> u64 \<Rightarrow> ('w vault, unit) act" where
  "claim_batch X E claims nonce =
     aseq (arefuse (length claims > VAULT_MAX_BATCH_SIZE) BatchTooLarge)
     (aseq guard_acquire
     (aseq refuse_paused
     (abind (require_admin E) (\<lambda>merchant.
      aseq (check_and_bump_user_nonce merchant nonce)
      (abind read_policy_cache (\<lambda>cache.
      aseq (afor (claim_single X E cache) claims) guard_release))))))"

definition claim_of_param :: "refund_param \<Rightarrow> refund_claim" where
  "claim_of_param item = \<lparr>rc_payment_ref = rp_payment_ref item, rc_recipient = rp_recipient item,
     rc_amount = rp_amount item, rc_paid_at_ledger = rp_paid_at_ledger item,
     rc_payment_amount = rp_payment_amount item, rc_vdf_proof = rp_vdf_proof item\<rparr>"

text \<open>Best effort: the error of an item becomes \<open>false\<close>, and what the item wrote stays.\<close>

definition process_batch ::
  "'w externals \<Rightarrow> env \<Rightarrow> refund_param list \<Rightarrow> u64 \<Rightarrow> ('w vault, bool list) act" where
  "process_batch X E refunds nonce =
     aseq (arefuse (length refunds > VAULT_MAX_BATCH_SIZE) BatchTooLarge)
     (aseq refuse_paused
     (abind (require_admin E) (\<lambda>merchant.
      if refunds = [] then aret []
      else
        aseq (check_and_bump_user_nonce merchant nonce)
        (abind read_policy_cache (\<lambda>cache.
         abind (amap (\<lambda>item. ais_ok (claim_single X E cache (claim_of_param item))) refunds) (\<lambda>results.
         aseq (publish (BatchRefundEvent (map rp_payment_ref refunds) results)) (aret results)))))))"

definition withdraw :: "'w externals \<Rightarrow> env \<Rightarrow> i128 \<Rightarrow> address \<Rightarrow> ('w vault, unit) act" where
  "withdraw X E amount to =
     aseq guard_acquire
     (aseq refuse_paused
     (aseq (arefuse (amount \<le> 0) InvalidAmount)
     (aseq (arefuse (to = current_contract_address E) SelfTransfer)
     (aseq (require_admin E)
     (abind token_of (\<lambda>tok.
      abind (balance X tok (current_contract_address E)) (\<lambda>bal.
      abind (ensure_liquidity X E tok bal amount) (\<lambda>bal.
      aseq (arefuse (bal < amount) InsufficientFloat)
      (aseq (transfer X tok (current_contract_address E) to amount)
      (abind increment_nonce (\<lambda>nonce.
      aseq (publish (WithdrawEvent to amount nonce)) guard_release)))))))))))"

definition get_refund :: "'w vault \<Rightarrow> bytes \<Rightarrow> refund_record option" where
  "get_refund s payment_ref = v_refund_v2 s payment_ref"

definition extend_refund_ttl :: "'w vault \<Rightarrow> bytes \<Rightarrow> unit outcome" where
  "extend_refund_ttl s payment_ref =
     obind (ok_or (v_refund_v2 s payment_ref) RefundNotFound) (\<lambda>_.
     obind (ok_or (v_refund_window s) NotInitialized) (\<lambda>_. Ok ()))"

section \<open>The time-locked policy\<close>

definition POLICY_TIMELOCK :: u32 where
  "POLICY_TIMELOCK = 17280"

definition propose_policy :: "env \<Rightarrow> u32 \<Rightarrow> u64 \<Rightarrow> u32 \<Rightarrow> ('w vault, unit) act" where
  "propose_policy E ledgers deadline vdf_delay =
     aseq (require_admin E)
     (aseq (amodify (\<lambda>s. s\<lparr>v_pending_policy := Some \<lparr>pp_window = ledgers, pp_deadline = deadline,
        pp_vdf_delay = vdf_delay, pp_proposed_at_ledger = sequence E\<rparr>\<rparr>))
     (abind (alift (u32_add (sequence E) POLICY_TIMELOCK)) (\<lambda>after.
      publish (PolicyProposedEvent ledgers deadline (sequence E) after))))"

definition execute_policy :: "env \<Rightarrow> ('w vault, unit) act" where
  "execute_policy E =
     aseq (require_admin E)
     (abind (aread v_pending_policy) (\<lambda>p.
      abind (alift (ok_or p NoPendingPolicy)) (\<lambda>proposal.
      abind (alift (u32_add (pp_proposed_at_ledger proposal) POLICY_TIMELOCK)) (\<lambda>after.
      aseq (arefuse (sequence E < after) TimelockNotExpired)
      (abind (aread v_time_policy) (\<lambda>tp.
      aseq (arefuse ((pp_window proposal > 0 \<or> pp_deadline proposal > 0) \<and> tp = None)
              PolicyContractsNotConfigured)
      (abind (aread v_vdf_policy) (\<lambda>vp.
      aseq (arefuse (pp_vdf_delay proposal > 0 \<and> vp = None) PolicyContractsNotConfigured)
      (aseq (amodify (\<lambda>s. s\<lparr>v_refund_window := Some (pp_window proposal),
         v_refund_deadline := Some (pp_deadline proposal), v_vdf_delay := Some (pp_vdf_delay proposal),
         v_pending_policy := None\<rparr>))
      (publish (PolicyExecutedEvent (pp_window proposal) (pp_deadline proposal))))))))))))"

definition get_pending_policy :: "'w vault \<Rightarrow> policy_proposal option" where
  "get_pending_policy s = v_pending_policy s"

definition get_policy_timelock :: u32 where
  "get_policy_timelock = POLICY_TIMELOCK"

section \<open>Commit and reveal\<close>

definition COMMIT_MIN_DELAY_LEDGERS :: u32 where
  "COMMIT_MIN_DELAY_LEDGERS = 7"

definition commit :: "env \<Rightarrow> string \<Rightarrow> bytes \<Rightarrow> ('w vault, unit) act" where
  "commit E operation commitment_hash =
     abind (require_admin E) (\<lambda>merchant.
     abind (aread (\<lambda>s. v_commit s commitment_hash)) (\<lambda>c.
     aseq (arefuse (c \<noteq> None) CommitAlreadyExists)
     (aseq (amodify (\<lambda>s. s\<lparr>v_commit := (v_commit s)(commitment_hash \<mapsto> \<lparr>cr_caller = merchant,
        cr_operation = operation, cr_committed_at_ledger = sequence E\<rparr>)\<rparr>))
     (abind (alift (u32_add (sequence E) COMMIT_MIN_DELAY_LEDGERS)) (\<lambda>at.
      publish (CommitEvent operation commitment_hash at))))))"

definition reveal :: "(bytes \<Rightarrow> bytes) \<Rightarrow> env \<Rightarrow> string \<Rightarrow> bytes \<Rightarrow> bytes \<Rightarrow> ('w vault, unit) act" where
  "reveal H E operation commitment_hash plaintext =
     abind (require_admin E) (\<lambda>merchant.
     abind (aread (\<lambda>s. v_commit s commitment_hash)) (\<lambda>c.
     abind (alift (ok_or c NoCommit)) (\<lambda>rec.
     aseq (arefuse (cr_caller rec \<noteq> merchant) Unauthorized)
     (aseq (arefuse (cr_operation rec \<noteq> operation) CommitOperationMismatch)
     (aseq (arefuse (H plaintext \<noteq> commitment_hash) CommitMismatch)
     (abind (alift (u32_add (cr_committed_at_ledger rec) COMMIT_MIN_DELAY_LEDGERS)) (\<lambda>after.
      aseq (arefuse (sequence E < after) CommitDelayNotElapsed)
      (aseq (amodify (\<lambda>s. s\<lparr>v_commit := (v_commit s)(commitment_hash := None)\<rparr>))
      (publish (CommitRevealedEvent operation commitment_hash (sequence E)))))))))))"

definition get_commit :: "'w vault \<Rightarrow> bytes \<Rightarrow> commit_record option" where
  "get_commit s commitment_hash = v_commit s commitment_hash"

section \<open>Effects of refunds\<close>

text \<open>The state in which the claims of an authorized call run: the lock held, the nonce consumed.\<close>

definition claims_start :: "'w vault \<Rightarrow> bool option \<Rightarrow> address \<Rightarrow> u64 \<Rightarrow> 'w vault" where
  "claims_start s l m n = s\<lparr>v_guard_lock := l, v_user_nonce := (v_user_nonce s)(m \<mapsto> n + 1)\<rparr>"

definition claim_allowed :: "env \<Rightarrow> 'w vault \<Rightarrow> address \<Rightarrow> u64 \<Rightarrow> bool" where
  "claim_allowed E s m n \<longleftrightarrow> v_admin s = Some m \<and> authorized E m \<and> \<not> unwrap_or (v_is_paused s) False \<and>
     n = current_user_nonce s m"

lemma read_policy_cache_Ok_iff [ok_iff]:
  "read_policy_cache s = (Ok cache, s') \<longleftrightarrow> s' = s \<and> (\<exists>w t. v_refund_window s = Some w \<and> v_token s = Some t \<and>
     cache = \<lparr>ca_refund_window = w, ca_refund_deadline = unwrap_or (v_refund_deadline s) 0,
         ca_time_policy_contract = v_time_policy s, ca_oracle_policy = v_oracle_policy s,
         ca_vdf_delay = unwrap_or (v_vdf_delay s) 0, ca_vdf_policy_contract = v_vdf_policy s,
         ca_token_addr = t, ca_fee_bps = effective_fee_bps s, ca_tiers_active = (v_tier_state s \<noteq> None)\<rparr>)"
  by (auto simp: read_policy_cache_def ok_iff effective_fee_bps_def split: option.splits)

lemma read_policy_cache_start [simp]:
  "read_policy_cache (claims_start s l m n) = (fst (read_policy_cache s), claims_start s l m n)"
  by (simp add: read_policy_cache_def claims_start_def cong: option.case_cong)

lemma refund_Ok:
  assumes "refund X E r a x l p v n s = (Ok (), s')"
  obtains m cache t where "claim_allowed E s m n" "read_policy_cache s = (Ok cache, s)"
    "claim_single X E cache \<lparr>rc_payment_ref = r, rc_recipient = a, rc_amount = x, rc_paid_at_ledger = l,
       rc_payment_amount = p, rc_vdf_proof = v\<rparr> (claims_start s (Some True) m n) = (Ok (), t)"
    "s' = t\<lparr>v_guard_lock := Some False\<rparr>"
  using assms
  by (auto simp: refund_def aseq_Ok_iff abind_Ok_iff guard_acquire_Ok_iff refuse_paused_Ok_iff
      require_admin_Ok_iff check_and_bump_user_nonce_Ok_iff guard_release_iff claim_allowed_def
      current_user_nonce_def claims_start_def read_policy_cache_def cong: option.case_cong
      intro!: that)

lemma claim_batch_Ok:
  assumes "claim_batch X E claims n s = (Ok (), s')"
  obtains m cache t where "claim_allowed E s m n" "length claims \<le> 100" "read_policy_cache s = (Ok cache, s)"
    "afor (claim_single X E cache) claims (claims_start s (Some True) m n) = (Ok (), t)"
    "s' = t\<lparr>v_guard_lock := Some False\<rparr>"
  using assms
  by (auto simp: claim_batch_def aseq_Ok_iff abind_Ok_iff guard_acquire_Ok_iff refuse_paused_Ok_iff
      arefuse_Ok_iff require_admin_Ok_iff check_and_bump_user_nonce_Ok_iff guard_release_iff
      claim_allowed_def VAULT_MAX_BATCH_SIZE_def not_less
      current_user_nonce_def claims_start_def read_policy_cache_def simp del: act_simps
      cong: option.case_cong intro!: that)

lemma process_batch_Ok:
  assumes "process_batch X E items n s = (Ok bs, s')" "items \<noteq> []"
  obtains m cache t where "claim_allowed E s m n" "length items \<le> 100" "read_policy_cache s = (Ok cache, s)"
    "amap (\<lambda>item. ais_ok (claim_single X E cache (claim_of_param item))) items
       (claims_start s (v_guard_lock s) m n) = (Ok bs, t)"
    "s' = t\<lparr>v_events := v_events t @ [BatchRefundEvent (map rp_payment_ref items) bs]\<rparr>"
proof -
  have "claims_start s (v_guard_lock s) m n = s\<lparr>v_user_nonce := (v_user_nonce s)(m \<mapsto> n + 1)\<rparr>" for m n
    by (simp add: claims_start_def)
  then show ?thesis
    using assms
    by (auto simp: process_batch_def aseq_Ok_iff abind_Ok_iff refuse_paused_Ok_iff
        arefuse_Ok_iff require_admin_Ok_iff check_and_bump_user_nonce_Ok_iff publish_iff aret_iff
        claim_allowed_def VAULT_MAX_BATCH_SIZE_def not_less
        current_user_nonce_def read_policy_cache_def simp del: act_simps
      cong: option.case_cong intro!: that)
qed

lemma withdraw_Ok:
  assumes "withdraw X E x a s = (Ok (), s')"
  obtains m tok b t w where "v_admin s = Some m" "authorized E m" "\<not> unwrap_or (v_is_paused s) False" "0 < x"
    "a \<noteq> current_contract_address E" "v_token s = Some tok"
    "ensure_liquidity X E tok (tok_balance (ex_token X) (world s) tok (current_contract_address E)) x
       (s\<lparr>v_guard_lock := Some True\<rparr>) = (Ok b, t)" "x \<le> b"
    "tok_transfer (ex_token X) (world t) tok (current_contract_address E) a x = Some w"
    "s' = t\<lparr>world := w, v_nonce := Some (unwrap_or (v_nonce t) 0 + 1),
       v_events := v_events t @ [WithdrawEvent a x (unwrap_or (v_nonce t) 0)], v_guard_lock := Some False\<rparr>"
  using assms by (auto simp: withdraw_def ok_iff not_le not_less simp del: act_simps intro!: that)

end
