(* ===== verification/Vault_Config.thy ===== *)
theory Vault_Config
  imports Refund_Vault
begin

text \<open>
  Configuration entry points of \<open>refund-vault/src/lib.rs\<close> that move no tokens: the oracle whitelist
  and policy, storage versions, policy contracts, fees, yield ratios, pausing and the two-step
  transfer of administration, with the read-only accessors.
\<close>

section \<open>Oracles\<close>

definition get_oracles :: "'w vault \<Rightarrow> address list" where
  "get_oracles s = unwrap_or (v_oracles s) []"

definition add_oracle :: "env \<Rightarrow> address \<Rightarrow> ('w vault, unit) act" where
  "add_oracle E oracle =
     aseq (require_admin E)
     (abind (aread get_oracles) (\<lambda>oracles.
      aseq (arefuse (oracle \<in> set oracles) OracleAlreadyAdded)
      (amodify (\<lambda>s. s\<lparr>v_oracles := Some (oracles @ [oracle])\<rparr>))))"

definition remove_oracle :: "env \<Rightarrow> address \<Rightarrow> ('w vault, unit) act" where
  "remove_oracle E oracle =
     aseq (require_admin E)
     (abind (aread v_oracles) (\<lambda>o'.
      abind (alift (ok_or o' NoOraclesConfigured)) (\<lambda>oracles.
      aseq (arefuse (oracle \<notin> set oracles) OracleNotFound)
      (amodify (\<lambda>s. s\<lparr>v_oracles := Some (remove1 oracle oracles)\<rparr>)))))"

definition get_median_price :: "'w externals \<Rightarrow> env \<Rightarrow> 'w vault \<Rightarrow> bytes \<Rightarrow> u32 \<Rightarrow> i128 outcome" where
  "get_median_price X E s feed_id max_staleness = median_price X E s feed_id max_staleness"

definition set_oracle_policy :: "env \<Rightarrow> oracle_policy \<Rightarrow> ('w vault, unit) act" where
  "set_oracle_policy E policy =
     aseq (require_admin E)
     (aseq (amodify (\<lambda>s. s\<lparr>v_oracle_policy := Some policy\<rparr>))
     (publish (OraclePolicySetEvent (op_feed_id policy) (op_threshold policy)
        (op_refund_when_below policy) (op_max_staleness_ledgers policy))))"

definition clear_oracle_policy :: "env \<Rightarrow> ('w vault, unit) act" where
  "clear_oracle_policy E =
     aseq (require_admin E)
     (abind (aread v_oracle_policy) (\<lambda>p.
      abind (alift (ok_or p NoOraclePolicy)) (\<lambda>policy.
      aseq (amodify (\<lambda>s. s\<lparr>v_oracle_policy := None\<rparr>))
      (publish (OraclePolicyClearedEvent (op_feed_id policy))))))"

definition get_oracle_policy :: "'w vault \<Rightarrow> oracle_policy option" where
  "get_oracle_policy s = v_oracle_policy s"

section \<open>Versions, policy contracts and cooldown\<close>

definition get_storage_version :: "'w vault \<Rightarrow> u32 outcome" where
  "get_storage_version s =
     (if v_admin s = None then Err NotInitialized
      else Ok (unwrap_or (v_storage_version s) INITIAL_STORAGE_VERSION))"

definition migrate_state :: "env \<Rightarrow> u32 \<Rightarrow> ('w vault, unit) act" where
  "migrate_state E target_version =
     aseq (require_admin E)
     (abind (aread (\<lambda>s. unwrap_or (v_storage_version s) INITIAL_STORAGE_VERSION)) (\<lambda>current.
      aseq (arefuse (target_version \<le> current) InvalidMigrationVersion)
      (amodify (\<lambda>s. s\<lparr>v_storage_version := Some target_version\<rparr>))))"

definition get_token :: "'w vault \<Rightarrow> address outcome" where
  "get_token s = ok_or (v_token s) NotInitialized"

definition set_time_policy_contract :: "env \<Rightarrow> address option \<Rightarrow> ('w vault, unit) act" where
  "set_time_policy_contract E a =
     aseq (require_admin E) (amodify (\<lambda>s. s\<lparr>v_time_policy := a\<rparr>))"

definition set_vdf_policy_contract :: "env \<Rightarrow> address option \<Rightarrow> ('w vault, unit) act" where
  "set_vdf_policy_contract E a =
     aseq (require_admin E) (amodify (\<lambda>s. s\<lparr>v_vdf_policy := a\<rparr>))"

definition get_time_policy_contract :: "'w vault \<Rightarrow> address option" where
  "get_time_policy_contract s = v_time_policy s"

definition get_vdf_policy_contract :: "'w vault \<Rightarrow> address option" where
  "get_vdf_policy_contract s = v_vdf_policy s"

definition get_vdf_delay :: "'w vault \<Rightarrow> u32" where
  "get_vdf_delay s = unwrap_or (v_vdf_delay s) 0"

definition get_refund_window :: "'w vault \<Rightarrow> u32" where
  "get_refund_window s = unwrap_or (v_refund_window s) 0"

definition get_refund_deadline :: "'w vault \<Rightarrow> u64" where
  "get_refund_deadline s = unwrap_or (v_refund_deadline s) 0"

definition set_settlement_contract :: "env \<Rightarrow> address \<Rightarrow> ('w vault, unit) act" where
  "set_settlement_contract E contract =
     aseq (require_admin E) (amodify (\<lambda>s. s\<lparr>v_settlement_contract := Some contract\<rparr>))"

definition set_claim_cooldown :: "env \<Rightarrow> u64 \<Rightarrow> ('w vault, unit) act" where
  "set_claim_cooldown E cooldown_secs =
     aseq (require_admin E) (amodify (\<lambda>s. s\<lparr>v_claim_cooldown := Some cooldown_secs\<rparr>))"

definition get_claim_cooldown :: "'w vault \<Rightarrow> u64" where
  "get_claim_cooldown s = unwrap_or (v_claim_cooldown s) 0"

definition get_commit_min_delay :: u32 where
  "get_commit_min_delay = COMMIT_MIN_DELAY_LEDGERS"

section \<open>Fees\<close>

definition get_fee_bps :: "'w vault \<Rightarrow> u32" where
  "get_fee_bps s = unwrap_or (v_fee_bps s) 0"

definition get_fee_recipient :: "'w vault \<Rightarrow> address option" where
  "get_fee_recipient s = v_fee_recipient s"

definition set_fee_bps :: "env \<Rightarrow> u32 \<Rightarrow> ('w vault, unit) act" where
  "set_fee_bps E bps =
     aseq (arefuse (bps > 10000) InvalidRatio)
     (aseq (require_admin E)
     (aseq (amodify (\<lambda>s. s\<lparr>v_fee_bps := Some bps\<rparr>))
     (abind active_fee_recipient (\<lambda>r. publish (FeeConfigUpdatedEvent ''fee_bps'' bps r)))))"

definition set_fee_recipient :: "env \<Rightarrow> address \<Rightarrow> ('w vault, unit) act" where
  "set_fee_recipient E recipient =
     aseq (arefuse (recipient = current_contract_address E) SelfTransfer)
     (aseq (require_admin E)
     (aseq (amodify (\<lambda>s. s\<lparr>v_fee_recipient := Some recipient\<rparr>))
     (abind (aread get_fee_bps) (\<lambda>bps. publish (FeeConfigUpdatedEvent ''fee_recipient'' bps recipient)))))"

section \<open>Yield ratios\<close>

definition set_reserve_ratio :: "env \<Rightarrow> u32 \<Rightarrow> ('w vault, unit) act" where
  "set_reserve_ratio E basis_points =
     aseq (arefuse (basis_points > 10000) InvalidRatio)
     (aseq (require_admin E) (amodify (\<lambda>s. s\<lparr>v_reserve_ratio := Some basis_points\<rparr>)))"

definition set_max_deploy_ratio :: "env \<Rightarrow> u32 \<Rightarrow> ('w vault, unit) act" where
  "set_max_deploy_ratio E basis_points =
     aseq (arefuse (basis_points > 10000) InvalidRatio)
     (aseq (require_admin E) (amodify (\<lambda>s. s\<lparr>v_max_deploy_ratio := Some basis_points\<rparr>)))"

section \<open>Pausing and administration\<close>

definition is_paused :: "'w vault \<Rightarrow> bool outcome" where
  "is_paused s = (if v_admin s = None then Err NotInitialized else Ok (unwrap_or (v_is_paused s) False))"

definition pause :: "env \<Rightarrow> ('w vault, unit) act" where
  "pause E = aseq (require_admin E)
     (aseq (amodify (\<lambda>s. s\<lparr>v_is_paused := Some True\<rparr>)) (publish (PauseEvent (sequence E))))"

definition unpause :: "env \<Rightarrow> ('w vault, unit) act" where
  "unpause E = aseq (require_admin E)
     (aseq (amodify (\<lambda>s. s\<lparr>v_is_paused := Some False\<rparr>)) (publish (UnpauseEvent (sequence E))))"

definition get_admin :: "'w vault \<Rightarrow> address outcome" where
  "get_admin s = ok_or (v_admin s) NotInitialized"

definition transfer_admin :: "env \<Rightarrow> address \<Rightarrow> ('w vault, unit) act" where
  "transfer_admin E new_admin =
     abind (require_admin E) (\<lambda>admin.
     aseq (amodify (\<lambda>s. s\<lparr>v_pending_admin := Some new_admin\<rparr>))
     (publish (AdminTransferInitiatedEvent admin new_admin)))"

definition accept_admin :: "env \<Rightarrow> ('w vault, unit) act" where
  "accept_admin E =
     abind (aread v_pending_admin) (\<lambda>p.
     abind (alift (ok_or p NoPendingTransfer)) (\<lambda>pending.
     aseq (alift (require_auth E pending))
     (abind admin_of (\<lambda>old_admin.
      aseq (amodify (\<lambda>s. s\<lparr>v_admin := Some pending, v_pending_admin := None\<rparr>))
      (publish (AdminTransferAcceptedEvent old_admin pending))))))"

definition cancel_admin_transfer :: "env \<Rightarrow> ('w vault, unit) act" where
  "cancel_admin_transfer E =
     aseq (require_admin E)
     (abind (aread v_pending_admin) (\<lambda>p.
      aseq (arefuse (p = None) NoPendingTransfer)
      (amodify (\<lambda>s. s\<lparr>v_pending_admin := None\<rparr>))))"

end
