(* ===== verification/Vault_Funds.thy ===== *)
theory Vault_Funds
  imports Refund_Vault
begin

text \<open>
  The entry points of the refund vault that move funds outside the claim path: the yield strategy
  (\<open>lib.rs\<close> over \<open>strategy.rs\<close>), the dust sweep of \<open>dust.rs\<close>, flash loans of \<open>flash_loan.rs\<close>, signed
  deposits of \<open>permit.rs\<close> and the NFT escrow of \<open>nft_escrow.rs\<close>.
\<close>

section \<open>Yield\<close>

record yield_info =
  yi_deployed_principal :: i128
  yi_harvested_yield :: i128
  yi_strategy :: "address option"
  yi_reserve_ratio :: u32
  yi_max_deploy_ratio :: u32

definition strategy_deposit :: "'w externals \<Rightarrow> address \<Rightarrow> i128 \<Rightarrow> ('w vault, unit) act" where
  "strategy_deposit X strategy amount = abind (aread world) (\<lambda>w.
     abind (alift (unwrap (ex_strategy_deposit X w strategy amount))) (\<lambda>w'.
     amodify (\<lambda>s. s\<lparr>world := w'\<rparr>)))"

definition strategy_harvest :: "'w externals \<Rightarrow> address \<Rightarrow> ('w vault, i128) act" where
  "strategy_harvest X strategy = abind (aread world) (\<lambda>w.
     abind (alift (unwrap (ex_strategy_harvest X w strategy))) (\<lambda>(y, w').
     aseq (amodify (\<lambda>s. s\<lparr>world := w'\<rparr>)) (aret y)))"

text \<open>The reserve and deployment limits, checked before anything moves.\<close>

definition check_deploy_limits :: "i128 \<Rightarrow> i128 \<Rightarrow> ('w vault, i128) act" where
  "check_deploy_limits token_balance amount =
     abind (aread deployed_principal) (\<lambda>deployed.
     abind (aread harvested_yield) (\<lambda>harvested.
     abind (alift (math_q (add_amounts token_balance deployed))) (\<lambda>gross.
     abind (alift (math_q (sub_amounts gross harvested))) (\<lambda>total_value.
     abind (aread (\<lambda>s. unwrap_or (v_reserve_ratio s) 0)) (\<lambda>reserve_ratio.
     abind (alift (i128_op (token_balance - amount))) (\<lambda>post_deploy_balance.
     abind (alift (math_q (mul_ratio total_value (int reserve_ratio) 10000))) (\<lambda>reserve_required.
     aseq (arefuse (post_deploy_balance < reserve_required) InsufficientReserve)
     (abind (aread (\<lambda>s. unwrap_or (v_max_deploy_ratio s) 10000)) (\<lambda>max_deploy_ratio.
      abind (alift (math_q (add_amounts deployed amount))) (\<lambda>post_deploy_total.
      abind (alift (math_q (mul_ratio total_value (int max_deploy_ratio) 10000))) (\<lambda>max_deploy.
      aseq (arefuse (post_deploy_total > max_deploy) DeploymentExceedsMax)
      (aret post_deploy_total))))))))))))"

definition deploy_to_yield :: "'w externals \<Rightarrow> env \<Rightarrow> i128 \<Rightarrow> ('w vault, unit) act" where
  "deploy_to_yield X E amount =
     aseq guard_acquire
     (aseq refuse_paused
     (aseq (arefuse (amount \<le> 0) InvalidAmount)
     (aseq (require_admin E)
     (abind (aread active_strategy) (\<lambda>st.
      abind (alift (ok_or st StrategyNotSet)) (\<lambda>strategy.
      abind (aread (\<lambda>s. is_approved s strategy)) (\<lambda>ok.
      aseq (arefuse (\<not> ok) StrategyNotApproved)
      (abind token_of (\<lambda>tok.
      abind (balance X tok (current_contract_address E)) (\<lambda>token_balance.
      aseq (arefuse (token_balance < amount) InsufficientFloat)
      (abind (check_deploy_limits token_balance amount) (\<lambda>post_deploy_total.
      aseq (transfer X tok (current_contract_address E) strategy amount)
      (aseq (strategy_deposit X strategy amount)
      (aseq (amodify (\<lambda>s. s\<lparr>v_deployed_principal := Some post_deploy_total\<rparr>))
      (abind increment_nonce (\<lambda>nonce.
      aseq (publish (YieldDeployedEvent strategy amount nonce)) guard_release))))))))))))))))"

definition withdraw_from_yield :: "'w externals \<Rightarrow> env \<Rightarrow> i128 \<Rightarrow> ('w vault, unit) act" where
  "withdraw_from_yield X E amount =
     aseq guard_acquire
     (aseq refuse_paused
     (aseq (arefuse (amount \<le> 0) InvalidAmount)
     (aseq (require_admin E)
     (abind (aread active_strategy) (\<lambda>st.
      abind (alift (ok_or st StrategyNotSet)) (\<lambda>strategy.
      aseq (recall_principal X E strategy amount) guard_release))))))"

text \<open>The harvested amount is the strategy's word: no balance is compared.\<close>

definition harvest_yield :: "'w externals \<Rightarrow> env \<Rightarrow> ('w vault, unit) act" where
  "harvest_yield X E =
     aseq guard_acquire
     (aseq refuse_paused
     (aseq (require_admin E)
     (abind (aread active_strategy) (\<lambda>st.
      abind (alift (ok_or st StrategyNotSet)) (\<lambda>strategy.
      abind (strategy_harvest X strategy) (\<lambda>yield_amount.
      aseq (arefuse (yield_amount \<le> 0) NothingToHarvest)
      (abind (aread harvested_yield) (\<lambda>harvested.
      abind (alift (math_q (add_amounts harvested yield_amount))) (\<lambda>total_harvested.
      aseq (amodify (\<lambda>s. s\<lparr>v_harvested_yield := Some total_harvested\<rparr>))
      (abind increment_nonce (\<lambda>nonce.
      aseq (publish (YieldHarvestedEvent yield_amount nonce)) guard_release)))))))))))"

definition distribute_yield :: "'w externals \<Rightarrow> env \<Rightarrow> ('w vault, i128) act" where
  "distribute_yield X E =
     aseq guard_acquire
     (aseq refuse_paused
     (abind (distribute X E) (\<lambda>amount. aseq guard_release (aret amount))))"

definition emergency_exit_yield :: "'w externals \<Rightarrow> env \<Rightarrow> ('w vault, i128) act" where
  "emergency_exit_yield X E =
     aseq guard_acquire
     (abind (emergency_exit X E) (\<lambda>p. aseq guard_release (aret p)))"

definition get_yield_info :: "'w vault \<Rightarrow> yield_info" where
  "get_yield_info s = \<lparr>yi_deployed_principal = unwrap_or (v_deployed_principal s) 0,
     yi_harvested_yield = unwrap_or (v_harvested_yield s) 0, yi_strategy = v_yield_strategy s,
     yi_reserve_ratio = unwrap_or (v_reserve_ratio s) 0,
     yi_max_deploy_ratio = unwrap_or (v_max_deploy_ratio s) 10000\<rparr>"

section \<open>Dust\<close>

definition DEFAULT_DUST_THRESHOLD :: i128 where
  "DEFAULT_DUST_THRESHOLD = 100"

definition DUST_SWEEP_DELAY_LEDGERS :: u32 where
  "DUST_SWEEP_DELAY_LEDGERS = 1555200"

definition dust_threshold :: "'w vault \<Rightarrow> i128" where
  "dust_threshold s = unwrap_or (v_dust_threshold s) DEFAULT_DUST_THRESHOLD"

definition dust_treasury :: "('w vault, address) act" where
  "dust_treasury = abind (aread v_dust_treasury) (\<lambda>t. case t of
     Some a \<Rightarrow> aret a | None \<Rightarrow> active_fee_recipient)"

definition set_dust_config :: "env \<Rightarrow> i128 \<Rightarrow> address \<Rightarrow> ('w vault, unit) act" where
  "set_dust_config E threshold treasury =
     aseq (require_admin E)
     (aseq (arefuse (threshold \<le> 0) InvalidAmount)
     (aseq (arefuse (treasury = current_contract_address E) SelfTransfer)
     (amodify (\<lambda>s. s\<lparr>v_dust_threshold := Some threshold, v_dust_treasury := Some treasury\<rparr>))))"

definition closed_at :: "refund_record \<Rightarrow> u32 \<Rightarrow> u32" where
  "closed_at rec window = max (u32_saturating_add (rr_paid_at_ledger rec) window) (rr_ledger rec)"

definition pay_dust :: "'w externals \<Rightarrow> env \<Rightarrow> address \<Rightarrow> i128 \<Rightarrow> ('w vault, unit) act" where
  "pay_dust X E treasury residual =
     (if residual > 0
      then aseq (arefuse (treasury = current_contract_address E) SelfTransfer)
        (abind token_of (\<lambda>tok.
         abind (balance X tok (current_contract_address E)) (\<lambda>bal.
         aseq (arefuse (bal < residual) InsufficientFloat)
         (transfer X tok (current_contract_address E) treasury residual))))
      else aret ())"

definition sweep_dust :: "'w externals \<Rightarrow> env \<Rightarrow> bytes \<Rightarrow> ('w vault, i128) act" where
  "sweep_dust X E payment_ref =
     aseq guard_acquire
     (aseq refuse_paused
     (aseq (require_admin E)
     (abind (aread (\<lambda>s. v_refund_v2 s payment_ref)) (\<lambda>r.
      abind (alift (ok_or r RefundNotFound)) (\<lambda>rec.
      abind (alift (ok_or (i128_checked (rr_payment_amount rec - rr_amount_refunded rec)) MathOverflow)) (\<lambda>residual.
      abind (aread dust_threshold) (\<lambda>threshold.
      aseq (arefuse (residual < 0 \<or> residual \<ge> threshold) InvalidAmount)
      (abind (aread (\<lambda>s. unwrap_or (v_refund_window s) 0)) (\<lambda>window.
      aseq (arefuse (sequence E \<le> u32_saturating_add (closed_at rec window) DUST_SWEEP_DELAY_LEDGERS)
              TimelockNotExpired)
      (abind dust_treasury (\<lambda>treasury.
      aseq (pay_dust X E treasury residual)
      (aseq (amodify (\<lambda>s. s\<lparr>v_refund_v2 := (v_refund_v2 s)(payment_ref := None)\<rparr>))
      (aseq (publish (DustSweptEvent payment_ref residual treasury))
      (aseq guard_release (aret residual)))))))))))))))"

section \<open>Flash loans\<close>

definition FLASH_LOAN_FEE_BPS :: u32 where
  "FLASH_LOAN_FEE_BPS = 9"

definition flash_loan_fee :: "i128 \<Rightarrow> i128 outcome" where
  "flash_loan_fee amount = refund_fee amount FLASH_LOAN_FEE_BPS"

definition on_flash_loan ::
  "'w externals \<Rightarrow> address \<Rightarrow> address \<Rightarrow> address \<Rightarrow> i128 \<Rightarrow> i128 \<Rightarrow> bytes \<Rightarrow> ('w vault, unit) act" where
  "on_flash_loan X receiver initiator tok amount fee data = abind (aread world) (\<lambda>w.
     abind (alift (unwrap (ex_on_flash_loan X w receiver initiator tok amount fee data))) (\<lambda>w'.
     amodify (\<lambda>s. s\<lparr>world := w'\<rparr>)))"

text \<open>The repayment check and the forwarding of the premium.\<close>

definition flash_settle ::
  "'w externals \<Rightarrow> env \<Rightarrow> address \<Rightarrow> address \<Rightarrow> i128 \<Rightarrow> i128 \<Rightarrow> i128 \<Rightarrow> ('w vault, i128) act" where
  "flash_settle X E receiver tok balance_before amount fee =
     (let vault = current_contract_address E in
      abind (alift (ok_or (i128_checked (balance_before + fee)) MathOverflow)) (\<lambda>required.
      abind (balance X tok vault) (\<lambda>balance_now.
      aseq (arefuse (balance_now < required) InsufficientFloat)
      (abind active_fee_recipient (\<lambda>treasury.
       aseq (if treasury \<noteq> vault then transfer X tok vault treasury fee else aret ())
       (aseq (publish (FlashLoanEvent receiver amount fee treasury))
       (aseq guard_release (aret fee))))))))"

definition flash_loan :: "'w externals \<Rightarrow> env \<Rightarrow> address \<Rightarrow> i128 \<Rightarrow> bytes \<Rightarrow> ('w vault, i128) act" where
  "flash_loan X E receiver amount data =
     (let vault = current_contract_address E in
      aseq guard_acquire
      (aseq refuse_paused
      (aseq (arefuse (amount \<le> 0) InvalidAmount)
      (aseq (arefuse (receiver = vault) SelfTransfer)
      (abind (require_admin E) (\<lambda>merchant.
       abind token_of (\<lambda>tok.
       abind (balance X tok vault) (\<lambda>balance_before.
       aseq (arefuse (amount > balance_before) InsufficientFloat)
       (abind (alift (flash_loan_fee amount)) (\<lambda>fee.
       aseq (transfer X tok vault receiver amount)
       (aseq (on_flash_loan X receiver merchant tok amount fee data)
       (flash_settle X E receiver tok balance_before amount fee))))))))))))"

section \<open>Effects\<close>

lemma strategy_deposit_Ok_iff [ok_iff]:
  "strategy_deposit X a x s = (Ok u, s') \<longleftrightarrow>
     (\<exists>w'. ex_strategy_deposit X (world s) a x = Some w' \<and> s' = s\<lparr>world := w'\<rparr>)"
  by (auto simp: strategy_deposit_def ok_iff)

lemma strategy_harvest_Ok_iff [ok_iff]:
  "strategy_harvest X a s = (Ok y, s') \<longleftrightarrow>
     (\<exists>w'. ex_strategy_harvest X (world s) a = Some (y, w') \<and> s' = s\<lparr>world := w'\<rparr>)"
  by (auto simp: strategy_harvest_def ok_iff)

lemma on_flash_loan_Ok_iff [ok_iff]:
  "on_flash_loan X r i tok x f d s = (Ok u, s') \<longleftrightarrow>
     (\<exists>w'. ex_on_flash_loan X (world s) r i tok x f d = Some w' \<and> s' = s\<lparr>world := w'\<rparr>)"
  by (auto simp: on_flash_loan_def ok_iff)

lemma check_deploy_limits_Ok:
  assumes "check_deploy_limits b x s = (Ok t, s')"
  shows "s' = s" "t = deployed_principal s + x" "in_i128 t"
    "trunc_div ((b + deployed_principal s - harvested_yield s) * int (unwrap_or (v_reserve_ratio s) 0)) 10000 \<le> b - x"
    "t \<le> trunc_div ((b + deployed_principal s - harvested_yield s) * int (unwrap_or (v_max_deploy_ratio s) 10000)) 10000"
  using assms
  by (auto simp: check_deploy_limits_def ok_iff mul_ratio_pos simp del: act_simps split: if_splits)

lemma deploy_to_yield_Ok:
  assumes "deploy_to_yield X E x s = (Ok (), s')"
  obtains m a tok w1 w2 where "v_admin s = Some m" "authorized E m" "\<not> unwrap_or (v_is_paused s) False" "0 < x"
    "active_strategy s = Some a" "is_approved s a" "v_token s = Some tok"
    "x \<le> tok_balance (ex_token X) (world s) tok (current_contract_address E)"
    "check_deploy_limits (tok_balance (ex_token X) (world s) tok (current_contract_address E)) x
       (s\<lparr>v_guard_lock := Some True\<rparr>) = (Ok (deployed_principal s + x), s\<lparr>v_guard_lock := Some True\<rparr>)"
    "tok_transfer (ex_token X) (world s) tok (current_contract_address E) a x = Some w1"
    "ex_strategy_deposit X w1 a x = Some w2"
    "s' = s\<lparr>v_guard_lock := Some False, world := w2, v_deployed_principal := Some (deployed_principal s + x),
       v_nonce := Some (unwrap_or (v_nonce s) 0 + 1),
       v_events := v_events s @ [YieldDeployedEvent a x (unwrap_or (v_nonce s) 0)]\<rparr>"
proof -
  let ?s = "s\<lparr>v_guard_lock := Some True\<rparr>"
  obtain m a tok t u where h: "v_admin s = Some m" "authorized E m" "\<not> unwrap_or (v_is_paused s) False" "0 < x"
    "active_strategy ?s = Some a" "is_approved ?s a" "v_token s = Some tok"
    "x \<le> tok_balance (ex_token X) (world s) tok (current_contract_address E)"
    and l: "check_deploy_limits (tok_balance (ex_token X) (world s) tok (current_contract_address E)) x ?s = (Ok t, u)"
    and r: "aseq (transfer X tok (current_contract_address E) a x)
      (aseq (strategy_deposit X a x)
      (aseq (amodify (\<lambda>s. s\<lparr>v_deployed_principal := Some t\<rparr>))
      (abind increment_nonce (\<lambda>nonce.
      aseq (publish (YieldDeployedEvent a x nonce)) guard_release)))) u = (Ok (), s')"
    using assms unfolding deploy_to_yield_def
    by (auto simp: aseq_Ok_iff abind_Ok_iff guard_acquire_Ok_iff refuse_paused_Ok_iff arefuse_Ok_iff
        require_admin_Ok_iff aread_iff alift_Ok_iff token_of_Ok_iff balance_iff ok_or_Ok_iff not_le not_less
        simp del: act_simps)
  have u: "u = ?s" "t = deployed_principal s + x"
    using check_deploy_limits_Ok [OF l] by (simp_all add: deployed_principal_def)
  show ?thesis
    using r h l unfolding u
    by (auto simp: ok_iff strategy_reads intro!: that)
qed

lemma withdraw_from_yield_Ok:
  assumes "withdraw_from_yield X E x s = (Ok (), s')"
  obtains m a r t where "v_admin s = Some m" "authorized E m" "\<not> unwrap_or (v_is_paused s) False" "0 < x"
    "active_strategy s = Some a" "recall_principal X E a x (s\<lparr>v_guard_lock := Some True\<rparr>) = (Ok r, t)"
    "s' = t\<lparr>v_guard_lock := Some False\<rparr>"
  using assms by (auto simp: withdraw_from_yield_def ok_iff active_strategy_def intro: that)

lemma harvest_yield_Ok:
  assumes "harvest_yield X E s = (Ok (), s')"
  obtains m a y w where "v_admin s = Some m" "authorized E m" "\<not> unwrap_or (v_is_paused s) False"
    "active_strategy s = Some a" "ex_strategy_harvest X (world s) a = Some (y, w)" "0 < y"
    "s' = s\<lparr>v_guard_lock := Some False, world := w, v_harvested_yield := Some (harvested_yield s + y),
       v_nonce := Some (unwrap_or (v_nonce s) 0 + 1),
       v_events := v_events s @ [YieldHarvestedEvent y (unwrap_or (v_nonce s) 0)]\<rparr>"
  using assms by (auto simp: harvest_yield_def ok_iff strategy_reads not_le simp del: act_simps intro!: that)

lemma distribute_yield_Ok:
  assumes "distribute_yield X E s = (Ok x, s')"
  obtains t where "\<not> unwrap_or (v_is_paused s) False"
    "distribute X E (s\<lparr>v_guard_lock := Some True\<rparr>) = (Ok x, t)" "s' = t\<lparr>v_guard_lock := Some False\<rparr>"
  using assms by (auto simp: distribute_yield_def ok_iff intro: that)

lemma emergency_exit_yield_Ok:
  assumes "emergency_exit_yield X E s = (Ok p, s')"
  obtains t where "emergency_exit X E (s\<lparr>v_guard_lock := Some True\<rparr>) = (Ok p, t)" "s' = t\<lparr>v_guard_lock := Some False\<rparr>"
  using assms by (auto simp: emergency_exit_yield_def ok_iff intro: that)

lemma dust_treasury_state: "dust_treasury s = (Ok a, s') \<Longrightarrow> s' = s"
  by (auto simp: dust_treasury_def ok_iff split: option.splits)

lemma sweep_dust_Ok:
  assumes "sweep_dust X E r s = (Ok x, s')"
  obtains m rec a t where "v_admin s = Some m" "authorized E m" "\<not> unwrap_or (v_is_paused s) False"
    "get_refund s r = Some rec" "x = rr_payment_amount rec - rr_amount_refunded rec" "0 \<le> x"
    "x < dust_threshold s"
    "u32_saturating_add (closed_at rec (unwrap_or (v_refund_window s) 0)) DUST_SWEEP_DELAY_LEDGERS < sequence E"
    "pay_dust X E a x (s\<lparr>v_guard_lock := Some True\<rparr>) = (Ok (), t)"
    "s' = t\<lparr>v_refund_v2 := (v_refund_v2 t)(r := None), v_events := v_events t @ [DustSweptEvent r x a],
       v_guard_lock := Some False\<rparr>"
  using assms
  by (auto simp: sweep_dust_def ok_iff get_refund_def dust_threshold_def not_le not_less
      simp del: act_simps dest!: dust_treasury_state intro!: that)

lemma pay_dust_Ok:
  assumes "pay_dust X E a x s = (Ok (), s')"
  obtains w where "s' = s\<lparr>world := w\<rparr>"
    "0 < x \<longrightarrow> a \<noteq> current_contract_address E \<and> (\<exists>tok. v_token s = Some tok \<and>
       tok_transfer (ex_token X) (world s) tok (current_contract_address E) a x = Some w)"
    "x \<le> 0 \<longrightarrow> w = world s"
proof (cases "0 < x")
  case True
  then obtain w tok where "s' = s\<lparr>world := w\<rparr>" "a \<noteq> current_contract_address E" "v_token s = Some tok"
      "tok_transfer (ex_token X) (world s) tok (current_contract_address E) a x = Some w"
    using assms by (auto simp: pay_dust_def ok_iff)
  then show ?thesis using True by (intro that [of w]) auto
next
  case False
  then show ?thesis using assms by (intro that [of "world s"]) (auto simp: pay_dust_def)
qed

lemma flash_settle_Ok:
  assumes "flash_settle X E rcv tok b x fee s = (Ok f, s')"
  obtains a w where "f = fee" "b + fee \<le> tok_balance (ex_token X) (world s) tok (current_contract_address E)"
    "v_fee_recipient s = Some a \<or> v_fee_recipient s = None \<and> v_admin s = Some a"
    "if a \<noteq> current_contract_address E
     then tok_transfer (ex_token X) (world s) tok (current_contract_address E) a fee = Some w else w = world s"
    "s' = s\<lparr>v_guard_lock := Some False, world := w, v_events := v_events s @ [FlashLoanEvent rcv x fee a]\<rparr>"
proof -
  let ?V = "current_contract_address E"
  obtain a t where h: "b + fee \<le> tok_balance (ex_token X) (world s) tok ?V"
      "v_fee_recipient s = Some a \<or> v_fee_recipient s = None \<and> v_admin s = Some a"
    and r: "(if a \<noteq> ?V then transfer X tok ?V a fee else aret ()) s = (Ok (), t)" "f = fee"
      "s' = t\<lparr>v_events := v_events t @ [FlashLoanEvent rcv x fee a], v_guard_lock := Some False\<rparr>"
    using assms by (auto simp: flash_settle_def Let_def ok_iff)
  show ?thesis
  proof (cases "a = ?V")
    case True
    then show ?thesis using h r by (intro that [of a "world s"]) auto
  next
    case False
    then obtain w where "tok_transfer (ex_token X) (world s) tok ?V a fee = Some w" "t = s\<lparr>world := w\<rparr>"
      using r(1) by (auto simp: ok_iff)
    then show ?thesis using h r False by (intro that [of a w]) auto
  qed
qed

lemma flash_loan_Ok:
  assumes "flash_loan X E rcv x d s = (Ok fee, s')"
  obtains m tok w1 w2 where "v_admin s = Some m" "authorized E m" "\<not> unwrap_or (v_is_paused s) False" "0 < x"
    "rcv \<noteq> current_contract_address E" "v_token s = Some tok"
    "x \<le> tok_balance (ex_token X) (world s) tok (current_contract_address E)" "flash_loan_fee x = Ok fee"
    "tok_transfer (ex_token X) (world s) tok (current_contract_address E) rcv x = Some w1"
    "ex_on_flash_loan X w1 rcv m tok x fee d = Some w2"
    "flash_settle X E rcv tok (tok_balance (ex_token X) (world s) tok (current_contract_address E)) x fee
       (s\<lparr>v_guard_lock := Some True, world := w2\<rparr>) = (Ok fee, s')"
proof -
  obtain m tok f w1 w2 where h: "v_admin s = Some m" "authorized E m" "\<not> unwrap_or (v_is_paused s) False" "0 < x"
    "rcv \<noteq> current_contract_address E" "v_token s = Some tok"
    "x \<le> tok_balance (ex_token X) (world s) tok (current_contract_address E)" "flash_loan_fee x = Ok f"
    "tok_transfer (ex_token X) (world s) tok (current_contract_address E) rcv x = Some w1"
    "ex_on_flash_loan X w1 rcv m tok x f d = Some w2"
    and r: "flash_settle X E rcv tok (tok_balance (ex_token X) (world s) tok (current_contract_address E)) x f
       (s\<lparr>v_guard_lock := Some True, world := w2\<rparr>) = (Ok fee, s')"
    using assms by (auto simp: flash_loan_def Let_def ok_iff not_le not_less)
  from r have "f = fee" by (rule flash_settle_Ok) simp
  then show ?thesis using that h r by simp
qed

end
