(* ===== verification/Vault_Machine.thy ===== *)
theory Vault_Machine
  imports Vault_Config Vault_Funds Vault_Escrow
begin

text \<open>
  The refund vault as a state machine: one constructor of \<open>vault_call\<close> for every entry point that can
  change the vault, one step for a call the host commits, and steps of the outside world in between.
  The lemmas say which parts of the storage each call can touch, and that the vault's invariants hold
  in every reachable state.
\<close>

section \<open>Calls and runs\<close>

datatype (plugins only: code size) vault_call =
    Initialize vault_init
  | Deposit address i128 "u64 option"
  | MintCoupon u64 address u32
  | SetToken address
  | Refund bytes address i128 u32 i128 "bytes option" u64
  | ClaimBatch "refund_claim list" u64
  | ProcessBatch "refund_param list" u64
  | Withdraw i128 address
  | ProposePolicy u32 u64 u32
  | ExecutePolicy
  | SetSettlementContract address
  | SetClaimCooldown u64
  | Commit string bytes
  | Reveal string bytes bytes
  | AddOracle address
  | RemoveOracle address
  | MigrateState u32
  | SetTimePolicyContract "address option"
  | SetVdfPolicyContract "address option"
  | SetFeeBps u32
  | SetFeeRecipient address
  | SetOraclePolicy oracle_policy
  | ClearOraclePolicy
  | SetYieldStrategy address
  | ApproveYieldStrategy address
  | RevokeYieldStrategy address
  | SetYieldRecipient address
  | DistributeYield
  | EmergencyExitYield
  | SetReserveRatio u32
  | SetMaxDeployRatio u32
  | DeployToYield i128
  | WithdrawFromYield i128
  | HarvestYield
  | Pause
  | Unpause
  | SetDustConfig i128 address
  | SweepDust bytes
  | FlashLoan address i128 bytes
  | TransferAdmin address
  | AcceptAdmin
  | CancelAdminTransfer
  | DepositNft address address address nat
  | ClaimNft address address nat
  | RefundNft address address nat
  | SetTierLadder "merchant_tier list"
  | ClearTierLadder

text \<open>The hash and the textual form of addresses are the host's.\<close>

primrec vault_run ::
  "(bytes \<Rightarrow> bytes) \<Rightarrow> (address \<Rightarrow> bytes) \<Rightarrow> 'w externals \<Rightarrow> env \<Rightarrow> vault_call \<Rightarrow> ('w vault, unit) act" where
  "vault_run H K X E (Initialize i) = vault_constructor H K E i"
| "vault_run H K X E (Deposit a x c) = deposit X E a x c"
| "vault_run H K X E (MintCoupon i a d) = mint_coupon E i a d"
| "vault_run H K X E (SetToken a) = set_token X E a"
| "vault_run H K X E (Refund r a x l p v n) = refund X E r a x l p v n"
| "vault_run H K X E (ClaimBatch cs n) = claim_batch X E cs n"
| "vault_run H K X E (ProcessBatch rs n) = aseq (process_batch X E rs n) (aret ())"
| "vault_run H K X E (Withdraw x a) = withdraw X E x a"
| "vault_run H K X E (ProposePolicy w d v) = propose_policy E w d v"
| "vault_run H K X E ExecutePolicy = execute_policy E"
| "vault_run H K X E (SetSettlementContract a) = set_settlement_contract E a"
| "vault_run H K X E (SetClaimCooldown c) = set_claim_cooldown E c"
| "vault_run H K X E (Commit op h) = commit E op h"
| "vault_run H K X E (Reveal op h p) = reveal H E op h p"
| "vault_run H K X E (AddOracle a) = add_oracle E a"
| "vault_run H K X E (RemoveOracle a) = remove_oracle E a"
| "vault_run H K X E (MigrateState v) = migrate_state E v"
| "vault_run H K X E (SetTimePolicyContract a) = set_time_policy_contract E a"
| "vault_run H K X E (SetVdfPolicyContract a) = set_vdf_policy_contract E a"
| "vault_run H K X E (SetFeeBps b) = set_fee_bps E b"
| "vault_run H K X E (SetFeeRecipient a) = set_fee_recipient E a"
| "vault_run H K X E (SetOraclePolicy p) = set_oracle_policy E p"
| "vault_run H K X E ClearOraclePolicy = clear_oracle_policy E"
| "vault_run H K X E (SetYieldStrategy a) = set_active E a"
| "vault_run H K X E (ApproveYieldStrategy a) = approve E a"
| "vault_run H K X E (RevokeYieldStrategy a) = revoke E a"
| "vault_run H K X E (SetYieldRecipient a) = set_recipient E a"
| "vault_run H K X E DistributeYield = aseq (distribute_yield X E) (aret ())"
| "vault_run H K X E EmergencyExitYield = aseq (emergency_exit_yield X E) (aret ())"
| "vault_run H K X E (SetReserveRatio b) = set_reserve_ratio E b"
| "vault_run H K X E (SetMaxDeployRatio b) = set_max_deploy_ratio E b"
| "vault_run H K X E (DeployToYield x) = deploy_to_yield X E x"
| "vault_run H K X E (WithdrawFromYield x) = withdraw_from_yield X E x"
| "vault_run H K X E HarvestYield = harvest_yield X E"
| "vault_run H K X E Pause = pause E"
| "vault_run H K X E Unpause = unpause E"
| "vault_run H K X E (SetDustConfig x a) = set_dust_config E x a"
| "vault_run H K X E (SweepDust r) = aseq (sweep_dust X E r) (aret ())"
| "vault_run H K X E (FlashLoan a x d) = aseq (flash_loan X E a x d) (aret ())"
| "vault_run H K X E (TransferAdmin a) = transfer_admin E a"
| "vault_run H K X E AcceptAdmin = accept_admin E"
| "vault_run H K X E CancelAdminTransfer = cancel_admin_transfer E"
| "vault_run H K X E (DepositNft a b c i) = deposit_nft X E a b c i"
| "vault_run H K X E (ClaimNft a c i) = aseq (claim_nft X E a c i) (aret ())"
| "vault_run H K X E (RefundNft a c i) = aseq (refund_nft X E a c i) (aret ())"
| "vault_run H K X E (SetTierLadder l) = set_tier_ladder E l"
| "vault_run H K X E ClearTierLadder = clear_tier_ladder E"

text \<open>A committed call.\<close>

definition vault_step ::
  "(bytes \<Rightarrow> bytes) \<Rightarrow> (address \<Rightarrow> bytes) \<Rightarrow> 'w externals \<Rightarrow> env \<Rightarrow> vault_call \<Rightarrow> 'w vault \<Rightarrow> 'w vault \<Rightarrow> bool" where
  "vault_step H K X E c s s' \<longleftrightarrow> invoke (vault_run H K X E c) s = Ok ((), s')"

text \<open>
  Every state a vault at address \<open>V\<close> can reach: construction, committed calls, and arbitrary changes
  of the outside world between them.
\<close>

inductive vault_reach ::
  "(bytes \<Rightarrow> bytes) \<Rightarrow> (address \<Rightarrow> bytes) \<Rightarrow> 'w externals \<Rightarrow> address \<Rightarrow> 'w vault \<Rightarrow> 'w vault \<Rightarrow> bool"
  for H K X V s0 where
  start: "vault_reach H K X V s0 s0"
| call: "vault_reach H K X V s0 s \<Longrightarrow> current_contract_address E = V \<Longrightarrow> vault_step H K X E c s s' \<Longrightarrow>
    vault_reach H K X V s0 s'"
| outside: "vault_reach H K X V s0 s \<Longrightarrow> vault_reach H K X V s0 (s\<lparr>world := w\<rparr>)"

section \<open>What a step can touch\<close>

text \<open>A property that does not read the fields a helper writes is kept by it.\<close>

lemma keeps_helpers [keeps_intro]:
  "(\<And>s ev. P s \<Longrightarrow> P (s\<lparr>v_events := ev\<rparr>)) \<Longrightarrow> keeps P (publish e)"
  "(\<And>s n. P s \<Longrightarrow> P (s\<lparr>v_nonce := n\<rparr>)) \<Longrightarrow> keeps P increment_nonce"
  "(\<And>s w. P s \<Longrightarrow> P (s\<lparr>world := w\<rparr>)) \<Longrightarrow> keeps P (transfer X tok a b x)"
  "(\<And>s l. P s \<Longrightarrow> P (s\<lparr>v_guard_lock := l\<rparr>)) \<Longrightarrow> keeps P guard_acquire"
  "(\<And>s l. P s \<Longrightarrow> P (s\<lparr>v_guard_lock := l\<rparr>)) \<Longrightarrow> keeps P guard_release"
  "(\<And>s n. P s \<Longrightarrow> P (s\<lparr>v_user_nonce := n\<rparr>)) \<Longrightarrow> keeps P (check_and_bump_user_nonce a k)"
  "keeps P refuse_paused" "keeps P (require_admin E)" "keeps P admin_of" "keeps P active_fee_recipient"
  by (simp_all only: step_defs admin_of_def; intro keeps_intro keeps_amodify; simp)+

lemma keeps_read_policy_cache [keeps_intro]: "keeps P read_policy_cache"
  by (rule keepsI) (simp add: read_policy_cache_def)

lemma keeps_recall_principal_if [keeps_intro]:
  assumes "\<And>s w. P s \<Longrightarrow> P (s\<lparr>world := w\<rparr>)" "\<And>s d. P s \<Longrightarrow> P (s\<lparr>v_deployed_principal := d\<rparr>)"
    "\<And>s h. P s \<Longrightarrow> P (s\<lparr>v_harvested_yield := h\<rparr>)" "\<And>s n. P s \<Longrightarrow> P (s\<lparr>v_nonce := n\<rparr>)"
    "\<And>s ev. P s \<Longrightarrow> P (s\<lparr>v_events := ev\<rparr>)"
  shows "keeps P (recall_principal X E a p)"
  unfolding recall_principal_def strategy_withdraw_def
  by (intro keeps_intro keeps_amodify; simp add: assms)

lemma keeps_ensure_liquidity_if [keeps_intro]:
  assumes "\<And>s w. P s \<Longrightarrow> P (s\<lparr>world := w\<rparr>)" "\<And>s d. P s \<Longrightarrow> P (s\<lparr>v_deployed_principal := d\<rparr>)"
    "\<And>s h. P s \<Longrightarrow> P (s\<lparr>v_harvested_yield := h\<rparr>)" "\<And>s n. P s \<Longrightarrow> P (s\<lparr>v_nonce := n\<rparr>)"
    "\<And>s ev. P s \<Longrightarrow> P (s\<lparr>v_events := ev\<rparr>)" "\<And>s l. P s \<Longrightarrow> P (s\<lparr>v_reentrancy_lock := l\<rparr>)"
  shows "keeps P (ensure_liquidity X E tok b n)"
  unfolding ensure_liquidity_def
  by (intro keeps_intro keeps_amodify; simp add: assms)

lemma keeps_claim_single [keeps_intro]:
  assumes "\<And>s w. P s \<Longrightarrow> P (s\<lparr>world := w\<rparr>)" "\<And>s d. P s \<Longrightarrow> P (s\<lparr>v_deployed_principal := d\<rparr>)"
    "\<And>s h. P s \<Longrightarrow> P (s\<lparr>v_harvested_yield := h\<rparr>)" "\<And>s n. P s \<Longrightarrow> P (s\<lparr>v_nonce := n\<rparr>)"
    "\<And>s ev. P s \<Longrightarrow> P (s\<lparr>v_events := ev\<rparr>)" "\<And>s l. P s \<Longrightarrow> P (s\<lparr>v_reentrancy_lock := l\<rparr>)"
    "\<And>s r l. P s \<Longrightarrow> P (s\<lparr>v_refund_v2 := r, v_last_claim := l\<rparr>)" "\<And>s t. P s \<Longrightarrow> P (s\<lparr>v_tier_state := t\<rparr>)"
  shows "keeps P (claim_single X E cache claim)"
  unfolding claim_single_def pay_out_def record_claim_def on_settled_def
  by (intro keeps_intro keeps_amodify; simp add: assms)

lemmas call_defs = vault_constructor_def deposit_def use_coupon_def mint_coupon_def coupons_mint_coupon_def
  apply_coupon_def set_token_def withdraw_def propose_policy_def execute_policy_def
  set_settlement_contract_def set_claim_cooldown_def commit_def reveal_def add_oracle_def
  remove_oracle_def migrate_state_def set_time_policy_contract_def set_vdf_policy_contract_def
  set_fee_bps_def set_fee_recipient_def set_oracle_policy_def clear_oracle_policy_def set_active_def
  approve_def revoke_def set_recipient_def distribute_yield_def distribute_def emergency_exit_yield_def
  emergency_exit_def set_reserve_ratio_def set_max_deploy_ratio_def deploy_to_yield_def
  check_deploy_limits_def strategy_deposit_def strategy_harvest_def withdraw_from_yield_def
  harvest_yield_def pause_def unpause_def set_dust_config_def sweep_dust_def dust_treasury_def
  pay_dust_def flash_loan_def flash_settle_def on_flash_loan_def transfer_admin_def accept_admin_def
  cancel_admin_transfer_def deposit_nft_def claim_nft_def refund_nft_def nft_release_def
  nft_owner_def nft_transfer_def set_tier_ladder_def clear_tier_ladder_def
  refund_def claim_batch_def process_batch_def

text \<open>The refund policy in force changes only when a pending proposal is executed.\<close>

definition policy_view :: "'w vault \<Rightarrow> u32 option \<times> u64 option \<times> u32 option" where
  "policy_view s = (v_refund_window s, v_refund_deadline s, v_vdf_delay s)"

lemma keeps_policy:
  assumes "\<And>i. c \<noteq> Initialize i" "c \<noteq> ExecutePolicy"
  shows "keeps (\<lambda>s. policy_view s = v) (vault_run H K X E c)"
proof (cases c)
  case (Initialize i)
  then show ?thesis using assms(1) by blast
next
  case ExecutePolicy
  then show ?thesis using assms(2) by blast
qed (simp_all only: vault_run.simps call_defs policy_view_def, (intro keeps_intro keeps_amodify; simp)+)

text \<open>The administrator changes only by construction and by acceptance of a transfer.\<close>

lemma keeps_admin:
  assumes "\<And>i. c \<noteq> Initialize i" "c \<noteq> AcceptAdmin"
  shows "keeps (\<lambda>s. v_admin s = v) (vault_run H K X E c)"
proof (cases c)
  case (Initialize i)
  then show ?thesis using assms(1) by blast
next
  case AcceptAdmin
  then show ?thesis using assms(2) by blast
qed (simp_all only: vault_run.simps call_defs, (intro keeps_intro keeps_amodify; simp)+)

text \<open>The refund records change only by claims and by the dust sweep.\<close>

definition is_claim_call :: "vault_call \<Rightarrow> bool" where
  "is_claim_call c = (case c of Refund _ _ _ _ _ _ _ \<Rightarrow> True | ClaimBatch _ _ \<Rightarrow> True | ProcessBatch _ _ \<Rightarrow> True | _ \<Rightarrow> False)"

lemma keeps_books:
  assumes "\<not> is_claim_call c" "\<And>r. c \<noteq> SweepDust r"
  shows "keeps (\<lambda>s. v_refund_v2 s = v) (vault_run H K X E c)"
proof (cases c)
  case (SweepDust r)
  then show ?thesis using assms(2) by blast
qed (use assms(1) in \<open>simp_all add: is_claim_call_def\<close>, (simp_all only: call_defs),
    (intro keeps_intro keeps_amodify; simp)+)

lemma keeps_tiers:
  assumes "\<not> is_claim_call c" "\<And>l. c \<noteq> SetTierLadder l" "c \<noteq> ClearTierLadder"
  shows "keeps (\<lambda>s. (v_tier_ladder s, v_tier_state s) = v) (vault_run H K X E c)"
proof (cases c)
  case (SetTierLadder l)
  then show ?thesis using assms(2) by blast
next
  case ClearTierLadder
  then show ?thesis using assms(3) by blast
qed (use assms(1) in \<open>simp_all add: is_claim_call_def\<close>, (simp_all only: call_defs),
    (intro keeps_intro keeps_amodify; simp)+)

text \<open>The next expected nonce of a caller never goes down.\<close>

lemma keeps_bump_nonce [keeps_intro]: "keeps (\<lambda>s. n \<le> current_user_nonce s a) (check_and_bump_user_nonce b k)"
  by (rule keepsI)
    (auto simp: check_and_bump_user_nonce_def current_user_nonce_def abind_def aseq_def u64_add_def
      split: prod.splits result.splits)

lemma keeps_user_nonce: "keeps (\<lambda>s. n \<le> current_user_nonce s a) (vault_run H K X E c)"
  by (cases c) (simp_all only: vault_run.simps call_defs,
    (intro keeps_intro keeps_amodify; simp add: current_user_nonce_def)+)

section \<open>How a call ends\<close>

text \<open>\<open>ends Q m\<close>: when the step succeeds, its final state has \<open>Q\<close>.\<close>

definition ends :: "('s \<Rightarrow> bool) \<Rightarrow> ('s, 'a) act \<Rightarrow> bool" where
  "ends Q m \<longleftrightarrow> (\<forall>s x s'. m s = (Ok x, s') \<longrightarrow> Q s')"

named_theorems ends_intro "how a sequence of steps ends"

lemma ends_abind [ends_intro]: "(\<And>x. ends Q (f x)) \<Longrightarrow> ends Q (abind m f)"
  by (auto simp: ends_def ok_iff)

lemma ends_aseq [ends_intro]: "ends Q n \<Longrightarrow> ends Q (aseq m n)"
  by (auto simp: ends_def ok_iff)

lemma ends_Let [ends_intro]: "(\<And>x. ends Q (f x)) \<Longrightarrow> ends Q (let x = t in f x)"
  by simp

lemma ends_release [ends_intro]: "ends (\<lambda>s. v_guard_lock s = Some False) guard_release"
  by (auto simp: ends_def ok_iff)

lemma ends_release_ret [ends_intro]:
  "ends (\<lambda>s. v_guard_lock s = Some False) (aseq guard_release (aret x))"
  "ends (\<lambda>s. v_guard_lock s = Some False) m \<Longrightarrow> ends (\<lambda>s. v_guard_lock s = Some False) (aseq m (aret x))"
  by (auto simp: ends_def ok_iff)

definition is_guarded :: "vault_call \<Rightarrow> bool" where
  "is_guarded c = (case c of Deposit _ _ _ \<Rightarrow> True | Refund _ _ _ _ _ _ _ \<Rightarrow> True | ClaimBatch _ _ \<Rightarrow> True
     | Withdraw _ _ \<Rightarrow> True | DistributeYield \<Rightarrow> True | EmergencyExitYield \<Rightarrow> True | DeployToYield _ \<Rightarrow> True
     | WithdrawFromYield _ \<Rightarrow> True | HarvestYield \<Rightarrow> True | SweepDust _ \<Rightarrow> True | FlashLoan _ _ _ \<Rightarrow> True
     | DepositNft _ _ _ _ \<Rightarrow> True | ClaimNft _ _ _ \<Rightarrow> True | RefundNft _ _ _ \<Rightarrow> True | _ \<Rightarrow> False)"

lemma guarded_releases:
  "is_guarded c \<Longrightarrow> ends (\<lambda>s. v_guard_lock s = Some False) (vault_run H K X E c)"
  by (cases c) (simp_all add: is_guarded_def, (simp_all only: call_defs), (intro ends_release_ret ends_release ends_Let ends_abind ends_aseq)+)

lemma unguarded_keeps_lock:
  "\<not> is_guarded c \<Longrightarrow> keeps (\<lambda>s. v_guard_lock s = v) (vault_run H K X E c)"
  by (cases c) (simp_all add: is_guarded_def, (simp_all only: call_defs), (intro keeps_intro keeps_amodify; simp)+)

text \<open>A guarded call made while the lock is held does nothing.\<close>

lemma guarded_blocked:
  assumes "is_guarded c" "v_guard_lock s = Some True" "\<And>cs n. c = ClaimBatch cs n \<Longrightarrow> length cs \<le> 100"
  shows "vault_run H K X E c s = (Err ReentrancyBlocked, s)"
proof -
  have "guard_acquire s = (Err ReentrancyBlocked, s)"
    using assms(2) by (simp add: guard_acquire_def acquire_def abind_simps)
  then show ?thesis
    using assms(1,3) by (cases c) (simp_all add: is_guarded_def call_defs aseq_simps Let_def VAULT_MAX_BATCH_SIZE_def)
qed

section \<open>The invariants in every reachable state\<close>

text \<open>\<open>preserves P m\<close>: a step that does not trap keeps \<open>P\<close>, whether it succeeds or returns an error.\<close>

definition preserves :: "('s \<Rightarrow> bool) \<Rightarrow> ('s, 'a) act \<Rightarrow> bool" where
  "preserves P m \<longleftrightarrow> (\<forall>s. P s \<longrightarrow> fst (m s) \<noteq> Trap \<longrightarrow> P (snd (m s)))"

named_theorems preserves_intro "steps that preserve a property unless they trap"

lemma preservesD: "preserves P m \<Longrightarrow> P s \<Longrightarrow> m s = (r, s') \<Longrightarrow> r \<noteq> Trap \<Longrightarrow> P s'"
  unfolding preserves_def by (metis fst_conv snd_conv)

lemma preservesI:
  "(\<And>s x s'. P s \<Longrightarrow> m s = (Ok x, s') \<Longrightarrow> P s') \<Longrightarrow> (\<And>s e s'. P s \<Longrightarrow> m s = (Err e, s') \<Longrightarrow> P s') \<Longrightarrow>
    preserves P m"
  unfolding preserves_def by (metis result.exhaust prod.collapse)

lemma preserves_keeps: "keeps P m \<Longrightarrow> preserves P m"
  by (simp add: preserves_def keeps_def)

lemma preserves_abind [preserves_intro]:
  assumes "preserves P m" "\<And>x. preserves P (f x)"
  shows "preserves P (abind m f)"
  unfolding preserves_def
proof (intro allI impI)
  fix s
  assume s: "P s" and t: "fst (abind m f s) \<noteq> Trap"
  obtain r s' where m: "m s = (r, s')" by fastforce
  then have "r \<noteq> Trap" using t by (auto simp: abind_def)
  then have "P s'" using assms(1) s m preservesD by metis
  then show "P (snd (abind m f s))"
    using m t assms(2) by (cases r) (auto simp: abind_def preserves_def)
qed

lemma preserves_aseq [preserves_intro]: "preserves P m \<Longrightarrow> preserves P n \<Longrightarrow> preserves P (aseq m n)"
  unfolding aseq_def by (intro preserves_abind)

lemma preserves_if [preserves_intro]: "preserves P m \<Longrightarrow> preserves P n \<Longrightarrow> preserves P (if b then m else n)"
  by simp

lemma preserves_ais_ok [preserves_intro]:
  assumes "preserves P m"
  shows "preserves P (ais_ok m)"
  unfolding preserves_def
proof (intro allI impI)
  fix s
  assume s: "P s" and t: "fst (ais_ok m s) \<noteq> Trap"
  obtain r s' where m: "m s = (r, s')" by fastforce
  then have "r \<noteq> Trap" using t by (auto simp: ais_ok_def)
  then have "P s'" using assms(1) s m preservesD by metis
  then show "P (snd (ais_ok m s))" using m by (cases r) (auto simp: ais_ok_def)
qed

lemma preserves_ret [preserves_intro]: "preserves P (aret x)"
  by (simp add: preserves_def)

lemma preserves_option [preserves_intro]:
  "preserves P m \<Longrightarrow> (\<And>y. preserves P (f y)) \<Longrightarrow> preserves P (case x of None \<Rightarrow> m | Some y \<Rightarrow> f y)"
  by (cases x) auto

lemma preserves_afor [preserves_intro]: "(\<And>x. preserves P (f x)) \<Longrightarrow> preserves P (afor f xs)"
  by (induction xs) (simp_all add: preserves_ret preserves_aseq)

lemma preserves_amap [preserves_intro]: "(\<And>x. preserves P (f x)) \<Longrightarrow> preserves P (amap f xs)"
  by (induction xs) (simp_all add: preserves_ret preserves_abind)

text \<open>Strategy books.\<close>

lemma strategy_inv_updates [simp]:
  "strategy_inv (s\<lparr>world := w\<rparr>) = strategy_inv s" "strategy_inv (s\<lparr>v_nonce := n\<rparr>) = strategy_inv s"
  "strategy_inv (s\<lparr>v_events := ev\<rparr>) = strategy_inv s" "strategy_inv (s\<lparr>v_reentrancy_lock := l\<rparr>) = strategy_inv s"
  "strategy_inv (s\<lparr>v_guard_lock := g\<rparr>) = strategy_inv s" "strategy_inv (s\<lparr>v_user_nonce := u\<rparr>) = strategy_inv s"
  "strategy_inv (s\<lparr>v_refund_v2 := r\<rparr>) = strategy_inv s" "strategy_inv (s\<lparr>v_last_claim := c\<rparr>) = strategy_inv s"
  "strategy_inv (s\<lparr>v_tier_state := t\<rparr>) = strategy_inv s"
  by (simp_all add: strategy_inv_def strategy_reads)

lemma recall_principal_Err:
  assumes "recall_principal X E a p s = (Err e, s')" "strategy_inv s"
  shows "strategy_inv s'"
  using assms
  by (auto simp: recall_principal_def strategy_withdraw_def token_of_def err_iff ok_iff strategy_inv_def strategy_reads
      simp del: act_simps split: if_splits)

lemma preserves_recall [preserves_intro]: "preserves strategy_inv (recall_principal X E a p)"
  by (rule preservesI, (rule recall_principal_inv, assumption+), (rule recall_principal_Err, assumption+))

lemma preserves_ensure_liquidity [preserves_intro]: "preserves strategy_inv (ensure_liquidity X E tok b n)"
proof -
  have "preserves strategy_inv (aseq (amodify (\<lambda>s. if held then s else s\<lparr>v_reentrancy_lock := Some True\<rparr>))
      (aseq (recall_principal X E a p) (aseq (amodify (\<lambda>s. if held then s else s\<lparr>v_reentrancy_lock := Some False\<rparr>))
      (balance X tok c))))" for held a p and c
    by (intro preserves_aseq preserves_recall; rule preserves_keeps; intro keeps_intro keeps_amodify; simp)
  then show ?thesis
    unfolding ensure_liquidity_def Let_def
    by (intro preserves_if preserves_abind preserves_option)
      (assumption | rule preserves_keeps, intro keeps_intro)+
qed

lemma preserves_claim_single [preserves_intro]: "preserves strategy_inv (claim_single X E cache claim)"
  unfolding claim_single_def Let_def case_prod_beta
  by (intro preserves_aseq preserves_abind preserves_ensure_liquidity;
    rule preserves_keeps; (simp only: pay_out_def record_claim_def on_settled_def)?;
    intro keeps_intro keeps_amodify; simp)

text \<open>Refund records and tiers.\<close>

definition claims_inv :: "'w vault \<Rightarrow> bool" where
  "claims_inv s \<longleftrightarrow> books_inv s \<and> tier_inv s"

lemma claims_inv_cong:
  "v_refund_v2 t = v_refund_v2 s \<Longrightarrow> v_tier_ladder t = v_tier_ladder s \<Longrightarrow> v_tier_state t = v_tier_state s \<Longrightarrow>
    claims_inv t = claims_inv s"
  by (simp add: claims_inv_def books_inv_def tier_inv_def)

lemma claim_single_tiers:
  assumes "claim_single X E cache claim s = (Ok (), s')" "tier_inv s"
  shows "tier_inv s'"
proof -
  obtain fee payout b t u where g: "gates_ok X E cache claim s"
    and l: "ensure_liquidity X E (ca_token_addr cache) (tok_balance (ex_token X) (world s) (ca_token_addr cache)
       (current_contract_address E)) (rc_amount claim) s = (Ok b, t)"
    and p: "pay_out X E (ca_token_addr cache) (rc_recipient claim) fee payout t = (Ok (), u)"
    and o: "(if ca_tiers_active cache then on_settled (rc_amount claim) else aret ())
      (claimed_state E s claim fee u) = (Ok (), s')"
    using assms(1) by (rule claim_single_Ok)
  have t: "same_claims s t" using keepsD [OF keeps_ensure_liquidity same_claims_refl l] .
  obtain w where u: "u = t\<lparr>world := w\<rparr>" using p by (rule pay_out_Ok)
  have inv: "tier_inv (claimed_state E s claim fee u)"
    using assms(2) t by (simp add: tier_inv_def claimed_state_def u same_claims_def)
  have x: "0 \<le> rc_amount claim" using g by (simp add: gates_ok_iff)
  show ?thesis
  proof (cases "ca_tiers_active cache")
    case True
    obtain s'' where "on_settled (rc_amount claim) (claimed_state E s claim fee u) = (Ok (), s'')" "tier_inv s''"
      using inv x by (rule on_settled_tracks)
    then show ?thesis using o True by simp
  next
    case False
    then show ?thesis using o inv by simp
  qed
qed

lemma preserves_claims_inv [preserves_intro]: "preserves claims_inv (claim_single X E cache claim)"
proof (rule preservesI)
  fix s x s'
  assume "claims_inv s" "claim_single X E cache claim s = (Ok x, s')"
  then show "claims_inv s'"
    using claim_single_inv claim_single_tiers unfolding claims_inv_def by (metis (full_types) old.unit.exhaust)
next
  fix s e s'
  assume inv: "claims_inv s" and "claim_single X E cache claim s = (Err e, s')"
  then have "same_claims s s'" by (intro claim_single_Err)
  then show "claims_inv s'" using inv claims_inv_cong [of s' s] by (simp add: same_claims_def)
qed

lemma step_claims_inv:
  assumes "vault_step H K X E c s s'" "claims_inv s"
  shows "claims_inv s'"
proof -
  have run: "vault_run H K X E c s = (Ok (), s')" using assms(1) by (simp add: vault_step_def ok_iff)
  have start: "claims_inv (claims_start s l m n)" for l m n
    using assms(2) claims_inv_cong [of "claims_start s l m n" s] by (simp add: claims_start_def)
  consider r a x l p v n where "c = Refund r a x l p v n" | cs n where "c = ClaimBatch cs n"
    | items n where "c = ProcessBatch items n" | r where "c = SweepDust r" | l where "c = SetTierLadder l"
    | "c = ClearTierLadder"
    | "\<not> is_claim_call c" "\<And>r. c \<noteq> SweepDust r" "\<And>l. c \<noteq> SetTierLadder l" "c \<noteq> ClearTierLadder"
    by (cases c) (simp_all add: is_claim_call_def)
  then show ?thesis
  proof cases
    case 1
    then obtain m cache claim t where "claim_single X E cache claim (claims_start s (Some True) m n) = (Ok (), t)"
        "s' = t\<lparr>v_guard_lock := Some False\<rparr>"
      using run by (auto elim: refund_Ok)
    then show ?thesis
      using preservesD [OF preserves_claims_inv start] claims_inv_cong [of s' t] by simp
  next
    case 2
    then obtain m cache t where r: "afor (claim_single X E cache) cs (claims_start s (Some True) m n) = (Ok (), t)"
        "s' = t\<lparr>v_guard_lock := Some False\<rparr>"
      using run by (auto elim: claim_batch_Ok)
    have "preserves claims_inv (afor (claim_single X E cache) cs)" by (intro preserves_intro)
    then have "claims_inv t" using start r(1) by (rule preservesD) simp
    then show ?thesis using r(2) claims_inv_cong [of s' t] by simp
  next
    case 3
    show ?thesis
    proof (cases "items = []")
      case True
      then show ?thesis using run 3 assms(2) by (auto simp: process_batch_def ok_iff)
    next
      case False
      obtain bs where "process_batch X E items n s = (Ok bs, s')" using run 3 by (auto simp: ok_iff)
      then obtain m cache t where r: "amap (\<lambda>item. ais_ok (claim_single X E cache (claim_of_param item))) items
         (claims_start s (v_guard_lock s) m n) = (Ok bs, t)"
          "s' = t\<lparr>v_events := v_events t @ [BatchRefundEvent (map rp_payment_ref items) bs]\<rparr>"
        using False by (auto elim: process_batch_Ok)
      have "preserves claims_inv (amap (\<lambda>item. ais_ok (claim_single X E cache (claim_of_param item))) items)"
        by (intro preserves_intro)
      then have "claims_inv t" using start r(1) by (rule preservesD) simp
      then show ?thesis using r(2) claims_inv_cong [of s' t] by simp
    qed
  next
    case 4
    then obtain x where "sweep_dust X E r s = (Ok x, s')" using run by (auto simp: ok_iff)
    then obtain a t where "pay_dust X E a x (s\<lparr>v_guard_lock := Some True\<rparr>) = (Ok (), t)" and
        s': "s' = t\<lparr>v_refund_v2 := (v_refund_v2 t)(r := None), v_events := v_events t @ [DustSweptEvent r x a],
          v_guard_lock := Some False\<rparr>"
      by (rule sweep_dust_Ok)
    then obtain w where "t = s\<lparr>v_guard_lock := Some True, world := w\<rparr>" by (auto elim: pay_dust_Ok)
    then show ?thesis using assms(2) s' by (auto simp: claims_inv_def books_inv_def tier_inv_def)
  next
    case 5
    then have r: "set_tier_ladder E l s = (Ok (), s')" using run by simp
    then have "v_refund_v2 s' = v_refund_v2 s" by (auto simp: set_tier_ladder_def ok_iff Let_def)
    then show ?thesis
      using set_tier_ladder_Ok(1) [OF r] assms(2) by (simp add: claims_inv_def books_inv_def)
  next
    case 6
    then have r: "clear_tier_ladder E s = (Ok (), s')" using run by simp
    then have "v_refund_v2 s' = v_refund_v2 s" by (auto simp: clear_tier_ladder_def ok_iff)
    then show ?thesis
      using clear_tier_ladder_Ok [OF r] assms(2) by (simp add: claims_inv_def books_inv_def)
  next
    case 7
    then show ?thesis
      using keepsD [OF keeps_books [OF 7(1,2)] refl run] keepsD [OF keeps_tiers [OF 7(1,3,4)] refl run]
        assms(2) claims_inv_cong [of s' s] by simp
  qed
qed

text \<open>The strategy's books.\<close>

definition is_strategy_call :: "vault_call \<Rightarrow> bool" where
  "is_strategy_call c = (case c of SetYieldStrategy _ \<Rightarrow> True | ApproveYieldStrategy _ \<Rightarrow> True
     | RevokeYieldStrategy _ \<Rightarrow> True | DistributeYield \<Rightarrow> True | DeployToYield _ \<Rightarrow> True
     | HarvestYield \<Rightarrow> True | _ \<Rightarrow> False)"

lemma preserves_strategy:
  "\<not> is_strategy_call c \<Longrightarrow> preserves strategy_inv (vault_run H K X E c)"
proof (cases c)
  fix r a x l p v n
  assume c: "c = Refund r a x l p v n"
  show ?thesis unfolding c vault_run.simps refund_def
    by (intro preserves_aseq preserves_abind preserves_claim_single; rule preserves_keeps; intro keeps_intro; simp)
next
  fix cs n
  assume c: "c = ClaimBatch cs n"
  show ?thesis unfolding c vault_run.simps claim_batch_def
    by (intro preserves_aseq preserves_abind preserves_afor preserves_claim_single; rule preserves_keeps; intro keeps_intro; simp)
next
  fix rs n
  assume c: "c = ProcessBatch rs n"
  show ?thesis unfolding c vault_run.simps process_batch_def
    by (intro preserves_aseq preserves_abind preserves_if preserves_amap preserves_ais_ok preserves_claim_single;
      rule preserves_keeps; intro keeps_intro; simp)
next
  fix x a
  assume c: "c = Withdraw x a"
  show ?thesis unfolding c vault_run.simps withdraw_def
    by (intro preserves_aseq preserves_abind preserves_ensure_liquidity; rule preserves_keeps; intro keeps_intro; simp)
next
  assume c: "c = EmergencyExitYield"
  show ?thesis unfolding c vault_run.simps emergency_exit_yield_def emergency_exit_def case_prod_beta
    by (intro preserves_aseq preserves_abind preserves_recall; rule preserves_keeps; intro keeps_intro; simp)
next
  fix x
  assume c: "c = WithdrawFromYield x"
  show ?thesis unfolding c vault_run.simps withdraw_from_yield_def
    by (intro preserves_aseq preserves_abind preserves_recall; rule preserves_keeps; intro keeps_intro; simp)
qed (simp_all add: is_strategy_call_def, (rule preserves_keeps, simp only: call_defs,
    (intro keeps_intro keeps_amodify; simp add: strategy_inv_def strategy_reads))+)

lemma step_strategy_inv:
  assumes "vault_step H K X E c s s'" "strategy_inv s"
  shows "strategy_inv s'"
proof -
  have run: "vault_run H K X E c s = (Ok (), s')" using assms(1) by (simp add: vault_step_def ok_iff)
  consider a where "c = SetYieldStrategy a" | a where "c = ApproveYieldStrategy a" | a where "c = RevokeYieldStrategy a"
    | "c = DistributeYield" | x where "c = DeployToYield x" | "c = HarvestYield" | "\<not> is_strategy_call c"
    by (cases c) (simp_all add: is_strategy_call_def)
  then show ?thesis
  proof cases
    case 1
    then show ?thesis using run assms(2) set_active_inv by simp
  next
    case 2
    then show ?thesis using run assms(2) approve_inv by simp
  next
    case 3
    then show ?thesis using run assms(2) revoke_inv by simp
  next
    case 4
    then obtain x where "distribute_yield X E s = (Ok x, s')" using run by (auto simp: ok_iff)
    then obtain t where "distribute X E (s\<lparr>v_guard_lock := Some True\<rparr>) = (Ok x, t)" and s': "s' = t\<lparr>v_guard_lock := Some False\<rparr>"
      by (rule distribute_yield_Ok)
    then show ?thesis
      using assms(2) by (elim distribute_Ok) (simp add: strategy_inv_def strategy_reads)
  next
    case 5
    then have "deploy_to_yield X E x s = (Ok (), s')" using run by simp
    then show ?thesis
      by (rule deploy_to_yield_Ok) (use assms(2) in \<open>simp add: strategy_inv_def strategy_reads\<close>)
  next
    case 6
    then have "harvest_yield X E s = (Ok (), s')" using run by simp
    then show ?thesis
      by (rule harvest_yield_Ok) (use assms(2) in \<open>simp add: strategy_inv_def strategy_reads\<close>)
  next
    case 7
    then show ?thesis using preservesD [OF preserves_strategy [OF 7] assms(2) run] by simp
  qed
qed

text \<open>Configuration: coupons are capped, the oracle whitelist has no duplicates.\<close>

definition config_inv :: "'w vault \<Rightarrow> bool" where
  "config_inv s \<longleftrightarrow> (\<forall>i c. v_coupon s i = Some c \<longrightarrow> co_discount_bps c \<le> 5000) \<and> distinct (get_oracles s) \<and>
     unwrap_or (v_reserve_ratio s) 0 \<le> 10000 \<and> unwrap_or (v_max_deploy_ratio s) 10000 \<le> 10000"

lemma config_inv_cong:
  "v_coupon t = v_coupon s \<Longrightarrow> v_oracles t = v_oracles s \<Longrightarrow> v_reserve_ratio t = v_reserve_ratio s \<Longrightarrow>
    v_max_deploy_ratio t = v_max_deploy_ratio s \<Longrightarrow> config_inv t = config_inv s"
  by (simp add: config_inv_def get_oracles_def)

definition is_config_call :: "vault_call \<Rightarrow> bool" where
  "is_config_call c = (case c of Deposit _ _ _ \<Rightarrow> True | MintCoupon _ _ _ \<Rightarrow> True | AddOracle _ \<Rightarrow> True
     | RemoveOracle _ \<Rightarrow> True | SetReserveRatio _ \<Rightarrow> True | SetMaxDeployRatio _ \<Rightarrow> True | _ \<Rightarrow> False)"

lemma keeps_config:
  "\<not> is_config_call c \<Longrightarrow> keeps (\<lambda>s. (v_coupon s, v_oracles s, v_reserve_ratio s, v_max_deploy_ratio s) = v) (vault_run H K X E c)"
  by (cases c) (simp_all add: is_config_call_def, (simp_all only: call_defs), (intro keeps_intro keeps_amodify; simp)+)

text \<open>A deposit writes a coupon only to mark it redeemed.\<close>

lemma use_coupon_Ok:
  assumes "use_coupon a x i s = (Ok e, s')"
  shows "i = None \<Longrightarrow> e = x \<and> s' = s"
    "i = Some k \<Longrightarrow> \<exists>c ev. get_coupon s k = Some c \<and> co_owner c = a \<and> \<not> co_redeemed c \<and>
       apply_fee_bps x (co_discount_bps c) = Inr (x - e) \<and>
       s' = s\<lparr>v_coupon := (v_coupon s)(k \<mapsto> c\<lparr>co_redeemed := True\<rparr>), v_events := ev\<rparr>"
  using assms by (auto simp: use_coupon_def ok_iff elim!: apply_coupon_Ok)

lemma deposit_Ok:
  assumes "deposit X E a x i s = (Ok (), s')"
  obtains e t tok w where "v_admin s = Some a" "authorized E a" "\<not> unwrap_or (v_is_paused s) False" "0 < x"
    "use_coupon a x i (s\<lparr>v_guard_lock := Some True\<rparr>) = (Ok e, t)" "v_token t = Some tok"
    "tok_transfer (ex_token X) (world t) tok a (current_contract_address E) e = Some w"
    "s' = t\<lparr>world := w, v_nonce := Some (unwrap_or (v_nonce t) 0 + 1),
       v_events := v_events t @ [DepositEvent a e (unwrap_or (v_nonce t) 0)], v_guard_lock := Some False\<rparr>"
  using assms
  by (auto simp: deposit_def ok_iff not_le simp del: act_simps intro!: that)

lemma deposit_coupons:
  assumes "deposit X E a x i s = (Ok (), s')"
  shows "v_coupon s' = v_coupon s \<or> (\<exists>k c. get_coupon s k = Some c \<and> \<not> co_redeemed c \<and>
      v_coupon s' = (v_coupon s)(k \<mapsto> c\<lparr>co_redeemed := True\<rparr>))"
    "v_oracles s' = v_oracles s" "v_reserve_ratio s' = v_reserve_ratio s" "v_max_deploy_ratio s' = v_max_deploy_ratio s"
proof -
  obtain e t w where u: "use_coupon a x i (s\<lparr>v_guard_lock := Some True\<rparr>) = (Ok e, t)"
    and s': "s' = t\<lparr>world := w, v_nonce := Some (unwrap_or (v_nonce t) 0 + 1),
       v_events := v_events t @ [DepositEvent a e (unwrap_or (v_nonce t) 0)], v_guard_lock := Some False\<rparr>"
    using assms by (rule deposit_Ok)
  have "(v_coupon s' = v_coupon s \<or> (\<exists>k c. get_coupon s k = Some c \<and> \<not> co_redeemed c \<and>
      v_coupon s' = (v_coupon s)(k \<mapsto> c\<lparr>co_redeemed := True\<rparr>))) \<and> v_oracles s' = v_oracles s \<and>
    v_reserve_ratio s' = v_reserve_ratio s \<and> v_max_deploy_ratio s' = v_max_deploy_ratio s"
  proof (cases i)
    case None
    then show ?thesis using use_coupon_Ok(1) [OF u] s' by simp
  next
    case (Some k)
    obtain c ev where "get_coupon s k = Some c" "\<not> co_redeemed c"
        "t = s\<lparr>v_guard_lock := Some True, v_coupon := (v_coupon s)(k \<mapsto> c\<lparr>co_redeemed := True\<rparr>), v_events := ev\<rparr>"
      using use_coupon_Ok(2) [OF u Some] by (auto simp: get_coupon_def)
    then show ?thesis using s' by auto
  qed
  then show "v_coupon s' = v_coupon s \<or> (\<exists>k c. get_coupon s k = Some c \<and> \<not> co_redeemed c \<and>
      v_coupon s' = (v_coupon s)(k \<mapsto> c\<lparr>co_redeemed := True\<rparr>))"
    "v_oracles s' = v_oracles s" "v_reserve_ratio s' = v_reserve_ratio s" "v_max_deploy_ratio s' = v_max_deploy_ratio s"
    by blast+
qed

lemma step_config_inv:
  assumes "vault_step H K X E c s s'" "config_inv s"
  shows "config_inv s'"
proof -
  have run: "vault_run H K X E c s = (Ok (), s')" using assms(1) by (simp add: vault_step_def ok_iff)
  consider a x i where "c = Deposit a x i" | "is_config_call c" "\<And>a x i. c \<noteq> Deposit a x i" | "\<not> is_config_call c"
    by (cases c) (simp_all add: is_config_call_def)
  then show ?thesis
  proof cases
    case 1
    then have d: "deposit X E a x i s = (Ok (), s')" using run by simp
    show ?thesis
      using deposit_coupons [OF d] assms(2)
      by (auto simp: config_inv_def get_oracles_def get_coupon_def split: if_splits)
  next
    case 2
    then show ?thesis
      using run assms(2)
      by (cases c) (auto simp: is_config_call_def config_inv_def get_oracles_def mint_coupon_def add_oracle_def
        remove_oracle_def set_reserve_ratio_def set_max_deploy_ratio_def ok_iff split: if_splits)
  next
    case 3
    then show ?thesis
      using keepsD [OF keeps_config [OF 3] refl run] assms(2) config_inv_cong [of s' s] by simp
  qed
qed

text \<open>The lock is free between calls.\<close>

lemma step_lock_free:
  assumes "vault_step H K X E c s s'" "\<not> unwrap_or (v_guard_lock s) False"
  shows "\<not> unwrap_or (v_guard_lock s') False"
proof -
  have run: "vault_run H K X E c s = (Ok (), s')" using assms(1) by (simp add: vault_step_def ok_iff)
  show ?thesis
  proof (cases "is_guarded c")
    case True
    then have "v_guard_lock s' = Some False"
      using guarded_releases [OF True] run unfolding ends_def by blast
    then show ?thesis by simp
  next
    case False
    then show ?thesis using keepsD [OF unguarded_keeps_lock [OF False] refl run] assms(2) by simp
  qed
qed

definition vault_inv :: "'w vault \<Rightarrow> bool" where
  "vault_inv s \<longleftrightarrow> claims_inv s \<and> strategy_inv s \<and> config_inv s \<and> \<not> unwrap_or (v_guard_lock s) False"

lemma vault_inv_empty: "vault_inv (vault_empty w)"
  by (simp add: vault_inv_def claims_inv_def books_inv_def tier_inv_def strategy_inv_def strategy_reads
      config_inv_def get_oracles_def vault_empty_def)

lemma vault_inv_world [simp]: "vault_inv (s\<lparr>world := w\<rparr>) = vault_inv s"
  by (simp add: vault_inv_def claims_inv_def books_inv_def tier_inv_def config_inv_def get_oracles_def)

lemma step_vault_inv: "vault_step H K X E c s s' \<Longrightarrow> vault_inv s \<Longrightarrow> vault_inv s'"
  unfolding vault_inv_def by (auto intro: step_claims_inv step_strategy_inv step_config_inv dest: step_lock_free)

lemma vault_reach_inv: "vault_reach H K X V s s' \<Longrightarrow> vault_inv s \<Longrightarrow> vault_inv s'"
  by (induction rule: vault_reach.induct) (auto intro: step_vault_inv)

lemma vault_reach_keeps:
  assumes "vault_reach H K X V s s'" "P s" "\<And>E c. keeps P (vault_run H K X E c)" "\<And>s w. P s \<Longrightarrow> P (s\<lparr>world := w\<rparr>)"
  shows "P s'"
  using assms(1,2)
proof (induction rule: vault_reach.induct)
  case (call s E c s')
  then show ?case using keepsD [OF assms(3)] by (auto simp: vault_step_def ok_iff)
qed (auto intro: assms(4))

section \<open>Proposals, administrators and nonces along a run\<close>

lemma keeps_pending_policy:
  assumes "\<And>w d v. c \<noteq> ProposePolicy w d v" "c \<noteq> ExecutePolicy"
  shows "keeps (\<lambda>s. v_pending_policy s = v) (vault_run H K X E c)"
proof (cases c)
  case (ProposePolicy w d v)
  then show ?thesis using assms(1) by blast
next
  case ExecutePolicy
  then show ?thesis using assms(2) by blast
qed (simp_all only: vault_run.simps call_defs, (intro keeps_intro keeps_amodify; simp)+)

lemma keeps_pending_admin:
  assumes "\<And>a. c \<noteq> TransferAdmin a" "c \<noteq> AcceptAdmin" "c \<noteq> CancelAdminTransfer"
  shows "keeps (\<lambda>s. v_pending_admin s = v) (vault_run H K X E c)"
proof (cases c)
  case (TransferAdmin a)
  then show ?thesis using assms(1) by blast
next
  case AcceptAdmin
  then show ?thesis using assms(2) by blast
next
  case CancelAdminTransfer
  then show ?thesis using assms(3) by blast
qed (simp_all only: vault_run.simps call_defs, (intro keeps_intro keeps_amodify; simp)+)

lemma vault_reach_user_nonce:
  assumes "vault_reach H K X V s s'"
  shows "current_user_nonce s a \<le> current_user_nonce s' a"
  using assms order_refl
proof (rule vault_reach_keeps)
  show "keeps (\<lambda>t. current_user_nonce s a \<le> current_user_nonce t a) (vault_run H K X E c)" for E c
    by (rule keeps_user_nonce)
  show "current_user_nonce s a \<le> current_user_nonce (t\<lparr>world := w\<rparr>) a"
    if "current_user_nonce s a \<le> current_user_nonce t a" for t w
    using that by (simp add: current_user_nonce_def)
qed

text \<open>A redeemed coupon stays redeemed.\<close>

definition redeemed :: "u64 \<Rightarrow> 'w vault \<Rightarrow> bool" where
  "redeemed k s \<longleftrightarrow> (\<exists>c. get_coupon s k = Some c \<and> co_redeemed c)"

lemma step_redeemed:
  assumes "vault_step H K X E c s s'" "redeemed k s"
  shows "redeemed k s'"
proof -
  have run: "vault_run H K X E c s = (Ok (), s')" using assms(1) by (simp add: vault_step_def ok_iff)
  consider a x i where "c = Deposit a x i" | i a d where "c = MintCoupon i a d" | "is_config_call c" "\<And>a x i. c \<noteq> Deposit a x i" "\<And>i a d. c \<noteq> MintCoupon i a d"
    | "\<not> is_config_call c"
    by (cases c) (simp_all add: is_config_call_def)
  then show ?thesis
  proof cases
    case 1
    then have d: "deposit X E a x i s = (Ok (), s')" using run by simp
    show ?thesis
      using deposit_coupons(1) [OF d] assms(2) by (auto simp: redeemed_def get_coupon_def)
  next
    case 2
    then show ?thesis
      using run assms(2) by (auto simp: mint_coupon_def ok_iff redeemed_def get_coupon_def)
  next
    case 3
    then have "v_coupon s' = v_coupon s"
      using run
      by (cases c) (auto simp: is_config_call_def get_oracles_def add_oracle_def
        remove_oracle_def set_reserve_ratio_def set_max_deploy_ratio_def ok_iff split: if_splits)
    then show ?thesis using assms(2) by (simp add: redeemed_def get_coupon_def)
  next
    case 4
    then show ?thesis
      using keepsD [OF keeps_config [OF 4] refl run] assms(2) by (simp add: redeemed_def get_coupon_def)
  qed
qed

lemma vault_reach_redeemed: "vault_reach H K X V s s' \<Longrightarrow> redeemed k s \<Longrightarrow> redeemed k s'"
proof (induction rule: vault_reach.induct)
  case (outside s w)
  then show ?case by (simp add: redeemed_def get_coupon_def)
qed (auto intro: step_redeemed)

end
