(* ===== verification/Vault_Claims.thy ===== *)
theory Vault_Claims
  imports Vault_Machine
begin

text \<open>
  What the refund vault guarantees: the state machine of \<open>Vault_Machine\<close> over the entry points of
  \<open>Refund_Vault\<close>, \<open>Vault_Config\<close>, \<open>Vault_Funds\<close> and \<open>Vault_Escrow\<close>, together with the time policy it
  delegates to. Each guarantee comes with an instance on a small vault whose token is a ledger of
  balances.
\<close>

section \<open>A small vault\<close>

text \<open>Address 1 is the vault, 7 the merchant, 9 the token, 5 a yield strategy, 6 a flash borrower.\<close>

definition vx_env :: env where
  "vx_env = \<lparr>sequence = 100, timestamp = 5000, current_contract_address = 1, authorized = (\<lambda>a. a = 7)\<rparr>"

definition vx_ext :: "ledger externals" where
  "vx_ext = \<lparr>ex_token = ledger_token,
     ex_policy = (\<lambda>w a p c. time_policy_evaluate (\<lambda>_ _. None) p c),
     ex_price = (\<lambda>w a f. Some (int a)), ex_last_update = (\<lambda>w a f. Some 100),
     ex_strategy_deposit = (\<lambda>w a x. Some w),
     ex_strategy_withdraw = (\<lambda>w a x. map_option (\<lambda>w'. ((x, 0), w')) (ledger_transfer w 9 a 1 x)),
     ex_strategy_harvest = (\<lambda>w a. Some (50, w)),
     ex_transfer_from = (\<lambda>w t sp a b x. ledger_transfer w t a b x),
     ex_nft_owner = (\<lambda>w c i. Some 1), ex_nft_transfer = (\<lambda>w c a b i. Some w),
     ex_ed25519_verify = (\<lambda>k m g. k = g),
     ex_on_flash_loan = (\<lambda>w r i t x f d. ledger_transfer w t r 1 (x + f))\<rparr>"

definition vx_ledger :: ledger where
  "vx_ledger = (\<lambda>t a. if t = 9 then (if a = 1 then 1000 else if a = 6 then 100 else 0) else 0)"

definition vx_init :: vault_init where
  "vx_init = \<lparr>vi_merchant = 7, vi_token = 9, vi_time_policy = Some 20, vi_vdf_policy = None, vi_fee_bps = 250,
     vi_fee_recipient = Some 8, vi_refund_window = 50, vi_deadline = 0, vi_vdf_delay = 0\<rparr>"

definition vx_vault :: "ledger vault" where
  "vx_vault = snd (vault_constructor (\<lambda>x. x) (\<lambda>a. []) vx_env vx_init (vault_empty vx_ledger))"

lemmas run_defs = abind_def aseq_def step_defs admin_of_def acquire_def release_def ok_or_def unwrap_def
  unwrap_or_def require_auth_def u64_add_def u32_add_def i128_op_def in_u64_def in_u32_def in_i128_def
  current_user_nonce_def

lemmas claim_defs = read_policy_cache_def claim_single_def claim_gates_def time_gate_def oracle_gate_def
  cooldown_gate_def vdf_gate_def evaluate_gate_def claim_context_def resolve_ceiling_eq refunded_def
  ceiling_of_def ensure_liquidity_def pay_out_def record_claim_def on_settled_def

lemmas vx_defs = vx_env_def vx_ext_def vx_vault_def vault_constructor_def vx_init_def vault_empty_def
  vx_ledger_def ledger_token_def ledger_transfer_def time_policy_evaluate_def check_time_gates_def

lemma vx_refund_ok:
  "fst (refund vx_ext vx_env [1] 3 200 60 500 None 0 vx_vault) = Ok ()"
  by (simp add: refund_def run_defs claim_defs vx_defs split_amount_eq math_defs math_q_def)

lemma vx_reach_refund:
  assumes "refund vx_ext vx_env [1] 3 200 60 500 None 0 vx_vault = (Ok (), s')"
  shows "vault_reach (\<lambda>x. x) (\<lambda>a. []) vx_ext 1 (vault_empty vx_ledger) s'"
proof (rule vault_reach.call)
  show "vault_step (\<lambda>x. x) (\<lambda>a. []) vx_ext vx_env (Refund [1] 3 200 60 500 None 0) vx_vault s'"
    using assms by (simp add: vault_step_def ok_iff)
  show "vault_reach (\<lambda>x. x) (\<lambda>a. []) vx_ext 1 (vault_empty vx_ledger) vx_vault"
  proof (rule vault_reach.call [OF vault_reach.start])
    show "vault_step (\<lambda>x. x) (\<lambda>a. []) vx_ext vx_env (Initialize vx_init) (vault_empty vx_ledger) vx_vault"
      by (simp add: vault_step_def invoke_def vx_vault_def vault_constructor_def vault_empty_def run_defs)
  qed (simp add: vx_env_def)
qed (simp add: vx_env_def)

lemma vx_refund_run:
  obtains s' where "refund vx_ext vx_env [1] 3 200 60 500 None 0 vx_vault = (Ok (), s')"
  using vx_refund_ok by (metis prod.collapse)

section \<open>The books\<close>

text \<open>C9: the vault's books are sound in every reachable state. Starting from empty storage, after any
  sequence of committed calls and of changes in the outside world: what was refunded for a payment is
  positive and at most the ceiling recorded with it; where a fee ladder is installed, the active tier
  is the highest rung the settled volume reaches and the fee charged is that rung's, at most 100%;
  deployed principal is never negative and always belongs to an approved active strategy; coupons
  discount at most half; the oracle whitelist has no duplicates; and the reentrancy lock is free.\<close>

theorem vault_books_sound:
  assumes "vault_reach H K X V (vault_empty w) s"
  shows "(\<forall>r rec. get_refund s r = Some rec \<longrightarrow>
      0 < rr_amount_refunded rec \<and> rr_amount_refunded rec \<le> rr_payment_amount rec) \<and>
    (\<forall>l. v_tier_ladder s = Some l \<longrightarrow> (\<exists>st. v_tier_state s = Some st \<and>
      ts_current_tier st < length l \<and> mt_min_settled (l ! ts_current_tier st) \<le> ts_settled_volume st \<and>
      (\<forall>i < length l. mt_min_settled (l ! i) \<le> ts_settled_volume st \<longrightarrow> i \<le> ts_current_tier st) \<and>
      effective_fee_bps s = mt_fee_bps (l ! ts_current_tier st) \<and> effective_fee_bps s \<le> 10000)) \<and>
    0 \<le> deployed_principal s \<and>
    (0 < deployed_principal s \<longrightarrow> (\<exists>a. active_strategy s = Some a \<and> is_approved s a)) \<and>
    (\<forall>i c. get_coupon s i = Some c \<longrightarrow> co_discount_bps c \<le> 5000) \<and> distinct (get_oracles s) \<and>
    \<not> unwrap_or (v_guard_lock s) False"
proof -
  have inv: "claims_inv s" "strategy_inv s" "config_inv s" "\<not> unwrap_or (v_guard_lock s) False"
    using vault_reach_inv [OF assms vault_inv_empty] by (simp_all add: vault_inv_def)
  have tiers: "\<exists>st. v_tier_state s = Some st \<and>
      ts_current_tier st < length l \<and> mt_min_settled (l ! ts_current_tier st) \<le> ts_settled_volume st \<and>
      (\<forall>i < length l. mt_min_settled (l ! i) \<le> ts_settled_volume st \<longrightarrow> i \<le> ts_current_tier st) \<and>
      effective_fee_bps s = mt_fee_bps (l ! ts_current_tier st) \<and> effective_fee_bps s \<le> 10000"
    if l: "v_tier_ladder s = Some l" for l
  proof -
    obtain st where st: "v_tier_state s = Some st" "validate l = Ok ()" "0 \<le> ts_settled_volume st"
        "ts_current_tier st = tier_for_volume l (ts_settled_volume st)"
        "ts_fee_bps st = mt_fee_bps (l ! ts_current_tier st)"
      using inv(1) l by (auto simp: claims_inv_def tier_inv_def split: option.splits)
    note reached = tier_for_volume_reached [OF st(2,3)]
    show ?thesis
      using st reached validate_Ok(4) [OF st(2) reached(1)] tier_for_volume_ge
      by (intro exI [of _ st]) (auto simp: effective_fee_bps_def)
  qed
  show ?thesis
    using inv tiers
    by (auto simp: claims_inv_def books_inv_def strategy_inv_def config_inv_def get_refund_def get_coupon_def)
qed

theorem vault_books_sound_witness:
  "\<exists>s. vault_reach (\<lambda>x. x) (\<lambda>a. []) vx_ext 1 (vault_empty vx_ledger) s \<and> get_refund s [1] \<noteq> None \<and>
    (\<forall>rec. get_refund s [1] = Some rec \<longrightarrow> rr_amount_refunded rec \<le> rr_payment_amount rec)"
proof -
  obtain s' where run: "refund vx_ext vx_env [1] 3 200 60 500 None 0 vx_vault = (Ok (), s')"
    by (rule vx_refund_run)
  note reach = vx_reach_refund [OF run]
  have "get_refund s' [1] \<noteq> None"
    using run by (rule refund_Ok) (auto simp: get_refund_def dest!: claim_single_books(1))
  then show ?thesis using reach vault_books_sound [OF reach] by blast
qed



text \<open>C11: an authorization is used once. After a successful \<open>refund\<close> with nonce \<open>n\<close> by merchant \<open>m\<close>, in no
  later state of the vault in which \<open>m\<close> is still the merchant can a \<open>refund\<close>, a \<open>claim_batch\<close> or a
  non-empty \<open>process_batch\<close> with the same nonce succeed, whatever else happened in between.\<close>

theorem refund_nonce_spent:
  assumes "refund X E r a x l p v n s = (Ok (), s')" "v_admin s = Some m"
    and "vault_reach H K X V s' s''" "v_admin s'' = Some m"
  shows "refund X E' r' a' x' l' p' v' n s'' \<noteq> (Ok (), t) \<and> claim_batch X E' cs n s'' \<noteq> (Ok (), t) \<and>
    (items \<noteq> [] \<longrightarrow> process_batch X E' items n s'' \<noteq> (Ok bs, t))"
proof -
  obtain m' cache t' where al: "claim_allowed E s m' n"
    and cl: "claim_single X E cache \<lparr>rc_payment_ref = r, rc_recipient = a, rc_amount = x, rc_paid_at_ledger = l,
       rc_payment_amount = p, rc_vdf_proof = v\<rparr> (claims_start s (Some True) m' n) = (Ok (), t')"
    and s': "s' = t'\<lparr>v_guard_lock := Some False\<rparr>"
    using assms(1) by (rule refund_Ok)
  have "current_user_nonce s' m = n + 1"
    using claim_single_books(3) [OF cl] al assms(2)
    by (simp add: s' current_user_nonce_def claims_start_def claim_allowed_def)
  then have "n < current_user_nonce s'' m" using vault_reach_user_nonce [OF assms(3), of m] by simp
  then have "\<not> claim_allowed E' s'' m'' n" for m'' using assms(4) by (auto simp: claim_allowed_def)
  then show ?thesis by (auto elim: refund_Ok claim_batch_Ok process_batch_Ok)
qed

theorem refund_nonce_spent_witness:
  "\<exists>s'. refund vx_ext vx_env [1] 3 200 60 500 None 0 vx_vault = (Ok (), s') \<and>
    (\<forall>t. refund vx_ext vx_env [2] 3 1 60 500 None 0 s' \<noteq> (Ok (), t))"
proof -
  obtain s' where run: "refund vx_ext vx_env [1] 3 200 60 500 None 0 vx_vault = (Ok (), s')"
    by (rule vx_refund_run)
  have m: "v_admin vx_vault = Some 7" by (simp add: run_defs vx_defs)
  moreover have "v_admin s' = Some 7"
    using run by (rule refund_Ok) (auto simp: claims_start_def m dest!: claim_single_books(5))
  ultimately show ?thesis
    using run refund_nonce_spent [OF run _ vault_reach.start] by blast
qed

lemma refunded_claim:
  assumes "claim_single X E cache claim s = (Ok (), s')"
  shows "refunded s' r = refunded s r + (if rc_payment_ref claim = r then rc_amount claim else 0)"
  using claim_single_books(1) [OF assms] by (auto simp: refunded_def claimed_record_def)

lemma refunded_afor:
  "afor (claim_single X E cache) cs s = (Ok (), s') \<Longrightarrow>
    refunded s' r = refunded s r + (\<Sum>c\<leftarrow>cs. if rc_payment_ref c = r then rc_amount c else 0)"
proof (induction cs arbitrary: s)
  case (Cons c cs)
  then obtain t where "claim_single X E cache c s = (Ok (), t)" "afor (claim_single X E cache) cs t = (Ok (), s')"
    by (auto simp: aseq_Ok_iff)
  then show ?case using Cons.IH refunded_claim by fastforce
qed simp

lemma refunded_amap:
  "amap (\<lambda>i. ais_ok (claim_single X E cache (claim_of_param i))) items s = (Ok bs, s') \<Longrightarrow>
    length bs = length items \<and> refunded s' r = refunded s r +
      (\<Sum>(i, b)\<leftarrow>zip items bs. if b \<and> rp_payment_ref i = r then rp_amount i else 0)"
proof (induction items arbitrary: s bs)
  case (Cons i items)
  obtain b bs' t where h: "ais_ok (claim_single X E cache (claim_of_param i)) s = (Ok b, t)" "bs = b # bs'"
      "amap (\<lambda>i. ais_ok (claim_single X E cache (claim_of_param i))) items t = (Ok bs', s')"
    using Cons.prems by (auto simp: abind_Ok_iff)
  have "refunded t r = refunded s r + (if b \<and> rp_payment_ref i = r then rp_amount i else 0)"
    using h(1) refunded_claim [of X E cache "claim_of_param i" s t r] claim_single_Err [of X E cache "claim_of_param i" s _ t]
    by (auto simp: ais_ok_Ok_iff claim_of_param_def same_claims_def refunded_def)
  then show ?case using Cons.IH [OF h(3)] h(2) by simp
qed simp

text \<open>Batches account for every item. After a successful \<open>process_batch\<close> there is one flag per item,
  and what is recorded as refunded for every payment has grown by exactly the amounts of the items
  flagged \<open>true\<close>; after a successful \<open>claim_batch\<close> it has grown by the amounts of all items.\<close>

theorem batches_account_exactly:
  "(process_batch X E items n s = (Ok bs, s') \<longrightarrow> length bs = length items \<and>
     (\<forall>r. refunded s' r = refunded s r + (\<Sum>(i, b)\<leftarrow>zip items bs. if b \<and> rp_payment_ref i = r then rp_amount i else 0))) \<and>
   (claim_batch X E cs n s = (Ok (), s') \<longrightarrow>
     (\<forall>r. refunded s' r = refunded s r + (\<Sum>c\<leftarrow>cs. if rc_payment_ref c = r then rc_amount c else 0)))"
proof (intro conjI impI allI)
  assume run: "process_batch X E items n s = (Ok bs, s')"
  have *: "length bs = length items \<and> refunded s' r = refunded s r +
      (\<Sum>(i, b)\<leftarrow>zip items bs. if b \<and> rp_payment_ref i = r then rp_amount i else 0)" for r
  proof (cases "items = []")
    case True
    then show ?thesis using run by (auto simp: process_batch_def ok_iff)
  next
    case False
    show ?thesis
      by (rule process_batch_Ok [OF run False], drule refunded_amap [where r = r])
        (simp add: refunded_def claims_start_def)
  qed
  show "length bs = length items" using * by blast
  show "refunded s' r = refunded s r +
      (\<Sum>(i, b)\<leftarrow>zip items bs. if b \<and> rp_payment_ref i = r then rp_amount i else 0)" for r
    using * by blast
next
  fix r
  assume run: "claim_batch X E cs n s = (Ok (), s')"
  show "refunded s' r = refunded s r + (\<Sum>c\<leftarrow>cs. if rc_payment_ref c = r then rc_amount c else 0)"
    by (rule claim_batch_Ok [OF run], drule refunded_afor [where r = r]) (simp add: refunded_def claims_start_def)
qed

definition vx_items :: "refund_param list" where
  "vx_items = [\<lparr>rp_payment_ref = [1], rp_recipient = 3, rp_amount = 200, rp_paid_at_ledger = 60,
      rp_payment_amount = 500, rp_vdf_proof = None\<rparr>,
    \<lparr>rp_payment_ref = [1], rp_recipient = 3, rp_amount = 400, rp_paid_at_ledger = 60,
      rp_payment_amount = 500, rp_vdf_proof = None\<rparr>]"

lemma vx_process_ok: "fst (process_batch vx_ext vx_env vx_items 0 vx_vault) = Ok [True, False]"
  by (simp add: process_batch_def vx_items_def claim_of_param_def ais_ok_def VAULT_MAX_BATCH_SIZE_def
      run_defs claim_defs vx_defs split_amount_eq math_defs math_q_def)

theorem batches_account_exactly_witness:
  "\<exists>s'. process_batch vx_ext vx_env vx_items 0 vx_vault = (Ok [True, False], s') \<and> refunded s' [1] = 200"
proof -
  obtain s' where run: "process_batch vx_ext vx_env vx_items 0 vx_vault = (Ok [True, False], s')"
    using vx_process_ok by (metis prod.collapse)
  have "refunded vx_vault [1] = 0" by (simp add: refunded_def run_defs vx_defs)
  then have "refunded s' [1] = 200"
    using batches_account_exactly [of vx_ext vx_env vx_items 0 vx_vault "[True, False]" s' "[]"] run
    by (simp add: vx_items_def)
  then show ?thesis using run by blast
qed

lemma cooldown_refuses:
  assumes "0 < unwrap_or (v_claim_cooldown s) 0" "v_last_claim s = Some (timestamp E)" "timestamp E + 1 < 2 ^ 64"
  shows "claim_single X E cache c s \<noteq> (Ok (), s')"
proof
  assume "claim_single X E cache c s = (Ok (), s')"
  then have "gates_ok X E cache c s" by (rule claim_single_Ok)
  then show False
    using assms by (auto simp: gates_ok_iff u64_saturating_add_def min_def split: if_splits)
qed

lemma claim_single_cooldown:
  assumes "claim_single X E cache c s = (Ok (), s')"
  shows "v_claim_cooldown s' = v_claim_cooldown s"
  using keepsD [OF keeps_claim_single [where P = "\<lambda>t. v_claim_cooldown t = v_claim_cooldown s"] refl assms] by simp

text \<open>A claim cooldown disables batches. While a cooldown is configured, no \<open>claim_batch\<close> with two or
  more claims can succeed, because the first claim of the batch starts the cooldown the second one
  runs into.\<close>

theorem cooldown_blocks_batches:
  assumes "0 < get_claim_cooldown s" "timestamp E + 1 < 2 ^ 64" "2 \<le> length cs"
  shows "claim_batch X E cs n s \<noteq> (Ok (), s')"
proof
  assume "claim_batch X E cs n s = (Ok (), s')"
  then obtain m cache t where "afor (claim_single X E cache) cs (claims_start s (Some True) m n) = (Ok (), t)"
    by (rule claim_batch_Ok)
  moreover obtain c1 c2 rest where "cs = c1 # c2 # rest" using assms(3) by (cases cs; cases "tl cs") auto
  ultimately obtain t1 t2 where 1: "claim_single X E cache c1 (claims_start s (Some True) m n) = (Ok (), t1)"
      and 2: "claim_single X E cache c2 t1 = (Ok (), t2)"
    by (auto simp: aseq_Ok_iff)
  have "v_claim_cooldown t1 = v_claim_cooldown s"
    using claim_single_cooldown [OF 1] by (simp add: claims_start_def)
  then have "claim_single X E cache c2 t1 \<noteq> (Ok (), t2)"
    using assms(1,2) claim_single_books(2) [OF 1] by (intro cooldown_refuses) (simp_all add: get_claim_cooldown_def)
  then show False using 2 by blast
qed

theorem cooldown_blocks_batches_witness:
  "claim_batch vx_ext vx_env (map claim_of_param vx_items) 0 (vx_vault\<lparr>v_claim_cooldown := Some 60\<rparr>) \<noteq> (Ok (), vx_vault)"
  using cooldown_blocks_batches [of "vx_vault\<lparr>v_claim_cooldown := Some 60\<rparr>" vx_env "map claim_of_param vx_items"]
  by (simp add: get_claim_cooldown_def vx_env_def vx_items_def)

section \<open>Governance of the vault\<close>

text \<open>C12: the refund policy in force changes only through the timelock. A committed call other than the
  construction that changes window, deadline or delay is an \<open>execute_policy\<close> authorized by the
  merchant, at least 17280 ledgers after the ledger stamped on the pending proposal, and installs
  exactly that proposal; and a proposal becomes pending only by \<open>propose_policy\<close>, authorized by the
  merchant and stamped with the current ledger.\<close>

theorem policy_timelock:
  assumes "vault_step H K X E c s s'" "\<And>i. c \<noteq> Initialize i"
  shows "(policy_view s' \<noteq> policy_view s \<longrightarrow> (\<exists>m p. c = ExecutePolicy \<and> v_admin s = Some m \<and> authorized E m \<and>
      get_pending_policy s = Some p \<and> pp_proposed_at_ledger p + 17280 \<le> sequence E \<and>
      policy_view s' = (Some (pp_window p), Some (pp_deadline p), Some (pp_vdf_delay p)) \<and>
      get_pending_policy s' = None)) \<and>
    (\<forall>p. get_pending_policy s' = Some p \<and> get_pending_policy s \<noteq> Some p \<longrightarrow>
      pp_proposed_at_ledger p = sequence E \<and> (\<exists>m. v_admin s = Some m \<and> authorized E m))"
proof -
  have run: "vault_run H K X E c s = (Ok (), s')" using assms(1) by (simp add: vault_step_def ok_iff)
  consider "c = ExecutePolicy" | w d v where "c = ProposePolicy w d v" | "c \<noteq> ExecutePolicy" "\<And>w d v. c \<noteq> ProposePolicy w d v"
    by (cases c) simp_all
  then show ?thesis
  proof cases
    case 1
    then have e: "execute_policy E s = (Ok (), s')" using run by simp
    then show ?thesis using 1
      by (auto simp: execute_policy_def ok_iff policy_view_def get_pending_policy_def POLICY_TIMELOCK_def)
  next
    case 2
    then have "propose_policy E w d v s = (Ok (), s')" using run by simp
    then show ?thesis by (auto simp: propose_policy_def ok_iff policy_view_def get_pending_policy_def)
  next
    case 3
    then show ?thesis
      using keepsD [OF keeps_policy [OF assms(2) 3(1)] refl run] keepsD [OF keeps_pending_policy [OF 3(2,1)] refl run]
      by (simp add: get_pending_policy_def)
  qed
qed

definition vx_pending :: "ledger vault" where
  "vx_pending = vx_vault\<lparr>v_pending_policy := Some \<lparr>pp_window = 9, pp_deadline = 0, pp_vdf_delay = 0,
     pp_proposed_at_ledger = 100\<rparr>\<rparr>"

lemma vx_execute_ok: "fst (execute_policy (vx_env\<lparr>sequence := 17380\<rparr>) vx_pending) = Ok ()"
  by (simp add: execute_policy_def vx_pending_def POLICY_TIMELOCK_def run_defs vx_defs)

theorem policy_timelock_witness:
  "\<exists>s'. vault_step (\<lambda>x. x) (\<lambda>a. []) vx_ext (vx_env\<lparr>sequence := 17380\<rparr>) ExecutePolicy vx_pending s' \<and>
    (policy_view s' \<noteq> policy_view vx_pending \<longrightarrow> policy_view s' = (Some 9, Some 0, Some 0))"
proof -
  obtain s' where "execute_policy (vx_env\<lparr>sequence := 17380\<rparr>) vx_pending = (Ok (), s')"
    using vx_execute_ok by (metis prod.collapse)
  then have step: "vault_step (\<lambda>x. x) (\<lambda>a. []) vx_ext (vx_env\<lparr>sequence := 17380\<rparr>) ExecutePolicy vx_pending s'"
    by (simp add: vault_step_def ok_iff)
  then show ?thesis
    using policy_timelock [OF step] by (auto simp: get_pending_policy_def vx_pending_def)
qed

text \<open>Administration is handed over in two authorized steps. A committed call that changes the
  merchant of an initialized vault is an \<open>accept_admin\<close> authorized by the new merchant, who was the
  pending one; and a candidate becomes pending only by a \<open>transfer_admin\<close> that the current merchant
  authorized.\<close>

theorem admin_two_step:
  assumes "vault_step H K X E c s s'" "v_admin s = Some m"
  shows "(v_admin s' \<noteq> Some m \<longrightarrow> c = AcceptAdmin \<and> (\<exists>a. v_pending_admin s = Some a \<and> v_admin s' = Some a \<and>
      authorized E a \<and> v_pending_admin s' = None)) \<and>
    (\<forall>a. v_pending_admin s' = Some a \<and> v_pending_admin s \<noteq> Some a \<longrightarrow> c = TransferAdmin a \<and> authorized E m)"
proof -
  have run: "vault_run H K X E c s = (Ok (), s')" using assms(1) by (simp add: vault_step_def ok_iff)
  have init: "c \<noteq> Initialize i" for i
    using run assms(2) by (auto simp: vault_constructor_def ok_iff)
  consider "c = AcceptAdmin" | "c = CancelAdminTransfer" | a where "c = TransferAdmin a"
    | "c \<noteq> AcceptAdmin" "c \<noteq> CancelAdminTransfer" "\<And>a. c \<noteq> TransferAdmin a"
    by (cases c) simp_all
  then show ?thesis
  proof cases
    case 1
    then show ?thesis using run assms(2) by (auto simp: accept_admin_def ok_iff)
  next
    case 2
    then show ?thesis using run assms(2) by (auto simp: cancel_admin_transfer_def ok_iff)
  next
    case 3
    then show ?thesis using run assms(2) by (auto simp: transfer_admin_def ok_iff)
  next
    case 4
    then show ?thesis
      using keepsD [OF keeps_admin [OF init 4(1)] refl run] keepsD [OF keeps_pending_admin [OF 4(3,1,2)] refl run] assms(2)
      by simp
  qed
qed

lemma vx_accept_ok: "fst (accept_admin vx_env (vx_vault\<lparr>v_admin := Some 4, v_pending_admin := Some 7\<rparr>)) = Ok ()"
  by (simp add: accept_admin_def run_defs vx_defs)

theorem admin_two_step_witness:
  "\<exists>s'. vault_step (\<lambda>x. x) (\<lambda>a. []) vx_ext vx_env AcceptAdmin (vx_vault\<lparr>v_admin := Some 4, v_pending_admin := Some 7\<rparr>) s' \<and>
    (v_admin s' \<noteq> Some 4 \<longrightarrow> v_admin s' = Some 7)"
proof -
  obtain s' where "accept_admin vx_env (vx_vault\<lparr>v_admin := Some 4, v_pending_admin := Some 7\<rparr>) = (Ok (), s')"
    using vx_accept_ok by (metis prod.collapse)
  then have step: "vault_step (\<lambda>x. x) (\<lambda>a. []) vx_ext vx_env AcceptAdmin (vx_vault\<lparr>v_admin := Some 4, v_pending_admin := Some 7\<rparr>) s'"
    by (simp add: vault_step_def ok_iff)
  then show ?thesis using admin_two_step [OF step, of 4] by auto
qed

text \<open>C13: a commitment can be revealed after the delay, once. When a commit by the merchant succeeded at
  one ledger, a reveal of a preimage for the same operation by the same merchant fails with
  \<open>CommitDelayNotElapsed\<close> in the next six ledgers and succeeds from the seventh on, and a second reveal
  then fails with \<open>NoCommit\<close>; a different operation or a plaintext with another hash is refused at any
  time.\<close>

theorem commit_reveal_roundtrip:
  assumes "commit E op h s = (Ok (), s')" "v_admin s = Some m" "authorized E' m"
  shows "(H plain = h \<and> sequence E' < sequence E + 7 \<longrightarrow>
      reveal H E' op h plain s' = (Err CommitDelayNotElapsed, s')) \<and>
    (H plain = h \<and> sequence E + 7 \<le> sequence E' \<longrightarrow> (\<exists>s''. reveal H E' op h plain s' = (Ok (), s'') \<and>
      get_commit s'' h = None \<and> reveal H E' op h plain s'' = (Err NoCommit, s''))) \<and>
    (H plain \<noteq> h \<longrightarrow> reveal H E' op h plain s' = (Err CommitMismatch, s')) \<and>
    (op' \<noteq> op \<longrightarrow> reveal H E' op' h plain s' = (Err CommitOperationMismatch, s'))"
proof -
  have c: "v_admin s' = Some m" "in_u32 (sequence E + 7)"
      "v_commit s' h = Some \<lparr>cr_caller = m, cr_operation = op, cr_committed_at_ledger = sequence E\<rparr>"
    using assms(1,2) by (auto simp: commit_def ok_iff COMMIT_MIN_DELAY_LEDGERS_def)
  have a: "require_admin E' t = (Ok m, t)" if "v_admin t = Some m" for t :: "'a vault"
    using assms(3) that by (simp add: require_admin_def abind_simps require_auth_def)
  show ?thesis
    using c a by (auto simp: reveal_def abind_simps aseq_simps u32_add_def COMMIT_MIN_DELAY_LEDGERS_def get_commit_def
        publish_def ok_or_def)
qed

lemma vx_commit_ok: "fst (commit vx_env ''refund'' [3] vx_vault) = Ok ()"
  by (simp add: commit_def COMMIT_MIN_DELAY_LEDGERS_def run_defs vx_defs)

theorem commit_reveal_roundtrip_witness:
  "\<exists>s' s''. commit vx_env ''refund'' [3] vx_vault = (Ok (), s') \<and>
    reveal (\<lambda>x. x) (vx_env\<lparr>sequence := 107\<rparr>) ''refund'' [3] [3] s' = (Ok (), s'')"
proof -
  obtain s' where run: "commit vx_env ''refund'' [3] vx_vault = (Ok (), s')"
    using vx_commit_ok by (metis prod.collapse)
  have "v_admin vx_vault = Some 7" by (simp add: run_defs vx_defs)
  then show ?thesis
    using run commit_reveal_roundtrip [OF run, of 7 "vx_env\<lparr>sequence := 107\<rparr>" "\<lambda>x. x" "[3]"]
    by (auto simp: vx_env_def)
qed

section \<open>Oracles\<close>

text \<open>C14: a minority of oracles cannot move the price. Whenever \<open>median_price\<close> returns a value, some
  whitelisted oracle is fresh, and the value lies in every interval that fewer than half of the fresh
  oracles' prices miss. It does return a value when every whitelisted oracle answers with its last
  update, at least one is fresh and every fresh one has a non-negative price. One whitelisted oracle
  that does not answer, or a fresh one without a price, aborts the call, and when all answer but none
  is fresh the error is \<open>StaleOracleData\<close>.\<close>

theorem median_price_robust:
  assumes "get_oracles s = os" "os \<noteq> []"
  shows "(\<forall>m. get_median_price X E s feed age = Ok m \<longrightarrow>
      filter (is_fresh X (world s) (sequence E) feed age) os \<noteq> [] \<and>
      (\<forall>lo hi. 2 * length (filter (\<lambda>a. \<exists>p. ex_price X (world s) a feed = Some p \<and> \<not> (lo \<le> p \<and> p \<le> hi))
          (filter (is_fresh X (world s) (sequence E) feed age) os)) <
        length (filter (is_fresh X (world s) (sequence E) feed age) os) \<longrightarrow> lo \<le> m \<and> m \<le> hi)) \<and>
    ((\<forall>a \<in> set os. ex_last_update X (world s) a feed \<noteq> None) \<and>
      (\<forall>a \<in> set os. is_fresh X (world s) (sequence E) feed age a \<longrightarrow>
        (\<exists>p. ex_price X (world s) a feed = Some p \<and> 0 \<le> p \<and> in_i128 p)) \<longrightarrow>
      (if \<exists>a \<in> set os. is_fresh X (world s) (sequence E) feed age a
       then \<exists>m. get_median_price X E s feed age = Ok m
       else get_median_price X E s feed age = Err StaleOracleData)) \<and>
    ((\<exists>a \<in> set os. ex_last_update X (world s) a feed = None \<or>
        is_fresh X (world s) (sequence E) feed age a \<and> ex_price X (world s) a feed = None) \<longrightarrow>
      get_median_price X E s feed age = Trap)"
proof -
  let ?fresh = "is_fresh X (world s) (sequence E) feed age" and ?price = "\<lambda>a. ex_price X (world s) a feed"
  let ?ps = "fresh_prices X (world s) (sequence E) feed age os"
  have os: "v_oracles s = Some os" using assms(1,2) by (cases "v_oracles s") (auto simp: get_oracles_def)
  have eq: "get_median_price X E s feed age =
      obind ?ps (\<lambda>prices. if prices = [] then Err StaleOracleData else median prices)"
    using os assms(2) by (simp add: get_median_price_def median_price_def)
  have 1: "filter ?fresh os \<noteq> [] \<and>
      (\<forall>lo hi. 2 * length (filter (\<lambda>a. \<exists>p. ?price a = Some p \<and> \<not> (lo \<le> p \<and> p \<le> hi)) (filter ?fresh os)) <
        length (filter ?fresh os) \<longrightarrow> lo \<le> m \<and> m \<le> hi)"
    if "get_median_price X E s feed age = Ok m" for m
  proof -
    from that eq obtain ps where ps: "?ps = Ok ps" "ps \<noteq> []" "median ps = Ok m"
      by (auto simp: ok_iff split: if_splits)
    have map: "map Some ps = map ?price (filter ?fresh os)" using fresh_prices_Ok [OF ps(1)] .
    then have len: "length ps = length (filter ?fresh os)" by (metis length_map)
    have "filter ?fresh os \<noteq> []" using ps(2) map by auto
    then show ?thesis using median_within [OF _ ps(3)] map_Some_filter [OF map] len by simp
  qed
  have 2: "if \<exists>a \<in> set os. ?fresh a then \<exists>m. get_median_price X E s feed age = Ok m
      else get_median_price X E s feed age = Err StaleOracleData"
    if answers: "\<forall>a \<in> set os. ex_last_update X (world s) a feed \<noteq> None"
      "\<forall>a \<in> set os. ?fresh a \<longrightarrow> (\<exists>p. ?price a = Some p \<and> 0 \<le> p \<and> in_i128 p)"
  proof -
    obtain ps where ps: "?ps = Ok ps"
      using fresh_prices_total [of os X "world s" feed "sequence E" age] answers by force
    have map: "map Some ps = map ?price (filter ?fresh os)" using fresh_prices_Ok [OF ps] .
    have "0 \<le> x \<and> in_i128 x" if "x \<in> set ps" for x
    proof -
      have "Some x \<in> set (map ?price (filter ?fresh os))" using that map by (metis image_eqI list.set_map)
      then show ?thesis using answers(2) by fastforce
    qed
    then have "ps \<noteq> [] \<Longrightarrow> \<exists>m. median ps = Ok m" using median_Ok by blast
    moreover have "ps = [] \<longleftrightarrow> \<not> (\<exists>a \<in> set os. ?fresh a)"
      using map by (auto simp: filter_empty_conv)
    ultimately show ?thesis by (auto simp: eq ps)
  qed
  have 3: "get_median_price X E s feed age = Trap"
    if "a \<in> set os" "ex_last_update X (world s) a feed = None \<or> ?fresh a \<and> ?price a = None" for a
    using fresh_prices_Trap [OF that] by (simp add: eq)
  show ?thesis using 1 2 3 by blast
qed

theorem median_price_robust_witness:
  "\<exists>m. get_median_price vx_ext vx_env (vx_vault\<lparr>v_oracles := Some [10, 11, 900]\<rparr>) [] 5 = Ok m \<and> 10 \<le> m \<and> m \<le> 11"
proof -
  let ?s = "vx_vault\<lparr>v_oracles := Some [10, 11, 900]\<rparr>"
  have x: "ex_last_update vx_ext w a f = Some 100" "ex_price vx_ext w a f = Some (int a)" "sequence vx_env = 100" for w a f
    by (simp_all add: vx_ext_def vx_env_def)
  have fresh: "is_fresh vx_ext w (sequence vx_env) f 5 a" for w a f
    by (simp add: is_fresh_def x u32_saturating_add_def)
  have "get_oracles ?s = [10, 11, 900]" by (simp add: get_oracles_def)
  note r = median_price_robust [OF this list.distinct(2), of vx_ext vx_env "[]" 5, unfolded x(1,2)]
  obtain m where m: "get_median_price vx_ext vx_env ?s [] 5 = Ok m"
    using conjunct1 [OF conjunct2 [OF r]] by (auto simp: fresh in_i128_def split: if_splits)
  note all = conjunct2 [OF mp [OF spec [OF conjunct1 [OF r], of m] m]]
  show ?thesis using m spec [OF spec [OF all, of 10], of 11] by (simp add: fresh)
qed

section \<open>Stopping the vault\<close>

definition is_pausable :: "vault_call \<Rightarrow> bool" where
  "is_pausable c = (case c of Deposit _ _ _ \<Rightarrow> True | Refund _ _ _ _ _ _ _ \<Rightarrow> True | ClaimBatch _ _ \<Rightarrow> True
     | ProcessBatch _ _ \<Rightarrow> True | Withdraw _ _ \<Rightarrow> True | DistributeYield \<Rightarrow> True | DeployToYield _ \<Rightarrow> True
     | WithdrawFromYield _ \<Rightarrow> True | HarvestYield \<Rightarrow> True | SweepDust _ \<Rightarrow> True | FlashLoan _ _ _ \<Rightarrow> True
     | DepositNft _ _ _ _ \<Rightarrow> True | ClaimNft _ _ _ \<Rightarrow> True | RefundNft _ _ _ \<Rightarrow> True | _ \<Rightarrow> False)"

lemma paused_no_commit:
  assumes "is_pausable c" "v_is_paused s = Some True"
  shows "vault_run H K X E c s \<noteq> (Ok (), s')"
proof
  assume run: "vault_run H K X E c s = (Ok (), s')"
  have *: "refuse_paused t = (Ok u, t') \<Longrightarrow> v_is_paused t = Some True \<Longrightarrow> False" for t t' :: "'a vault" and u
    by (auto simp: refuse_paused_Ok_iff)
  show False
    using run assms
    by (cases c) (auto simp: is_pausable_def Let_def deposit_def refund_def claim_batch_def process_batch_def
        withdraw_def distribute_yield_def deploy_to_yield_def withdraw_from_yield_def harvest_yield_def
        sweep_dust_def flash_loan_def deposit_nft_def claim_nft_def refund_nft_def
        aseq_Ok_iff arefuse_Ok_iff guard_acquire_Ok_iff simp del: act_simps dest!: *)
qed

text \<open>C15: a paused vault moves no funds. While the vault is paused, no call that claims, deposits, withdraws,
  deploys or harvests yield, lends, sweeps dust or moves an NFT can commit; and while the reentrancy
  lock is held, every guarded call returns \<open>ReentrancyBlocked\<close> and changes nothing.\<close>

theorem paused_or_locked_calls_fail:
  "(v_is_paused s = Some True \<and> is_pausable c \<longrightarrow> \<not> vault_step H K X E c s s') \<and>
   (v_guard_lock s = Some True \<and> is_guarded c \<and> (\<forall>cs n. c = ClaimBatch cs n \<longrightarrow> length cs \<le> 100) \<longrightarrow>
      vault_run H K X E c s = (Err ReentrancyBlocked, s))"
  using paused_no_commit [of c s H K X E s'] guarded_blocked [of c s H K X E]
  by (auto simp: vault_step_def ok_iff)

theorem paused_or_locked_calls_fail_witness:
  "\<not> vault_step (\<lambda>x. x) (\<lambda>a. []) vx_ext vx_env (Withdraw 1 3) (vx_vault\<lparr>v_is_paused := Some True\<rparr>) vx_vault \<and>
   vault_run (\<lambda>x. x) (\<lambda>a. []) vx_ext vx_env (Withdraw 1 3) (vx_vault\<lparr>v_guard_lock := Some True\<rparr>) =
     (Err ReentrancyBlocked, vx_vault\<lparr>v_guard_lock := Some True\<rparr>)"
  using paused_or_locked_calls_fail [of "vx_vault\<lparr>v_is_paused := Some True\<rparr>" "Withdraw 1 3"]
    paused_or_locked_calls_fail [of "vx_vault\<lparr>v_guard_lock := Some True\<rparr>" "Withdraw 1 3"]
  by (simp add: is_pausable_def is_guarded_def)

section \<open>Yield and flash loans\<close>

text \<open>Principal is deployed within the limits and credited only against tokens that came back. A
  successful \<open>deploy_to_yield\<close> leaves liquid funds of at least the reserve share and deploys in total at
  most the allowed share of the vault's value, to the approved active strategy; a successful
  \<open>withdraw_from_yield\<close> reduces the deployed principal by no more than what the vault's own balance
  grew, less the yield it books.\<close>

theorem yield_principal_accounted:
  "(deploy_to_yield X E x s = (Ok (), s') \<longrightarrow> (\<exists>a tok total_value. active_strategy s = Some a \<and> is_approved s a \<and>
      v_token s = Some tok \<and> 0 < x \<and> deployed_principal s' = deployed_principal s + x \<and>
      total_value = tok_balance (ex_token X) (world s) tok (current_contract_address E) + deployed_principal s - harvested_yield s \<and>
      trunc_div (total_value * int (yi_reserve_ratio (get_yield_info s))) 10000
        \<le> tok_balance (ex_token X) (world s) tok (current_contract_address E) - x \<and>
      deployed_principal s' \<le> trunc_div (total_value * int (yi_max_deploy_ratio (get_yield_info s))) 10000)) \<and>
   (withdraw_from_yield X E x s = (Ok (), s') \<longrightarrow> (\<exists>tok. v_token s = Some tok \<and>
      0 \<le> deployed_principal s' \<and> deployed_principal s' < deployed_principal s \<and>
      deployed_principal s - deployed_principal s' \<le> x \<and> harvested_yield s \<le> harvested_yield s' \<and>
      (deployed_principal s - deployed_principal s') + (harvested_yield s' - harvested_yield s) \<le>
        tok_balance (ex_token X) (world s') tok (current_contract_address E) -
        tok_balance (ex_token X) (world s) tok (current_contract_address E)))"
proof (intro conjI impI)
  assume run: "deploy_to_yield X E x s = (Ok (), s')"
  show "\<exists>a tok total_value. active_strategy s = Some a \<and> is_approved s a \<and>
      v_token s = Some tok \<and> 0 < x \<and> deployed_principal s' = deployed_principal s + x \<and>
      total_value = tok_balance (ex_token X) (world s) tok (current_contract_address E) + deployed_principal s - harvested_yield s \<and>
      trunc_div (total_value * int (yi_reserve_ratio (get_yield_info s))) 10000
        \<le> tok_balance (ex_token X) (world s) tok (current_contract_address E) - x \<and>
      deployed_principal s' \<le> trunc_div (total_value * int (yi_max_deploy_ratio (get_yield_info s))) 10000"
  proof -
    let ?s = "s\<lparr>v_guard_lock := Some True\<rparr>"
    obtain a tok w2 where h: "0 < x" "active_strategy s = Some a" "is_approved s a" "v_token s = Some tok"
      and l: "check_deploy_limits (tok_balance (ex_token X) (world s) tok (current_contract_address E)) x ?s =
        (Ok (deployed_principal s + x), ?s)"
      and s': "s' = s\<lparr>v_guard_lock := Some False, world := w2, v_deployed_principal := Some (deployed_principal s + x),
        v_nonce := Some (unwrap_or (v_nonce s) 0 + 1),
        v_events := v_events s @ [YieldDeployedEvent a x (unwrap_or (v_nonce s) 0)]\<rparr>"
      using run by (rule deploy_to_yield_Ok)
    show ?thesis
      using h check_deploy_limits_Ok(4,5) [OF l] by (auto simp: s' strategy_reads get_yield_info_def)
  qed
next
  assume run: "withdraw_from_yield X E x s = (Ok (), s')"
  then obtain a r t where rc: "recall_principal X E a x (s\<lparr>v_guard_lock := Some True\<rparr>) = (Ok r, t)"
    and s': "s' = t\<lparr>v_guard_lock := Some False\<rparr>" by (rule withdraw_from_yield_Ok)
  obtain pr y where r: "r = (pr, y)" by (cases r)
  show "\<exists>tok. v_token s = Some tok \<and>
      0 \<le> deployed_principal s' \<and> deployed_principal s' < deployed_principal s \<and>
      deployed_principal s - deployed_principal s' \<le> x \<and> harvested_yield s \<le> harvested_yield s' \<and>
      (deployed_principal s - deployed_principal s') + (harvested_yield s' - harvested_yield s) \<le>
        tok_balance (ex_token X) (world s') tok (current_contract_address E) -
        tok_balance (ex_token X) (world s) tok (current_contract_address E)"
    by (rule recall_principal_Ok [OF rc [unfolded r]]) (simp add: s' strategy_reads)
qed

definition vx_yield :: "ledger vault" where
  "vx_yield = vx_vault\<lparr>v_yield_strategy := Some 5, v_approved_strategy := Map.empty(5 \<mapsto> True)\<rparr>"

lemma vx_deploy_ok: "fst (deploy_to_yield vx_ext vx_env 300 vx_yield) = Ok ()"
  by (simp add: deploy_to_yield_def check_deploy_limits_def strategy_deposit_def vx_yield_def strategy_reads
      run_defs vx_defs math_defs math_q_def mul_ratio_def trunc_div_def)

theorem yield_principal_accounted_witness:
  "\<exists>s'. deploy_to_yield vx_ext vx_env 300 vx_yield = (Ok (), s') \<and> deployed_principal s' = 300"
proof -
  obtain s' where run: "deploy_to_yield vx_ext vx_env 300 vx_yield = (Ok (), s')"
    using vx_deploy_ok by (metis prod.collapse)
  have "deployed_principal vx_yield = 0" by (simp add: vx_yield_def strategy_reads run_defs vx_defs)
  then show ?thesis using run yield_principal_accounted [of vx_ext vx_env 300 vx_yield s'] by auto
qed

text \<open>A flash loan never costs the vault anything. Under the documented behaviour of the token, after a
  successful \<open>flash_loan\<close> the vault's balance is at least what it was before, whatever the receiver did,
  and the premium, the ceiling of 0.09% and never zero, has been paid on top.\<close>

theorem flash_loan_safe:
  assumes "flash_loan X E rcv x d s = (Ok fee, s')" "sep41 (ex_token X)" "v_token s = Some tok" "in_i128 x"
  shows "tok_balance (ex_token X) (world s) tok (current_contract_address E) \<le>
      tok_balance (ex_token X) (world s') tok (current_contract_address E) \<and>
    fee = (x * 9 + 9999) div 10000 \<and> 0 < fee \<and> v_guard_lock s' = Some False \<and>
    v_refund_v2 s' = v_refund_v2 s \<and> (\<exists>m. v_admin s = Some m \<and> authorized E m)"
proof -
  let ?T = "ex_token X" and ?V = "current_contract_address E"
  obtain m tok' w1 w2 where m: "v_admin s = Some m" "authorized E m" and x: "0 < x" and tok': "v_token s = Some tok'"
    and fee: "flash_loan_fee x = Ok fee"
    and st: "flash_settle X E rcv tok' (tok_balance ?T (world s) tok' ?V) x fee
       (s\<lparr>v_guard_lock := Some True, world := w2\<rparr>) = (Ok fee, s')"
    using assms(1) by (rule flash_loan_Ok)
  have tt: "tok' = tok" using tok' assms(3) by simp
  let ?s = "s\<lparr>v_guard_lock := Some True, world := w2\<rparr>"
  obtain a w where b: "tok_balance ?T (world s) tok ?V + fee \<le> tok_balance ?T (world ?s) tok ?V"
    and p: "if a \<noteq> ?V then tok_transfer ?T (world ?s) tok ?V a fee = Some w else w = world ?s"
    and s': "s' = ?s\<lparr>v_guard_lock := Some False, world := w, v_events := v_events ?s @ [FlashLoanEvent rcv x fee a]\<rparr>"
    using st unfolding tt by (rule flash_settle_Ok) (rule that)
  have f: "fee = (x * 9 + 9999) div 10000"
    using fee refund_fee_eq [of x 9] x assms(4) by (simp add: flash_loan_fee_def FLASH_LOAN_FEE_BPS_def)
  have "x * 9 \<le> 10000 * fee" using fee_ceil_bounds(3) [of x 9] x by (simp add: f)
  then have fp: "0 < fee" using x by linarith
  have "tok_balance ?T (world s) tok ?V \<le> tok_balance ?T w tok ?V"
    using b p fp sep41D(3) [OF assms(2), of w2 tok ?V a fee w tok ?V] by (cases "a = ?V") auto
  then show ?thesis using f fp m by (simp add: s')
qed

lemma vx_flash_ok: "fst (flash_loan vx_ext vx_env 6 500 [] vx_vault) = Ok 1"
  by (simp add: flash_loan_def flash_settle_def on_flash_loan_def flash_loan_fee_def refund_fee_eq
      FLASH_LOAN_FEE_BPS_def i128_checked_def run_defs vx_defs)

theorem flash_loan_safe_witness:
  "\<exists>s'. flash_loan vx_ext vx_env 6 500 [] vx_vault = (Ok 1, s') \<and> 1000 \<le> world s' 9 1"
proof -
  obtain s' where run: "flash_loan vx_ext vx_env 6 500 [] vx_vault = (Ok 1, s')"
    using vx_flash_ok by (metis prod.collapse)
  have "sep41 (ex_token vx_ext)" "v_token vx_vault = Some 9" "world vx_vault 9 1 = 1000"
      "tok_balance (ex_token vx_ext) = (\<lambda>w. w)" "current_contract_address vx_env = 1"
    using sep41_ledger_token by (simp_all add: run_defs vx_defs)
  then show ?thesis using run flash_loan_safe [OF run, of 9] by (auto simp: in_i128_def)
qed

text \<open>The vault books the yield a strategy reports. \<open>harvest_yield\<close> compares no balance: when the active
  strategy reports a positive yield, the whole amount is booked as harvested even if the vault's
  balance did not change, and is then payable from the refund float.\<close>

theorem harvest_trusts_strategy:
  assumes "harvest_yield X E s = (Ok (), s')" "active_strategy s = Some a" "ex_strategy_harvest X (world s) a = Some (y, w)"
  shows "harvested_yield s' = harvested_yield s + y \<and> world s' = w \<and> 0 < y"
  by (rule harvest_yield_Ok [OF assms(1)]) (use assms(2,3) in \<open>simp add: strategy_reads\<close>)

lemma vx_harvest_ok: "fst (harvest_yield vx_ext vx_env vx_yield) = Ok ()"
  by (simp add: harvest_yield_def strategy_harvest_def vx_yield_def strategy_reads run_defs vx_defs math_defs math_q_def)

theorem harvest_trusts_strategy_witness:
  "\<exists>s'. harvest_yield vx_ext vx_env vx_yield = (Ok (), s') \<and> harvested_yield s' = 50 \<and> world s' = world vx_yield"
proof -
  obtain s' where run: "harvest_yield vx_ext vx_env vx_yield = (Ok (), s')"
    using vx_harvest_ok by (metis prod.collapse)
  have "active_strategy vx_yield = Some 5" "ex_strategy_harvest vx_ext (world vx_yield) 5 = Some (50, world vx_yield)"
      "harvested_yield vx_yield = 0"
    by (simp_all add: vx_yield_def vx_ext_def strategy_reads run_defs vx_defs)
  then show ?thesis using run harvest_trusts_strategy [OF run] by auto
qed

section \<open>Coupons and escrow\<close>

text \<open>A coupon is spent once. After a deposit that used a coupon succeeded, no deposit with the same
  coupon succeeds in any later state of the vault; and the deposit that used it paid the amount less
  the floored discount, at least half of it.\<close>

theorem coupon_single_use:
  assumes "deposit X E a x (Some k) s = (Ok (), s')" "vault_inv s" "in_i128 x"
    and "vault_reach H K X V s' s''"
  shows "deposit X E' a' x' (Some k) s'' \<noteq> (Ok (), t) \<and>
    (\<exists>c e. get_coupon s k = Some c \<and> co_owner c = a \<and> e = x - x * int (co_discount_bps c) div 10000 \<and> x \<le> 2 * e \<and>
       last (v_events s') = DepositEvent a e (get_nonce s))"
proof -
  obtain e t1 w where x: "0 < x" and u: "use_coupon a x (Some k) (s\<lparr>v_guard_lock := Some True\<rparr>) = (Ok e, t1)"
    and s': "s' = t1\<lparr>world := w, v_nonce := Some (unwrap_or (v_nonce t1) 0 + 1),
       v_events := v_events t1 @ [DepositEvent a e (unwrap_or (v_nonce t1) 0)], v_guard_lock := Some False\<rparr>"
    using assms(1) by (rule deposit_Ok)
  obtain c ev where c: "get_coupon s k = Some c" "co_owner c = a" "\<not> co_redeemed c"
      "apply_fee_bps x (co_discount_bps c) = Inr (x - e)"
      and t1: "t1 = s\<lparr>v_guard_lock := Some True, v_coupon := (v_coupon s)(k \<mapsto> c\<lparr>co_redeemed := True\<rparr>), v_events := ev\<rparr>"
    using use_coupon_Ok(2) [OF u refl] by (auto simp: get_coupon_def)
  have d: "co_discount_bps c \<le> 5000"
    using assms(2) c(1) by (auto simp: vault_inv_def config_inv_def get_coupon_def)
  have "x - e = x * int (co_discount_bps c) div 10000"
    using c(4) d x apply_fee_bps_eq [of x "co_discount_bps c"] by (simp add: MAX_FEE_BPS_def split: if_splits)
  moreover have "x * int (co_discount_bps c) div 10000 \<le> x * 5000 div 10000"
    using d x by (intro zdiv_mono1 mult_left_mono) auto
  moreover have "x * 5000 div 10000 = x div 2" using div_mult_mult2 [of 5000 x 2] by simp
  ultimately have e: "e = x - x * int (co_discount_bps c) div 10000" "x \<le> 2 * e" by linarith+
  have "redeemed k s''"
    using vault_reach_redeemed [OF assms(4)] by (simp add: s' t1 redeemed_def get_coupon_def)
  then have "deposit X E' a' x' (Some k) s'' \<noteq> (Ok (), t)"
    by (auto elim!: deposit_Ok dest!: use_coupon_Ok(2) [OF _ refl] simp: redeemed_def get_coupon_def)
  then show ?thesis using c e by (auto simp: s' t1 get_nonce_def)
qed

definition vx_coupons :: "ledger vault" where
  "vx_coupons = vx_vault\<lparr>v_coupon := Map.empty(4 \<mapsto> \<lparr>co_owner = 7, co_discount_bps = 1000, co_redeemed = False\<rparr>),
     world := (\<lambda>t a. if t = 9 \<and> a = 7 then 500 else 0)\<rparr>"

lemma vx_coupon_ok: "fst (deposit vx_ext vx_env 7 100 (Some 4) vx_coupons) = Ok ()"
  by (simp add: deposit_def use_coupon_def apply_coupon_def get_coupon_def apply_fee_bps_def MAX_FEE_BPS_def
      vx_coupons_def run_defs vx_defs math_defs math_q_def mul_ratio_def trunc_div_def)

theorem coupon_single_use_witness:
  "\<exists>s'. deposit vx_ext vx_env 7 100 (Some 4) vx_coupons = (Ok (), s') \<and>
    (\<forall>t. deposit vx_ext vx_env 7 100 (Some 4) s' \<noteq> (Ok (), t))"
proof -
  obtain s' where run: "deposit vx_ext vx_env 7 100 (Some 4) vx_coupons = (Ok (), s')"
    using vx_coupon_ok by (metis prod.collapse)
  have "vault_inv vx_coupons"
    by (simp add: vault_inv_def claims_inv_def books_inv_def tier_inv_def strategy_inv_def strategy_reads
        config_inv_def get_oracles_def vx_coupons_def run_defs vx_defs)
  then show ?thesis using run coupon_single_use [OF run _ _ vault_reach.start] by (auto simp: in_i128_def)
qed

lemma keeps_nft:
  assumes "\<And>a b c i. cl \<noteq> DepositNft a b c i" "\<And>a c i. cl \<noteq> ClaimNft a c i" "\<And>a c i. cl \<noteq> RefundNft a c i"
  shows "keeps (\<lambda>s. v_nft_escrow s = v) (vault_run H K X E cl)"
proof (cases cl)
  case (DepositNft a b c i)
  then show ?thesis using assms(1) by blast
next
  case (ClaimNft a c i)
  then show ?thesis using assms(2) by blast
next
  case (RefundNft a c i)
  then show ?thesis using assms(3) by blast
qed (simp_all only: vault_run.simps call_defs, (intro keeps_intro keeps_amodify; simp)+)

text \<open>An escrowed NFT leaves the vault once, to one of its two parties. A committed call of the vault
  either leaves an escrow record as it is or removes it, and a call that removes it is a claim by the
  recorded merchant or a refund by the recorded buyer, authorized by that party, made while the vault
  owns the token, and it transfers exactly that token to that party.\<close>

theorem nft_escrow_exact:
  assumes "vault_step H K X E cl s s'" "get_nft_escrow s c i = Some rec"
  shows "get_nft_escrow s' c i = Some rec \<or> (get_nft_escrow s' c i = None \<and> (\<exists>a w.
      (cl = ClaimNft a c i \<and> a = ne_merchant rec \<or> cl = RefundNft a c i \<and> a = ne_buyer rec) \<and> authorized E a \<and>
      ex_nft_owner X (world s) c i = Some (current_contract_address E) \<and>
      ex_nft_transfer X (world s) c (current_contract_address E) a i = Some w \<and> world s' = w))"
proof -
  have run: "vault_run H K X E cl s = (Ok (), s')" using assms(1) by (simp add: vault_step_def ok_iff)
  consider a b c' j where "cl = DepositNft a b c' j" | a c' j where "cl = ClaimNft a c' j" | a c' j where "cl = RefundNft a c' j"
    | "\<And>a b c i. cl \<noteq> DepositNft a b c i" "\<And>a c i. cl \<noteq> ClaimNft a c i" "\<And>a c i. cl \<noteq> RefundNft a c i"
    by (cases cl) simp_all
  then show ?thesis
  proof cases
    case 1
    then show ?thesis using run assms(2) by (auto simp: deposit_nft_def ok_iff get_nft_escrow_def)
  next
    case 2
    then show ?thesis using run assms(2) by (cases "(c', j) = (c, i)") (auto simp: claim_nft_def ok_iff get_nft_escrow_def)
  next
    case 3
    then show ?thesis using run assms(2) by (cases "(c', j) = (c, i)") (auto simp: refund_nft_def ok_iff get_nft_escrow_def)
  next
    case 4
    then show ?thesis using keepsD [OF keeps_nft [OF 4] refl run] assms(2) by (simp add: get_nft_escrow_def)
  qed
qed

definition vx_nft :: "ledger vault" where
  "vx_nft = vx_vault\<lparr>v_nft_escrow := Map.empty((30, 2) \<mapsto> \<lparr>ne_merchant = 7, ne_buyer = 3\<rparr>)\<rparr>"

lemma vx_nft_ok: "fst (vault_run (\<lambda>x. x) (\<lambda>a. []) vx_ext vx_env (ClaimNft 7 30 2) vx_nft) = Ok ()"
  by (simp add: claim_nft_def nft_release_def nft_owner_def nft_transfer_def vx_nft_def run_defs vx_defs)

theorem nft_escrow_exact_witness:
  "\<exists>s'. vault_step (\<lambda>x. x) (\<lambda>a. []) vx_ext vx_env (ClaimNft 7 30 2) vx_nft s' \<and>
    (get_nft_escrow s' 30 2 \<noteq> Some \<lparr>ne_merchant = 7, ne_buyer = 3\<rparr> \<longrightarrow> get_nft_escrow s' 30 2 = None)"
proof -
  obtain s' where "vault_run (\<lambda>x. x) (\<lambda>a. []) vx_ext vx_env (ClaimNft 7 30 2) vx_nft = (Ok (), s')"
    using vx_nft_ok by (metis prod.collapse)
  then have step: "vault_step (\<lambda>x. x) (\<lambda>a. []) vx_ext vx_env (ClaimNft 7 30 2) vx_nft s'"
    by (simp add: vault_step_def ok_iff)
  moreover have "get_nft_escrow vx_nft 30 2 = Some \<lparr>ne_merchant = 7, ne_buyer = 3\<rparr>"
    by (simp add: get_nft_escrow_def vx_nft_def)
  ultimately show ?thesis using nft_escrow_exact [OF step] by blast
qed

text \<open>The signature of a permit is not bound to the depositor. \<open>deposit_with_permit\<close> verifies the signature
  under a key its caller supplies and never relates that key to the depositor, so any key pair whose
  signature verifies over the permit moves the depositor's allowance with the same effect.\<close>

theorem permit_signer_unbound:
  assumes "deposit_with_permit H xdr X E relayer permit pk sig s = (Ok (), s')" "v_domain_separator s = Some d"
    and "ex_ed25519_verify X pk' (permit_digest H xdr d permit) sig'"
  shows "deposit_with_permit H xdr X E relayer permit pk' sig' s = (Ok (), s')"
proof -
  let ?s = "s\<lparr>v_guard_lock := Some True\<rparr>"
  have g: "guard_acquire s = (Ok (), ?s)"
    using assms(1) by (auto simp: deposit_with_permit_def aseq_Ok_iff guard_acquire_Ok_iff)
  have r: "release_after (permit_body H xdr X E relayer permit pk sig) ?s = (Ok (), s')"
    using assms(1) g by (auto simp: deposit_with_permit_def aseq_Ok_iff)
  then obtain t where t: "permit_body H xdr X E relayer permit pk sig ?s = (Ok (), t)"
    by (auto simp: release_after_def err_iff ok_iff split: prod.splits result.splits)
  have "permit_body H xdr X E relayer permit pk' sig' ?s = permit_body H xdr X E relayer permit pk sig ?s"
    using t assms(2,3)
    by (auto simp: permit_body_def aseq_def abind_def refuse_paused_def split: result.splits prod.splits if_splits)
  then show ?thesis
    using r g by (simp add: deposit_with_permit_def release_after_def aseq_simps)
qed

definition vx_permit :: deposit_permit where
  "vx_permit = \<lparr>dp_from = 6, dp_amount = 40, dp_nonce = 0, dp_deadline = 6000\<rparr>"

lemma vx_permit_ok:
  "fst (deposit_with_permit (\<lambda>x. x) (\<lambda>a. []) vx_ext vx_env 7 vx_permit [1] [1] vx_vault) = Ok ()"
  by (simp add: deposit_with_permit_def release_after_def permit_body_def transfer_from_def vx_permit_def
      run_defs vx_defs)

theorem permit_signer_unbound_witness:
  "\<exists>s'. deposit_with_permit (\<lambda>x. x) (\<lambda>a. []) vx_ext vx_env 7 vx_permit [1] [1] vx_vault = (Ok (), s') \<and>
     deposit_with_permit (\<lambda>x. x) (\<lambda>a. []) vx_ext vx_env 7 vx_permit [2] [2] vx_vault = (Ok (), s')"
proof -
  obtain s' where run: "deposit_with_permit (\<lambda>x. x) (\<lambda>a. []) vx_ext vx_env 7 vx_permit [1] [1] vx_vault = (Ok (), s')"
    using vx_permit_ok by (metis prod.collapse)
  obtain d where d: "v_domain_separator vx_vault = Some d" by (simp add: vx_defs run_defs)
  have "ex_ed25519_verify vx_ext [2] (permit_digest (\<lambda>x. x) (\<lambda>a. []) d vx_permit) [2]" by (simp add: vx_ext_def)
  then show ?thesis using run permit_signer_unbound [OF run d] by blast
qed

section \<open>Dust\<close>

text \<open>Dust is swept late, bounded and exactly, and sweeping forgets the payment. A successful
  \<open>sweep_dust\<close> was authorized by the merchant of an unpaused vault, more than 1,555,200 ledgers after the
  escrow of the payment closed, for a residual below the threshold; under the documented behaviour of
  the token the vault pays exactly the residual. It deletes the record, so nothing counts as refunded
  for the reference any more and the ceiling of the next claim is again whatever its caller names.\<close>

theorem sweep_dust_exact:
  assumes "sweep_dust X E r s = (Ok x, s')" "sep41 (ex_token X)" "v_token s = Some tok"
  shows "\<exists>m rec. v_admin s = Some m \<and> authorized E m \<and> is_paused s = Ok False \<and> get_refund s r = Some rec \<and>
    x = rr_payment_amount rec - rr_amount_refunded rec \<and> 0 \<le> x \<and> x < dust_threshold s \<and>
    u32_saturating_add (closed_at rec (unwrap_or (v_refund_window s) 0)) DUST_SWEEP_DELAY_LEDGERS < sequence E \<and>
    tok_balance (ex_token X) (world s') tok (current_contract_address E) =
      tok_balance (ex_token X) (world s) tok (current_contract_address E) - x \<and>
    get_refund s' = (get_refund s)(r := None) \<and> refunded s' r = 0 \<and> ceiling_of s' r n = n"
proof -
  let ?V = "current_contract_address E" and ?T = "ex_token X"
  obtain m rec a t where h: "v_admin s = Some m" "authorized E m" "\<not> unwrap_or (v_is_paused s) False"
    "get_refund s r = Some rec" "x = rr_payment_amount rec - rr_amount_refunded rec" "0 \<le> x"
    "x < dust_threshold s"
    "u32_saturating_add (closed_at rec (unwrap_or (v_refund_window s) 0)) DUST_SWEEP_DELAY_LEDGERS < sequence E"
    and t: "pay_dust X E a x (s\<lparr>v_guard_lock := Some True\<rparr>) = (Ok (), t)"
    and s': "s' = t\<lparr>v_refund_v2 := (v_refund_v2 t)(r := None), v_events := v_events t @ [DustSweptEvent r x a],
       v_guard_lock := Some False\<rparr>"
    using assms(1) by (rule sweep_dust_Ok)
  obtain w where w: "t = s\<lparr>v_guard_lock := Some True, world := w\<rparr>" "0 < x \<longrightarrow> a \<noteq> ?V \<and>
      tok_transfer ?T (world s) tok ?V a x = Some w" "x \<le> 0 \<longrightarrow> w = world s"
    using t by (rule pay_dust_Ok) (auto simp: assms(3))
  have "tok_balance ?T w tok ?V = tok_balance ?T (world s) tok ?V - x"
    using w(2,3) h(6) assms(2) by (cases "x = 0") (auto simp: sep41_def)
  then show ?thesis
    using h unfolding s' w(1)
    by (intro exI [of _ m] exI [of _ rec])
      (simp add: get_refund_def refunded_def ceiling_of_def fun_eq_iff is_paused_def dust_threshold_def)
qed

definition vx_dust :: "ledger vault" where
  "vx_dust = vx_vault\<lparr>v_refund_v2 := Map.empty([1] \<mapsto> \<lparr>rr_amount_refunded = 499, rr_payment_amount = 500,
     rr_paid_at_ledger = 60, rr_recipient = 3, rr_ledger = 100\<rparr>), v_dust_threshold := Some 5, v_dust_treasury := Some 8\<rparr>"

lemma vx_dust_ok: "fst (sweep_dust vx_ext (vx_env\<lparr>sequence := 2000000\<rparr>) [1] vx_dust) = Ok 1"
  by (simp add: sweep_dust_def pay_dust_def dust_treasury_def dust_threshold_def closed_at_def
      DUST_SWEEP_DELAY_LEDGERS_def u32_saturating_add_def vx_dust_def run_defs vx_defs math_defs)

theorem sweep_dust_exact_witness:
  "\<exists>s'. sweep_dust vx_ext (vx_env\<lparr>sequence := 2000000\<rparr>) [1] vx_dust = (Ok 1, s') \<and>
     refunded vx_dust [1] = 499 \<and> refunded s' [1] = 0 \<and> world s' 9 1 = 999"
proof -
  obtain s' where run: "sweep_dust vx_ext (vx_env\<lparr>sequence := 2000000\<rparr>) [1] vx_dust = (Ok 1, s')"
    using vx_dust_ok by (metis prod.collapse)
  have "sep41 (ex_token vx_ext)" by (simp add: vx_ext_def sep41_ledger_token)
  moreover have "v_token vx_dust = Some 9" "world vx_dust 9 1 = 1000" "tok_balance (ex_token vx_ext) = (\<lambda>w. w)"
      "current_contract_address vx_env = 1" "refunded vx_dust [1] = 499"
    by (simp_all add: vx_dust_def refunded_def run_defs vx_defs)
  ultimately show ?thesis using run sweep_dust_exact [OF run, of 9] by auto
qed

section \<open>The vault and what it announces or delegates\<close>

text \<open>A preview is what the refund then does. If a refund succeeds on a vault with sound books, the
  preview of the same refund just before it succeeds and announces exactly the fee and the payout the
  refund splits the amount into, the amount refunded so far after it and what is left of the payment.\<close>

theorem preview_matches_refund:
  assumes "refund X E r a x l p v n s = (Ok (), s')" "vault_inv s" "in_i128 (ceiling_of s r p)"
  shows "\<exists>q. preview_settlement s r x p = Ok q \<and>
    split_amount x (effective_fee_bps s) = Ok (rs_fee q, rs_recipient_amount q) \<and>
    rs_cumulative_refunded q = refunded s' r \<and>
    rs_merchant_retained q = ceiling_of s' r p - refunded s' r"
proof -
  let ?claim = "\<lparr>rc_payment_ref = r, rc_recipient = a, rc_amount = x, rc_paid_at_ledger = l,
    rc_payment_amount = p, rc_vdf_proof = v\<rparr>"
  obtain m cache t where ca: "read_policy_cache s = (Ok cache, s)"
    and cl: "claim_single X E cache ?claim (claims_start s (Some True) m n) = (Ok (), t)"
    and s': "s' = t\<lparr>v_guard_lock := Some False\<rparr>"
    using assms(1) by (rule refund_Ok)
  let ?s = "claims_start s (Some True) m n"
  have b: "books_inv ?s" using assms(2) by (simp add: vault_inv_def claims_inv_def books_inv_def claims_start_def)
  have eff: "effective_fee_bps ?s = effective_fee_bps s"
    by (simp add: effective_fee_bps_def claims_start_def split: option.split)
  have ca': "read_policy_cache ?s = (Ok cache, ?s)"
    using ca eff by (simp add: read_policy_cache_Ok_iff claims_start_def)
  have st: "preview_settlement ?s r x p = preview_settlement s r x p"
      "ca_fee_bps cache = effective_fee_bps s" "refunded t = refunded s'" "ceiling_of t = ceiling_of s'"
    using ca eff by (auto simp: preview_settlement_def resolve_ceiling_def claims_start_def
        read_policy_cache_Ok_iff refunded_def ceiling_of_def s' fun_eq_iff)
  have "in_i128 (ceiling_of ?s (rc_payment_ref ?claim) (rc_payment_amount ?claim))"
    using assms(3) by (simp add: ceiling_of_def claims_start_def)
  from preview_settlement_exact [OF cl ca' b this] show ?thesis
    by (metis refund_claim.select_convs(1,3,5) st)
qed

theorem preview_matches_refund_witness:
  "\<exists>q s'. refund vx_ext vx_env [1] 3 200 60 500 None 0 vx_vault = (Ok (), s') \<and>
     preview_settlement vx_vault [1] 200 500 = Ok q \<and> rs_cumulative_refunded q = refunded s' [1]"
proof -
  obtain s' where run: "refund vx_ext vx_env [1] 3 200 60 500 None 0 vx_vault = (Ok (), s')"
    by (rule vx_refund_run)
  have "vault_inv vx_vault"
    by (simp add: vault_inv_def claims_inv_def books_inv_def tier_inv_def strategy_inv_def strategy_reads
        config_inv_def get_oracles_def run_defs vx_defs)
  then show ?thesis using run preview_matches_refund [OF run]
    by (auto simp: in_i128_def ceiling_of_def run_defs vx_defs)
qed

text \<open>C16: vault and time policy together keep refunds in time. When the contract the vault delegates to is the
  repository's time policy, whatever its delivery oracle answers, a refund that succeeds was claimed at
  most the configured window after the ledger of the payment it names and not after the configured
  deadline.\<close>

theorem refund_in_time:
  assumes "refund X E r a x l p v n s = (Ok (), s')"
    and "\<And>w b. ex_policy X w b = time_policy_evaluate (delivery w)"
    and "v_refund_window s = Some window" "v_refund_deadline s = Some deadline"
  shows "(0 < window \<longrightarrow> sequence E \<le> l + window) \<and> (0 < deadline \<longrightarrow> timestamp E \<le> deadline)"
proof -
  let ?claim = "\<lparr>rc_payment_ref = r, rc_recipient = a, rc_amount = x, rc_paid_at_ledger = l,
    rc_payment_amount = p, rc_vdf_proof = v\<rparr>"
  obtain m cache t where ca: "read_policy_cache s = (Ok cache, s)"
    and cl: "claim_single X E cache ?claim (claims_start s (Some True) m n) = (Ok (), t)"
    using assms(1) by (rule refund_Ok)
  have c: "ca_refund_window cache = window" "ca_refund_deadline cache = deadline"
    using ca assms(3,4) by (auto simp: read_policy_cache_Ok_iff)
  have "gates_ok X E cache ?claim (claims_start s (Some True) m n)" using cl by (rule claim_single_Ok)
  then have "0 < window \<or> 0 < deadline \<longrightarrow> time_policy_evaluate (delivery (world s))
      (TimePolicyParams window deadline) (claim_context E ?claim None) = Ok ()"
    by (auto simp: gates_ok_iff assms(2) c claims_start_def)
  from this [THEN mp, THEN time_policy.admits_in_time] show ?thesis
    by (auto simp: claim_context_def)
qed

theorem refund_in_time_witness:
  "\<exists>s'. refund vx_ext vx_env [1] 3 200 60 500 None 0 vx_vault = (Ok (), s') \<and> sequence vx_env \<le> 60 + 50"
proof -
  obtain s' where run: "refund vx_ext vx_env [1] 3 200 60 500 None 0 vx_vault = (Ok (), s')"
    by (rule vx_refund_run)
  have "\<And>w b. ex_policy vx_ext w b = time_policy_evaluate (\<lambda>_ _. None)" by (simp add: vx_ext_def fun_eq_iff)
  moreover have "v_refund_window vx_vault = Some 50" "v_refund_deadline vx_vault = Some 0"
    by (simp_all add: run_defs vx_defs)
  ultimately show ?thesis using run refund_in_time [OF run, of "\<lambda>_ _ _. None"] by auto
qed

end
