(* ===== verification/Channel_Nonce.thy ===== *)
theory Channel_Nonce
  imports Common
begin

text \<open>
  The sliding window of consumed nonces of a payment channel (\<open>state-channel/src/nonce.rs\<close>): 256 bits
  kept in 32 bytes, least significant bit first, over an aligned range of nonces. The abstract view of
  a window is the set of nonces it refuses; the lemmas show that \<open>consume\<close> accepts exactly the others
  and never forgets one.
\<close>

unbundle bit_operations_syntax

section \<open>The window\<close>

definition WINDOW_SIZE :: u64 where
  "WINDOW_SIZE = 256"

record nonce_window =
  nw_base :: u64
  nw_bitmap :: bytes

definition empty_window :: nonce_window where
  "empty_window = \<lparr>nw_base = 0, nw_bitmap = replicate 32 0\<rparr>"

definition is_consumed :: "nonce_window \<Rightarrow> u64 \<Rightarrow> bool" where
  "is_consumed w nonce =
     (if nonce < nw_base w then True
      else let offset = nonce - nw_base w
           in if offset \<ge> WINDOW_SIZE then False
              else let byte = nw_bitmap w ! (offset div 8)
                   in byte AND push_bit (offset mod 8) 1 \<noteq> 0)"

definition slide :: "nonce_window \<Rightarrow> u64 \<Rightarrow> nonce_window" where
  "slide w nonce =
     (if nonce - nw_base w \<ge> WINDOW_SIZE
      then \<lparr>nw_base = nonce - nonce mod WINDOW_SIZE, nw_bitmap = replicate 32 0\<rparr> else w)"

definition consume :: "nonce_window \<Rightarrow> u64 \<Rightarrow> nonce_window outcome" where
  "consume w nonce =
     (if nonce < nw_base w then Err StaleState
      else let w = slide w nonce;
               offset = nonce - nw_base w;
               byte_index = offset div 8;
               mask = push_bit (offset mod 8) 1
           in if nw_bitmap w ! byte_index AND mask \<noteq> 0 then Err StaleState
              else Ok (w\<lparr>nw_bitmap := (nw_bitmap w)[byte_index := nw_bitmap w ! byte_index OR mask]\<rparr>))"

section \<open>Exactly once\<close>

definition window_inv :: "nonce_window \<Rightarrow> bool" where
  "window_inv w \<longleftrightarrow> length (nw_bitmap w) = 32 \<and> nw_base w mod 256 = 0"

lemma window_inv_empty [simp]: "window_inv empty_window"
  by (simp add: window_inv_def empty_window_def)

lemma byte_mask_iff: "(x :: u8) AND 2 ^ k = 0 \<longleftrightarrow> \<not> bit x k"
  using bit_iff_and_push_bit_not_eq_0 [of x k] by simp

lemma is_consumed_iff:
  "is_consumed w n \<longleftrightarrow> n < nw_base w \<or>
     (n - nw_base w < 256 \<and> bit (nw_bitmap w ! ((n - nw_base w) div 8)) ((n - nw_base w) mod 8))"
  by (auto simp: is_consumed_def Let_def byte_mask_iff WINDOW_SIZE_def not_less)

lemma slide_inv: "window_inv w \<Longrightarrow> window_inv (slide w n)"
  by (simp add: slide_def window_inv_def WINDOW_SIZE_def)

lemma slide_covers: "nw_base w \<le> n \<Longrightarrow> nw_base (slide w n) \<le> n \<and> n - nw_base (slide w n) < 256"
  by (auto simp: slide_def WINDOW_SIZE_def less_imp_diff_less)

text \<open>Sliding forgets no consumed nonce and leaves the arriving one as it was.\<close>

lemma slide_base:
  assumes "window_inv w" "nw_base w + 256 \<le> n"
  shows "nw_base w + 256 \<le> nw_base (slide w n)"
proof -
  obtain k where k: "nw_base w = 256 * k" using assms(1) by (auto simp: window_inv_def)
  then have "k + 1 \<le> n div 256" using assms(2) by (simp add: less_eq_div_iff_mult_less_eq)
  then have "256 * (k + 1) \<le> n - n mod 256" by (simp only: minus_mod_eq_mult_div mult_le_mono2)
  then show ?thesis using k assms(2) by (simp add: slide_def WINDOW_SIZE_def)
qed

lemma slide_consumed:
  assumes "window_inv w" "nw_base w \<le> n"
  shows "is_consumed (slide w n) n = is_consumed w n" "is_consumed w m \<Longrightarrow> is_consumed (slide w n) m"
proof -
  show "is_consumed (slide w n) n = is_consumed w n"
  proof (cases "256 \<le> n - nw_base w")
    case True
    then show ?thesis
      using assms(2) slide_covers [OF assms(2)]
      by (simp add: is_consumed_iff) (simp add: slide_def WINDOW_SIZE_def less_mult_imp_div_less)
  qed (simp add: slide_def WINDOW_SIZE_def)
  show "is_consumed (slide w n) m" if "is_consumed w m"
  proof (cases "256 \<le> n - nw_base w")
    case True
    then have "nw_base w + 256 \<le> n" using assms(2) by linarith
    moreover have "m < nw_base w + 256" using that by (auto simp: is_consumed_iff)
    ultimately show ?thesis using slide_base [OF assms(1), of n] by (simp add: is_consumed_iff)
  qed (use that in \<open>simp add: slide_def WINDOW_SIZE_def\<close>)
qed

lemma consume_cases:
  assumes "window_inv w"
  shows "consume w n = (if is_consumed w n then Err StaleState else
     Ok ((slide w n)\<lparr>nw_bitmap := (nw_bitmap (slide w n))[(n - nw_base (slide w n)) div 8 :=
       nw_bitmap (slide w n) ! ((n - nw_base (slide w n)) div 8) OR 2 ^ ((n - nw_base (slide w n)) mod 8)]\<rparr>))"
proof (cases "n < nw_base w")
  case True
  then show ?thesis by (simp add: consume_def is_consumed_iff)
next
  case False
  then have "is_consumed w n \<longleftrightarrow> bit (nw_bitmap (slide w n) ! ((n - nw_base (slide w n)) div 8)) ((n - nw_base (slide w n)) mod 8)"
    using slide_consumed(1) [OF assms, of n] slide_covers [of w n] by (simp add: is_consumed_iff [of "slide w n"])
  then show ?thesis using False by (simp add: consume_def Let_def byte_mask_iff)
qed

text \<open>What a window refuses after a nonce was consumed: that nonce, all it refused before, and, after
  a slide, the nonces the window has left behind.\<close>

lemma consume_consumed:
  assumes "window_inv w" "consume w n = Ok w'"
  shows "window_inv w'" "is_consumed w' n" "is_consumed w m \<Longrightarrow> is_consumed w' m"
    and "n < nw_base w + 256 \<Longrightarrow> is_consumed w' m \<longleftrightarrow> m = n \<or> is_consumed w m"
proof -
  let ?s = "slide w n" let ?k = "n - nw_base ?s"
  have n: "nw_base w \<le> n" "\<not> is_consumed w n"
    using assms by (auto simp: consume_cases not_le is_consumed_iff split: if_splits)
  have w': "w' = ?s\<lparr>nw_bitmap := (nw_bitmap ?s)[?k div 8 := nw_bitmap ?s ! (?k div 8) OR 2 ^ (?k mod 8)]\<rparr>"
    using assms by (auto simp: consume_cases split: if_splits)
  have s: "window_inv ?s" by (rule slide_inv [OF assms(1)])
  have k: "?k < 256" "nw_base ?s \<le> n" using slide_covers [OF n(1)] by simp_all
  show "window_inv w'" using s by (simp add: w' window_inv_def)
  have step: "is_consumed w' m \<longleftrightarrow> m = n \<or> is_consumed ?s m" for m
  proof (cases "nw_base ?s \<le> m \<and> m - nw_base ?s < 256")
    case True
    let ?j = "m - nw_base ?s"
    have len: "?k div 8 < length (nw_bitmap ?s)" using s k by (simp add: window_inv_def less_mult_imp_div_less)
    have eq: "m = n \<longleftrightarrow> ?j div 8 = ?k div 8 \<and> ?j mod 8 = ?k mod 8"
      using True k(2) by (metis add_diff_inverse_nat div_mult_mod_eq not_le)
    show ?thesis
      using True len eq k by (auto simp: is_consumed_iff w' nth_list_update bit_simps)
  qed (use k in \<open>auto simp: is_consumed_iff w'\<close>)
  then show "is_consumed w' n" by simp
  show "is_consumed w' m" if "is_consumed w m" using step slide_consumed(2) [OF assms(1) n(1)] that by blast
  show "is_consumed w' m \<longleftrightarrow> m = n \<or> is_consumed w m" if "n < nw_base w + 256"
  proof -
    have "slide w n = w" using that n(1) by (simp add: slide_def WINDOW_SIZE_def less_diff_conv2)
    then show ?thesis using step by simp
  qed
qed

end
