(* ===== verification/Channel_State.thy ===== *)
theory Channel_State
  imports Channel_Nonce Invocation "HOL-Library.AList"
begin

text \<open>
  Storage of the payment channels (\<open>state-channel/src\<close>): the records of \<open>lib.rs\<close>, \<open>htlc.rs\<close>, \<open>hashlock.rs\<close>,
  \<open>multi_asset.rs\<close>, \<open>watchtower.rs\<close>, \<open>close.rs\<close>, \<open>delegation.rs\<close> and \<open>subchannel.rs\<close>, one field of \<open>channels\<close> per
  storage key, and the steps every entry point uses. A map of the contract is an association list in
  key order, as the host iterates it.
\<close>

section \<open>Data\<close>

datatype channel_phase = Open | Closed | Disputed | Finalized

record channel =
  ch_sender :: address
  ch_receiver :: address
  ch_amount :: i128
  ch_nonce :: u64
  ch_balance :: i128
  ch_phase :: channel_phase
  ch_opened_at :: u32
  ch_closed_at :: u32
  ch_disputed_at :: u32
  ch_dispute_extensions :: u32
  ch_challenge_period :: u32
  ch_sender_pubkey :: bytes
  ch_nonce_window :: nonce_window

record state_update =
  su_nonce :: u64
  su_balance :: i128

record delegation_certificate =
  dc_master_pubkey :: bytes
  dc_ephemeral_pubkey :: bytes
  dc_expires_at_ledger :: u32
  dc_channel_id :: u64

record mutual_close_state =
  mc_channel_id :: u64
  mc_receiver_balance :: i128
  mc_sender_balance :: i128

datatype htlc_state = HtlcPending | HtlcResolved | HtlcRefunded

record htlc_ref =
  hr_channel_id :: u64
  hr_htlc_id :: u64

record htlc =
  hl_channel_id :: u64
  hl_htlc_id :: u64
  hl_hash_lock :: bytes
  hl_amount :: i128
  hl_timeout_ledger :: u32
  hl_state :: htlc_state
  hl_parent_channel_id :: u64
  hl_parent_htlc_id :: u64

datatype hashlock_payment_state = PaymentPending | PaymentResolved

record hashlock_payment =
  hp_channel_id :: u64
  hp_payment_id :: u64
  hp_hashlock :: bytes
  hp_amount :: i128
  hp_state :: hashlock_payment_state

record watchtower_bounty =
  wb_reward_bps :: u32
  wb_watchtower :: "address option"

record balance_record =
  ba_deposit :: i128
  ba_receiver_balance :: i128

type_synonym 'a asset_map = "(address \<times> 'a) list"

record multi_asset_channel =
  ma_sender :: address
  ma_receiver :: address
  ma_sender_pubkey :: bytes
  ma_assets :: "balance_record asset_map"
  ma_nonce :: u64
  ma_phase :: channel_phase
  ma_opened_at :: u32
  ma_closed_at :: u32
  ma_challenge_period :: u32

record multi_asset_state =
  ms_nonce :: u64
  ms_balances :: "i128 asset_map"

record subchannel =
  sb_subchannel_id :: u64
  sb_parent_channel_id :: u64
  sb_sender :: address
  sb_receiver :: address
  sb_amount :: i128
  sb_parent_sequence :: u64
  sb_nonce :: u64
  sb_balance :: i128
  sb_settled :: bool

datatype (plugins only: code size) channel_event =
    ChannelOpenedEvent u64 address address i128 u32
  | StateUpdatedEvent u64 u64 i128
  | ChannelClosedEvent u64 i128 u32
  | DisputeEvent u64 u64 i128 u32
  | DisputeFinalizedEvent u64 i128 i128
  | ClaimEvent u64 i128 address
  | ChannelClosedCooperative u64 i128 i128
  | HtlcAddedEvent u64 u64 bytes i128 u32 u64 u64
  | HtlcResolvedEvent u64 u64 i128
  | HtlcRefundedEvent u64 u64 i128
  | HashlockPaymentAddedEvent u64 u64 bytes i128
  | HashlockPaymentRevealedEvent u64 u64 i128 bytes
  | ChannelSplicedInEvent u64 i128 i128
  | ChannelSplicedOutEvent u64 i128 i128
  | WatchtowerBountySetEvent u64 u32
  | WatchtowerRewardEvent u64 address i128
  | MultiAssetChannelOpenedEvent u64 address address "i128 asset_map" u32
  | MultiAssetStateUpdatedEvent u64 u64 "i128 asset_map" channel_phase
  | MultiAssetSettledEvent u64 "i128 asset_map" "i128 asset_map"
  | SubChannelOpenedEvent u64 u64 i128 u64
  | SubChannelUpdatedEvent u64 u64 i128
  | SubChannelSettledEvent u64 u64 i128

record 'w channels =
  sc_token :: "address option"
  sc_channel_count :: "u64 option"
  sc_max_channel_lifetime :: "u32 option"
  sc_channel :: "u64 \<rightharpoonup> channel"
  sc_multi_asset_channel :: "u64 \<rightharpoonup> multi_asset_channel"
  sc_receiver_pubkey :: "u64 \<rightharpoonup> bytes"
  sc_htlc :: "u64 \<times> u64 \<rightharpoonup> htlc"
  sc_htlc_count :: "u64 \<rightharpoonup> u64"
  sc_htlc_reserved :: "u64 \<rightharpoonup> i128"
  sc_bounty :: "u64 \<rightharpoonup> watchtower_bounty"
  sc_hashlock_payment :: "u64 \<times> u64 \<rightharpoonup> hashlock_payment"
  sc_hashlock_payment_count :: "u64 \<rightharpoonup> u64"
  sc_hashlock_reserved :: "u64 \<rightharpoonup> i128"
  sc_subchannel :: "u64 \<rightharpoonup> subchannel"
  sc_subchannel_count :: "u64 option"
  sc_sub_active :: "u64 \<rightharpoonup> u32"
  sc_sub_reserved :: "u64 \<rightharpoonup> i128"
  sc_guard_lock :: "bool option"
  sc_events :: "channel_event list"
  sc_world :: 'w

definition channels_empty :: "'w \<Rightarrow> 'w channels" where
  "channels_empty w = \<lparr>sc_token = None, sc_channel_count = None, sc_max_channel_lifetime = None,
     sc_channel = Map.empty, sc_multi_asset_channel = Map.empty, sc_receiver_pubkey = Map.empty,
     sc_htlc = Map.empty, sc_htlc_count = Map.empty, sc_htlc_reserved = Map.empty, sc_bounty = Map.empty,
     sc_hashlock_payment = Map.empty, sc_hashlock_payment_count = Map.empty,
     sc_hashlock_reserved = Map.empty, sc_subchannel = Map.empty, sc_subchannel_count = None,
     sc_sub_active = Map.empty, sc_sub_reserved = Map.empty, sc_guard_lock = None, sc_events = [],
     sc_world = w\<rparr>"

text \<open>What the contract calls: the token, the host's hash and signature check, and XDR encodings.\<close>

record 'w channel_ext =
  cx_token :: "'w token"
  cx_sha256 :: "bytes \<Rightarrow> bytes"
  cx_ed25519_verify :: "bytes \<Rightarrow> bytes \<Rightarrow> bytes \<Rightarrow> bool"
  cx_address_xdr :: "address \<Rightarrow> bytes"
  cx_balances_xdr :: "i128 asset_map \<Rightarrow> bytes"
  cx_i128_xdr :: "i128 \<Rightarrow> bytes"

section \<open>Steps shared by the entry points\<close>

definition emit :: "channel_event \<Rightarrow> ('w channels, unit) act" where
  "emit ev = amodify (\<lambda>s. s\<lparr>sc_events := sc_events s @ [ev]\<rparr>)"

definition lock_channels :: "('w channels, unit) act" where
  "lock_channels = abind (aread sc_guard_lock) (\<lambda>l. abind (alift (acquire l)) (\<lambda>l'.
     amodify (\<lambda>s. s\<lparr>sc_guard_lock := l'\<rparr>)))"

definition unlock_channels :: "('w channels, unit) act" where
  "unlock_channels = amodify (\<lambda>s. s\<lparr>sc_guard_lock := release (sc_guard_lock s)\<rparr>)"

definition token_address :: "('w channels, address) act" where
  "token_address = abind (aread sc_token) (\<lambda>t. alift (ok_or t NotInitialized))"

definition move_tokens ::
  "'w channel_ext \<Rightarrow> address \<Rightarrow> address \<Rightarrow> address \<Rightarrow> i128 \<Rightarrow> ('w channels, unit) act" where
  "move_tokens X tok from to amount = abind (aread sc_world) (\<lambda>w.
     abind (alift (unwrap (tok_transfer (cx_token X) w tok from to amount))) (\<lambda>w'.
     amodify (\<lambda>s. s\<lparr>sc_world := w'\<rparr>)))"

text \<open>\<open>if amount > 0 { transfer(..) }\<close>.\<close>

definition pay_if_positive ::
  "'w channel_ext \<Rightarrow> address \<Rightarrow> address \<Rightarrow> address \<Rightarrow> i128 \<Rightarrow> ('w channels, unit) act" where
  "pay_if_positive X tok from to amount = (if amount > 0 then move_tokens X tok from to amount else aret ())"

definition ed25519_verify :: "'w channel_ext \<Rightarrow> bytes \<Rightarrow> bytes \<Rightarrow> bytes \<Rightarrow> unit outcome" where
  "ed25519_verify X pk msg sig = (if cx_ed25519_verify X pk msg sig then Ok () else Trap)"

definition get_channel_internal :: "u64 \<Rightarrow> ('w channels, channel) act" where
  "get_channel_internal channel_id = abind (aread (\<lambda>s. sc_channel s channel_id)) (\<lambda>c.
     alift (ok_or c ChannelNotFound))"

definition store_channel :: "u64 \<Rightarrow> channel \<Rightarrow> ('w channels, unit) act" where
  "store_channel channel_id c = amodify (\<lambda>s. s\<lparr>sc_channel := (sc_channel s)(channel_id \<mapsto> c)\<rparr>)"

text \<open>\<open>htlc::reserved\<close>, \<open>hashlock::reserved\<close> and \<open>subchannel::reserved\<close>.\<close>

definition htlc_reserved :: "'w channels \<Rightarrow> u64 \<Rightarrow> i128" where
  "htlc_reserved s channel_id = unwrap_or (sc_htlc_reserved s channel_id) 0"

definition hashlock_reserved :: "'w channels \<Rightarrow> u64 \<Rightarrow> i128" where
  "hashlock_reserved s channel_id = unwrap_or (sc_hashlock_reserved s channel_id) 0"

definition sub_reserved :: "'w channels \<Rightarrow> u64 \<Rightarrow> i128" where
  "sub_reserved s parent_channel_id = unwrap_or (sc_sub_reserved s parent_channel_id) 0"

lemmas channel_step_defs = emit_def lock_channels_def unlock_channels_def token_address_def move_tokens_def
  pay_if_positive_def get_channel_internal_def store_channel_def

lemma emit_iff [ok_iff]: "emit ev s = (r, s') \<longleftrightarrow> r = Ok () \<and> s' = s\<lparr>sc_events := sc_events s @ [ev]\<rparr>"
  by (auto simp: emit_def)

lemma lock_channels_Ok_iff [ok_iff]:
  "lock_channels s = (Ok u, s') \<longleftrightarrow> \<not> unwrap_or (sc_guard_lock s) False \<and> s' = s\<lparr>sc_guard_lock := Some True\<rparr>"
  by (auto simp: lock_channels_def ok_iff)

lemma unlock_channels_iff [ok_iff]:
  "unlock_channels s = (r, s') \<longleftrightarrow> r = Ok () \<and> s' = s\<lparr>sc_guard_lock := Some False\<rparr>"
  by (auto simp: unlock_channels_def release_def)

lemma token_address_Ok_iff [ok_iff]: "token_address s = (Ok t, s') \<longleftrightarrow> sc_token s = Some t \<and> s' = s"
  by (auto simp: token_address_def ok_iff)

lemma move_tokens_Ok_iff [ok_iff]:
  "move_tokens X tok a b x s = (Ok u, s') \<longleftrightarrow>
     (\<exists>w. tok_transfer (cx_token X) (sc_world s) tok a b x = Some w \<and> s' = s\<lparr>sc_world := w\<rparr>)"
  by (auto simp: move_tokens_def ok_iff)

lemma pay_if_positive_Ok_iff [ok_iff]:
  "pay_if_positive X tok a b x s = (Ok u, s') \<longleftrightarrow>
     (if 0 < x then \<exists>w. tok_transfer (cx_token X) (sc_world s) tok a b x = Some w \<and> s' = s\<lparr>sc_world := w\<rparr>
      else s' = s)"
  by (auto simp: pay_if_positive_def ok_iff)

lemma ed25519_verify_Ok_iff [ok_iff]: "ed25519_verify X pk m g = Ok u \<longleftrightarrow> cx_ed25519_verify X pk m g"
  by (simp add: ed25519_verify_def)

lemma get_channel_internal_Ok_iff [ok_iff]:
  "get_channel_internal i s = (Ok c, s') \<longleftrightarrow> sc_channel s i = Some c \<and> s' = s"
  by (auto simp: get_channel_internal_def ok_iff)

lemma store_channel_iff [ok_iff]:
  "store_channel i c s = (r, s') \<longleftrightarrow> r = Ok () \<and> s' = s\<lparr>sc_channel := (sc_channel s)(i \<mapsto> c)\<rparr>"
  by (auto simp: store_channel_def)

end
