(* ===== verification/Channel_Ops.thy ===== *)
theory Channel_Ops
  imports Channel_State
begin

text \<open>
  The single-asset payment channels: opening, signed state updates and closes, disputes with
  counter-evidence, claims and reclaims (\<open>state-channel/src/lib.rs\<close>), the dispute window (\<open>dispute.rs\<close>),
  delegated keys (\<open>delegation.rs\<close>), the batch signature check (\<open>crypto.rs\<close>), watchtower bounties
  (\<open>watchtower.rs\<close>), splicing (\<open>splice.rs\<close>) and the mutual close (\<open>close.rs\<close>).
\<close>

section \<open>Constants and the dispute window\<close>

definition DEFAULT_CHALLENGE_PERIOD :: u32 where
  "DEFAULT_CHALLENGE_PERIOD = 720"

definition MAX_CHALLENGE_PERIOD :: u32 where
  "MAX_CHALLENGE_PERIOD = 17280"

definition DEFAULT_MAX_CHANNEL_LIFETIME :: u32 where
  "DEFAULT_MAX_CHANNEL_LIFETIME = 1209600"

definition effective_challenge_period :: "u32 \<Rightarrow> u32" where
  "effective_challenge_period challenge_period =
     (if challenge_period = 0 then DEFAULT_CHALLENGE_PERIOD else min challenge_period MAX_CHALLENGE_PERIOD)"

definition COUNTER_PROOF_EXTENSION_LEDGERS :: u32 where
  "COUNTER_PROOF_EXTENSION_LEDGERS = 50"

definition MAX_DISPUTE_EXTENSIONS :: u32 where
  "MAX_DISPUTE_EXTENSIONS = 3"

definition extend_window_on_late_counter_proof :: "env \<Rightarrow> u32 \<Rightarrow> u32 \<Rightarrow> u32 \<Rightarrow> (u32 \<times> u32) outcome" where
  "extend_window_on_late_counter_proof E window_started challenge_period extensions =
     (let deadline = u32_saturating_add window_started challenge_period; current_ledger = sequence E
      in if current_ledger > deadline \<or> saturating_sub deadline current_ledger \<ge> COUNTER_PROOF_EXTENSION_LEDGERS
         then Ok (window_started, extensions)
         else if extensions \<ge> MAX_DISPUTE_EXTENSIONS then Err DisputeExtensionLimitReached
         else obind (u32_add extensions 1) (\<lambda>n.
           Ok (u32_saturating_add window_started COUNTER_PROOF_EXTENSION_LEDGERS, n)))"

definition ensure_window_open :: "env \<Rightarrow> u32 \<Rightarrow> u32 \<Rightarrow> unit outcome" where
  "ensure_window_open E window_started challenge_period =
     (if sequence E > u32_saturating_add window_started challenge_period then Err ChallengeExpired else Ok ())"

definition ensure_window_elapsed :: "env \<Rightarrow> u32 \<Rightarrow> u32 \<Rightarrow> unit outcome" where
  "ensure_window_elapsed E window_started challenge_period =
     (if sequence E \<le> u32_saturating_add window_started challenge_period then Err ChallengeActive else Ok ())"

section \<open>Signatures\<close>

definition state_payload :: "channel \<Rightarrow> state_update \<Rightarrow> bytes" where
  "state_payload c state = ch_sender_pubkey c @ be_bytes 8 (su_nonce state) @ i128_be_bytes (su_balance state)"

definition verify_state_signature ::
  "'w channel_ext \<Rightarrow> channel \<Rightarrow> state_update \<Rightarrow> bytes \<Rightarrow> unit outcome" where
  "verify_state_signature X c state signature =
     ed25519_verify X (ch_sender_pubkey c) (state_payload c state) signature"

definition delegation_payload :: "delegation_certificate \<Rightarrow> bytes" where
  "delegation_payload cert = map of_char ''accensa:delegation:v1'' @ dc_master_pubkey cert @
     dc_ephemeral_pubkey cert @ be_bytes 4 (dc_expires_at_ledger cert) @ be_bytes 8 (dc_channel_id cert)"

definition verify_certificate ::
  "'w channel_ext \<Rightarrow> env \<Rightarrow> delegation_certificate \<Rightarrow> bytes \<Rightarrow> bytes \<Rightarrow> u64 \<Rightarrow> unit outcome" where
  "verify_certificate X E cert cert_signature expected_master expected_channel_id =
     (if dc_master_pubkey cert \<noteq> expected_master then Err Unauthorized
      else if dc_channel_id cert \<noteq> 0 \<and> dc_channel_id cert \<noteq> expected_channel_id then Err Unauthorized
      else if sequence E > dc_expires_at_ledger cert then Err WindowExpired
      else ed25519_verify X (dc_master_pubkey cert) (delegation_payload cert) cert_signature)"

definition verify_delegated_state_signature ::
  "'w channel_ext \<Rightarrow> env \<Rightarrow> channel \<Rightarrow> u64 \<Rightarrow> state_update \<Rightarrow> bytes \<Rightarrow> delegation_certificate \<Rightarrow> bytes \<Rightarrow>
    unit outcome" where
  "verify_delegated_state_signature X E c channel_id state signature cert cert_signature =
     obind (verify_certificate X E cert cert_signature (ch_sender_pubkey c) channel_id) (\<lambda>_.
     ed25519_verify X (dc_ephemeral_pubkey cert) (state_payload c state) signature)"

definition verify_signatures ::
  "'w channel_ext \<Rightarrow> bytes \<Rightarrow> bytes list \<Rightarrow> bytes list \<Rightarrow> unit outcome" where
  "verify_signatures X payload signers signatures =
     (if length signers \<noteq> length signatures then Err InvalidSignature
      else if list_all (\<lambda>(pk, g). cx_ed25519_verify X pk payload g) (zip signers signatures) then Ok ()
      else Trap)"

section \<open>Opening and signed states\<close>

definition initialize_channels :: "address \<Rightarrow> ('w channels, unit) act" where
  "initialize_channels tok = abind (aread sc_token) (\<lambda>t.
     aseq (arefuse (t \<noteq> None) AlreadyInitialized)
     (amodify (\<lambda>s. s\<lparr>sc_token := Some tok, sc_channel_count := Some 0,
        sc_max_channel_lifetime := Some DEFAULT_MAX_CHANNEL_LIFETIME\<rparr>)))"

definition next_channel_id :: "('w channels, u64) act" where
  "next_channel_id = abind (aread (\<lambda>s. unwrap_or (sc_channel_count s) 0)) (\<lambda>n. alift (u64_add n 1))"

definition open_channel ::
  "'w channel_ext \<Rightarrow> env \<Rightarrow> address \<Rightarrow> address \<Rightarrow> bytes \<Rightarrow> i128 \<Rightarrow> u32 \<Rightarrow> ('w channels, u64) act" where
  "open_channel X E sender receiver sender_pubkey amount challenge_period =
     aseq (arefuse (amount \<le> 0) InvalidAmount)
     (aseq (alift (require_auth E sender))
     (abind token_address (\<lambda>tok.
      aseq (move_tokens X tok sender (current_contract_address E) amount)
      (abind next_channel_id (\<lambda>channel_id.
       let effective_challenge = effective_challenge_period challenge_period in
       aseq (store_channel channel_id
         \<lparr>ch_sender = sender, ch_receiver = receiver, ch_amount = amount, ch_nonce = 0, ch_balance = 0,
          ch_phase = Open, ch_opened_at = sequence E, ch_closed_at = 0, ch_disputed_at = 0,
          ch_dispute_extensions = 0, ch_challenge_period = effective_challenge,
          ch_sender_pubkey = sender_pubkey, ch_nonce_window = empty_window\<rparr>)
       (aseq (amodify (\<lambda>s. s\<lparr>sc_channel_count := Some channel_id\<rparr>))
       (aseq (emit (ChannelOpenedEvent channel_id sender receiver amount effective_challenge))
       (aret channel_id))))))))"

text \<open>The ceiling every signed state has to respect, checked additions included.\<close>

definition exceeds_escrow :: "'w channels \<Rightarrow> u64 \<Rightarrow> channel \<Rightarrow> i128 \<Rightarrow> bool" where
  "exceeds_escrow s channel_id c balance = (balance < 0 \<or>
     (case i128_checked (balance + htlc_reserved s channel_id) of None \<Rightarrow> True
      | Some committed \<Rightarrow> (case i128_checked (committed + hashlock_reserved s channel_id) of None \<Rightarrow> True
          | Some committed \<Rightarrow> committed > ch_amount c)))"

definition refuse_exceeding :: "u64 \<Rightarrow> channel \<Rightarrow> i128 \<Rightarrow> ('w channels, unit) act" where
  "refuse_exceeding channel_id c balance =
     abind (aread (\<lambda>s. exceeds_escrow s channel_id c balance)) (\<lambda>b. arefuse b ExceedsPayment)"

text \<open>A state that must be newer: within the escrow, not below the recorded balance, with a fresh nonce.\<close>

definition newer_state :: "u64 \<Rightarrow> channel \<Rightarrow> state_update \<Rightarrow> ('w channels, channel) act" where
  "newer_state channel_id c state =
     aseq (refuse_exceeding channel_id c (su_balance state))
     (aseq (arefuse (su_balance state < ch_balance c) StaleState)
     (abind (alift (consume (ch_nonce_window c) (su_nonce state))) (\<lambda>w.
      aret (c\<lparr>ch_nonce_window := w, ch_nonce := max (ch_nonce c) (su_nonce state),
        ch_balance := su_balance state\<rparr>))))"

definition update_with ::
  "u64 \<Rightarrow> state_update \<Rightarrow> (channel \<Rightarrow> unit outcome) \<Rightarrow> ('w channels, unit) act" where
  "update_with channel_id state verify =
     abind (get_channel_internal channel_id) (\<lambda>c.
     aseq (arefuse (ch_phase c \<noteq> Open) ChannelNotOpen)
     (aseq (alift (verify c))
     (abind (newer_state channel_id c state) (\<lambda>c.
      aseq (store_channel channel_id c)
      (emit (StateUpdatedEvent channel_id (su_nonce state) (su_balance state)))))))"

definition update_state ::
  "'w channel_ext \<Rightarrow> u64 \<Rightarrow> state_update \<Rightarrow> bytes \<Rightarrow> ('w channels, unit) act" where
  "update_state X channel_id state signature =
     update_with channel_id state (\<lambda>c. verify_state_signature X c state signature)"

definition update_state_delegated ::
  "'w channel_ext \<Rightarrow> env \<Rightarrow> u64 \<Rightarrow> state_update \<Rightarrow> bytes \<Rightarrow> delegation_certificate \<Rightarrow> bytes \<Rightarrow>
    ('w channels, unit) act" where
  "update_state_delegated X E channel_id state signature cert cert_signature =
     update_with channel_id state (\<lambda>c.
       verify_delegated_state_signature X E c channel_id state signature cert cert_signature)"

definition max_channel_lifetime :: "'w channels \<Rightarrow> u32" where
  "max_channel_lifetime s = unwrap_or (sc_max_channel_lifetime s) DEFAULT_MAX_CHANNEL_LIFETIME"

definition closing_channel ::
  "env \<Rightarrow> u64 \<Rightarrow> state_update \<Rightarrow> (channel \<Rightarrow> unit outcome) \<Rightarrow> ('w channels, channel) act" where
  "closing_channel E channel_id state verify =
     abind (get_channel_internal channel_id) (\<lambda>c.
     aseq (arefuse (ch_phase c \<noteq> Open) ChannelNotOpen)
     (abind (aread max_channel_lifetime) (\<lambda>max_lifetime.
      abind (alift (u32_add (ch_opened_at c) max_lifetime)) (\<lambda>expiry.
      aseq (arefuse (sequence E > expiry) ChannelExpired)
      (aseq (alift (verify c))
      (aseq (refuse_exceeding channel_id c (su_balance state))
      (aret c)))))))"

text \<open>\<open>let _ = channel.nonce_window.consume(..)\<close>: a refused nonce leaves the window as it is.\<close>

definition consume_best_effort :: "nonce_window \<Rightarrow> u64 \<Rightarrow> nonce_window" where
  "consume_best_effort w nonce = (case consume w nonce of Ok w' \<Rightarrow> w' | _ \<Rightarrow> w)"

definition record_close ::
  "env \<Rightarrow> u64 \<Rightarrow> channel \<Rightarrow> u64 \<Rightarrow> i128 \<Rightarrow> ('w channels, unit) act" where
  "record_close E channel_id c nonce balance =
     aseq (store_channel channel_id (c\<lparr>ch_nonce_window := consume_best_effort (ch_nonce_window c) nonce,
       ch_nonce := max (ch_nonce c) nonce, ch_balance := balance, ch_phase := Closed,
       ch_closed_at := sequence E\<rparr>))
     (emit (ChannelClosedEvent channel_id balance (sequence E)))"

definition close_channel ::
  "'w channel_ext \<Rightarrow> env \<Rightarrow> u64 \<Rightarrow> state_update \<Rightarrow> bytes \<Rightarrow> ('w channels, unit) act" where
  "close_channel X E channel_id state signature =
     abind (closing_channel E channel_id state (\<lambda>c. verify_state_signature X c state signature)) (\<lambda>c.
     record_close E channel_id c (su_nonce state) (su_balance state))"

definition close_channel_delegated ::
  "'w channel_ext \<Rightarrow> env \<Rightarrow> u64 \<Rightarrow> state_update \<Rightarrow> bytes \<Rightarrow> delegation_certificate \<Rightarrow> bytes \<Rightarrow>
    ('w channels, unit) act" where
  "close_channel_delegated X E channel_id state signature cert cert_signature =
     abind (closing_channel E channel_id state (\<lambda>c.
       verify_delegated_state_signature X E c channel_id state signature cert cert_signature)) (\<lambda>c.
     record_close E channel_id c (su_nonce state) (su_balance state))"

section \<open>Disputes\<close>

definition dispute ::
  "'w channel_ext \<Rightarrow> env \<Rightarrow> u64 \<Rightarrow> state_update \<Rightarrow> bytes \<Rightarrow> ('w channels, unit) act" where
  "dispute X E channel_id state signature =
     abind (get_channel_internal channel_id) (\<lambda>c.
     aseq (arefuse (ch_phase c \<noteq> Closed) ChannelNotOpen)
     (aseq (alift (ensure_window_open E (ch_closed_at c) (ch_challenge_period c)))
     (aseq (alift (verify_state_signature X c state signature))
     (abind (newer_state channel_id c state) (\<lambda>c.
      aseq (store_channel channel_id (c\<lparr>ch_phase := Disputed, ch_disputed_at := sequence E,
        ch_dispute_extensions := 0\<rparr>))
      (emit (DisputeEvent channel_id (su_nonce state) (su_balance state) (sequence E))))))))"

definition submit_counter_evidence ::
  "'w channel_ext \<Rightarrow> env \<Rightarrow> u64 \<Rightarrow> state_update \<Rightarrow> bytes \<Rightarrow> ('w channels, unit) act" where
  "submit_counter_evidence X E channel_id state signature =
     abind (get_channel_internal channel_id) (\<lambda>c.
     aseq (arefuse (ch_phase c \<noteq> Disputed) ChannelNotOpen)
     (aseq (alift (ensure_window_open E (ch_disputed_at c) (ch_challenge_period c)))
     (aseq (alift (verify_state_signature X c state signature))
     (abind (newer_state channel_id c state) (\<lambda>c.
      abind (alift (extend_window_on_late_counter_proof E (ch_disputed_at c) (ch_challenge_period c)
        (ch_dispute_extensions c))) (\<lambda>(window_started, extensions).
      aseq (store_channel channel_id (c\<lparr>ch_disputed_at := window_started,
        ch_dispute_extensions := extensions\<rparr>))
      (emit (StateUpdatedEvent channel_id (su_nonce state) (su_balance state)))))))))"

subsection \<open>Watchtower bounties\<close>

definition MAX_REWARD_BPS :: u32 where
  "MAX_REWARD_BPS = 2000"

definition reward_bps :: "'w channels \<Rightarrow> u64 \<Rightarrow> u32" where
  "reward_bps s channel_id = (case sc_bounty s channel_id of Some b \<Rightarrow> wb_reward_bps b | None \<Rightarrow> 0)"

definition store_bounty :: "u64 \<Rightarrow> watchtower_bounty \<Rightarrow> ('w channels, unit) act" where
  "store_bounty channel_id b = amodify (\<lambda>s. s\<lparr>sc_bounty := (sc_bounty s)(channel_id \<mapsto> b)\<rparr>)"

definition set_watchtower_bounty :: "env \<Rightarrow> u64 \<Rightarrow> u32 \<Rightarrow> ('w channels, unit) act" where
  "set_watchtower_bounty E channel_id bps =
     abind (get_channel_internal channel_id) (\<lambda>c.
     aseq (arefuse (ch_phase c = Finalized) ChannelAlreadyClosed)
     (aseq (alift (require_auth E (ch_receiver c)))
     (aseq (arefuse (bps > MAX_REWARD_BPS) InvalidRatio)
     (abind (aread (\<lambda>s. sc_bounty s channel_id)) (\<lambda>existing.
      aseq (store_bounty channel_id \<lparr>wb_reward_bps = bps,
        wb_watchtower = Option.bind existing wb_watchtower\<rparr>)
      (emit (WatchtowerBountySetEvent channel_id bps)))))))"

definition record_watchtower :: "u64 \<Rightarrow> address \<Rightarrow> ('w channels, unit) act" where
  "record_watchtower channel_id watchtower =
     abind (aread (\<lambda>s. reward_bps s channel_id)) (\<lambda>bps.
     store_bounty channel_id \<lparr>wb_reward_bps = bps, wb_watchtower = Some watchtower\<rparr>)"

definition take_reward :: "u64 \<Rightarrow> i128 \<Rightarrow> ('w channels, i128 \<times> i128 \<times> address option) act" where
  "take_reward channel_id receiver_payout =
     abind (aread (\<lambda>s. sc_bounty s channel_id)) (\<lambda>b. case b of
       None \<Rightarrow> aret (0, receiver_payout, None)
     | Some bounty \<Rightarrow> (case wb_watchtower bounty of
         None \<Rightarrow> aret (0, receiver_payout, None)
       | Some watchtower \<Rightarrow>
           if wb_reward_bps bounty = 0 \<or> receiver_payout \<le> 0
           then aseq (store_bounty channel_id (bounty\<lparr>wb_watchtower := None\<rparr>)) (aret (0, receiver_payout, None))
           else abind (alift (ok_or (i128_checked (receiver_payout * int (wb_reward_bps bounty))) MathOverflow)) (\<lambda>m.
             let reward = trunc_div m 10000 in
             aseq (store_bounty channel_id (bounty\<lparr>wb_watchtower := None\<rparr>))
             (aseq (emit (WatchtowerRewardEvent channel_id watchtower reward))
             (abind (alift (i128_op (receiver_payout - reward))) (\<lambda>rest.
              aret (reward, rest, Some watchtower)))))))"

definition watchtower_counter_evidence ::
  "'w channel_ext \<Rightarrow> env \<Rightarrow> u64 \<Rightarrow> state_update \<Rightarrow> bytes \<Rightarrow> address \<Rightarrow> ('w channels, unit) act" where
  "watchtower_counter_evidence X E channel_id state signature watchtower =
     aseq (alift (require_auth E watchtower))
     (aseq (submit_counter_evidence X E channel_id state signature)
     (record_watchtower channel_id watchtower))"

section \<open>Settlement\<close>

definition finalize_dispute :: "'w channel_ext \<Rightarrow> env \<Rightarrow> u64 \<Rightarrow> ('w channels, unit) act" where
  "finalize_dispute X E channel_id =
     (let this = current_contract_address E in
      aseq lock_channels
      (abind (get_channel_internal channel_id) (\<lambda>c.
       aseq (arefuse (ch_phase c \<noteq> Disputed) ChannelNotOpen)
       (aseq (alift (ensure_window_elapsed E (ch_disputed_at c) (ch_challenge_period c)))
       (abind token_address (\<lambda>tok.
        abind (alift (i128_op (ch_amount c - ch_balance c))) (\<lambda>sender_refund.
        abind (take_reward channel_id (ch_balance c)) (\<lambda>(watchtower_reward, receiver_payout, watchtower_addr).
        aseq (pay_if_positive X tok this (ch_receiver c) receiver_payout)
        (aseq (pay_if_positive X tok this (ch_sender c) sender_refund)
        (aseq (case watchtower_addr of
                 Some watchtower \<Rightarrow> pay_if_positive X tok this watchtower watchtower_reward
               | None \<Rightarrow> aret ())
        (aseq (store_channel channel_id (c\<lparr>ch_phase := Finalized\<rparr>))
        (aseq (emit (DisputeFinalizedEvent channel_id receiver_payout sender_refund))
        unlock_channels))))))))))))"

definition claim :: "'w channel_ext \<Rightarrow> env \<Rightarrow> u64 \<Rightarrow> ('w channels, unit) act" where
  "claim X E channel_id =
     aseq lock_channels
     (abind (get_channel_internal channel_id) (\<lambda>c.
      aseq (arefuse (ch_phase c \<noteq> Closed) ChallengeActive)
      (abind (alift (u32_add (ch_closed_at c) (ch_challenge_period c))) (\<lambda>deadline.
       aseq (arefuse (sequence E \<le> deadline) ChallengeActive)
       (abind token_address (\<lambda>tok.
        aseq (pay_if_positive X tok (current_contract_address E) (ch_receiver c) (ch_balance c))
        (aseq (store_channel channel_id (c\<lparr>ch_phase := Finalized\<rparr>))
        (aseq (emit (ClaimEvent channel_id (ch_balance c) (ch_receiver c)))
        unlock_channels))))))))"

definition reclaim :: "'w channel_ext \<Rightarrow> env \<Rightarrow> u64 \<Rightarrow> ('w channels, unit) act" where
  "reclaim X E channel_id =
     aseq lock_channels
     (abind (get_channel_internal channel_id) (\<lambda>c.
      aseq (arefuse (ch_phase c \<noteq> Open) ChannelAlreadyClosed)
      (abind (aread max_channel_lifetime) (\<lambda>max_lifetime.
       abind (alift (u32_add (ch_opened_at c) max_lifetime)) (\<lambda>expiry.
       aseq (arefuse (sequence E \<le> expiry) ChannelNotOpen)
       (abind token_address (\<lambda>tok.
        abind (alift (i128_op (ch_amount c - ch_balance c))) (\<lambda>refund.
        aseq (store_channel channel_id (c\<lparr>ch_phase := Finalized\<rparr>))
        (aseq (pay_if_positive X tok (current_contract_address E) (ch_sender c) refund)
        unlock_channels)))))))))"

section \<open>Splicing\<close>

definition load_open_channel :: "u64 \<Rightarrow> ('w channels, channel) act" where
  "load_open_channel channel_id = abind (get_channel_internal channel_id) (\<lambda>c.
     aseq (arefuse (ch_phase c \<noteq> Open) ChannelNotOpen) (aret c))"

definition free_balance :: "'w channels \<Rightarrow> u64 \<Rightarrow> channel \<Rightarrow> i128 outcome" where
  "free_balance s channel_id c =
     obind (ok_or (i128_checked (ch_amount c - ch_balance c)) MathOverflow) (\<lambda>x.
     obind (ok_or (i128_checked (x - htlc_reserved s channel_id)) MathOverflow) (\<lambda>x.
     ok_or (i128_checked (x - hashlock_reserved s channel_id)) MathOverflow))"

definition splice_in :: "'w channel_ext \<Rightarrow> env \<Rightarrow> u64 \<Rightarrow> i128 \<Rightarrow> ('w channels, unit) act" where
  "splice_in X E channel_id amount =
     abind (load_open_channel channel_id) (\<lambda>c.
     aseq (alift (require_auth E (ch_sender c)))
     (aseq (alift (require_auth E (ch_receiver c)))
     (aseq (arefuse (amount \<le> 0) InvalidAmount)
     (abind token_address (\<lambda>tok.
      aseq (move_tokens X tok (ch_sender c) (current_contract_address E) amount)
      (abind (alift (ok_or (i128_checked (ch_amount c + amount)) MathOverflow)) (\<lambda>new_amount.
       aseq (store_channel channel_id (c\<lparr>ch_amount := new_amount\<rparr>))
       (emit (ChannelSplicedInEvent channel_id amount new_amount)))))))))"

definition splice_out :: "'w channel_ext \<Rightarrow> env \<Rightarrow> u64 \<Rightarrow> i128 \<Rightarrow> ('w channels, unit) act" where
  "splice_out X E channel_id amount =
     abind (load_open_channel channel_id) (\<lambda>c.
     aseq (alift (require_auth E (ch_sender c)))
     (aseq (alift (require_auth E (ch_receiver c)))
     (aseq (arefuse (amount \<le> 0) InvalidAmount)
     (abind (aread (\<lambda>s. free_balance s channel_id c)) (\<lambda>f.
      abind (alift f) (\<lambda>free.
      aseq (arefuse (amount > free) InsufficientChannelBalance)
      (abind (alift (i128_op (ch_amount c - amount))) (\<lambda>new_amount.
       aseq (store_channel channel_id (c\<lparr>ch_amount := new_amount\<rparr>))
       (abind token_address (\<lambda>tok.
        aseq (move_tokens X tok (current_contract_address E) (ch_sender c) amount)
        (emit (ChannelSplicedOutEvent channel_id amount new_amount))))))))))))"

section \<open>Mutual close\<close>

definition close_payload :: "'w channel_ext \<Rightarrow> address \<Rightarrow> mutual_close_state \<Rightarrow> bytes" where
  "close_payload X contract state = map of_char ''accensa-mutual-close-v1'' @ cx_address_xdr X contract @
     be_bytes 8 (mc_channel_id state) @ i128_be_bytes (mc_receiver_balance state) @
     i128_be_bytes (mc_sender_balance state)"

definition register_receiver_key :: "env \<Rightarrow> u64 \<Rightarrow> bytes \<Rightarrow> ('w channels, unit) act" where
  "register_receiver_key E channel_id pubkey =
     abind (get_channel_internal channel_id) (\<lambda>c.
     aseq (alift (require_auth E (ch_receiver c)))
     (aseq (arefuse (ch_phase c = Finalized) ChannelAlreadyClosed)
     (amodify (\<lambda>s. s\<lparr>sc_receiver_pubkey := (sc_receiver_pubkey s)(channel_id \<mapsto> pubkey)\<rparr>))))"

definition mutual_close ::
  "'w channel_ext \<Rightarrow> env \<Rightarrow> mutual_close_state \<Rightarrow> bytes \<Rightarrow> bytes \<Rightarrow> ('w channels, unit) act" where
  "mutual_close X E state sender_sig receiver_sig =
     (let channel_id = mc_channel_id state; this = current_contract_address E in
      abind (get_channel_internal channel_id) (\<lambda>c.
      aseq (arefuse (ch_phase c = Finalized) ChannelAlreadyClosed)
      (abind (aread (\<lambda>s. sc_receiver_pubkey s channel_id)) (\<lambda>k.
       abind (alift (ok_or k InvalidSignature)) (\<lambda>receiver_pubkey.
       aseq (arefuse (mc_receiver_balance state < 0 \<or> mc_sender_balance state < 0 \<or>
               i128_checked (mc_receiver_balance state + mc_sender_balance state) \<noteq> Some (ch_amount c)) ExceedsPayment)
       (aseq (alift (verify_signatures X (close_payload X this state)
               [ch_sender_pubkey c, receiver_pubkey] [sender_sig, receiver_sig]))
       (aseq (amodify (\<lambda>s. s\<lparr>sc_channel := (sc_channel s)(channel_id := None),
               sc_receiver_pubkey := (sc_receiver_pubkey s)(channel_id := None)\<rparr>))
       (abind token_address (\<lambda>tok.
        aseq (pay_if_positive X tok this (ch_receiver c) (mc_receiver_balance state))
        (aseq (pay_if_positive X tok this (ch_sender c) (mc_sender_balance state))
        (emit (ChannelClosedCooperative channel_id (mc_receiver_balance state) (mc_sender_balance state)))))))))))))"

section \<open>Reads\<close>

definition get_channel :: "'w channels \<Rightarrow> u64 \<Rightarrow> channel outcome" where
  "get_channel s channel_id = ok_or (sc_channel s channel_id) ChannelNotFound"

definition get_nonce_window :: "'w channels \<Rightarrow> u64 \<Rightarrow> nonce_window outcome" where
  "get_nonce_window s channel_id = obind (get_channel s channel_id) (\<lambda>c. Ok (ch_nonce_window c))"

definition get_channel_count :: "'w channels \<Rightarrow> u64" where
  "get_channel_count s = unwrap_or (sc_channel_count s) 0"

definition get_channel_free_balance :: "'w channels \<Rightarrow> u64 \<Rightarrow> i128 outcome" where
  "get_channel_free_balance s channel_id = obind (get_channel s channel_id) (\<lambda>c. free_balance s channel_id c)"

definition get_reserved_escrow :: "'w channels \<Rightarrow> u64 \<Rightarrow> i128 outcome" where
  "get_reserved_escrow s channel_id = obind (get_channel s channel_id) (\<lambda>c.
     ok_or (Option.bind (i128_checked (ch_balance c + htlc_reserved s channel_id)) (\<lambda>b.
       i128_checked (b + hashlock_reserved s channel_id))) MathOverflow)"

definition verify_zk_commitment ::
  "'w channel_ext \<Rightarrow> 'w channels \<Rightarrow> u64 \<Rightarrow> bytes \<Rightarrow> i128 \<Rightarrow> bytes \<Rightarrow> unit outcome" where
  "verify_zk_commitment X s channel_id commitment value blinding_factor =
     obind (get_channel s channel_id) (\<lambda>c.
     if ch_phase c \<noteq> Open \<and> ch_phase c \<noteq> Disputed then Err ChannelNotOpen
     else if cx_sha256 X (cx_i128_xdr X value @ blinding_factor) \<noteq> commitment then Err InvalidSignature
     else if value < 0 \<or> value > ch_balance c then Err InvalidAmount
     else Ok ())"

end
