(* ===== verification/Channel_Htlc.thy ===== *)
theory Channel_Htlc
  imports Channel_Ops
begin

text \<open>
  Conditional payments on a channel: timed hash locks (\<open>state-channel/src/htlc.rs\<close>), invoices that a
  revealed preimage settles (\<open>hashlock.rs\<close>, with the close that reveals one) and sub-channels
  (\<open>subchannel.rs\<close>). No tokens move here; each reserves part of the channel's escrow.
\<close>

section \<open>Hash time locks\<close>

definition set_htlc_reserved :: "u64 \<Rightarrow> i128 \<Rightarrow> ('w channels, unit) act" where
  "set_htlc_reserved channel_id amount =
     amodify (\<lambda>s. s\<lparr>sc_htlc_reserved := (sc_htlc_reserved s)(channel_id \<mapsto> amount)\<rparr>)"

definition store_htlc :: "htlc \<Rightarrow> ('w channels, unit) act" where
  "store_htlc h = amodify (\<lambda>s. s\<lparr>sc_htlc := (sc_htlc s)((hl_channel_id h, hl_htlc_id h) \<mapsto> h)\<rparr>)"

definition load_htlc :: "u64 \<Rightarrow> u64 \<Rightarrow> ('w channels, htlc) act" where
  "load_htlc channel_id htlc_id = abind (aread (\<lambda>s. sc_htlc s (channel_id, htlc_id))) (\<lambda>h.
     alift (ok_or h HtlcNotFound))"

text \<open>A linked hop must expire strictly before its pending upstream parent.\<close>

definition check_parent :: "u32 \<Rightarrow> u64 \<Rightarrow> u64 \<Rightarrow> ('w channels, unit) act" where
  "check_parent timeout_ledger parent_channel_id parent_htlc_id =
     (if parent_channel_id \<noteq> 0
      then abind (load_htlc parent_channel_id parent_htlc_id) (\<lambda>p.
        aseq (arefuse (hl_state p \<noteq> HtlcPending) HtlcNotPending)
        (arefuse (timeout_ledger \<ge> hl_timeout_ledger p) HtlcTimeoutOutOfOrder))
      else aret ())"

definition add_htlc ::
  "env \<Rightarrow> u64 \<Rightarrow> bytes \<Rightarrow> i128 \<Rightarrow> u32 \<Rightarrow> htlc_ref option \<Rightarrow> ('w channels, u64) act" where
  "add_htlc E channel_id hash_lock amount timeout_ledger parent =
     abind (get_channel_internal channel_id) (\<lambda>c.
     aseq (arefuse (ch_phase c \<noteq> Open) ChannelNotOpen)
     (aseq (alift (require_auth E (ch_sender c)))
     (aseq (arefuse (amount \<le> 0) InvalidAmount)
     (aseq (arefuse (timeout_ledger \<le> sequence E) HtlcTimeoutElapsed)
     (abind (aread (\<lambda>s. htlc_reserved s channel_id)) (\<lambda>already_reserved.
      abind (alift (ok_or (i128_checked (ch_balance c + already_reserved)) MathOverflow)) (\<lambda>committed.
      aseq (arefuse (case i128_checked (committed + amount) of None \<Rightarrow> True | Some t \<Rightarrow> t > ch_amount c)
              HtlcInsufficientEscrow)
      (let (parent_channel_id, parent_htlc_id) =
         (case parent of Some p \<Rightarrow> (hr_channel_id p, hr_htlc_id p) | None \<Rightarrow> (0, 0)) in
       aseq (check_parent timeout_ledger parent_channel_id parent_htlc_id)
       (abind (aread (\<lambda>s. unwrap_or (sc_htlc_count s channel_id) 0)) (\<lambda>n.
        abind (alift (u64_add n 1)) (\<lambda>htlc_id.
        aseq (amodify (\<lambda>s. s\<lparr>sc_htlc_count := (sc_htlc_count s)(channel_id \<mapsto> htlc_id)\<rparr>))
        (aseq (store_htlc \<lparr>hl_channel_id = channel_id, hl_htlc_id = htlc_id, hl_hash_lock = hash_lock,
                 hl_amount = amount, hl_timeout_ledger = timeout_ledger, hl_state = HtlcPending,
                 hl_parent_channel_id = parent_channel_id, hl_parent_htlc_id = parent_htlc_id\<rparr>)
        (abind (alift (math_q (add_amounts already_reserved amount))) (\<lambda>reserved.
         aseq (set_htlc_reserved channel_id reserved)
         (aseq (emit (HtlcAddedEvent channel_id htlc_id hash_lock amount timeout_ledger
                  parent_channel_id parent_htlc_id))
         (aret htlc_id))))))))))))))))"

definition resolve_htlc ::
  "'w channel_ext \<Rightarrow> u64 \<Rightarrow> u64 \<Rightarrow> bytes \<Rightarrow> ('w channels, unit) act" where
  "resolve_htlc X channel_id htlc_id preimage =
     abind (load_htlc channel_id htlc_id) (\<lambda>h.
     aseq (arefuse (hl_state h \<noteq> HtlcPending) HtlcNotPending)
     (aseq (arefuse (\<not> constant_time_eq (cx_sha256 X preimage) (hl_hash_lock h)) InvalidPreimage)
     (abind (get_channel_internal channel_id) (\<lambda>c.
      aseq (arefuse (ch_phase c \<noteq> Open) ChannelNotOpen)
      (abind (aread (\<lambda>s. htlc_reserved s channel_id)) (\<lambda>r.
       abind (alift (i128_op (r - hl_amount h))) (\<lambda>r.
       aseq (set_htlc_reserved channel_id r)
       (abind (alift (ok_or (i128_checked (ch_balance c + hl_amount h)) MathOverflow)) (\<lambda>balance.
        aseq (store_htlc (h\<lparr>hl_state := HtlcResolved\<rparr>))
        (aseq (store_channel channel_id (c\<lparr>ch_balance := balance\<rparr>))
        (emit (HtlcResolvedEvent channel_id htlc_id (hl_amount h)))))))))))))"

text \<open>\<open>htlc::refund\<close> inside the reentrancy lock, which an error leaves to the host's rollback.\<close>

definition refund_htlc :: "env \<Rightarrow> u64 \<Rightarrow> u64 \<Rightarrow> ('w channels, unit) act" where
  "refund_htlc E channel_id htlc_id =
     aseq lock_channels
     (abind (load_htlc channel_id htlc_id) (\<lambda>h.
      aseq (arefuse (hl_state h \<noteq> HtlcPending) HtlcNotPending)
      (aseq (arefuse (sequence E \<le> hl_timeout_ledger h) HtlcNotExpired)
      (aseq (get_channel_internal channel_id)
      (abind (aread (\<lambda>s. htlc_reserved s channel_id)) (\<lambda>r.
       abind (alift (i128_op (r - hl_amount h))) (\<lambda>r.
       aseq (set_htlc_reserved channel_id r)
       (aseq (store_htlc (h\<lparr>hl_state := HtlcRefunded\<rparr>))
       (aseq (emit (HtlcRefundedEvent channel_id htlc_id (hl_amount h)))
       unlock_channels)))))))))"

definition get_htlc :: "'w channels \<Rightarrow> u64 \<Rightarrow> u64 \<Rightarrow> htlc outcome" where
  "get_htlc s channel_id htlc_id = ok_or (sc_htlc s (channel_id, htlc_id)) HtlcNotFound"

section \<open>Hashlock payments\<close>

definition set_hashlock_reserved :: "u64 \<Rightarrow> i128 \<Rightarrow> ('w channels, unit) act" where
  "set_hashlock_reserved channel_id amount =
     amodify (\<lambda>s. s\<lparr>sc_hashlock_reserved := (sc_hashlock_reserved s)(channel_id \<mapsto> amount)\<rparr>)"

definition store_payment :: "hashlock_payment \<Rightarrow> ('w channels, unit) act" where
  "store_payment p = amodify (\<lambda>s. s\<lparr>sc_hashlock_payment :=
     (sc_hashlock_payment s)((hp_channel_id p, hp_payment_id p) \<mapsto> p)\<rparr>)"

definition load_payment :: "u64 \<Rightarrow> u64 \<Rightarrow> ('w channels, hashlock_payment) act" where
  "load_payment channel_id payment_id = abind (aread (\<lambda>s. sc_hashlock_payment s (channel_id, payment_id))) (\<lambda>p.
     alift (ok_or p HtlcNotFound))"

definition verify_preimage :: "'w channel_ext \<Rightarrow> bytes \<Rightarrow> bytes \<Rightarrow> unit outcome" where
  "verify_preimage X hashlock preimage = (if cx_sha256 X preimage \<noteq> hashlock then Err InvalidPreimage else Ok ())"

definition add_hashlock_payment ::
  "env \<Rightarrow> u64 \<Rightarrow> bytes \<Rightarrow> i128 \<Rightarrow> ('w channels, u64) act" where
  "add_hashlock_payment E channel_id hashlock amount =
     abind (get_channel_internal channel_id) (\<lambda>c.
     aseq (arefuse (ch_phase c \<noteq> Open) ChannelNotOpen)
     (aseq (alift (require_auth E (ch_sender c)))
     (aseq (arefuse (amount \<le> 0) InvalidAmount)
     (abind (aread (\<lambda>s. htlc_reserved s channel_id)) (\<lambda>htlc.
      abind (aread (\<lambda>s. hashlock_reserved s channel_id)) (\<lambda>already_reserved.
      abind (alift (ok_or (i128_checked (ch_balance c + htlc)) MathOverflow)) (\<lambda>x.
      abind (alift (ok_or (i128_checked (x + already_reserved)) MathOverflow)) (\<lambda>committed.
      aseq (arefuse (case i128_checked (committed + amount) of None \<Rightarrow> True | Some t \<Rightarrow> t > ch_amount c)
              HtlcInsufficientEscrow)
      (abind (aread (\<lambda>s. unwrap_or (sc_hashlock_payment_count s channel_id) 0)) (\<lambda>n.
       abind (alift (u64_add n 1)) (\<lambda>payment_id.
       aseq (amodify (\<lambda>s. s\<lparr>sc_hashlock_payment_count := (sc_hashlock_payment_count s)(channel_id \<mapsto> payment_id)\<rparr>))
       (aseq (store_payment \<lparr>hp_channel_id = channel_id, hp_payment_id = payment_id, hp_hashlock = hashlock,
                hp_amount = amount, hp_state = PaymentPending\<rparr>)
       (abind (alift (math_q (add_amounts already_reserved amount))) (\<lambda>reserved.
        aseq (set_hashlock_reserved channel_id reserved)
        (aseq (emit (HashlockPaymentAddedEvent channel_id payment_id hashlock amount))
        (aret payment_id))))))))))))))))"

definition resolve_payment ::
  "'w channel_ext \<Rightarrow> u64 \<Rightarrow> u64 \<Rightarrow> bytes \<Rightarrow> ('w channels, i128) act" where
  "resolve_payment X channel_id payment_id preimage =
     abind (load_payment channel_id payment_id) (\<lambda>p.
     aseq (arefuse (hp_state p \<noteq> PaymentPending) HtlcNotPending)
     (aseq (alift (verify_preimage X (hp_hashlock p) preimage))
     (abind (get_channel_internal channel_id) (\<lambda>c.
      aseq (arefuse (ch_phase c \<noteq> Open) ChannelNotOpen)
      (abind (aread (\<lambda>s. hashlock_reserved s channel_id)) (\<lambda>r.
       abind (alift (i128_op (r - hp_amount p))) (\<lambda>r.
       aseq (set_hashlock_reserved channel_id r)
       (abind (alift (ok_or (i128_checked (ch_balance c + hp_amount p)) MathOverflow)) (\<lambda>balance.
        aseq (store_payment (p\<lparr>hp_state := PaymentResolved\<rparr>))
        (aseq (store_channel channel_id (c\<lparr>ch_balance := balance\<rparr>))
        (aseq (emit (HashlockPaymentRevealedEvent channel_id payment_id (hp_amount p) (hp_hashlock p)))
        (aret (hp_amount p)))))))))))))"

definition close_channel_with_preimage ::
  "'w channel_ext \<Rightarrow> env \<Rightarrow> u64 \<Rightarrow> state_update \<Rightarrow> bytes \<Rightarrow> u64 \<Rightarrow> bytes \<Rightarrow> ('w channels, unit) act" where
  "close_channel_with_preimage X E channel_id state signature payment_id preimage =
     abind (closing_channel E channel_id state (\<lambda>c. verify_state_signature X c state signature)) (\<lambda>c.
     abind (resolve_payment X channel_id payment_id preimage) (\<lambda>revealed.
     abind (alift (ok_or (i128_checked (su_balance state + revealed)) ExceedsPayment)) (\<lambda>final_receiver_balance.
     record_close E channel_id c (su_nonce state) final_receiver_balance)))"

definition get_hashlock_payment :: "'w channels \<Rightarrow> u64 \<Rightarrow> u64 \<Rightarrow> hashlock_payment outcome" where
  "get_hashlock_payment s channel_id payment_id = ok_or (sc_hashlock_payment s (channel_id, payment_id)) HtlcNotFound"

section \<open>Sub-channels\<close>

definition active_subchannels :: "'w channels \<Rightarrow> u64 \<Rightarrow> u32" where
  "active_subchannels s parent_channel_id = unwrap_or (sc_sub_active s parent_channel_id) 0"

definition get_subchannel :: "u64 \<Rightarrow> ('w channels, subchannel) act" where
  "get_subchannel subchannel_id = abind (aread (\<lambda>s. sc_subchannel s subchannel_id)) (\<lambda>b.
     alift (ok_or b ChannelNotFound))"

definition store_subchannel :: "u64 \<Rightarrow> subchannel \<Rightarrow> ('w channels, unit) act" where
  "store_subchannel subchannel_id b = amodify (\<lambda>s. s\<lparr>sc_subchannel := (sc_subchannel s)(subchannel_id \<mapsto> b)\<rparr>)"

definition open_subchannel :: "env \<Rightarrow> u64 \<Rightarrow> address \<Rightarrow> i128 \<Rightarrow> ('w channels, u64) act" where
  "open_subchannel E parent_channel_id receiver amount =
     abind (get_channel_internal parent_channel_id) (\<lambda>parent.
     aseq (arefuse (ch_phase parent \<noteq> Open) ChannelNotOpen)
     (aseq (alift (require_auth E (ch_sender parent)))
     (aseq (arefuse (amount \<le> 0) InvalidAmount)
     (abind (aread (\<lambda>s. sub_reserved s parent_channel_id)) (\<lambda>reserved.
      abind (alift (ok_or (i128_checked (ch_balance parent + reserved)) MathOverflow)) (\<lambda>committed.
      aseq (arefuse (case i128_checked (committed + amount) of None \<Rightarrow> True | Some t \<Rightarrow> t > ch_amount parent)
              HtlcInsufficientEscrow)
      (abind (aread (\<lambda>s. unwrap_or (sc_subchannel_count s) 0)) (\<lambda>n.
       abind (alift (u64_add n 1)) (\<lambda>subchannel_id.
       aseq (amodify (\<lambda>s. s\<lparr>sc_subchannel_count := Some subchannel_id\<rparr>))
       (aseq (store_subchannel subchannel_id
          \<lparr>sb_subchannel_id = subchannel_id, sb_parent_channel_id = parent_channel_id,
           sb_sender = ch_sender parent, sb_receiver = receiver, sb_amount = amount,
           sb_parent_sequence = ch_nonce parent, sb_nonce = 0, sb_balance = 0, sb_settled = False\<rparr>)
       (abind (alift (ok_or (i128_checked (reserved + amount)) MathOverflow)) (\<lambda>new_reserved.
        aseq (amodify (\<lambda>s. s\<lparr>sc_sub_reserved := (sc_sub_reserved s)(parent_channel_id \<mapsto> new_reserved)\<rparr>))
        (abind (aread (\<lambda>s. active_subchannels s parent_channel_id)) (\<lambda>k.
         abind (alift (u32_add k 1)) (\<lambda>active_count.
         aseq (amodify (\<lambda>s. s\<lparr>sc_sub_active := (sc_sub_active s)(parent_channel_id \<mapsto> active_count)\<rparr>))
         (aseq (emit (SubChannelOpenedEvent parent_channel_id subchannel_id amount (ch_nonce parent)))
         (aret subchannel_id)))))))))))))))))"

definition update_subchannel :: "env \<Rightarrow> u64 \<Rightarrow> u64 \<Rightarrow> i128 \<Rightarrow> ('w channels, unit) act" where
  "update_subchannel E subchannel_id new_nonce new_balance =
     abind (get_subchannel subchannel_id) (\<lambda>b.
     aseq (arefuse (sb_settled b) ChannelAlreadyClosed)
     (abind (get_channel_internal (sb_parent_channel_id b)) (\<lambda>parent.
      aseq (arefuse (ch_phase parent \<noteq> Open) ChannelNotOpen)
      (aseq (alift (require_auth E (sb_sender b)))
      (aseq (arefuse (new_nonce \<le> sb_nonce b) StaleState)
      (aseq (arefuse (new_balance < 0 \<or> new_balance > sb_amount b) ExceedsPayment)
      (aseq (store_subchannel subchannel_id (b\<lparr>sb_nonce := new_nonce, sb_balance := new_balance\<rparr>))
      (emit (SubChannelUpdatedEvent subchannel_id new_nonce new_balance)))))))))"

definition i128_saturating_sub :: "i128 \<Rightarrow> i128 \<Rightarrow> i128" where
  "i128_saturating_sub a b = max (- (2 ^ 127)) (min (2 ^ 127 - 1) (a - b))"

definition settle_subchannel :: "u64 \<Rightarrow> ('w channels, unit) act" where
  "settle_subchannel subchannel_id =
     abind (get_subchannel subchannel_id) (\<lambda>b.
     aseq (arefuse (sb_settled b) ChannelAlreadyClosed)
     (abind (get_channel_internal (sb_parent_channel_id b)) (\<lambda>parent.
      aseq (arefuse (ch_phase parent \<noteq> Open) ChannelNotOpen)
      (aseq (store_subchannel subchannel_id (b\<lparr>sb_settled := True\<rparr>))
      (abind (alift (ok_or (i128_checked (ch_balance parent + sb_balance b)) MathOverflow)) (\<lambda>balance.
       aseq (arefuse (balance > ch_amount parent) ExceedsPayment)
       (aseq (store_channel (sb_parent_channel_id b) (parent\<lparr>ch_balance := balance\<rparr>))
       (abind (aread (\<lambda>s. sub_reserved s (sb_parent_channel_id b))) (\<lambda>reserved.
        aseq (amodify (\<lambda>s. s\<lparr>sc_sub_reserved := (sc_sub_reserved s)(sb_parent_channel_id b \<mapsto>
                i128_saturating_sub reserved (sb_amount b))\<rparr>))
        (abind (aread (\<lambda>s. active_subchannels s (sb_parent_channel_id b))) (\<lambda>k.
         aseq (amodify (\<lambda>s. s\<lparr>sc_sub_active := (sc_sub_active s)(sb_parent_channel_id b \<mapsto> saturating_sub k 1)\<rparr>))
         (emit (SubChannelSettledEvent (sb_parent_channel_id b) subchannel_id (sb_balance b))))))))))))))"

end
