(* ===== verification/Channel_Assets.thy ===== *)
theory Channel_Assets
  imports Channel_Ops
begin

text \<open>
  Channels that escrow several tokens at once (\<open>state-channel/src/multi_asset.rs\<close>). A signed state names
  one receiver balance per token of the channel; settlement pays every token in one invocation.
\<close>

section \<open>Operations\<close>

definition MAX_ASSETS :: u32 where
  "MAX_ASSETS = 10"

definition asset_state_payload :: "'w channel_ext \<Rightarrow> address \<Rightarrow> u64 \<Rightarrow> multi_asset_state \<Rightarrow> bytes" where
  "asset_state_payload X contract channel_id state = map of_char ''accensa-ma-channel-v1'' @
     cx_address_xdr X contract @ be_bytes 8 channel_id @ be_bytes 8 (ms_nonce state) @
     cx_balances_xdr X (ms_balances state)"

definition load_assets :: "u64 \<Rightarrow> ('w channels, multi_asset_channel) act" where
  "load_assets channel_id = abind (aread (\<lambda>s. sc_multi_asset_channel s channel_id)) (\<lambda>c.
     alift (ok_or c ChannelNotFound))"

definition store_assets :: "u64 \<Rightarrow> multi_asset_channel \<Rightarrow> ('w channels, unit) act" where
  "store_assets channel_id c =
     amodify (\<lambda>s. s\<lparr>sc_multi_asset_channel := (sc_multi_asset_channel s)(channel_id \<mapsto> c)\<rparr>)"

definition is_expired :: "env \<Rightarrow> 'w channels \<Rightarrow> multi_asset_channel \<Rightarrow> bool" where
  "is_expired E s c \<longleftrightarrow> sequence E > u32_saturating_add (ma_opened_at c) (max_channel_lifetime s)"

text \<open>The loop over the balances of a signed state.\<close>

fun apply_balances :: "balance_record asset_map \<Rightarrow> i128 asset_map \<Rightarrow> balance_record asset_map outcome" where
  "apply_balances assets [] = Ok assets"
| "apply_balances assets ((asset, balance) # rest) =
     obind (ok_or (map_of assets asset) UnsupportedAsset) (\<lambda>rec.
     if balance < 0 \<or> balance > ba_deposit rec then Err ExceedsPayment
     else apply_balances (AList.update asset (rec\<lparr>ba_receiver_balance := balance\<rparr>) assets) rest)"

definition apply_state ::
  "'w channel_ext \<Rightarrow> env \<Rightarrow> u64 \<Rightarrow> multi_asset_channel \<Rightarrow> multi_asset_state \<Rightarrow> bytes \<Rightarrow> bool \<Rightarrow>
    multi_asset_channel outcome" where
  "apply_state X E channel_id c state signature require_newer =
     obind (ed25519_verify X (ma_sender_pubkey c)
       (asset_state_payload X (current_contract_address E) channel_id state) signature) (\<lambda>_.
     if require_newer \<and> ms_nonce state \<le> ma_nonce c then Err StaleState
     else if length (ms_balances state) \<noteq> length (ma_assets c) then Err UnsupportedAsset
     else obind (apply_balances (ma_assets c) (ms_balances state)) (\<lambda>assets.
       Ok (c\<lparr>ma_assets := assets, ma_nonce := ms_nonce state\<rparr>)))"

text \<open>The loop that pulls the deposits.\<close>

primrec pull_deposits ::
  "'w channel_ext \<Rightarrow> address \<Rightarrow> address \<Rightarrow> i128 asset_map \<Rightarrow> ('w channels, balance_record asset_map) act" where
  "pull_deposits X sender this [] = aret []"
| "pull_deposits X sender this (d # rest) =
     aseq (arefuse (snd d \<le> 0) InvalidAmount)
     (aseq (move_tokens X (fst d) sender this (snd d))
     (abind (pull_deposits X sender this rest) (\<lambda>assets.
      aret ((fst d, \<lparr>ba_deposit = snd d, ba_receiver_balance = 0\<rparr>) # assets))))"

definition open_multi_asset_channel ::
  "'w channel_ext \<Rightarrow> env \<Rightarrow> address \<Rightarrow> address \<Rightarrow> bytes \<Rightarrow> i128 asset_map \<Rightarrow> u32 \<Rightarrow> ('w channels, u64) act" where
  "open_multi_asset_channel X E sender receiver sender_pubkey deposits challenge_period =
     abind (aread sc_token) (\<lambda>t.
     aseq (arefuse (t = None) NotInitialized)
     (aseq (arefuse (deposits = []) InvalidAmount)
     (aseq (arefuse (length deposits > MAX_ASSETS) BatchTooLarge)
     (aseq (alift (require_auth E sender))
     (abind (pull_deposits X sender (current_contract_address E) deposits) (\<lambda>assets.
      abind next_channel_id (\<lambda>channel_id.
      aseq (amodify (\<lambda>s. s\<lparr>sc_channel_count := Some channel_id\<rparr>))
      (let period = effective_challenge_period challenge_period in
       aseq (store_assets channel_id \<lparr>ma_sender = sender, ma_receiver = receiver,
         ma_sender_pubkey = sender_pubkey, ma_assets = assets, ma_nonce = 0, ma_phase = Open,
         ma_opened_at = sequence E, ma_closed_at = 0, ma_challenge_period = period\<rparr>)
       (aseq (emit (MultiAssetChannelOpenedEvent channel_id sender receiver deposits period))
       (aret channel_id))))))))))"

definition update_multi_asset_state ::
  "'w channel_ext \<Rightarrow> env \<Rightarrow> u64 \<Rightarrow> multi_asset_state \<Rightarrow> bytes \<Rightarrow> ('w channels, unit) act" where
  "update_multi_asset_state X E channel_id state signature =
     abind (load_assets channel_id) (\<lambda>c.
     aseq (alift (case ma_phase c of
             Open \<Rightarrow> Ok ()
           | Closed \<Rightarrow> ensure_window_open E (ma_closed_at c) (ma_challenge_period c)
           | _ \<Rightarrow> Err ChannelNotOpen))
     (abind (alift (apply_state X E channel_id c state signature True)) (\<lambda>c.
      let c = (if ma_phase c = Closed then c\<lparr>ma_closed_at := sequence E\<rparr> else c) in
      aseq (store_assets channel_id c)
      (emit (MultiAssetStateUpdatedEvent channel_id (ms_nonce state) (ms_balances state) (ma_phase c))))))"

definition close_multi_asset_channel ::
  "'w channel_ext \<Rightarrow> env \<Rightarrow> u64 \<Rightarrow> multi_asset_state \<Rightarrow> bytes \<Rightarrow> ('w channels, unit) act" where
  "close_multi_asset_channel X E channel_id state signature =
     abind (load_assets channel_id) (\<lambda>c.
     aseq (arefuse (ma_phase c \<noteq> Open) ChannelNotOpen)
     (abind (aread (\<lambda>s. is_expired E s c)) (\<lambda>expired.
      aseq (arefuse expired ChannelExpired)
      (aseq (arefuse (ms_nonce state < ma_nonce c) StaleState)
      (abind (alift (apply_state X E channel_id c state signature False)) (\<lambda>c.
       aseq (store_assets channel_id (c\<lparr>ma_phase := Closed, ma_closed_at := sequence E\<rparr>))
       (emit (MultiAssetStateUpdatedEvent channel_id (ms_nonce state) (ms_balances state) Closed))))))))"

text \<open>The loop that pays every asset; the two maps of the settlement event are built on the way.\<close>

primrec pay_assets ::
  "'w channel_ext \<Rightarrow> address \<Rightarrow> multi_asset_channel \<Rightarrow> balance_record asset_map \<Rightarrow>
    ('w channels, i128 asset_map \<times> i128 asset_map) act" where
  "pay_assets X this c [] = aret ([], [])"
| "pay_assets X this c (a # rest) =
     abind (alift (ok_or (i128_checked (ba_deposit (snd a) - ba_receiver_balance (snd a))) MathOverflow)) (\<lambda>refund.
     aseq (pay_if_positive X (fst a) this (ma_receiver c) (ba_receiver_balance (snd a)))
     (aseq (pay_if_positive X (fst a) this (ma_sender c) refund)
     (abind (pay_assets X this c rest) (\<lambda>(payouts, refunds).
      aret ((fst a, ba_receiver_balance (snd a)) # payouts, (fst a, refund) # refunds)))))"

definition settle_multi_asset_channel :: "'w channel_ext \<Rightarrow> env \<Rightarrow> u64 \<Rightarrow> ('w channels, unit) act" where
  "settle_multi_asset_channel X E channel_id =
     aseq lock_channels
     (abind (load_assets channel_id) (\<lambda>c.
      abind (aread (\<lambda>s. is_expired E s c)) (\<lambda>expired.
      aseq (alift (case ma_phase c of
              Closed \<Rightarrow> ensure_window_elapsed E (ma_closed_at c) (ma_challenge_period c)
            | Open \<Rightarrow> if expired then Ok () else Err ChallengeActive
            | _ \<Rightarrow> Err ChannelAlreadyClosed))
      (aseq (store_assets channel_id (c\<lparr>ma_phase := Finalized\<rparr>))
      (abind (pay_assets X (current_contract_address E) c (ma_assets c)) (\<lambda>(payouts, refunds).
       aseq (emit (MultiAssetSettledEvent channel_id payouts refunds))
       unlock_channels))))))"

definition get_multi_asset_channel :: "'w channels \<Rightarrow> u64 \<Rightarrow> multi_asset_channel outcome" where
  "get_multi_asset_channel s channel_id = ok_or (sc_multi_asset_channel s channel_id) ChannelNotFound"

end
