(* ===== verification/Escrow.thy ===== *)
theory Escrow
  imports Prelude
begin

text \<open>
  What contracts that hold other people's tokens have in common. A machine keeps an invariant along
  every sequence of its steps; an escrow is a machine whose steps never raise what it owes in a token
  by more than what it holds of it, and therefore stays solvent. The reservation book is the
  bookkeeping of amounts set aside entry by entry.
\<close>

section \<open>Machines and escrows\<close>

locale machine =
  fixes step :: "'s \<Rightarrow> 's \<Rightarrow> bool" and inv :: "'s \<Rightarrow> bool"
  assumes step_inv: "inv s \<Longrightarrow> step s s' \<Longrightarrow> inv s'"
begin

lemma steps_inv: "step\<^sup>*\<^sup>* s s' \<Longrightarrow> inv s \<Longrightarrow> inv s'"
  by (induction rule: rtranclp_induct) (auto intro: step_inv)

lemma steps_rel:
  assumes "step\<^sup>*\<^sup>* s s'" "inv s" "\<And>s. R s s" "\<And>s t u. R s t \<Longrightarrow> R t u \<Longrightarrow> R s u"
    and "\<And>s s'. inv s \<Longrightarrow> step s s' \<Longrightarrow> R s s'"
  shows "R s s'"
  using assms(1)
proof (induction rule: rtranclp_induct)
  case (step t u)
  then show ?case using assms(4,5) steps_inv [OF step.hyps(1) assms(2)] by blast
qed (rule assms(3))

lemma steps_mono:
  assumes "step\<^sup>*\<^sup>* s s'" "inv s" "\<And>s s'. inv s \<Longrightarrow> step s s' \<Longrightarrow> (f s :: 'a :: order) \<le> f s'"
  shows "f s \<le> f s'"
  by (rule steps_rel [OF assms(1,2), where R = "\<lambda>s s'. f s \<le> f s'"]) (auto intro: assms(3) order_trans)

end

locale escrow = machine step inv for step :: "'s \<Rightarrow> 's \<Rightarrow> bool" and inv +
  fixes held owed :: "'s \<Rightarrow> address \<Rightarrow> int"
  assumes step_backed: "inv s \<Longrightarrow> step s s' \<Longrightarrow> owed s' t - owed s t \<le> held s' t - held s t"
begin

lemma surplus_mono:
  assumes "step\<^sup>*\<^sup>* s s'" "inv s"
  shows "held s t - owed s t \<le> held s' t - owed s' t"
proof (rule steps_mono [OF assms])
  fix s s' assume "inv s" "step s s'"
  then show "held s t - owed s t \<le> held s' t - owed s' t" using step_backed [of s s' t] by linarith
qed

lemma solvent: "step\<^sup>*\<^sup>* s s' \<Longrightarrow> inv s \<Longrightarrow> owed s t \<le> held s t \<Longrightarrow> owed s' t \<le> held s' t"
  using surplus_mono [of s s' t] by linarith

end

section \<open>Sums over the entries of a book\<close>

lemma sum_change_at:
  fixes f g :: "nat \<Rightarrow> int"
  assumes "i \<le> n" "\<And>j. j \<noteq> i \<Longrightarrow> g j = f j"
  shows "sum g {..n} = sum f {..n} + g i - f i"
proof -
  have "sum g {..n} = g i + sum g ({..n} - {i})" "sum f {..n} = f i + sum f ({..n} - {i})"
    using assms(1) by (simp_all add: sum.remove)
  moreover have "sum g ({..n} - {i}) = sum f ({..n} - {i})" using assms(2) by (intro sum.cong) auto
  ultimately show ?thesis by simp
qed

text \<open>Amounts \<open>pend (i, j)\<close> set aside by entry \<open>j\<close> of account \<open>i\<close>, with \<open>cnt i\<close> entries and total \<open>res i\<close>.\<close>

definition reserved_exact :: "(nat \<times> nat \<Rightarrow> int) \<Rightarrow> (nat \<Rightarrow> nat) \<Rightarrow> (nat \<Rightarrow> int) \<Rightarrow> bool" where
  "reserved_exact pend cnt res \<longleftrightarrow> (\<forall>i j. 0 \<le> pend (i, j)) \<and> (\<forall>i j. cnt i < j \<longrightarrow> pend (i, j) = 0) \<and>
     (\<forall>i. res i = (\<Sum>j\<le>cnt i. pend (i, j)))"

lemma reserved_exact_bounds:
  assumes "reserved_exact pend cnt res"
  shows "0 \<le> pend (i, j)" "0 \<le> res i" "pend (i, j) \<le> res i"
proof -
  have p: "0 \<le> pend (i, j)" for j using assms by (simp add: reserved_exact_def)
  have r: "res i = (\<Sum>j\<le>cnt i. pend (i, j))" using assms by (simp add: reserved_exact_def)
  show "0 \<le> pend (i, j)" by (rule p)
  show "0 \<le> res i" using p by (simp add: r sum_nonneg)
  show "pend (i, j) \<le> res i"
  proof (cases "j \<le> cnt i")
    case True
    then show ?thesis using p unfolding r by (intro member_le_sum) auto
  qed (use assms p r in \<open>auto simp: reserved_exact_def sum_nonneg\<close>)
qed

lemma reserved_exact_add:
  assumes "reserved_exact pend cnt res" "0 \<le> x"
  shows "reserved_exact (pend((i, cnt i + 1) := x)) (cnt(i := cnt i + 1)) (res(i := res i + x))"
proof -
  have "(\<Sum>j\<le>cnt i. (pend((i, Suc (cnt i)) := x)) (i, j)) = (\<Sum>j\<le>cnt i. pend (i, j))" by (rule sum.cong) auto
  then show ?thesis using assms by (auto simp: reserved_exact_def)
qed

lemma reserved_exact_release:
  assumes "reserved_exact pend cnt res"
  shows "reserved_exact (pend((i, j) := 0)) cnt (res(i := res i - pend (i, j)))"
proof (cases "j \<le> cnt i")
  case True
  have "(\<Sum>k\<le>cnt i. (pend((i, j) := 0)) (i, k)) = (\<Sum>k\<le>cnt i. pend (i, k)) - pend (i, j)"
    using sum_change_at [OF True, of "\<lambda>k. (pend((i, j) := 0)) (i, k)" "\<lambda>k. pend (i, k)"] by simp
  then show ?thesis using assms by (auto simp: reserved_exact_def)
next
  case False
  then have "pend((i, j) := 0) = pend" "pend (i, j) = 0" using assms by (auto simp: reserved_exact_def fun_eq_iff)
  then show ?thesis using assms by simp
qed

end
