(* ===== verification/Channel_Machine.thy ===== *)
theory Channel_Machine
  imports Channel_Htlc Channel_Assets Escrow
begin

text \<open>
  The payment channel contract as a state machine: one constructor of \<open>channel_call\<close> per entry point that
  changes storage, and steps of the outside world that never take tokens away from the contract. The
  lemmas show that every step keeps the channels well formed and the reservations exact, and that what
  the contract owes to open channels never grows by more than what it holds: the contract is an escrow.
\<close>

section \<open>Calls and steps\<close>

datatype (plugins only: code size) channel_call =
    InitializeChannels address
  | OpenChannel address address bytes i128 u32
  | UpdateState u64 state_update bytes
  | UpdateStateDelegated u64 state_update bytes delegation_certificate bytes
  | CloseChannel u64 state_update bytes
  | CloseChannelDelegated u64 state_update bytes delegation_certificate bytes
  | CloseChannelWithPreimage u64 state_update bytes u64 bytes
  | FileDispute u64 state_update bytes
  | SubmitCounterEvidence u64 state_update bytes
  | WatchtowerCounterEvidence u64 state_update bytes address
  | SetWatchtowerBounty u64 u32
  | FinalizeDispute u64
  | ClaimChannel u64
  | ReclaimChannel u64
  | RegisterReceiverKey u64 bytes
  | MutualClose mutual_close_state bytes bytes
  | SpliceIn u64 i128
  | SpliceOut u64 i128
  | AddHtlc u64 bytes i128 u32 "htlc_ref option"
  | ResolveHtlc u64 u64 bytes
  | RefundHtlc u64 u64
  | AddHashlockPayment u64 bytes i128
  | RevealPreimage u64 u64 bytes
  | OpenMultiAsset address address bytes "i128 asset_map" u32
  | UpdateMultiAsset u64 multi_asset_state bytes
  | CloseMultiAsset u64 multi_asset_state bytes
  | SettleMultiAsset u64

primrec channel_run :: "'w channel_ext \<Rightarrow> env \<Rightarrow> channel_call \<Rightarrow> ('w channels, unit) act" where
  "channel_run X E (InitializeChannels t) = initialize_channels t"
| "channel_run X E (OpenChannel a b k x p) = aseq (open_channel X E a b k x p) (aret ())"
| "channel_run X E (UpdateState i st g) = update_state X i st g"
| "channel_run X E (UpdateStateDelegated i st g ce cg) = update_state_delegated X E i st g ce cg"
| "channel_run X E (CloseChannel i st g) = close_channel X E i st g"
| "channel_run X E (CloseChannelDelegated i st g ce cg) = close_channel_delegated X E i st g ce cg"
| "channel_run X E (CloseChannelWithPreimage i st g p pre) = close_channel_with_preimage X E i st g p pre"
| "channel_run X E (FileDispute i st g) = dispute X E i st g"
| "channel_run X E (SubmitCounterEvidence i st g) = submit_counter_evidence X E i st g"
| "channel_run X E (WatchtowerCounterEvidence i st g w) = watchtower_counter_evidence X E i st g w"
| "channel_run X E (SetWatchtowerBounty i b) = set_watchtower_bounty E i b"
| "channel_run X E (FinalizeDispute i) = finalize_dispute X E i"
| "channel_run X E (ClaimChannel i) = claim X E i"
| "channel_run X E (ReclaimChannel i) = reclaim X E i"
| "channel_run X E (RegisterReceiverKey i k) = register_receiver_key E i k"
| "channel_run X E (MutualClose st a b) = mutual_close X E st a b"
| "channel_run X E (SpliceIn i x) = splice_in X E i x"
| "channel_run X E (SpliceOut i x) = splice_out X E i x"
| "channel_run X E (AddHtlc i h x t p) = aseq (add_htlc E i h x t p) (aret ())"
| "channel_run X E (ResolveHtlc i j pre) = resolve_htlc X i j pre"
| "channel_run X E (RefundHtlc i j) = refund_htlc E i j"
| "channel_run X E (AddHashlockPayment i h x) = aseq (add_hashlock_payment E i h x) (aret ())"
| "channel_run X E (RevealPreimage i p pre) = aseq (resolve_payment X i p pre) (aret ())"
| "channel_run X E (OpenMultiAsset a b k d p) = aseq (open_multi_asset_channel X E a b k d p) (aret ())"
| "channel_run X E (UpdateMultiAsset i st g) = update_multi_asset_state X E i st g"
| "channel_run X E (CloseMultiAsset i st g) = close_multi_asset_channel X E i st g"
| "channel_run X E (SettleMultiAsset i) = settle_multi_asset_channel X E i"

text \<open>
  A step of the contract at address \<open>V\<close>: a committed call, in which the contract does not authorize
  itself, or a change of the outside world that takes no tokens from it.
\<close>

inductive channel_step :: "'w channel_ext \<Rightarrow> address \<Rightarrow> 'w channels \<Rightarrow> 'w channels \<Rightarrow> bool"
  for X :: "'w channel_ext" and V :: address where
  call: "invoke (channel_run X E c) s = Ok ((), s') \<Longrightarrow> current_contract_address E = V \<Longrightarrow>
    \<not> authorized E V \<Longrightarrow> channel_step X V s s'"
| world: "(\<And>t. tok_balance (cx_token X) (sc_world s) t V \<le> tok_balance (cx_token X) w t V) \<Longrightarrow>
    channel_step X V s (s\<lparr>sc_world := w\<rparr>)"

inductive_cases channel_stepE: "channel_step X V s s'"

section \<open>The invariant\<close>

definition channel_ok :: "channel \<Rightarrow> bool" where
  "channel_ok c \<longleftrightarrow> 0 \<le> ch_amount c \<and> 0 \<le> ch_balance c \<and> window_inv (ch_nonce_window c) \<and>
     (ch_phase c = Closed \<or> ch_phase c = Disputed \<longrightarrow> ch_balance c \<le> ch_amount c)"

definition single_inv :: "'w channels \<Rightarrow> bool" where
  "single_inv s \<longleftrightarrow> (\<forall>i c. sc_channel s i = Some c \<longrightarrow> i \<le> get_channel_count s \<and> channel_ok c) \<and>
     (sc_token s = None \<longrightarrow> sc_channel s = Map.empty)"

definition assets_ok :: "balance_record asset_map \<Rightarrow> bool" where
  "assets_ok l \<longleftrightarrow> (\<forall>(a, r)\<in>set l. 0 \<le> ba_receiver_balance r \<and> ba_receiver_balance r \<le> ba_deposit r)"

definition multi_inv :: "'w channels \<Rightarrow> bool" where
  "multi_inv s \<longleftrightarrow> (\<forall>i c. sc_multi_asset_channel s i = Some c \<longrightarrow> i \<le> get_channel_count s \<and> assets_ok (ma_assets c)) \<and>
     (sc_token s = None \<longrightarrow> sc_multi_asset_channel s = Map.empty)"

definition htlc_pending :: "'w channels \<Rightarrow> u64 \<times> u64 \<Rightarrow> i128" where
  "htlc_pending s k = (case sc_htlc s k of
     Some h \<Rightarrow> if hl_state h = HtlcPending then hl_amount h else 0 | None \<Rightarrow> 0)"

definition htlc_inv :: "'w channels \<Rightarrow> bool" where
  "htlc_inv s \<longleftrightarrow> reserved_exact (htlc_pending s) (\<lambda>i. unwrap_or (sc_htlc_count s i) 0) (htlc_reserved s) \<and>
     (\<forall>i j h. sc_htlc s (i, j) = Some h \<longrightarrow> hl_channel_id h = i \<and> hl_htlc_id h = j)"

definition payment_pending :: "'w channels \<Rightarrow> u64 \<times> u64 \<Rightarrow> i128" where
  "payment_pending s k = (case sc_hashlock_payment s k of
     Some p \<Rightarrow> if hp_state p = PaymentPending then hp_amount p else 0 | None \<Rightarrow> 0)"

definition payment_inv :: "'w channels \<Rightarrow> bool" where
  "payment_inv s \<longleftrightarrow>
     reserved_exact (payment_pending s) (\<lambda>i. unwrap_or (sc_hashlock_payment_count s i) 0) (hashlock_reserved s) \<and>
     (\<forall>i j p. sc_hashlock_payment s (i, j) = Some p \<longrightarrow> hp_channel_id p = i \<and> hp_payment_id p = j)"

section \<open>What the calls do\<close>

lemma next_channel_id_Ok_iff [ok_iff]:
  "next_channel_id s = (Ok i, s') \<longleftrightarrow> i = get_channel_count s + 1 \<and> in_u64 i \<and> s' = s"
  by (auto simp: next_channel_id_def get_channel_count_def ok_iff)

lemma refuse_exceeding_Ok_iff [ok_iff]:
  "refuse_exceeding i c b s = (Ok u, s') \<longleftrightarrow> s' = s \<and> 0 \<le> b \<and>
     in_i128 (b + htlc_reserved s i) \<and> in_i128 (b + htlc_reserved s i + hashlock_reserved s i) \<and>
     b + htlc_reserved s i + hashlock_reserved s i \<le> ch_amount c"
  by (auto simp: refuse_exceeding_def exceeds_escrow_def ok_iff i128_checked_def split: option.splits if_splits)

lemma newer_state_Ok_iff [ok_iff]:
  "newer_state i c st s = (Ok c', s') \<longleftrightarrow> s' = s \<and> 0 \<le> su_balance st \<and> ch_balance c \<le> su_balance st \<and>
     in_i128 (su_balance st + htlc_reserved s i) \<and>
     in_i128 (su_balance st + htlc_reserved s i + hashlock_reserved s i) \<and>
     su_balance st + htlc_reserved s i + hashlock_reserved s i \<le> ch_amount c \<and>
     (\<exists>w. consume (ch_nonce_window c) (su_nonce st) = Ok w \<and>
       c' = c\<lparr>ch_nonce_window := w, ch_nonce := max (ch_nonce c) (su_nonce st), ch_balance := su_balance st\<rparr>)"
  by (auto simp: newer_state_def ok_iff)

lemma closing_channel_Ok:
  assumes "closing_channel E i st verify s = (Ok c, s')"
  shows "s' = s \<and> sc_channel s i = Some c \<and> ch_phase c = Open \<and> verify c = Ok () \<and>
    sequence E \<le> ch_opened_at c + max_channel_lifetime s \<and> 0 \<le> su_balance st \<and>
    su_balance st + htlc_reserved s i + hashlock_reserved s i \<le> ch_amount c"
  using assms by (auto simp: closing_channel_def ok_iff)

lemma window_inv_best_effort: "window_inv w \<Longrightarrow> window_inv (consume_best_effort w n)"
  by (auto simp: consume_best_effort_def consume_consumed(1) split: result.splits)

lemma resolve_payment_Ok:
  assumes "resolve_payment X i j pre s = (Ok x, s')" "payment_inv s"
  obtains p c where "sc_hashlock_payment s (i, j) = Some p" "hp_state p = PaymentPending" "x = hp_amount p"
    "cx_sha256 X pre = hp_hashlock p" "sc_channel s i = Some c" "ch_phase c = Open"
    "s' = s\<lparr>sc_hashlock_reserved := (sc_hashlock_reserved s)(i \<mapsto> hashlock_reserved s i - x),
       sc_hashlock_payment := (sc_hashlock_payment s)((i, j) \<mapsto> p\<lparr>hp_state := PaymentResolved\<rparr>),
       sc_channel := (sc_channel s)(i \<mapsto> c\<lparr>ch_balance := ch_balance c + x\<rparr>),
       sc_events := sc_events s @ [HashlockPaymentRevealedEvent i j x (hp_hashlock p)]\<rparr>"
  using assms
  by (auto simp: resolve_payment_def load_payment_def verify_preimage_def set_hashlock_reserved_def
      store_payment_def payment_inv_def ok_iff i128_checked_def split: if_splits intro!: that)

section \<open>Frames\<close>

lemma keeps_channel_steps [keeps_intro]:
  "(\<And>s ev. P s \<Longrightarrow> P (s\<lparr>sc_events := ev\<rparr>)) \<Longrightarrow> keeps P (emit e)"
  "(\<And>s l. P s \<Longrightarrow> P (s\<lparr>sc_guard_lock := l\<rparr>)) \<Longrightarrow> keeps P lock_channels"
  "(\<And>s l. P s \<Longrightarrow> P (s\<lparr>sc_guard_lock := l\<rparr>)) \<Longrightarrow> keeps P unlock_channels"
  "(\<And>s w. P s \<Longrightarrow> P (s\<lparr>sc_world := w\<rparr>)) \<Longrightarrow> keeps P (move_tokens X tok a b x)"
  "(\<And>s w. P s \<Longrightarrow> P (s\<lparr>sc_world := w\<rparr>)) \<Longrightarrow> keeps P (pay_if_positive X tok a b x)"
  "(\<And>s b. P s \<Longrightarrow> P (s\<lparr>sc_bounty := b\<rparr>)) \<Longrightarrow> keeps P (store_bounty i bo)"
  "(\<And>s m. P s \<Longrightarrow> P (s\<lparr>sc_channel := m\<rparr>)) \<Longrightarrow> keeps P (store_channel i c)"
  "(\<And>s m. P s \<Longrightarrow> P (s\<lparr>sc_multi_asset_channel := m\<rparr>)) \<Longrightarrow> keeps P (store_assets i c')"
  "(\<And>s m. P s \<Longrightarrow> P (s\<lparr>sc_htlc := m\<rparr>)) \<Longrightarrow> keeps P (store_htlc h)"
  "(\<And>s m. P s \<Longrightarrow> P (s\<lparr>sc_htlc_reserved := m\<rparr>)) \<Longrightarrow> keeps P (set_htlc_reserved i y)"
  "(\<And>s m. P s \<Longrightarrow> P (s\<lparr>sc_hashlock_payment := m\<rparr>)) \<Longrightarrow> keeps P (store_payment p)"
  "(\<And>s m. P s \<Longrightarrow> P (s\<lparr>sc_hashlock_reserved := m\<rparr>)) \<Longrightarrow> keeps P (set_hashlock_reserved i y)"
  "keeps P (get_channel_internal i)" "keeps P token_address" "keeps P next_channel_id"
  "keeps P (refuse_exceeding i c y)" "keeps P (load_htlc i j)" "keeps P (load_payment i j)" "keeps P (load_assets i)"
  "keeps P (load_open_channel i)" "keeps P (newer_state i c st)" "keeps P (closing_channel E i st v)"
  "keeps P (check_parent t i j)"
  unfolding channel_step_defs store_bounty_def store_assets_def store_htlc_def set_htlc_reserved_def
    store_payment_def set_hashlock_reserved_def next_channel_id_def refuse_exceeding_def load_htlc_def
    load_payment_def load_assets_def load_open_channel_def newer_state_def closing_channel_def check_parent_def
  by (intro keeps_intro keeps_amodify; simp)+

lemma keeps_asset_loops [keeps_intro]:
  assumes "\<And>s w. P s \<Longrightarrow> P (s\<lparr>sc_world := w\<rparr>)"
  shows "keeps P (pull_deposits X a b d)" "keeps P (pay_assets X a c l)"
proof -
  show "keeps P (pull_deposits X a b d)" by (induction d) (auto simp del: act_simps intro!: keeps_intro assms)
  show "keeps P (pay_assets X a c l)" by (induction l) (auto simp del: act_simps intro!: keeps_intro assms)
qed

lemmas channel_call_defs = initialize_channels_def open_channel_def update_state_def update_with_def
  update_state_delegated_def close_channel_def close_channel_delegated_def record_close_def
  close_channel_with_preimage_def resolve_payment_def dispute_def submit_counter_evidence_def
  watchtower_counter_evidence_def record_watchtower_def set_watchtower_bounty_def finalize_dispute_def take_reward_def
  claim_def reclaim_def register_receiver_key_def mutual_close_def splice_in_def splice_out_def add_htlc_def
  resolve_htlc_def refund_htlc_def add_hashlock_payment_def open_multi_asset_channel_def
  update_multi_asset_state_def close_multi_asset_channel_def settle_multi_asset_channel_def

definition htlc_view :: "'w channels \<Rightarrow> (u64 \<times> u64 \<rightharpoonup> htlc) \<times> (u64 \<rightharpoonup> u64) \<times> (u64 \<rightharpoonup> i128)" where
  "htlc_view s = (sc_htlc s, sc_htlc_count s, sc_htlc_reserved s)"

definition payment_view ::
  "'w channels \<Rightarrow> (u64 \<times> u64 \<rightharpoonup> hashlock_payment) \<times> (u64 \<rightharpoonup> u64) \<times> (u64 \<rightharpoonup> i128)" where
  "payment_view s = (sc_hashlock_payment s, sc_hashlock_payment_count s, sc_hashlock_reserved s)"


lemma htlc_inv_cong: "htlc_view s' = htlc_view s \<Longrightarrow> htlc_inv s' = htlc_inv s"
  by (simp add: htlc_view_def htlc_inv_def htlc_pending_def [abs_def] htlc_reserved_def [abs_def])

lemma payment_inv_cong: "payment_view s' = payment_view s \<Longrightarrow> payment_inv s' = payment_inv s"
  by (simp add: payment_view_def payment_inv_def payment_pending_def [abs_def] hashlock_reserved_def [abs_def])

lemma htlc_frame:
  assumes "m s = (r, s')" "keeps (\<lambda>t. htlc_view t = htlc_view s) m" "htlc_inv s"
  shows "htlc_inv s'"
  using keepsD [OF assms(2) refl assms(1)] assms(3) htlc_inv_cong by blast

lemma payment_frame:
  assumes "m s = (r, s')" "keeps (\<lambda>t. payment_view t = payment_view s) m" "payment_inv s"
  shows "payment_inv s'"
  using keepsD [OF assms(2) refl assms(1)] assms(3) payment_inv_cong by blast

section \<open>Reservations stay exact\<close>

lemma htlc_release_inv:
  assumes "htlc_inv s" "sc_htlc s (i, j) = Some h" "hl_state h = HtlcPending" "st \<noteq> HtlcPending"
    and "htlc_view s' = ((sc_htlc s)((i, j) \<mapsto> h\<lparr>hl_state := st\<rparr>), sc_htlc_count s,
      (sc_htlc_reserved s)(i \<mapsto> htlc_reserved s i - hl_amount h))"
  shows "htlc_inv s'"
proof -
  have v: "sc_htlc s' = (sc_htlc s)((i, j) \<mapsto> h\<lparr>hl_state := st\<rparr>)" "sc_htlc_count s' = sc_htlc_count s"
      "sc_htlc_reserved s' = (sc_htlc_reserved s)(i \<mapsto> htlc_reserved s i - hl_amount h)"
    using assms(5) by (simp_all add: htlc_view_def)
  have "htlc_pending s (i, j) = hl_amount h" using assms(2,3) by (simp add: htlc_pending_def)
  then have "htlc_pending s' = (htlc_pending s)((i, j) := 0)"
      "htlc_reserved s' = (htlc_reserved s)(i := htlc_reserved s i - htlc_pending s (i, j))"
    using assms(4) by (auto simp: htlc_pending_def htlc_reserved_def v fun_eq_iff)
  then show ?thesis
    using assms(1,2) reserved_exact_release [of "htlc_pending s" _ "htlc_reserved s" i j]
    by (auto simp: htlc_inv_def v)
qed

lemma payment_release_inv:
  assumes "payment_inv s" "sc_hashlock_payment s (i, j) = Some p" "hp_state p = PaymentPending" "st \<noteq> PaymentPending"
    and "payment_view s' = ((sc_hashlock_payment s)((i, j) \<mapsto> p\<lparr>hp_state := st\<rparr>), sc_hashlock_payment_count s,
      (sc_hashlock_reserved s)(i \<mapsto> hashlock_reserved s i - hp_amount p))"
  shows "payment_inv s'"
proof -
  have v: "sc_hashlock_payment s' = (sc_hashlock_payment s)((i, j) \<mapsto> p\<lparr>hp_state := st\<rparr>)"
      "sc_hashlock_payment_count s' = sc_hashlock_payment_count s"
      "sc_hashlock_reserved s' = (sc_hashlock_reserved s)(i \<mapsto> hashlock_reserved s i - hp_amount p)"
    using assms(5) by (simp_all add: payment_view_def)
  have "payment_pending s (i, j) = hp_amount p" using assms(2,3) by (simp add: payment_pending_def)
  then have "payment_pending s' = (payment_pending s)((i, j) := 0)"
      "hashlock_reserved s' = (hashlock_reserved s)(i := hashlock_reserved s i - payment_pending s (i, j))"
    using assms(4) by (auto simp: payment_pending_def hashlock_reserved_def v fun_eq_iff)
  then show ?thesis
    using assms(1,2) reserved_exact_release [of "payment_pending s" _ "hashlock_reserved s" i j]
    by (auto simp: payment_inv_def v)
qed

lemma add_htlc_Ok:
  assumes "add_htlc E i h x t p s = (Ok j, s')"
  obtains q r c where "0 < x" "j = unwrap_or (sc_htlc_count s i) 0 + 1" "sc_channel s i = Some c" "authorized E (ch_sender c)"
    "ch_balance c + htlc_reserved s i + x \<le> ch_amount c" "ch_phase c = Open" "sequence E < t"
    "s' = s\<lparr>sc_htlc_count := (sc_htlc_count s)(i \<mapsto> j), sc_htlc := (sc_htlc s)((i, j) \<mapsto>
        \<lparr>hl_channel_id = i, hl_htlc_id = j, hl_hash_lock = h, hl_amount = x, hl_timeout_ledger = t,
         hl_state = HtlcPending, hl_parent_channel_id = q, hl_parent_htlc_id = r\<rparr>),
       sc_htlc_reserved := (sc_htlc_reserved s)(i \<mapsto> htlc_reserved s i + x),
       sc_events := sc_events s @ [HtlcAddedEvent i j h x t q r]\<rparr>"
proof -
  obtain q r where qr: "(case p of Some p \<Rightarrow> (hr_channel_id p, hr_htlc_id p) | None \<Rightarrow> (0, 0)) = (q, r)" by fastforce
  have parent: "check_parent t q r s1 = (Ok u, s2) \<Longrightarrow> s2 = s1" for u s1 s2
    by (auto simp: check_parent_def load_htlc_def ok_iff split: if_splits)
  show ?thesis
    using assms qr
    by (auto simp: add_htlc_def store_htlc_def set_htlc_reserved_def ok_iff i128_checked_def not_le
        split: if_splits dest!: parent intro!: that)
qed

lemma add_hashlock_payment_Ok:
  assumes "add_hashlock_payment E i h x s = (Ok j, s')"
  obtains c where "0 < x" "j = unwrap_or (sc_hashlock_payment_count s i) 0 + 1" "sc_channel s i = Some c"
    "authorized E (ch_sender c)" "ch_phase c = Open"
    "ch_balance c + htlc_reserved s i + hashlock_reserved s i + x \<le> ch_amount c"
    "s' = s\<lparr>sc_hashlock_payment_count := (sc_hashlock_payment_count s)(i \<mapsto> j),
       sc_hashlock_payment := (sc_hashlock_payment s)((i, j) \<mapsto> \<lparr>hp_channel_id = i, hp_payment_id = j,
         hp_hashlock = h, hp_amount = x, hp_state = PaymentPending\<rparr>),
       sc_hashlock_reserved := (sc_hashlock_reserved s)(i \<mapsto> hashlock_reserved s i + x),
       sc_events := sc_events s @ [HashlockPaymentAddedEvent i j h x]\<rparr>"
  using assms
  by (auto simp: add_hashlock_payment_def store_payment_def set_hashlock_reserved_def ok_iff i128_checked_def not_le
      split: if_splits intro!: that)

lemma resolve_htlc_Ok:
  assumes "resolve_htlc X i j pre s = (Ok u, s')" "htlc_inv s"
  obtains h c where "sc_htlc s (i, j) = Some h" "hl_state h = HtlcPending" "constant_time_eq (cx_sha256 X pre) (hl_hash_lock h)"
    "sc_channel s i = Some c" "ch_phase c = Open"
    "s' = s\<lparr>sc_htlc_reserved := (sc_htlc_reserved s)(i \<mapsto> htlc_reserved s i - hl_amount h),
       sc_htlc := (sc_htlc s)((i, j) \<mapsto> h\<lparr>hl_state := HtlcResolved\<rparr>),
       sc_channel := (sc_channel s)(i \<mapsto> c\<lparr>ch_balance := ch_balance c + hl_amount h\<rparr>),
       sc_events := sc_events s @ [HtlcResolvedEvent i j (hl_amount h)]\<rparr>"
  using assms
  by (auto simp: resolve_htlc_def load_htlc_def set_htlc_reserved_def store_htlc_def htlc_inv_def ok_iff
      i128_checked_def split: if_splits intro!: that)

lemma refund_htlc_Ok:
  assumes "refund_htlc E i j s = (Ok u, s')" "htlc_inv s"
  obtains h c where "sc_htlc s (i, j) = Some h" "hl_state h = HtlcPending" "hl_timeout_ledger h < sequence E"
    "sc_channel s i = Some c"
    "s' = s\<lparr>sc_guard_lock := Some False, sc_htlc_reserved := (sc_htlc_reserved s)(i \<mapsto> htlc_reserved s i - hl_amount h),
       sc_htlc := (sc_htlc s)((i, j) \<mapsto> h\<lparr>hl_state := HtlcRefunded\<rparr>),
       sc_events := sc_events s @ [HtlcRefundedEvent i j (hl_amount h)]\<rparr>"
  using assms
  by (auto simp: refund_htlc_def load_htlc_def set_htlc_reserved_def store_htlc_def htlc_inv_def htlc_reserved_def ok_iff
      not_le intro!: that)

lemma run_htlc_inv:
  assumes run: "channel_run X E c s = (Ok (), s')" and inv: "htlc_inv s"
  shows "htlc_inv s'"
proof (cases c)
  case (AddHtlc i h x t p)
  then obtain j where "add_htlc E i h x t p s = (Ok j, s')" using run by (auto simp: ok_iff)
  then obtain q r where x: "0 < x" and j: "j = unwrap_or (sc_htlc_count s i) 0 + 1"
    and s': "s' = s\<lparr>sc_htlc_count := (sc_htlc_count s)(i \<mapsto> j), sc_htlc := (sc_htlc s)((i, j) \<mapsto>
        \<lparr>hl_channel_id = i, hl_htlc_id = j, hl_hash_lock = h, hl_amount = x, hl_timeout_ledger = t,
         hl_state = HtlcPending, hl_parent_channel_id = q, hl_parent_htlc_id = r\<rparr>),
       sc_htlc_reserved := (sc_htlc_reserved s)(i \<mapsto> htlc_reserved s i + x),
       sc_events := sc_events s @ [HtlcAddedEvent i j h x t q r]\<rparr>"
    by (rule add_htlc_Ok)
  have "htlc_pending s' = (htlc_pending s)((i, j) := x)" "htlc_reserved s' = (htlc_reserved s)(i := htlc_reserved s i + x)"
      "(\<lambda>i. unwrap_or (sc_htlc_count s' i) 0) = (\<lambda>i. unwrap_or (sc_htlc_count s i) 0)(i := j)"
    by (auto simp: htlc_pending_def htlc_reserved_def s' fun_eq_iff)
  then show ?thesis
    using inv reserved_exact_add [of "htlc_pending s" "\<lambda>i. unwrap_or (sc_htlc_count s i) 0" "htlc_reserved s" x i] x j
    by (auto simp: htlc_inv_def s')
next
  case (ResolveHtlc i j pre)
  then have "resolve_htlc X i j pre s = (Ok (), s')" using run by simp
  from this inv show ?thesis
    by (rule resolve_htlc_Ok) (rule htlc_release_inv [OF inv, where st = HtlcResolved], auto simp: htlc_view_def)
next
  case (RefundHtlc i j)
  then have "refund_htlc E i j s = (Ok (), s')" using run by simp
  from this inv show ?thesis
    by (rule refund_htlc_Ok) (rule htlc_release_inv [OF inv, where st = HtlcRefunded], auto simp: htlc_view_def)
qed ((rule htlc_frame [where m = "channel_run X E c", OF run _ inv], simp only: channel_run.simps channel_call_defs,
    (intro keeps_intro keeps_amodify; simp add: htlc_view_def))+)

lemma resolve_payment_inv:
  assumes "resolve_payment X i j pre s = (Ok x, s')" "payment_inv s"
  shows "payment_inv s'"
  using assms
  by (rule resolve_payment_Ok) (rule payment_release_inv [OF assms(2), where st = PaymentResolved], auto simp: payment_view_def)

lemma run_payment_inv:
  assumes run: "channel_run X E c s = (Ok (), s')" and inv: "payment_inv s"
  shows "payment_inv s'"
proof (cases c)
  case (AddHashlockPayment i h x)
  then obtain j where "add_hashlock_payment E i h x s = (Ok j, s')" using run by (auto simp: ok_iff)
  then obtain x: "0 < x" and j: "j = unwrap_or (sc_hashlock_payment_count s i) 0 + 1"
    and s': "s' = s\<lparr>sc_hashlock_payment_count := (sc_hashlock_payment_count s)(i \<mapsto> j),
       sc_hashlock_payment := (sc_hashlock_payment s)((i, j) \<mapsto> \<lparr>hp_channel_id = i, hp_payment_id = j,
         hp_hashlock = h, hp_amount = x, hp_state = PaymentPending\<rparr>),
       sc_hashlock_reserved := (sc_hashlock_reserved s)(i \<mapsto> hashlock_reserved s i + x),
       sc_events := sc_events s @ [HashlockPaymentAddedEvent i j h x]\<rparr>"
    by (rule add_hashlock_payment_Ok)
  have "payment_pending s' = (payment_pending s)((i, j) := x)"
      "hashlock_reserved s' = (hashlock_reserved s)(i := hashlock_reserved s i + x)"
      "(\<lambda>i. unwrap_or (sc_hashlock_payment_count s' i) 0) = (\<lambda>i. unwrap_or (sc_hashlock_payment_count s i) 0)(i := j)"
    by (auto simp: payment_pending_def hashlock_reserved_def s' fun_eq_iff)
  then show ?thesis
    using inv reserved_exact_add [of "payment_pending s" "\<lambda>i. unwrap_or (sc_hashlock_payment_count s i) 0"
        "hashlock_reserved s" x i] x j
    by (auto simp: payment_inv_def s')
next
  case (RevealPreimage i j pre)
  then obtain x where "resolve_payment X i j pre s = (Ok x, s')" using run by (auto simp: ok_iff)
  then show ?thesis using inv by (rule resolve_payment_inv)
next
  case (CloseChannelWithPreimage i st g j pre)
  then obtain x t where "resolve_payment X i j pre s = (Ok x, t)" and "payment_view s' = payment_view t"
    using run by (auto simp: close_channel_with_preimage_def record_close_def ok_iff payment_view_def
        dest!: closing_channel_Ok)
  then show ?thesis using resolve_payment_inv inv payment_inv_cong by blast
qed ((rule payment_frame [where m = "channel_run X E c", OF run _ inv], simp only: channel_run.simps channel_call_defs,
    (intro keeps_intro keeps_amodify; simp add: payment_view_def))+)

section \<open>What the contract owes and holds\<close>

definition channel_worth :: "address option \<Rightarrow> address \<Rightarrow> channel option \<Rightarrow> i128" where
  "channel_worth tok t o' = (case o' of
     Some c \<Rightarrow> if ch_phase c \<noteq> Finalized \<and> tok = Some t then ch_amount c else 0 | None \<Rightarrow> 0)"

definition asset_sum :: "balance_record asset_map \<Rightarrow> address \<Rightarrow> i128" where
  "asset_sum l t = (\<Sum>(a, r)\<leftarrow>l. if a = t then ba_deposit r else 0)"

definition assets_worth :: "address \<Rightarrow> multi_asset_channel option \<Rightarrow> i128" where
  "assets_worth t o' = (case o' of
     Some c \<Rightarrow> if ma_phase c \<noteq> Finalized then asset_sum (ma_assets c) t else 0 | None \<Rightarrow> 0)"

definition channels_owed :: "'w channels \<Rightarrow> address \<Rightarrow> i128" where
  "channels_owed s t = (\<Sum>i\<le>get_channel_count s.
     channel_worth (sc_token s) t (sc_channel s i) + assets_worth t (sc_multi_asset_channel s i))"

definition channels_held :: "'w channel_ext \<Rightarrow> address \<Rightarrow> 'w channels \<Rightarrow> address \<Rightarrow> i128" where
  "channels_held X V s t = tok_balance (cx_token X) (sc_world s) t V"

text \<open>A step that changes one channel and leaves the books of the others alone.\<close>

lemma owed_channel_change:
  assumes "sc_channel s' = (sc_channel s)(i := o')" "sc_multi_asset_channel s' = sc_multi_asset_channel s"
    and "sc_token s' = sc_token s" "sc_channel_count s' = sc_channel_count s" "i \<le> get_channel_count s"
  shows "channels_owed s' t - channels_owed s t =
    channel_worth (sc_token s) t o' - channel_worth (sc_token s) t (sc_channel s i)"
  using assms sum_change_at [OF assms(5), of
      "\<lambda>j. channel_worth (sc_token s) t (sc_channel s' j) + assets_worth t (sc_multi_asset_channel s' j)"
      "\<lambda>j. channel_worth (sc_token s) t (sc_channel s j) + assets_worth t (sc_multi_asset_channel s j)"]
  by (simp add: channels_owed_def get_channel_count_def)

lemma owed_assets_change:
  assumes "sc_multi_asset_channel s' = (sc_multi_asset_channel s)(i := o')" "sc_channel s' = sc_channel s"
    and "sc_token s' = sc_token s" "sc_channel_count s' = sc_channel_count s" "i \<le> get_channel_count s"
  shows "channels_owed s' t - channels_owed s t = assets_worth t o' - assets_worth t (sc_multi_asset_channel s i)"
  using assms sum_change_at [OF assms(5), of
      "\<lambda>j. channel_worth (sc_token s) t (sc_channel s' j) + assets_worth t (sc_multi_asset_channel s' j)"
      "\<lambda>j. channel_worth (sc_token s) t (sc_channel s j) + assets_worth t (sc_multi_asset_channel s j)"]
  by (simp add: channels_owed_def get_channel_count_def)

text \<open>A step that opens the next channel.\<close>

lemma owed_open:
  assumes "single_inv s" "multi_inv s" "sc_token s' = sc_token s" "sc_channel_count s' = Some (get_channel_count s + 1)"
    and "\<And>j. j \<le> get_channel_count s \<Longrightarrow> sc_channel s' j = sc_channel s j \<and>
      sc_multi_asset_channel s' j = sc_multi_asset_channel s j"
  shows "channels_owed s' t - channels_owed s t = channel_worth (sc_token s) t (sc_channel s' (get_channel_count s + 1)) +
    assets_worth t (sc_multi_asset_channel s' (get_channel_count s + 1))"
  using assms by (simp add: channels_owed_def get_channel_count_def)

lemma held_pay:
  assumes "sep41 (cx_token X)" "pay_if_positive X tok V a x s = (Ok u, s')"
  shows "\<exists>w. s' = s\<lparr>sc_world := w\<rparr>" "channels_held X V s t - (if t = tok then max x 0 else 0) \<le> channels_held X V s' t"
proof -
  show "\<exists>w. s' = s\<lparr>sc_world := w\<rparr>"
    using assms(2) by (cases "0 < x") (auto simp: ok_iff intro: exI [of _ "sc_world s"])
  show "channels_held X V s t - (if t = tok then max x 0 else 0) \<le> channels_held X V s' t"
    using assms(2) sep41D(1,3) [OF assms(1)]
    by (cases "0 < x") (auto simp: ok_iff channels_held_def)
qed

lemma held_receive:
  assumes "sep41 (cx_token X)" "move_tokens X tok a V x s = (Ok u, s')" "a \<noteq> V"
  shows "\<exists>w. s' = s\<lparr>sc_world := w\<rparr>" "channels_held X V s' t = channels_held X V s t + (if t = tok then x else 0)"
proof -
  show "\<exists>w. s' = s\<lparr>sc_world := w\<rparr>" using assms(2) by (auto simp: ok_iff)
  show "channels_held X V s' t = channels_held X V s t + (if t = tok then x else 0)"
    using assms(2,3) sep41D(3) [OF assms(1)] by (auto simp: ok_iff channels_held_def)
qed

section \<open>Bounties\<close>

definition bounty_inv :: "'w channels \<Rightarrow> bool" where
  "bounty_inv s \<longleftrightarrow> (\<forall>i b. sc_bounty s i = Some b \<longrightarrow> wb_reward_bps b \<le> MAX_REWARD_BPS)"

lemma take_reward_Ok:
  assumes "take_reward i x s = (Ok (reward, rest, a), s')" "bounty_inv s"
  shows "rest = x - reward" "0 \<le> reward" "0 \<le> x \<Longrightarrow> 5 * reward \<le> x" "a = None \<Longrightarrow> reward = 0" "bounty_inv s'"
    and "\<exists>b ev. s' = s\<lparr>sc_bounty := b, sc_events := ev\<rparr>"
proof -
  consider "reward = 0" "rest = x" "a = None" "s' = s"
    | b where "sc_bounty s i = Some b" "reward = 0" "rest = x" "a = None"
        "s' = s\<lparr>sc_bounty := (sc_bounty s)(i \<mapsto> b\<lparr>wb_watchtower := None\<rparr>)\<rparr>"
    | b wt where "sc_bounty s i = Some b" "0 < x" "reward = trunc_div (x * int (wb_reward_bps b)) 10000"
        "rest = x - reward" "a = Some wt" "s' = s\<lparr>sc_bounty := (sc_bounty s)(i \<mapsto> b\<lparr>wb_watchtower := None\<rparr>),
           sc_events := sc_events s @ [WatchtowerRewardEvent i wt reward]\<rparr>"
  proof (cases "sc_bounty s i")
    case None
    then show ?thesis using assms(1) by (intro that(1)) (simp_all add: take_reward_def abind_def)
  next
    case (Some b)
    show ?thesis
    proof (cases "wb_watchtower b")
      case None
      then show ?thesis using assms(1) Some by (intro that(1)) (simp_all add: take_reward_def abind_def)
    next
      case wt: (Some wt)
      show ?thesis
      proof (cases "wb_reward_bps b = 0 \<or> x \<le> 0")
        case True
        then show ?thesis
          using assms(1) Some wt by (intro that(2) [of b]) (simp_all add: take_reward_def abind_def aseq_def store_bounty_def)
      next
        case False
        then have eq: "take_reward i x s = abind (alift (ok_or (i128_checked (x * int (wb_reward_bps b))) MathOverflow)) (\<lambda>m.
          aseq (store_bounty i (b\<lparr>wb_watchtower := None\<rparr>)) (aseq (emit (WatchtowerRewardEvent i wt (trunc_div m 10000)))
          (abind (alift (i128_op (x - trunc_div m 10000))) (\<lambda>rest. aret (trunc_div m 10000, rest, Some wt))))) s"
          using Some wt by (simp add: take_reward_def abind_simps Let_def)
        show ?thesis
          using assms(1) [unfolded eq] False Some
          by (intro that(3) [of b wt]) (auto simp: ok_iff i128_checked_def store_bounty_def split: if_splits)
      qed
    qed
  qed
  then have all: "rest = x - reward \<and> 0 \<le> reward \<and> (0 \<le> x \<longrightarrow> 5 * reward \<le> x) \<and> (a = None \<longrightarrow> reward = 0) \<and>
    bounty_inv s' \<and> (\<exists>b ev. s' = s\<lparr>sc_bounty := b, sc_events := ev\<rparr>)"
  proof cases
    case 1
    then have "s' = s\<lparr>sc_bounty := sc_bounty s, sc_events := sc_events s\<rparr>" by simp
    then have "\<exists>b ev. s' = s\<lparr>sc_bounty := b, sc_events := ev\<rparr>" by blast
    then show ?thesis using 1 assms(2) by simp
  next
    case 2
    then have "s' = s\<lparr>sc_bounty := (sc_bounty s)(i \<mapsto> b\<lparr>wb_watchtower := None\<rparr>), sc_events := sc_events s\<rparr>" by simp
    then have "\<exists>b ev. s' = s\<lparr>sc_bounty := b, sc_events := ev\<rparr>" by blast
    moreover have "bounty_inv s'" using assms(2) 2(1,5) by (auto simp: bounty_inv_def)
    ultimately show ?thesis using 2(2-4) by simp
  next
    case 3
    define m where "m = x * int (wb_reward_bps b)"
    have "int (wb_reward_bps b) \<le> 2000" using assms(2) 3(1) by (simp add: bounty_inv_def MAX_REWARD_BPS_def)
    then have "m \<le> x * 2000" "0 \<le> m" using 3(2) by (simp_all add: m_def)
    moreover have "m div 10000 * 10000 \<le> m" by simp
    ultimately have "0 \<le> m div 10000" "5 * (m div 10000) \<le> x" "trunc_div m 10000 = m div 10000"
      using 3(2) by (simp_all add: trunc_div_nonneg)
    then have "0 \<le> reward" "5 * reward \<le> x" using 3(3) by (simp_all add: m_def)
    moreover have "bounty_inv s'" using assms(2) 3(1,6) by (auto simp: bounty_inv_def)
    ultimately show ?thesis using 3(4-6) by auto
  qed
  show "rest = x - reward" "0 \<le> reward" "0 \<le> x \<Longrightarrow> 5 * reward \<le> x" "a = None \<Longrightarrow> reward = 0" "bounty_inv s'"
    "\<exists>b ev. s' = s\<lparr>sc_bounty := b, sc_events := ev\<rparr>"
    using all by blast+
qed

section \<open>Every call is backed\<close>

definition backed_step :: "'w channel_ext \<Rightarrow> address \<Rightarrow> 'w channels \<Rightarrow> 'w channels \<Rightarrow> bool" where
  "backed_step X V s s' \<longleftrightarrow> single_inv s' \<and> multi_inv s' \<and>
     (\<forall>t. channels_owed s' t - channels_owed s t \<le> channels_held X V s' t - channels_held X V s t)"

definition book_view :: "'w channels \<Rightarrow> (u64 \<rightharpoonup> channel) \<times> (u64 \<rightharpoonup> multi_asset_channel) \<times> address option \<times> u64 option \<times> 'w" where
  "book_view s = (sc_channel s, sc_multi_asset_channel s, sc_token s, sc_channel_count s, sc_world s)"

lemma backed_frame:
  assumes "m s = (r, s')" "keeps (\<lambda>t. book_view t = book_view s) m" "single_inv s" "multi_inv s"
  shows "backed_step X V s s'"
proof -
  have "book_view s' = book_view s" by (rule keepsD [OF assms(2) refl assms(1)])
  then show ?thesis using assms(3,4)
    by (simp add: book_view_def backed_step_def single_inv_def multi_inv_def channels_owed_def channels_held_def
        get_channel_count_def)
qed

lemma backed_channel:
  assumes "single_inv s" "multi_inv s" "sc_channel s i = Some c"
    and "sc_channel s' = (sc_channel s)(i := o')" "sc_multi_asset_channel s' = sc_multi_asset_channel s"
    and "sc_token s' = sc_token s" "sc_channel_count s' = sc_channel_count s"
    and "\<And>c'. o' = Some c' \<Longrightarrow> channel_ok c'"
    and "\<And>t. channel_worth (sc_token s) t o' - channel_worth (sc_token s) t (Some c) \<le>
      channels_held X V s' t - channels_held X V s t"
  shows "backed_step X V s s'"
proof -
  have i: "i \<le> get_channel_count s" using assms(1,3) by (auto simp: single_inv_def)
  have "single_inv s'" "multi_inv s'"
    using assms(1-8) i by (auto simp: single_inv_def multi_inv_def get_channel_count_def split: if_splits)
  then show ?thesis
    using owed_channel_change [OF assms(4-7) i] assms(3,9) by (simp add: backed_step_def)
qed

lemma backed_quiet:
  assumes "single_inv s" "multi_inv s" "sc_channel s i = Some c" "sc_channel s' = (sc_channel s)(i \<mapsto> c')"
    and "sc_multi_asset_channel s' = sc_multi_asset_channel s" "sc_token s' = sc_token s"
    and "sc_channel_count s' = sc_channel_count s" "sc_world s' = sc_world s"
    and "channel_ok c'" "ch_amount c' = ch_amount c" "ch_phase c' = Finalized \<longleftrightarrow> ch_phase c = Finalized"
  shows "backed_step X V s s'"
  using assms by (intro backed_channel [of s i c s' "Some c'"]) (auto simp: channel_worth_def channels_held_def)

lemma single_invD: "single_inv s \<Longrightarrow> sc_channel s i = Some c \<Longrightarrow> channel_ok c"
  by (simp add: single_inv_def)

lemma newer_channel_ok:
  assumes "channel_ok c" "htlc_inv s" "payment_inv s" "newer_state i c st s = (Ok c', s')"
  shows "channel_ok c' \<and> ch_amount c' = ch_amount c \<and> ch_phase c' = ch_phase c \<and> ch_balance c' \<le> ch_amount c \<and> s' = s"
proof -
  have "0 \<le> htlc_reserved s i" "0 \<le> hashlock_reserved s i"
    using assms(2,3) reserved_exact_bounds(2) by (auto simp: htlc_inv_def payment_inv_def)
  then show ?thesis using assms(1,4) consume_consumed(1) by (auto simp: ok_iff channel_ok_def)
qed

definition channels_inv :: "'w channels \<Rightarrow> bool" where
  "channels_inv s \<longleftrightarrow> single_inv s \<and> multi_inv s \<and> htlc_inv s \<and> payment_inv s \<and> bounty_inv s"

lemma channels_invD:
  assumes "channels_inv s"
  shows "single_inv s" "multi_inv s" "htlc_inv s" "payment_inv s" "bounty_inv s"
    and "0 \<le> htlc_reserved s i" "0 \<le> hashlock_reserved s i"
  using assms reserved_exact_bounds(2) by (auto simp: channels_inv_def htlc_inv_def payment_inv_def)

lemma update_with_backed:
  assumes "update_with i st v s = (Ok (), s')" "channels_inv s"
  shows "backed_step X V s s'"
proof -
  note inv = channels_invD [OF assms(2)]
  obtain c c' where c: "sc_channel s i = Some c" and n: "newer_state i c st s = (Ok c', s)"
    and s': "s' = s\<lparr>sc_channel := (sc_channel s)(i \<mapsto> c'),
      sc_events := sc_events s @ [StateUpdatedEvent i (su_nonce st) (su_balance st)]\<rparr>"
    using assms(1) by (auto simp: update_with_def ok_iff)
  show ?thesis
    using newer_channel_ok [OF single_invD [OF inv(1) c] inv(3,4) n] inv(1,2) c
    by (intro backed_quiet [of s i c s' c']) (auto simp: s')
qed

lemma record_close_backed:
  assumes "record_close E i c n b t = (Ok (), s')" "channels_inv s" "sc_channel s i = Some c" "ch_phase c = Open"
    and "0 \<le> b" "b \<le> ch_amount c" "t = s \<or> (\<exists>x. t = s\<lparr>sc_hashlock_reserved := r, sc_hashlock_payment := p,
      sc_channel := (sc_channel s)(i \<mapsto> c\<lparr>ch_balance := x\<rparr>), sc_events := ev\<rparr>)"
  shows "backed_step X V s s'"
proof -
  note inv = channels_invD [OF assms(2)]
  let ?c = "c\<lparr>ch_nonce_window := consume_best_effort (ch_nonce_window c) n, ch_nonce := max (ch_nonce c) n,
      ch_balance := b, ch_phase := Closed, ch_closed_at := sequence E\<rparr>"
  have "channel_ok ?c"
    using single_invD [OF inv(1) assms(3)] assms(5,6) by (simp add: channel_ok_def window_inv_best_effort)
  moreover have e: "sc_channel s' = (sc_channel s)(i \<mapsto> ?c)" using assms(1,7) by (auto simp: record_close_def ok_iff)
  ultimately show ?thesis
    using assms(1,4,7) by (intro backed_quiet [OF inv(1,2) assms(3) e]) (auto simp: record_close_def ok_iff)
qed

lemma closing_bounds:
  assumes "closing_channel E i st v s = (Ok c, t)" "channels_inv s"
  shows "t = s" "sc_channel s i = Some c" "ch_phase c = Open" "0 \<le> su_balance st" "su_balance st \<le> ch_amount c"
    and "su_balance st + hashlock_reserved s i \<le> ch_amount c"
  using closing_channel_Ok [OF assms(1)] channels_invD(6,7) [OF assms(2), of i] by auto

lemma close_with_preimage_backed:
  assumes "close_channel_with_preimage X' E i st g j pre s = (Ok (), s')" "channels_inv s"
  shows "backed_step X V s s'"
proof -
  note inv = channels_invD [OF assms(2)]
  obtain c x t u where cl: "closing_channel E i st (\<lambda>c. verify_state_signature X' c st g) s = (Ok c, t)"
    and re: "resolve_payment X' i j pre t = (Ok x, u)"
    and co: "record_close E i c (su_nonce st) (su_balance st + x) u = (Ok (), s')"
    using assms(1) by (auto simp: close_channel_with_preimage_def ok_iff i128_checked_def split: if_splits)
  note b = closing_bounds [OF cl assms(2)]
  obtain p where p: "sc_hashlock_payment s (i, j) = Some p" "hp_state p = PaymentPending" "x = hp_amount p"
    and u: "u = s\<lparr>sc_hashlock_reserved := (sc_hashlock_reserved s)(i \<mapsto> hashlock_reserved s i - x),
       sc_hashlock_payment := (sc_hashlock_payment s)((i, j) \<mapsto> p\<lparr>hp_state := PaymentResolved\<rparr>),
       sc_channel := (sc_channel s)(i \<mapsto> c\<lparr>ch_balance := ch_balance c + x\<rparr>),
       sc_events := sc_events s @ [HashlockPaymentRevealedEvent i j x (hp_hashlock p)]\<rparr>"
    using re [unfolded b(1)] inv(4) by (rule resolve_payment_Ok) (use b(2) in auto)
  have "payment_pending s (i, j) = x" using p by (simp add: payment_pending_def)
  then have "0 \<le> x" "x \<le> hashlock_reserved s i"
    using inv(4) reserved_exact_bounds(1,3) by (metis payment_inv_def)+
  then show ?thesis
    using b by (intro record_close_backed [OF co assms(2) b(2,3)]) (auto simp: u)
qed

lemma dispute_backed:
  assumes "dispute X' E i st g s = (Ok (), s')" "channels_inv s"
  shows "backed_step X V s s'"
proof -
  note inv = channels_invD [OF assms(2)]
  obtain c c' where c: "sc_channel s i = Some c" "ch_phase c = Closed" and n: "newer_state i c st s = (Ok c', s)"
    and s': "s' = s\<lparr>sc_channel := (sc_channel s)(i \<mapsto> c'\<lparr>ch_phase := Disputed, ch_disputed_at := sequence E,
        ch_dispute_extensions := 0\<rparr>), sc_events := sc_events s @ [DisputeEvent i (su_nonce st) (su_balance st) (sequence E)]\<rparr>"
    using assms(1) by (auto simp: dispute_def ok_iff)
  have e: "sc_channel s' = (sc_channel s)(i \<mapsto> c'\<lparr>ch_phase := Disputed, ch_disputed_at := sequence E,
      ch_dispute_extensions := 0\<rparr>)" by (simp add: s')
  show ?thesis
    using newer_channel_ok [OF single_invD [OF inv(1) c(1)] inv(3,4) n] c(2)
    by (intro backed_quiet [OF inv(1,2) c(1) e]) (auto simp: s' channel_ok_def)
qed

lemma counter_evidence_backed:
  assumes "submit_counter_evidence X' E i st g s = (Ok (), s')" "channels_inv s"
  shows "backed_step X V s s'" "\<exists>d ev. s' = s\<lparr>sc_channel := d, sc_events := ev\<rparr>"
proof -
  note inv = channels_invD [OF assms(2)]
  obtain c c' a b where c: "sc_channel s i = Some c" "ch_phase c = Disputed" and n: "newer_state i c st s = (Ok c', s)"
    and s': "s' = s\<lparr>sc_channel := (sc_channel s)(i \<mapsto> c'\<lparr>ch_disputed_at := a, ch_dispute_extensions := b\<rparr>),
        sc_events := sc_events s @ [StateUpdatedEvent i (su_nonce st) (su_balance st)]\<rparr>"
    using assms(1) by (auto simp: submit_counter_evidence_def ok_iff)
  have e: "sc_channel s' = (sc_channel s)(i \<mapsto> c'\<lparr>ch_disputed_at := a, ch_dispute_extensions := b\<rparr>)" by (simp add: s')
  show "backed_step X V s s'"
    using newer_channel_ok [OF single_invD [OF inv(1) c(1)] inv(3,4) n] c(2)
    by (intro backed_quiet [OF inv(1,2) c(1) e]) (auto simp: s' channel_ok_def)
  show "\<exists>d ev. s' = s\<lparr>sc_channel := d, sc_events := ev\<rparr>" unfolding s' by blast
qed

lemma resolve_htlc_backed:
  assumes "resolve_htlc X' i j pre s = (Ok (), s')" "channels_inv s"
  shows "backed_step X V s s'"
proof -
  note inv = channels_invD [OF assms(2)]
  obtain h c where h: "sc_htlc s (i, j) = Some h" "hl_state h = HtlcPending" and c: "sc_channel s i = Some c" "ch_phase c = Open"
    and s': "s' = s\<lparr>sc_htlc_reserved := (sc_htlc_reserved s)(i \<mapsto> htlc_reserved s i - hl_amount h),
       sc_htlc := (sc_htlc s)((i, j) \<mapsto> h\<lparr>hl_state := HtlcResolved\<rparr>),
       sc_channel := (sc_channel s)(i \<mapsto> c\<lparr>ch_balance := ch_balance c + hl_amount h\<rparr>),
       sc_events := sc_events s @ [HtlcResolvedEvent i j (hl_amount h)]\<rparr>"
    using assms(1) inv(3) by (rule resolve_htlc_Ok)
  have "htlc_pending s (i, j) = hl_amount h" using h by (simp add: htlc_pending_def)
  then have "0 \<le> hl_amount h" using inv(3) reserved_exact_bounds(1) by (metis htlc_inv_def)
  moreover have e: "sc_channel s' = (sc_channel s)(i \<mapsto> c\<lparr>ch_balance := ch_balance c + hl_amount h\<rparr>)" by (simp add: s')
  ultimately show ?thesis
    using single_invD [OF inv(1) c(1)] c(2)
    by (intro backed_quiet [OF inv(1,2) c(1) e]) (auto simp: s' channel_ok_def)
qed

lemma resolve_payment_backed:
  assumes "resolve_payment X' i j pre s = (Ok x, s')" "channels_inv s"
  shows "backed_step X V s s'"
proof -
  note inv = channels_invD [OF assms(2)]
  obtain p c where p: "sc_hashlock_payment s (i, j) = Some p" "hp_state p = PaymentPending" "x = hp_amount p"
    and c: "sc_channel s i = Some c" "ch_phase c = Open"
    and s': "s' = s\<lparr>sc_hashlock_reserved := (sc_hashlock_reserved s)(i \<mapsto> hashlock_reserved s i - x),
       sc_hashlock_payment := (sc_hashlock_payment s)((i, j) \<mapsto> p\<lparr>hp_state := PaymentResolved\<rparr>),
       sc_channel := (sc_channel s)(i \<mapsto> c\<lparr>ch_balance := ch_balance c + x\<rparr>),
       sc_events := sc_events s @ [HashlockPaymentRevealedEvent i j x (hp_hashlock p)]\<rparr>"
    using assms(1) inv(4) by (rule resolve_payment_Ok)
  have "payment_pending s (i, j) = x" using p by (simp add: payment_pending_def)
  then have "0 \<le> x" using inv(4) reserved_exact_bounds(1) by (metis payment_inv_def)
  moreover have e: "sc_channel s' = (sc_channel s)(i \<mapsto> c\<lparr>ch_balance := ch_balance c + x\<rparr>)" by (simp add: s')
  ultimately show ?thesis
    using single_invD [OF inv(1) c(1)] c(2)
    by (intro backed_quiet [OF inv(1,2) c(1) e]) (auto simp: s' channel_ok_def)
qed

section \<open>Settlement\<close>

text \<open>
  The three payments of a settled dispute, in order, between the state after the reward was taken and
  the state before the channel is finalized.
\<close>

lemma finalize_dispute_Ok:
  assumes "finalize_dispute X E i s = (Ok (), s')" "bounty_inv s"
  obtains c tok reward rest a s0 s1 s2 s3 where "sc_channel s i = Some c" "ch_phase c = Disputed" "sc_token s = Some tok"
    "u32_saturating_add (ch_disputed_at c) (ch_challenge_period c) < sequence E"
    "take_reward i (ch_balance c) (s\<lparr>sc_guard_lock := Some True\<rparr>) = (Ok (reward, rest, a), s0)"
    "pay_if_positive X tok (current_contract_address E) (ch_receiver c) rest s0 = (Ok (), s1)"
    "pay_if_positive X tok (current_contract_address E) (ch_sender c) (ch_amount c - ch_balance c) s1 = (Ok (), s2)"
    "(case a of Some w \<Rightarrow> pay_if_positive X tok (current_contract_address E) w reward | None \<Rightarrow> aret ()) s2 = (Ok (), s3)"
    "s' = s3\<lparr>sc_channel := (sc_channel s3)(i \<mapsto> c\<lparr>ch_phase := Finalized\<rparr>),
       sc_events := sc_events s3 @ [DisputeFinalizedEvent i rest (ch_amount c - ch_balance c)], sc_guard_lock := Some False\<rparr>"
  using assms(1) unfolding finalize_dispute_def Let_def
  by (auto simp: aseq_Ok_iff abind_Ok_iff lock_channels_Ok_iff get_channel_internal_Ok_iff arefuse_Ok_iff alift_Ok_iff
      ensure_window_elapsed_def not_le token_address_Ok_iff i128_op_Ok_iff store_channel_iff emit_iff unlock_channels_iff
      simp del: act_simps split: if_splits intro: that)

lemma finalize_dispute_backed:
  assumes "finalize_dispute X E i s = (Ok (), s')" "channels_inv s" "sep41 (cx_token X)" "current_contract_address E = V"
  shows "backed_step X V s s'"
proof -
  note inv = channels_invD [OF assms(2)]
  obtain c tok reward rest a s0 s1 s2 s3 where c: "sc_channel s i = Some c" "ch_phase c = Disputed" "sc_token s = Some tok"
    and tr: "take_reward i (ch_balance c) (s\<lparr>sc_guard_lock := Some True\<rparr>) = (Ok (reward, rest, a), s0)"
    and p1: "pay_if_positive X tok V (ch_receiver c) rest s0 = (Ok (), s1)"
    and p2: "pay_if_positive X tok V (ch_sender c) (ch_amount c - ch_balance c) s1 = (Ok (), s2)"
    and p3: "(case a of Some w \<Rightarrow> pay_if_positive X tok V w reward | None \<Rightarrow> aret ()) s2 = (Ok (), s3)"
    and s': "s' = s3\<lparr>sc_channel := (sc_channel s3)(i \<mapsto> c\<lparr>ch_phase := Finalized\<rparr>),
       sc_events := sc_events s3 @ [DisputeFinalizedEvent i rest (ch_amount c - ch_balance c)], sc_guard_lock := Some False\<rparr>"
    using assms(1) inv(5) unfolding assms(4) [symmetric] by (rule finalize_dispute_Ok)
  have ok: "0 \<le> ch_balance c" "ch_balance c \<le> ch_amount c" "channel_ok c"
    using single_invD [OF inv(1) c(1)] c(2) by (auto simp: channel_ok_def)
  have "bounty_inv (s\<lparr>sc_guard_lock := Some True\<rparr>)" using inv(5) by (simp add: bounty_inv_def)
  note rw = take_reward_Ok [OF tr this]
  have p3': "\<exists>w. s3 = s2\<lparr>sc_world := w\<rparr>" "channels_held X V s2 t - (if t = tok then reward else 0) \<le> channels_held X V s3 t" for t
  proof -
    show "\<exists>w. s3 = s2\<lparr>sc_world := w\<rparr>"
      using p3 held_pay(1) [OF assms(3)] by (cases a) (auto intro: exI [of _ "sc_world s2"])
    show "channels_held X V s2 t - (if t = tok then reward else 0) \<le> channels_held X V s3 t"
      using p3 held_pay(2) [OF assms(3), of tok V _ reward s2 "()" s3 t] rw(2,4) by (cases a) auto
  qed
  obtain b ev w1 w2 w3 where st: "s0 = s\<lparr>sc_guard_lock := Some True, sc_bounty := b, sc_events := ev\<rparr>"
      "s1 = s0\<lparr>sc_world := w1\<rparr>" "s2 = s1\<lparr>sc_world := w2\<rparr>" "s3 = s2\<lparr>sc_world := w3\<rparr>"
    using rw(6) held_pay(1) [OF assms(3) p1] held_pay(1) [OF assms(3) p2] p3'(1) by blast
  have held: "channels_held X V s t - (if t = tok then ch_amount c else 0) \<le> channels_held X V s' t" for t
  proof -
    have "channels_held X V s0 t = channels_held X V s t" "channels_held X V s' t = channels_held X V s3 t"
      by (simp_all add: channels_held_def st(1) s')
    then show ?thesis
      using held_pay(2) [OF assms(3) p1, of t] held_pay(2) [OF assms(3) p2, of t] p3'(2) [of t] rw(1-3) ok(1,2)
      by (cases "t = tok") auto
  qed
  have e: "sc_channel s' = (sc_channel s)(i := Some (c\<lparr>ch_phase := Finalized\<rparr>))" by (simp add: s' st)
  show ?thesis
  proof (rule backed_channel [OF inv(1,2) c(1) e])
    fix t
    show "channel_worth (sc_token s) t (Some (c\<lparr>ch_phase := Finalized\<rparr>)) - channel_worth (sc_token s) t (Some c)
        \<le> channels_held X V s' t - channels_held X V s t"
      using held [of t] c by (cases "t = tok") (auto simp: channel_worth_def)
  qed (use ok(3) in \<open>auto simp: s' st channel_ok_def\<close>)
qed

lemma claim_Ok:
  assumes "claim X E i s = (Ok (), s')"
  obtains c tok s1 where "sc_channel s i = Some c" "ch_phase c = Closed" "sc_token s = Some tok"
    "ch_closed_at c + ch_challenge_period c < sequence E"
    "pay_if_positive X tok (current_contract_address E) (ch_receiver c) (ch_balance c) (s\<lparr>sc_guard_lock := Some True\<rparr>) = (Ok (), s1)"
    "s' = s1\<lparr>sc_channel := (sc_channel s1)(i \<mapsto> c\<lparr>ch_phase := Finalized\<rparr>),
       sc_events := sc_events s1 @ [ClaimEvent i (ch_balance c) (ch_receiver c)], sc_guard_lock := Some False\<rparr>"
  using assms unfolding claim_def
  by (auto simp: aseq_Ok_iff abind_Ok_iff lock_channels_Ok_iff get_channel_internal_Ok_iff arefuse_Ok_iff alift_Ok_iff
      u32_add_Ok_iff not_le token_address_Ok_iff store_channel_iff emit_iff unlock_channels_iff simp del: act_simps intro: that)

lemma reclaim_Ok:
  assumes "reclaim X E i s = (Ok (), s')"
  obtains c tok s1 where "sc_channel s i = Some c" "ch_phase c = Open" "sc_token s = Some tok"
    "ch_opened_at c + max_channel_lifetime s < sequence E"
    "pay_if_positive X tok (current_contract_address E) (ch_sender c) (ch_amount c - ch_balance c)
       (s\<lparr>sc_guard_lock := Some True, sc_channel := (sc_channel s)(i \<mapsto> c\<lparr>ch_phase := Finalized\<rparr>)\<rparr>) = (Ok (), s1)"
    "s' = s1\<lparr>sc_guard_lock := Some False\<rparr>"
  using assms unfolding reclaim_def
  by (auto simp: aseq_Ok_iff abind_Ok_iff lock_channels_Ok_iff get_channel_internal_Ok_iff arefuse_Ok_iff alift_Ok_iff
      aread_iff max_channel_lifetime_def u32_add_Ok_iff i128_op_Ok_iff not_le token_address_Ok_iff store_channel_iff
      unlock_channels_iff simp del: act_simps intro: that)

lemma finalized_backed:
  assumes "channels_inv s" "sc_channel s i = Some c" "sc_token s = Some tok" "x \<le> ch_amount c"
    and "s' = s\<lparr>sc_channel := (sc_channel s)(i := o'), sc_events := ev, sc_guard_lock := l, sc_receiver_pubkey := k, sc_world := w\<rparr>"
    and "ch_phase c \<noteq> Finalized" "o' = None \<or> o' = Some (c\<lparr>ch_phase := Finalized\<rparr>)"
    and "\<And>t. channels_held X V s t - (if t = tok then max x 0 else 0) \<le> channels_held X V s' t"
  shows "backed_step X V s s'"
proof -
  note inv = channels_invD [OF assms(1)]
  have ok: "channel_ok c" by (rule single_invD [OF inv(1) assms(2)])
  have e: "sc_channel s' = (sc_channel s)(i := o')" by (simp add: assms(5))
  show ?thesis
  proof (rule backed_channel [OF inv(1,2) assms(2) e])
    fix t
    have "max x 0 \<le> ch_amount c" using assms(4) ok by (simp add: channel_ok_def)
    then show "channel_worth (sc_token s) t o' - channel_worth (sc_token s) t (Some c)
        \<le> channels_held X V s' t - channels_held X V s t"
      using assms(3,6,7) assms(8) [of t] by (cases "t = tok") (auto simp: channel_worth_def)
  qed (use ok assms(5,7) in \<open>auto simp: channel_ok_def\<close>)
qed

lemma claim_backed:
  assumes "claim X E i s = (Ok (), s')" "channels_inv s" "sep41 (cx_token X)" "current_contract_address E = V"
  shows "backed_step X V s s'"
proof -
  obtain c tok s1 where c: "sc_channel s i = Some c" "ch_phase c = Closed" "sc_token s = Some tok"
    and p: "pay_if_positive X tok V (ch_receiver c) (ch_balance c) (s\<lparr>sc_guard_lock := Some True\<rparr>) = (Ok (), s1)"
    and s': "s' = s1\<lparr>sc_channel := (sc_channel s1)(i \<mapsto> c\<lparr>ch_phase := Finalized\<rparr>),
       sc_events := sc_events s1 @ [ClaimEvent i (ch_balance c) (ch_receiver c)], sc_guard_lock := Some False\<rparr>"
    using assms(1) unfolding assms(4) [symmetric] by (rule claim_Ok)
  obtain w where w: "s1 = s\<lparr>sc_guard_lock := Some True, sc_world := w\<rparr>" using held_pay(1) [OF assms(3) p] by auto
  have "ch_balance c \<le> ch_amount c"
    using single_invD [OF channels_invD(1) [OF assms(2)] c(1)] c(2) by (simp add: channel_ok_def)
  then show ?thesis
    using c held_pay(2) [OF assms(3) p]
    by (intro finalized_backed [OF assms(2) c(1,3), where o' = "Some (c\<lparr>ch_phase := Finalized\<rparr>)" and x = "ch_balance c"
          and w = w and l = "Some False" and k = "sc_receiver_pubkey s"
          and ev = "sc_events s @ [ClaimEvent i (ch_balance c) (ch_receiver c)]"])
      (auto simp: s' w channels_held_def)
qed

lemma reclaim_backed:
  assumes "reclaim X E i s = (Ok (), s')" "channels_inv s" "sep41 (cx_token X)" "current_contract_address E = V"
  shows "backed_step X V s s'"
proof -
  obtain c tok s1 where c: "sc_channel s i = Some c" "ch_phase c = Open" "sc_token s = Some tok"
    and p: "pay_if_positive X tok V (ch_sender c) (ch_amount c - ch_balance c)
       (s\<lparr>sc_guard_lock := Some True, sc_channel := (sc_channel s)(i \<mapsto> c\<lparr>ch_phase := Finalized\<rparr>)\<rparr>) = (Ok (), s1)"
    and s': "s' = s1\<lparr>sc_guard_lock := Some False\<rparr>"
    using assms(1) unfolding assms(4) [symmetric] by (rule reclaim_Ok)
  obtain w where w: "s1 = s\<lparr>sc_guard_lock := Some True, sc_channel := (sc_channel s)(i \<mapsto> c\<lparr>ch_phase := Finalized\<rparr>),
      sc_world := w\<rparr>" using held_pay(1) [OF assms(3) p] by auto
  have "0 \<le> ch_balance c"
    using single_invD [OF channels_invD(1) [OF assms(2)] c(1)] by (simp add: channel_ok_def)
  then show ?thesis
    using c held_pay(2) [OF assms(3) p]
    by (intro finalized_backed [OF assms(2) c(1,3), where o' = "Some (c\<lparr>ch_phase := Finalized\<rparr>)"
          and x = "ch_amount c - ch_balance c" and w = w and l = "Some False" and k = "sc_receiver_pubkey s" and ev = "sc_events s"])
      (auto simp: s' w channels_held_def)
qed

lemma mutual_close_Ok:
  assumes "mutual_close X E m g g' s = (Ok (), s')"
  obtains c k tok s1 s2 where "sc_channel s (mc_channel_id m) = Some c" "ch_phase c \<noteq> Finalized"
    "sc_receiver_pubkey s (mc_channel_id m) = Some k" "0 \<le> mc_receiver_balance m" "0 \<le> mc_sender_balance m"
    "mc_receiver_balance m + mc_sender_balance m = ch_amount c" "sc_token s = Some tok"
    "cx_ed25519_verify X (ch_sender_pubkey c) (close_payload X (current_contract_address E) m) g"
    "cx_ed25519_verify X k (close_payload X (current_contract_address E) m) g'"
    "pay_if_positive X tok (current_contract_address E) (ch_receiver c) (mc_receiver_balance m)
       (s\<lparr>sc_channel := (sc_channel s)(mc_channel_id m := None),
          sc_receiver_pubkey := (sc_receiver_pubkey s)(mc_channel_id m := None)\<rparr>) = (Ok (), s1)"
    "pay_if_positive X tok (current_contract_address E) (ch_sender c) (mc_sender_balance m) s1 = (Ok (), s2)"
    "s' = s2\<lparr>sc_events := sc_events s2 @ [ChannelClosedCooperative (mc_channel_id m) (mc_receiver_balance m) (mc_sender_balance m)]\<rparr>"
  using assms unfolding mutual_close_def Let_def
  by (auto simp: aseq_Ok_iff abind_Ok_iff get_channel_internal_Ok_iff arefuse_Ok_iff alift_Ok_iff aread_iff amodify_iff
      ok_or_Ok_iff verify_signatures_def i128_checked_def not_less token_address_Ok_iff emit_iff
      simp del: act_simps split: if_splits intro: that)

lemma mutual_close_backed:
  assumes "mutual_close X E m g g' s = (Ok (), s')" "channels_inv s" "sep41 (cx_token X)" "current_contract_address E = V"
  shows "backed_step X V s s'"
proof -
  let ?i = "mc_channel_id m"
  obtain c tok s1 s2 where c: "sc_channel s ?i = Some c" "ch_phase c \<noteq> Finalized" "sc_token s = Some tok"
    and b: "0 \<le> mc_receiver_balance m" "0 \<le> mc_sender_balance m" "mc_receiver_balance m + mc_sender_balance m = ch_amount c"
    and p1: "pay_if_positive X tok V (ch_receiver c) (mc_receiver_balance m)
       (s\<lparr>sc_channel := (sc_channel s)(?i := None), sc_receiver_pubkey := (sc_receiver_pubkey s)(?i := None)\<rparr>) = (Ok (), s1)"
    and p2: "pay_if_positive X tok V (ch_sender c) (mc_sender_balance m) s1 = (Ok (), s2)"
    and s': "s' = s2\<lparr>sc_events := sc_events s2 @ [ChannelClosedCooperative ?i (mc_receiver_balance m) (mc_sender_balance m)]\<rparr>"
    using assms(1) unfolding assms(4) [symmetric] by (rule mutual_close_Ok)
  obtain w1 w2 where w: "s1 = s\<lparr>sc_channel := (sc_channel s)(?i := None),
      sc_receiver_pubkey := (sc_receiver_pubkey s)(?i := None), sc_world := w1\<rparr>" "s2 = s1\<lparr>sc_world := w2\<rparr>"
    using held_pay(1) [OF assms(3) p1] held_pay(1) [OF assms(3) p2] by auto
  have "channels_held X V s t - (if t = tok then max (ch_amount c) 0 else 0) \<le> channels_held X V s' t" for t
    using held_pay(2) [OF assms(3) p1, of t] held_pay(2) [OF assms(3) p2, of t] b
    by (cases "t = tok") (auto simp: s' w channels_held_def)
  then show ?thesis
    using c by (intro finalized_backed [OF assms(2) c(1,3), where o' = None and x = "ch_amount c" and w = w2
          and l = "sc_guard_lock s" and k = "(sc_receiver_pubkey s)(?i := None)"
          and ev = "sc_events s @ [ChannelClosedCooperative ?i (mc_receiver_balance m) (mc_sender_balance m)]"])
      (auto simp: s' w)
qed

end
