(* ===== verification/Channel_Escrow.thy ===== *)
theory Channel_Escrow
  imports Channel_Machine
begin

text \<open>
  The payment channel contract keeps its escrow: deposits, splices and multi-asset channels, then every
  entry point at once. The interpretation at the end instantiates the escrow interface on the calls of the
  contract, with the value of its unfinished channels as what it owes.
\<close>

section \<open>Deposits\<close>

lemma checked_q_Ok_iff: "ok_or (i128_checked z) e = Ok y \<longleftrightarrow> in_i128 z \<and> y = z"
  by (auto simp: i128_checked_def ok_or_Ok_iff)

lemmas splice_iffs = aseq_Ok_iff abind_Ok_iff aret_iff arefuse_Ok_iff alift_Ok_iff aread_iff obind_Ok_iff require_auth_Ok_iff
  get_channel_internal_Ok_iff token_address_Ok_iff move_tokens_Ok_iff store_channel_iff emit_iff checked_q_Ok_iff
  i128_op_Ok_iff load_open_channel_def free_balance_def

lemma splice_in_Ok:
  assumes "splice_in X E i x s = (Ok (), s')"
  shows "\<exists>c tok w. sc_channel s i = Some c \<and>
      ch_phase c = Open \<and>
      sc_token s = Some tok \<and>
      0 < x \<and>
      authorized E (ch_sender c) \<and>
      authorized E (ch_receiver c) \<and>
      tok_transfer (cx_token X) (sc_world s) tok (ch_sender c) (current_contract_address E) x = Some w \<and>
      s' = s\<lparr>sc_world := w, sc_channel := (sc_channel s)(i \<mapsto> c\<lparr>ch_amount := ch_amount c + x\<rparr>),
       sc_events := sc_events s @ [ChannelSplicedInEvent i x (ch_amount c + x)]\<rparr>"
  using assms unfolding splice_in_def splice_iffs not_not not_le
  by (elim exE conjE) (simp (no_asm_use) only: result.inject simp_thms, hypsubst, intro exI conjI,
    (assumption | linarith | simp (no_asm))+)

lemma store_channel_select:
  "sc_token (s\<lparr>sc_channel := m\<rparr>) = sc_token s" "sc_world (s\<lparr>sc_channel := m\<rparr>) = sc_world s"
  by simp_all

lemma splice_out_Ok:
  assumes "splice_out X E i x s = (Ok (), s')"
  shows "\<exists>c tok w. sc_channel s i = Some c \<and>
      ch_phase c = Open \<and>
      sc_token s = Some tok \<and>
      0 < x \<and>
      authorized E (ch_sender c) \<and>
      authorized E (ch_receiver c) \<and>
      ch_balance c + htlc_reserved s i + hashlock_reserved s i \<le> ch_amount c - x \<and>
      tok_transfer (cx_token X) (sc_world s) tok (current_contract_address E) (ch_sender c) x = Some w \<and>
      s' = s\<lparr>sc_channel := (sc_channel s)(i \<mapsto> c\<lparr>ch_amount := ch_amount c - x\<rparr>), sc_world := w,
       sc_events := sc_events s @ [ChannelSplicedOutEvent i x (ch_amount c - x)]\<rparr>"
  using assms unfolding splice_out_def splice_iffs not_not not_le not_less 
  by (elim exE conjE) (simp (no_asm_use) only: result.inject simp_thms, hypsubst,
    simp (no_asm_use) only: store_channel_select obind_Ok_iff checked_q_Ok_iff, elim exE conjE, hypsubst,
    intro exI conjI, (assumption | simp (no_asm) | linarith)+)

lemma splice_in_backed:
  assumes "splice_in X E i x s = (Ok (), s')" "channels_inv s" "sep41 (cx_token X)" "current_contract_address E = V" "\<not> authorized E V"
  shows "backed_step X V s s'"
proof -
  note inv = channels_invD [OF assms(2)]
  obtain c tok w where c: "sc_channel s i = Some c" "ch_phase c = Open" "sc_token s = Some tok" "0 < x" "authorized E (ch_sender c)"
    and w: "tok_transfer (cx_token X) (sc_world s) tok (ch_sender c) V x = Some w"
    and s': "s' = s\<lparr>sc_world := w, sc_channel := (sc_channel s)(i \<mapsto> c\<lparr>ch_amount := ch_amount c + x\<rparr>),
       sc_events := sc_events s @ [ChannelSplicedInEvent i x (ch_amount c + x)]\<rparr>"
    using splice_in_Ok [OF assms(1)] unfolding assms(4) by blast
  have e: "sc_channel s' = (sc_channel s)(i := Some (c\<lparr>ch_amount := ch_amount c + x\<rparr>))" by (simp add: s')
  have "ch_sender c \<noteq> V" using c(5) assms(5) by auto
  then have held: "channels_held X V s' t = channels_held X V s t + (if t = tok then x else 0)" for t
    using sep41D(3) [OF assms(3) w] by (simp add: channels_held_def s')
  show ?thesis
  proof (rule backed_channel [OF inv(1,2) c(1) e])
    fix t
    show "channel_worth (sc_token s) t (Some (c\<lparr>ch_amount := ch_amount c + x\<rparr>)) - channel_worth (sc_token s) t (Some c)
        \<le> channels_held X V s' t - channels_held X V s t"
      using held [of t] c by (cases "t = tok") (auto simp: channel_worth_def)
  qed (use single_invD [OF inv(1) c(1)] c(2,4) in \<open>auto simp: s' channel_ok_def\<close>)
qed

lemma splice_out_backed:
  assumes "splice_out X E i x s = (Ok (), s')" "channels_inv s" "sep41 (cx_token X)" "current_contract_address E = V"
  shows "backed_step X V s s'"
proof -
  note inv = channels_invD [OF assms(2)]
  obtain c tok w where c: "sc_channel s i = Some c" "ch_phase c = Open" "sc_token s = Some tok" "0 < x"
      "ch_balance c + htlc_reserved s i + hashlock_reserved s i \<le> ch_amount c - x"
    and w: "tok_transfer (cx_token X) (sc_world s) tok V (ch_sender c) x = Some w"
    and s': "s' = s\<lparr>sc_channel := (sc_channel s)(i \<mapsto> c\<lparr>ch_amount := ch_amount c - x\<rparr>), sc_world := w,
       sc_events := sc_events s @ [ChannelSplicedOutEvent i x (ch_amount c - x)]\<rparr>"
    using splice_out_Ok [OF assms(1)] unfolding assms(4) by blast
  have e: "sc_channel s' = (sc_channel s)(i := Some (c\<lparr>ch_amount := ch_amount c - x\<rparr>))" by (simp add: s')
  have held: "channels_held X V s t - (if t = tok then x else 0) \<le> channels_held X V s' t" for t
    using sep41D(1,3) [OF assms(3) w] c(4) by (auto simp: channels_held_def s')
  show ?thesis
  proof (rule backed_channel [OF inv(1,2) c(1) e])
    fix t
    show "channel_worth (sc_token s) t (Some (c\<lparr>ch_amount := ch_amount c - x\<rparr>)) - channel_worth (sc_token s) t (Some c)
        \<le> channels_held X V s' t - channels_held X V s t"
      using held [of t] c by (cases "t = tok") (auto simp: channel_worth_def)
  next
    show "channel_ok c'" if "Some (c\<lparr>ch_amount := ch_amount c - x\<rparr>) = Some c'" for c'
      using that single_invD [OF inv(1) c(1)] c(2,5) inv(6,7) [of i] by (auto simp: channel_ok_def)
  qed (auto simp: s')
qed

text \<open>The next identifier is free, so opening a channel adds exactly its worth.\<close>

lemma backed_open:
  assumes "channels_inv s" "sc_token s' = sc_token s" "sc_channel_count s' = Some n" "n = get_channel_count s + 1"
    and "sc_channel s' = (sc_channel s)(n := o1)" "sc_multi_asset_channel s' = (sc_multi_asset_channel s)(n := o2)"
    and "sc_token s \<noteq> None" "\<And>c. o1 = Some c \<Longrightarrow> channel_ok c" "\<And>c. o2 = Some c \<Longrightarrow> assets_ok (ma_assets c)"
    and "\<And>t. channel_worth (sc_token s) t o1 + assets_worth t o2 \<le> channels_held X V s' t - channels_held X V s t"
  shows "backed_step X V s s'"
proof -
  note inv = channels_invD [OF assms(1)]
  have "get_channel_count s' = n" by (simp add: get_channel_count_def assms(3))
  then have "single_inv s'" "multi_inv s'"
    using inv(1,2) assms(2,4-9) by (auto simp: single_inv_def multi_inv_def split: if_splits)
      (meson le_SucI)+
  moreover have "channels_owed s' t - channels_owed s t = channel_worth (sc_token s) t o1 + assets_worth t o2" for t
    using owed_open [OF inv(1,2) assms(2), of t] assms(3-6) by simp
  ultimately show ?thesis using assms(10) by (simp add: backed_step_def)
qed

definition opened_channel :: "env \<Rightarrow> address \<Rightarrow> address \<Rightarrow> bytes \<Rightarrow> i128 \<Rightarrow> u32 \<Rightarrow> channel" where
  "opened_channel E sender receiver pubkey amount period =
     \<lparr>ch_sender = sender, ch_receiver = receiver, ch_amount = amount, ch_nonce = 0, ch_balance = 0, ch_phase = Open,
      ch_opened_at = sequence E, ch_closed_at = 0, ch_disputed_at = 0, ch_dispute_extensions = 0,
      ch_challenge_period = effective_challenge_period period, ch_sender_pubkey = pubkey, ch_nonce_window = empty_window\<rparr>"

lemma open_channel_Ok:
  assumes "open_channel X E a b k x p s = (Ok i, s')"
  shows "\<exists>tok w. sc_token s = Some tok \<and> authorized E a \<and> 0 < x \<and> i = get_channel_count s + 1 \<and>
      tok_transfer (cx_token X) (sc_world s) tok a (current_contract_address E) x = Some w \<and>
      s' = s\<lparr>sc_world := w, sc_channel := (sc_channel s)(i \<mapsto> opened_channel E a b k x p), sc_channel_count := Some i,
        sc_events := sc_events s @ [ChannelOpenedEvent i a b x (effective_challenge_period p)]\<rparr>"
  using assms
  unfolding open_channel_def Let_def splice_iffs next_channel_id_Ok_iff amodify_iff not_le opened_channel_def [symmetric]
  by (elim exE conjE) (simp (no_asm_use) only: result.inject simp_thms, hypsubst, intro exI conjI,
    (assumption | simp (no_asm) add: get_channel_count_def)+)

lemma open_channel_backed:
  assumes "open_channel X E a b k x p s = (Ok i, s')" "channels_inv s" "sep41 (cx_token X)" "current_contract_address E = V" "\<not> authorized E V"
  shows "backed_step X V s s'"
proof -
  let ?c = "opened_channel E a b k x p"
  obtain tok w where c: "sc_token s = Some tok" "authorized E a" "0 < x" "i = get_channel_count s + 1"
    and w: "tok_transfer (cx_token X) (sc_world s) tok a V x = Some w"
    and s': "s' = s\<lparr>sc_world := w, sc_channel := (sc_channel s)(i \<mapsto> ?c), sc_channel_count := Some i,
       sc_events := sc_events s @ [ChannelOpenedEvent i a b x (effective_challenge_period p)]\<rparr>"
    using open_channel_Ok [OF assms(1)] unfolding assms(4) by blast
  have "a \<noteq> V" using c(2) assms(5) by auto
  then have held: "channels_held X V s' t = channels_held X V s t + (if t = tok then x else 0)" for t
    using sep41D(3) [OF assms(3) w] by (simp add: channels_held_def s')
  have multi: "sc_multi_asset_channel s i = None"
    using channels_invD(2) [OF assms(2)] c(4) unfolding multi_inv_def by (metis Suc_eq_plus1 Suc_n_not_le_n option.exhaust)
  show ?thesis
  proof (rule backed_open [OF assms(2) _ _ c(4), of s' "Some ?c" None])
    show "sc_multi_asset_channel s' = (sc_multi_asset_channel s)(i := None)" using multi by (auto simp: s' fun_eq_iff)
    show "channel_worth (sc_token s) t (Some ?c) + assets_worth t None \<le> channels_held X V s' t - channels_held X V s t" for t
      using held [of t] c(1) by (simp add: channel_worth_def assets_worth_def opened_channel_def)
  qed (use c in \<open>auto simp: s' channel_ok_def opened_channel_def\<close>)
qed

section \<open>Multi-asset channels\<close>

lemma asset_sum_simps [simp]:
  "asset_sum [] t = 0" "asset_sum (p # l) t = (if fst p = t then ba_deposit (snd p) else 0) + asset_sum l t"
  by (simp_all add: asset_sum_def case_prod_beta)

lemma assets_ok_simps [simp]:
  "assets_ok []"
  "assets_ok (p # l) \<longleftrightarrow> 0 \<le> ba_receiver_balance (snd p) \<and> ba_receiver_balance (snd p) \<le> ba_deposit (snd p) \<and> assets_ok l"
  by (auto simp: assets_ok_def)

lemma asset_sum_nonneg: "assets_ok l \<Longrightarrow> 0 \<le> asset_sum l t"
  by (induction l) auto

lemma update_asset:
  assumes "map_of l a = Some r" "ba_deposit r' = ba_deposit r"
  shows "asset_sum (AList.update a r' l) t = asset_sum l t"
    and "assets_ok l \<Longrightarrow> 0 \<le> ba_receiver_balance r' \<Longrightarrow> ba_receiver_balance r' \<le> ba_deposit r' \<Longrightarrow> assets_ok (AList.update a r' l)"
  using assms by (induction l) auto

lemma apply_balances_keeps:
  assumes "apply_balances l bs = Ok l'" "assets_ok l"
  shows "assets_ok l' \<and> asset_sum l' t = asset_sum l t"
  using assms
proof (induction l bs rule: apply_balances.induct)
  case (2 l a b bs)
  then obtain r where r: "map_of l a = Some r" "0 \<le> b" "b \<le> ba_deposit r"
      "apply_balances (AList.update a (r\<lparr>ba_receiver_balance := b\<rparr>) l) bs = Ok l'"
    by (auto simp: obind_Ok_iff ok_or_Ok_iff not_less split: if_splits)
  have "assets_ok (AList.update a (r\<lparr>ba_receiver_balance := b\<rparr>) l)"
    using update_asset(2) [OF r(1), of "r\<lparr>ba_receiver_balance := b\<rparr>"] r(2,3) 2(3) by simp
  moreover have "asset_sum (AList.update a (r\<lparr>ba_receiver_balance := b\<rparr>) l) t = asset_sum l t"
    using update_asset(1) [OF r(1), of "r\<lparr>ba_receiver_balance := b\<rparr>"] by simp
  ultimately show ?case using 2(1) [of r] r by simp
qed simp

lemma apply_state_keeps:
  assumes "apply_state X E i c st g newer = Ok c'" "assets_ok (ma_assets c)"
  shows "assets_ok (ma_assets c')" "ma_phase c' = ma_phase c" "asset_sum (ma_assets c') t = asset_sum (ma_assets c) t"
proof -
  obtain l where l: "apply_balances (ma_assets c) (ms_balances st) = Ok l" "c' = c\<lparr>ma_assets := l, ma_nonce := ms_nonce st\<rparr>"
    using assms(1) by (auto simp: apply_state_def obind_Ok_iff split: if_splits)
  then show "assets_ok (ma_assets c')" "ma_phase c' = ma_phase c" "asset_sum (ma_assets c') t = asset_sum (ma_assets c) t"
    using apply_balances_keeps [OF l(1) assms(2)] by simp_all
qed

lemma pull_deposits_held:
  assumes "pull_deposits X a V d s = (Ok l, s')" "sep41 (cx_token X)" "a \<noteq> V"
  shows "(\<exists>w. s' = s\<lparr>sc_world := w\<rparr>) \<and> assets_ok l \<and> channels_held X V s' t = channels_held X V s t + asset_sum l t"
  using assms(1)
proof (induction d arbitrary: s l)
  case Nil
  then show ?case by (auto simp: aret_iff intro: exI [of _ "sc_world s"])
next
  case (Cons p d)
  then obtain s1 l1 where p: "0 < snd p" and m: "move_tokens X (fst p) a V (snd p) s = (Ok (), s1)"
    and r: "pull_deposits X a V d s1 = (Ok l1, s')" and l: "l = (fst p, \<lparr>ba_deposit = snd p, ba_receiver_balance = 0\<rparr>) # l1"
    by (auto simp: aseq_Ok_iff abind_Ok_iff arefuse_Ok_iff aret_iff not_le simp del: act_simps)
  obtain w w' where "s1 = s\<lparr>sc_world := w\<rparr>" "s' = s1\<lparr>sc_world := w'\<rparr>"
    using held_receive(1) [OF assms(2) m assms(3)] Cons.IH [OF r] by blast
  then have "s' = s\<lparr>sc_world := w'\<rparr>" by simp
  then have "\<exists>w. s' = s\<lparr>sc_world := w\<rparr>" by blast
  then show ?case
    using Cons.IH [OF r] held_receive(2) [OF assms(2) m assms(3), of t] p unfolding l by simp
qed

lemma pay_assets_held:
  assumes "pay_assets X V c l s = (Ok r, s')" "sep41 (cx_token X)" "assets_ok l"
  shows "(\<exists>w. s' = s\<lparr>sc_world := w\<rparr>) \<and> channels_held X V s t - asset_sum l t \<le> channels_held X V s' t"
  using assms(1,3)
proof (induction l arbitrary: s r)
  case Nil
  then have "s' = s" by simp
  then have "s' = s\<lparr>sc_world := sc_world s\<rparr>" by simp
  then have "\<exists>w. s' = s\<lparr>sc_world := w\<rparr>" by blast
  then show ?case using \<open>s' = s\<close> by simp
next
  case (Cons p l)
  let ?b = "ba_receiver_balance (snd p)" let ?d = "ba_deposit (snd p)"
  from Cons.prems obtain s1 s2 q where p1: "pay_if_positive X (fst p) V (ma_receiver c) ?b s = (Ok (), s1)"
    and p2: "pay_if_positive X (fst p) V (ma_sender c) (?d - ?b) s1 = (Ok (), s2)"
    and rest: "pay_assets X V c l s2 = (Ok q, s')"
    by (auto simp: aseq_Ok_iff abind_Ok_iff alift_Ok_iff aret_iff checked_q_Ok_iff simp del: act_simps)
  have ok: "0 \<le> ?b" "?b \<le> ?d" "assets_ok l" using Cons.prems(2) by simp_all
  note IH = Cons.IH [OF rest ok(3)]
  obtain w1 w2 w3 where "s1 = s\<lparr>sc_world := w1\<rparr>" "s2 = s1\<lparr>sc_world := w2\<rparr>" "s' = s2\<lparr>sc_world := w3\<rparr>"
    using held_pay(1) [OF assms(2) p1] held_pay(1) [OF assms(2) p2] IH by blast
  then have "s' = s\<lparr>sc_world := w3\<rparr>" by simp
  then have "\<exists>w. s' = s\<lparr>sc_world := w\<rparr>" by blast
  moreover have "channels_held X V s t - asset_sum (p # l) t \<le> channels_held X V s' t"
    using IH ok(1,2) held_pay(2) [OF assms(2) p1, of t] held_pay(2) [OF assms(2) p2, of t] by (cases "fst p = t") simp_all
  ultimately show ?case by simp
qed

lemma backed_assets:
  assumes "single_inv s" "multi_inv s" "sc_multi_asset_channel s i = Some c"
    and "sc_multi_asset_channel s' = (sc_multi_asset_channel s)(i := o')" "sc_channel s' = sc_channel s"
    and "sc_token s' = sc_token s" "sc_channel_count s' = sc_channel_count s"
    and "\<And>c'. o' = Some c' \<Longrightarrow> assets_ok (ma_assets c')"
    and "\<And>t. assets_worth t o' - assets_worth t (Some c) \<le> channels_held X V s' t - channels_held X V s t"
  shows "backed_step X V s s'"
proof -
  have i: "i \<le> get_channel_count s" using assms(2,3) by (auto simp: multi_inv_def)
  have "single_inv s'" "multi_inv s'"
    using assms(1-8) i by (auto simp: single_inv_def multi_inv_def get_channel_count_def split: if_splits)
  then show ?thesis
    using owed_assets_change [OF assms(4-7) i] assms(3,9) by (simp add: backed_step_def)
qed

lemma lock_select: "sc_multi_asset_channel (s\<lparr>sc_guard_lock := l\<rparr>) = sc_multi_asset_channel s"
  by simp

lemma phase_guard: "(case ph of Open \<Rightarrow> a | Closed \<Rightarrow> b | Disputed \<Rightarrow> Err e | Finalized \<Rightarrow> Err e) = Ok u \<Longrightarrow> ph \<noteq> Finalized"
  by (cases ph) auto

lemma multi_invD: "multi_inv s \<Longrightarrow> sc_multi_asset_channel s i = Some c \<Longrightarrow> assets_ok (ma_assets c)"
  by (simp add: multi_inv_def)

lemma load_assets_Ok_iff [ok_iff]: "load_assets i s = (Ok c, s') \<longleftrightarrow> sc_multi_asset_channel s i = Some c \<and> s' = s"
  by (auto simp: load_assets_def ok_iff)

lemma store_assets_iff [ok_iff]:
  "store_assets i c s = (r, s') \<longleftrightarrow> r = Ok () \<and> s' = s\<lparr>sc_multi_asset_channel := (sc_multi_asset_channel s)(i \<mapsto> c)\<rparr>"
  by (auto simp: store_assets_def)

lemma signed_assets_backed:
  assumes "channels_inv s" "sc_multi_asset_channel s i = Some c" "apply_state X' E i c st g newer = Ok c1"
    and "c' = c1\<lparr>ma_phase := ph, ma_closed_at := n\<rparr>" "ma_phase c \<noteq> Finalized" "ph \<noteq> Finalized"
    and "s' = s\<lparr>sc_multi_asset_channel := (sc_multi_asset_channel s)(i \<mapsto> c'), sc_events := ev\<rparr>"
  shows "backed_step X V s s'"
proof -
  note inv = channels_invD [OF assms(1)]
  note ok = apply_state_keeps [OF assms(3) multi_invD [OF inv(2) assms(2)]]
  have e: "sc_multi_asset_channel s' = (sc_multi_asset_channel s)(i := Some c')" by (simp add: assms(7))
  show ?thesis
    using ok assms(5,6)
    by (intro backed_assets [OF inv(1,2) assms(2) e])
      (auto simp: assms(4,7) assets_worth_def channels_held_def)
qed

lemma update_multi_backed:
  assumes "update_multi_asset_state X' E i st g s = (Ok (), s')" "channels_inv s"
  shows "backed_step X V s s'"
proof -
  obtain c c1 where c: "sc_multi_asset_channel s i = Some c" "ma_phase c \<noteq> Finalized"
    and a: "apply_state X' E i c st g True = Ok c1"
    and s': "s' = s\<lparr>sc_multi_asset_channel := (sc_multi_asset_channel s)(i \<mapsto>
        (if ma_phase c1 = Closed then c1\<lparr>ma_closed_at := sequence E\<rparr> else c1)),
      sc_events := sc_events s @ [MultiAssetStateUpdatedEvent i (ms_nonce st) (ms_balances st)
        (ma_phase (if ma_phase c1 = Closed then c1\<lparr>ma_closed_at := sequence E\<rparr> else c1))]\<rparr>"
    using assms(1) by (auto simp: update_multi_asset_state_def Let_def ok_iff simp del: act_simps dest!: phase_guard)
  have ph: "ma_phase c1 = ma_phase c"
    by (rule apply_state_keeps(2) [OF a multi_invD [OF channels_invD(2) [OF assms(2)] c(1)]])
  show ?thesis
  proof (rule signed_assets_backed [OF assms(2) c(1) a _ _ _ s'])
    show "(if ma_phase c1 = Closed then c1\<lparr>ma_closed_at := sequence E\<rparr> else c1) =
        c1\<lparr>ma_phase := ma_phase c1, ma_closed_at := if ma_phase c1 = Closed then sequence E else ma_closed_at c1\<rparr>" by simp
  qed (use c(2) ph in auto)
qed

lemma close_multi_backed:
  assumes "close_multi_asset_channel X' E i st g s = (Ok (), s')" "channels_inv s"
  shows "backed_step X V s s'"
proof -
  obtain c c1 where c: "sc_multi_asset_channel s i = Some c" "ma_phase c = Open"
    and a: "apply_state X' E i c st g False = Ok c1"
    and s': "s' = s\<lparr>sc_multi_asset_channel := (sc_multi_asset_channel s)(i \<mapsto> c1\<lparr>ma_phase := Closed, ma_closed_at := sequence E\<rparr>),
      sc_events := sc_events s @ [MultiAssetStateUpdatedEvent i (ms_nonce st) (ms_balances st) Closed]\<rparr>"
    using assms(1) by (auto simp: close_multi_asset_channel_def ok_iff simp del: act_simps)
  show ?thesis by (rule signed_assets_backed [OF assms(2) c(1) a refl _ _ s']) (simp_all add: c(2))
qed

lemma open_multi_backed:
  assumes "open_multi_asset_channel X E a b k d p s = (Ok i, s')" "channels_inv s" "sep41 (cx_token X)"
    and "current_contract_address E = V" "\<not> authorized E V"
  shows "backed_step X V s s'"
proof -
  obtain l s1 ev where auth: "authorized E a" and tok: "sc_token s \<noteq> None"
    and pull: "pull_deposits X a V d s = (Ok l, s1)" and i: "i = get_channel_count s1 + 1"
    and s': "s' = s1\<lparr>sc_channel_count := Some i, sc_multi_asset_channel := (sc_multi_asset_channel s1)(i \<mapsto>
        \<lparr>ma_sender = a, ma_receiver = b, ma_sender_pubkey = k, ma_assets = l, ma_nonce = 0, ma_phase = Open,
         ma_opened_at = sequence E, ma_closed_at = 0, ma_challenge_period = effective_challenge_period p\<rparr>), sc_events := ev\<rparr>"
    using assms(1,4) by (auto simp: open_multi_asset_channel_def Let_def ok_iff simp del: act_simps)
  have "a \<noteq> V" using auth assms(5) by auto
  note pd = pull_deposits_held [OF pull assms(3) this]
  obtain w where s1: "s1 = s\<lparr>sc_world := w\<rparr>" using pd by blast
  have n: "i = get_channel_count s + 1" by (simp add: i s1 get_channel_count_def)
  have single: "sc_channel s i = None"
    using channels_invD(1) [OF assms(2)] n unfolding single_inv_def by (metis Suc_eq_plus1 Suc_n_not_le_n option.exhaust)
  let ?c = "\<lparr>ma_sender = a, ma_receiver = b, ma_sender_pubkey = k, ma_assets = l, ma_nonce = 0, ma_phase = Open,
     ma_opened_at = sequence E, ma_closed_at = 0, ma_challenge_period = effective_challenge_period p\<rparr>"
  show ?thesis
  proof (rule backed_open [OF assms(2) _ _ n, of s' None "Some ?c"])
    show "sc_channel s' = (sc_channel s)(i := None)" using single by (auto simp: s' s1 fun_eq_iff)
    show "channel_worth (sc_token s) t None + assets_worth t (Some ?c) \<le> channels_held X V s' t - channels_held X V s t" for t
      using pd [of t] by (simp add: channel_worth_def assets_worth_def channels_held_def s')
  qed (use pd tok in \<open>auto simp: s' s1\<close>)
qed

lemma settle_multi_Ok:
  assumes "settle_multi_asset_channel X E i s = (Ok (), s')"
  obtains c s1 pays refunds where "sc_multi_asset_channel s i = Some c" "ma_phase c \<noteq> Finalized"
    "pay_assets X (current_contract_address E) c (ma_assets c) (s\<lparr>sc_guard_lock := Some True,
      sc_multi_asset_channel := (sc_multi_asset_channel s)(i \<mapsto> c\<lparr>ma_phase := Finalized\<rparr>)\<rparr>) = (Ok (pays, refunds), s1)"
    "s' = s1\<lparr>sc_events := sc_events s1 @ [MultiAssetSettledEvent i pays refunds], sc_guard_lock := Some False\<rparr>"
  using assms unfolding settle_multi_asset_channel_def
    aseq_Ok_iff abind_Ok_iff lock_channels_Ok_iff load_assets_Ok_iff aread_iff alift_Ok_iff store_assets_iff
    emit_iff unlock_channels_iff split_paired_Ex prod.case
  by (elim exE conjE) (drule phase_guard, simp (no_asm_use) only: result.inject simp_thms, hypsubst,
    simp (no_asm_use) only: lock_select, rule that, (assumption | rule refl)+)

lemma settle_multi_backed:
  assumes "settle_multi_asset_channel X E i s = (Ok (), s')" "channels_inv s" "sep41 (cx_token X)" "current_contract_address E = V"
  shows "backed_step X V s s'"
proof -
  note inv = channels_invD [OF assms(2)]
  obtain c s1 pays refunds where c: "sc_multi_asset_channel s i = Some c" "ma_phase c \<noteq> Finalized"
    and p: "pay_assets X V c (ma_assets c) (s\<lparr>sc_guard_lock := Some True,
        sc_multi_asset_channel := (sc_multi_asset_channel s)(i \<mapsto> c\<lparr>ma_phase := Finalized\<rparr>)\<rparr>) = (Ok (pays, refunds), s1)"
    and s': "s' = s1\<lparr>sc_events := sc_events s1 @ [MultiAssetSettledEvent i pays refunds], sc_guard_lock := Some False\<rparr>"
    using assms(1) unfolding assms(4) [symmetric] by (rule settle_multi_Ok)
  note ok = multi_invD [OF inv(2) c(1)]
  note pa = pay_assets_held [OF p assms(3) ok]
  obtain w where s1: "s1 = s\<lparr>sc_guard_lock := Some True,
      sc_multi_asset_channel := (sc_multi_asset_channel s)(i \<mapsto> c\<lparr>ma_phase := Finalized\<rparr>), sc_world := w\<rparr>"
    using pa by blast
  have e: "sc_multi_asset_channel s' = (sc_multi_asset_channel s)(i := Some (c\<lparr>ma_phase := Finalized\<rparr>))" by (simp add: s' s1)
  show ?thesis
  proof (rule backed_assets [OF inv(1,2) c(1) e])
    fix t
    show "assets_worth t (Some (c\<lparr>ma_phase := Finalized\<rparr>)) - assets_worth t (Some c) \<le> channels_held X V s' t - channels_held X V s t"
      using pa [of t] c(2) by (auto simp: assets_worth_def channels_held_def s')
  qed (use ok in \<open>auto simp: s' s1\<close>)
qed

section \<open>The contract is an escrow\<close>

lemma backed_cong: "backed_step X V s s1 \<Longrightarrow> book_view s' = book_view s1 \<Longrightarrow> backed_step X V s s'"
  by (simp add: book_view_def backed_step_def single_inv_def multi_inv_def channels_owed_def channels_held_def
      get_channel_count_def)

lemma watchtower_counter_evidence_Ok:
  assumes "watchtower_counter_evidence X E i st g w s = (Ok (), s')"
  obtains s1 where "submit_counter_evidence X E i st g s = (Ok (), s1)"
    "s' = s1\<lparr>sc_bounty := (sc_bounty s1)(i \<mapsto> \<lparr>wb_reward_bps = reward_bps s1 i, wb_watchtower = Some w\<rparr>)\<rparr>"
  using assms
  by (auto simp: watchtower_counter_evidence_def record_watchtower_def store_bounty_def ok_iff simp del: act_simps intro: that)

lemma initialize_backed:
  assumes "initialize_channels tok s = (Ok (), s')" "channels_inv s"
  shows "backed_step X V s s'"
proof -
  note inv = channels_invD [OF assms(2)]
  have none: "sc_token s = None" and s': "s' = s\<lparr>sc_token := Some tok, sc_channel_count := Some 0,
      sc_max_channel_lifetime := Some DEFAULT_MAX_CHANNEL_LIFETIME\<rparr>"
    using assms(1) by (auto simp: initialize_channels_def ok_iff split: if_splits)
  have e: "sc_channel s = Map.empty" "sc_multi_asset_channel s = Map.empty"
    using inv(1,2) none by (simp_all add: single_inv_def multi_inv_def)
  then have "channels_owed s t = 0" "channels_owed s' t = 0" for t
    by (simp_all add: channels_owed_def channel_worth_def assets_worth_def s')
  moreover have "single_inv s'" "multi_inv s'" using e by (simp_all add: single_inv_def multi_inv_def s')
  moreover have "channels_held X V s' t = channels_held X V s t" for t by (simp add: channels_held_def s')
  ultimately show ?thesis by (simp add: backed_step_def)
qed

lemma run_backed:
  assumes run: "channel_run X E c s = (Ok (), s')" and inv: "channels_inv s" and tok: "sep41 (cx_token X)"
    and self: "current_contract_address E = V" "\<not> authorized E V"
  shows "backed_step X V s s'"
proof (cases c)
  case (InitializeChannels t)
  then show ?thesis using run inv by (auto intro: initialize_backed)
next
  case (OpenChannel a b k x p)
  then obtain i where "open_channel X E a b k x p s = (Ok i, s')" using run by (auto simp: ok_iff simp del: act_simps)
  then show ?thesis using inv tok self by (rule open_channel_backed)
next
  case (UpdateState i st g)
  then show ?thesis using run inv by (auto simp: update_state_def intro: update_with_backed)
next
  case (UpdateStateDelegated i st g ce cg)
  then show ?thesis using run inv by (auto simp: update_state_delegated_def intro: update_with_backed)
next
  case (CloseChannel i st g)
  then obtain d t where "closing_channel E i st (\<lambda>c. verify_state_signature X c st g) s = (Ok d, t)"
      "record_close E i d (su_nonce st) (su_balance st) t = (Ok (), s')"
    using run by (auto simp: close_channel_def abind_Ok_iff)
  then show ?thesis using closing_bounds [OF _ inv] by (intro record_close_backed [OF _ inv]) auto
next
  case (CloseChannelDelegated i st g ce cg)
  then obtain d t where "closing_channel E i st (\<lambda>c. verify_delegated_state_signature X E c i st g ce cg) s = (Ok d, t)"
      "record_close E i d (su_nonce st) (su_balance st) t = (Ok (), s')"
    using run by (auto simp: close_channel_delegated_def abind_Ok_iff)
  then show ?thesis using closing_bounds [OF _ inv] by (intro record_close_backed [OF _ inv]) auto
next
  case (WatchtowerCounterEvidence i st g w)
  then have "watchtower_counter_evidence X E i st g w s = (Ok (), s')" using run by simp
  then show ?thesis
    by (rule watchtower_counter_evidence_Ok)
      (rule backed_cong [OF counter_evidence_backed(1)], assumption, rule inv, simp add: book_view_def)
next
  case (RevealPreimage i p pre)
  then obtain x where "resolve_payment X i p pre s = (Ok x, s')" using run by (auto simp: ok_iff simp del: act_simps)
  then show ?thesis using inv by (rule resolve_payment_backed)
next
  case (OpenMultiAsset a b k d p)
  then obtain i where "open_multi_asset_channel X E a b k d p s = (Ok i, s')" using run by (auto simp: ok_iff simp del: act_simps)
  then show ?thesis using inv tok self by (rule open_multi_backed)
qed (use run inv tok self in \<open>auto intro: close_with_preimage_backed dispute_backed counter_evidence_backed(1)
    finalize_dispute_backed claim_backed reclaim_backed mutual_close_backed splice_in_backed splice_out_backed
    resolve_htlc_backed update_multi_backed close_multi_backed settle_multi_backed\<close>,
  (rule backed_frame [where m = "channel_run X E c", OF run _ channels_invD(1,2) [OF inv]],
    simp only: channel_run.simps channel_call_defs, (intro keeps_intro keeps_amodify; simp add: book_view_def))+)

lemma bounty_frame:
  assumes "m s = (r, s')" "keeps (\<lambda>t. sc_bounty t = sc_bounty s) m" "bounty_inv s"
  shows "bounty_inv s'"
  using keepsD [OF assms(2) refl assms(1)] assms(3) by (simp add: bounty_inv_def)

lemma keeps_payouts:
  "keeps (\<lambda>t. sc_bounty t = b) (pay_if_positive X tok a w x)"
  "keeps (\<lambda>t. sc_bounty t = b) (case o' of Some w \<Rightarrow> pay_if_positive X tok a w x | None \<Rightarrow> aret ())"
  by (intro keeps_intro; simp)+

lemma run_bounty_inv:
  assumes run: "channel_run X E c s = (Ok (), s')" and inv: "channels_inv s"
  shows "bounty_inv s'"
proof (cases c)
  case (WatchtowerCounterEvidence i st g w)
  then have "watchtower_counter_evidence X E i st g w s = (Ok (), s')" using run by simp
  then obtain s1 where s1: "submit_counter_evidence X E i st g s = (Ok (), s1)"
    and s': "s' = s1\<lparr>sc_bounty := (sc_bounty s1)(i \<mapsto> \<lparr>wb_reward_bps = reward_bps s1 i, wb_watchtower = Some w\<rparr>)\<rparr>"
    by (rule watchtower_counter_evidence_Ok)
  have "sc_bounty s1 = sc_bounty s" using counter_evidence_backed(2) [OF s1 inv] by auto
  then show ?thesis using channels_invD(5) [OF inv] by (auto simp: bounty_inv_def s' reward_bps_def split: option.splits)
next
  case (SetWatchtowerBounty i b)
  then show ?thesis
    using run channels_invD(5) [OF inv]
    by (auto simp: set_watchtower_bounty_def store_bounty_def bounty_inv_def ok_iff not_less simp del: act_simps split: if_splits)
next
  case (FinalizeDispute i)
  then have fin: "finalize_dispute X E i s = (Ok (), s')" using run by simp
  show ?thesis using fin channels_invD(5) [OF inv]
  proof (rule finalize_dispute_Ok)
    fix d tok reward rest a s0 s1 s2 s3
    assume tr: "take_reward i (ch_balance d) (s\<lparr>sc_guard_lock := Some True\<rparr>) = (Ok (reward, rest, a), s0)"
      and p: "pay_if_positive X tok (current_contract_address E) (ch_receiver d) rest s0 = (Ok (), s1)"
        "pay_if_positive X tok (current_contract_address E) (ch_sender d) (ch_amount d - ch_balance d) s1 = (Ok (), s2)"
        "(case a of Some w \<Rightarrow> pay_if_positive X tok (current_contract_address E) w reward | None \<Rightarrow> aret ()) s2 = (Ok (), s3)"
      and s': "s' = s3\<lparr>sc_channel := (sc_channel s3)(i \<mapsto> d\<lparr>ch_phase := Finalized\<rparr>),
        sc_events := sc_events s3 @ [DisputeFinalizedEvent i rest (ch_amount d - ch_balance d)], sc_guard_lock := Some False\<rparr>"
    have "sc_bounty s1 = sc_bounty s0" by (rule keepsD [OF keeps_payouts(1) refl p(1)])
    moreover have "sc_bounty s2 = sc_bounty s1" by (rule keepsD [OF keeps_payouts(1) refl p(2)])
    moreover have "sc_bounty s3 = sc_bounty s2" by (rule keepsD [OF keeps_payouts(2) refl p(3)])
    moreover have "bounty_inv s0"
      using take_reward_Ok(5) [OF tr] channels_invD(5) [OF inv] by (simp add: bounty_inv_def)
    ultimately show "bounty_inv s'" by (simp add: bounty_inv_def s')
  qed
qed ((rule bounty_frame [where m = "channel_run X E c", OF run _ channels_invD(5) [OF inv]],
    simp only: channel_run.simps channel_call_defs, (intro keeps_intro keeps_amodify; simp))+)

lemma run_channels_inv:
  assumes "channel_run X E c s = (Ok (), s')" "channels_inv s" "sep41 (cx_token X)"
    and "current_contract_address E = V" "\<not> authorized E V"
  shows "channels_inv s'"
  using run_backed [OF assms] run_htlc_inv [OF assms(1)] run_payment_inv [OF assms(1)] run_bounty_inv [OF assms(1,2)]
    channels_invD [OF assms(2)]
  by (simp add: channels_inv_def backed_step_def)

lemma channels_inv_world [simp]: "channels_inv (s\<lparr>sc_world := w\<rparr>) = channels_inv s"
  by (simp add: channels_inv_def single_inv_def multi_inv_def htlc_inv_def htlc_pending_def [abs_def] htlc_reserved_def [abs_def]
      payment_inv_def payment_pending_def [abs_def] hashlock_reserved_def [abs_def] bounty_inv_def get_channel_count_def)

lemma channels_inv_empty [simp]: "channels_inv (channels_empty w)"
  by (simp add: channels_inv_def single_inv_def multi_inv_def htlc_inv_def htlc_pending_def [abs_def] htlc_reserved_def [abs_def]
      payment_inv_def payment_pending_def [abs_def] hashlock_reserved_def [abs_def] bounty_inv_def channels_empty_def
      reserved_exact_def)

lemma channels_owed_empty [simp]: "channels_owed (channels_empty w) t = 0"
  by (simp add: channels_owed_def channels_empty_def channel_worth_def assets_worth_def)

interpretation chan: escrow "channel_step X V" "\<lambda>s. channels_inv s \<and> sep41 (cx_token X)" "channels_held X V" channels_owed
  for X :: "'w channel_ext" and V
proof unfold_locales
  fix s s' t
  assume i: "channels_inv s \<and> sep41 (cx_token X)" and st: "channel_step X V s s'"
  show "channels_inv s' \<and> sep41 (cx_token X)"
    using st i by cases (auto simp: invoke_Ok_iff intro: run_channels_inv)
  show "channels_owed s' t - channels_owed s t \<le> channels_held X V s' t - channels_held X V s t"
    using st
  proof cases
    case (call E c)
    then have "backed_step X V s s'" using i by (intro run_backed) (auto simp: invoke_Ok_iff)
    then show ?thesis by (simp add: backed_step_def)
  next
    case (world w)
    then show ?thesis by (simp add: channels_owed_def channels_held_def get_channel_count_def)
  qed
qed

end
