(* ===== verification/Channel_Lifecycle.thy ===== *)
theory Channel_Lifecycle
  imports Channel_Escrow
begin

text \<open>
  The life of a channel as an abstract specification: phases only move from open over closed and disputed
  to finalized, the parties and the signing key never change, a consumed nonce stays consumed, a closed
  channel keeps its escrow and only raises the receiver's balance, and a dispute can be prolonged three
  times. Every step of the contract moves every channel along this relation.
\<close>

section \<open>The specification\<close>

primrec phase_rank :: "channel_phase \<Rightarrow> nat" where
  "phase_rank Open = 0"
| "phase_rank Closed = 1"
| "phase_rank Disputed = 2"
| "phase_rank Finalized = 3"

definition same_terms :: "channel \<Rightarrow> channel \<Rightarrow> bool" where
  "same_terms c c' \<longleftrightarrow> ch_sender c' = ch_sender c \<and> ch_receiver c' = ch_receiver c \<and>
     ch_sender_pubkey c' = ch_sender_pubkey c \<and> ch_challenge_period c' = ch_challenge_period c \<and>
     ch_opened_at c' = ch_opened_at c"

definition window_grows :: "channel \<Rightarrow> channel \<Rightarrow> bool" where
  "window_grows c c' \<longleftrightarrow> ch_nonce c \<le> ch_nonce c' \<and>
     (\<forall>n. is_consumed (ch_nonce_window c) n \<longrightarrow> is_consumed (ch_nonce_window c') n)"

definition dispute_prolonged :: "channel \<Rightarrow> channel \<Rightarrow> bool" where
  "dispute_prolonged c c' \<longleftrightarrow> ch_dispute_extensions c \<le> ch_dispute_extensions c' \<and>
     ch_dispute_extensions c' \<le> max (ch_dispute_extensions c) MAX_DISPUTE_EXTENSIONS \<and>
     ch_disputed_at c' \<le> ch_disputed_at c +
       COUNTER_PROOF_EXTENSION_LEDGERS * (ch_dispute_extensions c' - ch_dispute_extensions c)"

definition evolves :: "channel \<Rightarrow> channel \<Rightarrow> bool" where
  "evolves c c' \<longleftrightarrow> same_terms c c' \<and> window_grows c c' \<and> phase_rank (ch_phase c) \<le> phase_rank (ch_phase c') \<and>
     (ch_phase c \<noteq> Open \<longrightarrow> ch_amount c' = ch_amount c \<and> ch_balance c \<le> ch_balance c') \<and>
     (ch_phase c = Disputed \<and> ch_phase c' = Disputed \<longrightarrow> dispute_prolonged c c') \<and>
     (ch_phase c = Finalized \<longrightarrow> c' = c)"

definition advances :: "'w channels \<Rightarrow> 'w channels \<Rightarrow> bool" where
  "advances s s' \<longleftrightarrow> get_channel_count s \<le> get_channel_count s' \<and>
     (\<forall>i c'. i \<le> get_channel_count s \<longrightarrow> sc_channel s' i = Some c' \<longrightarrow>
       (\<exists>c. sc_channel s i = Some c \<and> evolves c c')) \<and>
     (\<forall>i c. sc_channel s i = Some c \<longrightarrow> ch_phase c = Finalized \<longrightarrow> sc_channel s' i = Some c)"

lemma phase_rank_between:
  "phase_rank (ch_phase c) \<le> phase_rank (ch_phase d) \<Longrightarrow> ch_phase c \<noteq> Open \<Longrightarrow> ch_phase d \<noteq> Open"
  "phase_rank (ch_phase c) \<le> phase_rank (ch_phase d) \<Longrightarrow> phase_rank (ch_phase d) \<le> phase_rank (ch_phase e) \<Longrightarrow>
    ch_phase c = Disputed \<Longrightarrow> ch_phase e = Disputed \<Longrightarrow> ch_phase d = Disputed"
  by (cases "ch_phase c"; cases "ch_phase d"; simp)+

lemma dispute_prolonged_trans: "dispute_prolonged c d \<Longrightarrow> dispute_prolonged d e \<Longrightarrow> dispute_prolonged c e"
  by (auto simp: dispute_prolonged_def COUNTER_PROOF_EXTENSION_LEDGERS_def)

lemma evolves_refl [simp]: "evolves c c"
  by (simp add: evolves_def same_terms_def window_grows_def dispute_prolonged_def)

lemma evolves_trans:
  assumes "evolves c d" "evolves d e"
  shows "evolves c e"
proof -
  note cd = assms(1) [unfolded evolves_def] note de = assms(2) [unfolded evolves_def]
  have "same_terms c e" "window_grows c e" using cd de by (auto simp: same_terms_def window_grows_def)
  moreover have "phase_rank (ch_phase c) \<le> phase_rank (ch_phase e)" using cd de by simp
  moreover have "ch_amount e = ch_amount c \<and> ch_balance c \<le> ch_balance e" if "ch_phase c \<noteq> Open"
    using cd de that phase_rank_between(1) [of c d] by auto
  moreover have "dispute_prolonged c e" if "ch_phase c = Disputed" "ch_phase e = Disputed"
    using cd de that phase_rank_between(2) [of c d e] dispute_prolonged_trans [of c d e] by simp
  moreover have "e = c" if "ch_phase c = Finalized" using cd de that by simp
  ultimately show ?thesis by (simp add: evolves_def)
qed

lemma advances_refl [simp]: "advances s s"
  by (auto simp: advances_def)

lemma advances_trans:
  assumes "advances s t" "advances t u"
  shows "advances s u"
proof -
  have "\<exists>c. sc_channel s i = Some c \<and> evolves c c'" if "i \<le> get_channel_count s" "sc_channel u i = Some c'" for i c'
    using assms that unfolding advances_def by (meson evolves_trans order_trans)
  then show ?thesis using assms by (auto simp: advances_def)
qed

section \<open>Single steps\<close>

lemma advances_channel:
  assumes "sc_channel s i = Some c" "sc_channel s' = (sc_channel s)(i := o')" "sc_channel_count s' = sc_channel_count s"
    and "\<And>c'. o' = Some c' \<Longrightarrow> evolves c c'" "ch_phase c \<noteq> Finalized"
  shows "advances s s'"
proof -
  have "\<exists>d. sc_channel s j = Some d \<and> evolves d c'" if "sc_channel s' j = Some c'" for j c'
    using assms(1,2,4) that by (cases "j = i") auto
  then show ?thesis using assms(1,2,3,5) by (auto simp: advances_def get_channel_count_def)
qed

lemma advances_frame:
  assumes "m s = (r, s')" "keeps (\<lambda>t. sc_channel t = sc_channel s \<and> sc_channel_count t = sc_channel_count s) m"
  shows "advances s s'"
proof -
  have "sc_channel s' = sc_channel s \<and> sc_channel_count s' = sc_channel_count s"
    by (rule keepsD [OF assms(2) _ assms(1)]) simp
  then show ?thesis by (auto simp: advances_def get_channel_count_def)
qed

lemma consumed_best_effort:
  "window_inv w \<Longrightarrow> is_consumed w n \<Longrightarrow> is_consumed (consume_best_effort w k) n"
  by (auto simp: consume_best_effort_def dest: consume_consumed(3) split: result.splits)

lemma newer_evolves:
  assumes "newer_state i c st s = (Ok c', s')" "channel_ok c" "ch_phase c \<noteq> Finalized"
  shows "same_terms c c'" "window_grows c c'" "ch_amount c' = ch_amount c" "ch_balance c \<le> ch_balance c'" "ch_phase c' = ch_phase c"
    and "ch_disputed_at c' = ch_disputed_at c" "ch_dispute_extensions c' = ch_dispute_extensions c"
    and "ch_phase c = Open \<Longrightarrow> evolves c c'"
  using assms consume_consumed(3)
  by (auto simp: newer_state_Ok_iff same_terms_def window_grows_def evolves_def channel_ok_def simp del: act_simps)

lemma update_with_advances:
  assumes "update_with i st v s = (Ok (), s')" "channels_inv s"
  shows "advances s s'"
proof -
  obtain c c' where c: "sc_channel s i = Some c" "ch_phase c = Open" and n: "newer_state i c st s = (Ok c', s)"
    and e: "sc_channel s' = (sc_channel s)(i := Some c')" "sc_channel_count s' = sc_channel_count s"
    using assms(1) by (auto simp: update_with_def ok_iff)
  show ?thesis
    using newer_evolves(8) [OF n single_invD [OF channels_invD(1) [OF assms(2)] c(1)]] c(2)
    by (intro advances_channel [OF c(1) e]) auto
qed

lemma record_close_advances:
  assumes "record_close E i c n b t = (Ok (), s')" "channels_inv s" "sc_channel s i = Some c" "ch_phase c = Open"
    and "t = s \<or> (\<exists>x. t = s\<lparr>sc_hashlock_reserved := r, sc_hashlock_payment := p,
      sc_channel := (sc_channel s)(i \<mapsto> c\<lparr>ch_balance := x\<rparr>), sc_events := ev\<rparr>)"
  shows "advances s s'"
proof -
  let ?c = "c\<lparr>ch_nonce_window := consume_best_effort (ch_nonce_window c) n, ch_nonce := max (ch_nonce c) n,
      ch_balance := b, ch_phase := Closed, ch_closed_at := sequence E\<rparr>"
  have e: "sc_channel s' = (sc_channel s)(i := Some ?c)" "sc_channel_count s' = sc_channel_count s"
    using assms(1,5) by (auto simp: record_close_def ok_iff)
  have "window_inv (ch_nonce_window c)" using single_invD [OF channels_invD(1) [OF assms(2)] assms(3)] by (simp add: channel_ok_def)
  then have "evolves c ?c"
    using assms(4) by (simp add: evolves_def same_terms_def window_grows_def consumed_best_effort)
  then show ?thesis using assms(4) by (intro advances_channel [OF assms(3) e]) auto
qed

lemma close_with_preimage_advances:
  assumes "close_channel_with_preimage X' E i st g j pre s = (Ok (), s')" "channels_inv s"
  shows "advances s s'"
proof -
  obtain c x t u where cl: "closing_channel E i st (\<lambda>c. verify_state_signature X' c st g) s = (Ok c, t)"
    and re: "resolve_payment X' i j pre t = (Ok x, u)"
    and co: "record_close E i c (su_nonce st) (su_balance st + x) u = (Ok (), s')"
    using assms(1) by (auto simp: close_channel_with_preimage_def ok_iff i128_checked_def split: if_splits)
  note b = closing_bounds [OF cl assms(2)]
  obtain p where u: "u = s\<lparr>sc_hashlock_reserved := (sc_hashlock_reserved s)(i \<mapsto> hashlock_reserved s i - x),
       sc_hashlock_payment := (sc_hashlock_payment s)((i, j) \<mapsto> p\<lparr>hp_state := PaymentResolved\<rparr>),
       sc_channel := (sc_channel s)(i \<mapsto> c\<lparr>ch_balance := ch_balance c + x\<rparr>),
       sc_events := sc_events s @ [HashlockPaymentRevealedEvent i j x (hp_hashlock p)]\<rparr>"
    using re [unfolded b(1)] channels_invD(4) [OF assms(2)] by (rule resolve_payment_Ok) (use b(2) in auto)
  show ?thesis by (rule record_close_advances [OF co assms(2) b(2,3)]) (use u in auto)
qed

lemma dispute_advances:
  assumes "dispute X' E i st g s = (Ok (), s')" "channels_inv s"
  shows "advances s s'"
proof -
  obtain c c' where c: "sc_channel s i = Some c" "ch_phase c = Closed" and n: "newer_state i c st s = (Ok c', s)"
    and e: "sc_channel s' = (sc_channel s)(i := Some (c'\<lparr>ch_phase := Disputed, ch_disputed_at := sequence E,
        ch_dispute_extensions := 0\<rparr>))" "sc_channel_count s' = sc_channel_count s"
    using assms(1) by (auto simp: dispute_def ok_iff)
  have "evolves c (c'\<lparr>ch_phase := Disputed, ch_disputed_at := sequence E, ch_dispute_extensions := 0\<rparr>)"
    using newer_evolves(1-7) [OF n single_invD [OF channels_invD(1) [OF assms(2)] c(1)]] c(2)
    by (simp add: evolves_def same_terms_def window_grows_def)
  then show ?thesis using c(2) by (intro advances_channel [OF c(1) e]) auto
qed

lemma extend_window_prolongs:
  assumes "extend_window_on_late_counter_proof E d p n = Ok (d', n')"
  shows "n \<le> n' \<and> n' \<le> max n MAX_DISPUTE_EXTENSIONS \<and> d' \<le> d + COUNTER_PROOF_EXTENSION_LEDGERS * (n' - n)"
  using assms
  by (auto simp: extend_window_on_late_counter_proof_def Let_def ok_iff MAX_DISPUTE_EXTENSIONS_def
      COUNTER_PROOF_EXTENSION_LEDGERS_def u32_saturating_add_def split: if_splits)

lemma counter_evidence_advances:
  assumes "submit_counter_evidence X' E i st g s = (Ok (), s')" "channels_inv s"
  shows "advances s s'"
proof -
  obtain c c' a b where c: "sc_channel s i = Some c" "ch_phase c = Disputed" and n: "newer_state i c st s = (Ok c', s)"
    and x: "extend_window_on_late_counter_proof E (ch_disputed_at c') (ch_challenge_period c') (ch_dispute_extensions c') = Ok (a, b)"
    and e: "sc_channel s' = (sc_channel s)(i := Some (c'\<lparr>ch_disputed_at := a, ch_dispute_extensions := b\<rparr>))"
      "sc_channel_count s' = sc_channel_count s"
    using assms(1) by (auto simp: submit_counter_evidence_def ok_iff)
  have "evolves c (c'\<lparr>ch_disputed_at := a, ch_dispute_extensions := b\<rparr>)"
    using newer_evolves(1-7) [OF n single_invD [OF channels_invD(1) [OF assms(2)] c(1)]] c(2) extend_window_prolongs [OF x]
    by (simp add: evolves_def same_terms_def window_grows_def dispute_prolonged_def)
  then show ?thesis using c(2) by (intro advances_channel [OF c(1) e]) auto
qed

lemma evolves_finalized: "ch_phase c \<noteq> Finalized \<Longrightarrow> evolves c (c\<lparr>ch_phase := Finalized\<rparr>)"
  by (cases "ch_phase c") (auto simp: evolves_def same_terms_def window_grows_def)

lemma finalize_advances:
  assumes "finalize_dispute X E i s = (Ok (), s')" "channels_inv s"
  shows "advances s s'"
  using assms(1) channels_invD(5) [OF assms(2)]
proof (rule finalize_dispute_Ok)
  fix c tok reward rest a s0 s1 s2 s3
  assume c: "sc_channel s i = Some c" "ch_phase c = Disputed"
    and tr: "take_reward i (ch_balance c) (s\<lparr>sc_guard_lock := Some True\<rparr>) = (Ok (reward, rest, a), s0)"
    and p: "pay_if_positive X tok (current_contract_address E) (ch_receiver c) rest s0 = (Ok (), s1)"
      "pay_if_positive X tok (current_contract_address E) (ch_sender c) (ch_amount c - ch_balance c) s1 = (Ok (), s2)"
      "(case a of Some w \<Rightarrow> pay_if_positive X tok (current_contract_address E) w reward | None \<Rightarrow> aret ()) s2 = (Ok (), s3)"
    and s': "s' = s3\<lparr>sc_channel := (sc_channel s3)(i \<mapsto> c\<lparr>ch_phase := Finalized\<rparr>),
      sc_events := sc_events s3 @ [DisputeFinalizedEvent i rest (ch_amount c - ch_balance c)], sc_guard_lock := Some False\<rparr>"
  let ?P = "\<lambda>t. sc_channel t = sc_channel s \<and> sc_channel_count t = sc_channel_count s"
  have k: "keeps ?P (pay_if_positive X tok b w y)"
      "keeps ?P (case a of Some w \<Rightarrow> pay_if_positive X tok b w y | None \<Rightarrow> aret ())" for b w y
    by (intro keeps_intro; simp)+
  have "bounty_inv (s\<lparr>sc_guard_lock := Some True\<rparr>)" using channels_invD(5) [OF assms(2)] by (simp add: bounty_inv_def)
  then have "?P s0" using take_reward_Ok(6) [OF tr] by auto
  then have "?P s3" using keepsD [OF k(1) _ p(1)] keepsD [OF k(1) _ p(2)] keepsD [OF k(2) _ p(3)] by blast
  then have e: "sc_channel s' = (sc_channel s)(i := Some (c\<lparr>ch_phase := Finalized\<rparr>))" "sc_channel_count s' = sc_channel_count s"
    by (simp_all add: s')
  show "advances s s'" using c(2) evolves_finalized [of c] by (intro advances_channel [OF c(1) e]) auto
qed

lemma pay_keeps_channels:
  assumes "pay_if_positive X tok a b x s = (r, s')"
  shows "sc_channel s' = sc_channel s" "sc_channel_count s' = sc_channel_count s" "sc_token s' = sc_token s"
proof -
  have "keeps (\<lambda>t. sc_channel t = sc_channel s \<and> sc_channel_count t = sc_channel_count s \<and> sc_token t = sc_token s)
      (pay_if_positive X tok a b x)" by (intro keeps_intro; simp)
  from keepsD [OF this _ assms]
  show "sc_channel s' = sc_channel s" "sc_channel_count s' = sc_channel_count s" "sc_token s' = sc_token s" by simp_all
qed

lemma finalized_advances:
  assumes "sc_channel s i = Some c" "ch_phase c \<noteq> Finalized" "sc_channel s' = (sc_channel s)(i := o')"
    and "o' = None \<or> o' = Some (c\<lparr>ch_phase := Finalized\<rparr>)" "sc_channel_count s' = sc_channel_count s"
  shows "advances s s'"
  using assms evolves_finalized [OF assms(2)] by (intro advances_channel [OF assms(1,3,5)]) auto

lemma claim_advances:
  assumes "claim X E i s = (Ok (), s')"
  shows "advances s s'"
  using assms
proof (rule claim_Ok)
  fix c tok s1
  assume c: "sc_channel s i = Some c" "ch_phase c = Closed"
    and p: "pay_if_positive X tok (current_contract_address E) (ch_receiver c) (ch_balance c) (s\<lparr>sc_guard_lock := Some True\<rparr>) = (Ok (), s1)"
    and s': "s' = s1\<lparr>sc_channel := (sc_channel s1)(i \<mapsto> c\<lparr>ch_phase := Finalized\<rparr>),
       sc_events := sc_events s1 @ [ClaimEvent i (ch_balance c) (ch_receiver c)], sc_guard_lock := Some False\<rparr>"
  show "advances s s'"
    using pay_keeps_channels(1,2) [OF p] c(2) by (intro finalized_advances [OF c(1), where o' = "Some (c\<lparr>ch_phase := Finalized\<rparr>)"]) (auto simp: s')
qed

lemma reclaim_advances:
  assumes "reclaim X E i s = (Ok (), s')"
  shows "advances s s'"
  using assms
proof (rule reclaim_Ok)
  fix c tok s1
  assume c: "sc_channel s i = Some c" "ch_phase c = Open"
    and p: "pay_if_positive X tok (current_contract_address E) (ch_sender c) (ch_amount c - ch_balance c)
       (s\<lparr>sc_guard_lock := Some True, sc_channel := (sc_channel s)(i \<mapsto> c\<lparr>ch_phase := Finalized\<rparr>)\<rparr>) = (Ok (), s1)"
    and s': "s' = s1\<lparr>sc_guard_lock := Some False\<rparr>"
  show "advances s s'"
    using pay_keeps_channels(1,2) [OF p] c(2) by (intro finalized_advances [OF c(1), where o' = "Some (c\<lparr>ch_phase := Finalized\<rparr>)"]) (auto simp: s')
qed

lemma mutual_close_advances:
  assumes "mutual_close X E m g g' s = (Ok (), s')"
  shows "advances s s'"
  using assms
proof (rule mutual_close_Ok)
  fix c k tok s1 s2
  let ?i = "mc_channel_id m"
  assume c: "sc_channel s ?i = Some c" "ch_phase c \<noteq> Finalized"
    and p: "pay_if_positive X tok (current_contract_address E) (ch_receiver c) (mc_receiver_balance m)
       (s\<lparr>sc_channel := (sc_channel s)(?i := None), sc_receiver_pubkey := (sc_receiver_pubkey s)(?i := None)\<rparr>) = (Ok (), s1)"
      "pay_if_positive X tok (current_contract_address E) (ch_sender c) (mc_sender_balance m) s1 = (Ok (), s2)"
    and s': "s' = s2\<lparr>sc_events := sc_events s2 @ [ChannelClosedCooperative ?i (mc_receiver_balance m) (mc_sender_balance m)]\<rparr>"
  show "advances s s'"
    using pay_keeps_channels(1,2) [OF p(1)] pay_keeps_channels(1,2) [OF p(2)] c(2)
    by (intro finalized_advances [OF c(1), where o' = None]) (auto simp: s')
qed

lemma open_field_advances:
  assumes "sc_channel s i = Some c" "ch_phase c = Open" "sc_channel_count s' = sc_channel_count s"
    and "sc_channel s' = (sc_channel s)(i \<mapsto> c\<lparr>ch_balance := b\<rparr>) \<or> sc_channel s' = (sc_channel s)(i \<mapsto> c\<lparr>ch_amount := x\<rparr>)"
  shows "advances s s'"
  using assms(4)
proof
  assume e: "sc_channel s' = (sc_channel s)(i \<mapsto> c\<lparr>ch_balance := b\<rparr>)"
  show ?thesis
    using assms(2) by (intro advances_channel [OF assms(1) e assms(3)]) (auto simp: evolves_def same_terms_def window_grows_def)
next
  assume e: "sc_channel s' = (sc_channel s)(i \<mapsto> c\<lparr>ch_amount := x\<rparr>)"
  show ?thesis
    using assms(2) by (intro advances_channel [OF assms(1) e assms(3)]) (auto simp: evolves_def same_terms_def window_grows_def)
qed

lemma open_advances:
  assumes "channels_inv s" "n = get_channel_count s + 1" "sc_channel_count s' = Some n" "sc_channel s' = (sc_channel s)(n := o')"
  shows "advances s s'"
proof -
  have "sc_channel s n = None"
    using channels_invD(1) [OF assms(1)] assms(2) unfolding single_inv_def by (metis Suc_eq_plus1 Suc_n_not_le_n option.exhaust)
  then show ?thesis using assms(2-4) by (auto simp: advances_def get_channel_count_def)
qed

definition fresh_inv :: "'w channels \<Rightarrow> bool" where
  "fresh_inv s \<longleftrightarrow> channels_inv s \<and> (sc_token s = None \<longrightarrow> get_channel_count s = 0)"

lemma initialize_advances:
  assumes "initialize_channels tok s = (Ok (), s')" "fresh_inv s"
  shows "advances s s'"
proof -
  have "sc_token s = None" "sc_channel s' = sc_channel s"
    using assms(1) by (auto simp: initialize_channels_def ok_iff split: if_splits)
  moreover have "sc_channel s = Map.empty" "get_channel_count s = 0"
    using assms(2) \<open>sc_token s = None\<close> by (auto simp: fresh_inv_def channels_inv_def single_inv_def)
  ultimately show ?thesis by (simp add: advances_def)
qed

section \<open>Every step advances every channel\<close>

lemma run_advances:
  assumes run: "channel_run X E c s = (Ok (), s')" and fresh: "fresh_inv s"
  shows "advances s s'"
proof -
  have inv: "channels_inv s" using fresh by (simp add: fresh_inv_def)
  show ?thesis
  proof (cases c)
    case (InitializeChannels t)
    then show ?thesis using run fresh by (auto intro: initialize_advances)
  next
    case (OpenChannel a b k x p)
    then obtain i where "open_channel X E a b k x p s = (Ok i, s')" using run by (auto simp: ok_iff simp del: act_simps)
    then show ?thesis
      using open_channel_Ok [of X E a b k x p s i s'] by (intro open_advances [OF inv]) auto
  next
    case (OpenMultiAsset a b k d p)
    then obtain i l s1 where "pull_deposits X a (current_contract_address E) d s = (Ok l, s1)" "i = get_channel_count s1 + 1"
      "sc_channel_count s' = Some i" "sc_channel s' = sc_channel s1"
      using run by (auto simp: open_multi_asset_channel_def Let_def ok_iff simp del: act_simps)
    moreover have "keeps (\<lambda>t. sc_channel t = sc_channel s \<and> sc_channel_count t = sc_channel_count s)
        (pull_deposits X a (current_contract_address E) d)" by (intro keeps_intro; simp)
    ultimately show ?thesis
      using keepsD [of "\<lambda>t. sc_channel t = sc_channel s \<and> sc_channel_count t = sc_channel_count s"
          "pull_deposits X a (current_contract_address E) d" s "Ok l" s1]
      by (auto simp: advances_def get_channel_count_def)
  next
    case (UpdateState i st g)
    then show ?thesis using run inv by (auto simp: update_state_def intro: update_with_advances)
  next
    case (UpdateStateDelegated i st g ce cg)
    then show ?thesis using run inv by (auto simp: update_state_delegated_def intro: update_with_advances)
  next
    case (CloseChannel i st g)
    then obtain d t where "closing_channel E i st (\<lambda>c. verify_state_signature X c st g) s = (Ok d, t)"
        "record_close E i d (su_nonce st) (su_balance st) t = (Ok (), s')"
      using run by (auto simp: close_channel_def abind_Ok_iff)
    then show ?thesis using closing_bounds [OF _ inv] by (intro record_close_advances [OF _ inv]) auto
  next
    case (CloseChannelDelegated i st g ce cg)
    then obtain d t where "closing_channel E i st (\<lambda>c. verify_delegated_state_signature X E c i st g ce cg) s = (Ok d, t)"
        "record_close E i d (su_nonce st) (su_balance st) t = (Ok (), s')"
      using run by (auto simp: close_channel_delegated_def abind_Ok_iff)
    then show ?thesis using closing_bounds [OF _ inv] by (intro record_close_advances [OF _ inv]) auto
  next
    case (WatchtowerCounterEvidence i st g w)
    then have "watchtower_counter_evidence X E i st g w s = (Ok (), s')" using run by simp
    then show ?thesis
    proof (rule watchtower_counter_evidence_Ok)
      fix s1
      assume "submit_counter_evidence X E i st g s = (Ok (), s1)"
        and s': "s' = s1\<lparr>sc_bounty := (sc_bounty s1)(i \<mapsto> \<lparr>wb_reward_bps = reward_bps s1 i, wb_watchtower = Some w\<rparr>)\<rparr>"
      then have "advances s s1" using inv by (intro counter_evidence_advances)
      then show "advances s s'" by (simp add: advances_def s' get_channel_count_def)
    qed
  next
    case (RevealPreimage i p pre)
    then obtain x where "resolve_payment X i p pre s = (Ok x, s')" using run by (auto simp: ok_iff simp del: act_simps)
    then show ?thesis using channels_invD(4) [OF inv]
      by (rule resolve_payment_Ok) (auto intro!: open_field_advances)
  next
    case (ResolveHtlc i j pre)
    then have "resolve_htlc X i j pre s = (Ok (), s')" using run by simp
    then show ?thesis using channels_invD(3) [OF inv] by (rule resolve_htlc_Ok) (auto intro!: open_field_advances)
  next
    case (SpliceIn i x)
    then show ?thesis using splice_in_Ok [of X E i x s s'] run by (auto intro!: open_field_advances)
  next
    case (SpliceOut i x)
    then show ?thesis using splice_out_Ok [of X E i x s s'] run by (auto intro!: open_field_advances)
  qed (use run inv in \<open>auto intro: close_with_preimage_advances dispute_advances counter_evidence_advances
      finalize_advances claim_advances reclaim_advances mutual_close_advances\<close>,
    (rule advances_frame [where m = "channel_run X E c", OF run],
      simp only: channel_run.simps channel_call_defs, (intro keeps_intro keeps_amodify; simp))+)
qed

text \<open>Only the initialization sets the token, and nothing is opened before it.\<close>

lemma run_fresh:
  assumes run: "channel_run X E c s = (Ok (), s')" and none: "sc_token s' = None"
  shows "sc_token s = None \<and> sc_channel_count s' = sc_channel_count s"
proof -
  let ?P = "\<lambda>t. sc_token t = sc_token s \<and> sc_channel_count t = sc_channel_count s"
  have frame: "sc_token s = None \<and> sc_channel_count s' = sc_channel_count s" if "keeps ?P (channel_run X E c)"
    using keepsD [OF that _ run] none by simp
  show ?thesis
  proof (cases c)
    case (InitializeChannels t)
    then show ?thesis using run none by (auto simp: initialize_channels_def ok_iff split: if_splits)
  next
    case (OpenChannel a b k x p)
    then obtain i where "open_channel X E a b k x p s = (Ok i, s')" using run by (auto simp: ok_iff simp del: act_simps)
    then show ?thesis using open_channel_Ok [of X E a b k x p s i s'] none by auto
  next
    case (OpenMultiAsset a b k d p)
    have k: "keeps (\<lambda>t. sc_token t = sc_token s) (open_multi_asset_channel X E a b k d p)"
      unfolding open_multi_asset_channel_def by (intro keeps_intro keeps_amodify; simp)
    obtain i where o: "open_multi_asset_channel X E a b k d p s = (Ok i, s')"
      using OpenMultiAsset run by (auto simp: ok_iff simp del: act_simps)
    have "sc_token s = None" using keepsD [OF k refl o] none by simp
    then show ?thesis using o by (simp add: open_multi_asset_channel_def abind_def aseq_def)
  qed ((rule frame, simp only: channel_run.simps channel_call_defs, (intro keeps_intro keeps_amodify; simp))+)
qed

interpretation life: machine "channel_step X V" "\<lambda>s. fresh_inv s \<and> sep41 (cx_token X)"
  for X :: "'w channel_ext" and V
proof unfold_locales
  fix s s'
  assume i: "fresh_inv s \<and> sep41 (cx_token X)" and st: "channel_step X V s s'"
  have "channels_inv s'" using chan.step_inv [OF _ st] i by (simp add: fresh_inv_def)
  moreover have "sc_token s' = None \<longrightarrow> get_channel_count s' = 0"
    using st
  proof cases
    case (call E c)
    then show ?thesis using run_fresh [of X E c s s'] i by (auto simp: invoke_Ok_iff fresh_inv_def get_channel_count_def)
  next
    case (world w)
    then show ?thesis using i by (simp add: fresh_inv_def get_channel_count_def)
  qed
  ultimately show "fresh_inv s' \<and> sep41 (cx_token X)" using i by (simp add: fresh_inv_def)
qed

lemma step_advances: "fresh_inv s \<Longrightarrow> channel_step X V s s' \<Longrightarrow> advances s s'"
  by (erule channel_stepE) (auto simp: invoke_Ok_iff advances_def get_channel_count_def dest: run_advances)

lemma steps_advance:
  assumes "(channel_step X V)\<^sup>*\<^sup>* s s'" "fresh_inv s" "sep41 (cx_token X)"
  shows "advances s s'"
  using life.steps_rel [OF assms(1), of advances] assms(2,3) advances_trans step_advances by (metis advances_refl)

lemma fresh_inv_empty [simp]: "fresh_inv (channels_empty w)"
  by (simp add: fresh_inv_def) (simp add: channels_empty_def get_channel_count_def)

end
