(* ===== verification/Channel_Claims.thy ===== *)
theory Channel_Claims
  imports Channel_Lifecycle
begin

text \<open>
  What the payment channels guarantee, and where the code falls short of its documentation. Each
  guarantee comes with an instance on a small contract whose token is a ledger of balances and whose
  signatures are the signer's key.
\<close>

section \<open>A small contract\<close>

text \<open>Address 1 is the contract, 7 the sender, 8 the receiver, 9 the token, 5 a watchtower.\<close>

definition cw_ext :: "ledger channel_ext" where
  "cw_ext = \<lparr>cx_token = ledger_token, cx_sha256 = (\<lambda>x. x), cx_ed25519_verify = (\<lambda>k m g. g = k),
     cx_address_xdr = (\<lambda>a. []), cx_balances_xdr = (\<lambda>b. []), cx_i128_xdr = i128_be_bytes\<rparr>"

definition cw_env :: "u32 \<Rightarrow> env" where
  "cw_env n = \<lparr>sequence = n, timestamp = 0, current_contract_address = 1, authorized = (\<lambda>a. a \<noteq> 1)\<rparr>"

definition cw_ledger :: ledger where
  "cw_ledger = (\<lambda>t a. if t = 9 \<and> a = 7 then 500 else 0)"

definition cw_next :: "u32 \<Rightarrow> channel_call \<Rightarrow> ledger channels \<Rightarrow> ledger channels" where
  "cw_next n c s = snd (channel_run cw_ext (cw_env n) c s)"

definition cw_state :: "u64 \<Rightarrow> i128 \<Rightarrow> state_update" where
  "cw_state n b = \<lparr>su_nonce = n, su_balance = b\<rparr>"

definition cw_open :: "ledger channels" where
  "cw_open = cw_next 100 (OpenChannel 7 8 [7] 100 10) (cw_next 100 (InitializeChannels 9) (channels_empty cw_ledger))"

definition cw_closed :: "ledger channels" where
  "cw_closed = cw_next 110 (CloseChannel 1 (cw_state 1 30) [7]) cw_open"

definition cw_bountied :: "ledger channels" where
  "cw_bountied = cw_next 111 (SetWatchtowerBounty 1 1000) cw_closed"

definition cw_filed :: "ledger channels" where
  "cw_filed = cw_next 112 (FileDispute 1 (cw_state 3 40) [7]) cw_bountied"

definition cw_disputed :: "ledger channels" where
  "cw_disputed = cw_next 115 (WatchtowerCounterEvidence 1 (cw_state 5 60) [7] 5) cw_filed"

lemmas chan_run_defs = abind_def aseq_def channel_step_defs acquire_def release_def ok_or_def unwrap_def unwrap_or_def
  require_auth_def u64_add_def u32_add_def i128_op_def in_u64_def in_u32_def in_i128_def i128_checked_def
  next_channel_id_def effective_challenge_period_def DEFAULT_CHALLENGE_PERIOD_def MAX_CHALLENGE_PERIOD_def
  DEFAULT_MAX_CHANNEL_LIFETIME_def max_channel_lifetime_def closing_channel_def refuse_exceeding_def exceeds_escrow_def
  htlc_reserved_def hashlock_reserved_def verify_state_signature_def ed25519_verify_def newer_state_def
  consume_best_effort_def ensure_window_open_def ensure_window_elapsed_def u32_saturating_add_def
  extend_window_on_late_counter_proof_def saturating_sub_def COUNTER_PROOF_EXTENSION_LEDGERS_def MAX_DISPUTE_EXTENSIONS_def
  store_bounty_def reward_bps_def MAX_REWARD_BPS_def

lemmas cw_window_defs = consume_def slide_def WINDOW_SIZE_def empty_window_def Let_def

lemmas cw_defs = cw_next_def cw_ext_def cw_env_def cw_ledger_def cw_state_def channels_empty_def
  ledger_token_def ledger_transfer_def

definition cw_channel :: channel where
  "cw_channel = \<lparr>ch_sender = 7, ch_receiver = 8, ch_amount = 100, ch_nonce = 0, ch_balance = 0, ch_phase = Open,
     ch_opened_at = 100, ch_closed_at = 0, ch_disputed_at = 0, ch_dispute_extensions = 0, ch_challenge_period = 10,
     ch_sender_pubkey = [7], ch_nonce_window = empty_window\<rparr>"

lemma cw_open_channel: "sc_channel cw_open = [1 \<mapsto> cw_channel]" "sc_token cw_open = Some 9" "sc_channel_count cw_open = Some 1"
  "sc_htlc_reserved cw_open = Map.empty" "sc_hashlock_reserved cw_open = Map.empty" "sc_bounty cw_open = Map.empty"
  "sc_guard_lock cw_open = None" "sc_multi_asset_channel cw_open = Map.empty" "sc_max_channel_lifetime cw_open = Some 1209600"
  "sc_world cw_open = (\<lambda>t a. cw_ledger t a - (if t = 9 \<and> a = 7 then 100 else 0) + (if t = 9 \<and> a = 1 then 100 else 0))"
  by (simp_all add: cw_open_def channel_call_defs chan_run_defs cw_defs cw_channel_def Let_def)

lemma cw_step:
  assumes "fst (channel_run cw_ext (cw_env n) c s) = Ok ()"
  shows "channel_step cw_ext 1 s (cw_next n c s)"
proof (rule channel_step.call)
  show "invoke (channel_run cw_ext (cw_env n) c) s = Ok ((), cw_next n c s)"
    unfolding invoke_Ok_iff cw_next_def assms [symmetric] by (rule prod.collapse [symmetric])
qed (simp_all add: cw_env_def)

lemma cw_open_reach: "(channel_step cw_ext 1)\<^sup>*\<^sup>* (channels_empty cw_ledger) cw_open"
proof -
  have "channel_step cw_ext 1 (channels_empty cw_ledger) (cw_next 100 (InitializeChannels 9) (channels_empty cw_ledger))"
    by (rule cw_step) (simp add: channel_call_defs chan_run_defs cw_defs)
  moreover have "channel_step cw_ext 1 (cw_next 100 (InitializeChannels 9) (channels_empty cw_ledger)) cw_open"
    unfolding cw_open_def by (rule cw_step) (simp add: channel_call_defs chan_run_defs cw_defs Let_def)
  ultimately show ?thesis by (rule rtranclp.rtrancl_into_rtrancl [OF r_into_rtranclp])
qed

lemma sep41_cw [simp]: "sep41 (cx_token cw_ext)"
  by (simp add: cw_ext_def sep41_ledger_token)

definition cw_window :: "u8 \<Rightarrow> nonce_window" where
  "cw_window b = \<lparr>nw_base = 0, nw_bitmap = (replicate 32 0)[0 := b]\<rparr>"

lemma cw_window_empty: "empty_window = cw_window 0"
  by (simp add: empty_window_def cw_window_def eval_nat_numeral)

lemma cw_consume:
  assumes "n < 8" "\<not> bit b n"
  shows "consume (cw_window b) n = Ok (cw_window (b OR 2 ^ n))"
proof -
  have "window_inv (cw_window b)" by (simp add: window_inv_def cw_window_def)
  moreover have "slide (cw_window b) n = cw_window b" "\<not> is_consumed (cw_window b) n"
    using assms by (simp_all add: slide_def WINDOW_SIZE_def is_consumed_iff cw_window_def)
  ultimately show ?thesis using assms by (simp add: consume_cases) (simp add: cw_window_def)
qed

lemma cw_consumed: "n < 8 \<Longrightarrow> bit b n \<Longrightarrow> is_consumed (cw_window b) n"
  by (simp add: is_consumed_iff cw_window_def)

lemma cw_bits: "\<not> bit (0 :: u8) n" "\<not> bit (2 :: u8) 3" "\<not> bit (10 :: u8) 5" "bit (2 :: u8) (Suc 0)" "(0 :: u8) OR 2 ^ Suc 0 = 2"
    "(2 :: u8) OR 8 = 10" "(10 :: u8) OR 32 = 42"
  by (simp_all add: bit_simps)

lemma cw_close_run:
  "channel_run cw_ext (cw_env 110) (CloseChannel 1 (cw_state 1 30) [7]) cw_open = (Ok (), cw_closed)"
  "sc_channel cw_closed = (sc_channel cw_open)(1 \<mapsto> cw_channel\<lparr>ch_nonce := 1, ch_balance := 30, ch_phase := Closed,
     ch_closed_at := 110, ch_nonce_window := cw_window 2\<rparr>)"
  "sc_token cw_closed = Some 9" "sc_bounty cw_closed = Map.empty" "sc_guard_lock cw_closed = None"
  "sc_htlc_reserved cw_closed = Map.empty" "sc_hashlock_reserved cw_closed = Map.empty" "sc_world cw_closed = sc_world cw_open"
  "sc_channel_count cw_closed = Some 1" "sc_multi_asset_channel cw_closed = Map.empty"
  by (simp_all add: cw_closed_def close_channel_def record_close_def chan_run_defs cw_next_def cw_ext_def cw_env_def
      cw_state_def cw_open_channel [unfolded One_nat_def] cw_channel_def cw_window_empty cw_consume cw_bits)

lemma cw_bounty_run:
  "channel_run cw_ext (cw_env 111) (SetWatchtowerBounty 1 1000) cw_closed = (Ok (), cw_bountied)"
  "sc_bounty cw_bountied = [1 \<mapsto> \<lparr>wb_reward_bps = 1000, wb_watchtower = None\<rparr>]"
  "sc_channel cw_bountied = sc_channel cw_closed"
  "sc_token cw_bountied = Some 9"
  "sc_guard_lock cw_bountied = None"
  "sc_htlc_reserved cw_bountied = Map.empty"
  "sc_hashlock_reserved cw_bountied = Map.empty"
  "sc_world cw_bountied = sc_world cw_open" "sc_channel_count cw_bountied = Some 1" "sc_multi_asset_channel cw_bountied = Map.empty"
  unfolding cw_bountied_def
  by (simp_all add: set_watchtower_bounty_def chan_run_defs cw_next_def cw_env_def cw_close_run cw_channel_def)

lemma cw_filed_run:
  "channel_run cw_ext (cw_env 112) (FileDispute 1 (cw_state 3 40) [7]) cw_bountied = (Ok (), cw_filed)"
  "sc_channel cw_filed = (sc_channel cw_open)(1 \<mapsto> cw_channel\<lparr>ch_nonce := 3, ch_balance := 40, ch_phase := Disputed,
     ch_closed_at := 110, ch_disputed_at := 112, ch_nonce_window := cw_window 10\<rparr>)"
  "sc_token cw_filed = Some 9" "sc_bounty cw_filed = [1 \<mapsto> \<lparr>wb_reward_bps = 1000, wb_watchtower = None\<rparr>]" "sc_guard_lock cw_filed = None"
  "sc_htlc_reserved cw_filed = Map.empty" "sc_hashlock_reserved cw_filed = Map.empty" "sc_world cw_filed = sc_world cw_open"
  "sc_channel_count cw_filed = Some 1" "sc_multi_asset_channel cw_filed = Map.empty"
  unfolding cw_filed_def
  by (simp_all add: dispute_def chan_run_defs cw_next_def [of 112] cw_env_def [of 112] cw_ext_def cw_state_def
      cw_bounty_run cw_close_run cw_channel_def cw_consume cw_bits)

lemma cw_disputed_run:
  "channel_run cw_ext (cw_env 115) (WatchtowerCounterEvidence 1 (cw_state 5 60) [7] 5) cw_filed = (Ok (), cw_disputed)"
  "sc_channel cw_disputed = (sc_channel cw_open)(1 \<mapsto> cw_channel\<lparr>ch_nonce := 5, ch_balance := 60, ch_phase := Disputed,
     ch_closed_at := 110, ch_disputed_at := 162, ch_dispute_extensions := 1, ch_nonce_window := cw_window 42\<rparr>)"
  "sc_token cw_disputed = Some 9" "sc_bounty cw_disputed = [1 \<mapsto> \<lparr>wb_reward_bps = 1000, wb_watchtower = Some 5\<rparr>]"
  "sc_guard_lock cw_disputed = None" "sc_world cw_disputed = sc_world cw_open"
  "sc_channel_count cw_disputed = Some 1" "sc_multi_asset_channel cw_disputed = Map.empty"
  unfolding cw_disputed_def
  by (simp_all add: watchtower_counter_evidence_def submit_counter_evidence_def record_watchtower_def chan_run_defs
      cw_next_def [of 115] cw_env_def [of 115] cw_ext_def cw_state_def cw_filed_run cw_channel_def cw_consume cw_bits Let_def)

lemma cw_steps:
  "channel_step cw_ext 1 cw_open cw_closed" "channel_step cw_ext 1 cw_closed cw_bountied"
  "channel_step cw_ext 1 cw_bountied cw_filed" "channel_step cw_ext 1 cw_filed cw_disputed"
  unfolding cw_closed_def cw_bountied_def cw_filed_def cw_disputed_def
  by (rule cw_step, simp only: cw_close_run(1) cw_bounty_run(1) cw_filed_run(1) cw_disputed_run(1) fst_conv
      flip: cw_closed_def cw_bountied_def cw_filed_def)+

lemma cw_disputed_reach:
  "(channel_step cw_ext 1)\<^sup>*\<^sup>* (channels_empty cw_ledger) cw_closed"
  "(channel_step cw_ext 1)\<^sup>*\<^sup>* (channels_empty cw_ledger) cw_disputed"
proof -
  show "(channel_step cw_ext 1)\<^sup>*\<^sup>* (channels_empty cw_ledger) cw_closed"
    using cw_open_reach cw_steps(1) by (rule rtranclp.rtrancl_into_rtrancl)
  then show "(channel_step cw_ext 1)\<^sup>*\<^sup>* (channels_empty cw_ledger) cw_disputed"
    using cw_steps(2-4) by (metis rtranclp.rtrancl_into_rtrancl)
qed

section \<open>The escrow\<close>

text \<open>C17: the channel contract stays solvent. Starting from empty storage, after any sequence of committed
calls of any entry points by anyone and any changes of the outside world that do not take tokens from
the contract, the channels and their reservations are well formed, and in every token the contract
holds at least the escrow of all channels that are not finalized.\<close>

theorem channels_solvent:
  assumes "sep41 (cx_token X)" "(channel_step X V)\<^sup>*\<^sup>* (channels_empty w) s" "0 \<le> tok_balance (cx_token X) w t V"
  shows "channels_inv s \<and> channels_owed s t \<le> tok_balance (cx_token X) (sc_world s) t V"
proof -
  have "channels_owed (channels_empty w) t \<le> channels_held X V (channels_empty w) t"
    using assms(3) by (simp add: channels_held_def) (simp add: channels_empty_def)
  then show ?thesis
    using chan.solvent [OF assms(2)] chan.steps_inv [OF assms(2)] assms(1) by (simp add: channels_held_def)
qed

theorem channels_solvent_witness:
  "channels_owed cw_disputed 9 = 100 \<and> channels_owed cw_disputed 9 \<le> tok_balance ledger_token (sc_world cw_disputed) 9 1"
proof
  show "channels_owed cw_disputed 9 = 100"
    by (simp add: channels_owed_def get_channel_count_def cw_disputed_run channel_worth_def assets_worth_def cw_channel_def
        cw_open_channel)
  show "channels_owed cw_disputed 9 \<le> tok_balance ledger_token (sc_world cw_disputed) 9 1"
    using channels_solvent [OF sep41_cw cw_disputed_reach(2), of 9] by (simp add: cw_ext_def cw_ledger_def ledger_token_def)
qed

section \<open>Settlement\<close>

lemma pay_exact:
  assumes "sep41 (cx_token X)" "pay_if_positive X tok a b x s = (Ok u, s')" "0 \<le> x"
  shows "tok_balance (cx_token X) (sc_world s') t z = tok_balance (cx_token X) (sc_world s) t z
    - (if t = tok \<and> z = a then x else 0) + (if t = tok \<and> z = b then x else 0)"
  using assms(2,3) sep41D(3) [OF assms(1)] by (cases "0 < x") (auto simp: pay_if_positive_Ok_iff)

lemma pay_keeps_bounty: "pay_if_positive X tok a b x s = (r, s') \<Longrightarrow> sc_bounty s' = sc_bounty s"
proof -
  assume run: "pay_if_positive X tok a b x s = (r, s')"
  have "keeps (\<lambda>t. sc_bounty t = sc_bounty s) (pay_if_positive X tok a b x)" by (intro keeps_intro; simp)
  from keepsD [OF this _ run] show ?thesis by simp
qed

lemma reach_channels_inv:
  assumes "(channel_step X V)\<^sup>*\<^sup>* (channels_empty w) s" "sep41 (cx_token X)"
  shows "channels_inv s" "fresh_inv s"
  using chan.steps_inv [OF assms(1)] life.steps_inv [OF assms(1)] assms(2) by simp_all

text \<open>The watchtower a channel's bounty is due to, and the reward on a receiver's payout of \<open>x\<close>.\<close>

definition bounty_watchtower :: "'w channels \<Rightarrow> u64 \<Rightarrow> address option" where
  "bounty_watchtower s i = Option.bind (sc_bounty s i) wb_watchtower"

definition bounty_reward :: "'w channels \<Rightarrow> u64 \<Rightarrow> i128 \<Rightarrow> i128" where
  "bounty_reward s i x = (case sc_bounty s i of
     Some b \<Rightarrow> if wb_watchtower b = None then 0 else x * int (wb_reward_bps b) div 10000
   | None \<Rightarrow> 0)"

lemma take_reward_share:
  assumes run: "take_reward i x s = (Ok (reward, rest, a), s')" and x: "0 \<le> x"
  shows "reward = bounty_reward s i x" "0 < reward \<Longrightarrow> a = bounty_watchtower s i"
    "bounty_watchtower s' i = None"
proof -
  have "reward = bounty_reward s i x \<and> (0 < reward \<longrightarrow> a = bounty_watchtower s i) \<and> bounty_watchtower s' i = None"
  proof (cases "sc_bounty s i")
    case None
    then show ?thesis
      using run by (auto simp: take_reward_def abind_def bounty_reward_def bounty_watchtower_def)
  next
    case (Some b)
    show ?thesis
    proof (cases "wb_watchtower b")
      case None
      then show ?thesis
        using run Some by (auto simp: take_reward_def abind_def bounty_reward_def bounty_watchtower_def)
    next
      case wt: (Some wt)
      show ?thesis
      proof (cases "wb_reward_bps b = 0 \<or> x \<le> 0")
        case True
        then show ?thesis
          using run Some wt x by (auto simp: take_reward_def abind_def aseq_def store_bounty_def
              bounty_reward_def bounty_watchtower_def)
      next
        case False
        then have eq: "take_reward i x s = abind (alift (ok_or (i128_checked (x * int (wb_reward_bps b))) MathOverflow)) (\<lambda>m.
          aseq (store_bounty i (b\<lparr>wb_watchtower := None\<rparr>)) (aseq (emit (WatchtowerRewardEvent i wt (trunc_div m 10000)))
          (abind (alift (i128_op (x - trunc_div m 10000))) (\<lambda>rest. aret (trunc_div m 10000, rest, Some wt))))) s"
          using Some wt by (simp add: take_reward_def abind_simps Let_def)
        show ?thesis
          using run [unfolded eq] Some wt x by (auto simp: ok_iff i128_checked_def store_bounty_def trunc_div_nonneg
              bounty_reward_def bounty_watchtower_def split: if_splits)
      qed
    qed
  qed
  then show "reward = bounty_reward s i x" "0 < reward \<Longrightarrow> a = bounty_watchtower s i"
    "bounty_watchtower s' i = None" by blast+
qed

text \<open>C18: a finalized dispute pays out exactly the escrow. When \<open>finalize_dispute\<close> commits in a reachable
state, the channel was disputed and its window is over. The reward is the share of the disputed balance
fixed by the channel's bounty, rounded down, at most a fifth of the balance, and zero when no watchtower
is recorded. The receiver gets the disputed balance less the reward, the sender the rest of the escrow,
the watchtower recorded for the channel, and nobody else, the reward; the contract loses exactly the
escrowed amount, no other balance changes, the watchtower is forgotten and the channel is final.\<close>

theorem finalize_dispute_exact:
  assumes "sep41 (cx_token X)" "(channel_step X V)\<^sup>*\<^sup>* (channels_empty w) s"
    and "invoke (finalize_dispute X E i) s = Ok ((), s')" "current_contract_address E = V"
  shows "\<exists>c tok. sc_channel s i = Some c \<and> sc_token s = Some tok \<and> ch_phase c = Disputed \<and>
    u32_saturating_add (ch_disputed_at c) (ch_challenge_period c) < sequence E \<and>
    0 \<le> bounty_reward s i (ch_balance c) \<and> 5 * bounty_reward s i (ch_balance c) \<le> ch_balance c \<and>
    sc_channel s' = (sc_channel s)(i \<mapsto> c\<lparr>ch_phase := Finalized\<rparr>) \<and> bounty_watchtower s' i = None \<and>
    (\<forall>t a. tok_balance (cx_token X) (sc_world s') t a = tok_balance (cx_token X) (sc_world s) t a +
       (if t = tok then (if a = ch_receiver c then ch_balance c - bounty_reward s i (ch_balance c) else 0) +
          (if a = ch_sender c then ch_amount c - ch_balance c else 0) +
          (if bounty_watchtower s i = Some a then bounty_reward s i (ch_balance c) else 0) -
          (if a = V then ch_amount c else 0) else 0))"
proof -
  note inv = channels_invD [OF reach_channels_inv(1) [OF assms(2,1)]]
  have run: "finalize_dispute X E i s = (Ok (), s')" using assms(3) by (simp add: invoke_Ok_iff)
  obtain c tok reward rest a s0 s1 s2 s3 where c: "sc_channel s i = Some c" "ch_phase c = Disputed" "sc_token s = Some tok"
      "u32_saturating_add (ch_disputed_at c) (ch_challenge_period c) < sequence E"
    and tr: "take_reward i (ch_balance c) (s\<lparr>sc_guard_lock := Some True\<rparr>) = (Ok (reward, rest, a), s0)"
    and p1: "pay_if_positive X tok V (ch_receiver c) rest s0 = (Ok (), s1)"
    and p2: "pay_if_positive X tok V (ch_sender c) (ch_amount c - ch_balance c) s1 = (Ok (), s2)"
    and p3: "(case a of Some w \<Rightarrow> pay_if_positive X tok V w reward | None \<Rightarrow> aret ()) s2 = (Ok (), s3)"
    and s': "s' = s3\<lparr>sc_channel := (sc_channel s3)(i \<mapsto> c\<lparr>ch_phase := Finalized\<rparr>),
       sc_events := sc_events s3 @ [DisputeFinalizedEvent i rest (ch_amount c - ch_balance c)], sc_guard_lock := Some False\<rparr>"
    using run inv(5) unfolding assms(4) [symmetric] by (rule finalize_dispute_Ok)
  have ok: "0 \<le> ch_balance c" "ch_balance c \<le> ch_amount c"
    using single_invD [OF inv(1) c(1)] c(2) by (auto simp: channel_ok_def)
  have "bounty_inv (s\<lparr>sc_guard_lock := Some True\<rparr>)" using inv(5) by (simp add: bounty_inv_def)
  note rw = take_reward_Ok [OF tr this]
  have s0: "sc_world s0 = sc_world s" "sc_channel s0 = sc_channel s" using rw(6) by auto
  let ?wt = "bounty_watchtower s i"
  have sh: "reward = bounty_reward s i (ch_balance c)" "0 < reward \<Longrightarrow> a = ?wt" "bounty_watchtower s0 i = None"
    using take_reward_share [OF tr ok(1)] by (simp_all add: bounty_reward_def bounty_watchtower_def)
  have w3: "sc_channel s3 = sc_channel s2" "sc_bounty s3 = sc_bounty s2"
    using p3 by (cases a; simp; metis pay_keeps_channels(1) pay_keeps_bounty)+
  have none: "reward = 0" if "?wt = None" using that rw(2,4) sh(2) by (cases "reward = 0") auto
  have b3: "tok_balance (cx_token X) (sc_world s3) t z = tok_balance (cx_token X) (sc_world s2) t z -
      (if t = tok \<and> z = V then reward else 0) + (if t = tok \<and> ?wt = Some z then reward else 0)" for t z
  proof (cases "reward = 0")
    case True
    then show ?thesis using p3 pay_exact [OF assms(1)] by (cases a) auto
  next
    case False
    with rw(2) sh(2) none obtain y where "a = Some y" "?wt = Some y" by (cases ?wt) auto
    then show ?thesis using p3 pay_exact [OF assms(1) _ rw(2)] by auto
  qed
  have "0 \<le> rest" using rw(1-3) ok(1) by simp
  then have "tok_balance (cx_token X) (sc_world s') t z = tok_balance (cx_token X) (sc_world s) t z +
       (if t = tok then (if z = ch_receiver c then ch_balance c - reward else 0) +
          (if z = ch_sender c then ch_amount c - ch_balance c else 0) + (if ?wt = Some z then reward else 0) -
          (if z = V then ch_amount c else 0) else 0)" for t z
    using b3 [of t z] pay_exact [OF assms(1) p1, of t z] pay_exact [OF assms(1) p2, of t z] ok rw(1) by (simp add: s' s0)
  moreover have "bounty_watchtower s' i = None"
    using sh(3) w3(2) pay_keeps_bounty [OF p1] pay_keeps_bounty [OF p2] by (simp add: s' bounty_watchtower_def)
  moreover have "sc_channel s' = (sc_channel s)(i \<mapsto> c\<lparr>ch_phase := Finalized\<rparr>)"
    using w3(1) pay_keeps_channels(1) [OF p1] pay_keeps_channels(1) [OF p2] by (simp add: s' s0)
  ultimately show ?thesis using c rw(2,3) ok(1) unfolding sh(1) by blast
qed

lemma cw_final_run:
  "\<exists>s'. finalize_dispute cw_ext (cw_env 200) 1 cw_disputed = (Ok (), s') \<and> sc_world s' 9 8 = 54"
  by (simp add: finalize_dispute_def take_reward_def chan_run_defs cw_disputed_run cw_env_def cw_ext_def cw_channel_def
      cw_ledger_def cw_open_channel ledger_token_def ledger_transfer_def Let_def trunc_div_def)

theorem finalize_dispute_exact_witness:
  "\<exists>s'. finalize_dispute cw_ext (cw_env 200) 1 cw_disputed = (Ok (), s') \<and>
     sc_world s' 9 8 = sc_world cw_disputed 9 8 + (60 - bounty_reward cw_disputed 1 60) +
       (if bounty_watchtower cw_disputed 1 = Some 8 then bounty_reward cw_disputed 1 60 else 0)"
proof -
  obtain s' where s': "finalize_dispute cw_ext (cw_env 200) 1 cw_disputed = (Ok (), s')" using cw_final_run by blast
  then have "invoke (finalize_dispute cw_ext (cw_env 200) 1) cw_disputed = Ok ((), s')" by (simp add: invoke_Ok_iff)
  from finalize_dispute_exact [OF sep41_cw cw_disputed_reach(2) this]
  obtain c tok where c: "sc_channel cw_disputed 1 = Some c" "sc_token cw_disputed = Some tok"
    and b: "\<And>t a. tok_balance (cx_token cw_ext) (sc_world s') t a = tok_balance (cx_token cw_ext) (sc_world cw_disputed) t a +
       (if t = tok then (if a = ch_receiver c then ch_balance c - bounty_reward cw_disputed 1 (ch_balance c) else 0) +
          (if a = ch_sender c then ch_amount c - ch_balance c else 0) +
          (if bounty_watchtower cw_disputed 1 = Some a then bounty_reward cw_disputed 1 (ch_balance c) else 0) -
          (if a = 1 then ch_amount c else 0) else 0)"
    by (auto simp: cw_env_def)
  have "ch_receiver c = 8" "ch_sender c = 7" "ch_balance c = 60" "tok = 9" using c by (auto simp: cw_disputed_run cw_channel_def)
  then show ?thesis using s' b [of 9 8] by (simp add: cw_ext_def ledger_token_def)
qed

section \<open>The life of a channel\<close>

lemma consumed_refused:
  assumes "channel_ok c" "is_consumed (ch_nonce_window c) (su_nonce st)"
  shows "newer_state i c st s \<noteq> (Ok c', s')"
  using assms by (auto simp: newer_state_Ok_iff channel_ok_def consume_cases simp del: act_simps)

lemma consumed_nonce_refused:
  assumes "channels_inv s" "sc_channel s i = Some c" "is_consumed (ch_nonce_window c) (su_nonce st)"
  shows "update_state X i st g s \<noteq> (Ok (), u)" "dispute X E i st g s \<noteq> (Ok (), u)"
    and "submit_counter_evidence X E i st g s \<noteq> (Ok (), u)"
  using consumed_refused [OF single_invD [OF channels_invD(1) [OF assms(1)] assms(2)] assms(3)] assms(2)
  by (auto simp: update_state_def update_with_def dispute_def submit_counter_evidence_def abind_Ok_iff aseq_Ok_iff
      get_channel_internal_Ok_iff arefuse_Ok_iff alift_Ok_iff simp del: act_simps)

lemma channel_evolves:
  assumes "sep41 (cx_token X)" "(channel_step X V)\<^sup>*\<^sup>* (channels_empty w) s" "(channel_step X V)\<^sup>*\<^sup>* s s'"
    and "sc_channel s i = Some c" "sc_channel s' i = Some c'"
  shows "evolves c c'"
proof -
  note inv = reach_channels_inv [OF assms(2,1)]
  have "advances s s'" by (rule steps_advance [OF assms(3) inv(2) assms(1)])
  moreover have "i \<le> get_channel_count s" using channels_invD(1) [OF inv(1)] assms(4) by (simp add: single_inv_def)
  ultimately show ?thesis using assms(4,5) by (auto simp: advances_def)
qed

text \<open>C19: channels live by their specification. Between any two reachable states a channel keeps its parties,
key and periods, its phase only moves forward, a closed channel keeps its escrow and only raises the
receiver's balance, and a finalized channel never changes. While a channel stays disputed, the start of
its window moves by at most 150 ledgers in total, three times the 50 ledgers that the code grants to a
late counter-proof. A nonce that was consumed once is refused for ever by \<open>update_state\<close>, \<open>dispute\<close> and
\<open>submit_counter_evidence\<close>; \<open>close_channel\<close> is not among them, it accepts consumed nonces.\<close>

theorem channel_lifecycle:
  assumes "sep41 (cx_token X)" "(channel_step X V)\<^sup>*\<^sup>* (channels_empty w) s" "(channel_step X V)\<^sup>*\<^sup>* s s'"
    and "sc_channel s i = Some c" "sc_channel s' i = Some c'"
  shows "evolves c c' \<and>
    (ch_phase c = Disputed \<and> ch_phase c' = Disputed \<longrightarrow> ch_disputed_at c' \<le> ch_disputed_at c + 150) \<and>
    (is_consumed (ch_nonce_window c) (su_nonce st) \<longrightarrow> (\<forall>g E u. update_state X i st g s' \<noteq> (Ok (), u) \<and>
       dispute X E i st g s' \<noteq> (Ok (), u) \<and> submit_counter_evidence X E i st g s' \<noteq> (Ok (), u)))"
proof -
  note inv = reach_channels_inv [OF assms(2,1)]
  have inv': "channels_inv s'" using assms(2,3) reach_channels_inv(1) [OF _ assms(1)] by (meson rtranclp_trans)
  have ev: "evolves c c'" by (rule channel_evolves [OF assms(1,2,3,4,5)])
  have "ch_disputed_at c' \<le> ch_disputed_at c + 150" if "ch_phase c = Disputed" "ch_phase c' = Disputed"
  proof -
    have "dispute_prolonged c c'" using ev that by (simp add: evolves_def)
    then show ?thesis by (auto simp: dispute_prolonged_def MAX_DISPUTE_EXTENSIONS_def COUNTER_PROOF_EXTENSION_LEDGERS_def)
  qed
  moreover have "is_consumed (ch_nonce_window c') (su_nonce st)" if "is_consumed (ch_nonce_window c) (su_nonce st)"
    using ev that by (simp add: evolves_def window_grows_def)
  ultimately show ?thesis using ev consumed_nonce_refused [OF inv' assms(5), of st] by blast
qed

theorem channel_lifecycle_witness:
  "evolves (cw_channel\<lparr>ch_nonce := 1, ch_balance := 30, ch_phase := Closed, ch_closed_at := 110, ch_nonce_window := cw_window 2\<rparr>)
     (cw_channel\<lparr>ch_nonce := 5, ch_balance := 60, ch_phase := Disputed, ch_closed_at := 110, ch_disputed_at := 162,
       ch_dispute_extensions := 1, ch_nonce_window := cw_window 42\<rparr>) \<and>
   submit_counter_evidence cw_ext (cw_env 116) 1 (cw_state 1 80) [7] cw_disputed \<noteq> (Ok (), cw_disputed)"
proof -
  have s: "(channel_step cw_ext 1)\<^sup>*\<^sup>* cw_closed cw_disputed" using cw_steps(2-4) by (metis rtranclp.simps)
  have "is_consumed (cw_window 2) 1" by (rule cw_consumed) (simp_all add: cw_bits)
  then show ?thesis
    using channel_lifecycle [OF sep41_cw cw_disputed_reach(1) s, of 1 _ _ "cw_state 1 80"]
    by (simp add: cw_close_run cw_disputed_run cw_state_def)
qed

text \<open>C20: an honest receiver can overturn a close. In a reachable state, while the challenge window of a
closed channel is open, a state signed by the sender with an unused nonce, at least the recorded balance
and within what the escrow has left is accepted by \<open>dispute\<close>, whoever submits it, and its balance becomes
the disputed balance.\<close>

theorem dispute_overturns_close:
  assumes "sep41 (cx_token X)" "(channel_step X V)\<^sup>*\<^sup>* (channels_empty w) s" "sc_channel s i = Some c" "ch_phase c = Closed"
    and "sequence E \<le> u32_saturating_add (ch_closed_at c) (ch_challenge_period c)"
    and "cx_ed25519_verify X (ch_sender_pubkey c) (state_payload c st) g"
    and "\<not> is_consumed (ch_nonce_window c) (su_nonce st)" "ch_balance c \<le> su_balance st"
    and "su_balance st + htlc_reserved s i + hashlock_reserved s i \<le> ch_amount c" "in_i128 (ch_amount c)"
  shows "\<exists>s' c'. invoke (dispute X E i st g) s = Ok ((), s') \<and> sc_channel s' = (sc_channel s)(i \<mapsto> c') \<and>
    ch_phase c' = Disputed \<and> ch_balance c' = su_balance st \<and> ch_disputed_at c' = sequence E \<and>
    is_consumed (ch_nonce_window c') (su_nonce st)"
proof -
  note inv = channels_invD [OF reach_channels_inv(1) [OF assms(2,1)]]
  have ok: "channel_ok c" by (rule single_invD [OF inv(1) assms(3)])
  then obtain w' where w': "consume (ch_nonce_window c) (su_nonce st) = Ok w'"
    using assms(7) by (auto simp: consume_cases channel_ok_def)
  have b: "0 \<le> su_balance st" "0 \<le> htlc_reserved s i" "0 \<le> hashlock_reserved s i" using ok assms(8) inv(6,7) [of i] by (auto simp: channel_ok_def)
  then have "\<not> exceeds_escrow s i c (su_balance st)"
    using assms(9,10) by (simp add: exceeds_escrow_def i128_checked_def in_i128_def)
  then have "dispute X E i st g s = (Ok (), s\<lparr>sc_channel := (sc_channel s)(i \<mapsto> c\<lparr>ch_nonce_window := w',
      ch_nonce := max (ch_nonce c) (su_nonce st), ch_balance := su_balance st, ch_phase := Disputed,
      ch_disputed_at := sequence E, ch_dispute_extensions := 0\<rparr>), sc_events := sc_events s @ [DisputeEvent i (su_nonce st) (su_balance st) (sequence E)]\<rparr>)"
    using assms(3-6,8) w' by (simp add: dispute_def aseq_def abind_def get_channel_internal_def ok_or_def ensure_window_open_def
        verify_state_signature_def ed25519_verify_def newer_state_def refuse_exceeding_def store_channel_def emit_def)
  moreover have "is_consumed w' (su_nonce st)" using consume_consumed(2) [OF _ w'] ok by (simp add: channel_ok_def)
  ultimately show ?thesis by (simp add: invoke_def) (rule exI, rule conjI, rule refl, simp)
qed

theorem dispute_overturns_close_witness:
  "\<exists>s' c'. invoke (dispute cw_ext (cw_env 118) 1 (cw_state 2 90) [7]) cw_closed = Ok ((), s') \<and>
     sc_channel s' = (sc_channel cw_closed)(1 \<mapsto> c') \<and> ch_phase c' = Disputed \<and> ch_balance c' = 90"
proof -
  have "\<not> is_consumed (cw_window 2) 2" by (simp add: is_consumed_iff cw_window_def bit_simps)
  then show ?thesis
    using dispute_overturns_close [OF sep41_cw cw_disputed_reach(1), of 1 _ "cw_env 118" "cw_state 2 90" "[7]"]
    by (fastforce simp: cw_close_run cw_channel_def cw_env_def cw_ext_def cw_state_def u32_saturating_add_def htlc_reserved_def
        hashlock_reserved_def unwrap_or_def in_i128_def)
qed

section \<open>Where the code falls short\<close>

text \<open>C21: closing ignores what the channel already recorded. In a reachable state, \<open>close_channel\<close> accepts any state
the sender ever signed that fits the escrow, also one with a lower balance than the recorded one and with a
nonce already used; and a state whose nonce the channel has consumed before, such as the newest recorded
one, can then never be brought forward in a dispute.\<close>

theorem stale_close_blocks_dispute:
  assumes "sep41 (cx_token X)" "(channel_step X V)\<^sup>*\<^sup>* (channels_empty w) s" "sc_channel s i = Some c" "ch_phase c = Open"
    and "current_contract_address E = V" "\<not> authorized E V"
    and "sequence E \<le> ch_opened_at c + max_channel_lifetime s" "in_u32 (ch_opened_at c + max_channel_lifetime s)"
    and "cx_ed25519_verify X (ch_sender_pubkey c) (state_payload c old) g" "0 \<le> su_balance old"
    and "su_balance old + htlc_reserved s i + hashlock_reserved s i \<le> ch_amount c" "in_i128 (ch_amount c)"
    and "is_consumed (ch_nonce_window c) (su_nonce new)"
  shows "\<exists>s' c'. invoke (close_channel X E i old g) s = Ok ((), s') \<and> sc_channel s' i = Some c' \<and> ch_phase c' = Closed \<and>
    ch_balance c' = su_balance old \<and>
    (\<forall>s'' E' g' u. (channel_step X V)\<^sup>*\<^sup>* s' s'' \<longrightarrow> dispute X E' i new g' s'' \<noteq> (Ok (), u))"
proof -
  note inv = channels_invD [OF reach_channels_inv(1) [OF assms(2,1)]]
  have ok: "channel_ok c" by (rule single_invD [OF inv(1) assms(3)])
  have "\<not> exceeds_escrow s i c (su_balance old)"
    using assms(10,11,12) inv(6,7) [of i] by (simp add: exceeds_escrow_def i128_checked_def in_i128_def)
  then have "closing_channel E i old (\<lambda>c. verify_state_signature X c old g) s = (Ok c, s)"
    using assms(3,4,7-9) by (simp add: closing_channel_def aseq_def abind_def get_channel_internal_def ok_or_def u32_add_def
        verify_state_signature_def ed25519_verify_def refuse_exceeding_def)
  moreover define c' where "c' = c\<lparr>ch_nonce_window := consume_best_effort (ch_nonce_window c) (su_nonce old),
     ch_nonce := max (ch_nonce c) (su_nonce old), ch_balance := su_balance old, ch_phase := Closed, ch_closed_at := sequence E\<rparr>"
  moreover define s' where "s' = s\<lparr>sc_channel := (sc_channel s)(i \<mapsto> c'),
     sc_events := sc_events s @ [ChannelClosedEvent i (su_balance old) (sequence E)]\<rparr>"
  ultimately have close: "invoke (close_channel X E i old g) s = Ok ((), s')"
    by (simp add: close_channel_def record_close_def invoke_def abind_def aseq_def store_channel_def emit_def)
  then have "channel_step X V s s'"
    by (intro channel_step.call [where c = "CloseChannel i old g", OF _ assms(5,6)]) simp
  then have reach: "(channel_step X V)\<^sup>*\<^sup>* (channels_empty w) s'" by (rule rtranclp.rtrancl_into_rtrancl [OF assms(2)])
  have c': "sc_channel s' i = Some c'" by (simp add: s'_def)
  have consumed: "is_consumed (ch_nonce_window c') (su_nonce new)"
    using ok assms(13) by (simp add: c'_def consumed_best_effort channel_ok_def)
  have "dispute X E' i new g' s'' \<noteq> (Ok (), u)" if later: "(channel_step X V)\<^sup>*\<^sup>* s' s''" for s'' E' g' u
  proof (cases "sc_channel s'' i")
    case None
    then show ?thesis by (simp add: dispute_def abind_def get_channel_internal_def ok_or_def)
  next
    case (Some c'')
    have "evolves c' c''" by (rule channel_evolves [OF assms(1) reach later c' Some])
    then show ?thesis
      using consumed consumed_nonce_refused(2) [OF reach_channels_inv(1) [OF rtranclp_trans [OF reach later] assms(1)] Some]
      by (simp add: evolves_def window_grows_def)
  qed
  then show ?thesis using close c' by (auto simp: c'_def)
qed

definition cw_updated :: "ledger channels" where
  "cw_updated = cw_next 105 (UpdateState 1 (cw_state 3 60) [7]) (cw_next 103 (UpdateState 1 (cw_state 1 30) [7]) cw_open)"

lemma cw_updated_run:
  "channel_step cw_ext 1 cw_open (cw_next 103 (UpdateState 1 (cw_state 1 30) [7]) cw_open)"
  "channel_step cw_ext 1 (cw_next 103 (UpdateState 1 (cw_state 1 30) [7]) cw_open) cw_updated"
  "sc_channel cw_updated = [1 \<mapsto> cw_channel\<lparr>ch_nonce := 3, ch_balance := 60, ch_nonce_window := cw_window 10\<rparr>]"
  "max_channel_lifetime cw_updated = 1209600" "htlc_reserved cw_updated 1 = 0" "hashlock_reserved cw_updated 1 = 0"
proof -
  let ?s = "cw_next 103 (UpdateState 1 (cw_state 1 30) [7]) cw_open"
  note defs = update_state_def update_with_def chan_run_defs cw_env_def cw_ext_def cw_state_def cw_channel_def cw_consume cw_bits
  have 1: "fst (channel_run cw_ext (cw_env 103) (UpdateState 1 (cw_state 1 30) [7]) cw_open) = Ok ()"
      "sc_channel ?s = [1 \<mapsto> cw_channel\<lparr>ch_nonce := 1, ch_balance := 30, ch_nonce_window := cw_window 2\<rparr>]"
      "sc_htlc_reserved ?s = Map.empty" "sc_hashlock_reserved ?s = Map.empty" "sc_max_channel_lifetime ?s = Some 1209600"
    by (simp_all add: cw_next_def defs cw_open_channel cw_window_empty)
  show "channel_step cw_ext 1 cw_open ?s" by (rule cw_step [OF 1(1)])
  define t where "t = ?s"
  have 2: "fst (channel_run cw_ext (cw_env 105) (UpdateState 1 (cw_state 3 60) [7]) t) = Ok ()"
      "sc_channel (cw_next 105 (UpdateState 1 (cw_state 3 60) [7]) t) =
        [1 \<mapsto> cw_channel\<lparr>ch_nonce := 3, ch_balance := 60, ch_nonce_window := cw_window 10\<rparr>]"
      "max_channel_lifetime (cw_next 105 (UpdateState 1 (cw_state 3 60) [7]) t) = 1209600"
      "htlc_reserved (cw_next 105 (UpdateState 1 (cw_state 3 60) [7]) t) 1 = 0"
      "hashlock_reserved (cw_next 105 (UpdateState 1 (cw_state 3 60) [7]) t) 1 = 0"
    by (simp_all add: cw_next_def [of 105] defs 1(2-5) [folded t_def])
  show "channel_step cw_ext 1 ?s cw_updated"
    unfolding cw_updated_def t_def [symmetric] by (rule cw_step [OF 2(1)])
  show "sc_channel cw_updated = [1 \<mapsto> cw_channel\<lparr>ch_nonce := 3, ch_balance := 60, ch_nonce_window := cw_window 10\<rparr>]"
      "max_channel_lifetime cw_updated = 1209600" "htlc_reserved cw_updated 1 = 0" "hashlock_reserved cw_updated 1 = 0"
    unfolding cw_updated_def t_def [symmetric] by (rule 2(2-5))+
qed

theorem stale_close_blocks_dispute_witness:
  "sc_channel cw_updated 1 = Some (cw_channel\<lparr>ch_nonce := 3, ch_balance := 60, ch_nonce_window := cw_window 10\<rparr>) \<and>
   (\<exists>s' c'. invoke (close_channel cw_ext (cw_env 106) 1 (cw_state 1 30) [7]) cw_updated = Ok ((), s') \<and>
     sc_channel s' 1 = Some c' \<and> ch_balance c' = 30 \<and>
     (\<forall>g u. dispute cw_ext (cw_env 107) 1 (cw_state 3 60) g s' \<noteq> (Ok (), u)))"
proof -
  let ?c = "cw_channel\<lparr>ch_nonce := 3, ch_balance := 60, ch_nonce_window := cw_window 10\<rparr>"
  have r: "(channel_step cw_ext 1)\<^sup>*\<^sup>* (channels_empty cw_ledger) cw_updated"
    using cw_open_reach cw_updated_run(1,2) by (metis rtranclp.rtrancl_into_rtrancl)
  have c: "sc_channel cw_updated 1 = Some ?c" by (simp add: cw_updated_run(3))
  have "\<exists>s' c'. invoke (close_channel cw_ext (cw_env 106) 1 (cw_state 1 30) [7]) cw_updated = Ok ((), s') \<and>
      sc_channel s' 1 = Some c' \<and> ch_phase c' = Closed \<and> ch_balance c' = su_balance (cw_state 1 30) \<and>
      (\<forall>s'' E' g' u. (channel_step cw_ext 1)\<^sup>*\<^sup>* s' s'' \<longrightarrow> dispute cw_ext E' 1 (cw_state 3 60) g' s'' \<noteq> (Ok (), u))"
    by (rule stale_close_blocks_dispute [OF sep41_cw r c])
      (simp_all add: cw_channel_def cw_env_def cw_ext_def cw_state_def cw_updated_run(4) cw_updated_run(5,6) [unfolded One_nat_def]
        in_u32_def in_i128_def cw_consumed bit_simps)
  then show ?thesis using c by (fastforce simp: cw_state_def)
qed

text \<open>C22: a claim strands the sender's share. When \<open>claim\<close> commits in a reachable state, the receiver is paid
the closing balance and the whole escrow is written off: the contract keeps the difference, the channel
is final in every later state, and none of the calls that pay out of a channel succeeds on it again.\<close>

theorem claim_strands_rest:
  assumes "sep41 (cx_token X)" "(channel_step X V)\<^sup>*\<^sup>* (channels_empty w) s" "invoke (claim X E i) s = Ok ((), s')"
    and "current_contract_address E = V" "\<not> authorized E V" "(channel_step X V)\<^sup>*\<^sup>* s' s''"
  shows "\<exists>c tok. sc_channel s i = Some c \<and> sc_token s = Some tok \<and>
    (ch_receiver c \<noteq> V \<longrightarrow> tok_balance (cx_token X) (sc_world s') tok V = tok_balance (cx_token X) (sc_world s) tok V - ch_balance c) \<and>
    channels_owed s' tok = channels_owed s tok - ch_amount c \<and> sc_channel s'' i = Some (c\<lparr>ch_phase := Finalized\<rparr>) \<and>
    (\<forall>E' u x m g g'. claim X E' i s'' \<noteq> (Ok (), u) \<and> reclaim X E' i s'' \<noteq> (Ok (), u) \<and>
       finalize_dispute X E' i s'' \<noteq> (Ok (), u) \<and> splice_out X E' i x s'' \<noteq> (Ok (), u) \<and>
       (mc_channel_id m = i \<longrightarrow> mutual_close X E' m g g' s'' \<noteq> (Ok (), u)))"
proof -
  note inv = channels_invD [OF reach_channels_inv(1) [OF assms(2,1)]]
  have run: "claim X E i s = (Ok (), s')" using assms(3) by (simp add: invoke_Ok_iff)
  have step: "channel_step X V s s'"
    by (rule channel_step.call [where c = "ClaimChannel i", OF _ assms(4,5)]) (simp add: assms(3))
  have reach: "(channel_step X V)\<^sup>*\<^sup>* (channels_empty w) s'" by (rule rtranclp.rtrancl_into_rtrancl [OF assms(2) step])
  obtain c tok s1 where c: "sc_channel s i = Some c" "ch_phase c = Closed" "sc_token s = Some tok"
    and p: "pay_if_positive X tok V (ch_receiver c) (ch_balance c) (s\<lparr>sc_guard_lock := Some True\<rparr>) = (Ok (), s1)"
    and s': "s' = s1\<lparr>sc_channel := (sc_channel s1)(i \<mapsto> c\<lparr>ch_phase := Finalized\<rparr>),
       sc_events := sc_events s1 @ [ClaimEvent i (ch_balance c) (ch_receiver c)], sc_guard_lock := Some False\<rparr>"
    using run unfolding assms(4) [symmetric] by (rule claim_Ok)
  obtain w1 where s1: "s1 = s\<lparr>sc_guard_lock := Some True, sc_world := w1\<rparr>" using held_pay(1) [OF assms(1) p] by auto
  have "0 \<le> ch_balance c" using single_invD [OF inv(1) c(1)] by (simp add: channel_ok_def)
  then have "ch_receiver c \<noteq> V \<longrightarrow> tok_balance (cx_token X) (sc_world s') tok V = tok_balance (cx_token X) (sc_world s) tok V - ch_balance c"
    using pay_exact [OF assms(1) p, of tok V] by (simp add: s')
  moreover have "channels_owed s' tok = channels_owed s tok - ch_amount c"
    using owed_channel_change [of s' s i "Some (c\<lparr>ch_phase := Finalized\<rparr>)" tok] inv(1) c
    by (simp add: s' s1 channel_worth_def single_inv_def)
  moreover have final: "sc_channel s'' i = Some (c\<lparr>ch_phase := Finalized\<rparr>)"
    using steps_advance [OF assms(6) reach_channels_inv(2) [OF reach assms(1)] assms(1)] by (simp add: advances_def s')
  moreover have "bounty_inv s''"
    using reach_channels_inv(1) [OF rtranclp_trans [OF reach assms(6)] assms(1)] by (rule channels_invD(5))
  then have "finalize_dispute X E' i s'' \<noteq> (Ok (), u)" "claim X E' i s'' \<noteq> (Ok (), u)" "reclaim X E' i s'' \<noteq> (Ok (), u)"
      "splice_out X E' i x s'' \<noteq> (Ok (), u)" "mc_channel_id m = i \<longrightarrow> mutual_close X E' m g g' s'' \<noteq> (Ok (), u)" for E' u x m g g'
    using final splice_out_Ok [of X E' i x s'' u] by (auto elim: finalize_dispute_Ok claim_Ok reclaim_Ok mutual_close_Ok)
  ultimately show ?thesis using c by blast
qed

theorem claim_strands_rest_witness:
  "\<exists>s'. invoke (claim cw_ext (cw_env 200) 1) cw_closed = Ok ((), s') \<and> sc_world s' 9 1 = sc_world cw_closed 9 1 - 30 \<and>
     channels_owed s' 9 = channels_owed cw_closed 9 - 100 \<and> (\<forall>E u. reclaim cw_ext E 1 s' \<noteq> (Ok (), u))"
proof -
  have "fst (claim cw_ext (cw_env 200) 1 cw_closed) = Ok ()"
    by (simp add: claim_def chan_run_defs cw_close_run cw_env_def cw_ext_def cw_channel_def cw_ledger_def cw_open_channel
        ledger_token_def ledger_transfer_def)
  then obtain s' where s': "invoke (claim cw_ext (cw_env 200) 1) cw_closed = Ok ((), s')"
    unfolding invoke_Ok_iff by (metis prod.collapse)
  obtain c tok where c: "sc_channel cw_closed 1 = Some c" "sc_token cw_closed = Some tok"
    and b: "ch_receiver c \<noteq> 1 \<longrightarrow> tok_balance (cx_token cw_ext) (sc_world s') tok 1 = tok_balance (cx_token cw_ext) (sc_world cw_closed) tok 1 - ch_balance c"
      "channels_owed s' tok = channels_owed cw_closed tok - ch_amount c" "\<And>E u. reclaim cw_ext E 1 s' \<noteq> (Ok (), u)"
    using claim_strands_rest [OF sep41_cw cw_disputed_reach(1) s' _ _ rtranclp.rtrancl_refl] by (auto simp: cw_env_def)
  have "ch_receiver c = 8" "ch_balance c = 30" "ch_amount c = 100" "tok = 9" using c by (auto simp: cw_close_run cw_channel_def)
  then show ?thesis using s' b by (auto simp: cw_ext_def ledger_token_def)
qed

end
