(* ===== verification/Stream_Escrow.thy ===== *)
theory Stream_Escrow
  imports Stream_Vault
begin

text \<open>
  The stream vault as a machine over its storage and the ledger sequence. The invariant bounds what was
  claimed of a stream by what has streamed; with it every call is backed, and the vault is an escrow.
\<close>

section \<open>Schedules\<close>

definition elapsed_ledgers :: "disbursement_stream \<Rightarrow> u32 \<Rightarrow> u32" where
  "elapsed_ledgers st now = min (unwrap_or (ds_paused_at st) now) (ds_stop_ledger st) - ds_start_ledger st"

lemma streamed_amount_eq:
  assumes "in_i128 (ds_deposit st)" "0 < ds_rate_per_ledger st"
  shows "streamed_amount st now = min (int (elapsed_ledgers st now) * ds_rate_per_ledger st) (ds_deposit st)"
proof -
  let ?x = "int (elapsed_ledgers st now) * ds_rate_per_ledger st"
  have "0 \<le> ?x" using assms(2) by simp
  then have "ds_deposit st \<le> ?x" if "\<not> in_i128 ?x" using that assms(1) by (auto simp: in_i128_def)
  then show ?thesis
    by (auto simp: streamed_amount_def elapsed_ledgers_def saturating_sub_def i128_checked_def Let_def)
qed

definition stream_ok :: "u32 \<Rightarrow> disbursement_stream \<Rightarrow> bool" where
  "stream_ok now st \<longleftrightarrow> 0 < ds_rate_per_ledger st \<and> 0 < ds_deposit st \<and> in_i128 (ds_deposit st) \<and>
     ds_start_ledger st < ds_stop_ledger st \<and>
     ds_deposit st \<le> int (ds_stop_ledger st - ds_start_ledger st) * ds_rate_per_ledger st \<and>
     0 \<le> ds_claimed st \<and> ds_claimed st \<le> streamed_amount st now \<and> ds_claimed st < ds_deposit st \<and>
     (case ds_paused_at st of Some p \<Rightarrow> p \<le> now \<and> p < ds_stop_ledger st | None \<Rightarrow> True)"

lemma stream_ok_streamed:
  assumes "stream_ok now st"
  shows "streamed_amount st k = min (int (elapsed_ledgers st k) * ds_rate_per_ledger st) (ds_deposit st)"
    and "0 \<le> streamed_amount st k" "streamed_amount st k \<le> ds_deposit st"
  using assms streamed_amount_eq [of st k] by (auto simp: stream_ok_def)

lemma elapsed_mono: "k \<le> m \<Longrightarrow> elapsed_ledgers st k \<le> elapsed_ledgers st m"
  by (cases "ds_paused_at st") (auto simp: elapsed_ledgers_def)

lemma streamed_mono:
  assumes "stream_ok now st" "k \<le> m"
  shows "streamed_amount st k \<le> streamed_amount st m"
proof -
  have "int (elapsed_ledgers st k) * ds_rate_per_ledger st \<le> int (elapsed_ledgers st m) * ds_rate_per_ledger st"
    using elapsed_mono [OF assms(2)] assms(1) by (intro mult_right_mono) (auto simp: stream_ok_def)
  then show ?thesis by (simp add: stream_ok_streamed(1) [OF assms(1)] min_le_iff_disj min.coboundedI1)
qed

lemma stream_ok_mono: "stream_ok now st \<Longrightarrow> now \<le> m \<Longrightarrow> stream_ok m st"
  using streamed_mono [of now st now m] by (auto simp: stream_ok_def split: option.splits)

text \<open>At the stop ledger everything has streamed, unless the schedule is frozen.\<close>

lemma streamed_stop:
  assumes "stream_ok now st" "ds_paused_at st = None" "ds_stop_ledger st \<le> k"
  shows "streamed_amount st k = ds_deposit st"
proof -
  have "elapsed_ledgers st k = ds_stop_ledger st - ds_start_ledger st" using assms(2,3) by (simp add: elapsed_ledgers_def)
  then show ?thesis using assms(1) by (simp add: stream_ok_streamed(1) [OF assms(1)] stream_ok_def del: of_nat_diff)
qed

text \<open>A pause freezes the amount, a resumption shifts the schedule by the paused ledgers.\<close>

definition paused_shift :: "disbursement_stream \<Rightarrow> u32 \<Rightarrow> u32 \<Rightarrow> u32" where
  "paused_shift st p now = max now (ds_start_ledger st) - max p (ds_start_ledger st)"

definition resumed :: "disbursement_stream \<Rightarrow> u32 \<Rightarrow> u32 \<Rightarrow> disbursement_stream" where
  "resumed st p now = st\<lparr>ds_start_ledger := ds_start_ledger st + paused_shift st p now,
     ds_stop_ledger := ds_stop_ledger st + paused_shift st p now, ds_paused_at := None\<rparr>"

lemma elapsed_resumed:
  assumes "p \<le> now" "now \<le> k"
  shows "elapsed_ledgers (resumed st p now) k = elapsed_ledgers (st\<lparr>ds_paused_at := None\<rparr>) (k - paused_shift st p now)"
  using assms by (auto simp: elapsed_ledgers_def resumed_def paused_shift_def min_def max_def)

lemma elapsed_paused:
  assumes "ds_paused_at st = Some p" "p \<le> now" "p < ds_stop_ledger st"
  shows "elapsed_ledgers (resumed st p now) now = elapsed_ledgers st now"
  using assms by (auto simp: elapsed_ledgers_def resumed_def paused_shift_def min_def max_def)

lemma streamed_resumed:
  assumes "stream_ok now st" "ds_paused_at st = Some p" "now \<le> k"
  shows "streamed_amount (resumed st p now) k = streamed_amount (st\<lparr>ds_paused_at := None\<rparr>) (k - paused_shift st p now)"
    and "streamed_amount (resumed st p now) now = streamed_amount st now"
proof -
  have b: "in_i128 (ds_deposit st)" "0 < ds_rate_per_ledger st" "p \<le> now" "p < ds_stop_ledger st"
    using assms(1,2) by (auto simp: stream_ok_def)
  have r: "ds_deposit (resumed st p now) = ds_deposit st" "ds_rate_per_ledger (resumed st p now) = ds_rate_per_ledger st"
    by (simp_all add: resumed_def)
  show "streamed_amount (resumed st p now) k = streamed_amount (st\<lparr>ds_paused_at := None\<rparr>) (k - paused_shift st p now)"
    using b r elapsed_resumed [OF b(3) assms(3)] by (simp add: streamed_amount_eq)
  show "streamed_amount (resumed st p now) now = streamed_amount st now"
    using b r elapsed_paused [OF assms(2) b(3,4)] by (simp add: streamed_amount_eq)
qed

lemma stream_ok_resumed:
  assumes "stream_ok now st" "ds_paused_at st = Some p"
  shows "stream_ok now (resumed st p now)"
  using assms streamed_resumed(2) [OF assms order_refl]
  by (auto simp: stream_ok_def) (auto simp: resumed_def)

lemma stream_ok_paused:
  assumes "stream_ok now st" "ds_paused_at st = None" "now < ds_stop_ledger st"
  shows "stream_ok now (st\<lparr>ds_paused_at := Some now\<rparr>)"
proof -
  have "streamed_amount (st\<lparr>ds_paused_at := Some now\<rparr>) now = streamed_amount st now"
    using assms by (simp add: streamed_amount_eq stream_ok_def elapsed_ledgers_def)
  then show ?thesis using assms by (simp add: stream_ok_def del: of_nat_diff)
qed

section \<open>The machine\<close>

datatype stream_call =
    CreateStream address u32 u32 i128 i128
  | ClaimStream u64
  | PauseStream u64
  | ResumeStream u64
  | CancelStream u64

primrec stream_run :: "'w token \<Rightarrow> env \<Rightarrow> stream_call \<Rightarrow> ('w, unit) stream_act" where
  "stream_run T E (CreateStream b f t r d) = aseq (create_stream T E b f t r d) (aret ())"
| "stream_run T E (ClaimStream i) = aseq (claim_stream T E i) (aret ())"
| "stream_run T E (PauseStream i) = pause_stream E i"
| "stream_run T E (ResumeStream i) = resume_stream E i"
| "stream_run T E (CancelStream i) = aseq (cancel_stream T E i) (aret ())"

text \<open>The deposit of a call is an \<open>i128\<close>.\<close>

primrec stream_typed :: "stream_call \<Rightarrow> bool" where
  "stream_typed (CreateStream b f t r d) \<longleftrightarrow> in_i128 d"
| "stream_typed (ClaimStream i) \<longleftrightarrow> True"
| "stream_typed (PauseStream i) \<longleftrightarrow> True"
| "stream_typed (ResumeStream i) \<longleftrightarrow> True"
| "stream_typed (CancelStream i) \<longleftrightarrow> True"

inductive stream_step :: "'w token \<Rightarrow> address \<Rightarrow> u32 \<times> 'w streams \<Rightarrow> u32 \<times> 'w streams \<Rightarrow> bool"
  for T :: "'w token" and V :: address where
  call: "invoke (stream_run T E c) s = Ok ((), s') \<Longrightarrow> stream_typed c \<Longrightarrow> current_contract_address E = V \<Longrightarrow>
    n \<le> sequence E \<Longrightarrow> stream_step T V (n, s) (sequence E, s')"
| world: "n \<le> m \<Longrightarrow> (\<And>t. tok_balance T (ss_world s) t V \<le> tok_balance T w t V) \<Longrightarrow>
    stream_step T V (n, s) (m, s\<lparr>ss_world := w\<rparr>)"

definition stream_count :: "'w streams \<Rightarrow> u64" where
  "stream_count s = unwrap_or (ss_stream_count s) 0"

definition streams_inv :: "u32 \<times> 'w streams \<Rightarrow> bool" where
  "streams_inv = (\<lambda>(n, s). \<forall>i st. ss_stream s i = Some st \<longrightarrow> i < stream_count s \<and> stream_ok n st)"

definition stream_worth :: "disbursement_stream option \<Rightarrow> i128" where
  "stream_worth o' = (case o' of Some st \<Rightarrow> ds_deposit st - ds_claimed st | None \<Rightarrow> 0)"

definition streams_owed :: "u32 \<times> 'w streams \<Rightarrow> address \<Rightarrow> i128" where
  "streams_owed = (\<lambda>(n, s) t. if ss_token s = Some t then (\<Sum>i\<in>{..<stream_count s}. stream_worth (ss_stream s i)) else 0)"

definition streams_held :: "'w token \<Rightarrow> address \<Rightarrow> u32 \<times> 'w streams \<Rightarrow> address \<Rightarrow> i128" where
  "streams_held T V = (\<lambda>(n, s) t. tok_balance T (ss_world s) t V)"

lemma stream_steps_Ok_iff [ok_iff]:
  "load_stream i s = (Ok st, s') \<longleftrightarrow> ss_stream s i = Some st \<and> s' = s"
  "stream_token s = (Ok t, s') \<longleftrightarrow> ss_token s = Some t \<and> s' = s"
  "stream_merchant s = (Ok m, s') \<longleftrightarrow> ss_merchant s = Some m \<and> s' = s"
  "store_stream i st s = (r, s') \<longleftrightarrow> r = Ok () \<and> s' = s\<lparr>ss_stream := (ss_stream s)(i \<mapsto> st)\<rparr>"
  "remove_stream i s = (r, s') \<longleftrightarrow> r = Ok () \<and> s' = s\<lparr>ss_stream := (ss_stream s)(i := None)\<rparr>"
  "stream_publish ev s = (r, s') \<longleftrightarrow> r = Ok () \<and> s' = s\<lparr>ss_events := ss_events s @ [ev]\<rparr>"
  "stream_transfer T tok a b x s = (Ok u, s') \<longleftrightarrow> (\<exists>w. tok_transfer T (ss_world s) tok a b x = Some w \<and> s' = s\<lparr>ss_world := w\<rparr>)"
  by (auto simp: load_stream_def stream_token_def stream_merchant_def store_stream_def remove_stream_def
      stream_publish_def stream_transfer_def ok_iff)

text \<open>What each call leaves in the books: one stream replaced, and the vault's balance at least what pays for it.\<close>

definition books_step :: "'w token \<Rightarrow> address \<Rightarrow> u32 \<Rightarrow> u32 \<Rightarrow> 'w streams \<Rightarrow> 'w streams \<Rightarrow> bool" where
  "books_step T V n m s s' \<longleftrightarrow> (\<exists>i o'. i \<le> stream_count s \<and> ss_token s' = ss_token s \<and> ss_merchant s' = ss_merchant s \<and>
     ss_stream s' = (ss_stream s)(i := o') \<and>
     (ss_stream_count s' = ss_stream_count s \<and> i < stream_count s \<or>
      ss_stream_count s' = Some (stream_count s + 1) \<and> i = stream_count s) \<and>
     (\<forall>st. o' = Some st \<longrightarrow> stream_ok m st) \<and> ss_token s \<noteq> None \<and>
     (\<forall>t. (if ss_token s = Some t then stream_worth o' - stream_worth (ss_stream s i) else 0) \<le>
        tok_balance T (ss_world s') t V - tok_balance T (ss_world s) t V))"

lemma books_step_backed:
  assumes "books_step T V n m s s'" "streams_inv (n, s)" "n \<le> m"
  shows "streams_inv (m, s')" "streams_owed (m, s') t - streams_owed (n, s) t \<le> streams_held T V (m, s') t - streams_held T V (n, s) t"
proof -
  obtain i o' where i: "ss_token s' = ss_token s" "ss_stream s' = (ss_stream s)(i := o')"
    and count: "ss_stream_count s' = ss_stream_count s \<and> i < stream_count s \<or>
      ss_stream_count s' = Some (stream_count s + 1) \<and> i = stream_count s"
    and ok: "\<And>st. o' = Some st \<Longrightarrow> stream_ok m st"
    and held: "\<And>t. (if ss_token s = Some t then stream_worth o' - stream_worth (ss_stream s i) else 0) \<le>
        tok_balance T (ss_world s') t V - tok_balance T (ss_world s) t V"
    using assms(1) unfolding books_step_def by blast
  have old: "ss_stream s j = Some st \<Longrightarrow> j < stream_count s \<and> stream_ok m st" for j st
    using assms(2,3) by (simp add: streams_inv_def) (meson stream_ok_mono)
  have c': "stream_count s \<le> stream_count s'" "i < stream_count s'" using count by (auto simp: stream_count_def)
  show "streams_inv (m, s')"
    using old ok c' by (auto simp: streams_inv_def i(2)) (meson less_le_trans old)+
  have sum: "(\<Sum>j\<in>{..<stream_count s'}. stream_worth (ss_stream s' j)) = (\<Sum>j\<in>{..<stream_count s}. stream_worth (ss_stream s j)) +
      stream_worth o' - stream_worth (ss_stream s i)"
    using count
  proof
    assume c: "ss_stream_count s' = ss_stream_count s \<and> i < stream_count s"
    then obtain k where k: "stream_count s = Suc k" "stream_count s' = Suc k" "i \<le> k"
      by (cases "stream_count s") (auto simp: stream_count_def)
    show ?thesis
      using sum_change_at [OF k(3), of "\<lambda>j. stream_worth (ss_stream s' j)" "\<lambda>j. stream_worth (ss_stream s j)"]
      by (simp add: i(2) k(1,2) lessThan_Suc_atMost)
  next
    assume c: "ss_stream_count s' = Some (stream_count s + 1) \<and> i = stream_count s"
    then have "ss_stream s i = None" using old [of i] by (cases "ss_stream s i") auto
    moreover have "(\<Sum>j\<in>{..<stream_count s}. stream_worth (ss_stream s' j)) = (\<Sum>j\<in>{..<stream_count s}. stream_worth (ss_stream s j))"
      using c by (intro sum.cong) (auto simp: i(2))
    ultimately show ?thesis using c by (simp add: stream_count_def [of s'] i(2) stream_worth_def)
  qed
  show "streams_owed (m, s') t - streams_owed (n, s) t \<le> streams_held T V (m, s') t - streams_held T V (n, s) t"
    using held [of t] sum by (cases "ss_token s = Some t") (simp_all add: streams_owed_def streams_held_def i(1))
qed

section \<open>Every call is backed\<close>

lemma create_stream_Ok:
  assumes "create_stream T E b f t r d s = (Ok i, s')"
  shows "\<exists>tok w. authorized E b \<and> b \<noteq> current_contract_address E \<and> 0 < d \<and> 0 < r \<and> sequence E \<le> f \<and> f < t \<and>
    (in_i128 d \<longrightarrow> d \<le> int (t - f) * r) \<and> i = stream_count s \<and> ss_token s = Some tok \<and>
    tok_transfer T (ss_world s) tok b (current_contract_address E) d = Some w \<and>
    s' = s\<lparr>ss_stream_count := Some (i + 1), ss_stream := (ss_stream s)(i \<mapsto> \<lparr>ds_buyer = b, ds_start_ledger = f,
        ds_stop_ledger = t, ds_rate_per_ledger = r, ds_deposit = d, ds_claimed = 0, ds_paused_at = None\<rparr>),
      ss_world := w, ss_events := ss_events s @ [StreamCreatedEvent i b f t r d]\<rparr>"
proof -
  have cap: "d \<le> int (t - f) * r" if "in_i128 d" "\<not> (case i128_checked (int (t - f) * r) of Some c \<Rightarrow> c < d | None \<Rightarrow> False)" "0 < r"
    using that by (auto simp: i128_checked_def in_i128_def split: if_splits simp del: of_nat_diff)
      (smt (verit) of_nat_0_le_iff mult_nonneg_nonneg)
  show ?thesis
    using assms cap unfolding create_stream_def Let_def
    by (auto simp: ok_iff stream_count_def not_le not_less simp del: act_simps)
qed

lemma pay_vault:
  assumes "sep41 T" "tok_transfer T w tok V a x = Some w'"
  shows "(if Some tok = Some t then - x else 0) \<le> tok_balance T w' t V - tok_balance T w t V"
  using sep41D(1,3) [OF assms] by auto

lemma create_stream_books:
  assumes "create_stream T E b f t r d s = (Ok i, s')" "sep41 T" "in_i128 d" "current_contract_address E = V" "streams_inv (n, s)"
  shows "books_step T V n (sequence E) s s'"
proof -
  let ?st = "\<lparr>ds_buyer = b, ds_start_ledger = f, ds_stop_ledger = t, ds_rate_per_ledger = r, ds_deposit = d, ds_claimed = 0, ds_paused_at = None\<rparr>"
  obtain tok w where c: "b \<noteq> V" "0 < d" "0 < r" "sequence E \<le> f" "f < t" "d \<le> int (t - f) * r" "i = stream_count s" "ss_token s = Some tok"
    and w: "tok_transfer T (ss_world s) tok b V d = Some w"
    and s': "s' = s\<lparr>ss_stream_count := Some (i + 1), ss_stream := (ss_stream s)(i \<mapsto> ?st),
      ss_world := w, ss_events := ss_events s @ [StreamCreatedEvent i b f t r d]\<rparr>"
    using create_stream_Ok [OF assms(1)] assms(3,4) by blast
  have absent: "ss_stream s i = None"
    using assms(5) c(7) by (cases "ss_stream s i") (auto simp: streams_inv_def)
  have "streamed_amount ?st (sequence E) = 0"
    using c assms(3) by (simp add: streamed_amount_eq elapsed_ledgers_def)
  then have "stream_ok (sequence E) ?st" using c assms(3) by (simp add: stream_ok_def del: of_nat_diff)
  moreover have "d \<le> tok_balance T w tok V - tok_balance T (ss_world s) tok V" "t' \<noteq> tok \<Longrightarrow> 0 \<le> tok_balance T w t' V - tok_balance T (ss_world s) t' V" for t'
    using sep41D(3) [OF assms(2) w] c(1) by auto
  moreover have "stream_worth (Some ?st) - stream_worth (ss_stream s i) \<le> d"
    using absent by (simp add: stream_worth_def)
  ultimately show ?thesis
    unfolding books_step_def using c(7,8) by (intro exI [of _ i] exI [of _ "Some ?st"]) (auto simp: s' stream_worth_def)
qed

lemma settle_stream_iff [ok_iff]:
  "(if b then remove_stream i else store_stream i st) s = (r, s') \<longleftrightarrow>
     r = Ok () \<and> s' = s\<lparr>ss_stream := (ss_stream s)(i := if b then None else Some st)\<rparr>"
  by (simp add: ok_iff)

lemma claim_stream_Ok:
  assumes "claim_stream T E i s = (Ok x, s')"
  shows "\<exists>st tok m w. ss_stream s i = Some st \<and> x = streamed_amount st (sequence E) - ds_claimed st \<and> 0 < x \<and>
    ss_token s = Some tok \<and> ss_merchant s = Some m \<and>
    tok_transfer T (ss_world s) tok (current_contract_address E) m x = Some w \<and>
    s' = s\<lparr>ss_stream := (ss_stream s)(i := if ds_claimed st + x = ds_deposit st then None
        else Some (st\<lparr>ds_claimed := ds_claimed st + x\<rparr>)),
      ss_world := w, ss_events := ss_events s @ [StreamClaimedEvent i x (ds_claimed st + x) (ds_claimed st + x = ds_deposit st)]\<rparr>"
proof -
  define f where "f st = streamed_amount st (sequence E) - ds_claimed st" for st
  show ?thesis
    using assms unfolding claim_stream_def f_def [symmetric]
    by (simp only: ok_iff simp_thms result.inject, elim exE conjE, hypsubst)
      (clarsimp simp: ok_iff not_le simp del: act_simps)
qed

lemma pause_stream_Ok:
  assumes "pause_stream E i s = (Ok u, s')"
  shows "\<exists>st. ss_stream s i = Some st \<and> ds_paused_at st = None \<and> sequence E < ds_stop_ledger st \<and> authorized E (ds_buyer st) \<and>
    s' = s\<lparr>ss_stream := (ss_stream s)(i \<mapsto> st\<lparr>ds_paused_at := Some (sequence E)\<rparr>),
      ss_events := ss_events s @ [StreamPausedEvent i (sequence E)]\<rparr>"
  using assms unfolding pause_stream_def
  by (auto simp: ok_iff not_le simp del: act_simps)

lemma resume_stream_Ok:
  assumes "resume_stream E i s = (Ok u, s')"
  shows "\<exists>st p. ss_stream s i = Some st \<and> ds_paused_at st = Some p \<and> authorized E (ds_buyer st) \<and>
    s' = s\<lparr>ss_stream := (ss_stream s)(i \<mapsto> resumed st p (sequence E)),
      ss_events := ss_events s @ [StreamResumedEvent i (sequence E) (ds_stop_ledger (resumed st p (sequence E)))]\<rparr>"
  using assms unfolding resume_stream_def
  by (auto simp: ok_iff resumed_def paused_shift_def simp del: act_simps)

lemma cancel_stream_Ok:
  assumes "cancel_stream T E i s = (Ok (x, y), s')"
  shows "\<exists>st tok w w'. ss_stream s i = Some st \<and> authorized E (ds_buyer st) \<and>
    x = streamed_amount st (sequence E) - ds_claimed st \<and> y = ds_deposit st - streamed_amount st (sequence E) \<and>
    ss_token s = Some tok \<and>
    (if 0 < x then \<exists>m. ss_merchant s = Some m \<and> tok_transfer T (ss_world s) tok (current_contract_address E) m x = Some w
     else w = ss_world s) \<and>
    (if 0 < y then tok_transfer T w tok (current_contract_address E) (ds_buyer st) y = Some w' else w' = w) \<and>
    s' = s\<lparr>ss_stream := (ss_stream s)(i := None), ss_world := w', ss_events := ss_events s @ [StreamCancelledEvent i x y]\<rparr>"
  using assms unfolding cancel_stream_def Let_def
  by (cases "0 < x"; cases "0 < y"; auto simp: ok_iff simp del: act_simps)

text \<open>A call that replaces one stored stream is backed when the balance moves by no more than the stream's worth.\<close>

lemma books_replaced:
  assumes "streams_inv (n, s)" "ss_stream s i = Some st" "ss_stream s' = (ss_stream s)(i := o')"
    and "ss_token s' = ss_token s \<and> ss_merchant s' = ss_merchant s" "ss_stream_count s' = ss_stream_count s" "ss_token s = Some tok"
    and "\<And>st'. o' = Some st' \<Longrightarrow> stream_ok m st'"
    and "\<And>t. (if t = tok then stream_worth o' - stream_worth (Some st) else 0) \<le> tok_balance T (ss_world s') t V - tok_balance T (ss_world s) t V"
  shows "books_step T V n m s s'"
proof -
  have "i < stream_count s" using assms(1,2) by (auto simp: streams_inv_def)
  moreover have "(if ss_token s = Some t then stream_worth o' - stream_worth (ss_stream s i) else 0) \<le>
      tok_balance T (ss_world s') t V - tok_balance T (ss_world s) t V" for t
    using assms(8) [of t] assms(2,6) by (cases "t = tok") auto
  ultimately show ?thesis
    unfolding books_step_def using assms(3-7) by (intro exI [of _ i] exI [of _ o']) simp
qed

lemma claim_stream_books:
  assumes "claim_stream T E i s = (Ok x, s')" "sep41 T" "current_contract_address E = V" "streams_inv (n, s)" "n \<le> sequence E"
  shows "books_step T V n (sequence E) s s'"
proof -
  obtain st tok m w where c: "ss_stream s i = Some st" "x = streamed_amount st (sequence E) - ds_claimed st" "0 < x" "ss_token s = Some tok"
    and w: "tok_transfer T (ss_world s) tok V m x = Some w"
    and s': "s' = s\<lparr>ss_stream := (ss_stream s)(i := if ds_claimed st + x = ds_deposit st then None
        else Some (st\<lparr>ds_claimed := ds_claimed st + x\<rparr>)),
      ss_world := w, ss_events := ss_events s @ [StreamClaimedEvent i x (ds_claimed st + x) (ds_claimed st + x = ds_deposit st)]\<rparr>"
    using claim_stream_Ok [OF assms(1)] assms(3) by blast
  have ok: "stream_ok (sequence E) st" using assms(4,5) c(1) by (auto simp: streams_inv_def intro: stream_ok_mono)
  have "streamed_amount (st\<lparr>ds_claimed := v\<rparr>) k = streamed_amount st k" for v k by (simp add: streamed_amount_def cong: option.case_cong)
  then have ok': "stream_ok (sequence E) (st\<lparr>ds_claimed := ds_claimed st + x\<rparr>)" if "ds_claimed st + x \<noteq> ds_deposit st"
    using ok that c(2,3) stream_ok_streamed(3) [OF ok, of "sequence E"]
    by (simp add: stream_ok_def del: of_nat_diff cong: option.case_cong)
  show ?thesis
  proof (rule books_replaced [OF assms(4) c(1) _ _ _ c(4)])
    show "(if t = tok then stream_worth (if ds_claimed st + x = ds_deposit st then None else Some (st\<lparr>ds_claimed := ds_claimed st + x\<rparr>))
        - stream_worth (Some st) else 0) \<le> tok_balance T (ss_world s') t V - tok_balance T (ss_world s) t V" for t
      using pay_vault [OF assms(2) w, of t] by (simp add: s' stream_worth_def split: if_splits)
  qed (use ok' in \<open>auto simp: s' split: if_splits\<close>)
qed

lemma pause_stream_books:
  assumes "pause_stream E i s = (Ok u, s')" "streams_inv (n, s)" "n \<le> sequence E" "ss_token s = Some tok"
  shows "books_step T V n (sequence E) s s'"
proof -
  obtain st where c: "ss_stream s i = Some st" "ds_paused_at st = None" "sequence E < ds_stop_ledger st"
    and s': "s' = s\<lparr>ss_stream := (ss_stream s)(i \<mapsto> st\<lparr>ds_paused_at := Some (sequence E)\<rparr>),
      ss_events := ss_events s @ [StreamPausedEvent i (sequence E)]\<rparr>"
    using pause_stream_Ok [OF assms(1)] by blast
  have "stream_ok (sequence E) st" using assms(2,3) c(1) by (auto simp: streams_inv_def intro: stream_ok_mono)
  then show ?thesis
    using stream_ok_paused c(2,3) by (intro books_replaced [OF assms(2) c(1) _ _ _ assms(4)]) (auto simp: s' stream_worth_def)
qed

lemma resume_stream_books:
  assumes "resume_stream E i s = (Ok u, s')" "streams_inv (n, s)" "n \<le> sequence E" "ss_token s = Some tok"
  shows "books_step T V n (sequence E) s s'"
proof -
  obtain st p where c: "ss_stream s i = Some st" "ds_paused_at st = Some p"
    and s': "s' = s\<lparr>ss_stream := (ss_stream s)(i \<mapsto> resumed st p (sequence E)),
      ss_events := ss_events s @ [StreamResumedEvent i (sequence E) (ds_stop_ledger (resumed st p (sequence E)))]\<rparr>"
    using resume_stream_Ok [OF assms(1)] by blast
  have "stream_ok (sequence E) st" using assms(2,3) c(1) by (auto simp: streams_inv_def intro: stream_ok_mono)
  then have "stream_ok (sequence E) (resumed st p (sequence E))" by (rule stream_ok_resumed) (rule c(2))
  moreover have "ds_deposit (resumed st p k) = ds_deposit st" "ds_claimed (resumed st p k) = ds_claimed st" for k
    by (simp_all add: resumed_def)
  ultimately show ?thesis
    by (intro books_replaced [OF assms(2) c(1) _ _ _ assms(4)]) (auto simp: s' stream_worth_def)
qed

lemma cancel_stream_books:
  assumes "cancel_stream T E i s = (Ok (x, y), s')" "sep41 T" "current_contract_address E = V" "streams_inv (n, s)" "n \<le> sequence E"
  shows "books_step T V n (sequence E) s s'"
proof -
  obtain st tok w w' where c: "ss_stream s i = Some st" "ss_token s = Some tok"
      "x = streamed_amount st (sequence E) - ds_claimed st" "y = ds_deposit st - streamed_amount st (sequence E)"
    and w: "if 0 < x then \<exists>m. ss_merchant s = Some m \<and> tok_transfer T (ss_world s) tok V m x = Some w else w = ss_world s"
      "if 0 < y then tok_transfer T w tok V (ds_buyer st) y = Some w' else w' = w"
    and s': "s' = s\<lparr>ss_stream := (ss_stream s)(i := None), ss_world := w', ss_events := ss_events s @ [StreamCancelledEvent i x y]\<rparr>"
    using cancel_stream_Ok [OF assms(1)] assms(3) by blast
  have ok: "stream_ok (sequence E) st" using assms(4,5) c(1) by (auto simp: streams_inv_def intro: stream_ok_mono)
  then have pos: "0 \<le> x" "0 \<le> y" using c(3,4) stream_ok_streamed(3) [OF ok, of "sequence E"] by (auto simp: stream_ok_def)
  have paid: "(if t = tok then - x else 0) \<le> tok_balance T w t V - tok_balance T (ss_world s) t V"
    "(if t = tok then - y else 0) \<le> tok_balance T w' t V - tok_balance T w t V" for t
    using w pos pay_vault [OF assms(2), of _ tok V _ _ _ t] by (auto split: if_splits)
  show ?thesis
  proof (rule books_replaced [OF assms(4) c(1) _ _ _ c(2)])
    show "(if t = tok then stream_worth None - stream_worth (Some st) else 0) \<le> tok_balance T (ss_world s') t V - tok_balance T (ss_world s) t V" for t
      using paid [of t] c(3,4) by (auto simp: s' stream_worth_def split: if_splits)
  qed (auto simp: s')
qed

lemma stream_run_books:
  assumes "stream_run T E c s = (Ok (), s')" "stream_typed c" "sep41 T" "current_contract_address E = V"
    and "streams_inv (n, s)" "n \<le> sequence E" "ss_token s = Some tok"
  shows "books_step T V n (sequence E) s s'"
proof (cases c)
  case (CreateStream b f t r d)
  then obtain i where "create_stream T E b f t r d s = (Ok i, s')" using assms(1) by (auto simp: aseq_Ok_iff)
  then show ?thesis using create_stream_books assms(2-5) CreateStream by simp
next
  case (ClaimStream i)
  then obtain x where "claim_stream T E i s = (Ok x, s')" using assms(1) by (auto simp: aseq_Ok_iff)
  then show ?thesis using claim_stream_books assms(3-6) by blast
next
  case (PauseStream i)
  then show ?thesis using pause_stream_books assms(1,5-7) by simp
next
  case (ResumeStream i)
  then show ?thesis using resume_stream_books assms(1,5-7) by simp
next
  case (CancelStream i)
  then obtain x y where "cancel_stream T E i s = (Ok (x, y), s')" using assms(1) by (auto simp: aseq_Ok_iff)
  then show ?thesis using cancel_stream_books assms(3-6) by blast
qed

lemma books_step_config: "books_step T V n m s s' \<Longrightarrow> ss_token s' = ss_token s \<and> ss_merchant s' = ss_merchant s"
  by (auto simp: books_step_def)

lemma stream_step_sound:
  assumes "stream_step T V x y" "streams_inv x" "ss_token (snd x) = Some tok" "sep41 T"
  shows "streams_inv y" "ss_token (snd y) = ss_token (snd x) \<and> ss_merchant (snd y) = ss_merchant (snd x)"
    and "streams_owed y t - streams_owed x t \<le> streams_held T V y t - streams_held T V x t"
proof -
  have "streams_inv y \<and> (ss_token (snd y) = ss_token (snd x) \<and> ss_merchant (snd y) = ss_merchant (snd x)) \<and>
      streams_owed y t - streams_owed x t \<le> streams_held T V y t - streams_held T V x t"
    using assms(1)
  proof cases
    case (call E c s s' n)
    have "stream_run T E c s = (Ok (), s')" using call(3) by (simp add: invoke_Ok_iff)
    then have b: "books_step T V n (sequence E) s s'"
      using call assms(2-4) by (intro stream_run_books) simp_all
    then show ?thesis
      using books_step_backed [OF b] books_step_config [OF b] call assms(2,3) by simp
  next
    case (world n m s w)
    have "streams_inv (m, s\<lparr>ss_world := w\<rparr>)"
      using assms(2) world(1,3) by (auto simp: streams_inv_def stream_count_def intro: stream_ok_mono)
    then show ?thesis
      using world assms(3) by (auto simp: streams_owed_def streams_held_def stream_count_def)
  qed
  then show "streams_inv y" "ss_token (snd y) = ss_token (snd x) \<and> ss_merchant (snd y) = ss_merchant (snd x)"
    "streams_owed y t - streams_owed x t \<le> streams_held T V y t - streams_held T V x t" by blast+
qed

interpretation streams: escrow "stream_step T V" "\<lambda>x. streams_inv x \<and> ss_token (snd x) \<noteq> None \<and> sep41 T"
  "streams_held T V" streams_owed for T V
proof unfold_locales
  fix x y t assume x: "streams_inv x \<and> ss_token (snd x) \<noteq> None \<and> sep41 T" and "stream_step T V x y"
  then show "streams_inv y \<and> ss_token (snd y) \<noteq> None \<and> sep41 T"
    "streams_owed y t - streams_owed x t \<le> streams_held T V y t - streams_held T V x t"
    using stream_step_sound [of T V x y] by auto
qed

text \<open>The vault after its constructor, and what holds in the states it reaches.\<close>

definition streams_fresh :: "address \<Rightarrow> address \<Rightarrow> 'w \<Rightarrow> 'w streams" where
  "streams_fresh merchant tok w = (streams_empty w)\<lparr>ss_merchant := Some merchant, ss_token := Some tok\<rparr>"

lemma streams_fresh_constructor: "stream_constructor merchant tok (streams_empty w) = (Ok (), streams_fresh merchant tok w)"
  by (simp add: stream_constructor_def streams_fresh_def)

lemma streams_fresh_inv:
  "streams_inv (n, streams_fresh merchant tok w)" "ss_token (streams_fresh merchant tok w) = Some tok"
  "ss_merchant (streams_fresh merchant tok w) = Some merchant"
  "ss_world (streams_fresh merchant tok w) = w" "streams_owed (n, streams_fresh merchant tok w) t = 0"
  by (simp_all add: streams_fresh_def streams_empty_def streams_inv_def streams_owed_def stream_count_def unwrap_or_def)

lemma streams_reach:
  assumes "(stream_step T V)\<^sup>*\<^sup>* (n, streams_fresh merchant tok w) (m, s)" "sep41 T"
  shows "streams_inv (m, s)" "ss_token s = Some tok" "ss_merchant s = Some merchant"
proof -
  let ?x = "(n, streams_fresh merchant tok w)"
  have i: "streams_inv ?x \<and> ss_token (snd ?x) \<noteq> None \<and> sep41 T" using assms(2) by (simp add: streams_fresh_inv)
  show "streams_inv (m, s)" using streams.steps_inv [OF assms(1) i] by simp
  have "ss_token (snd (m, s)) = ss_token (snd ?x) \<and> ss_merchant (snd (m, s)) = ss_merchant (snd ?x)"
    by (rule streams.steps_rel [OF assms(1) i, where R = "\<lambda>x y. ss_token (snd y) = ss_token (snd x) \<and> ss_merchant (snd y) = ss_merchant (snd x)"])
      (use stream_step_sound(2) in \<open>simp, simp, blast\<close>)
  then show "ss_token s = Some tok" "ss_merchant s = Some merchant" by (simp_all add: streams_fresh_inv)
qed

lemma streams_backed:
  assumes "(stream_step T V)\<^sup>*\<^sup>* (n, streams_fresh merchant tok w) (m, s)" "sep41 T" "0 \<le> tok_balance T w tok V"
  shows "streams_owed (m, s) tok \<le> tok_balance T (ss_world s) tok V"
  using streams.solvent [OF assms(1), of tok] assms(2,3) by (simp add: streams_fresh_inv streams_held_def)

lemma stream_worth_owed:
  assumes "streams_inv (m, s)" "ss_token s = Some tok" "ss_stream s i = Some st"
  shows "ds_deposit st - ds_claimed st \<le> streams_owed (m, s) tok"
proof -
  have "0 \<le> stream_worth (ss_stream s j)" for j
    using assms(1) by (cases "ss_stream s j") (auto simp: streams_inv_def stream_worth_def stream_ok_def dest: spec [of _ j])
  moreover have "i < stream_count s" using assms(1,3) by (simp add: streams_inv_def)
  ultimately have "stream_worth (ss_stream s i) \<le> (\<Sum>j\<in>{..<stream_count s}. stream_worth (ss_stream s j))"
    by (intro member_le_sum) auto
  then show ?thesis using assms(2,3) by (simp add: streams_owed_def stream_worth_def)
qed

end
