(* ===== verification/Stream_Claims.thy ===== *)
theory Stream_Claims
  imports Stream_Escrow
begin

text \<open>
  What the stream vault guarantees its buyers and its merchant. The instances run on a small vault whose
  token is a ledger of balances.
\<close>

section \<open>A small vault\<close>

text \<open>Address 1 is the vault, 7 the buyer, 8 the merchant, 9 the token.\<close>

definition sw_env :: "u32 \<Rightarrow> env" where
  "sw_env n = \<lparr>sequence = n, timestamp = 0, current_contract_address = 1, authorized = (\<lambda>a. a \<noteq> 1)\<rparr>"

definition sw_ledger :: ledger where
  "sw_ledger = (\<lambda>t a. if t = 9 \<and> a = 7 then 500 else 0)"

definition sw_init :: "ledger streams" where
  "sw_init = streams_fresh 8 9 sw_ledger"

definition sw_next :: "u32 \<Rightarrow> stream_call \<Rightarrow> ledger streams \<Rightarrow> ledger streams" where
  "sw_next n c s = snd (stream_run ledger_token (sw_env n) c s)"

definition sw_open :: "ledger streams" where
  "sw_open = sw_next 10 (CreateStream 7 10 20 10 100) sw_init"

definition sw_claimed :: "ledger streams" where
  "sw_claimed = sw_next 14 (ClaimStream 0) sw_open"

definition sw_paused :: "ledger streams" where
  "sw_paused = sw_next 15 (PauseStream 0) sw_claimed"

lemmas sw_run_defs = abind_def aseq_def ok_or_def unwrap_def unwrap_or_def require_auth_def u64_add_def i128_op_def
  in_u64_def in_u32_def in_i128_def i128_checked_def stream_merchant_def stream_token_def load_stream_def store_stream_def
  remove_stream_def stream_publish_def stream_transfer_def streamed_amount_def saturating_sub_def
  sw_env_def ledger_token_def ledger_transfer_def

lemma sw_init_state: "ss_token sw_init = Some 9" "ss_merchant sw_init = Some 8" "ss_stream sw_init = Map.empty"
  "ss_stream_count sw_init = None" "ss_world sw_init = sw_ledger" "ss_events sw_init = []"
  by (simp_all add: sw_init_def streams_fresh_def streams_empty_def)

definition sw_stream :: "i128 \<Rightarrow> disbursement_stream" where
  "sw_stream x = \<lparr>ds_buyer = 7, ds_start_ledger = 10, ds_stop_ledger = 20, ds_rate_per_ledger = 10, ds_deposit = 100,
     ds_claimed = x, ds_paused_at = None\<rparr>"

lemma sw_open_run:
  "stream_run ledger_token (sw_env 10) (CreateStream 7 10 20 10 100) sw_init = (Ok (), sw_open)"
  "ss_stream sw_open = [0 \<mapsto> sw_stream 0]" "ss_token sw_open = Some 9" "ss_merchant sw_open = Some 8" "ss_stream_count sw_open = Some 1"
  "ss_world sw_open = (\<lambda>t a. sw_ledger t a - (if t = 9 \<and> a = 7 then 100 else 0) + (if t = 9 \<and> a = 1 then 100 else 0))"
  unfolding sw_open_def
  by (simp_all add: sw_next_def create_stream_def sw_run_defs sw_init_state sw_stream_def sw_ledger_def Let_def)

lemma sw_claimed_run:
  "stream_run ledger_token (sw_env 14) (ClaimStream 0) sw_open = (Ok (), sw_claimed)"
  "ss_stream sw_claimed = [0 \<mapsto> sw_stream 40]" "ss_token sw_claimed = Some 9" "ss_merchant sw_claimed = Some 8" "ss_stream_count sw_claimed = Some 1"
  "ss_world sw_claimed 9 1 = 60"
  unfolding sw_claimed_def
  by (simp_all add: sw_next_def claim_stream_def sw_run_defs sw_open_run sw_stream_def sw_ledger_def Let_def)

lemma sw_paused_run:
  "stream_run ledger_token (sw_env 15) (PauseStream 0) sw_claimed = (Ok (), sw_paused)"
  "ss_stream sw_paused = [0 \<mapsto> (sw_stream 40)\<lparr>ds_paused_at := Some 15\<rparr>]"
  unfolding sw_paused_def
  by (simp_all add: sw_next_def pause_stream_def sw_run_defs sw_claimed_run sw_stream_def)

lemma sw_step:
  assumes "stream_run ledger_token (sw_env m) c s = (Ok (), s')" "stream_typed c" "n \<le> m"
  shows "stream_step ledger_token 1 (n, s) (m, s')"
  using stream_step.call [of ledger_token "sw_env m" c s s' 1 n] assms by (simp add: invoke_Ok_iff sw_env_def)

lemma sw_reach:
  "(stream_step ledger_token 1)\<^sup>*\<^sup>* (0, sw_init) (14, sw_claimed)"
  "(stream_step ledger_token 1)\<^sup>*\<^sup>* (0, sw_init) (15, sw_paused)"
proof -
  have "stream_step ledger_token 1 (0, sw_init) (10, sw_open)" "stream_step ledger_token 1 (10, sw_open) (14, sw_claimed)"
    "stream_step ledger_token 1 (14, sw_claimed) (15, sw_paused)"
    by (rule sw_step [OF sw_open_run(1)] sw_step [OF sw_claimed_run(1)] sw_step [OF sw_paused_run(1)]; simp add: in_i128_def)+
  then show "(stream_step ledger_token 1)\<^sup>*\<^sup>* (0, sw_init) (14, sw_claimed)" "(stream_step ledger_token 1)\<^sup>*\<^sup>* (0, sw_init) (15, sw_paused)"
    by (metis rtranclp.simps)+
qed

section \<open>Solvency\<close>

text \<open>C23: the vault can always pay its streams. Whatever calls are committed, by anyone and at ledgers that only
advance, the vault holds at least the unclaimed deposits of all open streams together, and of no stream has more
been claimed than what has streamed by the current ledger, which never exceeds the deposit.\<close>

theorem streams_solvent:
  assumes "sep41 T" "(stream_step T V)\<^sup>*\<^sup>* (n, s0) (m, s)" "stream_constructor merchant tok (streams_empty w) = (Ok (), s0)"
    and "0 \<le> tok_balance T w tok V"
  shows "(\<Sum>i\<in>{..<unwrap_or (ss_stream_count s) 0}. case ss_stream s i of Some st \<Rightarrow> ds_deposit st - ds_claimed st | None \<Rightarrow> 0)
      \<le> tok_balance T (ss_world s) tok V \<and>
    (\<forall>i st. ss_stream s i = Some st \<longrightarrow> i < unwrap_or (ss_stream_count s) 0 \<and>
       0 \<le> ds_claimed st \<and> ds_claimed st \<le> streamed_amount st m \<and> streamed_amount st m \<le> ds_deposit st)"
proof -
  have reach: "(stream_step T V)\<^sup>*\<^sup>* (n, streams_fresh merchant tok w) (m, s)"
    using assms(2,3) by (simp add: streams_fresh_constructor)
  note r = streams_reach [OF reach assms(1)]
  have "(\<Sum>i\<in>{..<stream_count s}. stream_worth (ss_stream s i)) \<le> tok_balance T (ss_world s) tok V"
    using streams_backed [OF reach assms(1,4)] r(2) by (simp add: streams_owed_def)
  moreover have "i < stream_count s \<and> 0 \<le> ds_claimed st \<and> ds_claimed st \<le> streamed_amount st m \<and> streamed_amount st m \<le> ds_deposit st"
    if "ss_stream s i = Some st" for i st
  proof -
    have "i < stream_count s" "stream_ok m st" using r(1) that by (auto simp: streams_inv_def)
    then show ?thesis using stream_ok_streamed(3) by (auto simp: stream_ok_def)
  qed
  ultimately show ?thesis by (simp add: stream_count_def stream_worth_def)
qed

theorem streams_solvent_witness: "60 \<le> ss_world sw_claimed 9 1 \<and> 40 \<le> streamed_amount (sw_stream 40) 14"
proof -
  have "stream_constructor 8 9 (streams_empty sw_ledger) = (Ok (), sw_init)" by (simp add: sw_init_def streams_fresh_constructor)
  from streams_solvent [OF sep41_ledger_token sw_reach(1) this] show ?thesis
    by (auto simp: sw_claimed_run unwrap_or_def ledger_token_def sw_ledger_def sw_stream_def dest: spec [of _ 0])
qed

section \<open>Settlement\<close>

text \<open>C24: a finished stream is settled in full by anyone. From any reachable state, once the stop ledger of an
unpaused stream has passed, the remainder of its deposit is positive and covered by what the contract holds,
and a claim by whoever calls it fails in one way only: when the token refuses the transfer of exactly this
remainder to the merchant (say, for a missing trustline), the call traps and nothing changes. Otherwise it
commits, returns the remainder, moves it to the merchant and removes the stream, and a merchant other than
the contract itself is credited with it.\<close>

theorem stream_settles:
  assumes "sep41 T" "(stream_step T V)\<^sup>*\<^sup>* (n, s0) (m, s)"
    and "stream_constructor merchant tok (streams_empty w) = (Ok (), s0)" "0 \<le> tok_balance T w tok V"
    and "ss_stream s i = Some st" "ds_paused_at st = None" "ds_stop_ledger st \<le> sequence E" "m \<le> sequence E"
    and "current_contract_address E = V"
  shows "0 < ds_deposit st - ds_claimed st \<and> ds_deposit st - ds_claimed st \<le> tok_balance T (ss_world s) tok V \<and>
    (case tok_transfer T (ss_world s) tok V merchant (ds_deposit st - ds_claimed st) of
       None \<Rightarrow> invoke (claim_stream T E i) s = Trap
     | Some w' \<Rightarrow> \<exists>s'. invoke (claim_stream T E i) s = Ok (ds_deposit st - ds_claimed st, s') \<and>
         ss_stream s' = (ss_stream s)(i := None) \<and> ss_world s' = w' \<and>
         (merchant \<noteq> V \<longrightarrow> tok_balance T w' tok merchant =
            tok_balance T (ss_world s) tok merchant + (ds_deposit st - ds_claimed st)))"
proof -
  have reach: "(stream_step T V)\<^sup>*\<^sup>* (n, streams_fresh merchant tok w) (m, s)"
    using assms(2,3) by (simp add: streams_fresh_constructor)
  note r = streams_reach [OF reach assms(1)]
  let ?x = "ds_deposit st - ds_claimed st"
  have ok: "stream_ok (sequence E) st" using r(1) assms(5,8) by (auto simp: streams_inv_def intro: stream_ok_mono)
  then have x: "0 < ?x" "in_i128 ?x" "in_i128 (ds_deposit st)" by (auto simp: stream_ok_def in_i128_def)
  have bal: "?x \<le> tok_balance T (ss_world s) tok V"
    using stream_worth_owed [OF r(1,2) assms(5)] streams_backed [OF reach assms(1,4)] by linarith
  have all: "streamed_amount st (sequence E) = ds_deposit st" by (rule streamed_stop [OF ok assms(6,7)])
  note run = claim_stream_def invoke_def abind_def aseq_def load_stream_def ok_or_def i128_op_def
    remove_stream_def stream_token_def stream_merchant_def unwrap_def stream_transfer_def stream_publish_def
  show ?thesis
  proof (cases "tok_transfer T (ss_world s) tok V merchant ?x")
    case None
    then have "invoke (claim_stream T E i) s = Trap"
      using all assms(5,9) x r(2,3) by (simp add: run)
    with None x(1) bal show ?thesis by simp
  next
    case (Some w')
    then have "invoke (claim_stream T E i) s = Ok (?x, s\<lparr>ss_stream := (ss_stream s)(i := None), ss_world := w',
        ss_events := ss_events s @ [StreamClaimedEvent i ?x (ds_deposit st) True]\<rparr>)"
      using all assms(5,9) x r(2,3) by (simp add: run)
    with Some x(1) bal sep41D(3) [OF assms(1) Some, of tok merchant] show ?thesis by simp
  qed
qed

theorem stream_settles_witness:
  "\<exists>s'. invoke (claim_stream ledger_token (sw_env 20) 0) sw_claimed = Ok (60, s') \<and> ss_stream s' = Map.empty"
proof -
  have "stream_constructor 8 9 (streams_empty sw_ledger) = (Ok (), sw_init)" by (simp add: sw_init_def streams_fresh_constructor)
  note r = stream_settles [OF sep41_ledger_token sw_reach(1) this, of 0 "sw_stream 40" "sw_env 20"]
  have s: "ss_stream sw_claimed 0 = Some (sw_stream 40)" "ds_deposit (sw_stream 40) - ds_claimed (sw_stream 40) = 60"
    by (simp_all add: sw_claimed_run sw_stream_def)
  have h: "0 \<le> tok_balance ledger_token sw_ledger 9 1" "ds_paused_at (sw_stream 40) = None"
    "ds_stop_ledger (sw_stream 40) \<le> sequence (sw_env 20)" "14 \<le> sequence (sw_env 20)" "current_contract_address (sw_env 20) = 1"
    by (simp_all add: ledger_token_def sw_ledger_def sw_stream_def sw_env_def)
  have "\<exists>w'. tok_transfer ledger_token (ss_world sw_claimed) 9 1 8 60 = Some w'"
    using sw_claimed_run(6) by (simp add: ledger_token_def ledger_transfer_def)
  with r s h show ?thesis by (auto simp: sw_claimed_run)
qed

text \<open>C25: a pause costs the merchant nothing. When the buyer resumes a stream at ledger \<open>k\<close>, the amount streamed so
far is exactly what it was during the pause, and from then on the stream pays at every ledger what the
original schedule would have paid as many ledgers earlier as the pause lasted inside the schedule.\<close>

theorem resume_shifts_schedule:
  assumes "sep41 T" "(stream_step T V)\<^sup>*\<^sup>* (n, s0) (m, s)" "stream_constructor merchant tok (streams_empty w) = (Ok (), s0)"
    and "invoke (resume_stream E i) s = Ok ((), s')" "m \<le> sequence E"
  shows "\<exists>st st' p. ss_stream s i = Some st \<and> ds_paused_at st = Some p \<and> authorized E (ds_buyer st) \<and>
    ss_stream s' = (ss_stream s)(i \<mapsto> st') \<and> ss_world s' = ss_world s \<and>
    streamed_amount st' (sequence E) = streamed_amount st p \<and>
    (\<forall>k \<ge> sequence E. streamed_amount st' k = streamed_amount (st\<lparr>ds_paused_at := None\<rparr>)
       (k - (max (sequence E) (ds_start_ledger st) - max p (ds_start_ledger st))))"
proof -
  have "(stream_step T V)\<^sup>*\<^sup>* (n, streams_fresh merchant tok w) (m, s)"
    using assms(2,3) by (simp add: streams_fresh_constructor)
  then have inv: "streams_inv (m, s)" by (rule streams_reach [OF _ assms(1)])
  have "resume_stream E i s = (Ok (), s')" using assms(4) by (simp add: invoke_Ok_iff)
  from resume_stream_Ok [OF this] obtain st p where st: "ss_stream s i = Some st" "ds_paused_at st = Some p" "authorized E (ds_buyer st)"
    and s': "s' = s\<lparr>ss_stream := (ss_stream s)(i \<mapsto> resumed st p (sequence E)),
      ss_events := ss_events s @ [StreamResumedEvent i (sequence E) (ds_stop_ledger (resumed st p (sequence E)))]\<rparr>"
    by blast
  have ok: "stream_ok (sequence E) st" using inv assms(5) st(1) by (auto simp: streams_inv_def intro: stream_ok_mono)
  have frozen: "streamed_amount st (sequence E) = streamed_amount st p" using st(2) by (simp add: streamed_amount_def unwrap_or_def)
  have "streamed_amount (resumed st p (sequence E)) (sequence E) = streamed_amount st p"
    using streamed_resumed(2) [OF ok st(2) order_refl] frozen by simp
  moreover have "\<forall>k \<ge> sequence E. streamed_amount (resumed st p (sequence E)) k =
      streamed_amount (st\<lparr>ds_paused_at := None\<rparr>) (k - (max (sequence E) (ds_start_ledger st) - max p (ds_start_ledger st)))"
    using streamed_resumed(1) [OF ok st(2)] by (simp add: paused_shift_def)
  moreover have "ss_stream s' = (ss_stream s)(i \<mapsto> resumed st p (sequence E))" "ss_world s' = ss_world s" by (simp_all add: s')
  ultimately show ?thesis using st by blast
qed

definition sw_resumed :: "ledger streams" where
  "sw_resumed = sw_next 18 (ResumeStream 0) sw_paused"

lemma sw_resumed_run:
  "invoke (resume_stream (sw_env 18) 0) sw_paused = Ok ((), sw_resumed)"
  "ss_stream sw_resumed = [0 \<mapsto> (sw_stream 40)\<lparr>ds_start_ledger := 13, ds_stop_ledger := 23\<rparr>]"
  unfolding sw_resumed_def
  by (simp_all add: sw_next_def resume_stream_def invoke_def sw_run_defs sw_paused_run sw_stream_def u32_sub_def u32_checked_def)

theorem resume_shifts_schedule_witness:
  "\<exists>st'. ss_stream sw_resumed 0 = Some st' \<and> streamed_amount st' 18 = streamed_amount (sw_stream 40) 15 \<and>
     (\<forall>k \<ge> 18. streamed_amount st' k = streamed_amount (sw_stream 40) (k - 3))"
proof -
  have "stream_constructor 8 9 (streams_empty sw_ledger) = (Ok (), sw_init)" by (simp add: sw_init_def streams_fresh_constructor)
  from resume_shifts_schedule [OF sep41_ledger_token sw_reach(2) this sw_resumed_run(1)] obtain st' where
    "ss_stream sw_resumed = (ss_stream sw_paused)(0 \<mapsto> st')" "streamed_amount st' 18 = streamed_amount ((sw_stream 40)\<lparr>ds_paused_at := Some 15\<rparr>) 15"
    "\<forall>k \<ge> 18. streamed_amount st' k = streamed_amount (sw_stream 40) (k - 3)"
    by (auto simp: sw_paused_run sw_stream_def sw_env_def)
  moreover have "streamed_amount ((sw_stream 40)\<lparr>ds_paused_at := Some 15\<rparr>) 15 = streamed_amount (sw_stream 40) 15"
    by (simp add: streamed_amount_def sw_stream_def unwrap_or_def i128_checked_def saturating_sub_def in_i128_def)
  ultimately show ?thesis by simp
qed

end
