(* ===== verification/Upto_Authorization.thy ===== *)
theory Upto_Authorization
  imports Common Invocation Escrow
begin

text \<open>
  Metered payments (\<open>upto-authorization/src\<close>: \<open>lib.rs\<close>, \<open>types.rs\<close>, \<open>inactivity.rs\<close>, \<open>domain.rs\<close>). A buyer authorizes a
  payment up to a cap plus a slippage tolerance, the contract approves itself on the token for that
  amount, and the facilitator settles the actual amount once. The token is a parameter with the
  allowances of SEP-41.
\<close>

section \<open>Tokens with allowances\<close>

text \<open>An allowance is read at a ledger, since an approval lives until the ledger it names.\<close>

record 'w allowance_token =
  at_balance :: "'w \<Rightarrow> address \<Rightarrow> address \<Rightarrow> i128"
  at_allowance :: "'w \<Rightarrow> u32 \<Rightarrow> address \<Rightarrow> address \<Rightarrow> address \<Rightarrow> i128"
  at_approve :: "'w \<Rightarrow> u32 \<Rightarrow> address \<Rightarrow> address \<Rightarrow> address \<Rightarrow> i128 \<Rightarrow> u32 \<Rightarrow> 'w option"
  at_transfer_from :: "'w \<Rightarrow> u32 \<Rightarrow> address \<Rightarrow> address \<Rightarrow> address \<Rightarrow> address \<Rightarrow> i128 \<Rightarrow> 'w option"

text \<open>
  The documented behaviour: an approval replaces the allowance of one spender until its ledger; a transfer on
  behalf of the owner succeeds only for an amount within allowance and balance and moves exactly it.
\<close>

definition sep41_allowance :: "'w allowance_token \<Rightarrow> bool" where
  "sep41_allowance T \<longleftrightarrow>
     (\<forall>w now tok from spender amt expiry w'. at_approve T w now tok from spender amt expiry = Some w' \<longrightarrow>
        (\<forall>t a. at_balance T w' t a = at_balance T w t a) \<and>
        (\<forall>n t a b. at_allowance T w' n t a b = (if t = tok \<and> a = from \<and> b = spender
           then if n \<le> expiry then amt else 0 else at_allowance T w n t a b))) \<and>
     (\<forall>w now tok spender from to amt w'. at_transfer_from T w now tok spender from to amt = Some w' \<longrightarrow>
        0 \<le> amt \<and> amt \<le> at_allowance T w now tok from spender \<and> amt \<le> at_balance T w tok from \<and>
        (\<forall>t a. at_balance T w' t a = at_balance T w t a - (if t = tok \<and> a = from then amt else 0)
           + (if t = tok \<and> a = to then amt else 0)))"

section \<open>Data\<close>

datatype (plugins only: code size) upto_error =
    UptoAlreadyInitialized | UptoNotInitialized | UptoUnauthorized | AlreadySettled | Expired | AmountExceedsCap
  | UptoInvalidAmount | AuthorizationNotFound | AllowanceFailed | SignerNotRegistered | InvalidSlippage
  | AmountOverflow | NotInactive

record authorization_record =
  ar_from :: address
  ar_to :: address
  ar_cap :: i128
  ar_expiry :: u32
  ar_consumed :: bool
  ar_max_slippage_bps :: u32
  ar_created_ledger :: u32

datatype (plugins only: code size) upto_event =
    AuthorizeEvent bytes address address i128 u32 u32
  | SettleEvent bytes i128 address
  | PruneEvent u32
  | EscrowCancelledInactivity bytes address i128 u32

record 'w upto =
  up_admin :: "address option"
  up_token :: "address option"
  up_authorization :: "bytes \<rightharpoonup> authorization_record"
  up_signer :: "address \<rightharpoonup> bytes"
  up_inactivity_timeout :: "u32 option"
  up_events :: "upto_event list"
  up_world :: 'w

definition upto_empty :: "'w \<Rightarrow> 'w upto" where
  "upto_empty w = \<lparr>up_admin = None, up_token = None, up_authorization = Map.empty, up_signer = Map.empty,
     up_inactivity_timeout = None, up_events = [], up_world = w\<rparr>"

text \<open>What the contract takes from others: the token, hashing, signatures, encodings and the network.\<close>

record 'w upto_ext =
  ux_token :: "'w allowance_token"
  ux_sha256 :: "bytes \<Rightarrow> bytes"
  ux_ed25519_verify :: "bytes \<Rightarrow> bytes \<Rightarrow> bytes \<Rightarrow> bool"
  ux_address_xdr :: "address \<Rightarrow> bytes"
  ux_network_id :: bytes

type_synonym ('w, 'a) upto_act = "(upto_error, 'w upto, 'a) action"

section \<open>The settlement ceiling\<close>

definition UPTO_BPS_DENOMINATOR :: u32 where "UPTO_BPS_DENOMINATOR = 10000"

definition MAX_SLIPPAGE_BPS :: u32 where "MAX_SLIPPAGE_BPS = UPTO_BPS_DENOMINATOR"

definition max_settleable :: "i128 \<Rightarrow> u32 \<Rightarrow> (upto_error, i128 option) result" where
  "max_settleable cap bps =
     (if cap < 0 \<or> bps > MAX_SLIPPAGE_BPS then Ok None
      else let denom = int UPTO_BPS_DENOMINATOR in
        obind (i128_op (trunc_div cap denom * int bps)) (\<lambda>whole.
        obind (i128_op (trunc_mod cap denom * int bps)) (\<lambda>part.
        obind (i128_op (whole + trunc_div part denom)) (\<lambda>tolerance.
        Ok (i128_checked (cap + tolerance))))))"

section \<open>Operations\<close>

definition upto_publish :: "upto_event \<Rightarrow> ('w, unit) upto_act" where
  "upto_publish ev = amodify (\<lambda>s. s\<lparr>up_events := up_events s @ [ev]\<rparr>)"

definition upto_admin_auth :: "env \<Rightarrow> ('w, unit) upto_act" where
  "upto_admin_auth E = abind (aread up_admin) (\<lambda>a.
     abind (alift (ok_or a UptoNotInitialized)) (\<lambda>admin. alift (require_auth E admin)))"

definition approve_token :: "'w upto_ext \<Rightarrow> env \<Rightarrow> address \<Rightarrow> address \<Rightarrow> i128 \<Rightarrow> u32 \<Rightarrow> ('w, unit) upto_act" where
  "approve_token X E tok from amount expiry = abind (aread up_world) (\<lambda>w.
     abind (alift (unwrap (at_approve (ux_token X) w (sequence E) tok from (current_contract_address E) amount expiry))) (\<lambda>w'.
     amodify (\<lambda>s. s\<lparr>up_world := w'\<rparr>)))"

definition upto_transfer_from :: "'w upto_ext \<Rightarrow> env \<Rightarrow> address \<Rightarrow> address \<Rightarrow> address \<Rightarrow> i128 \<Rightarrow> ('w, unit) upto_act" where
  "upto_transfer_from X E tok from to amount = abind (aread up_world) (\<lambda>w.
     abind (alift (unwrap (at_transfer_from (ux_token X) w (sequence E) tok (current_contract_address E) from to amount))) (\<lambda>w'.
     amodify (\<lambda>s. s\<lparr>up_world := w'\<rparr>)))"

definition store_authorization :: "bytes \<Rightarrow> authorization_record \<Rightarrow> ('w, unit) upto_act" where
  "store_authorization payment_id r = amodify (\<lambda>s. s\<lparr>up_authorization := (up_authorization s)(payment_id \<mapsto> r)\<rparr>)"

definition load_authorization :: "bytes \<Rightarrow> ('w, authorization_record) upto_act" where
  "load_authorization payment_id = abind (aread (\<lambda>s. up_authorization s payment_id)) (\<lambda>r.
     alift (ok_or r AuthorizationNotFound))"

definition upto_initialize :: "address \<Rightarrow> address \<Rightarrow> ('w, unit) upto_act" where
  "upto_initialize admin tok = abind (aread up_admin) (\<lambda>a.
     aseq (arefuse (a \<noteq> None) UptoAlreadyInitialized)
     (amodify (\<lambda>s. s\<lparr>up_admin := Some admin, up_token := Some tok\<rparr>)))"

definition authorize_with_slippage ::
  "'w upto_ext \<Rightarrow> env \<Rightarrow> bytes \<Rightarrow> address \<Rightarrow> address \<Rightarrow> i128 \<Rightarrow> u32 \<Rightarrow> u32 \<Rightarrow> ('w, unit) upto_act" where
  "authorize_with_slippage X E payment_id from to cap expiry max_slippage_bps =
     aseq (arefuse (cap \<le> 0) UptoInvalidAmount)
     (aseq (arefuse (max_slippage_bps > MAX_SLIPPAGE_BPS) InvalidSlippage)
     (abind (alift (max_settleable cap max_slippage_bps)) (\<lambda>m.
      abind (alift (ok_or m AmountOverflow)) (\<lambda>max_amount.
      aseq (alift (require_auth E from))
      (aseq (upto_admin_auth E)
      (abind (aread (\<lambda>s. up_authorization s payment_id)) (\<lambda>existing.
       aseq (arefuse (case existing of Some r \<Rightarrow> ar_expiry r > sequence E \<and> \<not> ar_consumed r | None \<Rightarrow> False) AlreadySettled)
       (abind (aread up_token) (\<lambda>t.
        abind (alift (unwrap t)) (\<lambda>tok.
        aseq (approve_token X E tok from max_amount expiry)
        (aseq (store_authorization payment_id \<lparr>ar_from = from, ar_to = to, ar_cap = cap, ar_expiry = expiry,
           ar_consumed = False, ar_max_slippage_bps = max_slippage_bps, ar_created_ledger = sequence E\<rparr>)
        (upto_publish (AuthorizeEvent payment_id from to cap expiry max_slippage_bps)))))))))))))"

definition authorize :: "'w upto_ext \<Rightarrow> env \<Rightarrow> bytes \<Rightarrow> address \<Rightarrow> address \<Rightarrow> i128 \<Rightarrow> u32 \<Rightarrow> ('w, unit) upto_act" where
  "authorize X E payment_id from to cap expiry = authorize_with_slippage X E payment_id from to cap expiry 0"

definition register_signer :: "env \<Rightarrow> address \<Rightarrow> bytes \<Rightarrow> ('w, unit) upto_act" where
  "register_signer E buyer signer_pubkey = aseq (alift (require_auth E buyer))
     (amodify (\<lambda>s. s\<lparr>up_signer := (up_signer s)(buyer \<mapsto> signer_pubkey)\<rparr>))"

definition get_signer :: "'w upto \<Rightarrow> address \<Rightarrow> bytes option" where
  "get_signer s buyer = up_signer s buyer"

definition PROTOCOL_VERSION :: u32 where "PROTOCOL_VERSION = 1"

definition compute_domain_separator :: "'w upto_ext \<Rightarrow> env \<Rightarrow> bytes" where
  "compute_domain_separator X E = ux_sha256 X (ux_network_id X @ ux_address_xdr X (current_contract_address E) @
     be_bytes 4 PROTOCOL_VERSION)"

definition authorization_preimage ::
  "'w upto_ext \<Rightarrow> bytes \<Rightarrow> bytes \<Rightarrow> address \<Rightarrow> address \<Rightarrow> i128 \<Rightarrow> u32 \<Rightarrow> bytes" where
  "authorization_preimage X domain_sep payment_id from to cap expiry =
     domain_sep @ payment_id @ ux_address_xdr X from @ ux_address_xdr X to @ i128_be_bytes cap @ be_bytes 4 expiry"

definition authorization_digest ::
  "'w upto_ext \<Rightarrow> bytes \<Rightarrow> bytes \<Rightarrow> address \<Rightarrow> address \<Rightarrow> i128 \<Rightarrow> u32 \<Rightarrow> bytes" where
  "authorization_digest X domain_sep payment_id from to cap expiry =
     ux_sha256 X (authorization_preimage X domain_sep payment_id from to cap expiry)"

definition authorize_signed ::
  "'w upto_ext \<Rightarrow> env \<Rightarrow> bytes \<Rightarrow> address \<Rightarrow> address \<Rightarrow> i128 \<Rightarrow> u32 \<Rightarrow> bytes \<Rightarrow> ('w, unit) upto_act" where
  "authorize_signed X E payment_id from to cap expiry signature =
     abind (aread (\<lambda>s. up_signer s from)) (\<lambda>k.
     abind (alift (ok_or k SignerNotRegistered)) (\<lambda>signer.
     let digest = authorization_digest X (compute_domain_separator X E) payment_id from to cap expiry in
     aseq (alift (if ux_ed25519_verify X signer digest signature then Ok () else Trap))
     (authorize X E payment_id from to cap expiry)))"

definition settle :: "'w upto_ext \<Rightarrow> env \<Rightarrow> bytes \<Rightarrow> i128 \<Rightarrow> ('w, unit) upto_act" where
  "settle X E payment_id actual =
     aseq (arefuse (actual \<le> 0) UptoInvalidAmount)
     (aseq (upto_admin_auth E)
     (abind (load_authorization payment_id) (\<lambda>r.
      aseq (alift (require_auth E (ar_from r)))
      (aseq (arefuse (ar_consumed r) AlreadySettled)
      (aseq (arefuse (sequence E > ar_expiry r) Expired)
      (abind (alift (max_settleable (ar_cap r) (ar_max_slippage_bps r))) (\<lambda>m.
       abind (alift (ok_or m AmountOverflow)) (\<lambda>max_amount.
       aseq (arefuse (actual > max_amount) AmountExceedsCap)
       (abind (aread up_token) (\<lambda>t.
        abind (alift (unwrap t)) (\<lambda>tok.
        aseq (upto_transfer_from X E tok (ar_from r) (ar_to r) actual)
        (aseq (approve_token X E tok (ar_from r) 0 (ar_expiry r))
        (aseq (store_authorization payment_id (r\<lparr>ar_consumed := True\<rparr>))
        (upto_publish (SettleEvent payment_id actual (ar_from r))))))))))))))))"

text \<open>\<open>prune_authorizations\<close> checks the admin and removes nothing.\<close>

definition prune_authorizations :: "env \<Rightarrow> ('w, u32) upto_act" where
  "prune_authorizations E = aseq (upto_admin_auth E) (aret 0)"

definition prune_authorization :: "env \<Rightarrow> bytes \<Rightarrow> ('w, unit) upto_act" where
  "prune_authorization E payment_id =
     aseq (upto_admin_auth E)
     (abind (load_authorization payment_id) (\<lambda>r.
      aseq (arefuse (sequence E \<le> ar_expiry r) Expired)
      (aseq (amodify (\<lambda>s. s\<lparr>up_authorization := (up_authorization s)(payment_id := None)\<rparr>))
      (upto_publish (PruneEvent 1)))))"

definition get_authorization :: "'w upto \<Rightarrow> bytes \<Rightarrow> authorization_record option" where
  "get_authorization s payment_id = up_authorization s payment_id"

definition DEFAULT_INACTIVITY_LEDGERS :: u32 where "DEFAULT_INACTIVITY_LEDGERS = 518400"

definition inactivity_timeout :: "'w upto \<Rightarrow> u32" where
  "inactivity_timeout s = unwrap_or (up_inactivity_timeout s) DEFAULT_INACTIVITY_LEDGERS"

definition set_inactivity_timeout :: "env \<Rightarrow> u32 \<Rightarrow> ('w, unit) upto_act" where
  "set_inactivity_timeout E ledgers = aseq (upto_admin_auth E) (amodify (\<lambda>s. s\<lparr>up_inactivity_timeout := Some ledgers\<rparr>))"

definition cancellation_deadline :: "u32 \<Rightarrow> u32 \<Rightarrow> u32" where
  "cancellation_deadline created_ledger timeout = u32_saturating_add created_ledger timeout"

definition cancel_inactive_escrow :: "'w upto_ext \<Rightarrow> env \<Rightarrow> bytes \<Rightarrow> ('w, i128) upto_act" where
  "cancel_inactive_escrow X E payment_id =
     abind (load_authorization payment_id) (\<lambda>r.
     aseq (arefuse (ar_consumed r) AlreadySettled)
     (abind (aread inactivity_timeout) (\<lambda>timeout.
      aseq (arefuse (sequence E \<le> cancellation_deadline (ar_created_ledger r) timeout) NotInactive)
      (aseq (alift (require_auth E (ar_from r)))
      (abind (aread up_token) (\<lambda>t.
       abind (alift (ok_or t UptoNotInitialized)) (\<lambda>tok.
       aseq (approve_token X E tok (ar_from r) 0 0)
       (aseq (amodify (\<lambda>s. s\<lparr>up_authorization := (up_authorization s)(payment_id := None)\<rparr>))
       (aseq (upto_publish (EscrowCancelledInactivity payment_id (ar_from r) (ar_cap r) (sequence E)))
       (aret (ar_cap r)))))))))))"

definition extend_authorization_ttl :: "bytes \<Rightarrow> ('w, unit) upto_act" where
  "extend_authorization_ttl payment_id = abind (load_authorization payment_id) (\<lambda>_. aret ())"

end
