(* ===== verification/Upto_Machine.thy ===== *)
theory Upto_Machine
  imports Upto_Authorization
begin

text \<open>
  The metered-payment contract as a machine. Its events are the record of what was authorized and what was
  charged; the invariant says that the charges under a payment id never exceed the authorizations.
\<close>

section \<open>The ceiling\<close>

text \<open>The split never overflows on the way and is exact.\<close>

lemma max_settleable_eq:
  assumes "in_i128 cap"
  shows "max_settleable cap bps =
    Ok (if cap < 0 \<or> bps > 10000 then None else i128_checked (cap + cap * int bps div 10000))"
proof (cases "cap < 0 \<or> bps > 10000")
  case False
  define q r b where "q = cap div 10000" and "r = cap mod 10000" and "b = int bps"
  have cap: "cap = q * 10000 + r" "0 \<le> q" "0 \<le> r" "r < 10000" "0 \<le> b" "b \<le> 10000"
    using False by (auto simp: q_def r_def b_def)
  have "q * b \<le> q * 10000" "r * b \<le> r * 10000" using cap by (auto intro: mult_left_mono)
  moreover have "0 \<le> q * b" "0 \<le> r * b" using cap by auto
  moreover have "0 \<le> r * b div 10000" "r * b div 10000 \<le> r" using calculation zdiv_mono1 [of "r * b" "r * 10000" 10000] by (auto simp: pos_imp_zdiv_nonneg_iff)
  ultimately have fits: "in_i128 (q * b)" "in_i128 (r * b)" "in_i128 (q * b + r * b div 10000)"
    using assms cap(1,2,3,4) by (auto simp: in_i128_def)
  have "cap * b div 10000 = q * b + r * b div 10000"
    by (simp add: cap(1) algebra_simps)
  moreover have "trunc_div cap 10000 = q" "trunc_mod cap 10000 = r" "trunc_div (r * b) 10000 = r * b div 10000"
    using False \<open>0 \<le> r * b\<close> by (auto simp: trunc_div_nonneg trunc_mod_nonneg q_def r_def)
  ultimately show ?thesis
    using False fits by (simp add: max_settleable_def MAX_SLIPPAGE_BPS_def UPTO_BPS_DENOMINATOR_def i128_op_def b_def)
qed (auto simp: max_settleable_def MAX_SLIPPAGE_BPS_def UPTO_BPS_DENOMINATOR_def)

definition granted_ceiling :: "i128 \<Rightarrow> u32 \<Rightarrow> i128" where
  "granted_ceiling cap bps = cap + cap * int bps div 10000"

lemma max_settleable_Some_iff:
  assumes "in_i128 cap"
  shows "max_settleable cap bps = Ok (Some m) \<longleftrightarrow> 0 \<le> cap \<and> bps \<le> 10000 \<and> m = granted_ceiling cap bps \<and> in_i128 m"
  using assms by (auto simp: max_settleable_eq i128_checked_def granted_ceiling_def)

lemma granted_ceiling_bounds: "0 \<le> cap \<Longrightarrow> bps \<le> 10000 \<Longrightarrow> cap \<le> granted_ceiling cap bps \<and> granted_ceiling cap bps \<le> 2 * cap"
  using zdiv_mono1 [of "cap * int bps" "cap * 10000" 10000] mult_left_mono [of "int bps" 10000 cap]
  by (simp add: granted_ceiling_def pos_imp_zdiv_nonneg_iff)

section \<open>The machine\<close>

datatype upto_call =
    InitializeUpto address address
  | Authorize bytes address address i128 u32
  | AuthorizeWithSlippage bytes address address i128 u32 u32
  | AuthorizeSigned bytes address address i128 u32 bytes
  | RegisterSigner address bytes
  | Settle bytes i128
  | PruneAuthorizations
  | PruneAuthorization bytes
  | SetInactivityTimeout u32
  | CancelInactiveEscrow bytes
  | ExtendAuthorizationTtl bytes

primrec upto_run :: "'w upto_ext \<Rightarrow> env \<Rightarrow> upto_call \<Rightarrow> ('w, unit) upto_act" where
  "upto_run X E (InitializeUpto a t) = upto_initialize a t"
| "upto_run X E (Authorize p f t c e) = authorize X E p f t c e"
| "upto_run X E (AuthorizeWithSlippage p f t c e b) = authorize_with_slippage X E p f t c e b"
| "upto_run X E (AuthorizeSigned p f t c e g) = authorize_signed X E p f t c e g"
| "upto_run X E (RegisterSigner b k) = register_signer E b k"
| "upto_run X E (Settle p x) = settle X E p x"
| "upto_run X E PruneAuthorizations = aseq (prune_authorizations E) (aret ())"
| "upto_run X E (PruneAuthorization p) = prune_authorization E p"
| "upto_run X E (SetInactivityTimeout n) = set_inactivity_timeout E n"
| "upto_run X E (CancelInactiveEscrow p) = aseq (cancel_inactive_escrow X E p) (aret ())"
| "upto_run X E (ExtendAuthorizationTtl p) = extend_authorization_ttl p"

fun upto_typed :: "upto_call \<Rightarrow> bool" where
  "upto_typed (Authorize p f t c e) \<longleftrightarrow> in_i128 c"
| "upto_typed (AuthorizeWithSlippage p f t c e b) \<longleftrightarrow> in_i128 c"
| "upto_typed (AuthorizeSigned p f t c e g) \<longleftrightarrow> in_i128 c"
| "upto_typed _ \<longleftrightarrow> True"

inductive upto_step :: "'w upto_ext \<Rightarrow> address \<Rightarrow> 'w upto \<Rightarrow> 'w upto \<Rightarrow> bool" for X :: "'w upto_ext" and V :: address where
  call: "invoke (upto_run X E c) s = Ok ((), s') \<Longrightarrow> upto_typed c \<Longrightarrow> current_contract_address E = V \<Longrightarrow> upto_step X V s s'"
| world: "upto_step X V s (s\<lparr>up_world := w\<rparr>)"

text \<open>What the published events say was authorized by a buyer under a payment id, and what was charged.\<close>

fun granted_by :: "bytes \<Rightarrow> address \<Rightarrow> upto_event \<Rightarrow> i128" where
  "granted_by p b (AuthorizeEvent p' f t c e bps) = (if p' = p \<and> f = b then granted_ceiling c bps else 0)"
| "granted_by p b _ = 0"

fun charged_by :: "bytes \<Rightarrow> address \<Rightarrow> upto_event \<Rightarrow> i128" where
  "charged_by p b (SettleEvent p' x f) = (if p' = p \<and> f = b then x else 0)"
| "charged_by p b _ = 0"

fun paid_in :: "address \<Rightarrow> upto_event \<Rightarrow> i128" where
  "paid_in b (SettleEvent p x f) = (if f = b then x else 0)"
| "paid_in b _ = 0"

definition granted :: "upto_event list \<Rightarrow> bytes \<Rightarrow> address \<Rightarrow> i128" where
  "granted evs p b = sum_list (map (granted_by p b) evs)"

definition charged :: "upto_event list \<Rightarrow> bytes \<Rightarrow> address \<Rightarrow> i128" where
  "charged evs p b = sum_list (map (charged_by p b) evs)"

definition paid_total :: "upto_event list \<Rightarrow> address \<Rightarrow> i128" where
  "paid_total evs b = sum_list (map (paid_in b) evs)"

text \<open>How often a payment id was authorized.\<close>

fun authorizes :: "bytes \<Rightarrow> upto_event \<Rightarrow> bool" where
  "authorizes p (AuthorizeEvent p' f t c e b) \<longleftrightarrow> p' = p"
| "authorizes p _ \<longleftrightarrow> False"

definition authorization_count :: "bytes \<Rightarrow> 'w upto \<Rightarrow> nat" where
  "authorization_count p s = length (filter (authorizes p) (up_events s))"

lemmas event_sums = granted_def charged_def paid_total_def authorization_count_def

definition authorization_open :: "address \<Rightarrow> authorization_record option \<Rightarrow> i128" where
  "authorization_open b o' = (case o' of Some r \<Rightarrow> if ar_from r = b \<and> \<not> ar_consumed r then granted_ceiling (ar_cap r) (ar_max_slippage_bps r) else 0 | None \<Rightarrow> 0)"

definition authorization_ok :: "authorization_record \<Rightarrow> bool" where
  "authorization_ok r \<longleftrightarrow> 0 < ar_cap r \<and> in_i128 (ar_cap r) \<and> ar_max_slippage_bps r \<le> 10000 \<and> in_i128 (granted_ceiling (ar_cap r) (ar_max_slippage_bps r))"

definition upto_inv :: "'w upto \<Rightarrow> bool" where
  "upto_inv s \<longleftrightarrow> (\<forall>p r. up_authorization s p = Some r \<longrightarrow> authorization_ok r) \<and>
     (\<forall>p b. charged (up_events s) p b + authorization_open b (up_authorization s p) \<le> granted (up_events s) p b)"

lemma authorization_open_nonneg: "(\<And>r. o' = Some r \<Longrightarrow> authorization_ok r) \<Longrightarrow> 0 \<le> authorization_open b o'"
proof (cases o')
  case (Some r)
  moreover assume "\<And>r. o' = Some r \<Longrightarrow> authorization_ok r"
  ultimately show ?thesis
    using granted_ceiling_bounds [of "ar_cap r" "ar_max_slippage_bps r"] by (auto simp: authorization_open_def authorization_ok_def)
qed (simp add: authorization_open_def)

section \<open>When a call commits\<close>

lemma upto_steps_Ok_iff [ok_iff]:
  "upto_publish ev s = (r, s') \<longleftrightarrow> r = Ok () \<and> s' = s\<lparr>up_events := up_events s @ [ev]\<rparr>"
  "upto_admin_auth E s = (Ok u, s') \<longleftrightarrow> (\<exists>a. up_admin s = Some a \<and> authorized E a) \<and> s' = s"
  "approve_token X E tok f x e s = (Ok u, s') \<longleftrightarrow>
     (\<exists>w. at_approve (ux_token X) (up_world s) (sequence E) tok f (current_contract_address E) x e = Some w \<and> s' = s\<lparr>up_world := w\<rparr>)"
  "upto_transfer_from X E tok f t x s = (Ok u, s') \<longleftrightarrow>
     (\<exists>w. at_transfer_from (ux_token X) (up_world s) (sequence E) tok (current_contract_address E) f t x = Some w \<and> s' = s\<lparr>up_world := w\<rparr>)"
  "store_authorization p a s = (r, s') \<longleftrightarrow> r = Ok () \<and> s' = s\<lparr>up_authorization := (up_authorization s)(p \<mapsto> a)\<rparr>"
  "load_authorization p s = (Ok a, s') \<longleftrightarrow> up_authorization s p = Some a \<and> s' = s"
  by (auto simp: upto_publish_def upto_admin_auth_def approve_token_def upto_transfer_from_def store_authorization_def
      load_authorization_def ok_iff)

lemma authorize_with_slippage_Ok:
  assumes "authorize_with_slippage X E p f t c e b s = (Ok u, s')"
  shows "\<exists>m tok w. 0 < c \<and> max_settleable c b = Ok (Some m) \<and> authorized E f \<and> (\<exists>a. up_admin s = Some a \<and> authorized E a) \<and>
    (\<forall>r. up_authorization s p = Some r \<longrightarrow> ar_expiry r \<le> sequence E \<or> ar_consumed r) \<and> up_token s = Some tok \<and>
    at_approve (ux_token X) (up_world s) (sequence E) tok f (current_contract_address E) m e = Some w \<and>
    s' = s\<lparr>up_world := w, up_authorization := (up_authorization s)(p \<mapsto> \<lparr>ar_from = f, ar_to = t, ar_cap = c, ar_expiry = e,
        ar_consumed = False, ar_max_slippage_bps = b, ar_created_ledger = sequence E\<rparr>),
      up_events := up_events s @ [AuthorizeEvent p f t c e b]\<rparr>"
  using assms unfolding authorize_with_slippage_def
  by (auto simp: ok_iff not_le not_less split: option.splits simp del: act_simps)

lemma settle_Ok:
  assumes "settle X E p x s = (Ok u, s')"
  shows "\<exists>r m tok w w'. 0 < x \<and> (\<exists>a. up_admin s = Some a \<and> authorized E a) \<and> up_authorization s p = Some r \<and> authorized E (ar_from r) \<and>
    \<not> ar_consumed r \<and> sequence E \<le> ar_expiry r \<and>
    max_settleable (ar_cap r) (ar_max_slippage_bps r) = Ok (Some m) \<and> x \<le> m \<and>
    up_token s = Some tok \<and>
    at_transfer_from (ux_token X) (up_world s) (sequence E) tok (current_contract_address E) (ar_from r) (ar_to r) x = Some w \<and>
    at_approve (ux_token X) w (sequence E) tok (ar_from r) (current_contract_address E) 0 (ar_expiry r) = Some w' \<and>
    s' = s\<lparr>up_world := w', up_authorization := (up_authorization s)(p \<mapsto> r\<lparr>ar_consumed := True\<rparr>),
      up_events := up_events s @ [SettleEvent p x (ar_from r)]\<rparr>"
  using assms unfolding settle_def
  by (auto simp: ok_iff not_le not_less simp del: act_simps)

lemma sep41_allowanceD:
  assumes "sep41_allowance T"
  shows "at_approve T w n tok f b x e = Some w' \<Longrightarrow> at_balance T w' t a = at_balance T w t a"
    and "at_approve T w n tok f b x e = Some w' \<Longrightarrow> at_allowance T w' k t a c =
      (if t = tok \<and> a = f \<and> c = b then if k \<le> e then x else 0 else at_allowance T w k t a c)"
    and "at_transfer_from T w n tok b f c x = Some w' \<Longrightarrow> 0 \<le> x \<and> x \<le> at_allowance T w n tok f b \<and> x \<le> at_balance T w tok f"
    and "at_transfer_from T w n tok b f c x = Some w' \<Longrightarrow> at_balance T w' t a = at_balance T w t a - (if t = tok \<and> a = f then x else 0)
           + (if t = tok \<and> a = c then x else 0)"
proof -
  note laws = assms [unfolded sep41_allowance_def]
  show "at_balance T w' t a = at_balance T w t a" "at_allowance T w' k t a c =
      (if t = tok \<and> a = f \<and> c = b then if k \<le> e then x else 0 else at_allowance T w k t a c)"
    if "at_approve T w n tok f b x e = Some w'"
    using conjunct1 [OF laws] that by blast+
  show "0 \<le> x \<and> x \<le> at_allowance T w n tok f b \<and> x \<le> at_balance T w tok f"
    "at_balance T w' t a = at_balance T w t a - (if t = tok \<and> a = f then x else 0) + (if t = tok \<and> a = c then x else 0)"
    if "at_transfer_from T w n tok b f c x = Some w'"
    using conjunct2 [OF laws, THEN spec, THEN spec, THEN spec, THEN spec, THEN spec, THEN spec, THEN spec, THEN spec, THEN mp, OF that] by simp_all
qed

text \<open>A call that neither authorizes nor settles keeps or removes records, announces no amount and moves no token.\<close>

definition quiet_step :: "'w upto_ext \<Rightarrow> 'w upto \<Rightarrow> 'w upto \<Rightarrow> bool" where
  "quiet_step X s s' \<longleftrightarrow> (\<forall>p. up_authorization s' p = up_authorization s p \<or> up_authorization s' p = None) \<and>
     (\<forall>p b. charged (up_events s') p b = charged (up_events s) p b \<and> granted (up_events s') p b = granted (up_events s) p b \<and>
        paid_total (up_events s') b = paid_total (up_events s) b) \<and> (\<forall>p. authorization_count p s' = authorization_count p s) \<and>
     (\<forall>t a. at_balance (ux_token X) (up_world s') t a = at_balance (ux_token X) (up_world s) t a)"

lemma cancel_inactive_escrow_Ok:
  assumes "cancel_inactive_escrow X E p s = (Ok x, s')"
  shows "\<exists>r tok w. up_authorization s p = Some r \<and> \<not> ar_consumed r \<and> authorized E (ar_from r) \<and> x = ar_cap r \<and>
    cancellation_deadline (ar_created_ledger r) (inactivity_timeout s) < sequence E \<and> up_token s = Some tok \<and>
    at_approve (ux_token X) (up_world s) (sequence E) tok (ar_from r) (current_contract_address E) 0 0 = Some w \<and>
    s' = s\<lparr>up_world := w, up_authorization := (up_authorization s)(p := None),
      up_events := up_events s @ [EscrowCancelledInactivity p (ar_from r) (ar_cap r) (sequence E)]\<rparr>"
  using assms unfolding cancel_inactive_escrow_def
  by (auto simp: ok_iff not_le simp del: act_simps)

lemma upto_run_cases:
  assumes "upto_run X E c s = (Ok (), s')" "upto_typed c" "sep41_allowance (ux_token X)"
  obtains p f t cap e b where "authorize_with_slippage X E p f t cap e b s = (Ok (), s')" "in_i128 cap"
  | p x where "settle X E p x s = (Ok (), s')"
  | "quiet_step X s s'"
proof (cases c)
  case (InitializeUpto a t)
  with assms(1) have "quiet_step X s s'" by (auto simp: upto_initialize_def ok_iff quiet_step_def event_sums simp del: act_simps)
  then show ?thesis by (rule that(3))
next
  case (Authorize p f t cap e)
  with assms(1,2) show ?thesis by (intro that(1)) (simp_all add: authorize_def)
next
  case (AuthorizeWithSlippage p f t cap e b)
  with assms(1,2) show ?thesis by (intro that(1)) simp_all
next
  case (AuthorizeSigned p f t cap e g)
  with assms(1) have "authorize_with_slippage X E p f t cap e 0 s = (Ok (), s')"
    by (auto simp: authorize_signed_def authorize_def Let_def ok_iff simp del: act_simps split: if_splits)
  then show ?thesis using assms(2) AuthorizeSigned by (intro that(1)) simp_all
next
  case (RegisterSigner a k)
  with assms(1) have "quiet_step X s s'" by (auto simp: register_signer_def ok_iff quiet_step_def event_sums simp del: act_simps)
  then show ?thesis by (rule that(3))
next
  case (Settle p x)
  with assms(1) show ?thesis by (intro that(2)) simp
next
  case PruneAuthorizations
  with assms(1) have "quiet_step X s s'" by (auto simp: prune_authorizations_def ok_iff quiet_step_def event_sums simp del: act_simps)
  then show ?thesis by (rule that(3))
next
  case (PruneAuthorization p)
  with assms(1) have "quiet_step X s s'" by (auto simp: prune_authorization_def ok_iff quiet_step_def event_sums simp del: act_simps split: if_splits)
  then show ?thesis by (rule that(3))
next
  case (SetInactivityTimeout n)
  with assms(1) have "quiet_step X s s'" by (auto simp: set_inactivity_timeout_def ok_iff quiet_step_def event_sums simp del: act_simps)
  then show ?thesis by (rule that(3))
next
  case (CancelInactiveEscrow p)
  with assms(1) obtain x where "cancel_inactive_escrow X E p s = (Ok x, s')" by (auto simp: aseq_Ok_iff)
  then have "quiet_step X s s'"
    using sep41_allowanceD(1) [OF assms(3)] by (auto dest!: cancel_inactive_escrow_Ok simp: quiet_step_def event_sums split: if_splits)
  then show ?thesis by (rule that(3))
next
  case (ExtendAuthorizationTtl p)
  with assms(1) have "quiet_step X s s'" by (auto simp: extend_authorization_ttl_def ok_iff quiet_step_def event_sums simp del: act_simps)
  then show ?thesis by (rule that(3))
qed

section \<open>The invariant\<close>

lemma upto_inv_quiet: "quiet_step X s s' \<Longrightarrow> upto_inv s \<Longrightarrow> upto_inv s'"
  unfolding upto_inv_def quiet_step_def
proof (elim conjE, intro conjI allI impI)
  fix p b assume a: "\<forall>p. up_authorization s' p = up_authorization s p \<or> up_authorization s' p = None"
    and e: "\<forall>p b. charged (up_events s') p b = charged (up_events s) p b \<and> granted (up_events s') p b = granted (up_events s) p b \<and>
        paid_total (up_events s') b = paid_total (up_events s) b"
    and ok: "\<forall>p r. up_authorization s p = Some r \<longrightarrow> authorization_ok r"
    and c: "\<forall>p b. charged (up_events s) p b + authorization_open b (up_authorization s p) \<le> granted (up_events s) p b"
  show "authorization_ok r" if "up_authorization s' p = Some r" for r using a ok that by (metis option.distinct(1))
  have "authorization_open b (up_authorization s' p) \<le> authorization_open b (up_authorization s p)"
    using a [THEN spec, of p] authorization_open_nonneg [of "up_authorization s p" b] ok by (auto simp: authorization_open_def [of b None])
  then show "charged (up_events s') p b + authorization_open b (up_authorization s' p) \<le> granted (up_events s') p b"
    using e c [rule_format, of p b] by simp
qed

lemma upto_inv_authorize:
  assumes "authorize_with_slippage X E p f t c e b s = (Ok u, s')" "in_i128 c" "upto_inv s"
  shows "upto_inv s'"
proof -
  let ?r = "\<lparr>ar_from = f, ar_to = t, ar_cap = c, ar_expiry = e, ar_consumed = False, ar_max_slippage_bps = b, ar_created_ledger = sequence E\<rparr>"
  obtain m w where c: "0 < c" "max_settleable c b = Ok (Some m)"
    and s': "s' = s\<lparr>up_world := w, up_authorization := (up_authorization s)(p \<mapsto> ?r), up_events := up_events s @ [AuthorizeEvent p f t c e b]\<rparr>"
    using authorize_with_slippage_Ok [OF assms(1)] by blast
  have m: "b \<le> 10000" "in_i128 (granted_ceiling c b)" using max_settleable_Some_iff [OF assms(2), of b m] c(2) by auto
  have old: "charged (up_events s) q a + authorization_open a (up_authorization s q) \<le> granted (up_events s) q a"
    "0 \<le> authorization_open a (up_authorization s q)" for q a
    using assms(3) authorization_open_nonneg by (auto simp: upto_inv_def)
  have "charged (up_events s') q a + authorization_open a (up_authorization s' q) \<le> granted (up_events s') q a" for q a
    using old [where q = q and a = a] by (auto simp: s' event_sums authorization_open_def)
  moreover have "authorization_ok ?r" using c(1) m assms(2) by (simp add: authorization_ok_def)
  ultimately show ?thesis using assms(3) by (auto simp: upto_inv_def s' split: if_splits)
qed

lemma upto_inv_settle:
  assumes "settle X E p x s = (Ok u, s')" "upto_inv s"
  shows "upto_inv s'"
proof -
  obtain r m w where c: "0 < x" "up_authorization s p = Some r" "\<not> ar_consumed r"
      "max_settleable (ar_cap r) (ar_max_slippage_bps r) = Ok (Some m)" "x \<le> m"
    and s': "s' = s\<lparr>up_world := w, up_authorization := (up_authorization s)(p \<mapsto> r\<lparr>ar_consumed := True\<rparr>),
      up_events := up_events s @ [SettleEvent p x (ar_from r)]\<rparr>"
    using settle_Ok [OF assms(1)] by blast
  have ok: "authorization_ok r" using assms(2) c(2) by (simp add: upto_inv_def)
  then have m: "x \<le> granted_ceiling (ar_cap r) (ar_max_slippage_bps r)"
    using max_settleable_Some_iff [of "ar_cap r" "ar_max_slippage_bps r" m] c(4,5) by (simp add: authorization_ok_def)
  have old: "charged (up_events s) q a + authorization_open a (up_authorization s q) \<le> granted (up_events s) q a" for q a
    using assms(2) by (simp add: upto_inv_def)
  have "charged (up_events s') q a + authorization_open a (up_authorization s' q) \<le> granted (up_events s') q a" for q a
    using old [where q = q and a = a] m c(2,3) by (auto simp: s' event_sums authorization_open_def split: if_splits)
  moreover have "authorization_ok (r\<lparr>ar_consumed := True\<rparr>)" using ok by (simp add: authorization_ok_def)
  ultimately show ?thesis using assms(2) by (auto simp: upto_inv_def s' split: if_splits)
qed

interpretation upto: machine "upto_step X V" "\<lambda>s. upto_inv s \<and> sep41_allowance (ux_token X)" for X V
proof unfold_locales
  fix s s' :: "'a upto" assume a: "upto_inv s \<and> sep41_allowance (ux_token X)" and "upto_step X V s s'"
  from this(2) show "upto_inv s' \<and> sep41_allowance (ux_token X)"
  proof cases
    case (call E c)
    then have "upto_run X E c s = (Ok (), s')" by (simp add: invoke_Ok_iff)
    then show ?thesis
    proof (rule upto_run_cases [OF _ call(2) conjunct2 [OF a]])
      show "upto_inv s' \<and> sep41_allowance (ux_token X)"
        if "authorize_with_slippage X E p f t cap e b s = (Ok (), s')" "in_i128 cap" for p f t cap e b
        using upto_inv_authorize [OF that] a by simp
      show "upto_inv s' \<and> sep41_allowance (ux_token X)" if "settle X E p x s = (Ok (), s')" for p x
        using upto_inv_settle [OF that] a by simp
      show "upto_inv s' \<and> sep41_allowance (ux_token X)" if "quiet_step X s s'"
        using upto_inv_quiet [OF that] a by simp
    qed
  qed (use a in \<open>simp add: upto_inv_def\<close>)
qed

lemma upto_reach_inv:
  assumes "(upto_step X V)\<^sup>*\<^sup>* (upto_empty w) s" "sep41_allowance (ux_token X)"
  shows "upto_inv s"
proof -
  have "upto_inv (upto_empty w)" by (simp add: upto_inv_def upto_empty_def event_sums authorization_open_def)
  then show ?thesis using upto.steps_inv [OF assms(1)] assms(2) by simp
qed

text \<open>What a call takes from an account is what it announces as charged.\<close>

lemma upto_run_charges:
  assumes "upto_run X E c s = (Ok (), s')" "upto_typed c" "sep41_allowance (ux_token X)"
  shows "at_balance (ux_token X) (up_world s) t a - at_balance (ux_token X) (up_world s') t a \<le> paid_total (up_events s') a - paid_total (up_events s) a"
  using assms
proof (rule upto_run_cases)
  fix p f t' cap e b assume "authorize_with_slippage X E p f t' cap e b s = (Ok (), s')"
  from authorize_with_slippage_Ok [OF this] show ?thesis
    using sep41_allowanceD(1) [OF assms(3)] by (auto simp: event_sums)
next
  fix p x assume "settle X E p x s = (Ok (), s')"
  from settle_Ok [OF this] show ?thesis
    using sep41_allowanceD(1,4) [OF assms(3)] by (auto simp: event_sums)
next
  assume "quiet_step X s s'"
  then show ?thesis by (simp add: quiet_step_def)
qed

end
