(* ===== verification/Upto_Claims.thy ===== *)
theory Upto_Claims
  imports Upto_Machine
begin

text \<open>
  What metered payments guarantee to a buyer, and what two open authorizations of the same buyer do to each
  other. The instances run on a contract whose token is a pair of balances and dated allowances.
\<close>

section \<open>A small contract\<close>

type_synonym wallet = "ledger \<times> (address \<Rightarrow> address \<Rightarrow> address \<Rightarrow> i128 \<times> u32)"

definition wallet_allowance :: "wallet \<Rightarrow> u32 \<Rightarrow> address \<Rightarrow> address \<Rightarrow> address \<Rightarrow> i128" where
  "wallet_allowance w n t f s = (if n \<le> snd (snd w t f s) then fst (snd w t f s) else 0)"

definition wallet_token :: "wallet allowance_token" where
  "wallet_token = \<lparr>at_balance = fst, at_allowance = wallet_allowance,
     at_approve = (\<lambda>w n t f s x e. if x < 0 \<or> 0 < x \<and> e < n then None
        else Some (fst w, \<lambda>t' f' s'. if t' = t \<and> f' = f \<and> s' = s then (x, e) else snd w t' f' s')),
     at_transfer_from = (\<lambda>w n t s f to x. if 0 \<le> x \<and> x \<le> wallet_allowance w n t f s \<and> x \<le> fst w t f
        then Some (\<lambda>t' a. fst w t' a - (if t' = t \<and> a = f then x else 0) + (if t' = t \<and> a = to then x else 0),
          \<lambda>t' f' s'. if t' = t \<and> f' = f \<and> s' = s then (fst (snd w t f s) - x, snd (snd w t f s)) else snd w t' f' s')
        else None)\<rparr>"

lemma sep41_wallet_token: "sep41_allowance wallet_token"
  unfolding sep41_allowance_def wallet_token_def by (auto simp: wallet_allowance_def split: if_splits)

text \<open>Address 1 is the contract, 2 the facilitator, 7 the buyer, 8 the recipient, 9 the token.\<close>

definition uw_ext :: "wallet upto_ext" where
  "uw_ext = \<lparr>ux_token = wallet_token, ux_sha256 = (\<lambda>x. x), ux_ed25519_verify = (\<lambda>k m g. g = k),
     ux_address_xdr = (\<lambda>a. []), ux_network_id = []\<rparr>"

definition uw_env :: "u32 \<Rightarrow> env" where
  "uw_env n = \<lparr>sequence = n, timestamp = 0, current_contract_address = 1, authorized = (\<lambda>a. a \<noteq> 1)\<rparr>"

definition uw_wallet :: wallet where
  "uw_wallet = (\<lambda>t a. if t = 9 \<and> a = 7 then 500 else 0, \<lambda>_ _ _. (0, 0))"

definition uw_next :: "u32 \<Rightarrow> upto_call \<Rightarrow> wallet upto \<Rightarrow> wallet upto" where
  "uw_next n c s = snd (upto_run uw_ext (uw_env n) c s)"

definition uw_init :: "wallet upto" where
  "uw_init = uw_next 1 (InitializeUpto 2 9) (upto_empty uw_wallet)"

definition uw_first :: "wallet upto" where
  "uw_first = uw_next 10 (AuthorizeWithSlippage [1] 7 8 100 50 500) uw_init"

definition uw_second :: "wallet upto" where
  "uw_second = uw_next 11 (Authorize [2] 7 8 60 50) uw_first"

definition uw_settled :: "wallet upto" where
  "uw_settled = uw_next 12 (Settle [2] 40) uw_second"

definition uw_record :: "i128 \<Rightarrow> u32 \<Rightarrow> u32 \<Rightarrow> authorization_record" where
  "uw_record c b n = \<lparr>ar_from = 7, ar_to = 8, ar_cap = c, ar_expiry = 50, ar_consumed = False, ar_max_slippage_bps = b, ar_created_ledger = n\<rparr>"

lemma uw_ceiling: "max_settleable 100 500 = Ok (Some 105)" "max_settleable 60 0 = Ok (Some 60)"
  by (simp_all add: max_settleable_eq in_i128_def i128_checked_def)

lemmas uw_run_defs = uw_next_def upto_empty_def upto_initialize_def authorize_def authorize_with_slippage_def settle_def
  abind_def aseq_def ok_or_def unwrap_def require_auth_def upto_publish_def upto_admin_auth_def approve_token_def
  upto_transfer_from_def store_authorization_def load_authorization_def uw_env_def uw_ext_def MAX_SLIPPAGE_BPS_def
  UPTO_BPS_DENOMINATOR_def uw_ceiling wallet_token_def wallet_allowance_def

lemma uw_init_run: "upto_run uw_ext (uw_env 1) (InitializeUpto 2 9) (upto_empty uw_wallet) = (Ok (), uw_init)"
  "uw_init = (upto_empty uw_wallet)\<lparr>up_admin := Some 2, up_token := Some 9\<rparr>"
  by (simp_all add: uw_init_def uw_run_defs)

lemma uw_first_run:
  "upto_run uw_ext (uw_env 10) (AuthorizeWithSlippage [1] 7 8 100 50 500) uw_init = (Ok (), uw_first)"
  "up_authorization uw_first = [[1] \<mapsto> uw_record 100 500 10]" "up_token uw_first = Some 9" "up_admin uw_first = Some 2"
  "up_world uw_first = (fst uw_wallet, \<lambda>t f s. if t = 9 \<and> f = 7 \<and> s = 1 then (105, 50) else (0, 0))"
  "up_events uw_first = [AuthorizeEvent [1] 7 8 100 50 500]"
  unfolding uw_first_def by (simp_all add: uw_run_defs uw_init_run(2) uw_wallet_def uw_record_def fun_eq_iff)

lemma uw_second_run:
  "upto_run uw_ext (uw_env 11) (Authorize [2] 7 8 60 50) uw_first = (Ok (), uw_second)"
  "up_authorization uw_second = [[1] \<mapsto> uw_record 100 500 10, [2] \<mapsto> uw_record 60 0 11]" "up_token uw_second = Some 9" "up_admin uw_second = Some 2"
  "up_world uw_second = (fst uw_wallet, \<lambda>t f s. if t = 9 \<and> f = 7 \<and> s = 1 then (60, 50) else (0, 0))"
  "up_events uw_second = [AuthorizeEvent [1] 7 8 100 50 500, AuthorizeEvent [2] 7 8 60 50 0]"
  unfolding uw_second_def by (simp_all add: uw_run_defs uw_first_run uw_wallet_def uw_record_def fun_eq_iff)

lemma uw_settled_run:
  "upto_run uw_ext (uw_env 12) (Settle [2] 40) uw_second = (Ok (), uw_settled)"
  "up_authorization uw_settled = [[1] \<mapsto> uw_record 100 500 10, [2] \<mapsto> (uw_record 60 0 11)\<lparr>ar_consumed := True\<rparr>]"
  "fst (up_world uw_settled) 9 7 = 460" "fst (up_world uw_settled) 9 8 = 40" "up_token uw_settled = Some 9"
  "up_events uw_settled = [AuthorizeEvent [1] 7 8 100 50 500, AuthorizeEvent [2] 7 8 60 50 0, SettleEvent [2] 40 7]"
  unfolding uw_settled_def by (simp_all add: uw_run_defs uw_second_run uw_wallet_def uw_record_def)

lemma uw_step:
  assumes "upto_run uw_ext (uw_env n) c s = (Ok (), s')" "upto_typed c"
  shows "upto_step uw_ext 1 s s'"
  by (rule upto_step.call [where E = "uw_env n" and c = c]) (use assms in \<open>simp_all add: invoke_Ok_iff uw_env_def\<close>)

lemma uw_reach:
  "(upto_step uw_ext 1)\<^sup>*\<^sup>* (upto_empty uw_wallet) uw_second" "(upto_step uw_ext 1)\<^sup>*\<^sup>* (upto_empty uw_wallet) uw_settled"
proof -
  have "upto_step uw_ext 1 (upto_empty uw_wallet) uw_init" by (rule uw_step [OF uw_init_run(1)]) simp
  moreover have "upto_step uw_ext 1 uw_init uw_first" by (rule uw_step [OF uw_first_run(1)]) (simp add: in_i128_def)
  moreover have "upto_step uw_ext 1 uw_first uw_second" by (rule uw_step [OF uw_second_run(1)]) (simp add: in_i128_def)
  moreover have "upto_step uw_ext 1 uw_second uw_settled" by (rule uw_step [OF uw_settled_run(1)]) simp
  ultimately show "(upto_step uw_ext 1)\<^sup>*\<^sup>* (upto_empty uw_wallet) uw_second" "(upto_step uw_ext 1)\<^sup>*\<^sup>* (upto_empty uw_wallet) uw_settled"
    by (meson converse_rtranclp_into_rtranclp rtranclp.rtrancl_refl)+
qed

lemma sep41_uw [simp]: "sep41_allowance (ux_token uw_ext)"
  by (simp add: uw_ext_def sep41_wallet_token)

section \<open>What a buyer can lose\<close>

text \<open>C26: a buyer pays only what was authorized. In every reachable state and for every payment id and buyer, the amounts
charged under the id never exceed the ceilings, cap plus tolerated slippage, of the authorizations the buyer gave for
it; and a committed call takes from an account at most what it announces as charged to it.\<close>

theorem spending_bounded:
  assumes "sep41_allowance (ux_token X)" "(upto_step X V)\<^sup>*\<^sup>* (upto_empty w) s"
  shows "charged (up_events s) p b \<le> granted (up_events s) p b \<and>
    (\<forall>E c s' t. upto_typed c \<longrightarrow> invoke (upto_run X E c) s = Ok ((), s') \<longrightarrow>
       at_balance (ux_token X) (up_world s) t b - at_balance (ux_token X) (up_world s') t b \<le> paid_total (up_events s') b - paid_total (up_events s) b)"
proof -
  have inv: "upto_inv s" by (rule upto_reach_inv [OF assms(2,1)])
  have "0 \<le> authorization_open b (up_authorization s p)"
    using inv by (intro authorization_open_nonneg) (auto simp: upto_inv_def)
  moreover have "charged (up_events s) p b + authorization_open b (up_authorization s p) \<le> granted (up_events s) p b"
    using inv by (simp add: upto_inv_def)
  ultimately show ?thesis using upto_run_charges [OF _ _ assms(1)] by (auto simp: invoke_Ok_iff)
qed

theorem spending_bounded_witness:
  "40 \<le> granted (up_events uw_settled) [2] 7 \<and> granted (up_events uw_settled) [2] 7 = 60"
  using spending_bounded [OF sep41_uw uw_reach(2), of "[2]" 7]
  by (simp add: uw_settled_run event_sums granted_ceiling_def)

definition spent :: "bytes \<Rightarrow> 'w upto \<Rightarrow> bool" where
  "spent p s \<longleftrightarrow> (\<forall>r. up_authorization s p = Some r \<longrightarrow> ar_consumed r)"

lemma spent_not_settled: "spent p s \<Longrightarrow> settle X E p x s \<noteq> (Ok (), u)"
  by (auto dest!: settle_Ok simp: spent_def)

definition stays_spent :: "bytes \<Rightarrow> 'w upto \<Rightarrow> 'w upto \<Rightarrow> bool" where
  "stays_spent p s s' \<longleftrightarrow> authorization_count p s \<le> authorization_count p s' \<and>
     (authorization_count p s' = authorization_count p s \<longrightarrow> spent p s \<longrightarrow> spent p s')"

lemma step_stays_spent:
  assumes "upto_step X V s s'" "sep41_allowance (ux_token X)"
  shows "stays_spent p s s'"
  using assms(1)
proof cases
  case (call E c)
  have run: "upto_run X E c s = (Ok (), s')" using call(1) by (simp add: invoke_Ok_iff)
  then show ?thesis
  proof (rule upto_run_cases [OF _ call(2) assms(2)])
    fix q f t cap e b assume "authorize_with_slippage X E q f t cap e b s = (Ok (), s')"
    from authorize_with_slippage_Ok [OF this] show "stays_spent p s s'"
      by (auto simp: stays_spent_def authorization_count_def spent_def split: if_splits)
  next
    fix q x assume "settle X E q x s = (Ok (), s')"
    from settle_Ok [OF this] show "stays_spent p s s'"
      by (auto simp: stays_spent_def authorization_count_def spent_def split: if_splits)
  next
    assume q: "quiet_step X s s'"
    have "up_authorization s' p = up_authorization s p \<or> up_authorization s' p = None" using q by (simp add: quiet_step_def)
    moreover have "authorization_count p s' = authorization_count p s" using q by (simp add: quiet_step_def)
    ultimately show "stays_spent p s s'" by (auto simp: stays_spent_def spent_def)
  qed
qed (simp add: stays_spent_def authorization_count_def spent_def)

lemma steps_stay_spent:
  assumes "(upto_step X V)\<^sup>*\<^sup>* s s'" "upto_inv s" "sep41_allowance (ux_token X)"
  shows "stays_spent p s s'"
proof (rule upto.steps_rel [OF assms(1), where R = "stays_spent p"])
  show "upto_inv s \<and> sep41_allowance (ux_token X)" using assms(2,3) by simp
  show "stays_spent p s s" for s :: "'a upto" by (simp add: stays_spent_def)
  show "stays_spent p s u" if "stays_spent p s t" "stays_spent p t u" for s t u :: "'a upto" using that by (auto simp: stays_spent_def)
  show "stays_spent p s s'" if "upto_step X V s s'" for s s' :: "'a upto" by (rule step_stays_spent [OF that assms(3)])
qed

text \<open>C27: a settlement is exact and final. A committed \<open>settle\<close> was authorized by the facilitator and the buyer, happened no
later than the expiry and within the ceiling, at most twice the cap; it moves exactly the amount from the
buyer to the recipient named in the authorization and nothing else, leaves no allowance behind, and the
payment can never be settled again unless it is authorized anew.\<close>

theorem settle_exact:
  assumes "sep41_allowance (ux_token X)" "(upto_step X V)\<^sup>*\<^sup>* (upto_empty w) s" "current_contract_address E = V"
    and "invoke (settle X E p x) s = Ok ((), s')"
  shows "\<exists>r a tok. up_authorization s p = Some r \<and> up_admin s = Some a \<and> authorized E a \<and> authorized E (ar_from r) \<and>
    \<not> ar_consumed r \<and> sequence E \<le> ar_expiry r \<and> up_token s = Some tok \<and>
    0 < x \<and> x \<le> ar_cap r + ar_cap r * int (ar_max_slippage_bps r) div 10000 \<and> x \<le> 2 * ar_cap r \<and>
    up_authorization s' = (up_authorization s)(p \<mapsto> r\<lparr>ar_consumed := True\<rparr>) \<and>
    (\<forall>t b. at_balance (ux_token X) (up_world s') t b = at_balance (ux_token X) (up_world s) t b
       - (if t = tok \<and> b = ar_from r then x else 0) + (if t = tok \<and> b = ar_to r then x else 0)) \<and>
    (\<forall>n. at_allowance (ux_token X) (up_world s') n tok (ar_from r) V = 0) \<and>
    (\<forall>s'' E' y u. (upto_step X V)\<^sup>*\<^sup>* s' s'' \<longrightarrow> authorization_count p s'' = authorization_count p s' \<longrightarrow> settle X E' p y s'' \<noteq> (Ok (), u))"
proof -
  have run: "settle X E p x s = (Ok (), s')" using assms(4) by (simp add: invoke_Ok_iff)
  obtain r a m tok v v' where r: "0 < x" "up_admin s = Some a" "authorized E a" "up_authorization s p = Some r" "authorized E (ar_from r)"
      "\<not> ar_consumed r" "sequence E \<le> ar_expiry r" "max_settleable (ar_cap r) (ar_max_slippage_bps r) = Ok (Some m)" "x \<le> m"
      "up_token s = Some tok"
    and v: "at_transfer_from (ux_token X) (up_world s) (sequence E) tok V (ar_from r) (ar_to r) x = Some v"
      "at_approve (ux_token X) v (sequence E) tok (ar_from r) V 0 (ar_expiry r) = Some v'"
    and s': "s' = s\<lparr>up_world := v', up_authorization := (up_authorization s)(p \<mapsto> r\<lparr>ar_consumed := True\<rparr>),
      up_events := up_events s @ [SettleEvent p x (ar_from r)]\<rparr>"
    using settle_Ok [OF run] assms(3) by blast
  have inv: "upto_inv s" by (rule upto_reach_inv [OF assms(2,1)])
  then have "authorization_ok r" using r(4) by (simp add: upto_inv_def)
  then have m: "x \<le> granted_ceiling (ar_cap r) (ar_max_slippage_bps r)" "x \<le> 2 * ar_cap r"
    using r(8,9) max_settleable_Some_iff [of "ar_cap r" "ar_max_slippage_bps r" m] granted_ceiling_bounds [of "ar_cap r" "ar_max_slippage_bps r"]
    by (auto simp: authorization_ok_def)
  have final: "settle X E' p y s'' \<noteq> (Ok (), u)"
    if "(upto_step X V)\<^sup>*\<^sup>* s' s''" "authorization_count p s'' = authorization_count p s'" for s'' E' y u
  proof -
    have "stays_spent p s' s''" by (rule steps_stay_spent [OF that(1) upto_inv_settle [OF run inv] assms(1)])
    moreover have "spent p s'" by (simp add: spent_def s')
    ultimately show ?thesis using that(2) by (intro spent_not_settled) (simp add: stays_spent_def)
  qed
  have "at_balance (ux_token X) (up_world s') t b = at_balance (ux_token X) (up_world s) t b
       - (if t = tok \<and> b = ar_from r then x else 0) + (if t = tok \<and> b = ar_to r then x else 0)" for t b
    using sep41_allowanceD(1) [OF assms(1) v(2)] sep41_allowanceD(4) [OF assms(1) v(1)] by (simp add: s')
  moreover have "at_allowance (ux_token X) (up_world s') n tok (ar_from r) V = 0" for n
    using sep41_allowanceD(2) [OF assms(1) v(2)] by (simp add: s')
  ultimately show ?thesis
    using r(1-7,10) m final unfolding granted_ceiling_def by (intro exI [of _ r] exI [of _ a] exI [of _ tok]) (simp add: s')
qed

theorem settle_exact_witness:
  "fst (up_world uw_settled) 9 8 = 40 \<and> (40 :: int) \<le> 2 * 60 \<and> settle uw_ext (uw_env 13) [2] 1 uw_settled \<noteq> (Ok (), uw_settled)"
proof -
  have "invoke (settle uw_ext (uw_env 12) [2] 40) uw_second = Ok ((), uw_settled)" using uw_settled_run(1) by (simp add: invoke_Ok_iff)
  from settle_exact [OF sep41_uw uw_reach(1) _ this] obtain r where
    "up_authorization uw_second [2] = Some r" "40 \<le> 2 * ar_cap r" "settle uw_ext (uw_env 13) [2] 1 uw_settled \<noteq> (Ok (), uw_settled)"
    by (auto simp: uw_env_def)
  then show ?thesis by (simp add: uw_settled_run)
qed

section \<open>Where the code falls short\<close>

text \<open>C28: the authorizations of one buyer share one allowance. Authorizing a second payment replaces the allowance that
backs the first, so that the first can then only be settled up to the ceiling of the second, whatever its own
ceiling is; and once one of them is settled no other open authorization of the buyer can be settled at all.\<close>

theorem authorizations_share_allowance:
  assumes "sep41_allowance (ux_token X)" "in_i128 cap" "current_contract_address E = V"
    and "invoke (authorize_with_slippage X E q b t cap e bps) s = Ok ((), s')"
    and "current_contract_address E' = V" "up_authorization s' p = Some r" "ar_from r = b"
  shows "(\<forall>x u. granted_ceiling cap bps < x \<longrightarrow> settle X E' p x s' \<noteq> (Ok (), u)) \<and>
    (\<forall>y s''. invoke (settle X E' q y) s' = Ok ((), s'') \<longrightarrow>
       (\<forall>E'' p' r' x u. up_authorization s'' p' = Some r' \<and> ar_from r' = b \<and> current_contract_address E'' = V \<longrightarrow>
          settle X E'' p' x s'' \<noteq> (Ok (), u)))"
proof -
  let ?A = "at_allowance (ux_token X)"
  obtain m tok v where c: "max_settleable cap bps = Ok (Some m)" "up_token s = Some tok" "0 < cap"
    and v: "at_approve (ux_token X) (up_world s) (sequence E) tok b V m e = Some v"
    and s': "s' = s\<lparr>up_world := v, up_authorization := (up_authorization s)(q \<mapsto> \<lparr>ar_from = b, ar_to = t, ar_cap = cap, ar_expiry = e,
        ar_consumed = False, ar_max_slippage_bps = bps, ar_created_ledger = sequence E\<rparr>),
      up_events := up_events s @ [AuthorizeEvent q b t cap e bps]\<rparr>"
    using authorize_with_slippage_Ok [of X E q b t cap e bps s "()" s'] assms(3,4) by (auto simp: invoke_Ok_iff)
  have m: "m = granted_ceiling cap bps" "0 \<le> m"
    using c(1,3) max_settleable_Some_iff [OF assms(2), of bps m] granted_ceiling_bounds [of cap bps] by auto
  have allow: "?A (up_world s') n tok b V \<le> m" for n using sep41_allowanceD(2) [OF assms(1) v] m(2) by (simp add: s')
  have within: "x \<le> ?A (up_world s'') (sequence E'') tok b V"
    if "settle X E'' p' x s'' = (Ok (), u)" "current_contract_address E'' = V" "up_authorization s'' p' = Some r'" "ar_from r' = b" "up_token s'' = Some tok"
    for E'' p' x s'' u r'
    using settle_Ok [OF that(1)] that(2-5) sep41_allowanceD(3) [OF assms(1)] by auto
  have first: "settle X E' p x s' \<noteq> (Ok (), u)" if "granted_ceiling cap bps < x" for x u
    using within [OF _ assms(5,6,7)] allow [of "sequence E'"] that m(1) c(2) by (fastforce simp: s')
  have second: "settle X E'' p' x s'' \<noteq> (Ok (), u)"
    if "invoke (settle X E' q y) s' = Ok ((), s'')" "up_authorization s'' p' = Some r'" "ar_from r' = b" "current_contract_address E'' = V"
    for y s'' E'' p' r' x u
  proof
    assume set: "settle X E'' p' x s'' = (Ok (), u)"
    have "settle X E' q y s' = (Ok (), s'')" using that(1) by (simp add: invoke_Ok_iff)
    from settle_Ok [OF this] obtain v1 v2 where
      v2: "at_approve (ux_token X) v1 (sequence E') tok b V 0 e = Some v2" "up_world s'' = v2" "up_token s'' = Some tok"
      using assms(5) c(2) by (auto simp: s')
    have "?A (up_world s'') n tok b V = 0" for n using sep41_allowanceD(2) [OF assms(1) v2(1)] v2(2) by simp
    then have "x \<le> 0" using within [OF set that(4,2,3) v2(3)] by simp
    then show False using settle_Ok [OF set] by auto
  qed
  show ?thesis using first second by blast
qed

theorem authorizations_share_allowance_witness:
  "up_authorization uw_second [1] = Some (uw_record 100 500 10) \<and> settle uw_ext (uw_env 12) [1] 100 uw_second \<noteq> (Ok (), uw_second) \<and>
   settle uw_ext (uw_env 13) [1] 1 uw_settled \<noteq> (Ok (), uw_settled)"
proof -
  have a: "invoke (authorize_with_slippage uw_ext (uw_env 11) [2] 7 8 60 50 0) uw_first = Ok ((), uw_second)"
    using uw_second_run(1) by (simp add: invoke_Ok_iff authorize_def)
  have b: "invoke (settle uw_ext (uw_env 12) [2] 40) uw_second = Ok ((), uw_settled)" using uw_settled_run(1) by (simp add: invoke_Ok_iff)
  have "in_i128 60" "current_contract_address (uw_env n) = 1" for n by (simp_all add: in_i128_def uw_env_def)
  note share = authorizations_share_allowance [OF sep41_uw this(1,2) a this(2), of "[1]" "uw_record 100 500 10" 12]
  have "up_authorization uw_second [1] = Some (uw_record 100 500 10)" "ar_from (uw_record 100 500 10) = 7" by (simp_all add: uw_second_run uw_record_def)
  note share = share [OF this]
  have "settle uw_ext (uw_env 12) [1] 100 uw_second \<noteq> (Ok (), uw_second)" using share by (simp add: granted_ceiling_def)
  moreover have "settle uw_ext (uw_env 13) [1] 1 uw_settled \<noteq> (Ok (), uw_settled)"
    using share b uw_settled_run(2) by (auto simp: uw_record_def uw_env_def)
  ultimately show ?thesis by (simp add: uw_second_run)
qed

end
