(* ===== verification/Insurance_Pool.thy ===== *)
theory Insurance_Pool
  imports Common Invocation Escrow
begin

text \<open>
  The insurance pool (\<open>insurance/src/lib.rs\<close>, \<open>interest.rs\<close>): suppliers deposit capital, borrowers draw against their own
  supply, and two global indexes carry the interest. The fixed-point arithmetic is kept with its checked
  operations and truncating divisions.
\<close>

section \<open>Interest\<close>

datatype insurance_error = NotAdmin | InsufficientLiquidity | ArithmeticOverflow | PoolInvalidAmount | ExceedsCollateral | PoolNotInitialized

definition PRECISION :: i128 where "PRECISION = 1000000000000000000"

definition SECONDS_PER_YEAR :: i128 where "SECONDS_PER_YEAR = 31536000"

definition RESERVE_FACTOR_BPS :: i128 where "RESERVE_FACTOR_BPS = 1000"

definition BASE_RATE_BPS :: i128 where "BASE_RATE_BPS = 200"

definition SLOPE_BPS :: i128 where "SLOPE_BPS = 10000"

definition MAX_UTILIZATION_BPS :: i128 where "MAX_UTILIZATION_BPS = 10000"

definition clamp :: "int \<Rightarrow> int \<Rightarrow> int \<Rightarrow> int" where
  "clamp x lo hi = (if x < lo then lo else if x > hi then hi else x)"

definition utilization_ratio :: "i128 \<Rightarrow> i128 \<Rightarrow> i128" where
  "utilization_ratio borrowed supplied =
     (if borrowed \<le> 0 then 0
      else if supplied \<le> 0 then MAX_UTILIZATION_BPS
      else let util = (case i128_checked (borrowed * MAX_UTILIZATION_BPS) of
                 Some v \<Rightarrow> trunc_div v supplied | None \<Rightarrow> MAX_UTILIZATION_BPS)
           in clamp util 0 MAX_UTILIZATION_BPS)"

definition borrow_rate :: "i128 \<Rightarrow> i128" where
  "borrow_rate utilization_bps =
     (let util = clamp utilization_bps 0 MAX_UTILIZATION_BPS in
      case Option.bind (map_option (\<lambda>v. trunc_div v MAX_UTILIZATION_BPS) (i128_checked (SLOPE_BPS * util)))
             (\<lambda>slope. i128_checked (BASE_RATE_BPS + slope)) of
        None \<Rightarrow> 0
      | Some annual_bps \<Rightarrow>
          let denom = unwrap_or (i128_checked (10000 * SECONDS_PER_YEAR)) 1
          in unwrap_or (map_option (\<lambda>v. trunc_div v denom) (i128_checked (annual_bps * PRECISION))) 0)"

definition supply_rate :: "i128 \<Rightarrow> i128 \<Rightarrow> i128" where
  "supply_rate rate utilization_bps =
     (let util = clamp utilization_bps 0 MAX_UTILIZATION_BPS;
          keep_bps = MAX_UTILIZATION_BPS - RESERVE_FACTOR_BPS;
          denom = 10000 * 10000
      in unwrap_or (map_option (\<lambda>v. trunc_div v denom)
           (Option.bind (i128_checked (rate * util)) (\<lambda>v. i128_checked (v * keep_bps)))) 0)"

definition accrue_interest :: "i128 \<Rightarrow> i128 \<Rightarrow> i128 \<Rightarrow> (insurance_error, i128) result" where
  "accrue_interest index rate dt =
     (if dt \<le> 0 then Ok index
      else obind (ok_or (i128_checked (rate * dt)) ArithmeticOverflow) (\<lambda>growth.
        obind (ok_or (i128_checked (PRECISION + growth)) ArithmeticOverflow) (\<lambda>factor.
        obind (ok_or (i128_checked (index * factor)) ArithmeticOverflow) (\<lambda>v. Ok (trunc_div v PRECISION)))))"

definition accrue_supply :: "i128 \<Rightarrow> i128 \<Rightarrow> i128 \<Rightarrow> (insurance_error, i128) result" where
  "accrue_supply index rate dt =
     (if dt \<le> 0 then Ok index
      else obind (ok_or (i128_checked (rate * dt)) ArithmeticOverflow) (\<lambda>growth.
        obind (ok_or (i128_checked (PRECISION + growth)) ArithmeticOverflow) (\<lambda>factor.
        obind (ok_or (i128_checked (index * factor)) ArithmeticOverflow) (\<lambda>v. Ok (trunc_div v PRECISION)))))"

section \<open>Storage\<close>

record user_info =
  ui_supplied :: i128
  ui_borrowed :: i128
  ui_supply_checkpoint :: i128
  ui_borrow_checkpoint :: i128

datatype (plugins only: code size) pool_event =
    PoolDepositEvent address i128 i128
  | PoolWithdrawEvent address i128 i128
  | PoolBorrowEvent address i128 i128
  | PoolRepayEvent address i128 i128

record 'w pool =
  ip_admin :: "address option"
  ip_token :: "address option"
  ip_total_supplied :: "i128 option"
  ip_total_borrowed :: "i128 option"
  ip_borrow_index :: "i128 option"
  ip_supply_index :: "i128 option"
  ip_last_accrual :: "u64 option"
  ip_user_info :: "address \<rightharpoonup> user_info"
  ip_events :: "pool_event list"
  ip_world :: 'w

definition pool_empty :: "'w \<Rightarrow> 'w pool" where
  "pool_empty w = \<lparr>ip_admin = None, ip_token = None, ip_total_supplied = None, ip_total_borrowed = None, ip_borrow_index = None,
     ip_supply_index = None, ip_last_accrual = None, ip_user_info = Map.empty, ip_events = [], ip_world = w\<rparr>"

type_synonym ('w, 'a) pool_act = "(insurance_error, 'w pool, 'a) action"

definition total_supplied :: "'w pool \<Rightarrow> i128" where
  "total_supplied s = unwrap_or (ip_total_supplied s) 0"

definition total_borrowed :: "'w pool \<Rightarrow> i128" where
  "total_borrowed s = unwrap_or (ip_total_borrowed s) 0"

definition borrow_index :: "'w pool \<Rightarrow> i128" where
  "borrow_index s = unwrap_or (ip_borrow_index s) PRECISION"

definition supply_index :: "'w pool \<Rightarrow> i128" where
  "supply_index s = unwrap_or (ip_supply_index s) PRECISION"

definition load_user :: "'w pool \<Rightarrow> address \<Rightarrow> user_info" where
  "load_user s user = unwrap_or (ip_user_info s user) \<lparr>ui_supplied = 0, ui_borrowed = 0,
     ui_supply_checkpoint = supply_index s, ui_borrow_checkpoint = borrow_index s\<rparr>"

definition save_user :: "address \<Rightarrow> user_info \<Rightarrow> ('w, unit) pool_act" where
  "save_user user info = amodify (\<lambda>s. s\<lparr>ip_user_info := (ip_user_info s)(user \<mapsto> info)\<rparr>)"

text \<open>The interest of one side of a position since its checkpoint.\<close>

definition settled_side :: "i128 \<Rightarrow> i128 \<Rightarrow> i128 \<Rightarrow> (insurance_error, i128) result" where
  "settled_side amount index checkpoint =
     (if index > checkpoint then
        obind (i128_op (index - checkpoint)) (\<lambda>d.
        obind (ok_or (i128_checked (amount * d)) ArithmeticOverflow) (\<lambda>v.
        ok_or (i128_checked (amount + trunc_div v PRECISION)) ArithmeticOverflow))
      else Ok amount)"

definition settle_view :: "'w pool \<Rightarrow> user_info \<Rightarrow> (insurance_error, user_info) result" where
  "settle_view s info =
     obind (settled_side (ui_supplied info) (supply_index s) (ui_supply_checkpoint info)) (\<lambda>supplied.
     obind (settled_side (ui_borrowed info) (borrow_index s) (ui_borrow_checkpoint info)) (\<lambda>borrowed.
     Ok \<lparr>ui_supplied = supplied, ui_borrowed = borrowed, ui_supply_checkpoint = supply_index s, ui_borrow_checkpoint = borrow_index s\<rparr>))"

definition settle_user :: "address \<Rightarrow> ('w, user_info) pool_act" where
  "settle_user user = abind (aread (\<lambda>s. settle_view s (load_user s user))) alift"

definition mul_div :: "i128 \<Rightarrow> i128 \<Rightarrow> i128 \<Rightarrow> (insurance_error, i128) result" where
  "mul_div a b c = (if c = 0 then Ok a
     else obind (ok_or (i128_checked (a * b)) ArithmeticOverflow) (\<lambda>v. i128_op (trunc_div v c)))"

definition accrue_totals :: "'w pool \<Rightarrow> i128 \<Rightarrow> (insurance_error, 'w pool) result" where
  "accrue_totals s dt =
     (let t_supplied = total_supplied s; t_borrowed = total_borrowed s; b_idx = borrow_index s; s_idx = supply_index s;
          util = utilization_ratio t_borrowed t_supplied; br = borrow_rate util; sr = supply_rate br util in
      obind (accrue_interest b_idx br dt) (\<lambda>new_b_idx.
      obind (accrue_supply s_idx sr dt) (\<lambda>new_s_idx.
      obind (mul_div t_borrowed new_b_idx b_idx) (\<lambda>new_t_borrowed.
      obind (mul_div t_supplied new_s_idx s_idx) (\<lambda>new_t_supplied.
      Ok (s\<lparr>ip_borrow_index := Some new_b_idx, ip_supply_index := Some new_s_idx,
            ip_total_borrowed := Some new_t_borrowed, ip_total_supplied := Some new_t_supplied\<rparr>))))))"

definition accrue_internal :: "env \<Rightarrow> ('w, unit) pool_act" where
  "accrue_internal E = abind (aread (\<lambda>s.
       let dt = int (saturating_sub (timestamp E) (unwrap_or (ip_last_accrual s) 0)) in
       if dt > 0 \<and> (total_supplied s > 0 \<or> total_borrowed s > 0) then accrue_totals s dt else Ok s)) (\<lambda>r.
     abind (alift r) (\<lambda>s'. amodify (\<lambda>_. s'\<lparr>ip_last_accrual := Some (timestamp E)\<rparr>)))"

section \<open>Entry points\<close>

definition pool_token :: "('w, address) pool_act" where
  "pool_token = abind (aread ip_token) (\<lambda>t. alift (ok_or t PoolNotInitialized))"

definition pool_publish :: "pool_event \<Rightarrow> ('w, unit) pool_act" where
  "pool_publish ev = amodify (\<lambda>s. s\<lparr>ip_events := ip_events s @ [ev]\<rparr>)"

definition pool_transfer :: "'w token \<Rightarrow> address \<Rightarrow> address \<Rightarrow> i128 \<Rightarrow> ('w, unit) pool_act" where
  "pool_transfer T from to amount = abind pool_token (\<lambda>tok.
     abind (aread ip_world) (\<lambda>w.
     abind (alift (unwrap (tok_transfer T w tok from to amount))) (\<lambda>w'.
     amodify (\<lambda>s. s\<lparr>ip_world := w'\<rparr>))))"

definition pool_constructor :: "env \<Rightarrow> address \<Rightarrow> address \<Rightarrow> ('w, unit) pool_act" where
  "pool_constructor E admin tok = amodify (\<lambda>s. s\<lparr>ip_admin := Some admin, ip_token := Some tok,
     ip_borrow_index := Some PRECISION, ip_supply_index := Some PRECISION, ip_total_supplied := Some 0,
     ip_total_borrowed := Some 0, ip_last_accrual := Some (timestamp E)\<rparr>)"

definition accrue :: "env \<Rightarrow> ('w, unit) pool_act" where
  "accrue E = accrue_internal E"

definition pool_deposit :: "'w token \<Rightarrow> env \<Rightarrow> address \<Rightarrow> i128 \<Rightarrow> ('w, unit) pool_act" where
  "pool_deposit T E user amount =
     aseq (alift (require_auth E user))
     (aseq (arefuse (amount \<le> 0) PoolInvalidAmount)
     (aseq (accrue_internal E)
     (abind (settle_user user) (\<lambda>info.
      abind (alift (ok_or (i128_checked (ui_supplied info + amount)) ArithmeticOverflow)) (\<lambda>supplied.
      abind (aread total_supplied) (\<lambda>t.
      abind (alift (ok_or (i128_checked (t + amount)) ArithmeticOverflow)) (\<lambda>new_total.
      aseq (amodify (\<lambda>s. s\<lparr>ip_total_supplied := Some new_total\<rparr>))
      (aseq (save_user user (info\<lparr>ui_supplied := supplied\<rparr>))
      (aseq (pool_transfer T user (current_contract_address E) amount)
      (pool_publish (PoolDepositEvent user amount new_total)))))))))))"

text \<open>\<open>liquid\<close>: \<open>total_supplied.saturating_sub(total_borrowed)\<close> on \<open>i128\<close>.\<close>

definition liquid :: "'w pool \<Rightarrow> i128" where
  "liquid s = clamp (total_supplied s - total_borrowed s) (- (2 ^ 127)) (2 ^ 127 - 1)"

definition pool_withdraw :: "'w token \<Rightarrow> env \<Rightarrow> address \<Rightarrow> i128 \<Rightarrow> ('w, unit) pool_act" where
  "pool_withdraw T E user amount =
     aseq (alift (require_auth E user))
     (aseq (arefuse (amount \<le> 0) PoolInvalidAmount)
     (aseq (accrue_internal E)
     (abind (settle_user user) (\<lambda>info.
      aseq (arefuse (amount > ui_supplied info) PoolInvalidAmount)
      (abind (alift (ok_or (i128_checked (ui_supplied info - amount)) PoolInvalidAmount)) (\<lambda>remaining.
      aseq (arefuse (ui_borrowed info > remaining) ExceedsCollateral)
      (abind (aread liquid) (\<lambda>l.
      aseq (arefuse (amount > l) InsufficientLiquidity)
      (abind (alift (ok_or (i128_checked (ui_supplied info - amount)) ArithmeticOverflow)) (\<lambda>supplied.
      abind (aread total_supplied) (\<lambda>t.
      abind (alift (ok_or (i128_checked (t - amount)) ArithmeticOverflow)) (\<lambda>new_total.
      aseq (amodify (\<lambda>s. s\<lparr>ip_total_supplied := Some new_total\<rparr>))
      (aseq (save_user user (info\<lparr>ui_supplied := supplied\<rparr>))
      (aseq (pool_transfer T (current_contract_address E) user amount)
      (pool_publish (PoolWithdrawEvent user amount new_total))))))))))))))))"

definition pool_borrow :: "'w token \<Rightarrow> env \<Rightarrow> address \<Rightarrow> i128 \<Rightarrow> ('w, unit) pool_act" where
  "pool_borrow T E user amount =
     aseq (alift (require_auth E user))
     (aseq (arefuse (amount \<le> 0) PoolInvalidAmount)
     (aseq (accrue_internal E)
     (abind (settle_user user) (\<lambda>info.
      abind (alift (ok_or (i128_checked (ui_borrowed info + amount)) ArithmeticOverflow)) (\<lambda>new_borrowed.
      aseq (arefuse (new_borrowed > ui_supplied info) ExceedsCollateral)
      (abind (aread liquid) (\<lambda>l.
      aseq (arefuse (amount > l) InsufficientLiquidity)
      (abind (aread total_borrowed) (\<lambda>t.
      abind (alift (ok_or (i128_checked (t + amount)) ArithmeticOverflow)) (\<lambda>new_total_borrowed.
      aseq (amodify (\<lambda>s. s\<lparr>ip_total_borrowed := Some new_total_borrowed\<rparr>))
      (aseq (save_user user (info\<lparr>ui_borrowed := new_borrowed\<rparr>))
      (aseq (pool_transfer T (current_contract_address E) user amount)
      (pool_publish (PoolBorrowEvent user amount new_total_borrowed))))))))))))))"

definition pool_repay :: "'w token \<Rightarrow> env \<Rightarrow> address \<Rightarrow> i128 \<Rightarrow> ('w, unit) pool_act" where
  "pool_repay T E user amount =
     aseq (alift (require_auth E user))
     (aseq (arefuse (amount \<le> 0) PoolInvalidAmount)
     (aseq (accrue_internal E)
     (abind (settle_user user) (\<lambda>info.
      aseq (arefuse (ui_borrowed info \<le> 0) PoolInvalidAmount)
      (let actual = min amount (ui_borrowed info) in
       abind (alift (ok_or (i128_checked (ui_borrowed info - actual)) ArithmeticOverflow)) (\<lambda>borrowed.
       abind (aread total_borrowed) (\<lambda>t.
       abind (alift (ok_or (i128_checked (t - actual)) ArithmeticOverflow)) (\<lambda>new_total_borrowed.
       aseq (amodify (\<lambda>s. s\<lparr>ip_total_borrowed := Some new_total_borrowed\<rparr>))
       (aseq (save_user user (info\<lparr>ui_borrowed := borrowed\<rparr>))
       (aseq (pool_transfer T user (current_contract_address E) actual)
       (pool_publish (PoolRepayEvent user actual new_total_borrowed))))))))))))"

definition get_utilization :: "'w pool \<Rightarrow> i128" where
  "get_utilization s = utilization_ratio (total_borrowed s) (total_supplied s)"

definition get_user_info :: "'w pool \<Rightarrow> address \<Rightarrow> (insurance_error, user_info) result" where
  "get_user_info s user = (case settle_view s (load_user s user) of
     Ok info \<Rightarrow> Ok info | Err e \<Rightarrow> Ok (load_user s user) | Trap \<Rightarrow> Trap)"

end
