(* ===== verification/Insurance_Interest.thy ===== *)
theory Insurance_Interest
  imports Complex_Main Insurance_Pool
begin

text \<open>
  The interest model. The rates have closed forms in which no checked operation ever falls back, the indexes
  never fall, and accrual never lets the supply grow by more than the debt.
\<close>

section \<open>Rates\<close>

lemmas pool_consts = PRECISION_def SECONDS_PER_YEAR_def RESERVE_FACTOR_BPS_def BASE_RATE_BPS_def SLOPE_BPS_def MAX_UTILIZATION_BPS_def

lemma clamp_id: "lo \<le> x \<Longrightarrow> x \<le> hi \<Longrightarrow> clamp x lo hi = x"
  by (simp add: clamp_def)

lemma clamp_range: "lo \<le> hi \<Longrightarrow> lo \<le> clamp x lo hi \<and> clamp x lo hi \<le> hi"
  by (simp add: clamp_def)

lemma borrow_rate_eq:
  assumes "0 \<le> u" "u \<le> 10000"
  shows "borrow_rate u = (200 + u) * 1000000000000000000 div 315360000000"
  using assms by (simp add: borrow_rate_def pool_consts clamp_id i128_checked_def in_i128_def trunc_div_nonneg Let_def)

lemma borrow_rate_bounds:
  assumes "0 \<le> u" "u \<le> 10000"
  shows "634195839 \<le> borrow_rate u" "borrow_rate u \<le> 32343987823"
proof -
  have "200 * 1000000000000000000 \<le> (200 + u) * (1000000000000000000 :: int)" "(200 + u) * 1000000000000000000 \<le> (10200 :: int) * 1000000000000000000"
    using assms by auto
  from this [THEN zdiv_mono1, of 315360000000] show "634195839 \<le> borrow_rate u" "borrow_rate u \<le> 32343987823"
    using borrow_rate_eq [OF assms] by simp_all
qed

lemma supply_rate_eq:
  assumes "0 \<le> u" "u \<le> 10000" "0 \<le> r" "r \<le> 32343987823"
  shows "supply_rate r u = r * u * 9000 div 100000000"
proof -
  have "0 \<le> r * u" "r * u \<le> 32343987823 * 10000" using assms mult_mono [of r 32343987823 u 10000] by auto
  then show ?thesis
    using assms by (simp add: supply_rate_def pool_consts clamp_id i128_checked_def in_i128_def trunc_div_nonneg Let_def)
qed

lemma utilization_range: "0 \<le> utilization_ratio b s" "utilization_ratio b s \<le> 10000"
  using clamp_range [of 0 10000] by (auto simp: utilization_ratio_def pool_consts Let_def)

lemma utilization_share:
  assumes "0 < b" "0 \<le> s" "in_i128 (b * 10000)"
  shows "utilization_ratio b s * s \<le> 10000 * b"
proof (cases "s = 0")
  case False
  let ?q = "b * 10000 div s"
  have "0 \<le> ?q" "?q * s \<le> b * 10000" using assms False by (auto simp: pos_imp_zdiv_nonneg_iff minus_mod_eq_div_mult [symmetric])
  moreover have "utilization_ratio b s = min ?q 10000"
    using assms False \<open>0 \<le> ?q\<close> by (auto simp: utilization_ratio_def pool_consts i128_checked_def trunc_div_nonneg clamp_def Let_def)
  moreover have "min ?q 10000 * s \<le> ?q * s" using assms(2) by (intro mult_right_mono) auto
  ultimately show ?thesis by simp
qed (use assms in simp)

section \<open>The supply never outgrows the debt\<close>

lemma real_div_bounds:
  fixes a b :: int assumes "0 < b"
  shows "real_of_int (a div b) \<le> real_of_int a / real_of_int b" "real_of_int a / real_of_int b - 1 < real_of_int (a div b)"
proof -
  have "a div b = \<lfloor>real_of_int a / real_of_int b\<rfloor>" by (simp add: floor_divide_of_int_eq)
  then show "real_of_int (a div b) \<le> real_of_int a / real_of_int b" "real_of_int a / real_of_int b - 1 < real_of_int (a div b)"
    by linarith+
qed

lemma interest_margin:
  fixes B S b s r u d p :: int
  assumes p: "0 < p" "p \<le> b" "p \<le> s" and B: "0 < B" "0 \<le> S" and r: "10 \<le> r" "0 < d" "0 \<le> u" "u * S \<le> 10000 * B"
  shows "S * (s * (p + r * u * 9000 div 100000000 * d) div p) div s - S \<le> B * (b * (p + r * d) div p) div b - B"
proof -
  define q where "q = r * u * 9000 div 100000000"
  define y where "y = real_of_int B * r * d / p"
  let ?ns = "s * (p + q * d) div p" and ?nb = "b * (p + r * d) div p"
  have pos: "0 < b" "0 < s" using p by auto
  have q: "real_of_int q \<le> real_of_int r * u * 9000 / 100000000"
    using real_div_bounds(1) [of 100000000 "r * u * 9000"] by (simp add: q_def)
  have "real_of_int ?ns \<le> s * (p + q * d) / p" using real_div_bounds(1) [OF p(1), of "s * (p + q * d)"] by simp
  then have "real_of_int S * ?ns / s \<le> real_of_int S * (s * (p + q * d) / p) / s"
    using B(2) pos by (intro divide_right_mono mult_left_mono) auto
  also have "\<dots> = S + real_of_int S * q * d / p" using p pos by (simp add: field_simps)
  also have "real_of_int S * q * d / p \<le> real_of_int S * (real_of_int r * u * 9000 / 100000000) * d / p"
    using q B r p by (intro divide_right_mono mult_right_mono mult_left_mono) auto
  also have "\<dots> = real_of_int (u * S) * (real_of_int r * d * 9000 / 100000000 / p)" by (simp add: field_simps)
  also have "\<dots> \<le> real_of_int (10000 * B) * (real_of_int r * d * 9000 / 100000000 / p)"
    using r p by (intro mult_right_mono) (auto simp only: of_int_le_iff intro!: divide_nonneg_nonneg mult_nonneg_nonneg)
  also have "\<dots> = 0.9 * y" by (simp add: y_def field_simps)
  finally have up: "real_of_int (S * ?ns div s) \<le> S + 0.9 * y"
    using real_div_bounds(1) [OF pos(2), of "S * ?ns"] by simp
  have "real_of_int b * (p + r * d) / p - 1 < ?nb" using real_div_bounds(2) [OF p(1), of "b * (p + r * d)"] by simp
  then have "real_of_int B * (real_of_int b * (p + r * d) / p - 1) / b \<le> real_of_int B * ?nb / b"
    using B(1) pos by (intro divide_right_mono mult_left_mono) auto
  moreover have "real_of_int B * (real_of_int b * (p + r * d) / p - 1) / b = B + y - real_of_int B / b"
    using p pos by (simp add: y_def field_simps)
  moreover have "real_of_int B / b \<le> real_of_int B / p" using p B(1) by (intro divide_left_mono) auto
  moreover have "10 * (real_of_int B / p) \<le> y"
  proof -
    have "10 * 1 \<le> r * d" using r by (intro mult_mono) auto
    then have "10 \<le> real_of_int r * d" by (metis mult.right_neutral of_int_le_iff of_int_mult of_int_numeral)
    then have "real_of_int B / p * 10 \<le> real_of_int B / p * (real_of_int r * d)" using B(1) p by (intro mult_left_mono) auto
    then show ?thesis by (simp add: y_def field_simps)
  qed
  ultimately have "real_of_int B + 0.9 * y - 1 < real_of_int (B * ?nb div b)"
    using real_div_bounds(2) [OF pos(1), of "B * ?nb"] unfolding of_int_mult by linarith
  then show ?thesis using up unfolding q_def by linarith
qed

section \<open>Accrual\<close>

lemma accrue_index_Ok_iff [ok_iff]:
  "accrue_interest i r dt = Ok j \<longleftrightarrow> (if dt \<le> 0 then j = i else in_i128 (r * dt) \<and> in_i128 (PRECISION + r * dt) \<and>
     in_i128 (i * (PRECISION + r * dt)) \<and> j = trunc_div (i * (PRECISION + r * dt)) PRECISION)"
  "accrue_supply i r dt = Ok j \<longleftrightarrow> (if dt \<le> 0 then j = i else in_i128 (r * dt) \<and> in_i128 (PRECISION + r * dt) \<and>
     in_i128 (i * (PRECISION + r * dt)) \<and> j = trunc_div (i * (PRECISION + r * dt)) PRECISION)"
  by (auto simp: accrue_interest_def accrue_supply_def ok_iff i128_checked_def split: if_splits)

lemma mul_div_Ok_iff [ok_iff]:
  "mul_div a b c = Ok v \<longleftrightarrow> (if c = 0 then v = a else in_i128 (a * b) \<and> in_i128 (trunc_div (a * b) c) \<and> v = trunc_div (a * b) c)"
  by (auto simp: mul_div_def ok_iff i128_checked_def split: if_splits)

definition pool_inv :: "'w pool \<Rightarrow> bool" where
  "pool_inv s \<longleftrightarrow> PRECISION \<le> borrow_index s \<and> PRECISION \<le> supply_index s \<and> 0 \<le> total_supplied s \<and> 0 \<le> total_borrowed s"

lemma index_grows:
  fixes i g p :: int
  assumes "0 < p" "p \<le> i" "0 \<le> g"
  shows "i \<le> i * (p + g) div p"
proof -
  have "i * p div p \<le> i * (p + g) div p" using assms by (intro zdiv_mono1 mult_left_mono) auto
  then show ?thesis using assms by simp
qed

lemma total_grows:
  fixes a i j :: int
  assumes "0 \<le> a" "0 < i" "i \<le> j"
  shows "a \<le> a * j div i"
proof -
  have "a * i div i \<le> a * j div i" using assms by (intro zdiv_mono1 mult_left_mono) auto
  then show ?thesis using assms by simp
qed

lemma accrue_totals_Ok:
  assumes "accrue_totals s dt = Ok s'" "0 < dt" "pool_inv s"
  shows "borrow_index s \<le> borrow_index s'" "supply_index s \<le> supply_index s'" "total_borrowed s \<le> total_borrowed s'"
    and "total_supplied s \<le> total_supplied s'"
    and "total_supplied s' - total_supplied s \<le> total_borrowed s' - total_borrowed s"
    and "ip_token s' = ip_token s" "ip_world s' = ip_world s" "ip_user_info s' = ip_user_info s" "ip_events s' = ip_events s"
    and "total_borrowed s' = total_borrowed s * borrow_index s' div borrow_index s"
proof -
  define u where "u = utilization_ratio (total_borrowed s) (total_supplied s)"
  define r where "r = borrow_rate u"
  let ?b = "borrow_index s" and ?s = "supply_index s" and ?B = "total_borrowed s" and ?S = "total_supplied s" and ?p = PRECISION
  have inv: "?p \<le> ?b" "?p \<le> ?s" "0 \<le> ?S" "0 \<le> ?B" "0 < ?p" using assms(3) by (auto simp: pool_inv_def PRECISION_def)
  have u: "0 \<le> u" "u \<le> 10000" using utilization_range by (auto simp: u_def)
  have r: "634195839 \<le> r" "r \<le> 32343987823" using borrow_rate_bounds [OF u] by (auto simp: r_def)
  define q where "q = r * u * 9000 div 100000000"
  have q: "supply_rate r u = q" "0 \<le> q" using supply_rate_eq [OF u] r u by (auto simp: q_def pos_imp_zdiv_nonneg_iff)
  define nb ns where "nb = ?b * (?p + r * dt) div ?p" and "ns = ?s * (?p + q * dt) div ?p"
  have pos: "0 \<le> r * dt" "0 \<le> q * dt" using r q(2) assms(2) by auto
  have n: "?b \<le> nb" "?s \<le> ns" unfolding nb_def ns_def using index_grows [OF inv(5)] inv(1,2) pos by blast+
  have td: "trunc_div (?b * (?p + r * dt)) ?p = nb" "trunc_div (?s * (?p + q * dt)) ?p = ns"
    using inv pos by (simp_all add: trunc_div_nonneg nb_def ns_def)
  have "0 \<le> ?B * nb" "0 \<le> ?S * ns" using inv n by auto
  then have td': "trunc_div (?B * nb) ?b = ?B * nb div ?b" "trunc_div (?S * ns) ?s = ?S * ns div ?s" using inv by (auto simp: trunc_div_nonneg)
  have nz: "(dt \<le> 0) = False" "(?b = 0) = False" "(?s = 0) = False" using inv assms(2) by auto
  have s': "s' = s\<lparr>ip_borrow_index := Some nb, ip_supply_index := Some ns, ip_total_borrowed := Some (?B * nb div ?b),
      ip_total_supplied := Some (?S * ns div ?s)\<rparr>" and fits: "in_i128 (?B * nb)"
    using assms(1) nz unfolding accrue_totals_def Let_def u_def [symmetric] r_def [symmetric] q(1)
    by (auto simp only: obind_Ok_iff accrue_index_Ok_iff mul_div_Ok_iff if_False td td' result.inject)
  show "borrow_index s \<le> borrow_index s'" "supply_index s \<le> supply_index s'" using n by (simp_all add: s' borrow_index_def supply_index_def)
  show "total_borrowed s \<le> total_borrowed s'" "total_supplied s \<le> total_supplied s'"
    using total_grows [of ?B ?b nb] total_grows [of ?S ?s ns] n inv by (simp_all add: s' total_borrowed_def total_supplied_def)
  have "?S * ns div ?s - ?S \<le> ?B * nb div ?b - ?B"
  proof (cases "?B = 0")
    case True
    then have "q = 0" by (simp add: q_def u_def utilization_ratio_def)
    then show ?thesis using True inv by (simp add: ns_def)
  next
    case False
    have "?B * 1000000000000000000 \<le> ?B * nb" using n inv False by (intro mult_left_mono) (auto simp: PRECISION_def)
    then have "in_i128 (?B * 10000)" using fits inv by (auto simp: in_i128_def)
    moreover have "0 < ?B" using False inv(4) by linarith
    ultimately have share: "u * ?S \<le> 10000 * ?B" unfolding u_def using inv(3) by (intro utilization_share)
    have "10 \<le> r" using r(1) by linarith
    then show ?thesis
      unfolding nb_def ns_def q_def by (rule interest_margin [OF inv(5,1,2) \<open>0 < ?B\<close> inv(3) _ assms(2) u(1) share])
  qed
  then show "total_supplied s' - total_supplied s \<le> total_borrowed s' - total_borrowed s"
    by (simp add: s' total_borrowed_def total_supplied_def)
  show "ip_token s' = ip_token s" "ip_world s' = ip_world s" "ip_user_info s' = ip_user_info s" "ip_events s' = ip_events s" by (simp_all add: s')
  show "total_borrowed s' = total_borrowed s * borrow_index s' div borrow_index s" by (simp add: s' total_borrowed_def borrow_index_def)
qed

definition accrued :: "'w pool \<Rightarrow> 'w pool \<Rightarrow> bool" where
  "accrued s s' \<longleftrightarrow> borrow_index s \<le> borrow_index s' \<and> supply_index s \<le> supply_index s' \<and> total_borrowed s \<le> total_borrowed s' \<and>
     total_supplied s \<le> total_supplied s' \<and> total_supplied s' - total_supplied s \<le> total_borrowed s' - total_borrowed s \<and>
     ip_token s' = ip_token s \<and> ip_world s' = ip_world s \<and> ip_user_info s' = ip_user_info s \<and> ip_events s' = ip_events s \<and>
     total_borrowed s' = total_borrowed s * borrow_index s' div borrow_index s"

lemma accrue_internal_Ok:
  assumes "accrue_internal E s = (Ok u, s')" "pool_inv s"
  shows "accrued s s'" "pool_inv s'"
proof -
  let ?dt = "int (saturating_sub (timestamp E) (unwrap_or (ip_last_accrual s) 0))"
  obtain s1 where s1: "(if ?dt > 0 \<and> (total_supplied s > 0 \<or> total_borrowed s > 0) then accrue_totals s ?dt else Ok s) = Ok s1"
    and s': "s' = s1\<lparr>ip_last_accrual := Some (timestamp E)\<rparr>"
    using assms(1) unfolding accrue_internal_def Let_def by (auto simp: ok_iff simp del: act_simps)
  have b: "0 < borrow_index s" using assms(2) by (auto simp: pool_inv_def PRECISION_def)
  have "accrued s s1"
  proof (cases "?dt > 0 \<and> (total_supplied s > 0 \<or> total_borrowed s > 0)")
    case True
    then have a: "accrue_totals s ?dt = Ok s1" "0 < ?dt" using s1 by (simp_all only: if_True simp_thms)
    show ?thesis unfolding accrued_def using accrue_totals_Ok [OF a assms(2)] by blast
  next
    case False
    then have "s1 = s" using s1 by (simp only: if_False result.inject simp_thms)
    then show ?thesis using b by (simp add: accrued_def)
  qed
  then show "accrued s s'"
    by (simp add: s' accrued_def borrow_index_def supply_index_def total_borrowed_def total_supplied_def)
  then show "pool_inv s'" using assms(2) by (auto simp: accrued_def pool_inv_def)
qed

end
