(* ===== verification/Insurance_Escrow.thy ===== *)
theory Insurance_Escrow
  imports Insurance_Interest
begin

text \<open>
  The pool as a machine. While the recorded debt is not negative, the liquidity the pool reports (supply minus
  debt) never grows by more than the tokens it receives, so it is an escrow of its own liquidity.
\<close>

section \<open>The machine\<close>

datatype pool_call = PoolAccrue | PoolDeposit address i128 | PoolWithdraw address i128 | PoolBorrow address i128 | PoolRepay address i128

primrec pool_run :: "'w token \<Rightarrow> env \<Rightarrow> pool_call \<Rightarrow> ('w, unit) pool_act" where
  "pool_run T E PoolAccrue = accrue E"
| "pool_run T E (PoolDeposit u x) = pool_deposit T E u x"
| "pool_run T E (PoolWithdraw u x) = pool_withdraw T E u x"
| "pool_run T E (PoolBorrow u x) = pool_borrow T E u x"
| "pool_run T E (PoolRepay u x) = pool_repay T E u x"

inductive pool_step :: "'w token \<Rightarrow> address \<Rightarrow> 'w pool \<Rightarrow> 'w pool \<Rightarrow> bool" for T :: "'w token" and V :: address where
  call: "invoke (pool_run T E c) s = Ok ((), s') \<Longrightarrow> current_contract_address E = V \<Longrightarrow> \<not> authorized E V \<Longrightarrow>
    0 \<le> total_borrowed s' \<Longrightarrow> pool_step T V s s'"
| world: "(\<And>t. tok_balance T (ip_world s) t V \<le> tok_balance T w t V) \<Longrightarrow> pool_step T V s (s\<lparr>ip_world := w\<rparr>)"

definition pool_owed :: "'w pool \<Rightarrow> address \<Rightarrow> i128" where
  "pool_owed s t = (if ip_token s = Some t then total_supplied s - total_borrowed s else 0)"

definition pool_held :: "'w token \<Rightarrow> address \<Rightarrow> 'w pool \<Rightarrow> address \<Rightarrow> i128" where
  "pool_held T V s t = tok_balance T (ip_world s) t V"

lemma pool_steps_Ok_iff [ok_iff]:
  "pool_publish ev s = (r, s') \<longleftrightarrow> r = Ok () \<and> s' = s\<lparr>ip_events := ip_events s @ [ev]\<rparr>"
  "save_user a i s = (r, s') \<longleftrightarrow> r = Ok () \<and> s' = s\<lparr>ip_user_info := (ip_user_info s)(a \<mapsto> i)\<rparr>"
  "settle_user a s = (Ok i, s') \<longleftrightarrow> settle_view s (load_user s a) = Ok i \<and> s' = s"
  "pool_transfer T a b x s = (Ok u, s') \<longleftrightarrow>
     (\<exists>tok w. ip_token s = Some tok \<and> tok_transfer T (ip_world s) tok a b x = Some w \<and> s' = s\<lparr>ip_world := w\<rparr>)"
  by (auto simp: pool_publish_def save_user_def settle_user_def pool_transfer_def pool_token_def ok_iff)

lemma pool_deposit_Ok:
  assumes "pool_deposit T E a x s = (Ok u, s')"
  shows "\<exists>s1 i tok w. authorized E a \<and> 0 < x \<and> accrue_internal E s = (Ok (), s1) \<and> settle_view s1 (load_user s1 a) = Ok i \<and>
    ip_token s1 = Some tok \<and> tok_transfer T (ip_world s1) tok a (current_contract_address E) x = Some w \<and>
    s' = s1\<lparr>ip_total_supplied := Some (total_supplied s1 + x), ip_user_info := (ip_user_info s1)(a \<mapsto> i\<lparr>ui_supplied := ui_supplied i + x\<rparr>),
      ip_world := w, ip_events := ip_events s1 @ [PoolDepositEvent a x (total_supplied s1 + x)]\<rparr>"
  using assms unfolding pool_deposit_def by (auto simp: ok_iff not_le simp del: act_simps)

lemma pool_withdraw_Ok:
  assumes "pool_withdraw T E a x s = (Ok u, s')"
  shows "\<exists>s1 i tok w. authorized E a \<and> 0 < x \<and> accrue_internal E s = (Ok (), s1) \<and> settle_view s1 (load_user s1 a) = Ok i \<and>
    x \<le> ui_supplied i \<and> ui_borrowed i \<le> ui_supplied i - x \<and> x \<le> liquid s1 \<and>
    ip_token s1 = Some tok \<and> tok_transfer T (ip_world s1) tok (current_contract_address E) a x = Some w \<and>
    s' = s1\<lparr>ip_total_supplied := Some (total_supplied s1 - x), ip_user_info := (ip_user_info s1)(a \<mapsto> i\<lparr>ui_supplied := ui_supplied i - x\<rparr>),
      ip_world := w, ip_events := ip_events s1 @ [PoolWithdrawEvent a x (total_supplied s1 - x)]\<rparr>"
  using assms unfolding pool_withdraw_def  by (auto simp: ok_iff not_le not_less simp del: act_simps)

lemma pool_borrow_Ok:
  assumes "pool_borrow T E a x s = (Ok u, s')"
  shows "\<exists>s1 i tok w. authorized E a \<and> 0 < x \<and> accrue_internal E s = (Ok (), s1) \<and> settle_view s1 (load_user s1 a) = Ok i \<and>
    ui_borrowed i + x \<le> ui_supplied i \<and> x \<le> liquid s1 \<and>
    ip_token s1 = Some tok \<and> tok_transfer T (ip_world s1) tok (current_contract_address E) a x = Some w \<and>
    s' = s1\<lparr>ip_total_borrowed := Some (total_borrowed s1 + x), ip_user_info := (ip_user_info s1)(a \<mapsto> i\<lparr>ui_borrowed := ui_borrowed i + x\<rparr>),
      ip_world := w, ip_events := ip_events s1 @ [PoolBorrowEvent a x (total_borrowed s1 + x)]\<rparr>"
  using assms unfolding pool_borrow_def by (auto simp: ok_iff not_le not_less simp del: act_simps)

lemma pool_repay_Ok:
  assumes "pool_repay T E a x s = (Ok u, s')"
  shows "\<exists>s1 i y tok w. authorized E a \<and> 0 < x \<and> accrue_internal E s = (Ok (), s1) \<and> settle_view s1 (load_user s1 a) = Ok i \<and>
    0 < ui_borrowed i \<and> y = min x (ui_borrowed i) \<and>
    ip_token s1 = Some tok \<and> tok_transfer T (ip_world s1) tok a (current_contract_address E) y = Some w \<and>
    s' = s1\<lparr>ip_total_borrowed := Some (total_borrowed s1 - y), ip_user_info := (ip_user_info s1)(a \<mapsto> i\<lparr>ui_borrowed := ui_borrowed i - y\<rparr>),
      ip_world := w, ip_events := ip_events s1 @ [PoolRepayEvent a y (total_borrowed s1 - y)]\<rparr>"
  using assms unfolding pool_repay_def Let_def by (auto simp: ok_iff not_le not_less simp del: act_simps)

section \<open>Every call is backed\<close>

lemma liquid_le: "0 < x \<Longrightarrow> x \<le> liquid s \<Longrightarrow> x \<le> total_supplied s - total_borrowed s"
  by (auto simp: liquid_def clamp_def split: if_splits)

text \<open>What a call does to the totals after accrual, and how the pool's balance moves with it.\<close>

lemma pool_call_totals:
  assumes "pool_run T E c s = (Ok (), s')" "sep41 T" "current_contract_address E = V" "\<not> authorized E V"
  shows "\<exists>s1. accrue_internal E s = (Ok (), s1) \<and> ip_token s' = ip_token s1 \<and> borrow_index s' = borrow_index s1 \<and> supply_index s' = supply_index s1 \<and>
    (0 \<le> total_supplied s1 \<and> 0 \<le> total_borrowed s1 \<longrightarrow> 0 \<le> total_supplied s') \<and>
    (\<forall>t. (if ip_token s1 = Some t then (total_supplied s' - total_borrowed s') - (total_supplied s1 - total_borrowed s1) else 0) \<le>
       tok_balance T (ip_world s') t V - tok_balance T (ip_world s1) t V)"
proof (cases c)
  case PoolAccrue
  then show ?thesis using assms(1) by (intro exI [of _ s']) (simp add: accrue_def)
next
  case (PoolDeposit a x)
  then have "pool_deposit T E a x s = (Ok (), s')" using assms(1) by simp
  from pool_deposit_Ok [OF this] obtain s1 tok w i where d: "authorized E a" "0 < x" "accrue_internal E s = (Ok (), s1)" "ip_token s1 = Some tok"
      "tok_transfer T (ip_world s1) tok a V x = Some w"
    and s': "s' = s1\<lparr>ip_total_supplied := Some (total_supplied s1 + x), ip_user_info := i,
      ip_world := w, ip_events := ip_events s1 @ [PoolDepositEvent a x (total_supplied s1 + x)]\<rparr>"
    using assms(3) by blast
  show ?thesis
    using d sep41D(3) [OF assms(2) d(5)] assms(4)
    by (intro exI [of _ s1]) (auto simp: s' total_supplied_def total_borrowed_def borrow_index_def supply_index_def)
next
  case (PoolWithdraw a x)
  then have "pool_withdraw T E a x s = (Ok (), s')" using assms(1) by simp
  from pool_withdraw_Ok [OF this] obtain s1 tok w i where d: "0 < x" "accrue_internal E s = (Ok (), s1)" "x \<le> liquid s1" "ip_token s1 = Some tok"
      "tok_transfer T (ip_world s1) tok V a x = Some w"
    and s': "s' = s1\<lparr>ip_total_supplied := Some (total_supplied s1 - x), ip_user_info := i,
      ip_world := w, ip_events := ip_events s1 @ [PoolWithdrawEvent a x (total_supplied s1 - x)]\<rparr>"
    using assms(3) by blast
  show ?thesis
    using d sep41D(3) [OF assms(2) d(5)] liquid_le [OF d(1,3)]
    by (intro exI [of _ s1]) (auto simp: s' total_supplied_def total_borrowed_def borrow_index_def supply_index_def)
next
  case (PoolBorrow a x)
  then have "pool_borrow T E a x s = (Ok (), s')" using assms(1) by simp
  from pool_borrow_Ok [OF this] obtain s1 tok w i where d: "0 < x" "accrue_internal E s = (Ok (), s1)" "ip_token s1 = Some tok"
      "tok_transfer T (ip_world s1) tok V a x = Some w"
    and s': "s' = s1\<lparr>ip_total_borrowed := Some (total_borrowed s1 + x), ip_user_info := i,
      ip_world := w, ip_events := ip_events s1 @ [PoolBorrowEvent a x (total_borrowed s1 + x)]\<rparr>"
    using assms(3) by blast
  show ?thesis
    using d sep41D(3) [OF assms(2) d(4)]
    by (intro exI [of _ s1]) (auto simp: s' total_supplied_def total_borrowed_def borrow_index_def supply_index_def)
next
  case (PoolRepay a x)
  then have "pool_repay T E a x s = (Ok (), s')" using assms(1) by simp
  from pool_repay_Ok [OF this] obtain s1 tok w i y where d: "authorized E a" "accrue_internal E s = (Ok (), s1)" "ip_token s1 = Some tok"
      "tok_transfer T (ip_world s1) tok a V y = Some w"
    and s': "s' = s1\<lparr>ip_total_borrowed := Some (total_borrowed s1 - y), ip_user_info := i,
      ip_world := w, ip_events := ip_events s1 @ [PoolRepayEvent a y (total_borrowed s1 - y)]\<rparr>"
    using assms(3) by blast
  show ?thesis
    using d sep41D(3) [OF assms(2) d(4)] assms(4)
    by (intro exI [of _ s1]) (auto simp: s' total_supplied_def total_borrowed_def borrow_index_def supply_index_def)
qed

lemma pool_step_sound:
  assumes "pool_step T V s s'" "pool_inv s" "sep41 T"
  shows "pool_inv s'" "ip_token s' = ip_token s" "pool_owed s' t - pool_owed s t \<le> pool_held T V s' t - pool_held T V s t"
    and "borrow_index s \<le> borrow_index s'" "supply_index s \<le> supply_index s'"
proof -
  have "pool_inv s' \<and> ip_token s' = ip_token s \<and> pool_owed s' t - pool_owed s t \<le> pool_held T V s' t - pool_held T V s t \<and>
      borrow_index s \<le> borrow_index s' \<and> supply_index s \<le> supply_index s'"
    using assms(1)
  proof cases
    case (call E c)
    have "pool_run T E c s = (Ok (), s')" using call(1) by (simp add: invoke_Ok_iff)
    from pool_call_totals [OF this assms(3) call(2,3)] obtain s1 where s1: "accrue_internal E s = (Ok (), s1)"
      "ip_token s' = ip_token s1" "borrow_index s' = borrow_index s1" "supply_index s' = supply_index s1"
      "0 \<le> total_supplied s1 \<and> 0 \<le> total_borrowed s1 \<longrightarrow> 0 \<le> total_supplied s'"
      "\<And>t. (if ip_token s1 = Some t then (total_supplied s' - total_borrowed s') - (total_supplied s1 - total_borrowed s1) else 0) \<le>
       tok_balance T (ip_world s') t V - tok_balance T (ip_world s1) t V" by blast
    note a = accrue_internal_Ok [OF s1(1) assms(2)]
    have "pool_inv s'" using a(2) s1(3-5) call(4) by (simp add: pool_inv_def)
    moreover have "pool_owed s' t - pool_owed s t \<le> pool_held T V s' t - pool_held T V s t"
      using a(1) s1(2) s1(6) [of t] by (auto simp: accrued_def pool_owed_def pool_held_def split: if_splits)
    ultimately show ?thesis using a(1) s1(2-4) by (simp add: accrued_def)
  next
    case (world w)
    then show ?thesis using assms(2)
      by (simp add: pool_inv_def pool_owed_def pool_held_def borrow_index_def supply_index_def total_supplied_def total_borrowed_def)
  qed
  then show "pool_inv s'" "ip_token s' = ip_token s" "pool_owed s' t - pool_owed s t \<le> pool_held T V s' t - pool_held T V s t"
    "borrow_index s \<le> borrow_index s'" "supply_index s \<le> supply_index s'" by blast+
qed

interpretation pool: escrow "pool_step T V" "\<lambda>s. pool_inv s \<and> sep41 T" "pool_held T V" pool_owed for T V
  by unfold_locales (use pool_step_sound in blast)+

definition pool_fresh :: "env \<Rightarrow> address \<Rightarrow> address \<Rightarrow> 'w \<Rightarrow> 'w pool" where
  "pool_fresh E admin tok w = snd (pool_constructor E admin tok (pool_empty w) :: (insurance_error, unit) result \<times> 'w pool)"

lemma pool_fresh_inv: "pool_inv (pool_fresh E admin tok w)" "ip_token (pool_fresh E admin tok w) = Some tok"
  "ip_world (pool_fresh E admin tok w) = w" "pool_owed (pool_fresh E admin tok w) t = 0"
  by (simp_all add: pool_fresh_def pool_constructor_def pool_inv_def borrow_index_def supply_index_def total_supplied_def
      total_borrowed_def pool_owed_def pool_empty_def)

lemma pool_reach:
  assumes "(pool_step T V)\<^sup>*\<^sup>* (pool_fresh E admin tok w) s" "sep41 T"
  shows "pool_inv s" "ip_token s = Some tok"
proof -
  have i: "pool_inv (pool_fresh E admin tok w) \<and> sep41 T" using assms(2) by (simp add: pool_fresh_inv)
  show "pool_inv s" using pool.steps_inv [OF assms(1) i] by simp
  have "ip_token s = ip_token (pool_fresh E admin tok w)"
    by (rule pool.steps_rel [OF assms(1) i, where R = "\<lambda>s s'. ip_token s' = ip_token s"]) (auto intro: pool_step_sound(2))
  then show "ip_token s = Some tok" by (simp add: pool_fresh_inv)
qed

end
