(* ===== verification/Insurance_Claims.thy ===== *)
theory Insurance_Claims
  imports Insurance_Escrow
begin

text \<open>
  What the insurance pool guarantees about its rates and its liquidity, and how the interest of single
  positions drifts away from the totals.
\<close>

section \<open>A small pool\<close>

text \<open>Address 1 is the pool, 7 a user, 9 the token; time 31536000 is one year.\<close>

definition pw_env :: "u64 \<Rightarrow> env" where
  "pw_env t = \<lparr>sequence = 0, timestamp = t, current_contract_address = 1, authorized = (\<lambda>a. a \<noteq> 1)\<rparr>"

definition pw_ledger :: ledger where
  "pw_ledger = (\<lambda>t a. if t = 9 \<and> a = 7 then 10000000 else 0)"

definition pw_init :: "ledger pool" where
  "pw_init = pool_fresh (pw_env 0) 2 9 pw_ledger"

definition pw_next :: "u64 \<Rightarrow> pool_call \<Rightarrow> ledger pool \<Rightarrow> ledger pool" where
  "pw_next t c s = snd (pool_run ledger_token (pw_env t) c s)"

definition pw_supplied :: "ledger pool" where "pw_supplied = pw_next 0 (PoolDeposit 7 1000000) pw_init"

definition pw_borrowed :: "ledger pool" where "pw_borrowed = pw_next 0 (PoolBorrow 7 500000) pw_supplied"

definition pw_year :: "ledger pool" where "pw_year = pw_next 31536000 (PoolDeposit 7 1) pw_borrowed"

definition pw_repaid :: "ledger pool" where "pw_repaid = pw_next 63072000 (PoolRepay 7 2000000) pw_year"

lemma pw_init_state: "ip_token pw_init = Some 9" "ip_total_supplied pw_init = Some 0" "ip_total_borrowed pw_init = Some 0"
  "ip_borrow_index pw_init = Some PRECISION" "ip_supply_index pw_init = Some PRECISION" "ip_last_accrual pw_init = Some 0"
  "ip_user_info pw_init = Map.empty" "ip_world pw_init = pw_ledger"
  by (simp_all add: pw_init_def pool_fresh_def pool_constructor_def pool_empty_def pw_env_def)

lemmas pw_run_defs = abind_def aseq_def ok_or_def unwrap_def unwrap_or_def require_auth_def i128_op_def in_i128_def
  i128_checked_def pool_token_def pool_publish_def pool_transfer_def accrue_internal_def settle_user_def settle_view_def
  settled_side_def load_user_def save_user_def total_supplied_def total_borrowed_def borrow_index_def supply_index_def
  liquid_def clamp_def saturating_sub_def pw_env_def ledger_token_def ledger_transfer_def Let_def PRECISION_def

definition pw_user :: "i128 \<Rightarrow> i128 \<Rightarrow> i128 \<Rightarrow> i128 \<Rightarrow> user_info" where
  "pw_user x y i j = \<lparr>ui_supplied = x, ui_borrowed = y, ui_supply_checkpoint = i, ui_borrow_checkpoint = j\<rparr>"

lemma pw_supplied_run:
  "pool_run ledger_token (pw_env 0) (PoolDeposit 7 1000000) pw_init = (Ok (), pw_supplied)"
  "ip_total_supplied pw_supplied = Some 1000000" "ip_total_borrowed pw_supplied = Some 0" "ip_token pw_supplied = Some 9"
  "ip_borrow_index pw_supplied = Some PRECISION" "ip_supply_index pw_supplied = Some PRECISION" "ip_last_accrual pw_supplied = Some 0"
  "ip_user_info pw_supplied = [7 \<mapsto> pw_user 1000000 0 PRECISION PRECISION]"
  "ip_world pw_supplied = (\<lambda>t a. if t = 9 then if a = 7 then 9000000 else if a = 1 then 1000000 else 0 else 0)"
  unfolding pw_supplied_def
  by (simp_all add: pw_next_def pool_deposit_def pw_run_defs pw_init_state pw_user_def pw_ledger_def fun_eq_iff)

lemma pw_borrowed_run:
  "pool_run ledger_token (pw_env 0) (PoolBorrow 7 500000) pw_supplied = (Ok (), pw_borrowed)"
  "ip_total_supplied pw_borrowed = Some 1000000" "ip_total_borrowed pw_borrowed = Some 500000" "ip_token pw_borrowed = Some 9"
  "ip_borrow_index pw_borrowed = Some PRECISION" "ip_supply_index pw_borrowed = Some PRECISION" "ip_last_accrual pw_borrowed = Some 0"
  "ip_user_info pw_borrowed = [7 \<mapsto> pw_user 1000000 500000 PRECISION PRECISION]"
  "ip_world pw_borrowed = (\<lambda>t a. if t = 9 then if a = 7 then 9500000 else if a = 1 then 500000 else 0 else 0)"
  unfolding pw_borrowed_def
  by (simp_all add: pw_next_def pool_borrow_def pw_run_defs pw_supplied_run pw_user_def fun_eq_iff)

lemma pw_rates:
  "utilization_ratio 500000 1000000 = 5000" "borrow_rate 5000 = 16489091831" "supply_rate 16489091831 5000 = 7420091323"
  "utilization_ratio 759999 1234000 = 6158" "borrow_rate 6158 = 20161085743" "supply_rate 20161085743 6158 = 11173676940"
  by (simp_all add: borrow_rate_eq supply_rate_eq utilization_ratio_def pool_consts i128_checked_def in_i128_def trunc_div_nonneg clamp_def)

lemma pw_accrue_year:
  "accrue_totals pw_borrowed 31536000 = Ok (pw_borrowed\<lparr>ip_borrow_index := Some 1519999999982416000, ip_supply_index := Some 1233999999962128000,
     ip_total_borrowed := Some 759999, ip_total_supplied := Some 1233999\<rparr>)"
  by (simp add: accrue_totals_def total_supplied_def total_borrowed_def borrow_index_def supply_index_def pw_borrowed_run pw_rates
      accrue_interest_def accrue_supply_def mul_div_def PRECISION_def i128_op_def i128_checked_def in_i128_def trunc_div_nonneg Let_def)

lemma pw_year_run:
  "pool_run ledger_token (pw_env 31536000) (PoolDeposit 7 1) pw_borrowed = (Ok (), pw_year)"
  "ip_total_supplied pw_year = Some 1234000" "ip_total_borrowed pw_year = Some 759999" "ip_token pw_year = Some 9"
  "ip_borrow_index pw_year = Some 1519999999982416000" "ip_supply_index pw_year = Some 1233999999962128000" "ip_last_accrual pw_year = Some 31536000"
  "ip_user_info pw_year = [7 \<mapsto> pw_user 1234000 759999 1233999999962128000 1519999999982416000]"
  "ip_world pw_year = (\<lambda>t a. if t = 9 then if a = 7 then 9499999 else if a = 1 then 500001 else 0 else 0)"
  unfolding pw_year_def
  by (simp_all add: pw_next_def pool_deposit_def pw_run_defs pw_accrue_year pw_borrowed_run pw_user_def trunc_div_nonneg fun_eq_iff)

lemma pw_step:
  assumes "pool_run ledger_token (pw_env t) c s = (Ok (), s')" "0 \<le> total_borrowed s'"
  shows "pool_step ledger_token 1 s s'"
  by (rule pool_step.call [where E = "pw_env t" and c = c]) (use assms in \<open>simp_all add: invoke_Ok_iff pw_env_def\<close>)

lemma pw_reach: "(pool_step ledger_token 1)\<^sup>*\<^sup>* pw_init pw_year"
proof -
  have "pool_step ledger_token 1 pw_init pw_supplied" by (rule pw_step [OF pw_supplied_run(1)]) (simp add: total_borrowed_def pw_supplied_run)
  moreover have "pool_step ledger_token 1 pw_supplied pw_borrowed" by (rule pw_step [OF pw_borrowed_run(1)]) (simp add: total_borrowed_def pw_borrowed_run)
  moreover have "pool_step ledger_token 1 pw_borrowed pw_year" by (rule pw_step [OF pw_year_run(1)]) (simp add: total_borrowed_def pw_year_run)
  ultimately show ?thesis by (meson converse_rtranclp_into_rtranclp rtranclp.rtrancl_refl)
qed

section \<open>Guarantees\<close>

text \<open>C29: the interest model is bounded and balanced. Utilization is between 0 and 10000 basis points, the borrow rate is
the closed form of 2% plus the utilization per year, the supply rate is at most nine tenths of it, no checked
operation of the model falls back; and an accrual of a pool with non-negative totals never lowers an index
and never lets the supply grow by more than the debt.\<close>

theorem interest_balanced:
  assumes "accrue E s = (Ok (), s')" "PRECISION \<le> borrow_index s" "PRECISION \<le> supply_index s" "0 \<le> total_supplied s" "0 \<le> total_borrowed s"
  defines "u \<equiv> get_utilization s"
  shows "0 \<le> u \<and> u \<le> 10000 \<and> borrow_rate u = (200 + u) * PRECISION div (10000 * SECONDS_PER_YEAR) \<and>
    10 * supply_rate (borrow_rate u) u \<le> 9 * borrow_rate u \<and>
    borrow_index s \<le> borrow_index s' \<and> supply_index s \<le> supply_index s' \<and>
    0 \<le> total_supplied s' - total_supplied s \<and>
    total_supplied s' - total_supplied s \<le> total_borrowed s' - total_borrowed s"
proof -
  have u: "0 \<le> u" "u \<le> 10000" using utilization_range by (auto simp: u_def get_utilization_def)
  note r = borrow_rate_bounds [OF u]
  have "borrow_rate u * u * 9000 \<le> borrow_rate u * 10000 * 9000" using u r by (intro mult_right_mono mult_left_mono) auto
  from zdiv_mono1 [OF this, of 100000000] have q: "10 * supply_rate (borrow_rate u) u \<le> 9 * borrow_rate u"
    using supply_rate_eq [OF u _ r(2)] r(1) by simp
  have "accrued s s'" using accrue_internal_Ok(1) [of E s "()" s'] assms(1-5) by (simp add: accrue_def pool_inv_def)
  then show ?thesis using u q borrow_rate_eq [OF u] by (simp add: accrued_def PRECISION_def SECONDS_PER_YEAR_def)
qed

theorem interest_balanced_witness:
  "\<exists>s'. accrue (pw_env 31536000) pw_borrowed = (Ok (), s') \<and> get_utilization pw_borrowed = 5000 \<and>
     total_supplied s' - 1000000 \<le> total_borrowed s' - 500000"
proof -
  let ?s = "pw_borrowed\<lparr>ip_borrow_index := Some 1519999999982416000, ip_supply_index := Some 1233999999962128000,
     ip_total_borrowed := Some 759999, ip_total_supplied := Some 1233999, ip_last_accrual := Some 31536000\<rparr>"
  have "accrue (pw_env 31536000) pw_borrowed = (Ok (), ?s)"
    by (simp add: accrue_def pw_run_defs pw_accrue_year pw_borrowed_run)
  from interest_balanced [OF this] show ?thesis
    using \<open>accrue (pw_env 31536000) pw_borrowed = (Ok (), ?s)\<close>
    by (simp add: total_supplied_def total_borrowed_def borrow_index_def supply_index_def pw_borrowed_run get_utilization_def pw_rates)
qed

text \<open>C30: reported liquidity is real. As long as the recorded debt does not fall below zero, in every reachable state the pool
holds at least its supply minus its debt in tokens, so a withdrawal or loan that passes the liquidity check is
covered by the pool's balance; the supply is never negative and the indexes never fall below one.\<close>

theorem pool_liquidity_backed:
  assumes "sep41 T" "(pool_step T V)\<^sup>*\<^sup>* s0 s" "pool_constructor E admin tok (pool_empty w) = (Ok (), s0)" "0 \<le> tok_balance T w tok V"
  shows "total_supplied s - total_borrowed s \<le> tok_balance T (ip_world s) tok V \<and> 0 \<le> total_supplied s \<and>
    PRECISION \<le> borrow_index s \<and> PRECISION \<le> supply_index s \<and>
    (\<forall>x. 0 < x \<and> x \<le> liquid s \<longrightarrow> x \<le> tok_balance T (ip_world s) tok V)"
proof -
  have s0: "s0 = pool_fresh E admin tok w" using assms(3) by (simp add: pool_fresh_def)
  note r = pool_reach [OF assms(2) [unfolded s0] assms(1)]
  have "pool_owed s tok \<le> pool_held T V s tok"
    using pool.solvent [OF assms(2) [unfolded s0], of tok] assms(1,4) by (simp add: pool_fresh_inv pool_held_def)
  then have "total_supplied s - total_borrowed s \<le> tok_balance T (ip_world s) tok V" using r(2) by (simp add: pool_owed_def pool_held_def)
  then show ?thesis using r(1) liquid_le [of _ s] by (force simp: pool_inv_def)
qed

theorem pool_liquidity_backed_witness: "474001 \<le> ip_world pw_year 9 1"
proof -
  have "pool_constructor (pw_env 0) 2 9 (pool_empty pw_ledger) = (Ok (), pw_init)"
    by (simp add: pw_init_def pool_fresh_def pool_constructor_def)
  from pool_liquidity_backed [OF sep41_ledger_token pw_reach this] show ?thesis
    by (simp add: total_supplied_def total_borrowed_def pw_year_run ledger_token_def pw_ledger_def)
qed

section \<open>Where the code falls short\<close>

lemma settled_side_Ok:
  assumes "settled_side a i c = Ok v" "0 \<le> a" "c < i"
  shows "v = a + a * (i - c) div PRECISION"
proof -
  have "0 \<le> a * (i - c)" using assms by auto
  then show ?thesis using assms by (auto simp: settled_side_def ok_iff trunc_div_nonneg PRECISION_def split: if_splits)
qed

lemma simple_interest_exceeds:
  fixes z c p :: int
  assumes "0 < p" "0 < c" "c * p \<le> z * (c - p)"
  shows "z div c < z div p"
proof -
  define k where "k = z div c + 1"
  have "z div c * c \<le> z" using assms(2) by (simp add: minus_mod_eq_div_mult [symmetric])
  then have "k * c \<le> z + c" by (simp add: k_def algebra_simps)
  then have "k * c * p \<le> (z + c) * p" using assms(1) by (intro mult_right_mono) auto
  also have "\<dots> \<le> z * c" using assms(3) by (simp add: algebra_simps)
  finally have "(k * p) * c \<le> z * c" by (simp add: algebra_simps)
  then have "k * p \<le> z" using assms(2) by (simp add: mult_le_cancel_right)
  then have "k \<le> z div p" using assms(1) zdiv_mono1 [of "k * p" z p] by simp
  then show ?thesis by (simp add: k_def)
qed

text \<open>C31: positions accrue more than the pool. A position's interest is its amount times the growth of the index over 1.0, not
over the index at its checkpoint, while the totals grow by the ratio of the indexes. So a sole borrower whose
checkpoint is above 1.0 owes more than the whole recorded debt as soon as the difference reaches one unit, and
paying it back drives the recorded debt of the pool below zero.\<close>

theorem debtor_overcharged:
  assumes "PRECISION < borrow_index s" "PRECISION \<le> supply_index s" "0 \<le> total_supplied s" "0 < total_borrowed s"
    and "accrue_internal E s = (Ok (), s1)" "ip_user_info s a = Some i"
    and "ui_borrowed i = total_borrowed s" "ui_borrow_checkpoint i = borrow_index s"
    and "borrow_index s * PRECISION \<le> total_borrowed s * (borrow_index s1 - borrow_index s) * (borrow_index s - PRECISION)"
    and "settle_view s1 i = Ok j"
  shows "total_borrowed s1 < ui_borrowed j \<and>
    (\<forall>T x s'. pool_repay T E a x s = (Ok (), s') \<and> ui_borrowed j \<le> x \<longrightarrow> total_borrowed s' < 0)"
proof -
  have "pool_inv s" using assms(1-4) by (simp add: pool_inv_def)
  from accrue_internal_Ok(1) [OF assms(5) this] have acc: "borrow_index s \<le> borrow_index s1"
    "ip_user_info s1 = ip_user_info s" "total_borrowed s1 = total_borrowed s * borrow_index s1 div borrow_index s"
    by (auto simp: accrued_def)
  have p: "0 < PRECISION" by (simp add: PRECISION_def)
  let ?B = "total_borrowed s" and ?c = "borrow_index s" and ?i = "borrow_index s1"
  have c: "0 < ?c" using assms(1) p by linarith
  have grown: "?c < ?i" using assms(9) acc(1) c p by (cases "?c = ?i") (auto simp: mult_le_0_iff)
  have "?B * ?i div ?c = ?B + ?B * (?i - ?c) div ?c"
  proof -
    have "?B * ?i = ?B * ?c + ?B * (?i - ?c)" by (simp add: algebra_simps)
    then show ?thesis using c by simp
  qed
  moreover have "ui_borrowed j = ?B + ?B * (?i - ?c) div PRECISION"
    using assms(4,7,8,10) grown settled_side_Ok [of ?B ?i ?c "ui_borrowed j"] by (auto simp: settle_view_def ok_iff)
  moreover have "?B * (?i - ?c) div ?c < ?B * (?i - ?c) div PRECISION" by (rule simple_interest_exceeds [OF p c assms(9)])
  ultimately have owes: "total_borrowed s1 < ui_borrowed j" using acc(3) by simp
  have "total_borrowed s' < 0" if "pool_repay T E a x s = (Ok (), s')" "ui_borrowed j \<le> x" for T x s'
  proof -
    have "load_user s1 a = i" using assms(6) acc(2) by (simp add: load_user_def)
    then show ?thesis using pool_repay_Ok [OF that(1)] assms(5,10) that(2) owes by (auto simp: total_borrowed_def min_absorb2)
  qed
  then show ?thesis using owes by blast
qed

lemma pw_accrue_second:
  "accrue_internal (pw_env 63072000) pw_year = (Ok (), pw_year\<lparr>ip_borrow_index := Some 2486415999957933052, ip_supply_index := Some 1668828375707905486,
     ip_total_borrowed := Some 1243206, ip_total_supplied := Some 1668828, ip_last_accrual := Some 63072000\<rparr>)"
  by (simp add: accrue_internal_def accrue_totals_def total_supplied_def total_borrowed_def borrow_index_def supply_index_def pw_year_run pw_rates
      accrue_interest_def accrue_supply_def mul_div_def PRECISION_def i128_op_def i128_checked_def in_i128_def trunc_div_nonneg Let_def
      abind_def pw_env_def saturating_sub_def)

lemma pw_repaid_run: "pool_repay ledger_token (pw_env 63072000) 7 2000000 pw_year = (Ok (), pw_repaid)"
  unfolding pw_repaid_def
  by (simp add: pw_next_def pool_repay_def pw_accrue_second abind_def aseq_def ok_or_def unwrap_def unwrap_or_def require_auth_def i128_op_def in_i128_def
      i128_checked_def pool_token_def pool_publish_def pool_transfer_def settle_user_def settle_view_def settled_side_def load_user_def save_user_def
      total_supplied_def total_borrowed_def borrow_index_def supply_index_def pw_year_run pw_user_def PRECISION_def trunc_div_nonneg ledger_token_def
      ledger_transfer_def Let_def) (simp add: pw_env_def)

theorem debtor_overcharged_witness: "total_borrowed pw_repaid < 0"
proof -
  let ?i = "pw_user 1234000 759999 1233999999962128000 1519999999982416000"
  let ?j = "pw_user 1770578 1494474 1668828375707905486 2486415999957933052"
  let ?s1 = "pw_year\<lparr>ip_borrow_index := Some 2486415999957933052, ip_supply_index := Some 1668828375707905486,
     ip_total_borrowed := Some 1243206, ip_total_supplied := Some 1668828, ip_last_accrual := Some 63072000\<rparr>"
  have "settle_view ?s1 ?i = Ok ?j"
    by (simp add: settle_view_def settled_side_def borrow_index_def supply_index_def pw_user_def i128_op_def i128_checked_def in_i128_def
        PRECISION_def trunc_div_nonneg)
  then have "\<forall>T x s'. pool_repay T (pw_env 63072000) 7 x pw_year = (Ok (), s') \<and> ui_borrowed ?j \<le> x \<longrightarrow> total_borrowed s' < 0"
    using debtor_overcharged [of pw_year "pw_env 63072000" ?s1 7 ?i ?j] pw_accrue_second
    by (simp add: borrow_index_def supply_index_def total_supplied_def total_borrowed_def pw_year_run PRECISION_def pw_user_def)
  moreover have "ui_borrowed ?j \<le> 2000000" by (simp add: pw_user_def)
  ultimately show ?thesis using pw_repaid_run by blast
qed

end
