(* ===== verification/Multisig_Account.thy ===== *)
theory Multisig_Account
  imports Common Invocation Escrow
begin

text \<open>
  The threshold account (\<open>multisig-account/src\<close>: \<open>lib.rs\<close>, \<open>weights.rs\<close>, \<open>limits.rs\<close>, \<open>signers.rs\<close>, \<open>admin.rs\<close>, \<open>timelock.rs\<close>,
  \<open>ttl.rs\<close>, \<open>crypto.rs\<close>). Contracts that require the authorization of such an account make the host call \<open>__check_auth\<close> with
  the delegated signers and the calls to be authorized. The rest of the crate keeps the signers, their weights,
  daily allowances, the pause and a queue of delayed transactions.
\<close>

section \<open>Data\<close>

datatype (plugins only: code size) account_error = UnknownSigner | InsufficientSignatures | AccountUnauthorized | AccountTimelockNotExpired
  | ProposalNotFound | AlreadyVoted | NonCanonicalSignature | DailyLimitExceeded | InvalidLimit | AccountPaused
  | InvalidWeight | TotalWeightBelowThreshold | SignerAlreadyRegistered | StaleSignature

text \<open>Host values as far as the account inspects them, and the contexts it is asked to authorize.\<close>

datatype host_val = VAddress address | VI128 i128 | VOther bytes

record contract_context =
  cc_contract :: address
  cc_fn_name :: string
  cc_args :: "host_val list"

datatype auth_context = ContractCall contract_context | CreateContract bytes

record spending_limit =
  sl_window_start :: u64
  sl_spent :: i128

record queued_transaction =
  qt_call_hash :: bytes
  qt_execution_ledger :: u32
  qt_approval_count :: u32
  qt_required_approvals :: u32
  qt_guardian :: address
  qt_approvers :: "address list"

record account_call =
  ac_contract :: address
  ac_function :: string
  ac_args :: "host_val list"

datatype (plugins only: code size) account_event =
    SignerWeightSet address u32 u32 u32
  | SignerAdded address u32 u32
  | SignerRemoved address u32
  | SignersRotated u32 u32 "address list" "address list"
  | DailyLimitSet address i128
  | AccountPausedEvent u32 address
  | AccountUnpausedEvent u32 address
  | GuardianSetEvent "address option" "address option"

record 'w account =
  ma_threshold :: "u32 option"
  ma_signer :: "address \<Rightarrow> bool"
  ma_signer_weight :: "address \<rightharpoonup> u32"
  ma_signer_list :: "address list option"
  ma_approval :: "u64 \<times> address \<rightharpoonup> u64"
  ma_queue_count :: "u64 option"
  ma_queued :: "u64 \<rightharpoonup> queued_transaction"
  ma_daily_limit :: "address \<rightharpoonup> i128"
  ma_spending :: "address \<times> address \<rightharpoonup> spending_limit"
  ma_paused :: "bool option"
  ma_pause_guardian :: "address option"
  ma_events :: "account_event list"
  ma_world :: 'w

definition account_empty :: "'w \<Rightarrow> 'w account" where
  "account_empty w = \<lparr>ma_threshold = None, ma_signer = (\<lambda>_. False), ma_signer_weight = Map.empty, ma_signer_list = None,
     ma_approval = Map.empty, ma_queue_count = None, ma_queued = Map.empty, ma_daily_limit = Map.empty, ma_spending = Map.empty,
     ma_paused = None, ma_pause_guardian = None, ma_events = [], ma_world = w\<rparr>"

type_synonym ('w, 'a) account_act = "(account_error, 'w account, 'a) action"

definition account_publish :: "account_event \<Rightarrow> ('w, unit) account_act" where
  "account_publish ev = amodify (\<lambda>s. s\<lparr>ma_events := ma_events s @ [ev]\<rparr>)"

definition self_auth :: "env \<Rightarrow> ('w, unit) account_act" where
  "self_auth E = alift (require_auth E (current_contract_address E))"

section \<open>Weights\<close>

definition DEFAULT_SIGNER_WEIGHT :: u32 where "DEFAULT_SIGNER_WEIGHT = 1"

definition signer_list :: "'w account \<Rightarrow> address list" where
  "signer_list s = unwrap_or (ma_signer_list s) []"

definition store_signer_list :: "address list \<Rightarrow> ('w, unit) account_act" where
  "store_signer_list l = amodify (\<lambda>s. s\<lparr>ma_signer_list := Some l\<rparr>)"

definition signer_weight :: "'w account \<Rightarrow> address \<Rightarrow> u32" where
  "signer_weight s a = unwrap_or (ma_signer_weight s a) DEFAULT_SIGNER_WEIGHT"

definition store_signer_weight :: "address \<Rightarrow> u32 \<Rightarrow> ('w, unit) account_act" where
  "store_signer_weight a w = amodify (\<lambda>s. s\<lparr>ma_signer_weight := (ma_signer_weight s)(a \<mapsto> w)\<rparr>)"

definition clear_signer_weight :: "address \<Rightarrow> ('w, unit) account_act" where
  "clear_signer_weight a = amodify (\<lambda>s. s\<lparr>ma_signer_weight := (ma_signer_weight s)(a := None)\<rparr>)"

definition total_weight :: "'w account \<Rightarrow> u32" where
  "total_weight s = fold (\<lambda>a t. u32_saturating_add t (signer_weight s a)) (signer_list s) 0"

fun tally_from :: "'w account \<Rightarrow> address list \<Rightarrow> u32 \<Rightarrow> (account_error, u32) result" where
  "tally_from s [] t = Ok t"
| "tally_from s (a # as) t = (if \<not> ma_signer s a then Err UnknownSigner
     else tally_from s as (u32_saturating_add t (signer_weight s a)))"

definition tally_weight :: "'w account \<Rightarrow> address list \<Rightarrow> (account_error, u32) result" where
  "tally_weight s delegates = tally_from s delegates 0"

definition account_threshold :: "'w account \<Rightarrow> u32" where
  "account_threshold s = unwrap_or (ma_threshold s) 1"

definition projected_total :: "u32 \<Rightarrow> u32 \<Rightarrow> u32 \<Rightarrow> (account_error, u32) result" where
  "projected_total t previous new_weight =
     (if previous \<le> t then ok_or (u32_checked (t - previous + new_weight)) InvalidWeight else Err InvalidWeight)"

definition mark_signer :: "address \<Rightarrow> bool \<Rightarrow> ('w, unit) account_act" where
  "mark_signer a b = amodify (\<lambda>s. s\<lparr>ma_signer := (ma_signer s)(a := b)\<rparr>)"

definition set_signer_weight :: "env \<Rightarrow> address \<Rightarrow> u32 \<Rightarrow> ('w, unit) account_act" where
  "set_signer_weight E signer weight =
     aseq (self_auth E)
     (aseq (arefuse (weight = 0) InvalidWeight)
     (abind (aread (\<lambda>s. s)) (\<lambda>s.
      aseq (arefuse (\<not> ma_signer s signer) UnknownSigner)
      (let previous = signer_weight s signer in
       abind (alift (projected_total (total_weight s) previous weight)) (\<lambda>next_total.
       aseq (arefuse (next_total < account_threshold s) TotalWeightBelowThreshold)
       (aseq (store_signer_weight signer weight)
       (account_publish (SignerWeightSet signer previous weight next_total))))))))"

definition add_signer :: "env \<Rightarrow> address \<Rightarrow> u32 \<Rightarrow> ('w, unit) account_act" where
  "add_signer E signer weight =
     aseq (self_auth E)
     (aseq (arefuse (weight = 0) InvalidWeight)
     (abind (aread (\<lambda>s. s)) (\<lambda>s.
      aseq (arefuse (ma_signer s signer) SignerAlreadyRegistered)
      (aseq (mark_signer signer True)
      (aseq (store_signer_weight signer weight)
      (abind (aread signer_list) (\<lambda>l.
       aseq (store_signer_list (l @ [signer]))
       (abind (aread total_weight) (\<lambda>t.
       account_publish (SignerAdded signer weight t))))))))))"

definition remove_signer :: "env \<Rightarrow> address \<Rightarrow> ('w, unit) account_act" where
  "remove_signer E signer =
     aseq (self_auth E)
     (abind (aread (\<lambda>s. s)) (\<lambda>s.
      aseq (arefuse (\<not> ma_signer s signer) UnknownSigner)
      (let removed = signer_weight s signer; t = total_weight s in
       aseq (arefuse (t < removed) InvalidWeight)
       (aseq (arefuse (t - removed < account_threshold s) TotalWeightBelowThreshold)
       (aseq (mark_signer signer False)
       (aseq (clear_signer_weight signer)
       (abind (aread signer_list) (\<lambda>l.
        aseq (store_signer_list (filter (\<lambda>a. a \<noteq> signer) l))
        (account_publish (SignerRemoved signer (t - removed)))))))))))"

section \<open>Construction and rotation\<close>

text \<open>The loop of \<open>__constructor\<close>: registers each new address once and collects the list.\<close>

primrec register_signers :: "address list \<Rightarrow> address list \<Rightarrow> ('w, address list) account_act" where
  "register_signers [] unique = aret unique"
| "register_signers (a # as) unique =
     (if a \<in> set unique then register_signers as unique
      else aseq (mark_signer a True)
        (aseq (store_signer_weight a DEFAULT_SIGNER_WEIGHT)
        (register_signers as (unique @ [a]))))"

definition account_constructor :: "address list \<Rightarrow> u32 \<Rightarrow> ('w, unit) account_act" where
  "account_constructor signers threshold =
     abind (register_signers signers []) (\<lambda>unique.
     aseq (store_signer_list unique)
     (let effective = (if threshold = 0 then length unique else threshold) in
      abind (aread total_weight) (\<lambda>t.
      aseq (arefuse (effective = 0 \<or> effective > t) TotalWeightBelowThreshold)
      (amodify (\<lambda>s. s\<lparr>ma_threshold := Some effective\<rparr>)))))"

text \<open>The loops of the rotation: which signers remain and what they weigh.\<close>

fun drop_signers :: "'w account \<Rightarrow> address list \<Rightarrow> address list \<Rightarrow> u32 \<Rightarrow> (account_error, address list \<times> u32) result" where
  "drop_signers s [] remaining t = Ok (remaining, t)"
| "drop_signers s (a # as) remaining t =
     (if a \<notin> set remaining then Err UnknownSigner
      else if t < signer_weight s a then Err TotalWeightBelowThreshold
      else drop_signers s as (filter (\<lambda>x. x \<noteq> a) remaining) (t - signer_weight s a))"

fun append_signers :: "address list \<Rightarrow> address list \<Rightarrow> u32 \<Rightarrow> (account_error, address list \<times> u32) result" where
  "append_signers [] remaining t = Ok (remaining, t)"
| "append_signers (a # as) remaining t =
     (if a \<in> set remaining then Err SignerAlreadyRegistered
      else obind (ok_or (u32_checked (t + DEFAULT_SIGNER_WEIGHT)) TotalWeightBelowThreshold) (\<lambda>t'.
        append_signers as (remaining @ [a]) t'))"

definition rotate_signers_and_threshold ::
  "(address \<Rightarrow> bool) \<Rightarrow> env \<Rightarrow> address list \<Rightarrow> address list \<Rightarrow> u32 \<Rightarrow> ('w, unit) account_act" where
  "rotate_signers_and_threshold is_zero_address E to_add to_remove new_threshold =
     aseq (self_auth E)
     (aseq (arefuse (new_threshold < 1) InsufficientSignatures)
     (aseq (arefuse (\<not> distinct to_add) InsufficientSignatures)
     (aseq (arefuse (\<exists>a \<in> set to_remove. a \<in> set to_add) InsufficientSignatures)
     (aseq (arefuse (\<exists>a \<in> set (to_add @ to_remove). is_zero_address a) InsufficientSignatures)
     (abind (aread (\<lambda>s. s)) (\<lambda>s.
      abind (alift (drop_signers s to_remove (signer_list s) (total_weight s))) (\<lambda>(remaining, t).
      abind (alift (append_signers to_add remaining t)) (\<lambda>(remaining', t').
      aseq (arefuse (t' < new_threshold) TotalWeightBelowThreshold)
      (aseq (afor (\<lambda>a. aseq (mark_signer a False) (clear_signer_weight a)) to_remove)
      (aseq (afor (\<lambda>a. aseq (mark_signer a True) (store_signer_weight a DEFAULT_SIGNER_WEIGHT)) to_add)
      (aseq (store_signer_list remaining')
      (aseq (amodify (\<lambda>s. s\<lparr>ma_threshold := Some new_threshold\<rparr>))
      (account_publish (SignersRotated (account_threshold s) new_threshold to_add to_remove))))))))))))))"

section \<open>Pause\<close>

definition ALLOWED_WHILE_PAUSED :: "string list" where
  "ALLOWED_WHILE_PAUSED = [''pause'', ''unpause'', ''set_guardian'', ''rotate_signers_and_threshold'']"

definition account_is_paused :: "'w account \<Rightarrow> bool" where
  "account_is_paused s = unwrap_or (ma_paused s) False"

definition require_not_paused :: "('w, unit) account_act" where
  "require_not_paused = abind (aread account_is_paused) (\<lambda>p. arefuse p AccountPaused)"

definition get_guardian :: "'w account \<Rightarrow> address option" where
  "get_guardian s = ma_pause_guardian s"

definition set_guardian :: "env \<Rightarrow> address option \<Rightarrow> ('w, unit) account_act" where
  "set_guardian E guardian = aseq (self_auth E) (abind (aread get_guardian) (\<lambda>previous.
     aseq (amodify (\<lambda>s. s\<lparr>ma_pause_guardian := guardian\<rparr>))
     (account_publish (GuardianSetEvent previous guardian))))"

definition require_pause_authority :: "env \<Rightarrow> address \<Rightarrow> ('w, unit) account_act" where
  "require_pause_authority E caller = abind (aread get_guardian) (\<lambda>g.
     aseq (arefuse (caller \<noteq> current_contract_address E \<and> g \<noteq> Some caller) AccountUnauthorized)
     (alift (require_auth E caller)))"

definition account_pause :: "env \<Rightarrow> address \<Rightarrow> ('w, unit) account_act" where
  "account_pause E caller = aseq (require_pause_authority E caller)
     (abind (aread account_is_paused) (\<lambda>p.
      aseq (arefuse p AccountPaused)
      (aseq (amodify (\<lambda>s. s\<lparr>ma_paused := Some True\<rparr>))
      (account_publish (AccountPausedEvent (sequence E) caller)))))"

definition account_unpause :: "env \<Rightarrow> address \<Rightarrow> ('w, unit) account_act" where
  "account_unpause E caller = aseq (require_pause_authority E caller)
     (aseq (amodify (\<lambda>s. s\<lparr>ma_paused := Some False\<rparr>))
     (account_publish (AccountUnpausedEvent (sequence E) caller)))"

fun is_allowed_while_paused :: "env \<Rightarrow> auth_context \<Rightarrow> bool" where
  "is_allowed_while_paused E (ContractCall c) \<longleftrightarrow>
     cc_contract c = current_contract_address E \<and> cc_fn_name c \<in> set ALLOWED_WHILE_PAUSED"
| "is_allowed_while_paused E (CreateContract h) \<longleftrightarrow> False"

section \<open>Daily limits\<close>

definition WINDOW_SECONDS :: u64 where "WINDOW_SECONDS = 86400"

definition window_start :: "env \<Rightarrow> u64" where
  "window_start E = timestamp E - timestamp E mod WINDOW_SECONDS"

definition set_daily_limit :: "env \<Rightarrow> address \<Rightarrow> i128 \<Rightarrow> ('w, unit) account_act" where
  "set_daily_limit E tok limit =
     aseq (self_auth E)
     (aseq (arefuse (limit < 0) InvalidLimit)
     (aseq (amodify (\<lambda>s. s\<lparr>ma_daily_limit := (ma_daily_limit s)(tok := if limit = 0 then None else Some limit)\<rparr>))
     (account_publish (DailyLimitSet tok limit))))"

definition daily_limit :: "'w account \<Rightarrow> address \<Rightarrow> i128" where
  "daily_limit s tok = unwrap_or (ma_daily_limit s tok) 0"

definition spent_today :: "env \<Rightarrow> 'w account \<Rightarrow> address \<Rightarrow> address \<Rightarrow> i128" where
  "spent_today E s signer tok = (case ma_spending s (signer, tok) of
     Some r \<Rightarrow> if sl_window_start r = window_start E then sl_spent r else 0 | None \<Rightarrow> 0)"

definition as_own_transfer :: "env \<Rightarrow> contract_context \<Rightarrow> (address \<times> i128) option" where
  "as_own_transfer E c =
     (if cc_fn_name c \<noteq> ''transfer'' then None
      else case cc_args c of
        [VAddress from, _, VI128 amount] \<Rightarrow>
          if from \<noteq> current_contract_address E \<or> amount < 0 then None else Some (cc_contract c, amount)
      | _ \<Rightarrow> None)"

text \<open>The totals per token; the host's map iterates its keys in ascending order.\<close>

fun sum_transfers :: "env \<Rightarrow> auth_context list \<Rightarrow> (address \<rightharpoonup> i128) \<Rightarrow> (account_error, address \<rightharpoonup> i128) result" where
  "sum_transfers E [] totals = Ok totals"
| "sum_transfers E (CreateContract h # cs) totals = Err InsufficientSignatures"
| "sum_transfers E (ContractCall c # cs) totals =
     (case as_own_transfer E c of
        None \<Rightarrow> Err InsufficientSignatures
      | Some (tok, amount) \<Rightarrow> obind (ok_or (i128_checked (unwrap_or (totals tok) 0 + amount)) DailyLimitExceeded) (\<lambda>v.
          sum_transfers E cs (totals(tok \<mapsto> v))))"

definition context_tokens :: "env \<Rightarrow> auth_context list \<Rightarrow> address list" where
  "context_tokens E cs = sort (remdups (concat (map (\<lambda>x. case x of ContractCall c \<Rightarrow>
     (case as_own_transfer E c of Some (tok, _) \<Rightarrow> [tok] | None \<Rightarrow> []) | CreateContract _ \<Rightarrow> []) cs)))"

definition charge_signer :: "env \<Rightarrow> address \<Rightarrow> i128 \<Rightarrow> i128 \<Rightarrow> address \<Rightarrow> ('w, unit) account_act" where
  "charge_signer E tok amount limit signer =
     abind (aread (\<lambda>s. spent_today E s signer tok)) (\<lambda>spent.
     abind (alift (ok_or (i128_checked (spent + amount)) DailyLimitExceeded)) (\<lambda>next_spent.
     aseq (arefuse (next_spent > limit) DailyLimitExceeded)
     (amodify (\<lambda>s. s\<lparr>ma_spending := (ma_spending s)((signer, tok) \<mapsto> \<lparr>sl_window_start = window_start E, sl_spent = next_spent\<rparr>)\<rparr>))))"

definition charge_token :: "env \<Rightarrow> address list \<Rightarrow> (address \<rightharpoonup> i128) \<Rightarrow> address \<Rightarrow> ('w, unit) account_act" where
  "charge_token E delegates totals tok =
     abind (aread (\<lambda>s. daily_limit s tok)) (\<lambda>limit.
     aseq (arefuse (limit = 0) InsufficientSignatures)
     (afor (charge_signer E tok (unwrap_or (totals tok) 0) limit) delegates))"

definition authorize_within_limits :: "env \<Rightarrow> address list \<Rightarrow> auth_context list \<Rightarrow> ('w, unit) account_act" where
  "authorize_within_limits E delegates auth_contexts =
     aseq (arefuse (delegates = [] \<or> auth_contexts = []) InsufficientSignatures)
     (abind (alift (sum_transfers E auth_contexts Map.empty)) (\<lambda>totals.
     afor (charge_token E delegates totals) (context_tokens E auth_contexts)))"

definition check_auth :: "env \<Rightarrow> address list \<Rightarrow> auth_context list \<Rightarrow> ('w, unit) account_act" where
  "check_auth E delegates auth_contexts =
     abind (aread (\<lambda>s. s)) (\<lambda>s.
     aseq (arefuse (account_is_paused s \<and> \<not> list_all (is_allowed_while_paused E) auth_contexts) AccountPaused)
     (abind (alift (ok_or (ma_threshold s) InsufficientSignatures)) (\<lambda>threshold.
      abind (alift (tally_weight s delegates)) (\<lambda>approving_weight.
      if approving_weight < threshold then authorize_within_limits E delegates auth_contexts else aret ()))))"

section \<open>Batches\<close>

definition run_call :: "('w \<Rightarrow> address \<Rightarrow> string \<Rightarrow> host_val list \<Rightarrow> (host_val \<times> 'w) option) \<Rightarrow> account_call \<Rightarrow> ('w, host_val) account_act" where
  "run_call host_call c = abind (aread ma_world) (\<lambda>w.
     abind (alift (unwrap (host_call w (ac_contract c) (ac_function c) (ac_args c)))) (\<lambda>(v, w').
     aseq (amodify (\<lambda>s. s\<lparr>ma_world := w'\<rparr>)) (aret v)))"

definition execute_batch ::
  "('w \<Rightarrow> address \<Rightarrow> string \<Rightarrow> host_val list \<Rightarrow> (host_val \<times> 'w) option) \<Rightarrow> env \<Rightarrow> account_call list \<Rightarrow> ('w, host_val list) account_act" where
  "execute_batch host_call E calls = aseq (self_auth E) (amap (run_call host_call) calls)"

end
