(* ===== verification/Multisig_Queue.thy ===== *)
theory Multisig_Queue
  imports Multisig_Account
begin

text \<open>
  The queue of delayed transactions with expiring approvals (\<open>timelock.rs\<close>, \<open>ttl.rs\<close>) and the canonical form of
  signatures (\<open>crypto.rs\<close>).
\<close>

section \<open>Approvals\<close>

definition APPROVAL_TTL_SECONDS :: u64 where "APPROVAL_TTL_SECONDS = 14 * 24 * 60 * 60"

definition is_stale :: "env \<Rightarrow> u64 \<Rightarrow> bool" where
  "is_stale E created_at \<longleftrightarrow> saturating_sub (timestamp E) created_at \<ge> APPROVAL_TTL_SECONDS"

definition record_approval :: "env \<Rightarrow> u64 \<Rightarrow> address \<Rightarrow> ('w, unit) account_act" where
  "record_approval E queue_id signer = amodify (\<lambda>s. s\<lparr>ma_approval := (ma_approval s)((queue_id, signer) \<mapsto> timestamp E)\<rparr>)"

definition has_fresh_approval :: "env \<Rightarrow> 'w account \<Rightarrow> u64 \<Rightarrow> address \<Rightarrow> bool" where
  "has_fresh_approval E s queue_id signer = (case ma_approval s (queue_id, signer) of
     Some created_at \<Rightarrow> \<not> is_stale E created_at | None \<Rightarrow> False)"

definition clear_approvals :: "u64 \<Rightarrow> address list \<Rightarrow> ('w, unit) account_act" where
  "clear_approvals queue_id approvers = afor (\<lambda>a. amodify (\<lambda>s. s\<lparr>ma_approval := (ma_approval s)((queue_id, a) := None)\<rparr>)) approvers"

text \<open>The loop of \<open>prune_stale_approvals\<close> over the approvers: which are fresh, and how many were removed.\<close>

primrec prune_approvers :: "env \<Rightarrow> u64 \<Rightarrow> address list \<Rightarrow> address list \<Rightarrow> u32 \<Rightarrow> ('w, address list \<times> u32) account_act" where
  "prune_approvers E queue_id [] fresh removed = aret (fresh, removed)"
| "prune_approvers E queue_id (a # as) fresh removed =
     abind (aread (\<lambda>s. has_fresh_approval E s queue_id a)) (\<lambda>f.
     if f then prune_approvers E queue_id as (fresh @ [a]) removed
     else aseq (amodify (\<lambda>s. s\<lparr>ma_approval := (ma_approval s)((queue_id, a) := None)\<rparr>))
       (prune_approvers E queue_id as fresh (u32_saturating_add removed 1)))"

definition prune_stale_approvals :: "env \<Rightarrow> u64 \<Rightarrow> queued_transaction \<Rightarrow> ('w, queued_transaction \<times> u32) account_act" where
  "prune_stale_approvals E queue_id queued =
     abind (prune_approvers E queue_id (qt_approvers queued) [] 0) (\<lambda>(fresh, removed).
     aret (if removed > 0 then queued\<lparr>qt_approval_count := length fresh, qt_approvers := fresh\<rparr> else queued, removed))"

section \<open>The queue\<close>

definition DEFAULT_TIMELOCK_DELAY :: u32 where "DEFAULT_TIMELOCK_DELAY = 345600"

definition store_queued :: "u64 \<Rightarrow> queued_transaction \<Rightarrow> ('w, unit) account_act" where
  "store_queued queue_id queued = amodify (\<lambda>s. s\<lparr>ma_queued := (ma_queued s)(queue_id \<mapsto> queued)\<rparr>)"

definition get_queued_transaction :: "u64 \<Rightarrow> ('w, queued_transaction) account_act" where
  "get_queued_transaction queue_id = abind (aread (\<lambda>s. ma_queued s queue_id)) (\<lambda>q. alift (ok_or q ProposalNotFound))"

definition queue_transaction :: "env \<Rightarrow> bytes \<Rightarrow> u32 \<Rightarrow> u32 \<Rightarrow> address \<Rightarrow> ('w, u64) account_act" where
  "queue_transaction E call_hash execution_delay required_approvals guardian =
     abind (aread (\<lambda>s. unwrap_or (ma_queue_count s) 0)) (\<lambda>n.
     abind (alift (u64_add n 1)) (\<lambda>queue_id.
     aseq (store_queued queue_id \<lparr>qt_call_hash = call_hash, qt_execution_ledger = u32_saturating_add (sequence E) execution_delay,
        qt_approval_count = 0, qt_required_approvals = required_approvals, qt_guardian = guardian, qt_approvers = []\<rparr>)
     (aseq (amodify (\<lambda>s. s\<lparr>ma_queue_count := Some queue_id\<rparr>))
     (aret queue_id))))"

definition remove_queued :: "u64 \<Rightarrow> queued_transaction \<Rightarrow> ('w, unit) account_act" where
  "remove_queued queue_id queued = aseq (clear_approvals queue_id (qt_approvers queued))
     (amodify (\<lambda>s. s\<lparr>ma_queued := (ma_queued s)(queue_id := None)\<rparr>))"

definition pruned_queued :: "env \<Rightarrow> u64 \<Rightarrow> queued_transaction \<Rightarrow> ('w, queued_transaction \<times> u32) account_act" where
  "pruned_queued E queue_id queued0 =
     abind (prune_stale_approvals E queue_id queued0) (\<lambda>(queued, pruned).
     aseq (if pruned > 0 then store_queued queue_id queued else aret ())
     (aret (queued, pruned)))"

definition execute_queued_transaction :: "env \<Rightarrow> u64 \<Rightarrow> ('w, unit) account_act" where
  "execute_queued_transaction E queue_id =
     aseq require_not_paused
     (abind (get_queued_transaction queue_id) (\<lambda>queued0.
      aseq (arefuse (sequence E < qt_execution_ledger queued0) AccountTimelockNotExpired)
      (abind (pruned_queued E queue_id queued0) (\<lambda>(queued, pruned).
       aseq (arefuse (qt_approval_count queued < qt_required_approvals queued)
               (if pruned > 0 then StaleSignature else InsufficientSignatures))
       (remove_queued queue_id queued)))))"

definition cancel_queued_transaction :: "env \<Rightarrow> u64 \<Rightarrow> address \<Rightarrow> ('w, unit) account_act" where
  "cancel_queued_transaction E queue_id caller =
     abind (get_queued_transaction queue_id) (\<lambda>queued.
     aseq (arefuse (sequence E \<ge> qt_execution_ledger queued) AccountTimelockNotExpired)
     (abind (aread (\<lambda>s. ma_signer s caller)) (\<lambda>is_signer.
      aseq (arefuse (caller \<noteq> qt_guardian queued \<and> \<not> is_signer) AccountUnauthorized)
      (remove_queued queue_id queued))))"

definition approve_queued_transaction :: "env \<Rightarrow> u64 \<Rightarrow> address \<Rightarrow> ('w, unit) account_act" where
  "approve_queued_transaction E queue_id signer =
     abind (get_queued_transaction queue_id) (\<lambda>queued0.
     abind (pruned_queued E queue_id queued0) (\<lambda>(queued, pruned).
     aseq (arefuse (signer \<in> set (qt_approvers queued)) AlreadyVoted)
     (aseq (record_approval E queue_id signer)
     (let approvers = qt_approvers queued @ [signer] in
      store_queued queue_id (queued\<lparr>qt_approvers := approvers, qt_approval_count := length approvers\<rparr>)))))"

section \<open>Canonical signatures\<close>

definition ED25519_ORDER_LE :: bytes where
  "ED25519_ORDER_LE = [0xed, 0xd3, 0xf5, 0x5c, 0x1a, 0x63, 0x12, 0x58, 0xd6, 0x9c, 0xf7, 0xa2, 0xde, 0xf9, 0xde, 0x14,
     0, 0, 0, 0, 0, 0, 0, 0, 0, 0, 0, 0, 0, 0, 0, 0x10]"

text \<open>The loop over the bytes from the most significant one, \<open>n\<close> of them left.\<close>

fun below_order :: "bytes \<Rightarrow> nat \<Rightarrow> bool" where
  "below_order s 0 \<longleftrightarrow> False"
| "below_order s (Suc i) \<longleftrightarrow> (if s ! i \<noteq> ED25519_ORDER_LE ! i then s ! i < ED25519_ORDER_LE ! i else below_order s i)"

definition is_canonical_scalar :: "bytes \<Rightarrow> bool" where
  "is_canonical_scalar s = below_order s 32"

definition ensure_canonical_signature :: "bytes \<Rightarrow> (account_error, unit) result" where
  "ensure_canonical_signature signature = (if is_canonical_scalar (drop 32 signature) then Ok () else Err NonCanonicalSignature)"

definition verify_ed25519_canonical :: "(bytes \<Rightarrow> bytes \<Rightarrow> bytes \<Rightarrow> bool) \<Rightarrow> bytes \<Rightarrow> bytes \<Rightarrow> bytes \<Rightarrow> (account_error, unit) result" where
  "verify_ed25519_canonical host_verify public_key message signature =
     obind (ensure_canonical_signature signature) (\<lambda>_. if host_verify public_key message signature then Ok () else Trap)"

end
