(* ===== verification/Multisig_Machine.thy ===== *)
theory Multisig_Machine
  imports Multisig_Queue
begin

text \<open>
  The account as a machine. The invariant ties the signer markers to the signer list and keeps the aggregate weight at or
  above the threshold, so that the registered signers together can always authorize.
\<close>

section \<open>Weights\<close>

definition weight_sum :: "'w account \<Rightarrow> address list \<Rightarrow> nat" where
  "weight_sum s as = sum_list (map (signer_weight s) as)"

abbreviation (input) u32_max :: nat where "u32_max \<equiv> 2 ^ 32 - 1"

lemma fold_saturating: "t \<le> u32_max \<Longrightarrow> fold (\<lambda>a t. u32_saturating_add t (f a)) as t = min (t + sum_list (map f as)) u32_max"
  by (induction as arbitrary: t) (auto simp: u32_saturating_add_def min_def)

lemma total_weight_eq: "total_weight s = min (weight_sum s (signer_list s)) u32_max"
  using fold_saturating [of 0 "signer_weight s" "signer_list s"] by (simp add: total_weight_def weight_sum_def)

lemma tally_from_Ok_iff:
  "t \<le> u32_max \<Longrightarrow> tally_from s as t = Ok w \<longleftrightarrow> list_all (ma_signer s) as \<and> w = min (t + weight_sum s as) u32_max"
proof (induction as arbitrary: t)
  case (Cons a as)
  have "u32_saturating_add t (signer_weight s a) \<le> u32_max" by (simp add: u32_saturating_add_def)
  from Cons.IH [OF this] show ?case by (auto simp: weight_sum_def u32_saturating_add_def min_def)
qed (auto simp: weight_sum_def)

lemma tally_weight_Ok_iff:
  "tally_weight s as = Ok w \<longleftrightarrow> list_all (ma_signer s) as \<and> w = min (weight_sum s as) u32_max"
  unfolding tally_weight_def using tally_from_Ok_iff [of 0 s as w] by simp

lemma sum_update:
  fixes f :: "address \<Rightarrow> nat"
  assumes "distinct as" "a \<in> set as"
  shows "sum_list (map (f(a := v)) as) + f a = sum_list (map f as) + v"
proof -
  have same: "sum_list (map (\<lambda>b. if b = a then v else f b) bs) = sum_list (map f bs)" if "a \<notin> set bs" for bs
    using that by (induction bs) auto
  show ?thesis using assms unfolding fun_upd_def
  proof (induction as)
    case (Cons b as)
    then show ?case using same [of as] by (cases "b = a") auto
  qed simp
qed

lemma sum_remove:
  fixes f :: "address \<Rightarrow> nat"
  assumes "distinct as" "a \<in> set as"
  shows "sum_list (map f (filter (\<lambda>x. x \<noteq> a) as)) + f a = sum_list (map f as)"
  using assms
proof (induction as)
  case (Cons b as)
  have "filter (\<lambda>x. x \<noteq> a) as = as" if "a \<notin> set as" using that by (induction as) auto
  then show ?case using Cons by (cases "b = a") auto
qed simp

section \<open>The machine\<close>

datatype multisig_call =
    SetSignerWeight address u32
  | AddSigner address u32
  | RemoveSigner address
  | RotateSigners "address list" "address list" u32
  | ExecuteBatch "account_call list"
  | SetDailyLimit address i128
  | PauseAccount address
  | UnpauseAccount address
  | SetGuardian "address option"
  | CheckAuth "address list" "auth_context list"
  | QueueTransaction bytes u32 u32 address
  | ApproveQueued u64 address
  | ExecuteQueued u64
  | CancelQueued u64 address

primrec multisig_run :: "('w \<Rightarrow> address \<Rightarrow> string \<Rightarrow> host_val list \<Rightarrow> (host_val \<times> 'w) option) \<Rightarrow> (address \<Rightarrow> bool) \<Rightarrow> env \<Rightarrow>
    multisig_call \<Rightarrow> ('w, unit) account_act" where
  "multisig_run H Z E (SetSignerWeight a w) = set_signer_weight E a w"
| "multisig_run H Z E (AddSigner a w) = add_signer E a w"
| "multisig_run H Z E (RemoveSigner a) = remove_signer E a"
| "multisig_run H Z E (RotateSigners as rs t) = rotate_signers_and_threshold Z E as rs t"
| "multisig_run H Z E (ExecuteBatch cs) = aseq (execute_batch H E cs) (aret ())"
| "multisig_run H Z E (SetDailyLimit t l) = set_daily_limit E t l"
| "multisig_run H Z E (PauseAccount c) = account_pause E c"
| "multisig_run H Z E (UnpauseAccount c) = account_unpause E c"
| "multisig_run H Z E (SetGuardian g) = set_guardian E g"
| "multisig_run H Z E (CheckAuth ds cs) = check_auth E ds cs"
| "multisig_run H Z E (QueueTransaction h d r g) = aseq (queue_transaction E h d r g) (aret ())"
| "multisig_run H Z E (ApproveQueued i a) = approve_queued_transaction E i a"
| "multisig_run H Z E (ExecuteQueued i) = execute_queued_transaction E i"
| "multisig_run H Z E (CancelQueued i a) = cancel_queued_transaction E i a"

inductive multisig_step :: "('w \<Rightarrow> address \<Rightarrow> string \<Rightarrow> host_val list \<Rightarrow> (host_val \<times> 'w) option) \<Rightarrow> (address \<Rightarrow> bool) \<Rightarrow>
    'w account \<Rightarrow> 'w account \<Rightarrow> bool" for H Z where
  call: "invoke (multisig_run H Z E c) s = Ok ((), s') \<Longrightarrow> multisig_step H Z s s'"
| world: "multisig_step H Z s (s\<lparr>ma_world := w\<rparr>)"

text \<open>The part of the storage that decides who can authorize.\<close>

definition signer_view :: "'w account \<Rightarrow> u32 option \<times> (address \<Rightarrow> bool) \<times> (address \<rightharpoonup> u32) \<times> address list option" where
  "signer_view s = (ma_threshold s, ma_signer s, ma_signer_weight s, ma_signer_list s)"

definition quorum_inv :: "'w account \<Rightarrow> bool" where
  "quorum_inv s \<longleftrightarrow> (\<exists>t. ma_threshold s = Some t \<and> 1 \<le> t \<and> t \<le> weight_sum s (signer_list s) \<and> t \<le> u32_max) \<and>
     distinct (signer_list s) \<and> (\<forall>a. ma_signer s a \<longleftrightarrow> a \<in> set (signer_list s)) \<and> (\<forall>a. 1 \<le> signer_weight s a)"

lemma quorum_inv_view: "signer_view s' = signer_view s \<Longrightarrow> quorum_inv s \<Longrightarrow> quorum_inv s'"
proof -
  assume v: "signer_view s' = signer_view s" and inv: "quorum_inv s"
  have "signer_weight s' = signer_weight s" using v by (simp add: signer_view_def signer_weight_def fun_eq_iff)
  then show ?thesis using v inv by (simp add: quorum_inv_def signer_view_def weight_sum_def signer_list_def)
qed

section \<open>When a call commits\<close>

lemma account_steps_Ok_iff [ok_iff]:
  "account_publish ev s = (r, s') \<longleftrightarrow> r = Ok () \<and> s' = s\<lparr>ma_events := ma_events s @ [ev]\<rparr>"
  "self_auth E s = (Ok u, s') \<longleftrightarrow> authorized E (current_contract_address E) \<and> s' = s"
  "store_signer_list l s = (r, s') \<longleftrightarrow> r = Ok () \<and> s' = s\<lparr>ma_signer_list := Some l\<rparr>"
  "store_signer_weight a w s = (r, s') \<longleftrightarrow> r = Ok () \<and> s' = s\<lparr>ma_signer_weight := (ma_signer_weight s)(a \<mapsto> w)\<rparr>"
  "clear_signer_weight a s = (r, s') \<longleftrightarrow> r = Ok () \<and> s' = s\<lparr>ma_signer_weight := (ma_signer_weight s)(a := None)\<rparr>"
  "mark_signer a b s = (r, s') \<longleftrightarrow> r = Ok () \<and> s' = s\<lparr>ma_signer := (ma_signer s)(a := b)\<rparr>"
  by (auto simp: account_publish_def self_auth_def store_signer_list_def store_signer_weight_def clear_signer_weight_def
      mark_signer_def ok_iff)

lemma projected_total_Ok_iff [ok_iff]:
  "projected_total t p n = Ok v \<longleftrightarrow> p \<le> t \<and> v = t - p + n \<and> in_u32 (t - p + n)"
  by (auto simp: projected_total_def ok_iff split: if_splits)

lemma signer_weight_update: "signer_weight (s\<lparr>ma_signer_weight := (ma_signer_weight s)(a \<mapsto> w)\<rparr>) = (signer_weight s)(a := w)"
  by (simp add: signer_weight_def fun_eq_iff)

lemma set_signer_weight_quorum:
  assumes "set_signer_weight E a w s = (Ok u, s')" "quorum_inv s"
  shows "quorum_inv s'"
proof -
  have c: "w \<noteq> 0" "ma_signer s a" "signer_weight s a \<le> total_weight s" "account_threshold s \<le> total_weight s - signer_weight s a + w"
    and s': "s' = s\<lparr>ma_signer_weight := (ma_signer_weight s)(a \<mapsto> w), ma_events := ma_events s' \<rparr>"
    using assms(1) unfolding set_signer_weight_def Let_def by (auto simp: ok_iff not_less simp del: act_simps)
  have w': "signer_weight s' = (signer_weight s)(a := w)" by (subst s') (simp add: signer_weight_def fun_eq_iff)
  have l: "signer_list s' = signer_list s" "ma_signer s' = ma_signer s" "ma_threshold s' = ma_threshold s"
    by (subst s', simp add: signer_list_def)+
  have a: "a \<in> set (signer_list s)" "distinct (signer_list s)" using assms(2) c(2) by (auto simp: quorum_inv_def)
  have "weight_sum s' (signer_list s) + signer_weight s a = weight_sum s (signer_list s) + w"
    unfolding weight_sum_def w' using sum_update [OF a(2,1)] by blast
  moreover have "total_weight s \<le> weight_sum s (signer_list s)" by (simp add: total_weight_eq)
  ultimately have "account_threshold s \<le> weight_sum s' (signer_list s')" using c(3,4) l(1) by simp
  then show ?thesis using assms(2) c(1) l w' by (auto simp: quorum_inv_def account_threshold_def)
qed

lemma add_signer_quorum:
  assumes "add_signer E a w s = (Ok u, s')" "quorum_inv s"
  shows "quorum_inv s'"
proof -
  have c: "w \<noteq> 0" "\<not> ma_signer s a"
    and s': "s' = s\<lparr>ma_signer := (ma_signer s)(a := True), ma_signer_weight := (ma_signer_weight s)(a \<mapsto> w),
      ma_signer_list := Some (signer_list s @ [a]), ma_events := ma_events s'\<rparr>"
    using assms(1) unfolding add_signer_def by (auto simp: ok_iff signer_list_def simp del: act_simps)
  have w': "signer_weight s' = (signer_weight s)(a := w)" by (subst s') (simp add: signer_weight_def fun_eq_iff)
  have l: "signer_list s' = signer_list s @ [a]" "ma_signer s' = (ma_signer s)(a := True)" "ma_threshold s' = ma_threshold s"
    by (subst s', simp add: signer_list_def)+
  have "a \<notin> set (signer_list s)" using assms(2) c(2) by (auto simp: quorum_inv_def)
  then have "sum_list (map ((signer_weight s)(a := w)) (signer_list s)) = sum_list (map (signer_weight s) (signer_list s))"
    by (intro arg_cong [where f = sum_list] map_cong) auto
  then have "weight_sum s (signer_list s) \<le> weight_sum s' (signer_list s')" by (simp add: weight_sum_def l(1) w')
  then show ?thesis using assms(2) c l w' by (auto simp: quorum_inv_def)
qed

lemma remove_signer_quorum:
  assumes "remove_signer E a s = (Ok u, s')" "quorum_inv s"
  shows "quorum_inv s'"
proof -
  have c: "ma_signer s a" "signer_weight s a \<le> total_weight s" "account_threshold s \<le> total_weight s - signer_weight s a"
    and s': "s' = s\<lparr>ma_signer := (ma_signer s)(a := False), ma_signer_weight := (ma_signer_weight s)(a := None),
      ma_signer_list := Some (filter (\<lambda>x. x \<noteq> a) (signer_list s)), ma_events := ma_events s'\<rparr>"
    using assms(1) unfolding remove_signer_def Let_def by (auto simp: ok_iff signer_list_def not_less simp del: act_simps)
  have w': "signer_weight s' = (signer_weight s)(a := DEFAULT_SIGNER_WEIGHT)" by (subst s') (simp add: signer_weight_def fun_eq_iff)
  have l: "signer_list s' = filter (\<lambda>x. x \<noteq> a) (signer_list s)" "ma_signer s' = (ma_signer s)(a := False)" "ma_threshold s' = ma_threshold s"
    by (subst s', simp add: signer_list_def)+
  have a: "a \<in> set (signer_list s)" "distinct (signer_list s)" using assms(2) c(1) by (auto simp: quorum_inv_def)
  have "sum_list (map (signer_weight s') (signer_list s')) = sum_list (map (signer_weight s) (signer_list s'))"
    unfolding w' l(1) by (intro arg_cong [where f = sum_list] map_cong) auto
  then have "weight_sum s' (signer_list s') + signer_weight s a = weight_sum s (signer_list s)"
    using sum_remove [OF a(2,1), of "signer_weight s"] by (simp add: weight_sum_def l(1))
  moreover have "total_weight s \<le> weight_sum s (signer_list s)" by (simp add: total_weight_eq)
  ultimately have "account_threshold s \<le> weight_sum s' (signer_list s')" using c(2,3) by simp
  then show ?thesis using assms(2) l w' by (auto simp: quorum_inv_def account_threshold_def DEFAULT_SIGNER_WEIGHT_def)
qed

section \<open>Rotation and construction\<close>

lemma drop_signers_Ok:
  assumes "drop_signers s rs R t = Ok (R', t')" "distinct R" "t \<le> weight_sum s R"
  shows "distinct R' \<and> set R' = set R - set rs \<and> t' \<le> weight_sum s R' \<and> t' \<le> t"
  using assms
proof (induction rs arbitrary: R t)
  case (Cons a rs)
  let ?R = "filter (\<lambda>x. x \<noteq> a) R"
  have a: "a \<in> set R" "signer_weight s a \<le> t" "drop_signers s rs ?R (t - signer_weight s a) = Ok (R', t')"
    using Cons.prems(1) by (auto split: if_splits)
  have "weight_sum s ?R + signer_weight s a = weight_sum s R"
    using sum_remove [OF Cons.prems(2) a(1), of "signer_weight s"] by (simp add: weight_sum_def)
  then have "t - signer_weight s a \<le> weight_sum s ?R" using Cons.prems(3) a(2) by linarith
  from Cons.IH [OF a(3) _ this] have i: "distinct R'" "set R' = set ?R - set rs" "t' \<le> weight_sum s R'" "t' \<le> t - signer_weight s a"
    using Cons.prems(2) by simp_all
  have "set R' = set R - set (a # rs)" unfolding i(2) by auto
  moreover have "t' \<le> t" using i(4) by linarith
  ultimately show ?case using i(1,3) by blast
qed simp

lemma append_signers_Ok:
  "append_signers as R t = Ok (R', t') \<Longrightarrow> distinct R \<Longrightarrow>
    R' = R @ as \<and> distinct R' \<and> t' = t + length as \<and> (as \<noteq> [] \<longrightarrow> t' \<le> u32_max)"
proof (induction as arbitrary: R t)
  case (Cons a as)
  then have a: "a \<notin> set R" "in_u32 (t + 1)" "append_signers as (R @ [a]) (t + 1) = Ok (R', t')"
    by (auto simp: ok_iff DEFAULT_SIGNER_WEIGHT_def split: if_splits)
  then show ?case using Cons.IH [OF a(3)] Cons.prems(2) by (cases as) (auto simp: in_u32_def)
qed simp

lemma unmark_all:
  "afor (\<lambda>a. aseq (mark_signer a False) (clear_signer_weight a)) as s = (Ok (), s\<lparr>ma_signer := \<lambda>x. x \<notin> set as \<and> ma_signer s x,
     ma_signer_weight := ma_signer_weight s |` (- set as)\<rparr>)"
  by (induction as arbitrary: s) (auto simp: aseq_def abind_def mark_signer_def clear_signer_weight_def fun_eq_iff restrict_map_def
      intro!: arg_cong2 [where f = "\<lambda>f g. _\<lparr>ma_signer := f, ma_signer_weight := g\<rparr>"])

lemma mark_all:
  "afor (\<lambda>a. aseq (mark_signer a True) (store_signer_weight a v)) as s = (Ok (), s\<lparr>ma_signer := \<lambda>x. x \<in> set as \<or> ma_signer s x,
     ma_signer_weight := ma_signer_weight s ++ (\<lambda>_. Some v) |` set as\<rparr>)"
  by (induction as arbitrary: s) (auto simp: aseq_def abind_def mark_signer_def store_signer_weight_def fun_eq_iff restrict_map_def map_add_def
      intro!: arg_cong2 [where f = "\<lambda>f g. _\<lparr>ma_signer := f, ma_signer_weight := g\<rparr>"])

lemma rotate_quorum:
  assumes "rotate_signers_and_threshold Z E as rs n s = (Ok u, s')" "quorum_inv s"
  shows "quorum_inv s'"
proof -
  obtain R t R' t' where c: "1 \<le> n" "distinct as" "\<forall>a\<in>set rs. a \<notin> set as" "n \<le> t'"
      "drop_signers s rs (signer_list s) (total_weight s) = Ok (R, t)" "append_signers as R t = Ok (R', t')"
    and s': "s' = s\<lparr>ma_signer := \<lambda>x. x \<in> set as \<or> x \<notin> set rs \<and> ma_signer s x,
      ma_signer_weight := (ma_signer_weight s |` (- set rs)) ++ (\<lambda>_. Some DEFAULT_SIGNER_WEIGHT) |` set as,
      ma_signer_list := Some R', ma_threshold := Some n, ma_events := ma_events s'\<rparr>"
    using assms(1) unfolding rotate_signers_and_threshold_def
    by (simp add: ok_iff unmark_all mark_all not_less split_paired_Ex del: act_simps) (elim exE conjE, rule that, simp_all)
  have d: "distinct R" "set R = set (signer_list s) - set rs" "t \<le> weight_sum s R"
    using drop_signers_Ok [OF c(5)] assms(2) by (auto simp: quorum_inv_def total_weight_eq)
  have e: "R' = R @ as" "distinct R'" "t' = t + length as" using append_signers_Ok [OF c(6) d(1)] by auto
  have l: "signer_list s' = R @ as" "ma_threshold s' = Some n" by (subst s', simp add: signer_list_def e(1))+
  have w: "signer_weight s' x = (if x \<in> set as then 1 else if x \<in> set rs then 1 else signer_weight s x)" for x
    by (subst s') (simp add: signer_weight_def DEFAULT_SIGNER_WEIGHT_def map_add_def restrict_map_def)
  have "sum_list (map (signer_weight s') as) = sum_list (map (\<lambda>_. 1) as)"
    by (intro arg_cong [where f = sum_list] map_cong) (auto simp: w)
  moreover have "sum_list (map (signer_weight s') R) = sum_list (map (signer_weight s) R)"
    using e(2) d(2) unfolding e(1) by (intro arg_cong [where f = sum_list] map_cong) (auto simp: w)
  ultimately have "weight_sum s' (signer_list s') = weight_sum s R + length as" by (simp add: l(1) weight_sum_def sum_list_triv)
  then have "n \<le> weight_sum s' (signer_list s')" using c(4) d(3) e(3) by simp
  moreover have "n \<le> u32_max"
  proof (cases "as = []")
    case True
    then show ?thesis using drop_signers_Ok [OF c(5)] assms(2) e(3) c(4) by (auto simp: quorum_inv_def total_weight_eq)
  qed (use append_signers_Ok [OF c(6) d(1)] c(4) in auto)
  moreover have "ma_signer s' x \<longleftrightarrow> x \<in> set (signer_list s')" for x
    using assms(2) d(2) by (subst s') (auto simp: l(1) quorum_inv_def)
  ultimately show ?thesis using assms(2) c(1) e(1,2) l w by (auto simp: quorum_inv_def)
qed

lemma register_signers_Ok:
  assumes "distinct U"
  shows "\<exists>U' s'. register_signers as U s = (Ok U', s') \<and> distinct U' \<and> set U' = set U \<union> set as \<and>
    (\<forall>x. ma_signer s' x \<longleftrightarrow> x \<in> set U' - set U \<or> ma_signer s x) \<and>
    (\<forall>x. x \<notin> set U' - set U \<longrightarrow> ma_signer_weight s' x = ma_signer_weight s x) \<and>
    (\<forall>x \<in> set U' - set U. ma_signer_weight s' x = Some 1)"
  using assms
proof (induction as arbitrary: U s)
  case (Cons a as)
  show ?case
  proof (cases "a \<in> set U")
    case True
    then show ?thesis using Cons.IH [OF Cons.prems, of s] by (auto simp: insert_absorb)
  next
    case False
    let ?s = "s\<lparr>ma_signer := (ma_signer s)(a := True), ma_signer_weight := (ma_signer_weight s)(a \<mapsto> 1)\<rparr>"
    have "register_signers (a # as) U s = register_signers as (U @ [a]) ?s"
      using False by (simp add: aseq_def abind_def mark_signer_def store_signer_weight_def DEFAULT_SIGNER_WEIGHT_def)
    moreover obtain U' s' where "register_signers as (U @ [a]) ?s = (Ok U', s')" "distinct U'" "set U' = set (U @ [a]) \<union> set as"
      "\<forall>x. ma_signer s' x \<longleftrightarrow> x \<in> set U' - set (U @ [a]) \<or> ma_signer ?s x"
      "\<forall>x. x \<notin> set U' - set (U @ [a]) \<longrightarrow> ma_signer_weight s' x = ma_signer_weight ?s x"
      "\<forall>x \<in> set U' - set (U @ [a]). ma_signer_weight s' x = Some 1"
      using Cons.IH [of "U @ [a]" ?s] Cons.prems False by auto
    ultimately show ?thesis using False by (intro exI [of _ U'] exI [of _ s']) auto
  qed
qed simp

lemma account_constructor_quorum:
  assumes "account_constructor signers n (account_empty w) = (Ok u, s)"
  shows "quorum_inv s"
proof -
  obtain U s1 where U: "register_signers signers [] (account_empty w) = (Ok U, s1)" "distinct U"
      "\<And>x. ma_signer s1 x \<longleftrightarrow> x \<in> set U" "\<And>x. x \<notin> set U \<Longrightarrow> ma_signer_weight s1 x = None" "\<And>x. x \<in> set U \<Longrightarrow> ma_signer_weight s1 x = Some 1"
    using register_signers_Ok [of "[]" signers "account_empty w"] by (auto simp: account_empty_def)
  define t where "t = (if n = 0 then length U else n)"
  have c: "t \<noteq> 0" "t \<le> total_weight (s1\<lparr>ma_signer_list := Some U\<rparr>)" and s: "s = s1\<lparr>ma_signer_list := Some U, ma_threshold := Some t\<rparr>"
    using assms U(1) unfolding account_constructor_def Let_def t_def [symmetric]
    by (auto simp: ok_iff not_less t_def simp del: act_simps split: if_splits)
  have "signer_weight s x = 1" for x using U(4,5) [of x] by (cases "x \<in> set U") (auto simp: s signer_weight_def DEFAULT_SIGNER_WEIGHT_def)
  moreover have "weight_sum (s1\<lparr>ma_signer_list := Some U\<rparr>) U = weight_sum s U"
  proof -
    have "signer_weight (s1\<lparr>ma_signer_list := Some U\<rparr>) = signer_weight s" by (simp add: signer_weight_def s fun_eq_iff)
    then show ?thesis by (simp add: weight_sum_def)
  qed
  moreover have "signer_list s = U" "signer_list (s1\<lparr>ma_signer_list := Some U\<rparr>) = U" "ma_signer s = ma_signer s1" "ma_threshold s = Some t"
    by (simp_all add: s signer_list_def)
  ultimately show ?thesis using c U(2,3) by (simp add: quorum_inv_def total_weight_eq)
qed

section \<open>Calls that do not touch the signers\<close>

lemma keeps_view [keeps_intro]:
  "keeps (\<lambda>s. signer_view s = v) (account_publish ev)" "keeps (\<lambda>s. signer_view s = v) (self_auth E)"
  "keeps (\<lambda>s. signer_view s = v) (charge_signer E tok x l a)" "keeps (\<lambda>s. signer_view s = v) (run_call H c)"
  "keeps (\<lambda>s. signer_view s = v) require_not_paused" "keeps (\<lambda>s. signer_view s = v) (require_pause_authority E a)"
  "keeps (\<lambda>s. signer_view s = v) (store_queued i q)" "keeps (\<lambda>s. signer_view s = v) (clear_approvals i as)"
  "keeps (\<lambda>s. signer_view s = v) (record_approval E i a)" "keeps (\<lambda>s. signer_view s = v) (get_queued_transaction i)"
  unfolding account_publish_def self_auth_def charge_signer_def run_call_def require_not_paused_def require_pause_authority_def
    store_queued_def clear_approvals_def record_approval_def get_queued_transaction_def
  by (intro keeps_intro keeps_amodify; simp add: signer_view_def)+

lemma keeps_view_prune [keeps_intro]: "keeps (\<lambda>s. signer_view s = v) (prune_approvers E i as f r)"
proof (induction as arbitrary: f r)
  case (Cons a as)
  show ?case unfolding prune_approvers.simps by (intro keeps_intro Cons.IH keeps_amodify) (simp add: signer_view_def)
qed (simp add: keeps_intro)

lemma keeps_view_calls:
  "keeps (\<lambda>s. signer_view s = v) (execute_batch H E cs)" "keeps (\<lambda>s. signer_view s = v) (set_daily_limit E t l)"
  "keeps (\<lambda>s. signer_view s = v) (account_pause E c)" "keeps (\<lambda>s. signer_view s = v) (account_unpause E c)"
  "keeps (\<lambda>s. signer_view s = v) (set_guardian E g)" "keeps (\<lambda>s. signer_view s = v) (check_auth E ds xs)"
  "keeps (\<lambda>s. signer_view s = v) (queue_transaction E h d r g')" "keeps (\<lambda>s. signer_view s = v) (approve_queued_transaction E i a)"
  "keeps (\<lambda>s. signer_view s = v) (execute_queued_transaction E i)" "keeps (\<lambda>s. signer_view s = v) (cancel_queued_transaction E i a)"
  unfolding execute_batch_def set_daily_limit_def account_pause_def account_unpause_def set_guardian_def check_auth_def
    authorize_within_limits_def charge_token_def queue_transaction_def approve_queued_transaction_def
    execute_queued_transaction_def cancel_queued_transaction_def remove_queued_def pruned_queued_def prune_stale_approvals_def
  by (intro keeps_intro keeps_amodify; simp add: signer_view_def)+

lemma multisig_run_quorum:
  assumes "multisig_run H Z E c s = (Ok (), s')" "quorum_inv s"
  shows "quorum_inv s'"
proof -
  have keep: "quorum_inv s'" if "keeps (\<lambda>t. signer_view t = signer_view s) (multisig_run H Z E c)"
    using keepsD [OF that refl assms(1)] assms(2) by (rule quorum_inv_view)
  show ?thesis
  proof (cases c)
    case (SetSignerWeight a w)
    then show ?thesis using set_signer_weight_quorum assms by simp
  next
    case (AddSigner a w)
    then show ?thesis using add_signer_quorum assms by simp
  next
    case (RemoveSigner a)
    then show ?thesis using remove_signer_quorum assms by simp
  next
    case (RotateSigners as rs t)
    then show ?thesis using rotate_quorum assms by simp
  qed (rule keep, simp only: multisig_run.simps, intro keeps_intro keeps_view_calls)+
qed

interpretation multisig: machine "multisig_step H Z" quorum_inv for H Z
proof unfold_locales
  fix s s' :: "'a account" assume "quorum_inv s" "multisig_step H Z s s'"
  from this(2,1) show "quorum_inv s'"
  proof cases
    case (call E c)
    then show ?thesis using multisig_run_quorum \<open>quorum_inv s\<close> by (simp add: invoke_Ok_iff)
  qed (auto intro: quorum_inv_view [rotated] simp: signer_view_def)
qed

end
