(* ===== verification/Multisig_Auth.thy ===== *)
theory Multisig_Auth
  imports Multisig_Machine
begin

text \<open>
  What a committed \<open>__check_auth\<close> has established, in particular on the path below the threshold: the spending of each
  attached signer grows by exactly what the contexts transfer. The queue keeps its approver lists exact.
\<close>

section \<open>Transfers below the threshold\<close>

text \<open>What the contexts transfer of a token out of the account.\<close>

definition transfer_amount :: "env \<Rightarrow> address \<Rightarrow> auth_context \<Rightarrow> i128" where
  "transfer_amount E tok x = (case x of ContractCall c \<Rightarrow>
     (case as_own_transfer E c of Some (t, v) \<Rightarrow> if t = tok then v else 0 | None \<Rightarrow> 0) | CreateContract _ \<Rightarrow> 0)"

definition transfer_total :: "env \<Rightarrow> auth_context list \<Rightarrow> address \<Rightarrow> i128" where
  "transfer_total E cs tok = sum_list (map (transfer_amount E tok) cs)"

definition own_transfer :: "env \<Rightarrow> auth_context \<Rightarrow> bool" where
  "own_transfer E x \<longleftrightarrow> (\<exists>c t v. x = ContractCall c \<and> as_own_transfer E c = Some (t, v))"

lemma sum_transfers_Ok:
  "sum_transfers E cs totals = Ok totals' \<Longrightarrow> list_all (own_transfer E) cs \<and>
    (\<forall>tok. unwrap_or (totals' tok) 0 = unwrap_or (totals tok) 0 + transfer_total E cs tok)"
proof (induction cs arbitrary: totals)
  case (Cons x cs)
  show ?case
  proof (cases x)
    case (ContractCall c)
    then obtain t v where c: "as_own_transfer E c = Some (t, v)" using Cons.prems by (cases "as_own_transfer E c") auto
    then have "sum_transfers E cs (totals(t \<mapsto> unwrap_or (totals t) 0 + v)) = Ok totals'"
      using Cons.prems ContractCall by (auto simp: ok_iff)
    from Cons.IH [OF this] show ?thesis
      using c ContractCall by (auto simp: own_transfer_def transfer_total_def transfer_amount_def)
  qed (use Cons.prems in simp)
qed (simp add: transfer_total_def)

lemma charge_signer_Ok_iff [ok_iff]:
  "charge_signer E tok x l a s = (Ok u, s') \<longleftrightarrow> in_i128 (spent_today E s a tok + x) \<and> spent_today E s a tok + x \<le> l \<and>
     s' = s\<lparr>ma_spending := (ma_spending s)((a, tok) \<mapsto> \<lparr>sl_window_start = window_start E, sl_spent = spent_today E s a tok + x\<rparr>)\<rparr>"
  by (auto simp: charge_signer_def ok_iff not_less simp del: act_simps)

lemma spent_today_update:
  "spent_today E (s\<lparr>ma_spending := (ma_spending s)((a, tok) \<mapsto> \<lparr>sl_window_start = window_start E, sl_spent = v\<rparr>)\<rparr>) b t =
     (if b = a \<and> t = tok then v else spent_today E s b t)"
  by (auto simp: spent_today_def)

text \<open>Charging distinct signers: each by the amount, within the limit, and nobody else.\<close>

lemma charge_signers_Ok:
  assumes "afor (charge_signer E tok x l) ds s = (Ok u, s')" "distinct ds"
  shows "s' = s\<lparr>ma_spending := ma_spending s'\<rparr> \<and> (\<forall>d \<in> set ds. spent_today E s d tok + x \<le> l) \<and>
    (\<forall>d t. spent_today E s' d t = spent_today E s d t + (if d \<in> set ds \<and> t = tok then x else 0))"
  using assms
proof (induction ds arbitrary: s)
  case (Cons d ds)
  let ?s = "s\<lparr>ma_spending := (ma_spending s)((d, tok) \<mapsto> \<lparr>sl_window_start = window_start E, sl_spent = spent_today E s d tok + x\<rparr>)\<rparr>"
  have d: "spent_today E s d tok + x \<le> l" "afor (charge_signer E tok x l) ds ?s = (Ok u, s')"
    using Cons.prems(1) by (auto simp: ok_iff)
  have "distinct ds" using Cons.prems(2) by simp
  from Cons.IH [OF d(2) this] have i: "s' = ?s\<lparr>ma_spending := ma_spending s'\<rparr>" "\<forall>a \<in> set ds. spent_today E ?s a tok + x \<le> l"
    "\<And>a t. spent_today E s' a t = spent_today E ?s a t + (if a \<in> set ds \<and> t = tok then x else 0)" by blast+
  have "s' = s\<lparr>ma_spending := ma_spending s'\<rparr>" using i(1) by simp
  moreover have "\<forall>a \<in> set (d # ds). spent_today E s a tok + x \<le> l"
    using i(2) d(1) Cons.prems(2) by (auto simp: spent_today_update split: if_splits)
  moreover have "spent_today E s' a t = spent_today E s a t + (if a \<in> set (d # ds) \<and> t = tok then x else 0)" for a t
    using i(3) [of a t] Cons.prems(2) by (auto simp: spent_today_update)
  ultimately show ?case by blast
qed (simp add: ok_iff)

lemma charge_token_Ok_iff [ok_iff]:
  "charge_token E ds totals tok s = (Ok u, s') \<longleftrightarrow> daily_limit s tok \<noteq> 0 \<and>
     afor (charge_signer E tok (unwrap_or (totals tok) 0) (daily_limit s tok)) ds s = (Ok u, s')"
  by (auto simp: charge_token_def ok_iff simp del: act_simps)

lemma charge_tokens_Ok:
  assumes "afor (charge_token E ds totals) toks s = (Ok u, s')" "distinct ds" "distinct toks"
  shows "s' = s\<lparr>ma_spending := ma_spending s'\<rparr> \<and>
    (\<forall>tok \<in> set toks. daily_limit s tok \<noteq> 0 \<and> (\<forall>d \<in> set ds. spent_today E s d tok + unwrap_or (totals tok) 0 \<le> daily_limit s tok)) \<and>
    (\<forall>d t. spent_today E s' d t = spent_today E s d t + (if d \<in> set ds \<and> t \<in> set toks then unwrap_or (totals t) 0 else 0))"
  using assms(1,3)
proof (induction toks arbitrary: s)
  case (Cons tok toks)
  obtain s1 where c: "daily_limit s tok \<noteq> 0" "afor (charge_signer E tok (unwrap_or (totals tok) 0) (daily_limit s tok)) ds s = (Ok (), s1)"
      "afor (charge_token E ds totals) toks s1 = (Ok u, s')"
    using Cons.prems(1) by (auto simp: ok_iff)
  note d = charge_signers_Ok [OF c(2) assms(2)]
  have lim: "daily_limit s1 = daily_limit s"
  proof -
    have "ma_daily_limit s1 = ma_daily_limit s" using d by (metis account.simps(8) account.surjective account.update_convs(9))
    then show ?thesis by (simp add: daily_limit_def fun_eq_iff)
  qed
  have "distinct toks" using Cons.prems(2) by simp
  note i = Cons.IH [OF c(3) this, unfolded lim]
  have "s' = s\<lparr>ma_spending := ma_spending s'\<rparr>"
    using conjunct1 [OF i] conjunct1 [OF d] by (metis account.update_convs(9) account.surjective account.ext_inject)
  moreover have "\<forall>t \<in> set (tok # toks). daily_limit s t \<noteq> 0 \<and> (\<forall>a \<in> set ds. spent_today E s a t + unwrap_or (totals t) 0 \<le> daily_limit s t)"
    using i d c(1) Cons.prems(2) by (auto split: if_splits)
  moreover have "spent_today E s' a t = spent_today E s a t + (if a \<in> set ds \<and> t \<in> set (tok # toks) then unwrap_or (totals t) 0 else 0)" for a t
    using i d Cons.prems(2) by auto
  ultimately show ?case by blast
qed (simp add: ok_iff)

lemma context_tokens_iff: "tok \<in> set (context_tokens E cs) \<longleftrightarrow> (\<exists>c v. ContractCall c \<in> set cs \<and> as_own_transfer E c = Some (tok, v))"
proof -
  have "tok \<in> set (case x of ContractCall c \<Rightarrow> (case as_own_transfer E c of Some (t, _) \<Rightarrow> [t] | None \<Rightarrow> []) | CreateContract _ \<Rightarrow> []) \<longleftrightarrow>
      (\<exists>c v. x = ContractCall c \<and> as_own_transfer E c = Some (tok, v))" for x
  proof (cases x)
    case (ContractCall c)
    then show ?thesis by (cases "as_own_transfer E c") auto
  qed simp
  then show ?thesis by (auto simp: context_tokens_def)
qed

lemma transfer_total_none: "tok \<notin> set (context_tokens E cs) \<Longrightarrow> transfer_total E cs tok = 0"
  unfolding context_tokens_iff transfer_total_def
  by (induction cs) (auto simp: transfer_amount_def split: auth_context.splits option.splits)

section \<open>The queue\<close>

lemma prune_approvers_Ok:
  assumes "prune_approvers E i as f r s = (Ok (f', r'), s')" "distinct as"
  shows "f' = f @ filter (has_fresh_approval E s i) as \<and> s' = s\<lparr>ma_approval := ma_approval s'\<rparr> \<and>
    (r' = 0 \<longleftrightarrow> r = 0 \<and> list_all (has_fresh_approval E s i) as)"
  using assms
proof (induction as arbitrary: f r s)
  case (Cons a as)
  show ?case
  proof (cases "has_fresh_approval E s i a")
    case True
    then have "prune_approvers E i as (f @ [a]) r s = (Ok (f', r'), s')" using Cons.prems(1) by (auto simp: ok_iff)
    from Cons.IH [OF this] show ?thesis using Cons.prems(2) True by simp
  next
    case False
    let ?s = "s\<lparr>ma_approval := (ma_approval s)((i, a) := None)\<rparr>"
    have p: "prune_approvers E i as f (u32_saturating_add r 1) ?s = (Ok (f', r'), s')"
      using Cons.prems(1) False by (auto simp: ok_iff)
    have "has_fresh_approval E ?s i b = has_fresh_approval E s i b" if "b \<in> set as" for b
      using that Cons.prems(2) by (auto simp: has_fresh_approval_def)
    then have "filter (has_fresh_approval E ?s i) as = filter (has_fresh_approval E s i) as"
      by (intro filter_cong) auto
    moreover have "distinct as" using Cons.prems(2) by simp
    ultimately have i: "f' = f @ filter (has_fresh_approval E s i) as" "s' = ?s\<lparr>ma_approval := ma_approval s'\<rparr>" "r' \<noteq> 0"
      using Cons.IH [OF p] by (simp_all add: u32_saturating_add_def)
    then show ?thesis using False by simp
  qed
qed (simp add: ok_iff)

definition queue_ok :: "queued_transaction \<Rightarrow> bool" where
  "queue_ok q \<longleftrightarrow> distinct (qt_approvers q) \<and> qt_approval_count q = length (qt_approvers q)"

definition queue_count :: "'w account \<Rightarrow> u64" where
  "queue_count s = unwrap_or (ma_queue_count s) 0"

definition queue_inv :: "'w account \<Rightarrow> bool" where
  "queue_inv s \<longleftrightarrow> (\<forall>i q. ma_queued s i = Some q \<longrightarrow> i \<le> queue_count s \<and> queue_ok q)"

definition with_fresh :: "env \<Rightarrow> 'w account \<Rightarrow> u64 \<Rightarrow> queued_transaction \<Rightarrow> queued_transaction" where
  "with_fresh E s i q = (let f = filter (has_fresh_approval E s i) (qt_approvers q) in q\<lparr>qt_approval_count := length f, qt_approvers := f\<rparr>)"

lemma with_fresh_simps [simp]:
  "qt_approvers (with_fresh E s i q) = filter (has_fresh_approval E s i) (qt_approvers q)"
  "qt_approval_count (with_fresh E s i q) = length (filter (has_fresh_approval E s i) (qt_approvers q))"
  "qt_required_approvals (with_fresh E s i q) = qt_required_approvals q" "qt_execution_ledger (with_fresh E s i q) = qt_execution_ledger q"
  by (simp_all add: with_fresh_def Let_def)

text \<open>Pruning leaves exactly the fresh approvals.\<close>

lemma pruned_queued_Ok:
  assumes "pruned_queued E i q s = (Ok (q', n), s')" "queue_ok q" "ma_queued s i = Some q"
  shows "q' = with_fresh E s i q" "ma_queued s' = (ma_queued s)(i \<mapsto> q')" "ma_queue_count s' = ma_queue_count s"
    "ma_paused s' = ma_paused s"
proof -
  obtain f r s1 where p: "prune_approvers E i (qt_approvers q) [] 0 s = (Ok (f, r), s1)"
      "q' = (if r > 0 then q\<lparr>qt_approval_count := length f, qt_approvers := f\<rparr> else q)"
      "s' = (if r > 0 then s1\<lparr>ma_queued := (ma_queued s1)(i \<mapsto> q')\<rparr> else s1)"
    using assms(1) by (auto simp: pruned_queued_def prune_stale_approvals_def store_queued_def ok_iff simp del: act_simps split: if_splits)
  have "distinct (qt_approvers q)" using assms(2) by (simp add: queue_ok_def)
  note pr = prune_approvers_Ok [OF p(1) this]
  have all: "filter (has_fresh_approval E s i) (qt_approvers q) = qt_approvers q" if "r = 0"
    using pr that by (simp add: list_all_iff filter_id_conv)
  show q': "q' = with_fresh E s i q"
    using pr p(2) all assms(2) by (cases "r = 0") (auto simp: with_fresh_def queue_ok_def Let_def)
  have s1: "ma_queued s1 = ma_queued s" "ma_queue_count s1 = ma_queue_count s" "ma_paused s1 = ma_paused s"
    using pr by (metis account.select_convs account.surjective account.update_convs(5))+
  show "ma_queued s' = (ma_queued s)(i \<mapsto> q')"
  proof (cases "r = 0")
    case True
    then have "q' = q" using p(2) by simp
    then show ?thesis using True p(3) s1 assms(3) by (auto simp: fun_eq_iff)
  qed (use p(3) s1 in simp)
  show "ma_queue_count s' = ma_queue_count s" "ma_paused s' = ma_paused s" using p(3) s1 by simp_all
qed

lemma clear_approvals_Ok: "\<exists>m. clear_approvals i as s = (Ok (), s\<lparr>ma_approval := m\<rparr>) \<and> (\<forall>a \<in> set as. m (i, a) = None)"
proof (induction as arbitrary: s)
  case Nil
  show ?case by (intro exI [of _ "ma_approval s"]) (simp add: clear_approvals_def)
next
  case (Cons a as)
  let ?s = "s\<lparr>ma_approval := (ma_approval s)((i, a) := None)\<rparr>"
  obtain m where m: "clear_approvals i as ?s = (Ok (), ?s\<lparr>ma_approval := m\<rparr>)" "\<forall>a \<in> set as. m (i, a) = None" using Cons.IH by blast
  have "m (i, a) = None"
  proof -
    have "clear_approvals i as t = (Ok (), t') \<Longrightarrow> ma_approval t (i, a) = None \<Longrightarrow> ma_approval t' (i, a) = None" for t t' :: "'a account"
      unfolding clear_approvals_def by (induction as arbitrary: t) (auto simp: ok_iff)
    from this [OF m(1)] show ?thesis by simp
  qed
  then show ?case using m by (intro exI [of _ m]) (simp add: clear_approvals_def aseq_def abind_def)
qed

lemma remove_queued_Ok:
  assumes "remove_queued i q s = (Ok u, s')"
  shows "ma_queued s' = (ma_queued s)(i := None)" "ma_queue_count s' = ma_queue_count s" "\<forall>a \<in> set (qt_approvers q). ma_approval s' (i, a) = None"
  using assms clear_approvals_Ok [of i "qt_approvers q" s] by (auto simp: remove_queued_def ok_iff simp del: act_simps)

lemma execute_queued_Ok:
  assumes "execute_queued_transaction E i s = (Ok u, s')" "queue_inv s"
  shows "\<exists>q. ma_queued s i = Some q \<and> \<not> account_is_paused s \<and> qt_execution_ledger q \<le> sequence E \<and>
    qt_required_approvals q \<le> length (filter (has_fresh_approval E s i) (qt_approvers q)) \<and> distinct (qt_approvers q) \<and>
    ma_queued s' = (ma_queued s)(i := None) \<and> ma_queue_count s' = ma_queue_count s"
proof -
  obtain q q' n s1 where c: "\<not> account_is_paused s" "ma_queued s i = Some q" "qt_execution_ledger q \<le> sequence E"
      "pruned_queued E i q s = (Ok (q', n), s1)" "qt_required_approvals q' \<le> qt_approval_count q'" "remove_queued i q' s1 = (Ok u, s')"
    using assms(1) by (auto simp: execute_queued_transaction_def require_not_paused_def get_queued_transaction_def ok_iff not_less simp del: act_simps)
  have q: "queue_ok q" using assms(2) c(2) by (auto simp: queue_inv_def)
  note p = pruned_queued_Ok [OF c(4) q c(2)]
  note r = remove_queued_Ok [OF c(6)]
  have "ma_queued s' = (ma_queued s)(i := None)" "ma_queue_count s' = ma_queue_count s" using p(2,3) r(1,2) by (auto simp: fun_eq_iff)
  then show ?thesis using c(1,2,3,5) p(1) q by (auto simp: queue_ok_def)
qed

lemma cancel_queued_Ok:
  assumes "cancel_queued_transaction E i a s = (Ok u, s')"
  shows "\<exists>q. ma_queued s i = Some q \<and> sequence E < qt_execution_ledger q \<and> (a = qt_guardian q \<or> ma_signer s a) \<and>
    ma_queued s' = (ma_queued s)(i := None) \<and> ma_queue_count s' = ma_queue_count s"
  using assms remove_queued_Ok by (fastforce simp: cancel_queued_transaction_def get_queued_transaction_def ok_iff not_le simp del: act_simps)

lemma approve_queued_Ok:
  assumes "approve_queued_transaction E i a s = (Ok u, s')" "queue_inv s"
  shows "\<exists>q q'. ma_queued s i = Some q \<and> ma_queued s' = (ma_queued s)(i \<mapsto> q') \<and> ma_queue_count s' = ma_queue_count s \<and> queue_ok q' \<and>
    qt_approvers q' = filter (has_fresh_approval E s i) (qt_approvers q) @ [a] \<and> a \<notin> set (filter (has_fresh_approval E s i) (qt_approvers q)) \<and>
    ma_approval s' (i, a) = Some (timestamp E)"
proof -
  obtain q q1 n s1 where c: "ma_queued s i = Some q" "pruned_queued E i q s = (Ok (q1, n), s1)" "a \<notin> set (qt_approvers q1)"
    and s': "s' = s1\<lparr>ma_approval := (ma_approval s1)((i, a) \<mapsto> timestamp E),
      ma_queued := (ma_queued s1)(i \<mapsto> q1\<lparr>qt_approvers := qt_approvers q1 @ [a], qt_approval_count := length (qt_approvers q1 @ [a])\<rparr>)\<rparr>"
    using assms(1) by (auto simp: approve_queued_transaction_def get_queued_transaction_def record_approval_def store_queued_def Let_def ok_iff simp del: act_simps)
  have q: "queue_ok q" using assms(2) c(1) by (auto simp: queue_inv_def)
  note p = pruned_queued_Ok [OF c(2) q c(1)]
  show ?thesis
    using c p(1-3) q by (intro exI [of _ q] exI [of _ "q1\<lparr>qt_approvers := qt_approvers q1 @ [a], qt_approval_count := length (qt_approvers q1 @ [a])\<rparr>"])
      (auto simp: s' queue_ok_def)
qed

lemma queue_transaction_Ok:
  assumes "queue_transaction E h d r g s = (Ok i, s')"
  shows "i = queue_count s + 1 \<and> ma_queue_count s' = Some i \<and> ma_queued s' = (ma_queued s)(i \<mapsto> \<lparr>qt_call_hash = h,
    qt_execution_ledger = u32_saturating_add (sequence E) d, qt_approval_count = 0, qt_required_approvals = r, qt_guardian = g, qt_approvers = []\<rparr>)"
  using assms by (auto simp: queue_transaction_def store_queued_def queue_count_def ok_iff simp del: act_simps)

text \<open>A queue entry never comes back once it is gone, because ids are not reused.\<close>

definition queue_advances :: "'w account \<Rightarrow> 'w account \<Rightarrow> bool" where
  "queue_advances s s' \<longleftrightarrow> queue_count s \<le> queue_count s' \<and> (\<forall>i \<le> queue_count s. ma_queued s i = None \<longrightarrow> ma_queued s' i = None)"

definition queue_view :: "'w account \<Rightarrow> (u64 \<rightharpoonup> queued_transaction) \<times> u64 option" where
  "queue_view s = (ma_queued s, ma_queue_count s)"

lemma queue_same: "queue_view s' = queue_view s \<Longrightarrow> queue_inv s \<Longrightarrow> queue_inv s' \<and> queue_advances s s'"
  by (simp add: queue_view_def queue_inv_def queue_advances_def queue_count_def)

lemma keeps_queue [keeps_intro]:
  "keeps (\<lambda>s. queue_view s = v) (account_publish ev)" "keeps (\<lambda>s. queue_view s = v) (self_auth E)"
  "keeps (\<lambda>s. queue_view s = v) (charge_signer E tok x l a)" "keeps (\<lambda>s. queue_view s = v) (run_call H c)"
  "keeps (\<lambda>s. queue_view s = v) (require_pause_authority E a)" "keeps (\<lambda>s. queue_view s = v) (mark_signer a b)"
  "keeps (\<lambda>s. queue_view s = v) (store_signer_list l')" "keeps (\<lambda>s. queue_view s = v) (store_signer_weight a w)"
  "keeps (\<lambda>s. queue_view s = v) (clear_signer_weight a)"
  unfolding account_publish_def self_auth_def charge_signer_def run_call_def require_pause_authority_def
    mark_signer_def store_signer_list_def store_signer_weight_def clear_signer_weight_def
  by (intro keeps_intro keeps_amodify; simp add: queue_view_def)+

lemma keeps_queue_calls:
  "keeps (\<lambda>s. queue_view s = v) (execute_batch H E cs)" "keeps (\<lambda>s. queue_view s = v) (set_daily_limit E t l)"
  "keeps (\<lambda>s. queue_view s = v) (account_pause E c)" "keeps (\<lambda>s. queue_view s = v) (account_unpause E c)"
  "keeps (\<lambda>s. queue_view s = v) (set_guardian E g)" "keeps (\<lambda>s. queue_view s = v) (check_auth E ds xs)"
  "keeps (\<lambda>s. queue_view s = v) (set_signer_weight E a w)" "keeps (\<lambda>s. queue_view s = v) (add_signer E a w)"
  "keeps (\<lambda>s. queue_view s = v) (remove_signer E a)" "keeps (\<lambda>s. queue_view s = v) (rotate_signers_and_threshold Z E as rs n)"
  unfolding execute_batch_def set_daily_limit_def account_pause_def account_unpause_def set_guardian_def check_auth_def
    authorize_within_limits_def charge_token_def set_signer_weight_def add_signer_def remove_signer_def rotate_signers_and_threshold_def
  by (intro keeps_intro keeps_amodify; simp add: queue_view_def)+

lemma multisig_run_queue:
  assumes "multisig_run H Z E c s = (Ok (), s')" "queue_inv s"
  shows "queue_inv s' \<and> queue_advances s s'"
proof -
  have keep: ?thesis if "keeps (\<lambda>t. queue_view t = queue_view s) (multisig_run H Z E c)"
    using keepsD [OF that refl assms(1)] assms(2) by (rule queue_same)
  show ?thesis
  proof (cases c)
    case (QueueTransaction h d r g)
    then obtain i where "queue_transaction E h d r g s = (Ok i, s')" using assms(1) by (auto simp: aseq_Ok_iff)
    from queue_transaction_Ok [OF this] show ?thesis
      using assms(2) by (auto simp: queue_inv_def queue_advances_def queue_count_def queue_ok_def) (meson le_SucI)
  next
    case (ApproveQueued i a)
    then show ?thesis using approve_queued_Ok [of E i a s "()" s'] assms
      by (auto simp: queue_inv_def queue_advances_def queue_count_def split: if_splits)
  next
    case (ExecuteQueued i)
    then show ?thesis using execute_queued_Ok [of E i s "()" s'] assms
      by (auto simp: queue_inv_def queue_advances_def queue_count_def split: if_splits)
  next
    case (CancelQueued i a)
    then show ?thesis using cancel_queued_Ok [of E i a s "()" s'] assms
      by (auto simp: queue_inv_def queue_advances_def queue_count_def split: if_splits)
  qed (rule keep, simp only: multisig_run.simps, intro keeps_intro keeps_queue_calls)+
qed

lemma multisig_step_queue: "multisig_step H Z s s' \<Longrightarrow> queue_inv s \<Longrightarrow> queue_inv s' \<and> queue_advances s s'"
proof (induction rule: multisig_step.induct)
  case (call E c s s')
  then show ?case using multisig_run_queue by (simp add: invoke_Ok_iff)
next
  case (world s w)
  then show ?case by (intro queue_same) (simp add: queue_view_def)
qed

interpretation multisig_queue: machine "multisig_step H Z" queue_inv for H Z
  by unfold_locales (use multisig_step_queue in blast)

lemma multisig_queue_advances:
  assumes "(multisig_step H Z)\<^sup>*\<^sup>* s s'" "queue_inv s"
  shows "queue_advances s s'"
proof (rule multisig_queue.steps_rel [OF assms, where R = queue_advances])
  show "queue_advances s u" if "queue_advances s t" "queue_advances t u" for s t u :: "'a account"
    using that by (auto simp: queue_advances_def)
qed (use multisig_step_queue in \<open>auto simp: queue_advances_def\<close>)

end
