(* ===== verification/Multisig_Claims.thy ===== *)
theory Multisig_Claims
  imports Multisig_Auth
begin

text \<open>
  What the threshold account guarantees: its signers can always authorize, an authorization rests on enough weight
  or on the allowances of its signers, a queued transaction runs once and only with fresh approvals, and the
  scalar check accepts exactly the canonical signatures.
\<close>

section \<open>Quorum\<close>

lemma check_auth_all:
  assumes "quorum_inv s" "account_is_paused s \<longrightarrow> list_all (is_allowed_while_paused E) cs"
  shows "check_auth E (signer_list s) cs s = (Ok (), s)"
proof -
  obtain t where t: "ma_threshold s = Some t" "t \<le> weight_sum s (signer_list s)" "t \<le> u32_max" using assms(1) by (auto simp: quorum_inv_def)
  have "tally_weight s (signer_list s) = Ok (min (weight_sum s (signer_list s)) u32_max)"
    using assms(1) by (auto simp: tally_weight_Ok_iff quorum_inv_def list_all_iff)
  moreover have "\<not> min (weight_sum s (signer_list s)) u32_max < t" using t(2,3) by simp
  moreover have "\<not> (account_is_paused s \<and> \<not> list_all (is_allowed_while_paused E) cs)" using assms(2) by blast
  ultimately show ?thesis using t(1) by (simp add: check_auth_def abind_def aseq_def ok_or_def del: min_less_iff_conj min_less_iff_disj)
qed

section \<open>Canonical scalars\<close>

text \<open>The number that little-endian bytes stand for, and the order of the Ed25519 group.\<close>

definition le_value :: "bytes \<Rightarrow> nat \<Rightarrow> nat" where
  "le_value s n = (\<Sum>i\<in>{..<n}. unat (s ! i) * 256 ^ i)"

definition ed25519_order :: nat where
  "ed25519_order = 2 ^ 252 + 27742317777372353535851937790883648493"

lemma le_value_bound: "le_value s n < 256 ^ n"
proof (induction n)
  case (Suc n)
  have "unat (s ! n) < 256" using unsigned_less [of "s ! n"] by simp
  then have "(unat (s ! n) + 1) * 256 ^ n \<le> 256 * 256 ^ n" by (intro mult_right_mono) auto
  then have "256 ^ n + unat (s ! n) * 256 ^ n \<le> 256 ^ Suc n" by (simp only: distrib_right mult_1 power_Suc add.commute)
  moreover have "le_value s (Suc n) = le_value s n + unat (s ! n) * 256 ^ n" by (simp add: le_value_def)
  ultimately show ?case using Suc by linarith
qed (simp add: le_value_def)

lemma digit_less:
  fixes x y p q r :: nat
  assumes "x < r" "y < r" "p < q"
  shows "x + p * r < y + q * r"
proof -
  have "(p + 1) * r \<le> q * r" using assms(3) by (intro mult_right_mono) auto
  then show ?thesis using assms(1) by simp
qed

lemma below_order_iff: "below_order s n \<longleftrightarrow> le_value s n < le_value ED25519_ORDER_LE n"
proof (induction n)
  case (Suc n)
  let ?v = "\<lambda>x. le_value x n + unat (x ! n) * 256 ^ n"
  have v: "le_value x (Suc n) = ?v x" for x by (simp add: le_value_def)
  note b = le_value_bound [of s n] le_value_bound [of ED25519_ORDER_LE n]
  consider "s ! n = ED25519_ORDER_LE ! n" | "s ! n < ED25519_ORDER_LE ! n" | "ED25519_ORDER_LE ! n < s ! n" by fastforce
  then show ?case
  proof cases
    case 2
    then have "?v s < ?v ED25519_ORDER_LE" using b by (intro digit_less) (simp_all add: word_less_nat_alt)
    then show ?thesis using 2 by (auto simp: v)
  next
    case 3
    then have "?v ED25519_ORDER_LE < ?v s" using b by (intro digit_less) (simp_all add: word_less_nat_alt)
    then show ?thesis using 3 by (auto simp: v)
  qed (use Suc in \<open>simp add: v\<close>)
qed (simp add: le_value_def)

lemma le_value_simps:
  "le_value s 0 = 0" "le_value (b # s) (Suc n) = unat b + 256 * le_value s n"
  "le_value (b # s) (numeral k) = unat b + 256 * le_value s (pred_numeral k)"
proof -
  show *: "le_value (b # s) (Suc n) = unat b + 256 * le_value s n" for n
    unfolding le_value_def sum.lessThan_Suc_shift by (simp add: sum_distrib_left mult.left_commute)
  show "le_value (b # s) (numeral k) = unat b + 256 * le_value s (pred_numeral k)" by (simp add: numeral_eq_Suc *)
qed (simp add: le_value_def)

lemma order_value: "le_value ED25519_ORDER_LE 32 = ed25519_order"
  by (simp add: ED25519_ORDER_LE_def ed25519_order_def le_value_simps)

text \<open>C35: The scalar check accepts exactly the scalars below the order of the group, so a signature commits only if the
  host verifies it and its scalar is the canonical one; in particular the other encoding of an accepted scalar,
  which adds the group order, is refused as non-canonical whatever the host says.\<close>

theorem canonical_scalar:
  "(verify_ed25519_canonical V key msg sig = Ok () \<longleftrightarrow> V key msg sig \<and> le_value (drop 32 sig) 32 < ed25519_order) \<and>
   (verify_ed25519_canonical V key msg sig = Err NonCanonicalSignature \<longleftrightarrow> ed25519_order \<le> le_value (drop 32 sig) 32) \<and>
   (le_value (drop 32 sig') 32 = le_value (drop 32 sig) 32 + ed25519_order \<longrightarrow> verify_ed25519_canonical V key msg sig' = Err NonCanonicalSignature)"
proof -
  have "verify_ed25519_canonical V key msg x = (if le_value (drop 32 x) 32 < ed25519_order then if V key msg x then Ok () else Trap
      else Err NonCanonicalSignature)" for x
    by (simp add: verify_ed25519_canonical_def ensure_canonical_signature_def is_canonical_scalar_def below_order_iff order_value)
  then show ?thesis by auto
qed

theorem canonical_scalar_witness:
  "le_value (drop 32 (replicate 32 0 @ ED25519_ORDER_LE)) 32 = le_value (drop 32 (replicate 64 0)) 32 + ed25519_order \<and>
   verify_ed25519_canonical (\<lambda>_ _ _. True) [] [] (replicate 32 0 @ ED25519_ORDER_LE) = Err NonCanonicalSignature"
proof -
  have "le_value (replicate 32 0) 32 = 0" by (simp add: le_value_def)
  then have "le_value (drop 32 (replicate 32 0 @ ED25519_ORDER_LE)) 32 = le_value (drop 32 (replicate 64 0)) 32 + ed25519_order"
    by (simp add: order_value)
  then show ?thesis using canonical_scalar [of "\<lambda>_ _ _. True" "[]" "[]" "replicate 64 0" "replicate 32 0 @ ED25519_ORDER_LE"] by blast
qed

section \<open>A small account\<close>

text \<open>Address 1 is the account, 7, 8 and 9 its signers with threshold 2, 5 the guardian of the queue, 20 a token.\<close>

definition mw_env :: "u32 \<Rightarrow> env" where
  "mw_env n = \<lparr>sequence = n, timestamp = 5 * n, current_contract_address = 1, authorized = (\<lambda>a. a = 1)\<rparr>"

definition mw_host :: "unit \<Rightarrow> address \<Rightarrow> string \<Rightarrow> host_val list \<Rightarrow> (host_val \<times> unit) option" where
  "mw_host w c f vs = None"

definition mw_next :: "u32 \<Rightarrow> multisig_call \<Rightarrow> unit account \<Rightarrow> unit account" where
  "mw_next n c s = snd (multisig_run mw_host (\<lambda>a. a = 0) (mw_env n) c s)"

definition mw_init :: "unit account" where
  "mw_init = snd (account_constructor [7, 8, 7, 9] 2 (account_empty ()))"

definition mw_removed :: "unit account" where "mw_removed = mw_next 1 (RemoveSigner 9) mw_init"
definition mw_limited :: "unit account" where "mw_limited = mw_next 2 (SetDailyLimit 20 100) mw_removed"
definition mw_spent :: "unit account" where
  "mw_spent = snd (check_auth (mw_env 3) [7] [ContractCall \<lparr>cc_contract = 20, cc_fn_name = ''transfer'', cc_args = [VAddress 1, VAddress 4, VI128 60]\<rparr>] mw_limited)"
definition mw_queued :: "unit account" where "mw_queued = mw_next 4 (QueueTransaction [1] 10 2 5) mw_limited"
definition mw_approved :: "unit account" where "mw_approved = mw_next 6 (ApproveQueued 1 8) (mw_next 5 (ApproveQueued 1 7) mw_queued)"
definition mw_executed :: "unit account" where "mw_executed = mw_next 14 (ExecuteQueued 1) mw_approved"

lemmas mw_defs = mw_next_def account_empty_def mw_env_def abind_def aseq_def ok_or_def unwrap_def require_auth_def self_auth_def
  account_publish_def mark_signer_def store_signer_weight_def clear_signer_weight_def store_signer_list_def signer_list_def signer_weight_def
  total_weight_def account_threshold_def DEFAULT_SIGNER_WEIGHT_def u32_saturating_add_def

lemma mw_init_run: "account_constructor [7, 8, 7, 9] 2 (account_empty ()) = (Ok (), mw_init)"
  "mw_init = (account_empty ())\<lparr>ma_threshold := Some 2, ma_signer := (\<lambda>_. False)(7 := True, 8 := True, 9 := True),
     ma_signer_weight := [7 \<mapsto> 1, 8 \<mapsto> 1, 9 \<mapsto> 1], ma_signer_list := Some [7, 8, 9]\<rparr>"
  by (simp_all add: mw_init_def account_constructor_def mw_defs)

lemma mw_removed_run: "multisig_run mw_host (\<lambda>a. a = 0) (mw_env 1) (RemoveSigner 9) mw_init = (Ok (), mw_removed)"
  "mw_removed = mw_init\<lparr>ma_signer := (ma_signer mw_init)(9 := False), ma_signer_weight := (ma_signer_weight mw_init)(9 := None),
     ma_signer_list := Some [7, 8], ma_events := [SignerRemoved 9 2]\<rparr>"
  unfolding mw_removed_def by (simp_all add: mw_init_run(2) remove_signer_def mw_defs)

lemma mw_limited_run: "multisig_run mw_host (\<lambda>a. a = 0) (mw_env 2) (SetDailyLimit 20 100) mw_removed = (Ok (), mw_limited)"
  "mw_limited = mw_removed\<lparr>ma_daily_limit := [20 \<mapsto> 100], ma_events := [SignerRemoved 9 2, DailyLimitSet 20 100]\<rparr>"
  unfolding mw_limited_def by (simp_all add: mw_removed_run(2) mw_init_run(2) set_daily_limit_def mw_defs)

lemma mw_step: "multisig_run mw_host (\<lambda>a. a = 0) (mw_env n) c s = (Ok (), s') \<Longrightarrow> multisig_step mw_host (\<lambda>a. a = 0) s s'"
  by (rule multisig_step.call [where E = "mw_env n" and c = c]) (simp add: invoke_Ok_iff)

definition mw_queued_tx :: "address list \<Rightarrow> queued_transaction" where
  "mw_queued_tx as = \<lparr>qt_call_hash = [1], qt_execution_ledger = 14, qt_approval_count = length as, qt_required_approvals = 2, qt_guardian = 5, qt_approvers = as\<rparr>"

lemmas mw_queue_defs = queue_transaction_def approve_queued_transaction_def execute_queued_transaction_def get_queued_transaction_def
  pruned_queued_def prune_stale_approvals_def store_queued_def record_approval_def remove_queued_def clear_approvals_def has_fresh_approval_def
  is_stale_def APPROVAL_TTL_SECONDS_def saturating_sub_def require_not_paused_def account_is_paused_def mw_queued_tx_def u64_add_def in_u64_def

lemma mw_queued_run: "multisig_run mw_host (\<lambda>a. a = 0) (mw_env 4) (QueueTransaction [1] 10 2 5) mw_limited = (Ok (), mw_queued)"
  "mw_queued = mw_limited\<lparr>ma_queued := [1 \<mapsto> mw_queued_tx []], ma_queue_count := Some 1\<rparr>"
  unfolding mw_queued_def by (simp_all add: mw_limited_run(2) mw_removed_run(2) mw_init_run(2) mw_queue_defs mw_defs)

lemma mw_approve_run:
  "multisig_run mw_host (\<lambda>a. a = 0) (mw_env 5) (ApproveQueued 1 7) mw_queued = (Ok (), mw_next 5 (ApproveQueued 1 7) mw_queued)"
  "mw_next 5 (ApproveQueued 1 7) mw_queued = mw_queued\<lparr>ma_queued := [1 \<mapsto> mw_queued_tx [7]], ma_approval := [(1, 7) \<mapsto> 25]\<rparr>"
  by (simp_all add: mw_queued_run(2) mw_limited_run(2) mw_removed_run(2) mw_init_run(2) mw_queue_defs mw_defs)

lemma mw_approved_run:
  "multisig_run mw_host (\<lambda>a. a = 0) (mw_env 6) (ApproveQueued 1 8) (mw_next 5 (ApproveQueued 1 7) mw_queued) = (Ok (), mw_approved)"
  "mw_approved = mw_queued\<lparr>ma_queued := [1 \<mapsto> mw_queued_tx [7, 8]], ma_approval := [(1, 7) \<mapsto> 25, (1, 8) \<mapsto> 30]\<rparr>"
  unfolding mw_approved_def mw_approve_run(2) by (simp_all add: mw_queued_run(2) mw_limited_run(2) mw_removed_run(2) mw_init_run(2) mw_queue_defs mw_defs)

lemma mw_executed_run:
  "execute_queued_transaction (mw_env 14) 1 mw_approved = (Ok (), mw_executed)" "ma_queued mw_executed = Map.empty"
  unfolding mw_executed_def
  by (simp_all add: mw_approved_run(2) mw_queued_run(2) mw_limited_run(2) mw_removed_run(2) mw_init_run(2) mw_queue_defs mw_defs)

lemma mw_reach: "(multisig_step mw_host (\<lambda>a. a = 0))\<^sup>*\<^sup>* mw_init mw_limited" "(multisig_step mw_host (\<lambda>a. a = 0))\<^sup>*\<^sup>* mw_init mw_approved"
proof -
  note mw_step [OF mw_removed_run(1)] mw_step [OF mw_limited_run(1)] mw_step [OF mw_queued_run(1)] mw_step [OF mw_approve_run(1)]
    mw_step [OF mw_approved_run(1)]
  then show "(multisig_step mw_host (\<lambda>a. a = 0))\<^sup>*\<^sup>* mw_init mw_limited" "(multisig_step mw_host (\<lambda>a. a = 0))\<^sup>*\<^sup>* mw_init mw_approved"
    by (meson converse_rtranclp_into_rtranclp rtranclp.rtrancl_refl)+
qed

section \<open>Guarantees\<close>

text \<open>C32: The account is never locked out. From construction on, through any calls in any order, a threshold of at least
  one stays stored and within the aggregate weight, the signer list has no duplicates and agrees with the markers that
  authorization checks, and all registered signers together authorize any contexts, or while the account is paused
  any contexts that are allowed then.\<close>

theorem quorum_reachable:
  assumes "account_constructor signers n (account_empty w) = (Ok (), s0)" "(multisig_step H Z)\<^sup>*\<^sup>* s0 s"
  shows "(\<exists>t. ma_threshold s = Some t \<and> 1 \<le> t \<and> t \<le> total_weight s) \<and> distinct (signer_list s) \<and>
    (\<forall>a. ma_signer s a \<longleftrightarrow> a \<in> set (signer_list s)) \<and>
    (\<forall>E cs. (account_is_paused s \<longrightarrow> list_all (is_allowed_while_paused E) cs) \<longrightarrow> check_auth E (signer_list s) cs s = (Ok (), s))"
proof -
  have q: "quorum_inv s" using multisig.steps_inv [OF assms(2)] account_constructor_quorum [OF assms(1)] .
  then show ?thesis using check_auth_all [OF q] by (auto simp: quorum_inv_def total_weight_eq)
qed

theorem quorum_reachable_witness:
  "signer_list mw_limited = [7, 8] \<and> check_auth (mw_env 3) [7, 8] [CreateContract []] mw_limited = (Ok (), mw_limited)"
proof -
  have l: "signer_list mw_limited = [7, 8]" "\<not> account_is_paused mw_limited"
    by (simp_all add: mw_limited_run(2) mw_removed_run(2) mw_init_run(2) signer_list_def account_is_paused_def account_empty_def)
  have "check_auth (mw_env 3) (signer_list mw_limited) [CreateContract []] mw_limited = (Ok (), mw_limited)"
    using quorum_reachable [OF mw_init_run(1) mw_reach(1)] l(2) by blast
  then show ?thesis by (simp add: l(1))
qed

text \<open>C33: An authorization that commits was earned. Every attached signer is registered, a paused account authorizes only the
  allowed management calls, and either the weights of the signers reach the stored threshold and nothing is written,
  or the contexts are transfers out of the account only, each token has an allowance, and each signer's spending
  of the day grows by exactly what the contexts transfer and stays within the allowance.\<close>

theorem check_auth_sound:
  assumes "check_auth E ds cs s = (Ok u, s')" "distinct ds"
  shows "\<exists>t. ma_threshold s = Some t \<and> (account_is_paused s \<longrightarrow> list_all (is_allowed_while_paused E) cs) \<and> list_all (ma_signer s) ds \<and>
    (t \<le> min (weight_sum s ds) u32_max \<and> s' = s \<or>
     min (weight_sum s ds) u32_max < t \<and> ds \<noteq> [] \<and> cs \<noteq> [] \<and> list_all (own_transfer E) cs \<and> s' = s\<lparr>ma_spending := ma_spending s'\<rparr> \<and>
     (\<forall>tok \<in> set (context_tokens E cs). daily_limit s tok \<noteq> 0 \<and> (\<forall>d \<in> set ds. spent_today E s d tok + transfer_total E cs tok \<le> daily_limit s tok)) \<and>
     (\<forall>d tok. spent_today E s' d tok = spent_today E s d tok + (if d \<in> set ds then transfer_total E cs tok else 0)))"
proof -
  obtain t w where c: "ma_threshold s = Some t" "account_is_paused s \<longrightarrow> list_all (is_allowed_while_paused E) cs"
      "tally_weight s ds = Ok w" "(if w < t then authorize_within_limits E ds cs else aret ()) s = (Ok u, s')"
    using assms(1) unfolding check_auth_def by (auto simp: ok_iff simp del: act_simps)
  have w: "list_all (ma_signer s) ds" "w = min (weight_sum s ds) u32_max" using c(3) by (auto simp: tally_weight_Ok_iff)
  show ?thesis
  proof (cases "w < t")
    case True
    then obtain totals where a: "ds \<noteq> []" "cs \<noteq> []" "sum_transfers E cs Map.empty = Ok totals"
        "afor (charge_token E ds totals) (context_tokens E cs) s = (Ok u, s')"
      using c(4) by (auto simp: authorize_within_limits_def ok_iff simp del: act_simps)
    have own: "list_all (own_transfer E) cs" "unwrap_or (totals tok) 0 = transfer_total E cs tok" for tok
      using sum_transfers_Ok [OF a(3)] by auto
    have "distinct (context_tokens E cs)" by (simp add: context_tokens_def)
    note ch = charge_tokens_Ok [OF a(4) assms(2) this, unfolded own(2)]
    have "spent_today E s' d tok = spent_today E s d tok + (if d \<in> set ds then transfer_total E cs tok else 0)" for d tok
      using ch transfer_total_none [of tok E cs] by auto
    then show ?thesis using c(1,2) w True a(1,2) own(1) ch by blast
  next
    case False
    then have "s' = s" "t \<le> w" using c(4) by (simp_all add: ok_iff)
    then have "t \<le> min (weight_sum s ds) u32_max \<and> s' = s" using w(2) by simp
    then show ?thesis using c(1,2) w(1) by blast
  qed
qed

theorem check_auth_sound_witness:
  "check_auth (mw_env 3) [7] [ContractCall \<lparr>cc_contract = 20, cc_fn_name = ''transfer'', cc_args = [VAddress 1, VAddress 4, VI128 60]\<rparr>] mw_limited =
     (Ok (), mw_spent) \<and> spent_today (mw_env 3) mw_spent 7 20 = 60"
proof -
  let ?cs = "[ContractCall \<lparr>cc_contract = 20, cc_fn_name = ''transfer'', cc_args = [VAddress 1, VAddress 4, VI128 60]\<rparr>]"
  have run: "check_auth (mw_env 3) [7] ?cs mw_limited = (Ok (), mw_spent)"
    by (simp add: mw_spent_def mw_limited_run(2) mw_removed_run(2) mw_init_run(2) check_auth_def account_is_paused_def tally_weight_def
        authorize_within_limits_def as_own_transfer_def context_tokens_def charge_token_def charge_signer_def daily_limit_def spent_today_def
        i128_checked_def in_i128_def mw_defs)
  have w: "weight_sum mw_limited [7] = 1" "ma_threshold mw_limited = Some 2" "transfer_total (mw_env 3) ?cs 20 = 60" "spent_today (mw_env 3) mw_limited 7 20 = 0"
    by (simp_all add: weight_sum_def transfer_total_def transfer_amount_def as_own_transfer_def spent_today_def
        mw_limited_run(2) mw_removed_run(2) mw_init_run(2) mw_defs)
  show ?thesis using check_auth_sound [OF run] w run by auto
qed

lemma constructor_queue:
  assumes "account_constructor signers n (account_empty w) = (Ok (), s)"
  shows "queue_inv s"
proof -
  have r: "keeps (\<lambda>s. queue_view s = v) (register_signers as U)" for as U v
    by (induction as arbitrary: U) (auto intro!: keeps_intro)
  have "keeps (\<lambda>s. queue_view s = v) (account_constructor signers n)" for v :: "(u64 \<rightharpoonup> queued_transaction) \<times> u64 option"
    unfolding account_constructor_def by (intro keeps_intro keeps_amodify r) (simp add: queue_view_def)
  from keepsD [OF this refl assms] show ?thesis by (simp add: queue_view_def queue_inv_def account_empty_def)
qed

text \<open>C34: A queued transaction runs only with a fresh quorum and only once. If an execution commits in a state the account
  can reach, then the account is not paused, the delay is over and at least the required number of different addresses
  hold an approval younger than the time to live; and after any further calls no execution of the same id commits again.\<close>

theorem queued_needs_fresh_quorum:
  assumes "account_constructor signers n (account_empty w) = (Ok (), s0)" "(multisig_step H Z)\<^sup>*\<^sup>* s0 s"
    and "execute_queued_transaction E i s = (Ok (), s')" "(multisig_step H Z)\<^sup>*\<^sup>* s' s''"
  shows "\<exists>q. ma_queued s i = Some q \<and> \<not> account_is_paused s \<and> qt_execution_ledger q \<le> sequence E \<and>
    qt_required_approvals q \<le> card {a \<in> set (qt_approvers q). \<exists>t. ma_approval s (i, a) = Some t \<and> timestamp E < t + APPROVAL_TTL_SECONDS} \<and>
    (\<forall>E' u. execute_queued_transaction E' i s'' \<noteq> (Ok (), u))"
proof -
  have q: "queue_inv s" using multisig_queue.steps_inv [OF assms(2)] constructor_queue [OF assms(1)] .
  obtain q where x: "ma_queued s i = Some q" "\<not> account_is_paused s" "qt_execution_ledger q \<le> sequence E"
      "qt_required_approvals q \<le> length (filter (has_fresh_approval E s i) (qt_approvers q))" "distinct (qt_approvers q)"
      "ma_queued s' = (ma_queued s)(i := None)" "ma_queue_count s' = ma_queue_count s"
    using execute_queued_Ok [OF assms(3) q] by blast
  have "length (filter (has_fresh_approval E s i) (qt_approvers q)) = card {a \<in> set (qt_approvers q). has_fresh_approval E s i a}"
    using x(5) by (metis distinct_card distinct_filter set_filter)
  moreover have "has_fresh_approval E s i a \<longleftrightarrow> (\<exists>t. ma_approval s (i, a) = Some t \<and> timestamp E < t + APPROVAL_TTL_SECONDS)" for a
    by (auto simp: has_fresh_approval_def is_stale_def saturating_sub_def APPROVAL_TTL_SECONDS_def split: option.split)
  moreover have "ma_queued s'' i = None"
  proof -
    have "queue_inv s'" using q x(6,7) by (auto simp: queue_inv_def queue_count_def split: if_splits)
    from multisig_queue_advances [OF assms(4) this] show ?thesis
      using q x(1,6,7) by (auto simp: queue_advances_def queue_inv_def queue_count_def)
  qed
  moreover have "execute_queued_transaction E' i t \<noteq> (Ok (), u)" if "ma_queued t i = None" for E' u and t :: "'a account"
    using that by (auto simp: execute_queued_transaction_def get_queued_transaction_def require_not_paused_def ok_iff simp del: act_simps)
  ultimately show ?thesis using x(1-4) by auto
qed

theorem queued_needs_fresh_quorum_witness:
  "execute_queued_transaction (mw_env 14) 1 mw_approved = (Ok (), mw_executed) \<and> ma_queued mw_approved 1 = Some (mw_queued_tx [7, 8]) \<and>
   (\<forall>E u. execute_queued_transaction E 1 mw_executed \<noteq> (Ok (), u))"
proof -
  have "ma_queued mw_approved 1 = Some (mw_queued_tx [7, 8])" by (simp add: mw_approved_run(2))
  then show ?thesis
    using queued_needs_fresh_quorum [OF mw_init_run(1) mw_reach(2) mw_executed_run(1) rtranclp.rtrancl_refl] mw_executed_run(1) by blast
qed

end
