(* ===== verification/Treasury_State.thy ===== *)
theory Treasury_State
  imports Common Invocation Escrow
begin

text \<open>
  The treasury (\<open>treasury/src\<close>): its storage as the record \<open>treasury\<close>, the vesting curve (\<open>vesting.rs\<close>), construction and
  schedules (\<open>lib.rs\<close>), the buyback hook (\<open>buyback.rs\<close>) and the liquidation of fees (\<open>liquidation.rs\<close>).
\<close>

section \<open>Data\<close>

datatype (plugins only: code size) treasury_error = TreasuryAlreadyInitialized | TreasuryNotInitialized | TreasuryNotAuthorized
  | ScheduleNotFound | ScheduleAlreadyExists | InvalidSchedule | NothingToClaim | TreasuryMathOverflow
  | StrategyNotWhitelisted | StrategyAlreadyWhitelisted | StrategyNotAllocated | StrategyHasFunds | InvalidAllocations
  | RecallExceedsDeployed | NothingToRecall | StrategyUnderpaid | TreasuryReentrancyBlocked | NothingToDeploy | InvalidReserve
  | LiquidationNotConfigured | InvalidLiquidation | SlippageExceeded | TreasuryInsufficientBalance | InvalidPrice
  | BuybackNotConfigured | BelowBuybackThreshold | BuybackSlippageExceeded | InvalidBuybackConfig | InsufficientBuybackFloat
  | DistributionNotInitialized | DistributionAlreadyInitialized | NothingToDistribute | NothingToStake | NothingToUnstake
  | UnstakeExceedsStaked | NoYieldToClaim

record vesting_schedule =
  vs_beneficiary :: address
  vs_total :: i128
  vs_claimed :: i128
  vs_start :: u64
  vs_cliff :: u64
  vs_duration :: u64

record strategy_allocation =
  sa_strategy :: address
  sa_weight_bps :: u32
  sa_deployed :: i128
  sa_yield_earned :: i128

record allocation_config =
  al_strategy :: address
  al_weight_bps :: u32

record buyback_config =
  bb_fee_token :: address
  bb_governance_token :: address
  bb_router :: address
  bb_burn_address :: address
  bb_min_amount_in :: i128

record distribution_state =
  ds_accumulator :: i128
  ds_total_distributed :: i128
  ds_total_staked :: i128
  ds_last_update :: u64

record user_distribution =
  ud_staked :: i128
  ud_checkpoint :: i128
  ud_claimed :: i128
  ud_pending :: i128

record sweep_config =
  sw_threshold :: i128
  sw_interval :: u64
  sw_last_sweep :: u64

datatype (plugins only: code size) treasury_event =
    ScheduleCreatedEvent address i128 u64 u64 u64
  | ClaimedEvent address i128 i128
  | BuybackConfiguredEvent address address address address i128
  | BuybackExecutedEvent address i128 i128 address
  | StrategyWhitelistedEvent address bool
  | AllocationsUpdatedEvent "strategy_allocation list"
  | PortfolioRebalancedEvent i128 "strategy_allocation list"
  | StrategyRecalledEvent address i128 i128
  | FeesLiquidatedEvent address address i128 i128 i128
  | YieldDistributedEvent address i128 i128 i128
  | YieldClaimedEvent address i128 i128
  | StakedEvent address i128 i128
  | UnstakedEvent address i128 i128
  | RevenueSweptEvent u64 i128 u64

record 'w treasury =
  tr_admin :: "address option"
  tr_token :: "address option"
  tr_schedule :: "address \<rightharpoonup> vesting_schedule"
  tr_whitelisted :: "address \<rightharpoonup> bool"
  tr_allocation :: "address \<rightharpoonup> strategy_allocation"
  tr_allocation_order :: "address list option"
  tr_reserve_bps :: "u32 option"
  tr_lock :: "bool option"
  tr_buyback :: "buyback_config option"
  tr_stable_token :: "address option"
  tr_amm :: "address option"
  tr_price_feed :: "address option"
  tr_distribution_config :: "address option"
  tr_distribution :: "distribution_state option"
  tr_user_distribution :: "address \<rightharpoonup> user_distribution"
  tr_sweep :: "sweep_config option"
  tr_events :: "treasury_event list"
  tr_world :: 'w

definition treasury_empty :: "'w \<Rightarrow> 'w treasury" where
  "treasury_empty w = \<lparr>tr_admin = None, tr_token = None, tr_schedule = Map.empty, tr_whitelisted = Map.empty,
     tr_allocation = Map.empty, tr_allocation_order = None, tr_reserve_bps = None, tr_lock = None, tr_buyback = None,
     tr_stable_token = None, tr_amm = None, tr_price_feed = None, tr_distribution_config = None, tr_distribution = None,
     tr_user_distribution = Map.empty, tr_sweep = None, tr_events = [], tr_world = w\<rparr>"

type_synonym ('w, 'a) treasury_act = "(treasury_error, 'w treasury, 'a) action"

text \<open>The contracts of others the treasury calls: tokens, strategies, the router of a buyback, the market maker and the price feed.\<close>

record 'w treasury_ext =
  tx_token :: "'w token"
  tx_deposit :: "'w \<Rightarrow> address \<Rightarrow> i128 \<Rightarrow> 'w option"
  tx_withdraw :: "'w \<Rightarrow> address \<Rightarrow> i128 \<Rightarrow> ((i128 \<times> i128) \<times> 'w) option"
  tx_router_swap :: "'w \<Rightarrow> address \<Rightarrow> address \<Rightarrow> address \<Rightarrow> i128 \<Rightarrow> i128 \<Rightarrow> address \<Rightarrow> (i128 \<times> 'w) option"
  tx_amm_swap :: "'w \<Rightarrow> address \<Rightarrow> address \<Rightarrow> address \<Rightarrow> i128 \<Rightarrow> i128 \<Rightarrow> address \<Rightarrow> (i128 \<times> 'w) option"
  tx_price :: "'w \<Rightarrow> address \<Rightarrow> address \<Rightarrow> address \<Rightarrow> i128 option"

definition treasury_publish :: "treasury_event \<Rightarrow> ('w, unit) treasury_act" where
  "treasury_publish ev = amodify (\<lambda>s. s\<lparr>tr_events := tr_events s @ [ev]\<rparr>)"

definition treasury_balance :: "'w treasury_ext \<Rightarrow> address \<Rightarrow> address \<Rightarrow> ('w, i128) treasury_act" where
  "treasury_balance X tok a = aread (\<lambda>s. tok_balance (tx_token X) (tr_world s) tok a)"

text \<open>A call that changes the world outside, or aborts the invocation.\<close>

definition outside :: "('w \<Rightarrow> ('a \<times> 'w) option) \<Rightarrow> ('w, 'a) treasury_act" where
  "outside f = abind (aread (\<lambda>s. f (tr_world s))) (\<lambda>r. abind (alift (unwrap r)) (\<lambda>(x, w).
     aseq (amodify (\<lambda>s. s\<lparr>tr_world := w\<rparr>)) (aret x)))"

definition treasury_transfer :: "'w treasury_ext \<Rightarrow> address \<Rightarrow> address \<Rightarrow> address \<Rightarrow> i128 \<Rightarrow> ('w, unit) treasury_act" where
  "treasury_transfer X tok a b x = outside (\<lambda>w. map_option (Pair ()) (tok_transfer (tx_token X) w tok a b x))"

definition checked :: "int \<Rightarrow> (treasury_error, i128) result" where
  "checked x = ok_or (i128_checked x) TreasuryMathOverflow"

section \<open>Guards\<close>

definition treasury_initialized :: "('w, unit) treasury_act" where
  "treasury_initialized = abind (aread tr_admin) (\<lambda>a. arefuse (a = None) TreasuryNotInitialized)"

definition treasury_admin_auth :: "env \<Rightarrow> ('w, unit) treasury_act" where
  "treasury_admin_auth E = abind (aread tr_admin) (\<lambda>a. abind (alift (unwrap a)) (\<lambda>admin. alift (require_auth E admin)))"

text \<open>The prologue of the admin's entry points.\<close>

definition admin_only :: "env \<Rightarrow> ('w, 'a) treasury_act \<Rightarrow> ('w, 'a) treasury_act" where
  "admin_only E m = aseq treasury_initialized (aseq (treasury_admin_auth E) m)"

definition treasury_init :: "env \<Rightarrow> address \<Rightarrow> address \<Rightarrow> ('w, unit) treasury_act" where
  "treasury_init E admin tok =
     abind (aread tr_admin) (\<lambda>a.
     aseq (arefuse (a \<noteq> None) TreasuryAlreadyInitialized)
     (aseq (alift (require_auth E admin))
     (amodify (\<lambda>s. s\<lparr>tr_admin := Some admin, tr_token := Some tok\<rparr>))))"

definition with_lock :: "('w, 'a) treasury_act \<Rightarrow> ('w, 'a) treasury_act" where
  "with_lock f =
     abind (aread (\<lambda>s. unwrap_or (tr_lock s) False)) (\<lambda>held.
     aseq (arefuse held TreasuryReentrancyBlocked)
     (aseq (amodify (\<lambda>s. s\<lparr>tr_lock := Some True\<rparr>))
     (\<lambda>s. case f s of (out, s') \<Rightarrow> (out, s'\<lparr>tr_lock := Some False\<rparr>))))"

section \<open>Vesting\<close>

definition ONE_YEAR_SECS :: u64 where "ONE_YEAR_SECS = 365 * 24 * 60 * 60"
definition FOUR_YEARS_SECS :: u64 where "FOUR_YEARS_SECS = 4 * ONE_YEAR_SECS"

definition schedule_is_valid :: "vesting_schedule \<Rightarrow> bool" where
  "schedule_is_valid v \<longleftrightarrow> vs_total v > 0 \<and> vs_duration v > 0 \<and> vs_cliff v \<le> vs_duration v"

definition vested :: "vesting_schedule \<Rightarrow> u64 \<Rightarrow> (treasury_error, i128) result" where
  "vested v now =
     (if \<not> in_u64 (vs_start v + vs_cliff v) then Err TreasuryMathOverflow
      else if now < vs_start v + vs_cliff v then Ok 0
      else if \<not> in_u64 (vs_start v + vs_duration v) then Err TreasuryMathOverflow
      else if now \<ge> vs_start v + vs_duration v then Ok (vs_total v)
      else obind (checked (vs_total v * int (now - vs_start v))) (\<lambda>scaled. Ok (trunc_div scaled (int (vs_duration v)))))"

definition i128_saturate :: "int \<Rightarrow> i128" where
  "i128_saturate x = max (- (2 ^ 127)) (min x (2 ^ 127 - 1))"

definition schedule_claimable :: "vesting_schedule \<Rightarrow> u64 \<Rightarrow> (treasury_error, i128) result" where
  "schedule_claimable v now = obind (vested v now) (\<lambda>x. Ok (i128_saturate (x - vs_claimed v)))"

definition load_schedule :: "address \<Rightarrow> ('w, vesting_schedule) treasury_act" where
  "load_schedule b = abind (aread (\<lambda>s. tr_schedule s b)) (\<lambda>v. alift (ok_or v ScheduleNotFound))"

definition store_schedule :: "address \<Rightarrow> vesting_schedule \<Rightarrow> ('w, unit) treasury_act" where
  "store_schedule b v = amodify (\<lambda>s. s\<lparr>tr_schedule := (tr_schedule s)(b \<mapsto> v)\<rparr>)"

definition add_schedule :: "env \<Rightarrow> address \<Rightarrow> i128 \<Rightarrow> u64 \<Rightarrow> u64 \<Rightarrow> u64 \<Rightarrow> ('w, unit) treasury_act" where
  "add_schedule E beneficiary allotment start cliff duration = admin_only E
     (let schedule = \<lparr>vs_beneficiary = beneficiary, vs_total = allotment, vs_claimed = 0, vs_start = start, vs_cliff = cliff, vs_duration = duration\<rparr> in
      aseq (arefuse (\<not> schedule_is_valid schedule) InvalidSchedule)
      (abind (aread (\<lambda>s. tr_schedule s beneficiary)) (\<lambda>v.
       aseq (arefuse (v \<noteq> None) ScheduleAlreadyExists)
       (aseq (store_schedule beneficiary schedule)
       (treasury_publish (ScheduleCreatedEvent beneficiary allotment start cliff duration))))))"

definition add_team_schedule :: "env \<Rightarrow> address \<Rightarrow> i128 \<Rightarrow> u64 \<Rightarrow> ('w, unit) treasury_act" where
  "add_team_schedule E beneficiary allotment start = add_schedule E beneficiary allotment start ONE_YEAR_SECS FOUR_YEARS_SECS"

definition vested_amount :: "env \<Rightarrow> address \<Rightarrow> ('w, i128) treasury_act" where
  "vested_amount E beneficiary = aseq treasury_initialized (abind (load_schedule beneficiary) (\<lambda>v. alift (vested v (timestamp E))))"

definition vesting_claimable :: "env \<Rightarrow> address \<Rightarrow> ('w, i128) treasury_act" where
  "vesting_claimable E beneficiary = aseq treasury_initialized (abind (load_schedule beneficiary) (\<lambda>v. alift (schedule_claimable v (timestamp E))))"

section \<open>Buyback\<close>

definition set_buyback_config :: "env \<Rightarrow> address \<Rightarrow> address \<Rightarrow> address \<Rightarrow> address \<Rightarrow> i128 \<Rightarrow> ('w, unit) treasury_act" where
  "set_buyback_config E fee_token governance_token router burn_address min_amount_in = admin_only E
     (aseq (arefuse (min_amount_in \<le> 0 \<or> fee_token = governance_token \<or> burn_address = current_contract_address E) InvalidBuybackConfig)
     (aseq (amodify (\<lambda>s. s\<lparr>tr_buyback := Some \<lparr>bb_fee_token = fee_token, bb_governance_token = governance_token, bb_router = router,
        bb_burn_address = burn_address, bb_min_amount_in = min_amount_in\<rparr>\<rparr>))
     (treasury_publish (BuybackConfiguredEvent fee_token governance_token router burn_address min_amount_in))))"

definition execute_buyback :: "'w treasury_ext \<Rightarrow> env \<Rightarrow> i128 \<Rightarrow> i128 \<Rightarrow> ('w, i128) treasury_act" where
  "execute_buyback X E amount_in min_amount_out =
     aseq treasury_initialized
     (abind (aread tr_buyback) (\<lambda>c.
      abind (alift (ok_or c BuybackNotConfigured)) (\<lambda>config.
      aseq (arefuse (amount_in \<le> 0 \<or> amount_in < bb_min_amount_in config) BelowBuybackThreshold)
      (aseq (arefuse (min_amount_out \<le> 0) BuybackSlippageExceeded)
      (let contract = current_contract_address E in
       abind (treasury_balance X (bb_fee_token config) contract) (\<lambda>float.
       aseq (arefuse (float < amount_in) InsufficientBuybackFloat)
       (abind (treasury_balance X (bb_governance_token config) contract) (\<lambda>before_out.
       aseq (treasury_transfer X (bb_fee_token config) contract (bb_router config) amount_in)
       (abind (outside (\<lambda>w. tx_router_swap X w (bb_router config) (bb_fee_token config) (bb_governance_token config) amount_in min_amount_out contract))
         (\<lambda>amount_out.
       abind (treasury_balance X (bb_governance_token config) contract) (\<lambda>after_out.
       abind (alift (i128_op (after_out - before_out))) (\<lambda>received.
       aseq (arefuse (received < min_amount_out \<or> received < amount_out) BuybackSlippageExceeded)
       (aseq (treasury_transfer X (bb_governance_token config) contract (bb_burn_address config) received)
       (aseq (treasury_publish (BuybackExecutedEvent (bb_governance_token config) amount_in received (bb_burn_address config)))
       (aret received)))))))))))))))"

section \<open>Liquidation of fees\<close>

definition PRICE_SCALE :: i128 where "PRICE_SCALE = 10000000"
definition TREASURY_BPS_DENOMINATOR :: u32 where "TREASURY_BPS_DENOMINATOR = 10000"

definition whitelist_amm :: "env \<Rightarrow> address \<Rightarrow> ('w, unit) treasury_act" where
  "whitelist_amm E a = admin_only E (amodify (\<lambda>s. s\<lparr>tr_amm := Some a\<rparr>))"

definition revoke_amm :: "env \<Rightarrow> ('w, unit) treasury_act" where
  "revoke_amm E = admin_only E (abind (aread tr_amm) (\<lambda>a.
     aseq (arefuse (a = None) LiquidationNotConfigured) (amodify (\<lambda>s. s\<lparr>tr_amm := None\<rparr>))))"

definition set_stable_token :: "env \<Rightarrow> address \<Rightarrow> ('w, unit) treasury_act" where
  "set_stable_token E tok = admin_only E (amodify (\<lambda>s. s\<lparr>tr_stable_token := Some tok\<rparr>))"

definition set_price_feed :: "env \<Rightarrow> address \<Rightarrow> ('w, unit) treasury_act" where
  "set_price_feed E feed = admin_only E (amodify (\<lambda>s. s\<lparr>tr_price_feed := Some feed\<rparr>))"

definition min_out_from_price :: "i128 \<Rightarrow> i128 \<Rightarrow> u32 \<Rightarrow> (treasury_error, i128) result" where
  "min_out_from_price amount_in price max_slippage_bps =
     (if price \<le> 0 \<or> amount_in \<le> 0 then Err InvalidPrice
      else obind (checked (amount_in * price)) (\<lambda>v.
        let expected = trunc_div v PRICE_SCALE in
        if expected \<le> 0 then Err InvalidPrice
        else obind (u32_sub TREASURY_BPS_DENOMINATOR max_slippage_bps) (\<lambda>keep.
          obind (checked (expected * int keep)) (\<lambda>v'.
          let floor = trunc_div v' (int TREASURY_BPS_DENOMINATOR) in
          if floor \<le> 0 then Err InvalidPrice else Ok floor))))"

definition liquidate :: "'w treasury_ext \<Rightarrow> env \<Rightarrow> address \<Rightarrow> i128 \<Rightarrow> u32 \<Rightarrow> ('w, i128) treasury_act" where
  "liquidate X E token_in amount_in max_slippage_bps =
     abind (aread tr_stable_token) (\<lambda>st. abind (alift (ok_or st LiquidationNotConfigured)) (\<lambda>stable.
     abind (aread tr_amm) (\<lambda>am. abind (alift (ok_or am LiquidationNotConfigured)) (\<lambda>amm_addr.
     abind (aread tr_price_feed) (\<lambda>pf. abind (alift (ok_or pf LiquidationNotConfigured)) (\<lambda>feed.
     aseq (arefuse (amount_in \<le> 0 \<or> max_slippage_bps \<ge> TREASURY_BPS_DENOMINATOR \<or> token_in = stable) InvalidLiquidation)
     (let treasury = current_contract_address E in
      abind (treasury_balance X token_in treasury) (\<lambda>held.
      aseq (arefuse (held < amount_in) TreasuryInsufficientBalance)
      (abind (aread (\<lambda>s. tx_price X (tr_world s) feed token_in stable)) (\<lambda>p.
      abind (alift (unwrap p)) (\<lambda>price.
      abind (alift (min_out_from_price amount_in price max_slippage_bps)) (\<lambda>min_out.
      abind (treasury_balance X stable treasury) (\<lambda>before_out.
      aseq (treasury_transfer X token_in treasury amm_addr amount_in)
      (abind (outside (\<lambda>w. tx_amm_swap X w amm_addr token_in stable amount_in min_out treasury)) (\<lambda>reported.
      abind (treasury_balance X stable treasury) (\<lambda>after_out.
      abind (alift (i128_op (after_out - before_out))) (\<lambda>received.
      aseq (arefuse (reported < min_out \<or> received < min_out \<or> received < reported) SlippageExceeded)
      (aseq (treasury_publish (FeesLiquidatedEvent token_in stable amount_in received min_out))
      (aret received)))))))))))))))))))"

definition liquidate_fees :: "'w treasury_ext \<Rightarrow> env \<Rightarrow> address \<Rightarrow> i128 \<Rightarrow> u32 \<Rightarrow> ('w, i128) treasury_act" where
  "liquidate_fees X E token_in amount_in max_slippage_bps = admin_only E (with_lock (liquidate X E token_in amount_in max_slippage_bps))"

end
