(* ===== verification/Treasury_Portfolio.thy ===== *)
theory Treasury_Portfolio
  imports Treasury_State
begin

text \<open>
  The portfolio of yield strategies (\<open>strategies.rs\<close>), the payment of vested tokens, which recalls from it (\<open>lib.rs\<close>), the
  sweep of revenue into it (\<open>sweep.rs\<close>) and the distribution of yield to stakers (\<open>distribution.rs\<close>).
\<close>

section \<open>Weights\<close>

definition TOTAL_WEIGHT_BPS :: u32 where "TOTAL_WEIGHT_BPS = 10000"
definition MAX_STRATEGIES :: u32 where "MAX_STRATEGIES = 8"

fun sum_weights :: "(address \<times> u32) list \<Rightarrow> u32 \<Rightarrow> (treasury_error, u32) result" where
  "sum_weights [] n = Ok n"
| "sum_weights ((a, w) # ws) n = (if w = 0 then Err InvalidAllocations
     else obind (ok_or (u32_checked (n + w)) TreasuryMathOverflow) (sum_weights ws))"

fun share_out :: "i128 \<Rightarrow> (address \<times> u32) list \<Rightarrow> (address \<times> i128) list \<Rightarrow> i128 \<Rightarrow> (treasury_error, (address \<times> i128) list \<times> i128) result" where
  "share_out amount [] shares assigned = Ok (shares, assigned)"
| "share_out amount ((a, w) # ws) shares assigned =
     obind (checked (amount * int w)) (\<lambda>scaled.
     let share = trunc_div scaled (int TOTAL_WEIGHT_BPS) in
     obind (checked (assigned + share)) (\<lambda>assigned'.
     share_out amount ws (shares @ [(a, share)]) assigned'))"

text \<open>The loop at index \<open>i\<close>, with the best index so far and its weight.\<close>

fun largest_from :: "(address \<times> u32) list \<Rightarrow> u32 \<Rightarrow> u32 \<Rightarrow> u32 \<Rightarrow> u32" where
  "largest_from [] i best best_weight = best"
| "largest_from ((a, w) # ws) i best best_weight =
     (if i = 0 \<or> w > best_weight then largest_from ws (i + 1) i w else largest_from ws (i + 1) best best_weight)"

definition largest_weight_index :: "(address \<times> u32) list \<Rightarrow> u32" where
  "largest_weight_index ws = largest_from ws 0 0 0"

definition split_by_weights :: "i128 \<Rightarrow> (address \<times> u32) list \<Rightarrow> (treasury_error, (address \<times> i128) list) result" where
  "split_by_weights amount ws =
     (if ws = [] \<or> length ws > MAX_STRATEGIES then Err InvalidAllocations
      else obind (sum_weights ws 0) (\<lambda>n.
        if n \<noteq> TOTAL_WEIGHT_BPS then Err InvalidAllocations
        else obind (share_out amount ws [] 0) (\<lambda>(shares, assigned).
          obind (checked (amount - assigned)) (\<lambda>dust.
          if dust > 0 then
            let largest = largest_weight_index ws in
            if largest < length shares then
              obind (checked (snd (shares ! largest) + dust)) (\<lambda>topped_up.
              Ok (shares[largest := (fst (shares ! largest), topped_up)]))
            else Err InvalidAllocations
          else Ok shares))))"

fun valid_weights_from :: "address list \<Rightarrow> (address \<times> u32) list \<Rightarrow> u32 \<Rightarrow> bool" where
  "valid_weights_from seen [] n \<longleftrightarrow> n = TOTAL_WEIGHT_BPS"
| "valid_weights_from seen ((a, w) # ws) n \<longleftrightarrow> w \<noteq> 0 \<and> a \<notin> set seen \<and>
     (case u32_checked (n + w) of Some m \<Rightarrow> valid_weights_from (seen @ [a]) ws m | None \<Rightarrow> False)"

definition is_valid_weight_set :: "(address \<times> u32) list \<Rightarrow> bool" where
  "is_valid_weight_set ws \<longleftrightarrow> ws \<noteq> [] \<and> length ws \<le> MAX_STRATEGIES \<and> valid_weights_from [] ws 0"

section \<open>Allocations\<close>

definition is_whitelisted :: "'w treasury \<Rightarrow> address \<Rightarrow> bool" where
  "is_whitelisted s a = unwrap_or (tr_whitelisted s a) False"

definition allocation_order :: "'w treasury \<Rightarrow> address list" where
  "allocation_order s = unwrap_or (tr_allocation_order s) []"

definition allocations :: "'w treasury \<Rightarrow> strategy_allocation list" where
  "allocations s = List.map_filter (tr_allocation s) (allocation_order s)"

definition deployed_total :: "'w treasury \<Rightarrow> i128" where
  "deployed_total s = fold (\<lambda>a t. i128_saturate (t + sa_deployed a)) (allocations s) 0"

definition yield_earned_total :: "'w treasury \<Rightarrow> i128" where
  "yield_earned_total s = fold (\<lambda>a t. i128_saturate (t + sa_yield_earned a)) (allocations s) 0"

definition save_allocation :: "strategy_allocation \<Rightarrow> ('w, unit) treasury_act" where
  "save_allocation a = amodify (\<lambda>s. s\<lparr>tr_allocation := (tr_allocation s)(sa_strategy a \<mapsto> a)\<rparr>)"

definition treasury_token :: "('w, address) treasury_act" where
  "treasury_token = abind (aread tr_token) (\<lambda>t. alift (ok_or t TreasuryNotInitialized))"

definition whitelist_strategy :: "env \<Rightarrow> address \<Rightarrow> ('w, unit) treasury_act" where
  "whitelist_strategy E strategy = admin_only E
     (abind (aread (\<lambda>s. is_whitelisted s strategy)) (\<lambda>b.
      aseq (arefuse b StrategyAlreadyWhitelisted)
      (aseq (amodify (\<lambda>s. s\<lparr>tr_whitelisted := (tr_whitelisted s)(strategy \<mapsto> True)\<rparr>))
      (treasury_publish (StrategyWhitelistedEvent strategy True)))))"

definition has_funds :: "strategy_allocation \<Rightarrow> bool" where
  "has_funds a \<longleftrightarrow> sa_deployed a > 0 \<or> sa_yield_earned a > 0"

definition revoke_strategy :: "env \<Rightarrow> address \<Rightarrow> ('w, unit) treasury_act" where
  "revoke_strategy E strategy = admin_only E
     (abind (aread (\<lambda>s. s)) (\<lambda>s.
      aseq (arefuse (\<not> is_whitelisted s strategy) StrategyNotWhitelisted)
      (aseq (case tr_allocation s strategy of
          Some a \<Rightarrow> aseq (arefuse (has_funds a) StrategyHasFunds)
            (amodify (\<lambda>s. s\<lparr>tr_allocation := (tr_allocation s)(strategy := None),
               tr_allocation_order := Some (filter (\<lambda>x. x \<noteq> strategy) (allocation_order s))\<rparr>))
        | None \<Rightarrow> aret ())
      (aseq (amodify (\<lambda>s. s\<lparr>tr_whitelisted := (tr_whitelisted s)(strategy := None)\<rparr>))
      (treasury_publish (StrategyWhitelistedEvent strategy False))))))"

definition store_weight :: "address \<times> u32 \<Rightarrow> ('w, strategy_allocation) treasury_act" where
  "store_weight = (\<lambda>(strategy, weight_bps). abind (aread (\<lambda>s. tr_allocation s strategy)) (\<lambda>a.
     let updated = (unwrap_or a \<lparr>sa_strategy = strategy, sa_weight_bps = 0, sa_deployed = 0, sa_yield_earned = 0\<rparr>)\<lparr>sa_weight_bps := weight_bps\<rparr> in
     aseq (save_allocation updated) (aret updated)))"

definition drop_allocations :: "strategy_allocation list \<Rightarrow> ('w, unit) treasury_act" where
  "drop_allocations as = afor (\<lambda>a. amodify (\<lambda>s. s\<lparr>tr_allocation := (tr_allocation s)(sa_strategy a := None)\<rparr>)) as"

definition set_allocations :: "env \<Rightarrow> allocation_config list \<Rightarrow> ('w, strategy_allocation list) treasury_act" where
  "set_allocations E configs = admin_only E
     (abind (aread (\<lambda>s. s)) (\<lambda>s.
      aseq (arefuse (\<exists>c \<in> set configs. \<not> is_whitelisted s (al_strategy c)) StrategyNotWhitelisted)
      (let weights = map (\<lambda>c. (al_strategy c, al_weight_bps c)) configs; order = map fst weights; current = allocations s in
       aseq (arefuse (\<not> is_valid_weight_set weights) InvalidAllocations)
       (aseq (arefuse (\<exists>a \<in> set current. sa_strategy a \<notin> set order \<and> has_funds a) StrategyHasFunds)
       (aseq (amodify (\<lambda>s. s\<lparr>tr_allocation_order := Some order\<rparr>))
       (aseq (drop_allocations (filter (\<lambda>a. sa_strategy a \<notin> set order) current))
       (abind (amap store_weight weights) (\<lambda>stored.
        aseq (treasury_publish (AllocationsUpdatedEvent stored)) (aret stored)))))))))"

definition set_reserve_bps :: "env \<Rightarrow> u32 \<Rightarrow> ('w, unit) treasury_act" where
  "set_reserve_bps E bps = admin_only E
     (aseq (arefuse (bps > TOTAL_WEIGHT_BPS) InvalidReserve) (amodify (\<lambda>s. s\<lparr>tr_reserve_bps := Some bps\<rparr>)))"

definition reserve_bps :: "'w treasury \<Rightarrow> u32" where
  "reserve_bps s = unwrap_or (tr_reserve_bps s) TOTAL_WEIGHT_BPS"

section \<open>Moving principal\<close>

definition recall :: "'w treasury_ext \<Rightarrow> env \<Rightarrow> address \<Rightarrow> i128 \<Rightarrow> ('w, i128 \<times> i128) treasury_act" where
  "recall X E strategy want =
     abind (aread (\<lambda>s. tr_allocation s strategy)) (\<lambda>a. abind (alift (ok_or a StrategyNotAllocated)) (\<lambda>alloc.
     aseq (arefuse (want \<le> 0 \<or> sa_deployed alloc \<le> 0) NothingToRecall)
     (aseq (arefuse (want > sa_deployed alloc) RecallExceedsDeployed)
     (abind treasury_token (\<lambda>tok.
      abind (treasury_balance X tok (current_contract_address E)) (\<lambda>before.
      abind (outside (\<lambda>w. tx_withdraw X w strategy want)) (\<lambda>(principal_returned, yield_returned).
      abind (treasury_balance X tok (current_contract_address E)) (\<lambda>now.
      abind (alift (i128_op (now - before))) (\<lambda>received.
      aseq (arefuse (principal_returned \<le> 0 \<or> principal_returned > want \<or> yield_returned < 0 \<or>
               received < i128_saturate (principal_returned + yield_returned)) StrategyUnderpaid)
      (abind (alift (checked (sa_deployed alloc - principal_returned))) (\<lambda>deployed.
      abind (alift (checked (sa_yield_earned alloc + yield_returned))) (\<lambda>earned.
      aseq (save_allocation (alloc\<lparr>sa_deployed := deployed, sa_yield_earned := earned\<rparr>))
      (aseq (treasury_publish (StrategyRecalledEvent strategy principal_returned yield_returned))
      (aret (principal_returned, yield_returned)))))))))))))))"

definition deploy :: "'w treasury_ext \<Rightarrow> env \<Rightarrow> address \<Rightarrow> i128 \<Rightarrow> ('w, unit) treasury_act" where
  "deploy X E strategy amount =
     abind (aread (\<lambda>s. is_whitelisted s strategy)) (\<lambda>b.
     aseq (arefuse (\<not> b) StrategyNotWhitelisted)
     (abind (aread (\<lambda>s. tr_allocation s strategy)) (\<lambda>a. abind (alift (ok_or a StrategyNotAllocated)) (\<lambda>alloc.
      aseq (arefuse (amount \<le> 0) NothingToDeploy)
      (abind (alift (checked (sa_deployed alloc + amount))) (\<lambda>deployed.
      aseq (save_allocation (alloc\<lparr>sa_deployed := deployed\<rparr>))
      (abind treasury_token (\<lambda>tok.
      abind (treasury_balance X tok (current_contract_address E)) (\<lambda>before.
      aseq (treasury_transfer X tok (current_contract_address E) strategy amount)
      (abind (treasury_balance X tok (current_contract_address E)) (\<lambda>now.
      abind (alift (i128_op (before - now))) (\<lambda>sent.
      aseq (arefuse (sent \<noteq> amount) StrategyUnderpaid)
      (outside (\<lambda>w. map_option (Pair ()) (tx_deposit X w strategy amount)))))))))))))))"

primrec deploy_shares :: "'w treasury_ext \<Rightarrow> env \<Rightarrow> (address \<times> i128) list \<Rightarrow> i128 \<Rightarrow> ('w, i128) treasury_act" where
  "deploy_shares X E [] sent = aret sent"
| "deploy_shares X E (p # ps) sent =
     (if snd p > 0 then aseq (deploy X E (fst p) (snd p)) (abind (alift (checked (sent + snd p))) (deploy_shares X E ps))
      else deploy_shares X E ps sent)"

definition recall_all :: "'w treasury_ext \<Rightarrow> env \<Rightarrow> strategy_allocation list \<Rightarrow> ('w, unit) treasury_act" where
  "recall_all X E current = afor (\<lambda>a. if sa_deployed a > 0 then aseq (recall X E (sa_strategy a) (sa_deployed a)) (aret ()) else aret ()) current"

definition rebalance :: "'w treasury_ext \<Rightarrow> env \<Rightarrow> ('w, i128) treasury_act" where
  "rebalance X E =
     abind (aread allocations) (\<lambda>current.
     if current = [] then aret 0
     else aseq (recall_all X E current)
       (abind treasury_token (\<lambda>tok.
        abind (treasury_balance X tok (current_contract_address E)) (\<lambda>bal.
        abind (aread reserve_bps) (\<lambda>reserve.
        abind (alift (u32_sub TOTAL_WEIGHT_BPS reserve)) (\<lambda>keep.
        abind (alift (checked (bal * int keep))) (\<lambda>scaled.
        let deployable = trunc_div scaled (int TOTAL_WEIGHT_BPS); weights = map (\<lambda>a. (sa_strategy a, sa_weight_bps a)) current in
        abind (alift (split_by_weights deployable weights)) (\<lambda>shares.
        abind (deploy_shares X E shares 0) (\<lambda>sum_deployed.
        abind (aread allocations) (\<lambda>as.
        aseq (treasury_publish (PortfolioRebalancedEvent sum_deployed as)) (aret sum_deployed)))))))))))"

definition rebalance_portfolio :: "'w treasury_ext \<Rightarrow> env \<Rightarrow> ('w, i128) treasury_act" where
  "rebalance_portfolio X E = admin_only E (with_lock (rebalance X E))"

definition recall_strategy :: "'w treasury_ext \<Rightarrow> env \<Rightarrow> address \<Rightarrow> i128 \<Rightarrow> ('w, i128 \<times> i128) treasury_act" where
  "recall_strategy X E strategy want = admin_only E (with_lock
     (abind (aread (\<lambda>s. is_whitelisted s strategy)) (\<lambda>b.
      aseq (arefuse (\<not> b) StrategyNotWhitelisted) (recall X E strategy want))))"

primrec recall_shortfall :: "'w treasury_ext \<Rightarrow> env \<Rightarrow> strategy_allocation list \<Rightarrow> i128 \<Rightarrow> ('w, unit) treasury_act" where
  "recall_shortfall X E [] outstanding = aret ()"
| "recall_shortfall X E (a # as) outstanding =
     (if outstanding \<le> 0 then aret ()
      else if sa_deployed a \<le> 0 then recall_shortfall X E as outstanding
      else abind (recall X E (sa_strategy a) (min outstanding (sa_deployed a))) (\<lambda>(want, _).
        recall_shortfall X E as (i128_saturate (outstanding - want))))"

definition treasury_ensure_liquidity :: "'w treasury_ext \<Rightarrow> env \<Rightarrow> address \<Rightarrow> i128 \<Rightarrow> i128 \<Rightarrow> ('w, i128) treasury_act" where
  "treasury_ensure_liquidity X E tok bal needed =
     (if bal \<ge> needed then aret bal
      else abind (alift (i128_op (needed - bal))) (\<lambda>outstanding.
        abind (aread allocations) (\<lambda>allocs.
        aseq (recall_shortfall X E allocs outstanding)
        (treasury_balance X tok (current_contract_address E)))))"

definition claim_vested :: "'w treasury_ext \<Rightarrow> env \<Rightarrow> address \<Rightarrow> ('w, i128) treasury_act" where
  "claim_vested X E beneficiary =
     aseq treasury_initialized
     (aseq (alift (require_auth E beneficiary))
     (abind (load_schedule beneficiary) (\<lambda>schedule.
      abind (alift (schedule_claimable schedule (timestamp E))) (\<lambda>amount.
      aseq (arefuse (amount \<le> 0) NothingToClaim)
      (abind (alift (checked (vs_claimed schedule + amount))) (\<lambda>claimed.
      aseq (store_schedule beneficiary (schedule\<lparr>vs_claimed := claimed\<rparr>))
      (abind treasury_token (\<lambda>tok.
      aseq (with_lock (abind (treasury_balance X tok (current_contract_address E)) (\<lambda>bal.
              treasury_ensure_liquidity X E tok bal amount)))
      (aseq (treasury_transfer X tok (current_contract_address E) beneficiary amount)
      (aseq (treasury_publish (ClaimedEvent beneficiary amount claimed))
      (aret amount)))))))))))"

section \<open>Sweeping revenue\<close>

definition DEFAULT_SWEEP_INTERVAL_SECS :: u64 where "DEFAULT_SWEEP_INTERVAL_SECS = 7 * 24 * 60 * 60"

definition set_sweep_config :: "env \<Rightarrow> i128 \<Rightarrow> u64 \<Rightarrow> ('w, unit) treasury_act" where
  "set_sweep_config E threshold sweep_interval =
     aseq (treasury_admin_auth E)
     (aseq (arefuse (threshold < 0) InvalidReserve)
     (aseq (arefuse (sweep_interval = 0) InvalidSchedule)
     (amodify (\<lambda>s. s\<lparr>tr_sweep := Some \<lparr>sw_threshold = threshold, sw_interval = sweep_interval,
        sw_last_sweep = (case tr_sweep s of Some c \<Rightarrow> sw_last_sweep c | None \<Rightarrow> timestamp E)\<rparr>\<rparr>))))"

definition calculate_excess :: "'w treasury_ext \<Rightarrow> env \<Rightarrow> ('w, i128) treasury_act" where
  "calculate_excess X E =
     abind (aread tr_sweep) (\<lambda>c. abind (alift (ok_or c TreasuryNotInitialized)) (\<lambda>config.
     abind treasury_token (\<lambda>tok.
     abind (treasury_balance X tok (current_contract_address E)) (\<lambda>bal.
     let excess = i128_saturate (bal - sw_threshold config) in aret (if excess > 0 then excess else 0)))))"

definition is_sweep_due :: "'w treasury_ext \<Rightarrow> env \<Rightarrow> ('w, bool) treasury_act" where
  "is_sweep_due X E =
     abind (aread tr_sweep) (\<lambda>c. case c of
        None \<Rightarrow> aret False
      | Some config \<Rightarrow> abind (calculate_excess X E) (\<lambda>excess.
          aret (timestamp E \<ge> u64_saturating_add (sw_last_sweep config) (sw_interval config) \<and> excess > 0)))"

definition sweep_revenue :: "'w treasury_ext \<Rightarrow> env \<Rightarrow> ('w, i128) treasury_act" where
  "sweep_revenue X E =
     aseq treasury_initialized
     (abind (aread tr_sweep) (\<lambda>c. abind (alift (ok_or c TreasuryNotInitialized)) (\<lambda>config.
      aseq (arefuse (timestamp E < u64_saturating_add (sw_last_sweep config) (sw_interval config)) NothingToDeploy)
      (abind (calculate_excess X E) (\<lambda>excess.
      aseq (arefuse (excess \<le> 0) NothingToDeploy)
      (aseq (with_lock (rebalance X E))
      (aseq (amodify (\<lambda>s. s\<lparr>tr_sweep := Some (config\<lparr>sw_last_sweep := timestamp E\<rparr>)\<rparr>))
      (aseq (treasury_publish (RevenueSweptEvent (timestamp E) excess (timestamp E)))
      (aret excess)))))))))"

end
