(* ===== verification/Treasury_Distribution.thy ===== *)
theory Treasury_Distribution
  imports Treasury_Portfolio
begin

text \<open>
  The distribution of yield to stakers (\<open>distribution.rs\<close>): an accumulator of yield per staked token, scaled by
  \<open>YIELD_PRECISION\<close>, and a checkpoint of it per user.
\<close>

definition YIELD_PRECISION :: i128 where "YIELD_PRECISION = 1000000000"

definition config_token :: "('w, address) treasury_act" where
  "config_token = abind (aread tr_distribution_config) (\<lambda>t. alift (ok_or t DistributionNotInitialized))"

definition distribution_state_of :: "('w, distribution_state) treasury_act" where
  "distribution_state_of = abind (aread tr_distribution) (\<lambda>d. alift (ok_or d DistributionNotInitialized))"

definition save_state :: "distribution_state \<Rightarrow> ('w, unit) treasury_act" where
  "save_state d = amodify (\<lambda>s. s\<lparr>tr_distribution := Some d\<rparr>)"

definition save_user_distribution :: "address \<Rightarrow> user_distribution \<Rightarrow> ('w, unit) treasury_act" where
  "save_user_distribution user u = amodify (\<lambda>s. s\<lparr>tr_user_distribution := (tr_user_distribution s)(user \<mapsto> u)\<rparr>)"

definition fresh_user :: "distribution_state \<Rightarrow> user_distribution" where
  "fresh_user d = \<lparr>ud_staked = 0, ud_checkpoint = ds_accumulator d, ud_claimed = 0, ud_pending = 0\<rparr>"

definition pending_yield_internal :: "distribution_state \<Rightarrow> user_distribution \<Rightarrow> (treasury_error, i128) result" where
  "pending_yield_internal d u =
     (if ud_staked u \<le> 0 \<or> ds_accumulator d \<le> ud_checkpoint u then Ok 0
      else obind (checked (ds_accumulator d - ud_checkpoint u)) (\<lambda>diff.
        obind (checked (ud_staked u * diff)) (\<lambda>v. Ok (trunc_div v YIELD_PRECISION))))"

definition distribution_settle :: "user_distribution \<Rightarrow> distribution_state \<Rightarrow> (treasury_error, user_distribution) result" where
  "distribution_settle u d =
     obind (pending_yield_internal d u) (\<lambda>p.
     obind (checked (ud_pending u + p)) (\<lambda>pending.
     Ok (u\<lparr>ud_pending := pending, ud_checkpoint := ds_accumulator d\<rparr>)))"

definition distribution_claimable :: "distribution_state \<Rightarrow> user_distribution \<Rightarrow> (treasury_error, i128) result" where
  "distribution_claimable d u = obind (pending_yield_internal d u) (\<lambda>p. checked (ud_pending u + p))"

definition initialize_distribution :: "env \<Rightarrow> address \<Rightarrow> ('w, unit) treasury_act" where
  "initialize_distribution E tok = admin_only E
     (abind (aread tr_distribution_config) (\<lambda>c.
      aseq (arefuse (c \<noteq> None) DistributionAlreadyInitialized)
      (aseq (amodify (\<lambda>s. s\<lparr>tr_distribution_config := Some tok\<rparr>))
      (save_state \<lparr>ds_accumulator = 0, ds_total_distributed = 0, ds_total_staked = 0, ds_last_update = timestamp E\<rparr>))))"

definition treasury_distribute_yield :: "env \<Rightarrow> i128 \<Rightarrow> ('w, i128) treasury_act" where
  "treasury_distribute_yield E amount = admin_only E
     (aseq (arefuse (amount \<le> 0) NothingToDistribute)
     (abind config_token (\<lambda>tok.
      abind distribution_state_of (\<lambda>d.
      abind (if ds_total_staked d > 0 then
               abind (alift (checked (amount * YIELD_PRECISION))) (\<lambda>scaled.
               alift (checked (ds_accumulator d + trunc_div scaled (ds_total_staked d))))
             else aret (ds_accumulator d)) (\<lambda>acc.
      abind (alift (checked (ds_total_distributed d + amount))) (\<lambda>distributed.
      aseq (save_state (d\<lparr>ds_accumulator := acc, ds_total_distributed := distributed, ds_last_update := timestamp E\<rparr>))
      (aseq (treasury_publish (YieldDistributedEvent tok amount acc (ds_total_staked d)))
      (aret acc))))))))"

definition stake :: "'w treasury_ext \<Rightarrow> env \<Rightarrow> address \<Rightarrow> i128 \<Rightarrow> ('w, unit) treasury_act" where
  "stake X E user amount =
     aseq treasury_initialized
     (aseq (alift (require_auth E user))
     (aseq (arefuse (amount \<le> 0) NothingToStake)
     (abind distribution_state_of (\<lambda>d.
      abind treasury_token (\<lambda>tok.
      abind (aread (\<lambda>s. unwrap_or (tr_user_distribution s user) (fresh_user d))) (\<lambda>u0.
      abind (alift (distribution_settle u0 d)) (\<lambda>u.
      abind (alift (checked (ud_staked u + amount))) (\<lambda>staked.
      aseq (treasury_transfer X tok user (current_contract_address E) amount)
      (abind (alift (checked (ds_total_staked d + amount))) (\<lambda>total_staked.
      aseq (save_state (d\<lparr>ds_total_staked := total_staked\<rparr>))
      (aseq (save_user_distribution user (u\<lparr>ud_staked := staked\<rparr>))
      (treasury_publish (StakedEvent user amount total_staked)))))))))))))"

definition unstake :: "'w treasury_ext \<Rightarrow> env \<Rightarrow> address \<Rightarrow> i128 \<Rightarrow> ('w, unit) treasury_act" where
  "unstake X E user amount =
     aseq treasury_initialized
     (aseq (alift (require_auth E user))
     (aseq (arefuse (amount \<le> 0) NothingToUnstake)
     (abind distribution_state_of (\<lambda>d.
      abind treasury_token (\<lambda>tok.
      abind (aread (\<lambda>s. tr_user_distribution s user)) (\<lambda>r. abind (alift (ok_or r NothingToUnstake)) (\<lambda>u0.
      aseq (arefuse (amount > ud_staked u0) UnstakeExceedsStaked)
      (abind (alift (distribution_settle u0 d)) (\<lambda>u.
      abind (alift (checked (ud_staked u - amount))) (\<lambda>staked.
      aseq (treasury_transfer X tok (current_contract_address E) user amount)
      (abind (alift (checked (ds_total_staked d - amount))) (\<lambda>total_staked.
      aseq (save_state (d\<lparr>ds_total_staked := total_staked\<rparr>))
      (aseq (save_user_distribution user (u\<lparr>ud_staked := staked\<rparr>))
      (treasury_publish (UnstakedEvent user amount total_staked)))))))))))))))"

definition claim_yield :: "'w treasury_ext \<Rightarrow> env \<Rightarrow> address \<Rightarrow> ('w, i128) treasury_act" where
  "claim_yield X E user =
     aseq treasury_initialized
     (aseq (alift (require_auth E user))
     (abind config_token (\<lambda>tok.
      abind distribution_state_of (\<lambda>d.
      abind (aread (\<lambda>s. unwrap_or (tr_user_distribution s user) (fresh_user d))) (\<lambda>u0.
      abind (alift (distribution_settle u0 d)) (\<lambda>u.
      let amount = ud_pending u in
      aseq (arefuse (amount \<le> 0) NoYieldToClaim)
      (abind (treasury_balance X tok (current_contract_address E)) (\<lambda>float_balance.
      aseq (arefuse (float_balance < amount) TreasuryInsufficientBalance)
      (abind (alift (checked (ud_claimed u + amount))) (\<lambda>claimed.
      aseq (save_user_distribution user (u\<lparr>ud_pending := 0, ud_claimed := claimed\<rparr>))
      (aseq (treasury_transfer X tok (current_contract_address E) user amount)
      (aseq (treasury_publish (YieldClaimedEvent user amount claimed))
      (aret amount)))))))))))))"

definition pending_yield :: "address \<Rightarrow> ('w, i128) treasury_act" where
  "pending_yield user = aseq treasury_initialized
     (abind distribution_state_of (\<lambda>d.
      abind (aread (\<lambda>s. unwrap_or (tr_user_distribution s user) (fresh_user d))) (\<lambda>u.
      alift (distribution_claimable d u))))"

section \<open>The machine\<close>

datatype treasury_call =
    InitializeTreasury address address
  | AddSchedule address i128 u64 u64 u64
  | ClaimVested address
  | SetBuybackConfig address address address address i128
  | ExecuteBuyback i128 i128
  | WhitelistStrategy address
  | RevokeStrategy address
  | SetAllocations "allocation_config list"
  | SetReserveBps u32
  | RebalancePortfolio
  | RecallStrategy address i128
  | WhitelistAmm address
  | RevokeAmm
  | SetStableToken address
  | SetPriceFeed address
  | LiquidateFees address i128 u32
  | InitializeDistribution address
  | DistributeYield i128
  | Stake address i128
  | Unstake address i128
  | ClaimYield address
  | SetSweepConfig i128 u64
  | SweepRevenue

definition ignore :: "('w, 'a) treasury_act \<Rightarrow> ('w, unit) treasury_act" where
  "ignore m = aseq m (aret ())"

primrec treasury_run :: "'w treasury_ext \<Rightarrow> env \<Rightarrow> treasury_call \<Rightarrow> ('w, unit) treasury_act" where
  "treasury_run X E (InitializeTreasury a t) = treasury_init E a t"
| "treasury_run X E (AddSchedule b t st c d) = add_schedule E b t st c d"
| "treasury_run X E (ClaimVested b) = ignore (claim_vested X E b)"
| "treasury_run X E (SetBuybackConfig f g r b m) = set_buyback_config E f g r b m"
| "treasury_run X E (ExecuteBuyback a m) = ignore (execute_buyback X E a m)"
| "treasury_run X E (WhitelistStrategy a) = whitelist_strategy E a"
| "treasury_run X E (RevokeStrategy a) = revoke_strategy E a"
| "treasury_run X E (SetAllocations cs) = ignore (set_allocations E cs)"
| "treasury_run X E (SetReserveBps n) = set_reserve_bps E n"
| "treasury_run X E RebalancePortfolio = ignore (rebalance_portfolio X E)"
| "treasury_run X E (RecallStrategy a p) = ignore (recall_strategy X E a p)"
| "treasury_run X E (WhitelistAmm a) = whitelist_amm E a"
| "treasury_run X E RevokeAmm = revoke_amm E"
| "treasury_run X E (SetStableToken t) = set_stable_token E t"
| "treasury_run X E (SetPriceFeed f) = set_price_feed E f"
| "treasury_run X E (LiquidateFees t a m) = ignore (liquidate_fees X E t a m)"
| "treasury_run X E (InitializeDistribution t) = initialize_distribution E t"
| "treasury_run X E (DistributeYield a) = ignore (treasury_distribute_yield E a)"
| "treasury_run X E (Stake u a) = stake X E u a"
| "treasury_run X E (Unstake u a) = unstake X E u a"
| "treasury_run X E (ClaimYield u) = ignore (claim_yield X E u)"
| "treasury_run X E (SetSweepConfig t i) = set_sweep_config E t i"
| "treasury_run X E SweepRevenue = ignore (sweep_revenue X E)"

text \<open>A step is a committed call at some ledger, or anything the rest of the world does.\<close>

inductive treasury_step :: "'w treasury_ext \<Rightarrow> 'w treasury \<Rightarrow> 'w treasury \<Rightarrow> bool" for X where
  call: "invoke (treasury_run X E c) s = Ok ((), s') \<Longrightarrow> treasury_step X s s'"
| world: "treasury_step X s (s\<lparr>tr_world := w\<rparr>)"

end
