(* ===== verification/Treasury_Machine.thy ===== *)
theory Treasury_Machine
  imports Treasury_Distribution
begin

text \<open>
  What the treasury's calls keep. The calls that move principal and swap tokens touch the outside world, the events, the lock
  and the allocations only (locale \<open>treasury_frame\<close>); the invariants of the schedules, of the allocations and of the
  yield accounting follow along the steps.
\<close>

section \<open>When a step succeeds\<close>

lemma treasury_steps_Ok_iff [ok_iff]:
  "treasury_publish ev s = (r, s') \<longleftrightarrow> r = Ok () \<and> s' = s\<lparr>tr_events := tr_events s @ [ev]\<rparr>"
  "treasury_balance X tok a s = (q, s') \<longleftrightarrow> q = Ok (tok_balance (tx_token X) (tr_world s) tok a) \<and> s' = s"
  "outside f s = (Ok x, s') \<longleftrightarrow> (\<exists>w. f (tr_world s) = Some (x, w) \<and> s' = s\<lparr>tr_world := w\<rparr>)"
  "treasury_transfer X tok a b y s = (Ok u, s') \<longleftrightarrow> (\<exists>w. tok_transfer (tx_token X) (tr_world s) tok a b y = Some w \<and> s' = s\<lparr>tr_world := w\<rparr>)"
  "treasury_initialized s = (Ok u, s') \<longleftrightarrow> tr_admin s \<noteq> None \<and> s' = s"
  "treasury_admin_auth E s = (Ok u, s') \<longleftrightarrow> (\<exists>a. tr_admin s = Some a \<and> authorized E a) \<and> s' = s"
  "treasury_token s = (Ok t, s') \<longleftrightarrow> tr_token s = Some t \<and> s' = s"
  "load_schedule b s = (Ok v, s') \<longleftrightarrow> tr_schedule s b = Some v \<and> s' = s"
  "store_schedule b v s = (r, s') \<longleftrightarrow> r = Ok () \<and> s' = s\<lparr>tr_schedule := (tr_schedule s)(b \<mapsto> v)\<rparr>"
  "save_allocation al s = (r, s') \<longleftrightarrow> r = Ok () \<and> s' = s\<lparr>tr_allocation := (tr_allocation s)(sa_strategy al \<mapsto> al)\<rparr>"
  "config_token s = (Ok t, s') \<longleftrightarrow> tr_distribution_config s = Some t \<and> s' = s"
  "distribution_state_of s = (Ok d, s') \<longleftrightarrow> tr_distribution s = Some d \<and> s' = s"
  "save_state d s = (r, s') \<longleftrightarrow> r = Ok () \<and> s' = s\<lparr>tr_distribution := Some d\<rparr>"
  "save_user_distribution a v' s = (r, s') \<longleftrightarrow> r = Ok () \<and> s' = s\<lparr>tr_user_distribution := (tr_user_distribution s)(a \<mapsto> v')\<rparr>"
  by (auto simp: treasury_publish_def treasury_balance_def outside_def treasury_transfer_def treasury_initialized_def treasury_admin_auth_def
      treasury_token_def load_schedule_def store_schedule_def save_allocation_def config_token_def distribution_state_of_def
      save_state_def save_user_distribution_def ok_iff)

lemma checked_Ok_iff [ok_iff]: "checked x = Ok y \<longleftrightarrow> y = x \<and> in_i128 x"
  by (auto simp: checked_def ok_iff)

lemma admin_only_Ok_iff [ok_iff]:
  "admin_only E m s = (Ok x, s') \<longleftrightarrow> (\<exists>a. tr_admin s = Some a \<and> authorized E a) \<and> m s = (Ok x, s')"
  by (auto simp: admin_only_def ok_iff simp del: act_simps)

lemma with_lock_Ok_iff [ok_iff]:
  "with_lock m s = (Ok x, s') \<longleftrightarrow> \<not> unwrap_or (tr_lock s) False \<and>
     (\<exists>t. m (s\<lparr>tr_lock := Some True\<rparr>) = (Ok x, t) \<and> s' = t\<lparr>tr_lock := Some False\<rparr>)"
  by (auto simp: with_lock_def abind_def aseq_def split: prod.splits)

lemma ignore_Ok_iff [ok_iff]: "ignore m s = (Ok u, s') \<longleftrightarrow> (\<exists>x. m s = (Ok x, s'))"
  by (auto simp: ignore_def ok_iff simp del: act_simps)

lemma keeps_guards [keeps_intro]:
  "keeps P treasury_initialized" "keeps P (treasury_admin_auth E)" "keeps P treasury_token" "keeps P (load_schedule b)"
  "keeps P config_token" "keeps P distribution_state_of" "keeps P (treasury_balance X t a)"
  unfolding treasury_initialized_def treasury_admin_auth_def treasury_token_def load_schedule_def config_token_def
    distribution_state_of_def treasury_balance_def by (intro keeps_intro)+

lemma keeps_wrappers [keeps_intro]:
  "keeps P m \<Longrightarrow> keeps P (admin_only E m)" "keeps P m \<Longrightarrow> keeps P (ignore m)"
  unfolding admin_only_def ignore_def by (intro keeps_intro; assumption)+

section \<open>What moving principal leaves alone\<close>

locale treasury_frame =
  fixes P :: "'w treasury \<Rightarrow> bool"
  assumes frame_world: "P s \<Longrightarrow> P (s\<lparr>tr_world := w\<rparr>)" and frame_events: "P s \<Longrightarrow> P (s\<lparr>tr_events := ev\<rparr>)"
    and frame_lock: "P s \<Longrightarrow> P (s\<lparr>tr_lock := l\<rparr>)" and frame_allocation: "P s \<Longrightarrow> P (s\<lparr>tr_allocation := m\<rparr>)"
begin

lemma frame_steps:
  "keeps P (treasury_publish e)" "keeps P (outside f)" "keeps P (treasury_transfer X t a b y)" "keeps P (save_allocation x)"
  unfolding treasury_publish_def treasury_transfer_def outside_def save_allocation_def
  by (intro keeps_intro keeps_amodify frame_world frame_events frame_allocation; assumption)+

lemma frame_with_lock: "keeps P m \<Longrightarrow> keeps P (with_lock m)"
proof (rule keepsI)
  fix s assume m: "keeps P m" and s: "P s"
  have "P (snd (m (s\<lparr>tr_lock := Some True\<rparr>)))" using keepsD [OF m frame_lock [OF s]] by (metis prod.collapse)
  then show "P (snd (with_lock m s))" using s frame_lock
    by (auto simp: with_lock_def abind_def aseq_def split: prod.splits)
qed

lemma frame_recall: "keeps P (recall X E a p)"
  unfolding recall_def by (intro keeps_intro frame_steps)

lemma frame_deploy: "keeps P (deploy X E a p)"
  unfolding deploy_def by (intro keeps_intro frame_steps)

lemma frame_deploy_shares: "keeps P (deploy_shares X E ps t)"
proof (induction ps arbitrary: t)
  case (Cons p ps)
  show ?case unfolding deploy_shares.simps by (intro keeps_intro frame_deploy Cons.IH)
qed (simp add: keeps_intro)

lemma frame_rebalance: "keeps P (rebalance X E)"
  unfolding rebalance_def recall_all_def by (intro keeps_intro frame_steps frame_recall frame_deploy_shares)

lemma frame_recall_shortfall: "keeps P (recall_shortfall X E as p)"
proof (induction as arbitrary: p)
  case (Cons a as)
  show ?case unfolding recall_shortfall.simps by (intro keeps_intro frame_recall Cons.IH)
qed (simp add: keeps_intro)

lemma frame_ensure_liquidity: "keeps P (treasury_ensure_liquidity X E t b n)"
  unfolding treasury_ensure_liquidity_def by (intro keeps_intro frame_recall_shortfall)

lemma frame_calls:
  "keeps P (rebalance_portfolio X E)" "keeps P (recall_strategy X E a p)" "keeps P (execute_buyback X E i n)" "keeps P (liquidate_fees X E t i m)"
  unfolding rebalance_portfolio_def recall_strategy_def execute_buyback_def liquidate_fees_def liquidate_def
  by (intro keeps_intro frame_with_lock frame_steps frame_recall frame_rebalance)+

end

lemma keeps_with_lock:
  assumes "keeps P m" "\<And>s l. P s \<Longrightarrow> P (s\<lparr>tr_lock := l\<rparr>)"
  shows "keeps P (with_lock m)"
proof (rule keepsI)
  fix s assume s: "P s"
  have "P (snd (m (s\<lparr>tr_lock := Some True\<rparr>)))" using keepsD [OF assms(1) assms(2) [OF s]] by (metis prod.collapse)
  then show "P (snd (with_lock m s))" using s assms(2)
    by (auto simp: with_lock_def abind_def aseq_def split: prod.splits)
qed

section \<open>Schedules\<close>

lemma vested_cases:
  assumes "vested v now = Ok x" "schedule_is_valid v"
  obtains "now < vs_start v + vs_cliff v" "x = 0" | "vs_start v + vs_duration v \<le> now" "x = vs_total v"
  | k where "now = vs_start v + k" "vs_cliff v \<le> k" "k < vs_duration v" "x = vs_total v * int k div int (vs_duration v)"
proof -
  have v: "0 < vs_total v" "0 < vs_duration v" using assms(2) by (auto simp: schedule_is_valid_def)
  consider "now < vs_start v + vs_cliff v" | "vs_start v + vs_duration v \<le> now" "\<not> now < vs_start v + vs_cliff v"
    | "\<not> now < vs_start v + vs_cliff v" "\<not> vs_start v + vs_duration v \<le> now" by blast
  then show thesis
  proof cases
    case 3
    define k where "k = now - vs_start v"
    have k: "now = vs_start v + k" "vs_cliff v \<le> k" "k < vs_duration v" using 3 by (auto simp: k_def)
    have "x = trunc_div (vs_total v * int k) (int (vs_duration v))"
      using assms(1) 3 unfolding vested_def k_def by (simp only: ok_iff if_False if_True split: if_splits) auto
    moreover have "trunc_div (vs_total v * int k) (int (vs_duration v)) = vs_total v * int k div int (vs_duration v)"
      using v by (intro trunc_div_nonneg) auto
    ultimately show thesis using that(3) k by simp
  qed (use assms(1) that in \<open>auto simp: vested_def split: if_splits\<close>)
qed

lemma linear_share_mono:
  assumes "schedule_is_valid v" "k \<le> m"
  shows "0 \<le> vs_total v * int k div int (vs_duration v)"
    "vs_total v * int k div int (vs_duration v) \<le> vs_total v * int m div int (vs_duration v)"
proof -
  have v: "0 < vs_total v" "0 < vs_duration v" using assms(1) by (auto simp: schedule_is_valid_def)
  show "0 \<le> vs_total v * int k div int (vs_duration v)" using v by (simp add: pos_imp_zdiv_nonneg_iff)
  have "vs_total v * int k \<le> vs_total v * int m" using v assms(2) by (intro mult_left_mono) auto
  then show "vs_total v * int k div int (vs_duration v) \<le> vs_total v * int m div int (vs_duration v)" using v by (intro zdiv_mono1) auto
qed

lemma vested_bounds:
  assumes "vested v now = Ok x" "schedule_is_valid v"
  shows "0 \<le> x" "x \<le> vs_total v"
proof -
  have v: "0 < vs_total v" "0 < vs_duration v" using assms(2) by (auto simp: schedule_is_valid_def)
  have "0 \<le> x \<and> x \<le> vs_total v" using assms
  proof (cases rule: vested_cases)
    case (3 k)
    then show ?thesis using linear_share_mono [OF assms(2), of k "vs_duration v"] v by simp
  qed (use v in auto)
  then show "0 \<le> x" "x \<le> vs_total v" by auto
qed

lemma vested_mono:
  assumes "vested v now = Ok x" "vested v later = Ok y" "now \<le> later" "schedule_is_valid v"
  shows "x \<le> y"
  using assms(2,4)
proof (cases rule: vested_cases)
  case 1
  then show ?thesis using assms(1,3,4) by (elim vested_cases) (auto simp: schedule_is_valid_def)
next
  case 2
  then show ?thesis using vested_bounds [OF assms(1,4)] by simp
next
  case (3 m)
  show ?thesis using assms(1,4)
  proof (cases rule: vested_cases)
    case (3 k)
    then show ?thesis using linear_share_mono [OF assms(4), of k m] assms(3) \<open>later = vs_start v + m\<close> \<open>y = vs_total v * int m div int (vs_duration v)\<close>
      by simp
  qed (use 3 assms(3) vested_bounds [OF assms(2,4)] in auto)
qed

definition schedule_inv :: "'w treasury \<Rightarrow> bool" where
  "schedule_inv s \<longleftrightarrow> (\<forall>b v. tr_schedule s b = Some v \<longrightarrow>
     schedule_is_valid v \<and> vs_beneficiary v = b \<and> 0 \<le> vs_claimed v \<and> vs_claimed v \<le> vs_total v)"

definition schedule_evolves :: "'w treasury \<Rightarrow> 'w treasury \<Rightarrow> bool" where
  "schedule_evolves s s' \<longleftrightarrow> (\<forall>b v. tr_schedule s b = Some v \<longrightarrow> (\<exists>c \<ge> vs_claimed v. tr_schedule s' b = Some (v\<lparr>vs_claimed := c\<rparr>)))"

lemma schedule_evolves_refl: "schedule_evolves s s"
  by (auto simp: schedule_evolves_def intro!: exI [of _ "vs_claimed v" for v])

lemma schedule_evolves_trans:
  assumes "schedule_evolves s t" "schedule_evolves t u"
  shows "schedule_evolves s u"
  unfolding schedule_evolves_def
proof (intro allI impI)
  fix b v assume "tr_schedule s b = Some v"
  then obtain c where c: "vs_claimed v \<le> c" "tr_schedule t b = Some (v\<lparr>vs_claimed := c\<rparr>)" using assms(1) by (auto simp: schedule_evolves_def)
  then obtain d where "c \<le> d" "tr_schedule u b = Some (v\<lparr>vs_claimed := d\<rparr>)" using assms(2) by (fastforce simp: schedule_evolves_def)
  then show "\<exists>c\<ge>vs_claimed v. tr_schedule u b = Some (v\<lparr>vs_claimed := c\<rparr>)" using c(1) by (intro exI [of _ d]) auto
qed

interpretation schedules: treasury_frame "\<lambda>s. tr_schedule s = m" for m
  by unfold_locales simp_all

lemma claim_vested_Ok:
  assumes "claim_vested X E b s = (Ok amount, s')"
  shows "\<exists>v x tok t. authorized E b \<and> tr_schedule s b = Some v \<and> vested v (timestamp E) = Ok x \<and> amount = i128_saturate (x - vs_claimed v) \<and>
    0 < amount \<and> tr_token s = Some tok \<and> tr_schedule s' = (tr_schedule s)(b \<mapsto> v\<lparr>vs_claimed := vs_claimed v + amount\<rparr>) \<and>
    tok_transfer (tx_token X) t tok (current_contract_address E) b amount = Some (tr_world s')"
proof -
  let ?liq = "\<lambda>tok. abind (treasury_balance X tok (current_contract_address E)) (\<lambda>bal. treasury_ensure_liquidity X E tok bal amount)"
  obtain v x tok r s1 w where c: "authorized E b" "tr_schedule s b = Some v" "vested v (timestamp E) = Ok x" "amount = i128_saturate (x - vs_claimed v)"
      "0 < amount" "tr_token s = Some tok"
      "with_lock (?liq tok) (s\<lparr>tr_schedule := (tr_schedule s)(b \<mapsto> v\<lparr>vs_claimed := vs_claimed v + amount\<rparr>)\<rparr>) = (Ok r, s1)"
      "tok_transfer (tx_token X) (tr_world s1) tok (current_contract_address E) b amount = Some w"
      "tr_schedule s' = tr_schedule s1" "tr_world s' = w"
    using assms unfolding claim_vested_def schedule_claimable_def
    by (simp add: ok_iff not_le del: act_simps with_lock_Ok_iff) fastforce
  have "keeps (\<lambda>s. tr_schedule s = m) (with_lock (?liq tok))" for m
    by (intro schedules.frame_with_lock keeps_intro schedules.frame_ensure_liquidity)
  from keepsD [OF this _ c(7)] show ?thesis using c by (intro exI [of _ v] exI [of _ x] exI [of _ tok] exI [of _ "tr_world s1"]) auto
qed

lemma claim_vested_schedule:
  assumes "claim_vested X E b s = (Ok amount, s')" "schedule_inv s"
  shows "schedule_inv s' \<and> schedule_evolves s s'"
proof -
  obtain v x where c: "tr_schedule s b = Some v" "vested v (timestamp E) = Ok x" "amount = i128_saturate (x - vs_claimed v)" "0 < amount"
      "tr_schedule s' = (tr_schedule s)(b \<mapsto> v\<lparr>vs_claimed := vs_claimed v + amount\<rparr>)"
    using claim_vested_Ok [OF assms(1)] by blast
  have v: "schedule_is_valid v" "vs_beneficiary v = b" "0 \<le> vs_claimed v" using assms(2) c(1) by (auto simp: schedule_inv_def)
  have "amount \<le> x - vs_claimed v" using c(3,4) by (auto simp: i128_saturate_def)
  then have "vs_claimed v + amount \<le> vs_total v" using vested_bounds [OF c(2) v(1)] by linarith
  moreover have "schedule_is_valid (v\<lparr>vs_claimed := n\<rparr>)" for n using v(1) by (simp add: schedule_is_valid_def)
  ultimately have "schedule_inv s'" using assms(2) v c(4) by (auto simp: schedule_inv_def c(5))
  moreover have "schedule_evolves s s'"
    unfolding schedule_evolves_def
  proof (intro allI impI)
    fix b' v' assume "tr_schedule s b' = Some v'"
    then show "\<exists>n\<ge>vs_claimed v'. tr_schedule s' b' = Some (v'\<lparr>vs_claimed := n\<rparr>)"
      using c(1,4) by (intro exI [of _ "if b' = b then vs_claimed v + amount else vs_claimed v'"]) (auto simp: c(5))
  qed
  ultimately show ?thesis ..
qed

lemma add_schedule_schedule:
  assumes "add_schedule E b t st c d s = (Ok u, s')" "schedule_inv s"
  shows "schedule_inv s' \<and> schedule_evolves s s'"
proof -
  let ?v = "\<lparr>vs_beneficiary = b, vs_total = t, vs_claimed = 0, vs_start = st, vs_cliff = c, vs_duration = d\<rparr>"
  have a: "schedule_is_valid ?v" "tr_schedule s b = None" "tr_schedule s' = (tr_schedule s)(b \<mapsto> ?v)"
    using assms(1) unfolding add_schedule_def Let_def by (auto simp: ok_iff simp del: act_simps)
  have "0 < t" using a(1) by (simp add: schedule_is_valid_def)
  then have "schedule_inv s'" using assms(2) a(1) by (auto simp: schedule_inv_def a(3))
  moreover have "schedule_evolves s s'" using schedule_evolves_refl [of s] a(2) by (auto simp: schedule_evolves_def a(3))
  ultimately show ?thesis ..
qed

lemma keeps_store_weight: "(\<And>s m. P s \<Longrightarrow> P (s\<lparr>tr_allocation := m\<rparr>)) \<Longrightarrow> keeps P (store_weight p)"
  unfolding store_weight_def save_allocation_def by (intro keeps_intro keeps_amodify)

lemma schedule_keeps:
  "keeps (\<lambda>s. tr_schedule s = m) (treasury_init E a b)" "keeps (\<lambda>s. tr_schedule s = m) (set_buyback_config E f g r b n)" "keeps (\<lambda>s. tr_schedule s = m) (whitelist_strategy E a)"
  "keeps (\<lambda>s. tr_schedule s = m) (revoke_strategy E a)" "keeps (\<lambda>s. tr_schedule s = m) (set_allocations E cs)"
  "keeps (\<lambda>s. tr_schedule s = m) (set_reserve_bps E k)" "keeps (\<lambda>s. tr_schedule s = m) (whitelist_amm E a)"
  "keeps (\<lambda>s. tr_schedule s = m) (revoke_amm E)" "keeps (\<lambda>s. tr_schedule s = m) (set_stable_token E a)"
  "keeps (\<lambda>s. tr_schedule s = m) (set_price_feed E a)" "keeps (\<lambda>s. tr_schedule s = m) (initialize_distribution E a)"
  "keeps (\<lambda>s. tr_schedule s = m) (treasury_distribute_yield E n)" "keeps (\<lambda>s. tr_schedule s = m) (stake X E a n)"
  "keeps (\<lambda>s. tr_schedule s = m) (unstake X E a n)" "keeps (\<lambda>s. tr_schedule s = m) (claim_yield X E a)"
  "keeps (\<lambda>s. tr_schedule s = m) (set_sweep_config E n i)" "keeps (\<lambda>s. tr_schedule s = m) (sweep_revenue X E)"
  unfolding treasury_init_def set_buyback_config_def whitelist_strategy_def revoke_strategy_def set_allocations_def drop_allocations_def set_reserve_bps_def whitelist_amm_def
    revoke_amm_def set_stable_token_def set_price_feed_def initialize_distribution_def treasury_distribute_yield_def stake_def unstake_def
    claim_yield_def set_sweep_config_def sweep_revenue_def calculate_excess_def save_state_def save_user_distribution_def
  by (intro keeps_intro schedules.frame_steps schedules.frame_with_lock schedules.frame_rebalance keeps_store_weight keeps_amodify; simp)+

lemma treasury_run_schedule:
  assumes "treasury_run X E c s = (Ok (), s')" "schedule_inv s"
  shows "schedule_inv s' \<and> schedule_evolves s s'"
proof -
  have keep: ?thesis if "keeps (\<lambda>t. tr_schedule t = tr_schedule s) (treasury_run X E c)"
    using keepsD [OF that refl assms(1)] assms(2) schedule_evolves_refl [of s] by (simp add: schedule_inv_def schedule_evolves_def)
  show ?thesis
  proof (cases c)
    case (AddSchedule b t st c d)
    then show ?thesis using assms add_schedule_schedule by simp
  next
    case (ClaimVested b)
    then obtain n where "claim_vested X E b s = (Ok n, s')" using assms(1) by (auto simp: ok_iff)
    then show ?thesis using assms(2) by (rule claim_vested_schedule)
  qed (rule keep, simp only: treasury_run.simps, intro keeps_intro schedule_keeps schedules.frame_calls)+
qed

lemma treasury_step_schedule: "treasury_step X s s' \<Longrightarrow> schedule_inv s \<Longrightarrow> schedule_inv s' \<and> schedule_evolves s s'"
proof (induction rule: treasury_step.induct)
  case (call E c s s')
  then show ?case using treasury_run_schedule by (simp add: invoke_Ok_iff)
next
  case (world s w)
  then show ?case using schedule_evolves_refl [of s] by (simp add: schedule_inv_def schedule_evolves_def)
qed

interpretation vesting: machine "treasury_step X" schedule_inv for X
  by unfold_locales (use treasury_step_schedule in blast)

end
