(* ===== verification/Treasury_Strategies.thy ===== *)
theory Treasury_Strategies
  imports Treasury_Machine
begin

text \<open>
  The portfolio: the split by weights is exact, a recall credits a strategy with no more than it returned, and the bookkeeping
  of every allocated strategy survives all calls but the ones that drop it.
\<close>

section \<open>Splitting by weights\<close>

lemma sum_weights_Ok:
  "sum_weights ws n = Ok m \<Longrightarrow> m = n + sum_list (map snd ws) \<and> (\<forall>p \<in> set ws. 0 < snd p)"
proof (induction ws arbitrary: n)
  case (Cons p ws)
  obtain a w where p: "p = (a, w)" by fastforce
  then have "0 < w" "sum_weights ws (n + w) = Ok m" using Cons.prems by (auto simp: ok_iff split: if_splits)
  then show ?case using Cons.IH [of "n + w"] p by auto
qed simp

definition floor_share :: "i128 \<Rightarrow> u32 \<Rightarrow> i128" where
  "floor_share amount w = amount * int w div 10000"

lemma share_out_Ok:
  "share_out amount ws sh n = Ok (sh', n') \<Longrightarrow> 0 \<le> amount \<Longrightarrow>
    sh' = sh @ map (\<lambda>p. (fst p, floor_share amount (snd p))) ws \<and> n' = n + sum_list (map (\<lambda>p. floor_share amount (snd p)) ws)"
proof (induction ws arbitrary: sh n)
  case (Cons p ws)
  obtain a w where p: "p = (a, w)" by fastforce
  have "share_out amount ws (sh @ [(a, floor_share amount w)]) (n + floor_share amount w) = Ok (sh', n')"
    using Cons.prems by (auto simp: p ok_iff Let_def TOTAL_WEIGHT_BPS_def floor_share_def trunc_div_nonneg)
  from Cons.IH [OF this Cons.prems(2)] show ?case by (simp add: p)
qed simp

lemma share_dust:
  fixes ws :: "(address \<times> u32) list"
  assumes "sum_list (map snd ws) = 10000" "0 \<le> amount"
  shows "0 \<le> amount - sum_list (map (\<lambda>p. floor_share amount (snd p)) ws)"
    "ws \<noteq> [] \<Longrightarrow> amount - sum_list (map (\<lambda>p. floor_share amount (snd p)) ws) < int (length ws)"
proof -
  let ?F = "\<lambda>ws. sum_list (map (\<lambda>p. floor_share amount (snd p)) ws)"
  have "10000 * ?F ws \<le> amount * int (sum_list (map snd ws)) \<and> amount * int (sum_list (map snd ws)) \<le> 10000 * ?F ws + 9999 * int (length ws)"
    for ws :: "(address \<times> u32) list"
  proof (induction ws)
    case (Cons p ws)
    have "10000 * floor_share amount (snd p) \<le> amount * int (snd p)" "amount * int (snd p) \<le> 10000 * floor_share amount (snd p) + 9999"
      unfolding floor_share_def by linarith+
    then show ?case using Cons by (simp add: algebra_simps)
  qed simp
  from this [of ws] have b: "10000 * ?F ws \<le> amount * 10000" "amount * 10000 \<le> 10000 * ?F ws + 9999 * int (length ws)"
    using assms(1) by simp_all
  show "0 \<le> amount - ?F ws" using b(1) by linarith
  show "amount - ?F ws < int (length ws)" if "ws \<noteq> []"
  proof -
    have "0 < int (length ws)" using that by simp
    then show ?thesis using b(2) by linarith
  qed
qed

lemma largest_from_bound: "i = 0 \<and> ws \<noteq> [] \<or> best < i \<Longrightarrow> largest_from ws i best bw < i + length ws"
proof (induction ws arbitrary: i best bw)
  case (Cons p ws)
  obtain a w where p: "p = (a, w)" by fastforce
  show ?case using Cons.prems Cons.IH [of "i + 1" i w] Cons.IH [of "i + 1" best bw] by (auto simp: p)
qed simp

lemma largest_weight_index_bound: "ws \<noteq> [] \<Longrightarrow> largest_weight_index ws < length ws"
  using largest_from_bound [of 0 ws 0 0] by (simp add: largest_weight_index_def)

lemma sum_list_add_at:
  fixes xs :: "int list"
  assumes "i < length xs"
  shows "sum_list (xs[i := xs ! i + d]) = sum_list xs + d"
  using assms
proof (induction xs arbitrary: i)
  case (Cons x xs)
  then show ?case by (cases i) auto
qed simp

lemma split_by_weights_Ok:
  assumes "split_by_weights amount ws = Ok shares" "0 \<le> amount"
  shows "ws \<noteq> []" "length ws \<le> 8" "sum_list (map snd ws) = 10000"
    "\<exists>dust \<ge> 0. dust < int (length ws) \<and> shares = (map (\<lambda>p. (fst p, floor_share amount (snd p))) ws)
       [largest_weight_index ws := (fst (ws ! largest_weight_index ws), floor_share amount (snd (ws ! largest_weight_index ws)) + dust)] \<and>
     dust = amount - sum_list (map (\<lambda>p. floor_share amount (snd p)) ws)"
proof -
  let ?S = "map (\<lambda>p. (fst p, floor_share amount (snd p))) ws" and ?i = "largest_weight_index ws"
    and ?d = "amount - sum_list (map (\<lambda>p. floor_share amount (snd p)) ws)"
  have w: "ws \<noteq> []" "length ws \<le> 8" "sum_weights ws 0 = Ok 10000"
    using assms(1) by (auto simp: split_by_weights_def ok_iff MAX_STRATEGIES_def TOTAL_WEIGHT_BPS_def Let_def split: if_splits)
  show "ws \<noteq> []" "length ws \<le> 8" by (fact w)+
  show s: "sum_list (map snd ws) = 10000" using sum_weights_Ok [OF w(3)] by simp
  note d = share_dust [OF s assms(2)]
  have i: "?i < length ws" using largest_weight_index_bound [OF w(1)] .
  obtain sh n where so: "share_out amount ws [] 0 = Ok (sh, n)"
    using assms(1) w by (auto simp: split_by_weights_def ok_iff split: if_splits)
  have sh: "sh = ?S" "n = sum_list (map (\<lambda>p. floor_share amount (snd p)) ws)" using share_out_Ok [OF so assms(2)] by simp_all
  have "shares = (if 0 < ?d then ?S[?i := (fst (?S ! ?i), snd (?S ! ?i) + ?d)] else ?S)"
    using assms(1) w i by (simp add: split_by_weights_def so sh MAX_STRATEGIES_def TOTAL_WEIGHT_BPS_def Let_def ok_iff split: if_splits)
  moreover have "?S[?i := (fst (ws ! ?i), floor_share amount (snd (ws ! ?i)))] = ?S" using i by (simp add: list_eq_iff_nth_eq nth_list_update)
  ultimately have "shares = ?S[?i := (fst (ws ! ?i), floor_share amount (snd (ws ! ?i)) + ?d)]" using d(1) i by (cases "?d = 0") auto
  then show "\<exists>dust \<ge> 0. dust < int (length ws) \<and> shares = ?S[?i := (fst (ws ! ?i), floor_share amount (snd (ws ! ?i)) + dust)] \<and> dust = ?d"
    using d w(1) by blast
qed

section \<open>Bookkeeping of allocations\<close>

lemma recall_Ok:
  assumes "recall X E a p s = (Ok (q, y), s')"
  shows "\<exists>x tok w. tr_allocation s a = Some x \<and> tr_token s = Some tok \<and> 0 < p \<and> p \<le> sa_deployed x \<and> 0 < q \<and> q \<le> p \<and> 0 \<le> y \<and>
    tx_withdraw X (tr_world s) a p = Some ((q, y), w) \<and>
    i128_saturate (q + y) \<le> tok_balance (tx_token X) w tok (current_contract_address E) - tok_balance (tx_token X) (tr_world s) tok (current_contract_address E) \<and>
    s' = s\<lparr>tr_world := w, tr_allocation := (tr_allocation s)(sa_strategy x \<mapsto> x\<lparr>sa_deployed := sa_deployed x - q, sa_yield_earned := sa_yield_earned x + y\<rparr>),
      tr_events := tr_events s @ [StrategyRecalledEvent a q y]\<rparr>"
  using assms unfolding recall_def by (auto simp: ok_iff not_le not_less simp del: act_simps)

lemma deploy_Ok:
  assumes "deploy X E a p s = (Ok u, s')"
  shows "\<exists>x w. tr_allocation s a = Some x \<and> is_whitelisted s a \<and> 0 < p \<and>
    s' = s\<lparr>tr_allocation := (tr_allocation s)(sa_strategy x \<mapsto> x\<lparr>sa_deployed := sa_deployed x + p\<rparr>), tr_world := w\<rparr>"
  using assms unfolding deploy_def by (auto simp: ok_iff not_le simp del: act_simps)

definition allocation_match :: "'w treasury \<Rightarrow> bool" where
  "allocation_match s \<longleftrightarrow> (\<forall>a x. tr_allocation s a = Some x \<longrightarrow> sa_strategy x = a)"

text \<open>Principal reallocated: the same strategies are allocated, in the same order, and none has earned less.\<close>

definition reallocated :: "'w treasury \<Rightarrow> 'w treasury \<Rightarrow> bool" where
  "reallocated s s' \<longleftrightarrow> tr_allocation_order s' = tr_allocation_order s \<and>
     (\<forall>a. rel_option (\<lambda>x x'. sa_strategy x' = sa_strategy x \<and> sa_yield_earned x \<le> sa_yield_earned x') (tr_allocation s a) (tr_allocation s' a))"

lemma reallocated_refl [simp]: "reallocated s s"
  by (auto simp: reallocated_def intro: option.rel_refl)

lemma reallocated_trans:
  assumes "reallocated s t" "reallocated t u"
  shows "reallocated s u"
  unfolding reallocated_def
proof (intro conjI allI)
  show "tr_allocation_order u = tr_allocation_order s" using assms by (simp add: reallocated_def)
  fix a show "rel_option (\<lambda>x x'. sa_strategy x' = sa_strategy x \<and> sa_yield_earned x \<le> sa_yield_earned x') (tr_allocation s a) (tr_allocation u a)"
    using assms by (auto simp: reallocated_def option_rel_Some1 option_rel_Some2 elim!: option.rel_cases dest!: spec [of _ a])
qed

lemma reallocated_match: "reallocated s s' \<Longrightarrow> allocation_match s \<Longrightarrow> allocation_match s'"
  unfolding allocation_match_def
proof (intro allI impI)
  fix a x' assume m: "reallocated s s'" "\<forall>a x. tr_allocation s a = Some x \<longrightarrow> sa_strategy x = a" and x': "tr_allocation s' a = Some x'"
  from m(1) have "rel_option (\<lambda>x x'. sa_strategy x' = sa_strategy x \<and> sa_yield_earned x \<le> sa_yield_earned x') (tr_allocation s a) (Some x')"
    unfolding reallocated_def x' [symmetric] by blast
  then show "sa_strategy x' = a" using m(2) by (auto simp: option_rel_Some2)
qed

lemma reallocated_view: "tr_allocation s' = tr_allocation s \<Longrightarrow> tr_allocation_order s' = tr_allocation_order s \<Longrightarrow> reallocated s s'"
  by (auto simp: reallocated_def intro: option.rel_refl)

lemma recall_moved:
  assumes "recall X E a p s = (Ok r, s')" "allocation_match s"
  shows "reallocated s s'"
proof -
  obtain q y where "r = (q, y)" by fastforce
  with recall_Ok [of X E a p s q y s'] assms(1) obtain x w where x: "tr_allocation s a = Some x" "0 \<le> y"
    "s' = s\<lparr>tr_world := w, tr_allocation := (tr_allocation s)(sa_strategy x \<mapsto> x\<lparr>sa_deployed := sa_deployed x - q, sa_yield_earned := sa_yield_earned x + y\<rparr>),
      tr_events := tr_events s @ [StrategyRecalledEvent a q y]\<rparr>" by blast
  have "sa_strategy x = a" using assms(2) x(1) by (simp add: allocation_match_def)
  then show ?thesis using x(1,2) by (auto simp: x(3) reallocated_def intro: option.rel_refl)
qed

lemma deploy_moved:
  assumes "deploy X E a p s = (Ok u, s')" "allocation_match s"
  shows "reallocated s s'"
proof -
  obtain x w where x: "tr_allocation s a = Some x"
    "s' = s\<lparr>tr_allocation := (tr_allocation s)(sa_strategy x \<mapsto> x\<lparr>sa_deployed := sa_deployed x + p\<rparr>), tr_world := w\<rparr>"
    using deploy_Ok [OF assms(1)] by blast
  have "sa_strategy x = a" using assms(2) x(1) by (simp add: allocation_match_def)
  then show ?thesis using x(1) by (auto simp: x(2) reallocated_def intro: option.rel_refl)
qed

lemma recall_all_moved:
  assumes "recall_all X E as s = (Ok u, s')" "allocation_match s"
  shows "reallocated s s'"
  using assms
proof (induction as arbitrary: s)
  case (Cons a as)
  obtain t where t: "(if sa_deployed a > 0 then aseq (recall X E (sa_strategy a) (sa_deployed a)) (aret ()) else aret ()) s = (Ok (), t)"
      "recall_all X E as t = (Ok u, s')"
    using Cons.prems(1) unfolding recall_all_def by (auto simp: ok_iff simp del: act_simps)
  have "reallocated s t" using t(1) recall_moved [OF _ Cons.prems(2)] by (auto simp: ok_iff split: if_splits)
  then show ?case using Cons.IH [OF t(2)] reallocated_match reallocated_trans Cons.prems(2) by blast
qed (simp add: recall_all_def ok_iff)

lemma deploy_shares_moved:
  assumes "deploy_shares X E ps n s = (Ok m, s')" "allocation_match s"
  shows "reallocated s s'"
  using assms
proof (induction ps arbitrary: s n)
  case (Cons p ps)
  show ?case
  proof (cases "snd p > 0")
    case True
    then obtain t k where t: "deploy X E (fst p) (snd p) s = (Ok (), t)" "deploy_shares X E ps k t = (Ok m, s')"
      using Cons.prems(1) by (auto simp: ok_iff simp del: act_simps)
    have "reallocated s t" using deploy_moved [OF t(1) Cons.prems(2)] .
    then show ?thesis using Cons.IH [OF t(2)] reallocated_match reallocated_trans Cons.prems(2) by blast
  qed (use Cons in auto)
qed (simp add: ok_iff)

lemma recall_shortfall_moved:
  assumes "recall_shortfall X E as n s = (Ok u, s')" "allocation_match s"
  shows "reallocated s s'"
  using assms
proof (induction as arbitrary: s n)
  case (Cons a as)
  consider "n \<le> 0" | "0 < n" "sa_deployed a \<le> 0" | "0 < n" "0 < sa_deployed a" by linarith
  then show ?case
  proof cases
    case 3
    then obtain t r k where t: "recall X E (sa_strategy a) (min n (sa_deployed a)) s = (Ok r, t)" "recall_shortfall X E as k t = (Ok u, s')"
      using Cons.prems(1) by (auto simp: ok_iff simp del: act_simps)
    have "reallocated s t" using recall_moved [OF t(1) Cons.prems(2)] .
    then show ?thesis using Cons.IH [OF t(2)] reallocated_match reallocated_trans Cons.prems(2) by blast
  qed (use Cons in \<open>auto simp: ok_iff\<close>)
qed (simp add: ok_iff)

lemma rebalance_moved:
  assumes "rebalance X E s = (Ok n, s')" "allocation_match s"
  shows "reallocated s s'"
proof (cases "allocations s = []")
  case False
  then obtain t t' ps where t: "recall_all X E (allocations s) s = (Ok (), t)" "deploy_shares X E ps 0 t = (Ok n, t')"
      "s' = t'\<lparr>tr_events := tr_events t' @ [PortfolioRebalancedEvent n (allocations t')]\<rparr>"
    using assms(1) unfolding rebalance_def Let_def by (auto simp: ok_iff simp del: act_simps)
  have a: "reallocated s t" using recall_all_moved [OF t(1) assms(2)] .
  have b: "reallocated t t'" using deploy_shares_moved [OF t(2)] reallocated_match [OF a assms(2)] by blast
  have "reallocated t' s'" by (rule reallocated_view) (simp_all add: t(3))
  then show ?thesis using a b reallocated_trans by blast
qed (use assms in \<open>auto simp: rebalance_def ok_iff\<close>)

lemma ensure_liquidity_moved:
  assumes "treasury_ensure_liquidity X E t b n s = (Ok m, s')" "allocation_match s"
  shows "reallocated s s'"
  using assms recall_shortfall_moved by (fastforce simp: treasury_ensure_liquidity_def ok_iff simp del: act_simps split: if_splits)

lemma with_lock_moved:
  assumes "with_lock m s = (Ok x, s')" "allocation_match s"
    and "\<And>t t'. m t = (Ok x, t') \<Longrightarrow> allocation_match t \<Longrightarrow> reallocated t t'"
  shows "reallocated s s'"
proof -
  obtain t where t: "m (s\<lparr>tr_lock := Some True\<rparr>) = (Ok x, t)" "s' = t\<lparr>tr_lock := Some False\<rparr>" using assms(1) by (auto simp: ok_iff)
  have "allocation_match (s\<lparr>tr_lock := Some True\<rparr>)" using assms(2) by (simp add: allocation_match_def)
  from assms(3) [OF t(1) this] show ?thesis by (simp add: t(2) reallocated_def)
qed

section \<open>What the calls do to the portfolio\<close>

definition portfolio_inv :: "'w treasury \<Rightarrow> bool" where
  "portfolio_inv s \<longleftrightarrow> allocation_match s \<and> (\<forall>a. tr_allocation s a \<noteq> None \<longrightarrow> a \<in> set (allocation_order s))"

definition earned :: "'w treasury \<Rightarrow> address \<Rightarrow> bool" where
  "earned s a \<longleftrightarrow> (\<exists>x. tr_allocation s a = Some x \<and> 0 < sa_yield_earned x)"

lemma reallocated_portfolio:
  assumes "reallocated s s'" "portfolio_inv s"
  shows "portfolio_inv s' \<and> (\<forall>a. earned s a \<longrightarrow> earned s' a)"
proof -
  have r: "rel_option (\<lambda>x x'. sa_strategy x' = sa_strategy x \<and> sa_yield_earned x \<le> sa_yield_earned x') (tr_allocation s a) (tr_allocation s' a)" for a
    using assms(1) by (simp add: reallocated_def)
  have "tr_allocation s' a \<noteq> None \<Longrightarrow> tr_allocation s a \<noteq> None" for a using r [of a] by (auto simp: option_rel_Some2)
  moreover have "allocation_order s' = allocation_order s" using assms(1) by (simp add: reallocated_def allocation_order_def)
  ultimately have "portfolio_inv s'" using assms(2) reallocated_match [OF assms(1)] by (simp add: portfolio_inv_def)
  moreover have "earned s' a" if "earned s a" for a using that r [of a] by (auto simp: earned_def option_rel_Some1)
  ultimately show ?thesis by blast
qed

lemma set_map_filter: "set (List.map_filter f xs) = {y. \<exists>x \<in> set xs. f x = Some y}"
  by (induction xs) (auto simp: map_filter_simps split: option.splits)

lemma allocations_iff: "portfolio_inv s \<Longrightarrow> x \<in> set (allocations s) \<longleftrightarrow> tr_allocation s (sa_strategy x) = Some x"
  unfolding allocations_def set_map_filter portfolio_inv_def allocation_match_def by fastforce

lemma revoke_strategy_Ok:
  assumes "revoke_strategy E a s = (Ok u, s')"
  shows "is_whitelisted s a \<and> (case tr_allocation s a of Some x \<Rightarrow> \<not> has_funds x | None \<Rightarrow> True) \<and> tr_allocation s' = (tr_allocation s)(a := None) \<and>
    (allocation_order s' = (if tr_allocation s a = None then allocation_order s else filter (\<lambda>x. x \<noteq> a) (allocation_order s)))"
proof (cases "tr_allocation s a")
  case None
  then show ?thesis using assms unfolding revoke_strategy_def
    by (auto simp: ok_iff allocation_order_def fun_upd_idem simp del: act_simps)
next
  case (Some x)
  then show ?thesis using assms unfolding revoke_strategy_def by (auto simp: ok_iff allocation_order_def simp del: act_simps)
qed

lemma drop_allocations_Ok:
  assumes "drop_allocations as s = (Ok u, s')"
  shows "tr_allocation_order s' = tr_allocation_order s \<and> (\<forall>a. tr_allocation s' a = (if a \<in> sa_strategy ` set as then None else tr_allocation s a))"
  using assms unfolding drop_allocations_def by (induction as arbitrary: s) (auto simp: ok_iff)

lemma store_weight_Ok_iff [ok_iff]:
  "store_weight p s = (Ok y, s') \<longleftrightarrow>
     y = (unwrap_or (tr_allocation s (fst p)) \<lparr>sa_strategy = fst p, sa_weight_bps = 0, sa_deployed = 0, sa_yield_earned = 0\<rparr>)\<lparr>sa_weight_bps := snd p\<rparr> \<and>
     s' = s\<lparr>tr_allocation := (tr_allocation s)(sa_strategy y \<mapsto> y)\<rparr>"
  by (cases p) (auto simp: store_weight_def Let_def ok_iff)

lemma store_weights_Ok:
  assumes "amap store_weight ws s = (Ok ys, s')" "allocation_match s"
  shows "allocation_match s' \<and> tr_allocation_order s' = tr_allocation_order s \<and>
    (\<forall>a. (tr_allocation s' a \<noteq> None \<longleftrightarrow> a \<in> fst ` set ws \<or> tr_allocation s a \<noteq> None) \<and> (earned s a \<longrightarrow> earned s' a))"
  using assms
proof (induction ws arbitrary: s ys)
  case (Cons p ws)
  let ?y = "(unwrap_or (tr_allocation s (fst p)) \<lparr>sa_strategy = fst p, sa_weight_bps = 0, sa_deployed = 0, sa_yield_earned = 0\<rparr>)\<lparr>sa_weight_bps := snd p\<rparr>"
  let ?t = "s\<lparr>tr_allocation := (tr_allocation s)(fst p \<mapsto> ?y)\<rparr>"
  have y: "sa_strategy ?y = fst p" using Cons.prems(2) by (cases "tr_allocation s (fst p)") (auto simp: allocation_match_def)
  then obtain zs where t: "amap store_weight ws ?t = (Ok zs, s')" using Cons.prems(1) by (auto simp: ok_iff simp del: act_simps)
  have "allocation_match ?t" using Cons.prems(2) y by (auto simp: allocation_match_def)
  note i = Cons.IH [OF t this]
  have "earned ?t a" if "earned s a" for a using that by (auto simp: earned_def)
  then show ?case using i by auto
qed (simp add: ok_iff)

lemma set_allocations_Ok:
  assumes "set_allocations E cs s = (Ok ys, s')" "portfolio_inv s"
  shows "portfolio_inv s' \<and> (\<forall>a. earned s a \<longrightarrow> a \<in> al_strategy ` set cs \<and> earned s' a)"
proof -
  let ?ws = "map (\<lambda>c. (al_strategy c, al_weight_bps c)) cs"
  let ?s1 = "s\<lparr>tr_allocation_order := Some (map fst ?ws)\<rparr>"
  obtain t t' where c: "\<forall>x \<in> set (allocations s). sa_strategy x \<notin> set (map fst ?ws) \<longrightarrow> \<not> has_funds x"
      "drop_allocations (filter (\<lambda>a. sa_strategy a \<notin> set (map fst ?ws)) (allocations s)) ?s1 = (Ok (), t)"
      "amap store_weight ?ws t = (Ok ys, t')" "tr_allocation s' = tr_allocation t'" "tr_allocation_order s' = tr_allocation_order t'"
    using assms(1) unfolding set_allocations_def Let_def 
    by (simp only: ok_iff) (elim exE conjE, simp only: simp_thms, rule that, auto)
  note d = drop_allocations_Ok [OF c(2)]
  have m: "allocation_match t" using assms(2) d by (auto simp: portfolio_inv_def allocation_match_def)
  note w = store_weights_Ok [OF c(3) m]
  have order: "allocation_order s' = map fst ?ws" using d w c(5) by (simp add: allocation_order_def)
  have "tr_allocation t a = None" if "a \<notin> set (map fst ?ws)" for a
  proof (cases "tr_allocation s a")
    case (Some x)
    then have "x \<in> set (allocations s)" "sa_strategy x = a"
      using assms(2) allocations_iff [OF assms(2), of x] by (auto simp: portfolio_inv_def allocation_match_def)
    then show ?thesis using d that by auto
  qed (use d in simp)
  then have "a \<in> set (map fst ?ws)" if "tr_allocation s' a \<noteq> None" for a using that w c(4) by force
  then have "portfolio_inv s'" using w c(4) order by (simp add: portfolio_inv_def allocation_match_def)
  moreover have "a \<in> set (map fst ?ws) \<and> earned s' a" if "earned s a" for a
  proof -
    obtain x where x: "tr_allocation s a = Some x" "0 < sa_yield_earned x" using \<open>earned s a\<close> by (auto simp: earned_def)
    have "x \<in> set (allocations s)" "sa_strategy x = a"
      using x(1) assms(2) allocations_iff [OF assms(2), of x] by (auto simp: portfolio_inv_def allocation_match_def)
    then have a: "a \<in> set (map fst ?ws)" using c(1) x(2) by (auto simp: has_funds_def)
    then have "a \<notin> sa_strategy ` set (filter (\<lambda>x. sa_strategy x \<notin> set (map fst ?ws)) (allocations s))" by fastforce
    then have "tr_allocation t a = Some x" using d x(1) by simp
    then have "earned t a" using x(2) by (simp add: earned_def)
    then show ?thesis using a w c(4) by (simp add: earned_def)
  qed
  ultimately show ?thesis by force
qed

definition portfolio_view :: "'w treasury \<Rightarrow> (address \<rightharpoonup> strategy_allocation) \<times> address list option" where
  "portfolio_view s = (tr_allocation s, tr_allocation_order s)"

lemma portfolio_keeps_steps [keeps_intro]:
  "keeps (\<lambda>s. portfolio_view s = v) (treasury_publish e)" "keeps (\<lambda>s. portfolio_view s = v) (outside f)"
  "keeps (\<lambda>s. portfolio_view s = v) (treasury_transfer X t a b y)"
  unfolding treasury_publish_def treasury_transfer_def outside_def
  by (intro keeps_intro keeps_amodify; simp add: portfolio_view_def)+

lemma portfolio_keeps:
  "keeps (\<lambda>s. portfolio_view s = v) (treasury_init E a b)" "keeps (\<lambda>s. portfolio_view s = v) (set_buyback_config E f g r b n)" "keeps (\<lambda>s. portfolio_view s = v) (execute_buyback X E n k)"
  "keeps (\<lambda>s. portfolio_view s = v) (whitelist_strategy E a)"
  "keeps (\<lambda>s. portfolio_view s = v) (set_reserve_bps E i)" "keeps (\<lambda>s. portfolio_view s = v) (whitelist_amm E a)"
  "keeps (\<lambda>s. portfolio_view s = v) (revoke_amm E)" "keeps (\<lambda>s. portfolio_view s = v) (set_stable_token E a)"
  "keeps (\<lambda>s. portfolio_view s = v) (set_price_feed E a)" "keeps (\<lambda>s. portfolio_view s = v) (liquidate_fees X E a n i)"
  "keeps (\<lambda>s. portfolio_view s = v) (add_schedule E b n st c d)"
  "keeps (\<lambda>s. portfolio_view s = v) (initialize_distribution E a)" "keeps (\<lambda>s. portfolio_view s = v) (treasury_distribute_yield E n)"
  "keeps (\<lambda>s. portfolio_view s = v) (stake X E a n)" "keeps (\<lambda>s. portfolio_view s = v) (unstake X E a n)"
  "keeps (\<lambda>s. portfolio_view s = v) (claim_yield X E a)" "keeps (\<lambda>s. portfolio_view s = v) (set_sweep_config E n j)"
  unfolding treasury_init_def set_buyback_config_def execute_buyback_def whitelist_strategy_def set_reserve_bps_def whitelist_amm_def
    revoke_amm_def set_stable_token_def set_price_feed_def liquidate_fees_def liquidate_def add_schedule_def store_schedule_def
    initialize_distribution_def treasury_distribute_yield_def stake_def unstake_def claim_yield_def save_state_def save_user_distribution_def set_sweep_config_def
  by (intro keeps_intro keeps_with_lock keeps_amodify; simp add: portfolio_view_def)+

lemma claim_vested_moved:
  assumes "claim_vested X E b s = (Ok n, s')" "allocation_match s"
  shows "reallocated s s'"
proof -
  let ?liq = "\<lambda>tok. abind (treasury_balance X tok (current_contract_address E)) (\<lambda>bal. treasury_ensure_liquidity X E tok bal n)"
  obtain m tok r s1 where c: "with_lock (?liq tok) (s\<lparr>tr_schedule := m\<rparr>) = (Ok r, s1)" "tr_allocation s' = tr_allocation s1"
      "tr_allocation_order s' = tr_allocation_order s1"
    using assms(1) unfolding claim_vested_def by (simp add: ok_iff del: act_simps with_lock_Ok_iff) fastforce
  have "allocation_match (s\<lparr>tr_schedule := m\<rparr>)" using assms(2) by (simp add: allocation_match_def)
  from with_lock_moved [OF c(1) this] have "reallocated (s\<lparr>tr_schedule := m\<rparr>) s1"
    using ensure_liquidity_moved by (fastforce simp: ok_iff simp del: act_simps)
  then show ?thesis using c(2,3) by (simp add: reallocated_def)
qed

lemma treasury_run_portfolio:
  assumes "treasury_run X E c s = (Ok (), s')" "portfolio_inv s"
  shows "portfolio_inv s' \<and> (\<forall>a. earned s a \<longrightarrow> earned s' a)"
proof -
  have m: "allocation_match s" using assms(2) by (simp add: portfolio_inv_def)
  have keep: ?thesis if "keeps (\<lambda>t. portfolio_view t = portfolio_view s) (treasury_run X E c)"
    using keepsD [OF that refl assms(1)] reallocated_portfolio [OF reallocated_view assms(2)] by (simp add: portfolio_view_def)
  show ?thesis
  proof (cases c)
    case (ClaimVested b)
    then obtain n where "claim_vested X E b s = (Ok n, s')" using assms(1) by (auto simp: ok_iff)
    from reallocated_portfolio [OF claim_vested_moved [OF this m] assms(2)] show ?thesis .
  next
    case (RevokeStrategy a)
    then have r: "revoke_strategy E a s = (Ok (), s')" using assms(1) by simp
    show ?thesis using revoke_strategy_Ok [OF r] assms(2)
      by (auto simp: portfolio_inv_def allocation_match_def earned_def has_funds_def split: if_splits option.splits)
  next
    case (SetAllocations cs)
    then obtain ys where "set_allocations E cs s = (Ok ys, s')" using assms(1) by (auto simp: ok_iff)
    from set_allocations_Ok [OF this assms(2)] show ?thesis by blast
  next
    case RebalancePortfolio
    then obtain n where "with_lock (rebalance X E) s = (Ok n, s')" using assms(1) by (auto simp: rebalance_portfolio_def ignore_Ok_iff admin_only_Ok_iff)
    from reallocated_portfolio [OF with_lock_moved [OF this m rebalance_moved] assms(2)] show ?thesis by simp
  next
    case (RecallStrategy a p)
    then obtain r where r: "with_lock (abind (aread (\<lambda>s. is_whitelisted s a)) (\<lambda>b. aseq (arefuse (\<not> b) StrategyNotWhitelisted) (recall X E a p))) s = (Ok r, s')"
      using assms(1) by (auto simp: recall_strategy_def ignore_Ok_iff admin_only_Ok_iff)
    have "reallocated s s'" by (rule with_lock_moved [OF r m]) (auto simp: ok_iff intro: recall_moved simp del: act_simps)
    then show ?thesis using reallocated_portfolio assms(2) by blast
  next
    case SweepRevenue
    then obtain x where "sweep_revenue X E s = (Ok x, s')" using assms(1) by (auto simp: ok_iff)
    then obtain n t where t: "with_lock (rebalance X E) s = (Ok n, t)" "tr_allocation s' = tr_allocation t" "tr_allocation_order s' = tr_allocation_order t"
      unfolding sweep_revenue_def calculate_excess_def by (simp add: ok_iff Let_def del: act_simps with_lock_Ok_iff) fastforce
    have "reallocated s s'" using with_lock_moved [OF t(1) m rebalance_moved] t(2,3) by (simp add: reallocated_def)
    then show ?thesis using reallocated_portfolio assms(2) by blast
  qed (rule keep, simp only: treasury_run.simps, intro keeps_intro portfolio_keeps)+
qed

lemma treasury_step_portfolio: "treasury_step X s s' \<Longrightarrow> portfolio_inv s \<Longrightarrow> portfolio_inv s' \<and> (\<forall>a. earned s a \<longrightarrow> earned s' a)"
proof (induction rule: treasury_step.induct)
  case (call E c s s')
  then show ?case using treasury_run_portfolio by (simp add: invoke_Ok_iff)
next
  case (world s w)
  have "reallocated s (s\<lparr>tr_world := w\<rparr>)" by (rule reallocated_view) simp_all
  then show ?case using reallocated_portfolio world by blast
qed

interpretation portfolio: machine "treasury_step X" portfolio_inv for X
  by unfold_locales (use treasury_step_portfolio in blast)

end
