(* ===== verification/Treasury_Yield.thy ===== *)
theory Treasury_Yield
  imports Treasury_Machine
begin

text \<open>
  The accounting of distributed yield. In units of \<open>1 / YIELD_PRECISION\<close>, what all users have claimed, carry as pending and
  are owed since their checkpoints never exceeds what was distributed; every rounding is in favour of the treasury.
\<close>

definition yield_owed :: "distribution_state \<Rightarrow> user_distribution \<Rightarrow> int" where
  "yield_owed d u = YIELD_PRECISION * (ud_claimed u + ud_pending u) + ud_staked u * (ds_accumulator d - ud_checkpoint u)"

definition user_ok :: "distribution_state \<Rightarrow> user_distribution \<Rightarrow> bool" where
  "user_ok d u \<longleftrightarrow> 0 \<le> ud_staked u \<and> 0 \<le> ud_pending u \<and> 0 \<le> ud_claimed u \<and> ud_checkpoint u \<le> ds_accumulator d"

definition over_users :: "(user_distribution \<Rightarrow> int) \<Rightarrow> (address \<rightharpoonup> user_distribution) \<Rightarrow> int" where
  "over_users f m = (\<Sum>a\<in>dom m. f (the (m a)))"

definition yield_books :: "distribution_state \<Rightarrow> (address \<rightharpoonup> user_distribution) \<Rightarrow> bool" where
  "yield_books d m \<longleftrightarrow> finite (dom m) \<and> (\<forall>a u. m a = Some u \<longrightarrow> user_ok d u) \<and> ds_total_staked d = over_users ud_staked m \<and>
     over_users (yield_owed d) m \<le> YIELD_PRECISION * ds_total_distributed d"

definition yield_inv :: "'w treasury \<Rightarrow> bool" where
  "yield_inv s \<longleftrightarrow> (tr_distribution_config s = None \<longleftrightarrow> tr_distribution s = None) \<and>
     (case tr_distribution s of None \<Rightarrow> tr_user_distribution s = Map.empty | Some d \<Rightarrow> yield_books d (tr_user_distribution s))"

lemma over_users_update:
  assumes "finite (dom m)"
  shows "over_users f (m(a \<mapsto> u)) = over_users f m - (case m a of Some v \<Rightarrow> f v | None \<Rightarrow> 0) + f u"
proof -
  have "over_users f (m(a \<mapsto> u)) = f u + (\<Sum>x\<in>dom m - {a}. f (the ((m(a \<mapsto> u)) x)))"
    using assms by (simp add: over_users_def sum.insert_remove)
  also have "(\<Sum>x\<in>dom m - {a}. f (the ((m(a \<mapsto> u)) x))) = (\<Sum>x\<in>dom m - {a}. f (the (m x)))" by (intro sum.cong) auto
  also have "\<dots> = over_users f m - (case m a of Some v \<Rightarrow> f v | None \<Rightarrow> 0)"
    using assms by (cases "m a") (auto simp: over_users_def sum_diff1 domIff)
  finally show ?thesis by linarith
qed

lemma pending_yield_internal_Ok:
  assumes "pending_yield_internal d u = Ok p" "user_ok d u"
  shows "p = ud_staked u * (ds_accumulator d - ud_checkpoint u) div YIELD_PRECISION" "0 \<le> p"
    "YIELD_PRECISION * p \<le> ud_staked u * (ds_accumulator d - ud_checkpoint u)"
proof -
  let ?v = "ud_staked u * (ds_accumulator d - ud_checkpoint u)"
  have v: "0 \<le> ?v" using assms(2) by (auto simp: user_ok_def)
  have "?v = 0" if "ud_staked u \<le> 0 \<or> ds_accumulator d \<le> ud_checkpoint u" using that assms(2) by (auto simp: user_ok_def)
  then show p: "p = ?v div YIELD_PRECISION"
    using assms(1) v by (auto simp: pending_yield_internal_def ok_iff trunc_div_nonneg YIELD_PRECISION_def split: if_splits)
  show "0 \<le> p" using v by (simp add: p pos_imp_zdiv_nonneg_iff YIELD_PRECISION_def)
  show "YIELD_PRECISION * p \<le> ?v" unfolding p by (simp add: YIELD_PRECISION_def)
qed

lemma distribution_settle_Ok:
  assumes "distribution_settle u d = Ok u'" "user_ok d u"
  shows "user_ok d u'" "ud_staked u' = ud_staked u" "ud_claimed u' = ud_claimed u" "ud_checkpoint u' = ds_accumulator d"
    "yield_owed d u' \<le> yield_owed d u"
    "ud_pending u' = ud_pending u + ud_staked u * (ds_accumulator d - ud_checkpoint u) div YIELD_PRECISION"
proof -
  obtain p where p: "pending_yield_internal d u = Ok p" "u' = u\<lparr>ud_pending := ud_pending u + p, ud_checkpoint := ds_accumulator d\<rparr>"
    using assms(1) by (auto simp: distribution_settle_def ok_iff)
  note q = pending_yield_internal_Ok [OF p(1) assms(2)]
  show "user_ok d u'" "ud_staked u' = ud_staked u" "ud_claimed u' = ud_claimed u" "ud_checkpoint u' = ds_accumulator d"
    using assms(2) q(2) by (auto simp: p(2) user_ok_def)
  show "ud_pending u' = ud_pending u + ud_staked u * (ds_accumulator d - ud_checkpoint u) div YIELD_PRECISION" using q(1) by (simp add: p(2))
  show "yield_owed d u' \<le> yield_owed d u" using q(3) by (simp add: p(2) yield_owed_def distrib_left)
qed

text \<open>A user settles, then changes the stake by \<open>n\<close> or moves pending yield to claimed.\<close>

lemma yield_books_user:
  assumes "yield_books d m" "distribution_settle (unwrap_or (m a) (fresh_user d)) d = Ok u"
    and "user_ok d v" "ud_staked v = ud_staked u + n" "ud_claimed v + ud_pending v = ud_claimed u + ud_pending u" "ud_checkpoint v = ud_checkpoint u"
  shows "yield_books (d\<lparr>ds_total_staked := ds_total_staked d + n\<rparr>) (m(a \<mapsto> v))"
proof -
  let ?u = "unwrap_or (m a) (fresh_user d)" and ?d = "d\<lparr>ds_total_staked := ds_total_staked d + n\<rparr>"
  have ok: "user_ok d ?u" using assms(1) by (cases "m a") (auto simp: yield_books_def user_ok_def fresh_user_def)
  note st = distribution_settle_Ok [OF assms(2) ok]
  have fin: "finite (dom m)" using assms(1) by (simp add: yield_books_def)
  have owed: "yield_owed (d\<lparr>ds_total_staked := k\<rparr>) = yield_owed d" for k by (simp add: yield_owed_def fun_eq_iff)
  have old: "(case m a of Some v \<Rightarrow> f v | None \<Rightarrow> 0) = f ?u" if "f (fresh_user d) = 0" for f :: "user_distribution \<Rightarrow> int"
    using that by (cases "m a") auto
  have "yield_owed d v \<le> yield_owed d ?u" using st(4,5) assms(4-6) by (simp add: yield_owed_def)
  then have "over_users (yield_owed d) (m(a \<mapsto> v)) \<le> over_users (yield_owed d) m"
    using over_users_update [OF fin, of "yield_owed d" a v] old [of "yield_owed d"] by (simp add: yield_owed_def fresh_user_def)
  moreover have "over_users ud_staked (m(a \<mapsto> v)) = over_users ud_staked m + n"
    using over_users_update [OF fin, of ud_staked a v] old [of ud_staked] st(2) assms(4) by (simp add: fresh_user_def)
  moreover have "user_ok ?d w" if "(m(a \<mapsto> v)) b = Some w" for b w
    using that assms(1,3) by (auto simp: yield_books_def user_ok_def split: if_splits)
  ultimately show ?thesis using assms(1) fin by (auto simp: yield_books_def owed)
qed

lemma yield_books_distribute:
  assumes "yield_books d m" "0 < amount" "inc = (if ds_total_staked d > 0 then trunc_div (amount * YIELD_PRECISION) (ds_total_staked d) else 0)"
  shows "yield_books (d\<lparr>ds_accumulator := ds_accumulator d + inc, ds_total_distributed := ds_total_distributed d + amount, ds_last_update := now\<rparr>) m"
proof -
  let ?d = "d\<lparr>ds_accumulator := ds_accumulator d + inc, ds_total_distributed := ds_total_distributed d + amount, ds_last_update := now\<rparr>"
  have p: "0 < YIELD_PRECISION" by (simp add: YIELD_PRECISION_def)
  have q: "inc = amount * YIELD_PRECISION div ds_total_staked d" if "0 < ds_total_staked d"
    using assms(2,3) p that by (simp add: trunc_div_nonneg)
  have inc: "0 \<le> inc" "inc * ds_total_staked d \<le> amount * YIELD_PRECISION"
  proof -
    show "0 \<le> inc" using q assms(2,3) p by (cases "0 < ds_total_staked d") (auto simp: pos_imp_zdiv_nonneg_iff)
    show "inc * ds_total_staked d \<le> amount * YIELD_PRECISION"
    proof (cases "0 < ds_total_staked d")
      case True
      have "amount * YIELD_PRECISION div ds_total_staked d * ds_total_staked d \<le> amount * YIELD_PRECISION"
        using True by (metis div_mult_mod_eq le_add_same_cancel1 pos_mod_sign)
      then show ?thesis using q [OF True] by simp
    qed (use assms(2,3) p in auto)
  qed
  have "over_users (yield_owed ?d) m = over_users (yield_owed d) m + inc * over_users ud_staked m"
    unfolding over_users_def sum_distrib_left sum.distrib [symmetric] by (intro sum.cong) (auto simp: yield_owed_def algebra_simps)
  then have "over_users (yield_owed ?d) m \<le> YIELD_PRECISION * (ds_total_distributed d + amount)"
    using assms(1) inc(2) by (simp add: yield_books_def algebra_simps)
  moreover have "user_ok ?d u" if "m a = Some u" for a u using that assms(1) inc(1) by (fastforce simp: yield_books_def user_ok_def)
  ultimately show ?thesis using assms(1) by (simp add: yield_books_def)
qed

section \<open>The calls\<close>

lemma stake_Ok:
  assumes "stake X E a n s = (Ok u, s')"
  shows "\<exists>d v. tr_distribution s = Some d \<and> 0 < n \<and> authorized E a \<and> distribution_settle (unwrap_or (tr_user_distribution s a) (fresh_user d)) d = Ok v \<and>
    tr_distribution s' = Some (d\<lparr>ds_total_staked := ds_total_staked d + n\<rparr>) \<and> tr_distribution_config s' = tr_distribution_config s \<and>
    tr_user_distribution s' = (tr_user_distribution s)(a \<mapsto> v\<lparr>ud_staked := ud_staked v + n\<rparr>)"
  using assms unfolding stake_def by (auto simp: ok_iff not_le simp del: act_simps)

lemma unstake_Ok:
  assumes "unstake X E a n s = (Ok u, s')"
  shows "\<exists>d u0 v. tr_distribution s = Some d \<and> tr_user_distribution s a = Some u0 \<and> 0 < n \<and> n \<le> ud_staked u0 \<and> authorized E a \<and>
    distribution_settle u0 d = Ok v \<and>
    tr_distribution s' = Some (d\<lparr>ds_total_staked := ds_total_staked d - n\<rparr>) \<and> tr_distribution_config s' = tr_distribution_config s \<and>
    tr_user_distribution s' = (tr_user_distribution s)(a \<mapsto> v\<lparr>ud_staked := ud_staked v - n\<rparr>)"
  using assms unfolding unstake_def by (auto simp: ok_iff not_le not_less simp del: act_simps)

lemma claim_yield_Ok:
  assumes "claim_yield X E a s = (Ok n, s')"
  shows "\<exists>d v tok. tr_distribution s = Some d \<and> tr_distribution_config s = Some tok \<and> authorized E a \<and> 0 < n \<and>
    distribution_settle (unwrap_or (tr_user_distribution s a) (fresh_user d)) d = Ok v \<and> n = ud_pending v \<and>
    tok_transfer (tx_token X) (tr_world s) tok (current_contract_address E) a n = Some (tr_world s') \<and>
    tr_distribution s' = Some d \<and> tr_distribution_config s' = tr_distribution_config s \<and>
    tr_user_distribution s' = (tr_user_distribution s)(a \<mapsto> v\<lparr>ud_pending := 0, ud_claimed := ud_claimed v + n\<rparr>)"
  using assms unfolding claim_yield_def Let_def by (auto simp: ok_iff not_le not_less simp del: act_simps)

lemma accrual_Ok_iff:
  "(if 0 < T then abind (alift (checked x)) (\<lambda>v. alift (checked (a + trunc_div v T))) else aret a) s = (Ok b, s') \<longleftrightarrow>
     s' = s \<and> (0 < T \<longrightarrow> in_i128 x \<and> in_i128 b) \<and> b = a + (if 0 < T then trunc_div x T else 0)"
  by (cases "0 < T") (auto simp: ok_iff)

lemma treasury_distribute_yield_Ok:
  assumes "treasury_distribute_yield E n s = (Ok acc, s')"
  shows "\<exists>d. tr_distribution s = Some d \<and> 0 < n \<and>
    acc = ds_accumulator d + (if ds_total_staked d > 0 then trunc_div (n * YIELD_PRECISION) (ds_total_staked d) else 0) \<and>
    tr_distribution s' = Some (d\<lparr>ds_accumulator := acc, ds_total_distributed := ds_total_distributed d + n, ds_last_update := timestamp E\<rparr>) \<and>
    tr_distribution_config s' = tr_distribution_config s \<and> tr_user_distribution s' = tr_user_distribution s"
  using assms unfolding treasury_distribute_yield_def by (auto simp: ok_iff accrual_Ok_iff not_le simp del: act_simps split del: if_split)

definition yield_view :: "'w treasury \<Rightarrow> address option \<times> distribution_state option \<times> (address \<rightharpoonup> user_distribution)" where
  "yield_view s = (tr_distribution_config s, tr_distribution s, tr_user_distribution s)"

interpretation yields: treasury_frame "\<lambda>s. yield_view s = v" for v
  by unfold_locales (simp_all add: yield_view_def)

lemma yield_keeps:
  "keeps (\<lambda>s. yield_view s = v) (treasury_init E a b)" "keeps (\<lambda>s. yield_view s = v) (set_buyback_config E f g r b n)" "keeps (\<lambda>s. yield_view s = v) (whitelist_strategy E a)"
  "keeps (\<lambda>s. yield_view s = v) (revoke_strategy E a)" "keeps (\<lambda>s. yield_view s = v) (set_allocations E cs)"
  "keeps (\<lambda>s. yield_view s = v) (set_reserve_bps E k)" "keeps (\<lambda>s. yield_view s = v) (whitelist_amm E a)"
  "keeps (\<lambda>s. yield_view s = v) (revoke_amm E)" "keeps (\<lambda>s. yield_view s = v) (set_stable_token E a)"
  "keeps (\<lambda>s. yield_view s = v) (set_price_feed E a)" "keeps (\<lambda>s. yield_view s = v) (add_schedule E b n st c d)"
  "keeps (\<lambda>s. yield_view s = v) (claim_vested X E a)" "keeps (\<lambda>s. yield_view s = v) (set_sweep_config E n i)"
  "keeps (\<lambda>s. yield_view s = v) (sweep_revenue X E)"
  unfolding treasury_init_def set_buyback_config_def whitelist_strategy_def revoke_strategy_def set_allocations_def drop_allocations_def set_reserve_bps_def whitelist_amm_def
    revoke_amm_def set_stable_token_def set_price_feed_def add_schedule_def claim_vested_def store_schedule_def
    set_sweep_config_def sweep_revenue_def calculate_excess_def
  by (intro keeps_intro yields.frame_steps yields.frame_with_lock yields.frame_rebalance yields.frame_ensure_liquidity keeps_store_weight keeps_amodify;
      simp add: yield_view_def)+

lemma yield_books_unstaked: "d\<lparr>ds_total_staked := ds_total_staked d + 0\<rparr> = (d :: distribution_state)"
  by simp

lemma treasury_run_yield:
  assumes "treasury_run X E c s = (Ok (), s')" "yield_inv s"
  shows "yield_inv s'"
proof -
  have keep: ?thesis if "keeps (\<lambda>t. yield_view t = yield_view s) (treasury_run X E c)"
    using keepsD [OF that refl assms(1)] assms(2) by (cases "tr_distribution s") (auto simp: yield_view_def yield_inv_def)
  have books: "yield_books d (tr_user_distribution s)" if "tr_distribution s = Some d" for d using that assms(2) by (simp add: yield_inv_def)
  have user: "user_ok d (unwrap_or (tr_user_distribution s a) (fresh_user d))" if "tr_distribution s = Some d" for d a
    using books [OF that] by (cases "tr_user_distribution s a") (auto simp: yield_books_def user_ok_def fresh_user_def)
  show ?thesis
  proof (cases c)
    case (InitializeDistribution t)
    then have "tr_distribution s = None" "tr_distribution_config s' \<noteq> None" "tr_user_distribution s' = tr_user_distribution s"
      "\<exists>d. tr_distribution s' = Some d \<and> ds_total_staked d = 0 \<and> ds_total_distributed d = 0"
      using assms by (auto simp: initialize_distribution_def ok_iff yield_inv_def simp del: act_simps)
    then show ?thesis using assms(2) by (auto simp: yield_inv_def yield_books_def over_users_def)
  next
    case (DistributeYield n)
    then obtain acc where "treasury_distribute_yield E n s = (Ok acc, s')" using assms(1) by (auto simp: ok_iff)
    from treasury_distribute_yield_Ok [OF this] obtain d where d: "tr_distribution s = Some d" "0 < n"
      "acc = ds_accumulator d + (if ds_total_staked d > 0 then trunc_div (n * YIELD_PRECISION) (ds_total_staked d) else 0)"
      "tr_distribution s' = Some (d\<lparr>ds_accumulator := acc, ds_total_distributed := ds_total_distributed d + n, ds_last_update := timestamp E\<rparr>)"
      "tr_distribution_config s' = tr_distribution_config s" "tr_user_distribution s' = tr_user_distribution s" by blast
    from yield_books_distribute [OF books [OF d(1)] d(2) refl] show ?thesis
      using assms(2) d(1) by (simp add: yield_inv_def d(3-6))
  next
    case (Stake a n)
    then obtain d v where d: "tr_distribution s = Some d" "0 < n" "distribution_settle (unwrap_or (tr_user_distribution s a) (fresh_user d)) d = Ok v"
      "tr_distribution s' = Some (d\<lparr>ds_total_staked := ds_total_staked d + n\<rparr>)" "tr_distribution_config s' = tr_distribution_config s"
      "tr_user_distribution s' = (tr_user_distribution s)(a \<mapsto> v\<lparr>ud_staked := ud_staked v + n\<rparr>)"
      using assms(1) stake_Ok [of X E a n s "()" s'] by auto
    have "user_ok d (v\<lparr>ud_staked := ud_staked v + n\<rparr>)" using distribution_settle_Ok(1) [OF d(3) user [OF d(1)]] d(2) by (simp add: user_ok_def)
    from yield_books_user [OF books [OF d(1)] d(3) this] show ?thesis using assms(2) d by (simp add: yield_inv_def)
  next
    case (Unstake a n)
    then obtain d u0 v where d: "tr_distribution s = Some d" "tr_user_distribution s a = Some u0" "0 < n" "n \<le> ud_staked u0" "distribution_settle u0 d = Ok v"
      "tr_distribution s' = Some (d\<lparr>ds_total_staked := ds_total_staked d - n\<rparr>)" "tr_distribution_config s' = tr_distribution_config s"
      "tr_user_distribution s' = (tr_user_distribution s)(a \<mapsto> v\<lparr>ud_staked := ud_staked v - n\<rparr>)"
      using assms(1) unstake_Ok [of X E a n s "()" s'] by auto
    have st: "distribution_settle (unwrap_or (tr_user_distribution s a) (fresh_user d)) d = Ok v" using d(2,5) by simp
    have "user_ok d (v\<lparr>ud_staked := ud_staked v - n\<rparr>)"
      using distribution_settle_Ok(1,2) [OF st user [OF d(1)]] d(2,4) by (simp add: user_ok_def)
    from yield_books_user [OF books [OF d(1)] st this, of "- n"] show ?thesis using assms(2) d by (simp add: yield_inv_def)
  next
    case (ClaimYield a)
    then obtain n where "claim_yield X E a s = (Ok n, s')" using assms(1) by (auto simp: ok_iff)
    from claim_yield_Ok [OF this] obtain d v where d: "tr_distribution s = Some d" "0 < n"
      "distribution_settle (unwrap_or (tr_user_distribution s a) (fresh_user d)) d = Ok v" "n = ud_pending v"
      "tr_distribution s' = Some d" "tr_distribution_config s' = tr_distribution_config s"
      "tr_user_distribution s' = (tr_user_distribution s)(a \<mapsto> v\<lparr>ud_pending := 0, ud_claimed := ud_claimed v + n\<rparr>)" by blast
    have "user_ok d (v\<lparr>ud_pending := 0, ud_claimed := ud_claimed v + n\<rparr>)"
      using distribution_settle_Ok(1) [OF d(3) user [OF d(1)]] d(2) by (simp add: user_ok_def)
    from yield_books_user [OF books [OF d(1)] d(3) this, of 0] show ?thesis using assms(2) d by (simp add: yield_inv_def)
  qed (rule keep, simp only: treasury_run.simps, intro keeps_intro yield_keeps yields.frame_calls)+
qed

interpretation yield_accounting: machine "treasury_step X" yield_inv for X
proof unfold_locales
  fix s s' :: "'a treasury" assume "yield_inv s" "treasury_step X s s'"
  from this(2,1) show "yield_inv s'"
  proof cases
    case (call E c)
    then show ?thesis using treasury_run_yield \<open>yield_inv s\<close> by (simp add: invoke_Ok_iff)
  qed (auto simp: yield_inv_def)
qed

end
