(* ===== verification/Treasury_Claims.thy ===== *)
theory Treasury_Claims
  imports Treasury_Strategies Treasury_Yield
begin

text \<open>
  What the treasury guarantees to beneficiaries and stakers, how it splits and swaps funds, and what its bookkeeping of
  strategies rules out. The instances run on a treasury over a ledger of balances.
\<close>

section \<open>A small treasury\<close>

text \<open>Address 1 is the treasury, 2 its admin, 7 and 8 users, 9 the token, 10 the yield token, 20 a strategy that adds 10 to a
  withdrawal, 30 a market maker that pays two for one, 31 a price feed of the same price.\<close>

definition tw_ext :: "ledger treasury_ext" where
  "tw_ext = \<lparr>tx_token = ledger_token, tx_deposit = (\<lambda>w a x. Some w),
     tx_withdraw = (\<lambda>w a x. map_option (Pair (x, 10)) (ledger_transfer w 9 a 1 (x + 10))),
     tx_router_swap = (\<lambda>w r i t x m a. None),
     tx_amm_swap = (\<lambda>w r i t x m a. map_option (Pair (2 * x)) (ledger_transfer w t r a (2 * x))),
     tx_price = (\<lambda>w f b q. Some 20000000)\<rparr>"

definition tw_env :: "u64 \<Rightarrow> env" where
  "tw_env n = \<lparr>sequence = 0, timestamp = n, current_contract_address = 1, authorized = (\<lambda>a. a \<noteq> 1)\<rparr>"

definition tw_ledger :: ledger where
  "tw_ledger t a = (if t = 9 \<and> a = 1 then 500 else if t = 9 \<and> a \<in> {7, 8, 20} then 50 else if t = 10 \<and> a = 1 then 100 else if t = 11 \<and> a = 30 then 90 else 0)"

definition tw_next :: "u64 \<Rightarrow> treasury_call \<Rightarrow> ledger treasury \<Rightarrow> ledger treasury" where
  "tw_next n c s = snd (treasury_run tw_ext (tw_env n) c s)"

definition tw_init :: "ledger treasury" where
  "tw_init = tw_next 0 (InitializeTreasury 2 9) (treasury_empty tw_ledger)"

lemmas tw_defs = tw_next_def tw_env_def abind_def aseq_def ok_or_def unwrap_def require_auth_def admin_only_def ignore_def with_lock_def
  treasury_initialized_def treasury_admin_auth_def treasury_publish_def treasury_balance_def outside_def treasury_transfer_def treasury_token_def
  checked_def i128_checked_def i128_op_def in_i128_def tw_ext_def ledger_token_def ledger_transfer_def

lemma tw_init_run: "treasury_run tw_ext (tw_env 0) (InitializeTreasury 2 9) (treasury_empty tw_ledger) = (Ok (), tw_init)"
  "tw_init = (treasury_empty tw_ledger)\<lparr>tr_admin := Some 2, tr_token := Some 9\<rparr>"
  by (simp_all add: tw_init_def tw_defs treasury_init_def treasury_empty_def)

lemma tw_step: "treasury_run tw_ext (tw_env n) c s = (Ok (), s') \<Longrightarrow> treasury_step tw_ext s s'"
  by (rule treasury_step.call [where E = "tw_env n" and c = c]) (simp add: invoke_Ok_iff)

lemma treasury_empty_invs: "schedule_inv (treasury_empty w)" "yield_inv (treasury_empty w)" "portfolio_inv (treasury_empty w)"
  by (simp_all add: treasury_empty_def schedule_inv_def yield_inv_def portfolio_inv_def allocation_match_def)

section \<open>Vesting\<close>

definition tw_scheduled :: "ledger treasury" where "tw_scheduled = tw_next 5 (AddSchedule 7 400 0 100 400) tw_init"
definition tw_claimed :: "ledger treasury" where "tw_claimed = tw_next 201 (ClaimVested 7) tw_scheduled"

definition tw_schedule :: "i128 \<Rightarrow> vesting_schedule" where
  "tw_schedule c = \<lparr>vs_beneficiary = 7, vs_total = 400, vs_claimed = c, vs_start = 0, vs_cliff = 100, vs_duration = 400\<rparr>"

lemma tw_scheduled_run: "treasury_run tw_ext (tw_env 5) (AddSchedule 7 400 0 100 400) tw_init = (Ok (), tw_scheduled)"
  "tw_scheduled = tw_init\<lparr>tr_schedule := [7 \<mapsto> tw_schedule 0], tr_events := [ScheduleCreatedEvent 7 400 0 100 400]\<rparr>"
  by (simp_all add: tw_scheduled_def tw_init_run(2) tw_defs treasury_empty_def add_schedule_def store_schedule_def schedule_is_valid_def tw_schedule_def)

lemma tw_claimed_run: "claim_vested tw_ext (tw_env 201) 7 tw_scheduled = (Ok 201, tw_claimed)" "tr_schedule tw_claimed 7 = Some (tw_schedule 201)"
  by (simp_all add: tw_claimed_def tw_scheduled_run(2) tw_init_run(2) tw_defs treasury_empty_def claim_vested_def load_schedule_def schedule_claimable_def
      vested_def in_u64_def tw_schedule_def i128_saturate_def trunc_div_nonneg store_schedule_def treasury_ensure_liquidity_def tw_ledger_def)

text \<open>C36: A vesting schedule is a promise. In every reachable state each schedule is valid and claimed at most in full; it can
  never be changed or revoked, only claimed further; nothing unlocks before the cliff, the unlocked amount never shrinks and
  reaches the total at the end; and a committed claim is authorized by the beneficiary, pays exactly what is unlocked and not
  yet claimed, and books it.\<close>

theorem vesting_safe:
  assumes "(treasury_step X)\<^sup>*\<^sup>* (treasury_empty w) s" "tr_schedule s b = Some v"
  shows "0 \<le> vs_claimed v \<and> vs_claimed v \<le> vs_total v \<and> vs_beneficiary v = b \<and>
    (\<forall>s'. (treasury_step X)\<^sup>*\<^sup>* s s' \<longrightarrow> (\<exists>c \<ge> vs_claimed v. c \<le> vs_total v \<and> tr_schedule s' b = Some (v\<lparr>vs_claimed := c\<rparr>))) \<and>
    (\<forall>t x. vested v t = Ok x \<longrightarrow> 0 \<le> x \<and> x \<le> vs_total v \<and> (t < vs_start v + vs_cliff v \<longrightarrow> x = 0) \<and> (vs_start v + vs_duration v \<le> t \<longrightarrow> x = vs_total v) \<and>
       (\<forall>t' y. t \<le> t' \<longrightarrow> vested v t' = Ok y \<longrightarrow> x \<le> y)) \<and>
    (\<forall>E n s'. in_i128 (vs_total v) \<longrightarrow> claim_vested X E b s = (Ok n, s') \<longrightarrow> authorized E b \<and> 0 < n \<and>
       vested v (timestamp E) = Ok (vs_claimed v + n) \<and> tr_schedule s' = (tr_schedule s)(b \<mapsto> v\<lparr>vs_claimed := vs_claimed v + n\<rparr>) \<and>
       (\<exists>u tok. tr_token s = Some tok \<and> tok_transfer (tx_token X) u tok (current_contract_address E) b n = Some (tr_world s')))"
proof -
  have inv: "schedule_inv s" using vesting.steps_inv [OF assms(1)] treasury_empty_invs(1) .
  then have v: "schedule_is_valid v" "vs_beneficiary v = b" "0 \<le> vs_claimed v" "vs_claimed v \<le> vs_total v" using assms(2) by (auto simp: schedule_inv_def)
  have later: "\<exists>c \<ge> vs_claimed v. c \<le> vs_total v \<and> tr_schedule s' b = Some (v\<lparr>vs_claimed := c\<rparr>)" if "(treasury_step X)\<^sup>*\<^sup>* s s'" for s'
  proof -
    have "schedule_evolves s s'" using that inv
      by (rule vesting.steps_rel) (use treasury_step_schedule schedule_evolves_refl schedule_evolves_trans in blast)+
    then obtain c where c: "vs_claimed v \<le> c" "tr_schedule s' b = Some (v\<lparr>vs_claimed := c\<rparr>)" using assms(2) by (auto simp: schedule_evolves_def)
    have "schedule_inv s'" using vesting.steps_inv [OF that inv] .
    then have "c \<le> vs_total v" using c(2) by (fastforce simp: schedule_inv_def)
    then show ?thesis using c by blast
  qed
  have curve: "0 \<le> x \<and> x \<le> vs_total v \<and> (t < vs_start v + vs_cliff v \<longrightarrow> x = 0) \<and> (vs_start v + vs_duration v \<le> t \<longrightarrow> x = vs_total v) \<and>
       (\<forall>t' y. t \<le> t' \<longrightarrow> vested v t' = Ok y \<longrightarrow> x \<le> y)" if "vested v t = Ok x" for t x
  proof -
    have "(t < vs_start v + vs_cliff v \<longrightarrow> x = 0) \<and> (vs_start v + vs_duration v \<le> t \<longrightarrow> x = vs_total v)"
      using that v(1) by (cases rule: vested_cases) (use v(1) in \<open>auto simp: schedule_is_valid_def\<close>)
    then show ?thesis using vested_bounds [OF that v(1)] vested_mono [OF that _ _ v(1)] by blast
  qed
  have claim: "authorized E b \<and> 0 < n \<and> vested v (timestamp E) = Ok (vs_claimed v + n) \<and> tr_schedule s' = (tr_schedule s)(b \<mapsto> v\<lparr>vs_claimed := vs_claimed v + n\<rparr>) \<and>
       (\<exists>u tok. tr_token s = Some tok \<and> tok_transfer (tx_token X) u tok (current_contract_address E) b n = Some (tr_world s'))"
    if fits: "in_i128 (vs_total v)" and run: "claim_vested X E b s = (Ok n, s')" for E n s'
  proof -
    obtain x tok u where c: "authorized E b" "vested v (timestamp E) = Ok x" "n = i128_saturate (x - vs_claimed v)" "0 < n" "tr_token s = Some tok"
        "tr_schedule s' = (tr_schedule s)(b \<mapsto> v\<lparr>vs_claimed := vs_claimed v + n\<rparr>)"
        "tok_transfer (tx_token X) u tok (current_contract_address E) b n = Some (tr_world s')"
      using claim_vested_Ok [OF run] assms(2) by auto
    have "x - vs_claimed v \<le> vs_total v" using vested_bounds [OF c(2) v(1)] v(3) by linarith
    then have "n = x - vs_claimed v" using c(3,4) fits by (auto simp: i128_saturate_def in_i128_def)
    then show ?thesis using c by auto
  qed
  show ?thesis using v later curve claim by blast
qed

theorem vesting_safe_witness:
  "vested (tw_schedule 0) 201 = Ok 201 \<and> tr_schedule tw_claimed 7 = Some (tw_schedule 201)"
proof -
  have r: "(treasury_step tw_ext)\<^sup>*\<^sup>* (treasury_empty tw_ledger) tw_scheduled"
    using tw_step [OF tw_init_run(1)] tw_step [OF tw_scheduled_run(1)] by (meson converse_rtranclp_into_rtranclp rtranclp.rtrancl_refl)
  have "tr_schedule tw_scheduled 7 = Some (tw_schedule 0)" by (simp add: tw_scheduled_run(2))
  moreover have "in_i128 (vs_total (tw_schedule 0))" by (simp add: tw_schedule_def in_i128_def)
  ultimately have "vested (tw_schedule 0) (timestamp (tw_env 201)) = Ok (vs_claimed (tw_schedule 0) + 201)"
    using vesting_safe [OF r] tw_claimed_run(1) by blast
  then show ?thesis using tw_claimed_run(2) by (simp add: tw_env_def tw_schedule_def)
qed

section \<open>Yield\<close>

text \<open>What a user may still claim of the distributed yield.\<close>

definition yield_due :: "distribution_state \<Rightarrow> user_distribution \<Rightarrow> i128" where
  "yield_due d u = ud_pending u + ud_staked u * (ds_accumulator d - ud_checkpoint u) div YIELD_PRECISION"

definition tw_distributing :: "ledger treasury" where "tw_distributing = tw_next 1 (InitializeDistribution 10) tw_init"
definition tw_staked :: "ledger treasury" where "tw_staked = tw_next 3 (Stake 8 10) (tw_next 2 (Stake 7 30) tw_distributing)"
definition tw_yield :: "ledger treasury" where "tw_yield = tw_next 4 (DistributeYield 100) tw_staked"

lemmas tw_yield_defs = initialize_distribution_def treasury_distribute_yield_def stake_def config_token_def distribution_state_of_def save_state_def
  save_user_distribution_def fresh_user_def distribution_settle_def pending_yield_internal_def YIELD_PRECISION_def trunc_div_nonneg

lemma tw_distributing_run: "treasury_run tw_ext (tw_env 1) (InitializeDistribution 10) tw_init = (Ok (), tw_distributing)"
  "tw_distributing = tw_init\<lparr>tr_distribution_config := Some 10,
     tr_distribution := Some \<lparr>ds_accumulator = 0, ds_total_distributed = 0, ds_total_staked = 0, ds_last_update = 1\<rparr>\<rparr>"
  by (simp_all add: tw_distributing_def tw_init_run(2) tw_defs treasury_empty_def tw_yield_defs)

definition tw_user :: "i128 \<Rightarrow> user_distribution" where
  "tw_user n = \<lparr>ud_staked = n, ud_checkpoint = 0, ud_claimed = 0, ud_pending = 0\<rparr>"

lemma tw_stake_run: "treasury_run tw_ext (tw_env 2) (Stake 7 30) tw_distributing = (Ok (), tw_next 2 (Stake 7 30) tw_distributing)"
  "tr_distribution (tw_next 2 (Stake 7 30) tw_distributing) = Some \<lparr>ds_accumulator = 0, ds_total_distributed = 0, ds_total_staked = 30, ds_last_update = 1\<rparr>"
  "tr_user_distribution (tw_next 2 (Stake 7 30) tw_distributing) = [7 \<mapsto> tw_user 30]" "tr_admin (tw_next 2 (Stake 7 30) tw_distributing) = Some 2"
  "tr_token (tw_next 2 (Stake 7 30) tw_distributing) = Some 9" "tr_world (tw_next 2 (Stake 7 30) tw_distributing) 9 8 = 50"
  "tr_distribution_config (tw_next 2 (Stake 7 30) tw_distributing) = Some 10"
  by (simp_all add: tw_distributing_run(2) tw_init_run(2) tw_defs treasury_empty_def tw_yield_defs tw_ledger_def tw_user_def)

lemma tw_staked_run: "treasury_run tw_ext (tw_env 3) (Stake 8 10) (tw_next 2 (Stake 7 30) tw_distributing) = (Ok (), tw_staked)"
  "tr_distribution tw_staked = Some \<lparr>ds_accumulator = 0, ds_total_distributed = 0, ds_total_staked = 40, ds_last_update = 1\<rparr>"
  "tr_user_distribution tw_staked = [7 \<mapsto> tw_user 30, 8 \<mapsto> tw_user 10]" "tr_admin tw_staked = Some 2" "tr_distribution_config tw_staked = Some 10"
proof -
  define s where "s = tw_next 2 (Stake 7 30) tw_distributing"
  note f = tw_stake_run(2-7) [folded s_def]
  show "treasury_run tw_ext (tw_env 3) (Stake 8 10) (tw_next 2 (Stake 7 30) tw_distributing) = (Ok (), tw_staked)"
    "tr_distribution tw_staked = Some \<lparr>ds_accumulator = 0, ds_total_distributed = 0, ds_total_staked = 40, ds_last_update = 1\<rparr>"
    "tr_user_distribution tw_staked = [7 \<mapsto> tw_user 30, 8 \<mapsto> tw_user 10]" "tr_admin tw_staked = Some 2" "tr_distribution_config tw_staked = Some 10"
    unfolding tw_staked_def s_def [symmetric] by (simp_all add: f tw_defs tw_yield_defs tw_user_def)
qed

lemma tw_yield_run: "treasury_run tw_ext (tw_env 4) (DistributeYield 100) tw_staked = (Ok (), tw_yield)"
  "tr_distribution tw_yield = Some \<lparr>ds_accumulator = 2500000000, ds_total_distributed = 100, ds_total_staked = 40, ds_last_update = 4\<rparr>"
  "tr_user_distribution tw_yield = [7 \<mapsto> tw_user 30, 8 \<mapsto> tw_user 10]"
  by (simp_all add: tw_yield_def tw_staked_run tw_defs tw_yield_defs)

text \<open>C37: Yield is never paid twice or beyond what was distributed. In every reachable state the total staked is the sum of the
  stakes, no stake or pending amount is negative, and what all users have claimed together with what they may still claim
  is at most the total distributed; the pending yield reported to a user is that amount, and a claim pays exactly it.\<close>

theorem yield_conserved:
  assumes "(treasury_step X)\<^sup>*\<^sup>* (treasury_empty w) s" "tr_distribution s = Some d"
  shows "finite (dom (tr_user_distribution s)) \<and> ds_total_staked d = over_users ud_staked (tr_user_distribution s) \<and>
    over_users (\<lambda>u. ud_claimed u + yield_due d u) (tr_user_distribution s) \<le> ds_total_distributed d \<and>
    (\<forall>a u. tr_user_distribution s a = Some u \<longrightarrow> 0 \<le> ud_staked u \<and> 0 \<le> ud_claimed u \<and> 0 \<le> yield_due d u \<and>
       (\<forall>n t. pending_yield a s = (Ok n, t) \<longrightarrow> n = yield_due d u) \<and>
       (\<forall>E n t. claim_yield X E a s = (Ok n, t) \<longrightarrow> n = yield_due d u \<and> authorized E a))"
proof -
  have inv: "yield_inv s" using yield_accounting.steps_inv [OF assms(1)] treasury_empty_invs(2) .
  then have b: "yield_books d (tr_user_distribution s)" using assms(2) by (simp add: yield_inv_def)
  have u: "user_ok d u" if "tr_user_distribution s a = Some u" for a u using that b by (simp add: yield_books_def)
  have p: "0 < YIELD_PRECISION" by (simp add: YIELD_PRECISION_def)
  have "YIELD_PRECISION * (ud_claimed u + yield_due d u) \<le> yield_owed d u" for u
  proof -
    have "YIELD_PRECISION * (ud_staked u * (ds_accumulator d - ud_checkpoint u) div YIELD_PRECISION) \<le> ud_staked u * (ds_accumulator d - ud_checkpoint u)"
      by (simp add: YIELD_PRECISION_def)
    then show ?thesis by (simp add: yield_owed_def yield_due_def algebra_simps)
  qed
  then have "YIELD_PRECISION * over_users (\<lambda>u. ud_claimed u + yield_due d u) (tr_user_distribution s) \<le> over_users (yield_owed d) (tr_user_distribution s)"
    unfolding over_users_def sum_distrib_left by (intro sum_mono) blast
  also have "\<dots> \<le> YIELD_PRECISION * ds_total_distributed d" using b by (simp add: yield_books_def)
  finally have sum: "over_users (\<lambda>u. ud_claimed u + yield_due d u) (tr_user_distribution s) \<le> ds_total_distributed d" using p by simp
  have due: "0 \<le> yield_due d u" if "user_ok d u" for u
    using that p by (auto simp: yield_due_def user_ok_def pos_imp_zdiv_nonneg_iff intro!: add_nonneg_nonneg)
  have reported: "n = yield_due d u" if "tr_user_distribution s a = Some u" "pending_yield a s = (Ok n, t)" for a u n t
    using that assms(2) pending_yield_internal_Ok(1) [OF _ u [OF that(1)]]
    by (auto simp: pending_yield_def distribution_claimable_def ok_iff yield_due_def simp del: act_simps)
  have paid: "n = yield_due d u \<and> authorized E a" if "tr_user_distribution s a = Some u" "claim_yield X E a s = (Ok n, t)" for a u n t E
    using claim_yield_Ok [OF that(2)] assms(2) that(1) distribution_settle_Ok(6) [OF _ u [OF that(1)]] by (auto simp: yield_due_def)
  show ?thesis using b sum due reported paid u by (auto simp: yield_books_def user_ok_def)
qed

theorem yield_conserved_witness:
  "over_users (\<lambda>u. ud_claimed u + yield_due (the (tr_distribution tw_yield)) u) (tr_user_distribution tw_yield) \<le> 100 \<and>
   yield_due (the (tr_distribution tw_yield)) (tw_user 30) = 75"
proof -
  have r: "(treasury_step tw_ext)\<^sup>*\<^sup>* (treasury_empty tw_ledger) tw_yield"
    using tw_step [OF tw_init_run(1)] tw_step [OF tw_distributing_run(1)] tw_step [OF tw_stake_run(1)] tw_step [OF tw_staked_run(1)] tw_step [OF tw_yield_run(1)]
    by (meson converse_rtranclp_into_rtranclp rtranclp.rtrancl_refl)
  from yield_conserved [OF r tw_yield_run(2)] show ?thesis by (simp add: tw_yield_run(2) yield_due_def tw_user_def YIELD_PRECISION_def)
qed

section \<open>The portfolio\<close>

lemma sum_weights_total: "(\<forall>p \<in> set ws. 0 < snd p) \<Longrightarrow> n + sum_list (map snd ws) < 2 ^ 32 \<Longrightarrow> sum_weights ws n = Ok (n + sum_list (map snd ws))"
proof (induction ws arbitrary: n)
  case (Cons p ws)
  obtain a w where p: "p = (a, w)" by fastforce
  have "in_u32 (n + w)" using Cons.prems(2) by (simp add: p in_u32_def)
  then show ?case using Cons by (simp add: p u32_checked_def)
qed simp

lemma sum_weights_refused:
  "\<exists>p \<in> set ws. snd p = 0 \<Longrightarrow> n + sum_list (map snd ws) < 2 ^ 32 \<Longrightarrow> sum_weights ws n = Err InvalidAllocations"
proof (induction ws arbitrary: n)
  case (Cons p ws)
  obtain a w where p: "p = (a, w)" by fastforce
  have "in_u32 (n + w)" using Cons.prems(2) by (simp add: p in_u32_def)
  moreover have "sum_weights ws (n + w) = Err InvalidAllocations" if "w \<noteq> 0"
    using that Cons.prems by (intro Cons.IH) (auto simp: p)
  ultimately show ?case by (auto simp: p u32_checked_def)
qed simp

text \<open>Only the scaling of the amount by a weight can overflow: the shares together never exceed the amount.\<close>

lemma share_out_total:
  assumes "0 \<le> amount" "in_i128 amount"
  shows "0 \<le> n \<Longrightarrow> n + sum_list (map (\<lambda>p. floor_share amount (snd p)) ws) \<le> amount \<Longrightarrow>
    (if \<forall>p \<in> set ws. in_i128 (amount * int (snd p)) then \<exists>r. share_out amount ws sh n = Ok r
     else share_out amount ws sh n = Err TreasuryMathOverflow)"
proof (induction ws arbitrary: sh n)
  case (Cons p ws)
  obtain a w where p: "p = (a, w)" by fastforce
  have nn: "0 \<le> floor_share amount v" for v using assms(1) by (simp add: floor_share_def pos_imp_zdiv_nonneg_iff)
  then have r: "0 \<le> sum_list (map (\<lambda>p. floor_share amount (snd p)) ws)" by (intro sum_list_nonneg) auto
  have "n + floor_share amount w \<le> amount" using Cons.prems(2) r by (simp add: p)
  then have "in_i128 (n + floor_share amount w)" using assms Cons.prems(1) nn [of w] by (auto simp: in_i128_def)
  moreover have "trunc_div (amount * int w) 10000 = floor_share amount w" using assms(1) by (simp add: floor_share_def trunc_div_nonneg)
  ultimately show ?case using Cons.IH [of "n + floor_share amount w" "sh @ [(a, floor_share amount w)]"] Cons.prems nn [of w]
    by (cases "in_i128 (amount * int w)")
      (auto simp: p checked_def i128_checked_def TOTAL_WEIGHT_BPS_def Let_def add.assoc split: if_splits)
qed simp

lemma split_total:
  assumes a: "0 \<le> amount" "in_i128 amount"
    and w: "ws \<noteq> []" "length ws \<le> 8" "\<forall>p \<in> set ws. 0 < snd p" "sum_list (map snd ws) = 10000"
  shows "if \<forall>p \<in> set ws. in_i128 (amount * int (snd p)) then \<exists>shares. split_by_weights amount ws = Ok shares
    else split_by_weights amount ws = Err TreasuryMathOverflow"
proof -
  note d = share_dust [OF w(4) a(1)]
  note so = share_out_total [OF a, of 0 ws "[]"]
  have sw: "sum_weights ws 0 = Ok 10000" using sum_weights_total [of ws 0] w by simp
  have i: "largest_weight_index ws < length ws" using largest_weight_index_bound [OF w(1)] .
  have fs: "0 \<le> floor_share amount (snd p)" for p :: "address \<times> u32" using a(1) by (simp add: floor_share_def pos_imp_zdiv_nonneg_iff)
  have le: "floor_share amount (snd (ws ! largest_weight_index ws)) \<le> sum_list (map (\<lambda>p. floor_share amount (snd p)) ws)"
    using i fs by (intro member_le_sum_list) auto
  show ?thesis
  proof (cases "\<forall>p \<in> set ws. in_i128 (amount * int (snd p))")
    case True
    then obtain sh n where s: "share_out amount ws [] 0 = Ok (sh, n)" using so d(1) by auto
    note e = share_out_Ok [OF s a(1)]
    have "in_i128 (amount - n)" "in_i128 (floor_share amount (snd (ws ! largest_weight_index ws)) + (amount - n))"
      using a d e le fs [of "ws ! largest_weight_index ws"] by (auto simp: in_i128_def)
    then show ?thesis
      using True sw w i s e
      by (simp add: split_by_weights_def MAX_STRATEGIES_def TOTAL_WEIGHT_BPS_def checked_def i128_checked_def Let_def)
  next
    case False
    then have "share_out amount ws [] 0 = Err TreasuryMathOverflow" using so d(1) by auto
    then show ?thesis using False sw w by (auto simp: split_by_weights_def MAX_STRATEGIES_def TOTAL_WEIGHT_BPS_def)
  qed
qed

text \<open>C38: The split of an amount over a weight set is exact. A list of one to eight positive weights that add up to 100% is
  split whenever the amount scaled by each weight fits \<open>i128\<close>, and refused with \<open>MathOverflow\<close> otherwise; any other list whose
  weights add up within \<open>u32\<close> is refused with \<open>InvalidAllocations\<close>. A strategy that occurs twice is accepted, each occurrence
  with its own share. Whenever the split succeeds the strategies are those of the weight list in order, the shares add up to
  the amount, each is its weight's share rounded down, and only the one of the largest weight gets the remainder, which is
  smaller than the number of entries.\<close>

theorem split_exact:
  assumes "0 \<le> amount" "in_i128 amount"
  shows "(ws \<noteq> [] \<and> length ws \<le> 8 \<and> (\<forall>p \<in> set ws. 0 < snd p) \<and> sum_list (map snd ws) = 10000 \<longrightarrow>
      (if \<forall>p \<in> set ws. in_i128 (amount * int (snd p)) then \<exists>shares. split_by_weights amount ws = Ok shares
       else split_by_weights amount ws = Err TreasuryMathOverflow)) \<and>
    (\<not> (ws \<noteq> [] \<and> length ws \<le> 8 \<and> (\<forall>p \<in> set ws. 0 < snd p) \<and> sum_list (map snd ws) = 10000) \<and>
       sum_list (map snd ws) < 2 ^ 32 \<longrightarrow> split_by_weights amount ws = Err InvalidAllocations) \<and>
    (split_by_weights amount ws = Ok shares \<longrightarrow> map fst shares = map fst ws \<and> sum_list (map snd shares) = amount \<and>
      (\<forall>i < length ws. 0 \<le> snd (shares ! i) - amount * int (snd (ws ! i)) div 10000 \<and>
         snd (shares ! i) - amount * int (snd (ws ! i)) div 10000 < (if i = largest_weight_index ws then int (length ws) else 1)))"
proof (intro conjI)
  show "ws \<noteq> [] \<and> length ws \<le> 8 \<and> (\<forall>p \<in> set ws. 0 < snd p) \<and> sum_list (map snd ws) = 10000 \<longrightarrow>
      (if \<forall>p \<in> set ws. in_i128 (amount * int (snd p)) then \<exists>shares. split_by_weights amount ws = Ok shares
       else split_by_weights amount ws = Err TreasuryMathOverflow)"
    using split_total [OF assms] by blast
  show "\<not> (ws \<noteq> [] \<and> length ws \<le> 8 \<and> (\<forall>p \<in> set ws. 0 < snd p) \<and> sum_list (map snd ws) = 10000) \<and>
      sum_list (map snd ws) < 2 ^ 32 \<longrightarrow> split_by_weights amount ws = Err InvalidAllocations"
  proof (cases "\<forall>p \<in> set ws. 0 < snd p")
    case True
    then show ?thesis using sum_weights_total [of ws 0]
      by (auto simp: split_by_weights_def MAX_STRATEGIES_def TOTAL_WEIGHT_BPS_def)
  next
    case False
    then show ?thesis using sum_weights_refused [of ws 0] by (auto simp: split_by_weights_def)
  qed
  show "split_by_weights amount ws = Ok shares \<longrightarrow> map fst shares = map fst ws \<and> sum_list (map snd shares) = amount \<and>
      (\<forall>i < length ws. 0 \<le> snd (shares ! i) - amount * int (snd (ws ! i)) div 10000 \<and>
         snd (shares ! i) - amount * int (snd (ws ! i)) div 10000 < (if i = largest_weight_index ws then int (length ws) else 1))"
  proof
    assume r: "split_by_weights amount ws = Ok shares"
    let ?i = "largest_weight_index ws" and ?F = "map (\<lambda>p. floor_share amount (snd p)) ws"
    note k = split_by_weights_Ok [OF r assms(1)]
    obtain e where e: "0 \<le> e" "e < int (length ws)" "e = amount - sum_list ?F"
      "shares = (map (\<lambda>p. (fst p, floor_share amount (snd p))) ws)[?i := (fst (ws ! ?i), floor_share amount (snd (ws ! ?i)) + e)]" using k(4) by blast
    have i: "?i < length ws" using largest_weight_index_bound [OF k(1)] .
    have "map fst shares = map fst ws" using i by (simp add: e(4) list_eq_iff_nth_eq nth_list_update)
    moreover have "map snd shares = ?F[?i := ?F ! ?i + e]" using i by (simp add: e(4) list_eq_iff_nth_eq nth_list_update)
    then have "sum_list (map snd shares) = amount" using sum_list_add_at [of ?i ?F e] i e(3) by simp
    moreover have "0 \<le> snd (shares ! j) - amount * int (snd (ws ! j)) div 10000 \<and>
         snd (shares ! j) - amount * int (snd (ws ! j)) div 10000 < (if j = ?i then int (length ws) else 1)" if "j < length ws" for j
      using that i e(1,2) by (simp add: e(4) nth_list_update floor_share_def)
    ultimately show "map fst shares = map fst ws \<and> sum_list (map snd shares) = amount \<and> (\<forall>i < length ws. 0 \<le> snd (shares ! i) - amount * int (snd (ws ! i)) div 10000 \<and>
         snd (shares ! i) - amount * int (snd (ws ! i)) div 10000 < (if i = ?i then int (length ws) else 1))" by blast
  qed
qed

theorem split_exact_witness:
  "\<exists>shares. split_by_weights 1000 [(20, 3333), (21, 6667)] = Ok shares \<and> sum_list (map snd shares) = 1000 \<and> snd (shares ! 0) = 333"
proof -
  let ?ws = "[(20 :: address, 3333 :: u32), (21, 6667)]"
  have l: "largest_weight_index ?ws = 1" by (simp add: largest_weight_index_def)
  have a: "0 \<le> (1000 :: int)" "in_i128 1000" by (simp_all add: in_i128_def)
  obtain shares where r: "split_by_weights 1000 ?ws = Ok shares"
    using split_exact [OF a, of ?ws] by (auto simp: in_i128_def)
  have c: "split_by_weights 1000 ?ws = Ok shares \<longrightarrow> map fst shares = map fst ?ws \<and> sum_list (map snd shares) = 1000 \<and>
      (\<forall>i < length ?ws. 0 \<le> snd (shares ! i) - 1000 * int (snd (?ws ! i)) div 10000 \<and>
         snd (shares ! i) - 1000 * int (snd (?ws ! i)) div 10000 < (if i = largest_weight_index ?ws then int (length ?ws) else 1))"
    using split_exact [OF a, of ?ws shares] by blast
  from conjunct2 [OF conjunct2 [OF mp [OF c r]], THEN spec, of 0] have "snd (shares ! 0) = 333" by (simp add: l)
  moreover have "sum_list (map snd shares) = 1000" using mp [OF c r] by blast
  ultimately show ?thesis using r by blast
qed

definition tw_recalled :: "ledger treasury" where
  "tw_recalled = tw_next 6 (RecallStrategy 20 100) (tw_next 5 RebalancePortfolio (tw_next 4 (SetReserveBps 6000) (tw_next 3
     (SetAllocations [\<lparr>al_strategy = 20, al_weight_bps = 10000\<rparr>]) (tw_next 2 (WhitelistStrategy 20) tw_init))))"

lemma tw_portfolio_run:
  fixes s1 s2 s3 s4 :: "ledger treasury"
  defines "s1 \<equiv> tw_next 2 (WhitelistStrategy 20) tw_init"
  defines "s2 \<equiv> tw_next 3 (SetAllocations [\<lparr>al_strategy = 20, al_weight_bps = 10000\<rparr>]) s1"
  defines "s3 \<equiv> tw_next 4 (SetReserveBps 6000) s2"
  defines "s4 \<equiv> tw_next 5 RebalancePortfolio s3"
  shows "treasury_run tw_ext (tw_env 2) (WhitelistStrategy 20) tw_init = (Ok (), s1)"
    "treasury_run tw_ext (tw_env 3) (SetAllocations [\<lparr>al_strategy = 20, al_weight_bps = 10000\<rparr>]) s1 = (Ok (), s2)"
    "treasury_run tw_ext (tw_env 4) (SetReserveBps 6000) s2 = (Ok (), s3)"
    "treasury_run tw_ext (tw_env 5) RebalancePortfolio s3 = (Ok (), s4)"
    "treasury_run tw_ext (tw_env 6) (RecallStrategy 20 100) s4 = (Ok (), tw_recalled)"
    "tr_allocation tw_recalled 20 = Some \<lparr>sa_strategy = 20, sa_weight_bps = 10000, sa_deployed = 100, sa_yield_earned = 10\<rparr>"
proof -
  let ?a = "\<lambda>n y. \<lparr>sa_strategy = 20, sa_weight_bps = 10000, sa_deployed = n, sa_yield_earned = y\<rparr>"
  have 1: "treasury_run tw_ext (tw_env 2) (WhitelistStrategy 20) tw_init = (Ok (), s1)"
    "s1 = tw_init\<lparr>tr_whitelisted := [20 \<mapsto> True], tr_events := [StrategyWhitelistedEvent 20 True]\<rparr>"
    by (simp_all add: s1_def tw_init_run(2) tw_defs treasury_empty_def whitelist_strategy_def is_whitelisted_def)
  have 2: "treasury_run tw_ext (tw_env 3) (SetAllocations [\<lparr>al_strategy = 20, al_weight_bps = 10000\<rparr>]) s1 = (Ok (), s2)"
    "s2 = s1\<lparr>tr_allocation := [20 \<mapsto> ?a 0 0], tr_allocation_order := Some [20], tr_events := tr_events s1 @ [AllocationsUpdatedEvent [?a 0 0]]\<rparr>"
    by (simp_all add: s2_def 1(2) tw_init_run(2) tw_defs treasury_empty_def set_allocations_def is_whitelisted_def is_valid_weight_set_def MAX_STRATEGIES_def
        TOTAL_WEIGHT_BPS_def u32_checked_def in_u32_def allocations_def allocation_order_def drop_allocations_def store_weight_def save_allocation_def Let_def map_filter_simps)
  have 3: "treasury_run tw_ext (tw_env 4) (SetReserveBps 6000) s2 = (Ok (), s3)" "s3 = s2\<lparr>tr_reserve_bps := Some 6000\<rparr>"
    by (simp_all add: s3_def 2(2) 1(2) tw_init_run(2) tw_defs treasury_empty_def set_reserve_bps_def TOTAL_WEIGHT_BPS_def)
  have 4: "treasury_run tw_ext (tw_env 5) RebalancePortfolio s3 = (Ok (), s4)" "tr_allocation s4 = [20 \<mapsto> ?a 200 0]" "tr_whitelisted s4 = [20 \<mapsto> True]"
    "tr_admin s4 = Some 2" "tr_token s4 = Some 9" "tr_lock s4 = Some False" "tr_world s4 9 20 = 250" "tr_world s4 9 1 = 300"
    by (simp_all add: s4_def 3(2) 2(2) 1(2) tw_init_run(2) tw_defs treasury_empty_def rebalance_portfolio_def rebalance_def allocations_def allocation_order_def
        map_filter_simps recall_all_def reserve_bps_def u32_sub_def TOTAL_WEIGHT_BPS_def split_by_weights_def MAX_STRATEGIES_def u32_checked_def in_u32_def
        trunc_div_nonneg deploy_def is_whitelisted_def save_allocation_def tw_ledger_def Let_def)
  have 5: "treasury_run tw_ext (tw_env 6) (RecallStrategy 20 100) s4 = (Ok (), tw_recalled)" "tr_allocation tw_recalled 20 = Some (?a 100 10)"
    unfolding tw_recalled_def s1_def [symmetric] s2_def [symmetric] s3_def [symmetric] s4_def [symmetric]
    by (simp_all add: tw_defs recall_strategy_def recall_def is_whitelisted_def 4 i128_saturate_def save_allocation_def)
  show "treasury_run tw_ext (tw_env 2) (WhitelistStrategy 20) tw_init = (Ok (), s1)"
    "treasury_run tw_ext (tw_env 3) (SetAllocations [\<lparr>al_strategy = 20, al_weight_bps = 10000\<rparr>]) s1 = (Ok (), s2)"
    "treasury_run tw_ext (tw_env 4) (SetReserveBps 6000) s2 = (Ok (), s3)" "treasury_run tw_ext (tw_env 5) RebalancePortfolio s3 = (Ok (), s4)"
    "treasury_run tw_ext (tw_env 6) (RecallStrategy 20 100) s4 = (Ok (), tw_recalled)" "tr_allocation tw_recalled 20 = Some (?a 100 10)"
    by (fact 1(1) 2(1) 3(1) 4(1) 5)+
qed

text \<open>C39: A strategy that once paid yield can never be removed. The yield a strategy has paid back is a running total that no call
  lowers, and both the revocation of a strategy and its removal from the weight set are refused while the total is positive,
  although everything was returned: in every later state the strategy is still allocated and whitelisting cannot be withdrawn.\<close>

theorem earned_strategy_stuck:
  assumes "(treasury_step X)\<^sup>*\<^sup>* (treasury_empty w) s" "tr_allocation s a = Some x" "0 < sa_yield_earned x" "(treasury_step X)\<^sup>*\<^sup>* s s'"
  shows "(\<exists>y. tr_allocation s' a = Some y \<and> 0 < sa_yield_earned y \<and> y \<in> set (allocations s')) \<and>
    (\<forall>E u. revoke_strategy E a s' \<noteq> (Ok (), u)) \<and> (\<forall>E cs ys u. set_allocations E cs s' = (Ok ys, u) \<longrightarrow> a \<in> al_strategy ` set cs)"
proof -
  have inv: "portfolio_inv s" using portfolio.steps_inv [OF assms(1)] treasury_empty_invs(3) .
  have inv': "portfolio_inv s'" using portfolio.steps_inv [OF assms(4) inv] .
  have "earned s a" using assms(2,3) by (simp add: earned_def)
  moreover have "\<forall>a. earned s a \<longrightarrow> earned s' a"
    by (rule portfolio.steps_rel [OF assms(4) inv, where R = "\<lambda>s s'. \<forall>a. earned s a \<longrightarrow> earned s' a"]) (use treasury_step_portfolio in blast)+
  ultimately have e: "earned s' a" by blast
  then obtain y where y: "tr_allocation s' a = Some y" "0 < sa_yield_earned y" by (auto simp: earned_def)
  have "y \<in> set (allocations s')" using allocations_iff [OF inv', of y] y(1) inv' by (auto simp: portfolio_inv_def allocation_match_def)
  moreover have "revoke_strategy E a s' \<noteq> (Ok (), u)" for E u using revoke_strategy_Ok [of E a s' "()" u] y by (auto simp: has_funds_def)
  moreover have "a \<in> al_strategy ` set cs" if "set_allocations E cs s' = (Ok ys, u)" for E cs ys u using set_allocations_Ok [OF that inv'] e by blast
  ultimately show ?thesis using y by blast
qed

theorem earned_strategy_stuck_witness:
  "sa_yield_earned (the (tr_allocation tw_recalled 20)) = 10 \<and> (\<forall>E u. revoke_strategy E 20 tw_recalled \<noteq> (Ok (), u))"
proof -
  have r: "(treasury_step tw_ext)\<^sup>*\<^sup>* (treasury_empty tw_ledger) tw_recalled"
    using tw_step [OF tw_init_run(1)] tw_step [OF tw_portfolio_run(1)] tw_step [OF tw_portfolio_run(2)] tw_step [OF tw_portfolio_run(3)]
      tw_step [OF tw_portfolio_run(4)] tw_step [OF tw_portfolio_run(5)]
    by (meson converse_rtranclp_into_rtranclp rtranclp.rtrancl_refl)
  from earned_strategy_stuck [OF r tw_portfolio_run(6) _ rtranclp.rtrancl_refl] show ?thesis by (simp add: tw_portfolio_run(6))
qed

section \<open>Swaps\<close>

lemma min_out_from_price_Ok:
  assumes "min_out_from_price amount price bps = Ok m"
  shows "0 < amount \<and> 0 < price \<and> 0 < m \<and> m = amount * price div PRICE_SCALE * (10000 - int bps) div 10000"
proof -
  have c: "0 < price" "0 < amount" "0 < trunc_div (amount * price) PRICE_SCALE" "bps \<le> 10000" "0 < m"
      "m = trunc_div (trunc_div (amount * price) PRICE_SCALE * int (10000 - bps)) 10000"
    using assms unfolding min_out_from_price_def Let_def by (auto simp: ok_iff TREASURY_BPS_DENOMINATOR_def not_le split: if_splits)
  have e: "trunc_div (amount * price) PRICE_SCALE = amount * price div PRICE_SCALE" using c(1,2) by (simp add: trunc_div_nonneg PRICE_SCALE_def)
  have "m = amount * price div PRICE_SCALE * int (10000 - bps) div 10000" using c(3,6) unfolding e by (simp add: trunc_div_nonneg)
  then show ?thesis using c(1,2,4,5) by (simp add: of_nat_diff)
qed

lemma liquidate_Ok:
  assumes "liquidate X E tok amount bps s = (Ok n, s')"
  shows "\<exists>stable amm feed price m w. tr_stable_token s = Some stable \<and> tr_amm s = Some amm \<and> tr_price_feed s = Some feed \<and>
    bps < 10000 \<and> tok \<noteq> stable \<and> amount \<le> tok_balance (tx_token X) (tr_world s) tok (current_contract_address E) \<and>
    tx_price X (tr_world s) feed tok stable = Some price \<and> min_out_from_price amount price bps = Ok m \<and> m \<le> n \<and>
    n = tok_balance (tx_token X) w stable (current_contract_address E) - tok_balance (tx_token X) (tr_world s) stable (current_contract_address E) \<and>
    s' = s\<lparr>tr_world := w, tr_events := tr_events s @ [FeesLiquidatedEvent tok stable amount n m]\<rparr>"
  using assms unfolding liquidate_def Let_def TREASURY_BPS_DENOMINATOR_def
  by (simp add: ok_iff not_le not_less del: act_simps) (elim exE conjE, intro exI conjI, (assumption | rule refl | simp)+)

definition tw_swapping :: "ledger treasury" where
  "tw_swapping = tw_init\<lparr>tr_stable_token := Some 11, tr_amm := Some 30, tr_price_feed := Some 31\<rparr>"

text \<open>A liquidation never undersells. A committed call was made by the admin over a configured market maker, stablecoin and
  feed, for a token other than the stablecoin that the treasury held; the stablecoin balance of the treasury grew by exactly
  the returned amount, which is at least the feed's value of the tokens less the tolerated slippage, whatever the market maker
  reports; and nothing else in the storage changed but the released lock and the event.\<close>

theorem liquidation_floor:
  assumes "liquidate_fees X E tok amount bps s = (Ok n, s')"
  defines "V \<equiv> current_contract_address E"
  shows "\<exists>admin stable amm feed price. tr_admin s = Some admin \<and> authorized E admin \<and> tr_stable_token s = Some stable \<and> tr_amm s = Some amm \<and>
    tr_price_feed s = Some feed \<and> tok \<noteq> stable \<and> bps < 10000 \<and> amount \<le> tok_balance (tx_token X) (tr_world s) tok V \<and>
    tx_price X (tr_world s) feed tok stable = Some price \<and>
    n = tok_balance (tx_token X) (tr_world s') stable V - tok_balance (tx_token X) (tr_world s) stable V \<and> 0 < n \<and>
    amount * price div PRICE_SCALE * (10000 - int bps) div 10000 \<le> n \<and>
    s' = s\<lparr>tr_lock := Some False, tr_world := tr_world s', tr_events := tr_events s @ [FeesLiquidatedEvent tok stable amount n
      (amount * price div PRICE_SCALE * (10000 - int bps) div 10000)]\<rparr>"
proof -
  obtain admin t where a: "tr_admin s = Some admin" "authorized E admin" "liquidate X E tok amount bps (s\<lparr>tr_lock := Some True\<rparr>) = (Ok n, t)" "s' = t\<lparr>tr_lock := Some False\<rparr>"
    using assms(1) by (auto simp: liquidate_fees_def ok_iff)
  have sel: "tr_stable_token (s\<lparr>tr_lock := l\<rparr>) = tr_stable_token s" "tr_amm (s\<lparr>tr_lock := l\<rparr>) = tr_amm s" "tr_price_feed (s\<lparr>tr_lock := l\<rparr>) = tr_price_feed s"
    "tr_world (s\<lparr>tr_lock := l\<rparr>) = tr_world s" "tr_events (s\<lparr>tr_lock := l\<rparr>) = tr_events s" for l by simp_all
  from liquidate_Ok [OF a(3), unfolded sel] obtain stable amm feed price m w where c: "tr_stable_token s = Some stable" "tr_amm s = Some amm" "tr_price_feed s = Some feed"
      "bps < 10000" "tok \<noteq> stable" "amount \<le> tok_balance (tx_token X) (tr_world s) tok V" "tx_price X (tr_world s) feed tok stable = Some price"
      "min_out_from_price amount price bps = Ok m" "m \<le> n" "n = tok_balance (tx_token X) w stable V - tok_balance (tx_token X) (tr_world s) stable V"
    and t: "t = s\<lparr>tr_lock := Some True, tr_world := w, tr_events := tr_events s @ [FeesLiquidatedEvent tok stable amount n m]\<rparr>"
    unfolding V_def by blast
  have "s' = s\<lparr>tr_lock := Some False, tr_world := tr_world s', tr_events := tr_events s @ [FeesLiquidatedEvent tok stable amount n m]\<rparr>" "tr_world s' = w"
    by (simp_all add: a(4) t)
  moreover have "0 < n" "m = amount * price div PRICE_SCALE * (10000 - int bps) div 10000" using min_out_from_price_Ok [OF c(8)] c(9) by auto
  ultimately show ?thesis using a(1,2) c by blast
qed

theorem liquidation_floor_witness:
  "\<exists>s. liquidate_fees tw_ext (tw_env 7) 9 40 100 tw_swapping = (Ok 80, s) \<and> 79 \<le> (80 :: int) \<and> tr_world s 11 1 - tr_world tw_swapping 11 1 = 80"
proof -
  have "fst (liquidate_fees tw_ext (tw_env 7) 9 40 100 tw_swapping) = Ok 80"
    by (simp add: tw_swapping_def tw_init_run(2) treasury_empty_def liquidate_fees_def liquidate_def tw_defs TREASURY_BPS_DENOMINATOR_def
        min_out_from_price_def PRICE_SCALE_def u32_sub_def trunc_div_nonneg tw_ledger_def)
  then obtain s where r: "liquidate_fees tw_ext (tw_env 7) 9 40 100 tw_swapping = (Ok 80, s)" by (metis prod.collapse)
  from liquidation_floor [OF r] have "tr_world s 11 1 - tr_world tw_swapping 11 1 = 80"
    by (auto simp: tw_ext_def tw_env_def ledger_token_def tw_swapping_def)
  then show ?thesis using r by simp
qed

end
