(* ===== verification/Governance_Math.thy ===== *)
theory Governance_Math
  imports Common Invocation Escrow
begin

text \<open>
  The arithmetic of governance (\<open>governance/src\<close>: \<open>math.rs\<close>, \<open>quorum.rs\<close> and the formulas of \<open>vetoken.rs\<close> and \<open>qf.rs\<close>): integer
  square roots by Newton's iteration at 64 and 128 bits, the decaying quorum, the power of a time lock and the fixed-point
  match of a bounty.
\<close>

section \<open>Integer square root\<close>

text \<open>The number of significant bits, \<open>64 - n.leading_zeros()\<close>.\<close>

fun bit_size :: "nat \<Rightarrow> nat" where
  "bit_size n = (if n = 0 then 0 else Suc (bit_size (n div 2)))"

declare bit_size.simps [simp del]

function isqrt_loop :: "u64 \<Rightarrow> u64 \<Rightarrow> u64" where
  "isqrt_loop n x = (let next_x = u64_saturating_add x (n div x) div 2 in
     if next_x \<ge> x then x else isqrt_loop n next_x)"
  by pat_completeness auto
termination by (relation "measure snd") auto

declare isqrt_loop.simps [simp del]

definition isqrt :: "u64 \<Rightarrow> u64" where
  "isqrt n = (if n = 0 then 0 else if n < 4 then 1
     else let bit_len = bit_size n in
       isqrt_loop n (if bit_len \<le> 2 then 1 else 2 ^ ((bit_len + 1) div 2)))"

definition u128_add :: "nat \<Rightarrow> nat \<Rightarrow> ('e, nat) result" where
  "u128_add a b = (if a + b < 2 ^ 128 then Ok (a + b) else Trap)"

function isqrt_u128_loop :: "nat \<Rightarrow> nat \<Rightarrow> ('e, nat) result" where
  "isqrt_u128_loop n x = (case u128_add x (n div x) of
     Ok t \<Rightarrow> (let next_x = t div 2 in if next_x \<ge> x then Ok x else isqrt_u128_loop n next_x)
   | Err e \<Rightarrow> Err e | Trap \<Rightarrow> Trap)"
  by pat_completeness auto
termination by (relation "measure snd") auto

declare isqrt_u128_loop.simps [simp del]

definition isqrt_u128 :: "nat \<Rightarrow> ('e, nat) result" where
  "isqrt_u128 n = (if n = 0 then Ok 0 else if n < 2 ^ 64 then Ok (isqrt n)
     else isqrt_u128_loop n (2 ^ ((bit_size n + 1) div 2)))"

text \<open>The specification: the largest root whose square does not exceed the number.\<close>

definition is_root :: "nat \<Rightarrow> nat \<Rightarrow> bool" where
  "is_root r n \<longleftrightarrow> r * r \<le> n \<and> n < (r + 1) * (r + 1)"

lemma is_root_unique: "is_root r n \<Longrightarrow> is_root r' n \<Longrightarrow> r = r'"
proof (rule ccontr)
  assume r: "is_root r n" "is_root r' n" and "r \<noteq> r'"
  then have "r + 1 \<le> r' \<or> r' + 1 \<le> r" by linarith
  then have "(r + 1) * (r + 1) \<le> r' * r' \<or> (r' + 1) * (r' + 1) \<le> r * r" using mult_le_mono by blast
  then show False using r by (auto simp: is_root_def)
qed

lemma is_root_mono: "is_root r m \<Longrightarrow> is_root t n \<Longrightarrow> m \<le> n \<Longrightarrow> r \<le> t"
proof (rule ccontr)
  assume r: "is_root r m" "is_root t n" "m \<le> n" and "\<not> r \<le> t"
  then have "(t + 1) * (t + 1) \<le> r * r" by (intro mult_le_mono) auto
  then show False using r by (auto simp: is_root_def)
qed

lemma bit_size_gt: "n < 2 ^ bit_size n"
  by (induction n rule: bit_size.induct) (subst bit_size.simps, auto simp: less_mult_imp_div_less)

lemma bit_size_le: "n < 2 ^ k \<Longrightarrow> bit_size n \<le> k"
proof (induction k arbitrary: n)
  case (Suc k)
  then show ?case by (subst bit_size.simps) (auto simp: less_mult_imp_div_less)
qed (simp add: bit_size.simps)

lemma start_above_root: "n < (2 ^ ((bit_size n + 1) div 2)) * (2 ^ ((bit_size n + 1) div 2))"
proof -
  have "n < 2 ^ bit_size n" by (rule bit_size_gt)
  also have "(2 :: nat) ^ bit_size n \<le> 2 ^ (2 * ((bit_size n + 1) div 2))" by (rule power_increasing) auto
  finally show ?thesis by (simp add: mult_2 power_add)
qed

text \<open>One step of Newton's iteration from any positive estimate stays at or above the root.\<close>

lemma newton_step:
  assumes "0 < (x :: nat)"
  shows "n < ((x + n div x) div 2 + 1) * ((x + n div x) div 2 + 1)"
proof -
  define q y where "q = n div x" and "y = (x + n div x) div 2"
  have "n < x * (q + 1)" using assms unfolding q_def by (metis Suc_eq_plus1 dividend_less_times_div mult_Suc_right add.commute)
  moreover have "x + (q + 1) \<le> 2 * (y + 1)" unfolding y_def q_def [symmetric] by presburger
  then have "(x + (q + 1)) * (x + (q + 1)) \<le> (2 * (y + 1)) * (2 * (y + 1))" using mult_le_mono by blast
  moreover have "4 * (x * (q + 1)) \<le> (x + (q + 1)) * (x + (q + 1))"
  proof -
    have "0 \<le> (int x - int (q + 1)) * (int x - int (q + 1))" by simp
    then have "4 * (int x * int (q + 1)) \<le> (int x + int (q + 1)) * (int x + int (q + 1))" by (simp add: algebra_simps)
    then show ?thesis by (metis of_nat_add of_nat_le_iff of_nat_mult of_nat_numeral)
  qed
  ultimately have "4 * n < 4 * ((y + 1) * (y + 1))" by (simp add: algebra_simps)
  then show ?thesis by (simp add: y_def)
qed

lemma newton_quotient:
  assumes "n < (x + 1) * (x + 1)" "0 < (x :: nat)"
  shows "n div x \<le> x + 2"
proof -
  have "n < x * (x + 3)" using assms by (simp add: algebra_simps)
  then have "n div x < x + 3" by (metis less_mult_imp_div_less mult.commute)
  then show ?thesis by simp
qed

lemma newton_stop:
  assumes "x \<le> (x + n div x) div 2" "0 < (x :: nat)"
  shows "x * x \<le> n"
proof -
  have "x \<le> n div x" using assms(1) by linarith
  then have "x * x \<le> (n div x) * x" by (rule mult_le_mono1)
  also have "\<dots> \<le> n" by simp
  finally show ?thesis .
qed

lemma isqrt_loop_root:
  assumes "0 < x" "x \<le> 2 ^ 33" "n < (x + 1) * (x + 1)" "1 \<le> n"
  shows "is_root (isqrt_loop n x) n"
  using assms
proof (induction n x rule: isqrt_loop.induct)
  case (1 n x)
  define y where "y = (x + n div x) div 2"
  have "x + n div x \<le> 2 ^ 64 - 1" using newton_quotient [OF "1.prems"(3,1)] "1.prems"(2) by simp
  then have y: "u64_saturating_add x (n div x) div 2 = y" by (simp add: u64_saturating_add_def y_def)
  show ?case
  proof (cases "y \<ge> x")
    case True
    then show ?thesis using newton_stop "1.prems"(1,3) y by (subst isqrt_loop.simps) (auto simp: is_root_def y_def)
  next
    case False
    have "n < (y + 1) * (y + 1)" unfolding y_def by (rule newton_step) (rule "1.prems"(1))
    moreover from this have "0 < y" using "1.prems"(4) by (cases y) auto
    ultimately have "is_root (isqrt_loop n y) n" using "1.IH" [OF y [symmetric]] False "1.prems"(2,4) by simp
    then show ?thesis using False y by (subst isqrt_loop.simps) simp
  qed
qed

lemma isqrt_root: "in_u64 n \<Longrightarrow> is_root (isqrt n) n"
proof -
  assume n: "in_u64 n"
  consider "n = 0" | "0 < n" "n < 4" | "4 \<le> n" by linarith
  then show ?thesis
  proof cases
    case 3
    let ?x = "2 ^ ((bit_size n + 1) div 2) :: nat"
    have "\<not> bit_size n \<le> 2"
    proof
      assume "bit_size n \<le> 2"
      then have "(2 :: nat) ^ bit_size n \<le> 2 ^ 2" by (rule power_increasing) simp
      then show False using bit_size_gt [of n] 3 by simp
    qed
    then have e: "isqrt n = isqrt_loop n ?x" using 3 by (simp add: isqrt_def)
    have "(bit_size n + 1) div 2 \<le> 33" using bit_size_le [of n 64] n by (simp add: in_u64_def)
    then have "?x \<le> 2 ^ 33" by (rule power_increasing) simp
    moreover have "n < (?x + 1) * (?x + 1)" using start_above_root [of n] by (simp add: algebra_simps)
    ultimately show ?thesis unfolding e using 3 by (intro isqrt_loop_root) auto
  qed (auto simp: isqrt_def is_root_def)
qed

lemma isqrt_u128_loop_root:
  assumes "0 < x" "x \<le> 2 ^ 65" "n < (x + 1) * (x + 1)" "1 \<le> n"
  shows "\<exists>r. isqrt_u128_loop n x = (Ok r :: ('e, nat) result) \<and> is_root r n"
  using assms
proof (induction x rule: less_induct)
  case (less x)
  define y where "y = (x + n div x) div 2"
  have t: "x + n div x < 2 ^ 128" using newton_quotient [OF less.prems(3,1)] less.prems(2) by simp
  show ?case
  proof (cases "y \<ge> x")
    case True
    then show ?thesis using newton_stop less.prems(1,3) t by (subst isqrt_u128_loop.simps) (auto simp: is_root_def y_def u128_add_def)
  next
    case False
    have "n < (y + 1) * (y + 1)" unfolding y_def by (rule newton_step) (rule less.prems(1))
    moreover from this have "0 < y" using less.prems(4) by (cases y) auto
    ultimately have "\<exists>r. isqrt_u128_loop n y = (Ok r :: ('e, nat) result) \<and> is_root r n" using less.IH [of y] False less.prems(2,4) by simp
    then show ?thesis using False t by (subst isqrt_u128_loop.simps) (simp add: y_def u128_add_def)
  qed
qed

lemma isqrt_u128_root: "n < 2 ^ 128 \<Longrightarrow> \<exists>r. isqrt_u128 n = (Ok r :: ('e, nat) result) \<and> is_root r n"
proof -
  assume n: "n < 2 ^ 128"
  consider "n = 0" | "0 < n" "n < 2 ^ 64" | "2 ^ 64 \<le> n" by linarith
  then show ?thesis
  proof cases
    case 2
    then show ?thesis using isqrt_root [of n] by (simp add: isqrt_u128_def in_u64_def)
  next
    case 3
    let ?x = "2 ^ ((bit_size n + 1) div 2) :: nat"
    have "(bit_size n + 1) div 2 \<le> 65" using bit_size_le [OF n] by simp
    then have "?x \<le> 2 ^ 65" by (rule power_increasing) simp
    moreover have "n < (?x + 1) * (?x + 1)" using start_above_root [of n] by (simp add: algebra_simps)
    ultimately have "\<exists>r. isqrt_u128_loop n ?x = (Ok r :: ('e, nat) result) \<and> is_root r n" using 3 by (intro isqrt_u128_loop_root) auto
    then show ?thesis using 3 by (simp add: isqrt_u128_def)
  qed (auto simp: isqrt_u128_def is_root_def)
qed

lemma isqrt_mono: "in_u64 n \<Longrightarrow> m \<le> n \<Longrightarrow> isqrt m \<le> isqrt n"
  using is_root_mono [OF isqrt_root isqrt_root] by (simp add: in_u64_def)

lemma isqrt_pos_iff: "in_u64 n \<Longrightarrow> 0 < isqrt n \<longleftrightarrow> 0 < n"
  using isqrt_root [of n] by (cases "isqrt n") (auto simp: is_root_def isqrt_def)

lemma isqrt_lt: "in_u64 n \<Longrightarrow> isqrt n < 2 ^ 32"
proof (rule ccontr)
  assume n: "in_u64 n" and "\<not> isqrt n < 2 ^ 32"
  then have "(2 ^ 32) * (2 ^ 32) \<le> isqrt n * isqrt n" by (intro mult_le_mono) auto
  then show False using isqrt_root [OF n] n by (simp add: is_root_def in_u64_def)
qed

section \<open>The decaying quorum\<close>

definition QUORUM_FLOOR_BPS :: u32 where "QUORUM_FLOOR_BPS = 3500"

text \<open>The product of two 32-bit values fits the 64-bit intermediate of the code.\<close>

definition current_quorum_bps :: "u32 \<Rightarrow> u32 \<Rightarrow> u32 \<Rightarrow> u32" where
  "current_quorum_bps start_bps elapsed window =
     (if window = 0 then QUORUM_FLOOR_BPS
      else if elapsed \<ge> window then QUORUM_FLOOR_BPS
      else let start = max start_bps QUORUM_FLOOR_BPS;
               span = start - QUORUM_FLOOR_BPS;
               decayed = span * elapsed div window;
               current = start - decayed
           in if in_u32 current then current else QUORUM_FLOOR_BPS)"

lemma quorum_decay: "e < w \<Longrightarrow> (s :: nat) * e div w \<le> s"
proof -
  assume "e < w"
  then have "s * e \<le> s * w" by simp
  then have "s * e div w \<le> s * w div w" by (rule div_le_mono)
  then show ?thesis using \<open>e < w\<close> by simp
qed

lemma current_quorum_bounds:
  "QUORUM_FLOOR_BPS \<le> current_quorum_bps b e w" "current_quorum_bps b e w \<le> max b QUORUM_FLOOR_BPS"
  using quorum_decay [of e w "max b QUORUM_FLOOR_BPS - QUORUM_FLOOR_BPS"] by (auto simp: current_quorum_bps_def Let_def)

lemma current_quorum_antimono:
  assumes "in_u32 b" "e \<le> e'"
  shows "current_quorum_bps b e' w \<le> current_quorum_bps b e w"
proof (cases "e' < w")
  case True
  let ?s = "max b QUORUM_FLOOR_BPS - QUORUM_FLOOR_BPS"
  have "?s * e div w \<le> ?s * e' div w" using assms(2) by (intro div_le_mono mult_le_mono) auto
  moreover have "in_u32 (max b QUORUM_FLOOR_BPS - x)" for x using assms(1) by (auto simp: in_u32_def QUORUM_FLOOR_BPS_def max_def)
  ultimately show ?thesis using True assms(2) by (simp add: current_quorum_bps_def Let_def diff_le_mono2)
next
  case False
  then have "current_quorum_bps b e' w = QUORUM_FLOOR_BPS" by (simp add: current_quorum_bps_def)
  then show ?thesis using current_quorum_bounds(1) [of b e w] by simp
qed

section \<open>The power of a time lock\<close>

definition LEDGERS_PER_DAY :: u32 where "LEDGERS_PER_DAY = 17280"
definition MIN_LOCK_LEDGERS :: u32 where "MIN_LOCK_LEDGERS = 30 * LEDGERS_PER_DAY"
definition MAX_LOCK_LEDGERS :: u32 where "MAX_LOCK_LEDGERS = 4 * 365 * LEDGERS_PER_DAY"

definition power_for :: "i128 \<Rightarrow> u32 \<Rightarrow> u64" where
  "power_for amount remaining0 =
     (if amount \<le> 0 \<or> remaining0 = 0 then 0
      else let remaining = int (min remaining0 MAX_LOCK_LEDGERS);
               max_lock = int MAX_LOCK_LEDGERS;
               power = trunc_div amount max_lock * remaining + trunc_div (trunc_mod amount max_lock * remaining) max_lock
           in if 0 \<le> power \<and> power < 2 ^ 64 then nat power else 2 ^ 64 - 1)"

lemma max_lock_pos: "0 < MAX_LOCK_LEDGERS" by (simp add: MAX_LOCK_LEDGERS_def LEDGERS_PER_DAY_def)

text \<open>Splitting the product keeps every intermediate value within the amount, and changes nothing of the quotient.\<close>

lemma split_product:
  assumes "0 < m"
  shows "(a div m) * r + (a mod m) * r div m = a * r div (m :: int)"
proof -
  have "a * r = (a mod m) * r + (a div m) * r * m" using mult_div_mod_eq [of m a] by (metis add.commute distrib_right mult.commute mult.left_commute)
  then show ?thesis using assms by simp
qed

lemma power_for_eq:
  assumes "0 < a"
  shows "power_for a r = nat (min (a * int (min r MAX_LOCK_LEDGERS) div int MAX_LOCK_LEDGERS) (2 ^ 64 - 1))"
proof (cases "r = 0")
  case False
  let ?m = "int MAX_LOCK_LEDGERS" and ?r = "int (min r MAX_LOCK_LEDGERS)"
  have m: "0 < ?m" using max_lock_pos by simp
  have "trunc_div a ?m * ?r + trunc_div (trunc_mod a ?m * ?r) ?m = a * ?r div ?m"
    using assms m split_product [OF m, of a ?r] by (simp add: trunc_div_nonneg trunc_mod_nonneg)
  moreover have "0 \<le> a * ?r div ?m" using assms m by (simp add: pos_imp_zdiv_nonneg_iff)
  ultimately show ?thesis using assms False by (simp add: power_for_def Let_def min_def nat_diff_distrib)
qed (simp add: power_for_def)

lemma power_for_nonpos: "a \<le> 0 \<Longrightarrow> power_for a r = 0" by (simp add: power_for_def)

lemma power_for_le: "0 \<le> a \<Longrightarrow> int (power_for a r) \<le> a"
proof (cases "a = 0")
  case False
  assume "0 \<le> a"
  then have a: "0 < a" using False by simp
  let ?m = "int MAX_LOCK_LEDGERS"
  have "a * int (min r MAX_LOCK_LEDGERS) div ?m \<le> a * ?m div ?m" using a max_lock_pos by (intro zdiv_mono1) auto
  then have "a * int (min r MAX_LOCK_LEDGERS) div ?m \<le> a" using max_lock_pos by simp
  moreover have "0 \<le> a * int (min r MAX_LOCK_LEDGERS) div ?m" using a max_lock_pos by (simp add: pos_imp_zdiv_nonneg_iff)
  ultimately show ?thesis using a by (simp add: power_for_eq)
qed (simp add: power_for_def)

lemma power_for_mono: "r \<le> r' \<Longrightarrow> power_for a r \<le> power_for a r'"
proof (cases "0 < a")
  case True
  assume "r \<le> r'"
  then have "a * int (min r MAX_LOCK_LEDGERS) div int MAX_LOCK_LEDGERS \<le> a * int (min r' MAX_LOCK_LEDGERS) div int MAX_LOCK_LEDGERS"
    using True max_lock_pos by (intro zdiv_mono1 mult_left_mono) auto
  then show ?thesis using True by (auto simp: power_for_eq intro!: nat_mono)
qed (simp add: power_for_nonpos)

lemma power_for_u64: "in_u64 (power_for a r)"
  by (auto simp: power_for_def Let_def in_u64_def nat_less_iff)

lemma power_for_fits:
  assumes "in_i128 a" "0 < a" "r \<le> MAX_LOCK_LEDGERS"
  shows "in_i128 (trunc_div a (int MAX_LOCK_LEDGERS) * int r)" "in_i128 (trunc_mod a (int MAX_LOCK_LEDGERS) * int r)"
    "in_i128 (a * int r div int MAX_LOCK_LEDGERS)"
proof -
  let ?m = "int MAX_LOCK_LEDGERS"
  have m: "0 < ?m" "int r \<le> ?m" using max_lock_pos assms(3) by auto
  have q: "0 \<le> a div ?m" using assms(2) m(1) by (simp add: pos_imp_zdiv_nonneg_iff)
  have "a div ?m * int r \<le> a div ?m * ?m" using q m(2) by (rule mult_left_mono [rotated])
  also have "\<dots> \<le> a" using m(1) by (simp add: minus_mod_eq_div_mult [symmetric])
  finally show "in_i128 (trunc_div a ?m * int r)" using assms m q by (auto simp: trunc_div_nonneg in_i128_def intro: order_trans [of _ 0])
  have "a mod ?m * int r \<le> ?m * ?m" using m by (intro mult_mono) (auto intro: less_imp_le)
  also have "\<dots> < 2 ^ 127" by (simp add: MAX_LOCK_LEDGERS_def LEDGERS_PER_DAY_def)
  finally show "in_i128 (trunc_mod a ?m * int r)" using assms m by (auto simp: trunc_mod_nonneg in_i128_def intro: order_trans [of _ 0])
  have "a * int r div ?m \<le> a * ?m div ?m" using assms(2) m by (intro zdiv_mono1 mult_left_mono) auto
  then have "a * int r div ?m \<le> a" using m by simp
  moreover have "0 \<le> a * int r div ?m" using assms(2) m by (simp add: pos_imp_zdiv_nonneg_iff)
  ultimately show "in_i128 (a * int r div ?m)" using assms(1) by (auto simp: in_i128_def)
qed

end
