(* ===== verification/Governance_State.thy ===== *)
theory Governance_State
  imports Governance_Math
begin

text \<open>
  The storage of the governance contract, its errors and events, what it calls outside, and the reads its operations
  share (\<open>governance/src\<close>: \<open>lib.rs\<close>, \<open>voting.rs\<close>, \<open>vetoken.rs\<close>, \<open>timelock.rs\<close>, \<open>simulation.rs\<close>, \<open>ring_sig.rs\<close>). Argument values of a call
  are opaque handles of the host. The curve operations behind ring signatures are a parameter, points and scalars being
  handles as well.
\<close>

section \<open>Data\<close>

datatype (plugins only: code size) gov_error = ArityMismatch | InvalidMembers | InvalidThreshold | InvalidVotingPeriod | NotAMember
  | GovProposalNotFound | VotingClosed | GovAlreadyVoted | AlreadyExecuted | QuorumNotMet | ProposalActive | ProposalNotApproved
  | RagequitWindowClosed | AlreadyRagequit | NotADissenter | TreasuryNotConfigured | GovMathOverflow | SimulationRequired
  | SimulationMismatch | SimulationFailed | SimulationNotConfigured | OptimisticNotFound | OptimisticVetoed | ChallengeWindowClosed
  | AlreadyVetoed | InvalidRingSignature | DuplicateKeyImage | InvalidAnonymitySet | VotingModeConflict | VotingKeyAlreadyRegistered
  | InvalidVotingKey | TimelockRequired | GovTimelockNotExpired | AlreadyQueued

datatype (plugins only: code size) ve_error = TokenNotConfigured | TokenAlreadySet | VeInvalidAmount | LockTooShort | LockTooLong
  | AlreadyLocked | NoLock | LockNotExpired

datatype (plugins only: code size) qf_error = BountyNotFound | BountyAlreadyExists | BountyNotOpen | BountyAlreadyCompleted
  | QfInvalidAmount | QfTreasuryNotConfigured | InsufficientTreasury | QfMathOverflow

type_synonym host_value = nat

record ring_signature =
  rs_key_image :: bytes
  rs_initial_challenge :: bytes
  rs_responses :: "bytes list"

record proposal =
  pr_proposer :: address
  pr_target :: address
  pr_function :: string
  pr_args :: "host_value list"
  pr_yes_weight :: u64
  pr_no_weight :: u64
  pr_deadline_ledger :: u32
  pr_executed :: bool

record optimistic_proposal =
  op_proposer :: address
  op_target :: address
  op_function :: string
  op_args :: "host_value list"
  op_challenge_deadline_ledger :: u32
  op_veto_weight :: u64
  op_executed :: bool
  op_vetoed :: bool

record simulation_report =
  sr_simulator :: address
  sr_outcome :: u32
  sr_sim_hash :: bytes

record simulation_config =
  sc_simulator :: "address option"
  sc_required :: bool

record queued_proposal =
  qp_call_hash :: bytes
  qp_execution_ledger :: u32

record ve_lock =
  vl_amount :: i128
  vl_start_ledger :: u32
  vl_unlock_ledger :: u32

record bounty_funding =
  bf_recipient :: address
  bf_total_donated :: i128
  bf_sqrt_sum_scaled :: i128
  bf_completed :: bool
  bf_match_paid :: i128

datatype (plugins only: code size) gov_event =
    ProposalCreated u64 address address string u32
  | VoteCast u64 address bool u64
  | AnonymousVoteCast u64 bool u64
  | ProposalExecutedEvent u64 address string
  | RagequitEvent u64 address u64 i128
  | TimelockEnabled
  | TransactionQueued u64 bytes u32
  | VeLocked address i128 u32
  | VeWithdrawn address i128
  | OptimisticQueuedEvent u64 address address string u32
  | OptimisticVetoCastEvent u64 address u64 u64
  | OptimisticVetoedEvent u64
  | OptimisticExecutedEvent u64 address string
  | QfBountyOpened u64 address
  | QfDonationReceived u64 address i128 i128
  | QfBountyCompleted u64 address i128 i128 i128

record 'w governance =
  gv_total_weight :: "u64 option"
  gv_threshold_bps :: "u32 option"
  gv_voting_period :: "u32 option"
  gv_proposal_count :: "u64 option"
  gv_deposit :: "address \<rightharpoonup> u64"
  gv_proposal :: "u64 \<rightharpoonup> proposal"
  gv_voted :: "u64 \<times> address \<Rightarrow> bool"
  gv_dissent :: "u64 \<times> address \<Rightarrow> bool"
  gv_ragequit :: "u64 \<times> address \<Rightarrow> bool"
  gv_quarantined :: "address \<rightharpoonup> u64"
  gv_total_deposits :: "u64 option"
  gv_treasury_token :: "address option"
  gv_simulation :: "simulation_config option"
  gv_sim_attestation :: "u64 \<rightharpoonup> simulation_report"
  gv_optimistic_count :: "u64 option"
  gv_optimistic :: "u64 \<rightharpoonup> optimistic_proposal"
  gv_optimistic_veto :: "u64 \<times> address \<Rightarrow> bool"
  gv_voting_key :: "address \<rightharpoonup> bytes"
  gv_key_member :: "bytes \<rightharpoonup> address"
  gv_anonymous :: "u64 \<Rightarrow> bool"
  gv_key_image :: "u64 \<times> bytes \<Rightarrow> bool"
  gv_timelock :: "bool option"
  gv_queued :: "u64 \<rightharpoonup> queued_proposal"
  gv_ve_token :: "address option"
  gv_lock :: "address \<rightharpoonup> ve_lock"
  gv_bounty :: "u64 \<rightharpoonup> bounty_funding"
  gv_donation :: "u64 \<times> address \<rightharpoonup> i128"
  gv_events :: "gov_event list"
  gv_world :: 'w

definition governance_empty :: "'w \<Rightarrow> 'w governance" where
  "governance_empty w = \<lparr>gv_total_weight = None, gv_threshold_bps = None, gv_voting_period = None, gv_proposal_count = None,
     gv_deposit = Map.empty, gv_proposal = Map.empty, gv_voted = (\<lambda>_. False), gv_dissent = (\<lambda>_. False), gv_ragequit = (\<lambda>_. False),
     gv_quarantined = Map.empty, gv_total_deposits = None, gv_treasury_token = None, gv_simulation = None, gv_sim_attestation = Map.empty,
     gv_optimistic_count = None, gv_optimistic = Map.empty, gv_optimistic_veto = (\<lambda>_. False), gv_voting_key = Map.empty,
     gv_key_member = Map.empty, gv_anonymous = (\<lambda>_. False), gv_key_image = (\<lambda>_. False), gv_timelock = None, gv_queued = Map.empty,
     gv_ve_token = None, gv_lock = Map.empty, gv_bounty = Map.empty, gv_donation = Map.empty, gv_events = [], gv_world = w\<rparr>"

type_synonym ('w, 'a) gov_act = "(gov_error, 'w governance, 'a) action"

text \<open>Ristretto255 and its scalars, as the ring signatures use them.\<close>

record curve =
  cv_decompress :: "bytes \<Rightarrow> nat option"
  cv_compress :: "nat \<Rightarrow> bytes"
  cv_identity :: nat
  cv_base :: nat
  cv_add :: "nat \<Rightarrow> nat \<Rightarrow> nat"
  cv_mul :: "nat \<Rightarrow> nat \<Rightarrow> nat"
  cv_scalar :: "bytes \<Rightarrow> nat option"
  cv_scalar_mod_order :: "bytes \<Rightarrow> nat"
  cv_from_uniform :: "bytes \<Rightarrow> nat"

text \<open>Tokens, the contracts a proposal calls, the host's hash and encodings, and the curve.\<close>

record 'w gov_ext =
  gx_token :: "'w token"
  gx_invoke :: "'w \<Rightarrow> address \<Rightarrow> string \<Rightarrow> host_value list \<Rightarrow> (host_value \<times> 'w) option"
  gx_sha256 :: "bytes \<Rightarrow> bytes"
  gx_network_id :: bytes
  gx_address_xdr :: "address \<Rightarrow> bytes"
  gx_symbol_xdr :: "string \<Rightarrow> bytes"
  gx_value_xdr :: "host_value \<Rightarrow> bytes"
  gx_call_xdr :: "address \<Rightarrow> string \<Rightarrow> host_value list \<Rightarrow> bytes"
  gx_curve :: curve

definition gov_publish :: "gov_event \<Rightarrow> ('e, 'w governance, unit) action" where
  "gov_publish ev = amodify (\<lambda>s. s\<lparr>gv_events := gv_events s @ [ev]\<rparr>)"

definition gov_transfer :: "'w gov_ext \<Rightarrow> address \<Rightarrow> address \<Rightarrow> address \<Rightarrow> i128 \<Rightarrow> ('e, 'w governance, unit) action" where
  "gov_transfer X tok a b x = abind (aread (\<lambda>s. tok_transfer (gx_token X) (gv_world s) tok a b x)) (\<lambda>r.
     abind (alift (unwrap r)) (\<lambda>w. amodify (\<lambda>s. s\<lparr>gv_world := w\<rparr>)))"

text \<open>Payments that are skipped when there is nothing to pay, and an event published on a condition.\<close>

definition gov_pay :: "'w gov_ext \<Rightarrow> address \<Rightarrow> address \<Rightarrow> address \<Rightarrow> i128 \<Rightarrow> ('e, 'w governance, unit) action" where
  "gov_pay X tok a b x = (if x > 0 then gov_transfer X tok a b x else aret ())"

definition gov_publish_if :: "bool \<Rightarrow> gov_event \<Rightarrow> ('e, 'w governance, unit) action" where
  "gov_publish_if c ev = (if c then gov_publish ev else aret ())"

definition gov_balance :: "'w gov_ext \<Rightarrow> env \<Rightarrow> address \<Rightarrow> 'w governance \<Rightarrow> i128" where
  "gov_balance X E tok s = tok_balance (gx_token X) (gv_world s) tok (current_contract_address E)"

text \<open>\<open>env.invoke_contract\<close>: the host refuses to enter a contract that is already on the call stack.\<close>

definition invoke_target :: "'w gov_ext \<Rightarrow> env \<Rightarrow> address \<Rightarrow> string \<Rightarrow> host_value list \<Rightarrow> ('w, unit) gov_act" where
  "invoke_target X E target function args =
     abind (aread (\<lambda>s. if target = current_contract_address E then None else gx_invoke X (gv_world s) target function args)) (\<lambda>r.
     abind (alift (unwrap r)) (\<lambda>(v, w). amodify (\<lambda>s. s\<lparr>gv_world := w\<rparr>)))"

section \<open>Voting weight\<close>

definition lock_power :: "env \<Rightarrow> ve_lock \<Rightarrow> u64" where
  "lock_power E lock = power_for (vl_amount lock) (saturating_sub (vl_unlock_ledger lock) (sequence E))"

definition voting_power :: "env \<Rightarrow> 'w governance \<Rightarrow> address \<Rightarrow> u64" where
  "voting_power E s account = (case gv_lock s account of None \<Rightarrow> 0 | Some lock \<Rightarrow> lock_power E lock)"

definition quadratic_weight :: "env \<Rightarrow> 'w governance \<Rightarrow> address \<Rightarrow> u64" where
  "quadratic_weight E s member = (let deposit = unwrap_or (gv_deposit s member) 0 in
     if deposit = 0 then 0 else isqrt (u64_saturating_add deposit (voting_power E s member)))"

definition register_deposit :: "address \<Rightarrow> u64 \<Rightarrow> ('w, unit) gov_act" where
  "register_deposit member deposit = amodify (\<lambda>s. s\<lparr>gv_deposit := (gv_deposit s)(member \<mapsto> deposit)\<rparr>)"

definition member_deposit :: "address \<Rightarrow> ('w, unit) gov_act" where
  "member_deposit member = abind (aread (\<lambda>s. gv_deposit s member)) (\<lambda>d. aseq (alift (ok_or d NotAMember)) (aret ()))"

definition load_proposal :: "u64 \<Rightarrow> ('w, proposal) gov_act" where
  "load_proposal i = abind (aread (\<lambda>s. gv_proposal s i)) (\<lambda>p. alift (ok_or p GovProposalNotFound))"

definition store_proposal :: "u64 \<Rightarrow> proposal \<Rightarrow> ('w, unit) gov_act" where
  "store_proposal i p = amodify (\<lambda>s. s\<lparr>gv_proposal := (gv_proposal s)(i \<mapsto> p)\<rparr>)"

definition add_ballot :: "bool \<Rightarrow> u64 \<Rightarrow> proposal \<Rightarrow> proposal" where
  "add_ballot support weight p = (if support
     then p\<lparr>pr_yes_weight := u64_saturating_add (pr_yes_weight p) weight\<rparr>
     else p\<lparr>pr_no_weight := u64_saturating_add (pr_no_weight p) weight\<rparr>)"

definition accumulate_quadratic_weight :: "env \<Rightarrow> u64 \<Rightarrow> address \<Rightarrow> bool \<Rightarrow> ('w, unit) gov_act" where
  "accumulate_quadratic_weight E i voter support =
     abind (aread (\<lambda>s. quadratic_weight E s voter)) (\<lambda>weight.
     aseq (arefuse (weight = 0) NotAMember)
     (abind (load_proposal i) (\<lambda>p. store_proposal i (add_ballot support weight p))))"

section \<open>Approval\<close>

definition MAX_THRESHOLD_BPS :: u32 where "MAX_THRESHOLD_BPS = 10000"
definition MIN_THRESHOLD_BPS :: u32 where "MIN_THRESHOLD_BPS = 1"
definition MAX_MEMBERS :: u32 where "MAX_MEMBERS = 32"
definition RAGEQUIT_WINDOW :: u32 where "RAGEQUIT_WINDOW = 120960"

text \<open>The quorum a proposal needs at this ledger. The products are computed at 128 bits and cannot overflow.\<close>

definition effective_bps :: "env \<Rightarrow> u32 \<Rightarrow> u32 \<Rightarrow> proposal \<Rightarrow> u32" where
  "effective_bps E threshold_bps voting_period p =
     (let created_ledger = saturating_sub (pr_deadline_ledger p) voting_period;
          elapsed = saturating_sub (sequence E) created_ledger
      in current_quorum_bps threshold_bps elapsed voting_period)"

definition quorum_met :: "env \<Rightarrow> u64 \<Rightarrow> u32 \<Rightarrow> u32 \<Rightarrow> proposal \<Rightarrow> bool" where
  "quorum_met E weight_sum threshold_bps voting_period p \<longleftrightarrow>
     pr_yes_weight p * MAX_THRESHOLD_BPS \<ge> weight_sum * effective_bps E threshold_bps voting_period p"

definition ragequit_is_approved :: "env \<Rightarrow> 'w governance \<Rightarrow> proposal \<Rightarrow> bool" where
  "ragequit_is_approved E s p =
     (let weight_sum = unwrap_or (gv_total_weight s) 0 in
      if weight_sum = 0 \<or> pr_yes_weight p \<le> pr_no_weight p then False
      else quorum_met E weight_sum (unwrap_or (gv_threshold_bps s) 0) (unwrap_or (gv_voting_period s) 0) p)"

definition gov_settings :: "'w governance \<Rightarrow> (gov_error, u64 \<times> u32 \<times> u32) result" where
  "gov_settings s = obind (ok_or (gv_total_weight s) InvalidMembers) (\<lambda>weight_sum.
     obind (ok_or (gv_threshold_bps s) InvalidThreshold) (\<lambda>threshold_bps.
     obind (ok_or (gv_voting_period s) InvalidVotingPeriod) (\<lambda>voting_period. Ok (weight_sum, threshold_bps, voting_period))))"

definition timelock_is_approved :: "env \<Rightarrow> 'w governance \<Rightarrow> proposal \<Rightarrow> (gov_error, bool) result" where
  "timelock_is_approved E s p = obind (gov_settings s) (\<lambda>(weight_sum, threshold_bps, voting_period).
     Ok (quorum_met E weight_sum threshold_bps voting_period p \<and> pr_yes_weight p > pr_no_weight p))"

section \<open>The timelock\<close>

definition TIMELOCK_DELAY_LEDGERS :: u32 where "TIMELOCK_DELAY_LEDGERS = 34560"

definition timelock_enabled :: "'w governance \<Rightarrow> bool" where
  "timelock_enabled s = unwrap_or (gv_timelock s) False"

definition proposal_call_hash :: "'w gov_ext \<Rightarrow> proposal \<Rightarrow> bytes" where
  "proposal_call_hash X p = gx_sha256 X (gx_call_xdr X (pr_target p) (pr_function p) (pr_args p))"

definition require_matured :: "'w gov_ext \<Rightarrow> env \<Rightarrow> u64 \<Rightarrow> proposal \<Rightarrow> ('w, unit) gov_act" where
  "require_matured X E i p = abind (aread timelock_enabled) (\<lambda>on. if \<not> on then aret () else
     abind (aread (\<lambda>s. gv_queued s i)) (\<lambda>q. abind (alift (ok_or q TimelockRequired)) (\<lambda>queued.
     aseq (arefuse (qp_call_hash queued \<noteq> proposal_call_hash X p) TimelockRequired)
     (aseq (arefuse (sequence E < qp_execution_ledger queued) GovTimelockNotExpired)
     (amodify (\<lambda>s. s\<lparr>gv_queued := (gv_queued s)(i := None)\<rparr>))))))"

section \<open>Simulation reports\<close>

definition ascii :: "string \<Rightarrow> bytes" where
  "ascii cs = map (\<lambda>c. word_of_nat (of_char c)) cs"

definition SIM_OK :: u32 where "SIM_OK = 0"

definition SIM_PAYLOAD_DOMAIN :: bytes where "SIM_PAYLOAD_DOMAIN = ascii ''accensa:proposal-sim:v1''"

definition sim_payload :: "'w gov_ext \<Rightarrow> address \<Rightarrow> u64 \<Rightarrow> address \<Rightarrow> string \<Rightarrow> host_value list \<Rightarrow> bytes" where
  "sim_payload X governance i target function args = SIM_PAYLOAD_DOMAIN @ gx_address_xdr X governance @ be_bytes 8 i @
     gx_address_xdr X target @ gx_symbol_xdr X function @ concat (map (gx_value_xdr X) args)"

definition sim_hash :: "'w gov_ext \<Rightarrow> address \<Rightarrow> u64 \<Rightarrow> address \<Rightarrow> string \<Rightarrow> host_value list \<Rightarrow> bytes" where
  "sim_hash X governance i target function args = gx_sha256 X (sim_payload X governance i target function args)"

definition simulation_required :: "'w governance \<Rightarrow> bool" where
  "simulation_required s = (case gv_simulation s of None \<Rightarrow> False | Some c \<Rightarrow> sc_required c)"

section \<open>Ring signatures\<close>

definition MESSAGE_DOMAIN :: bytes where "MESSAGE_DOMAIN = ascii ''ACCENSA_GOVERNANCE_LSAG_V1''"
definition IMAGE_DOMAIN :: bytes where "IMAGE_DOMAIN = ascii ''ACCENSA_GOVERNANCE_LSAG_KEY_IMAGE_V1''"
definition CHALLENGE_DOMAIN :: bytes where "CHALLENGE_DOMAIN = ascii ''ACCENSA_GOVERNANCE_LSAG_CHALLENGE_V1''"

definition vote_message :: "'w gov_ext \<Rightarrow> env \<Rightarrow> u64 \<Rightarrow> bool \<Rightarrow> bytes list \<Rightarrow> bytes" where
  "vote_message X E i support ring = MESSAGE_DOMAIN @ gx_network_id X @ gx_address_xdr X (current_contract_address E) @
     be_bytes 8 i @ [if support then 1 else 0] @ be_bytes 4 (length ring) @ concat ring"

definition valid_public_key :: "'w gov_ext \<Rightarrow> bytes \<Rightarrow> bool" where
  "valid_public_key X key = (case cv_decompress (gx_curve X) key of None \<Rightarrow> False | Some p \<Rightarrow> p \<noteq> cv_identity (gx_curve X))"

definition challenge_scalar :: "'w gov_ext \<Rightarrow> bytes \<Rightarrow> nat \<Rightarrow> nat \<Rightarrow> nat" where
  "challenge_scalar X message left right = cv_scalar_mod_order (gx_curve X) (gx_sha256 X (CHALLENGE_DOMAIN @
     be_bytes 4 (length message) @ message @ cv_compress (gx_curve X) left @ cv_compress (gx_curve X) right))"

definition hash_to_point :: "'w gov_ext \<Rightarrow> env \<Rightarrow> u64 \<Rightarrow> bytes \<Rightarrow> nat" where
  "hash_to_point X E i public_key = (let scope = IMAGE_DOMAIN @ gx_network_id X @ gx_address_xdr X (current_contract_address E) @
       be_bytes 8 i @ public_key
     in cv_from_uniform (gx_curve X) (gx_sha256 X (scope @ [0]) @ gx_sha256 X (scope @ [1])))"

text \<open>The challenge cycle of \<open>verify\<close>: each ring member's key and response move the challenge on.\<close>

fun challenge_cycle :: "'w gov_ext \<Rightarrow> env \<Rightarrow> u64 \<Rightarrow> bytes \<Rightarrow> nat \<Rightarrow> bytes list \<Rightarrow> bytes list \<Rightarrow> nat \<Rightarrow> nat option" where
  "challenge_cycle X E i message img (key # ring) (resp # responses) challenge =
     (case cv_decompress (gx_curve X) key of None \<Rightarrow> None | Some public \<Rightarrow>
      (case cv_scalar (gx_curve X) resp of None \<Rightarrow> None | Some response \<Rightarrow>
      let C = gx_curve X;
          hp = hash_to_point X E i key;
          left = cv_add C (cv_mul C response (cv_base C)) (cv_mul C challenge public);
          right = cv_add C (cv_mul C response hp) (cv_mul C challenge img)
      in challenge_cycle X E i message img ring responses (challenge_scalar X message left right)))"
| "challenge_cycle X E i message img ring responses challenge = Some challenge"

definition ring_verify :: "'w gov_ext \<Rightarrow> env \<Rightarrow> u64 \<Rightarrow> bytes list \<Rightarrow> bytes \<Rightarrow> ring_signature \<Rightarrow> bool" where
  "ring_verify X E i ring message signature =
     (if length (rs_responses signature) \<noteq> length ring then False
      else (case cv_decompress (gx_curve X) (rs_key_image signature) of None \<Rightarrow> False | Some img \<Rightarrow>
      if img = cv_identity (gx_curve X) then False
      else (case cv_scalar (gx_curve X) (rs_initial_challenge signature) of None \<Rightarrow> False | Some initial \<Rightarrow>
        challenge_cycle X E i message img ring (rs_responses signature) initial = Some initial)))"

end
