(* ===== verification/Governance_Ops.thy ===== *)
theory Governance_Ops
  imports Governance_State
begin

text \<open>
  The entry points of the governance contract: construction, proposals with and without a simulation report, transparent and
  anonymous ballots, execution, pruning, ragequit, the timelock queue, the vote escrow and the optimistic track
  (\<open>governance/src\<close>: \<open>lib.rs\<close>, \<open>ragequit.rs\<close>, \<open>timelock.rs\<close>, \<open>vetoken.rs\<close>, \<open>simulation.rs\<close>, \<open>optimistic.rs\<close>).
\<close>

section \<open>Construction\<close>

primrec register_members :: "env \<Rightarrow> (address \<times> u64) list \<Rightarrow> u64 \<Rightarrow> u64 \<Rightarrow> ('w, u64 \<times> u64) gov_act" where
  "register_members E [] weights deposits = aret (weights, deposits)"
| "register_members E (md # rest) weights deposits = (case md of (member, deposit) \<Rightarrow>
     aseq (arefuse (deposit = 0) InvalidMembers)
     (abind (aread (\<lambda>s. gv_deposit s member)) (\<lambda>known.
      aseq (arefuse (known \<noteq> None) InvalidMembers)
      (aseq (register_deposit member deposit)
      (aseq (arefuse (\<not> in_u64 (deposits + deposit)) InvalidMembers)
      (abind (aread (\<lambda>s. quadratic_weight E s member)) (\<lambda>weight.
       aseq (arefuse (\<not> in_u64 (weights + weight)) InvalidMembers)
       (register_members E rest (weights + weight) (deposits + deposit)))))))))"

definition gov_constructor :: "env \<Rightarrow> address list \<Rightarrow> u64 list \<Rightarrow> u32 \<Rightarrow> u32 \<Rightarrow> ('w, unit) gov_act" where
  "gov_constructor E members deposits threshold_bps voting_period_ledgers =
     aseq (arefuse (length members \<noteq> length deposits) ArityMismatch)
     (aseq (arefuse (members = [] \<or> length members > MAX_MEMBERS) InvalidMembers)
     (aseq (arefuse (\<not> (MIN_THRESHOLD_BPS \<le> threshold_bps \<and> threshold_bps \<le> MAX_THRESHOLD_BPS)) InvalidThreshold)
     (aseq (arefuse (voting_period_ledgers = 0) InvalidVotingPeriod)
     (abind (register_members E (zip members deposits) 0 0) (\<lambda>(weights, deposit_sum).
      amodify (\<lambda>s. s\<lparr>gv_total_weight := Some weights, gv_total_deposits := Some deposit_sum, gv_threshold_bps := Some threshold_bps,
        gv_voting_period := Some voting_period_ledgers, gv_proposal_count := Some 0\<rparr>))))))"

section \<open>Proposals\<close>

definition fresh_proposal :: "address \<Rightarrow> address \<Rightarrow> string \<Rightarrow> host_value list \<Rightarrow> u32 \<Rightarrow> proposal" where
  "fresh_proposal proposer target function args deadline = \<lparr>pr_proposer = proposer, pr_target = target, pr_function = function,
     pr_args = args, pr_yes_weight = 0, pr_no_weight = 0, pr_deadline_ledger = deadline, pr_executed = False\<rparr>"

definition propose :: "env \<Rightarrow> address \<Rightarrow> address \<Rightarrow> string \<Rightarrow> host_value list \<Rightarrow> ('w, u64) gov_act" where
  "propose E proposer target function args =
     aseq (alift (require_auth E proposer))
     (aseq (member_deposit proposer)
     (abind (aread simulation_required) (\<lambda>required.
      aseq (arefuse required SimulationRequired)
      (abind (aread (\<lambda>s. unwrap_or (gv_proposal_count s) 0)) (\<lambda>i.
       abind (alift (u64_add i 1)) (\<lambda>next_id.
       aseq (amodify (\<lambda>s. s\<lparr>gv_proposal_count := Some next_id\<rparr>))
       (abind (aread gv_voting_period) (\<lambda>vp. abind (alift (ok_or vp InvalidVotingPeriod)) (\<lambda>voting_period.
        abind (alift (u32_add (sequence E) voting_period)) (\<lambda>deadline_ledger.
        aseq (store_proposal next_id (fresh_proposal proposer target function args deadline_ledger))
        (aseq (gov_publish (ProposalCreated next_id proposer target function deadline_ledger))
        (aret next_id))))))))))))"

definition vote :: "env \<Rightarrow> address \<Rightarrow> u64 \<Rightarrow> bool \<Rightarrow> ('w, unit) gov_act" where
  "vote E voter i support =
     aseq (alift (require_auth E voter))
     (abind (aread (\<lambda>s. gv_anonymous s i \<and> gv_voting_key s voter \<noteq> None)) (\<lambda>conflict.
      aseq (arefuse conflict VotingModeConflict)
      (abind (aread (\<lambda>s. quadratic_weight E s voter)) (\<lambda>weight.
       aseq (arefuse (weight = 0) NotAMember)
       (abind (load_proposal i) (\<lambda>p.
        aseq (arefuse (pr_executed p) AlreadyExecuted)
        (aseq (arefuse (sequence E > pr_deadline_ledger p) VotingClosed)
        (abind (aread (\<lambda>s. gv_voted s (i, voter))) (\<lambda>voted.
         aseq (arefuse voted GovAlreadyVoted)
         (aseq (amodify (\<lambda>s. s\<lparr>gv_voted := (gv_voted s)((i, voter) := True)\<rparr>))
         (aseq (if support then aret () else amodify (\<lambda>s. s\<lparr>gv_dissent := (gv_dissent s)((i, voter) := True)\<rparr>))
         (aseq (store_proposal i (add_ballot support weight p))
         (gov_publish (VoteCast i voter support weight))))))))))))))"

definition register_voting_key :: "'w gov_ext \<Rightarrow> env \<Rightarrow> address \<Rightarrow> bytes \<Rightarrow> ('w, unit) gov_act" where
  "register_voting_key X E member public_key =
     aseq (alift (require_auth E member))
     (aseq (member_deposit member)
     (abind (aread (\<lambda>s. gv_voting_key s member \<noteq> None \<or> gv_key_member s public_key \<noteq> None)) (\<lambda>known.
      aseq (arefuse known VotingKeyAlreadyRegistered)
      (aseq (arefuse (\<not> valid_public_key X public_key) InvalidVotingKey)
      (amodify (\<lambda>s. s\<lparr>gv_voting_key := (gv_voting_key s)(member \<mapsto> public_key), gv_key_member := (gv_key_member s)(public_key \<mapsto> member)\<rparr>))))))"

text \<open>The loop over the ring: registered keys, no transparent voter, one weight, no key twice.\<close>

fun ring_weight :: "env \<Rightarrow> 'w governance \<Rightarrow> u64 \<Rightarrow> bytes list \<Rightarrow> bytes list \<Rightarrow> u64 option \<Rightarrow> (gov_error, u64 option) result" where
  "ring_weight E s i seen [] weight = Ok weight"
| "ring_weight E s i seen (k # ks) weight = (case gv_key_member s k of
     None \<Rightarrow> Err InvalidAnonymitySet
   | Some member \<Rightarrow> if gv_voted s (i, member) then Err VotingModeConflict
     else let member_weight = quadratic_weight E s member in
       if member_weight = 0 \<or> (weight \<noteq> None \<and> weight \<noteq> Some member_weight) \<or> k \<in> set seen then Err InvalidAnonymitySet
       else ring_weight E s i (seen @ [k]) ks (Some member_weight))"

definition vote_anonymous :: "'w gov_ext \<Rightarrow> env \<Rightarrow> u64 \<Rightarrow> bool \<Rightarrow> bytes list \<Rightarrow> ring_signature \<Rightarrow> ('w, unit) gov_act" where
  "vote_anonymous X E i support ring signature =
     aseq (arefuse (length ring < 2 \<or> length ring > MAX_MEMBERS) InvalidAnonymitySet)
     (abind (load_proposal i) (\<lambda>p.
      aseq (arefuse (pr_executed p) AlreadyExecuted)
      (aseq (arefuse (sequence E > pr_deadline_ledger p) VotingClosed)
      (abind (aread (\<lambda>s. ring_weight E s i [] ring None)) (\<lambda>r. abind (alift r) (\<lambda>w. abind (alift (ok_or w InvalidAnonymitySet)) (\<lambda>weight.
       aseq (arefuse (\<not> ring_verify X E i ring (vote_message X E i support ring) signature) InvalidRingSignature)
       (abind (aread (\<lambda>s. gv_key_image s (i, rs_key_image signature))) (\<lambda>used.
        aseq (arefuse used DuplicateKeyImage)
        (aseq (amodify (\<lambda>s. s\<lparr>gv_anonymous := (gv_anonymous s)(i := True), gv_key_image := (gv_key_image s)((i, rs_key_image signature) := True)\<rparr>))
        (aseq (store_proposal i (add_ballot support weight p))
        (gov_publish (AnonymousVoteCast i support weight)))))))))))))"

section \<open>Execution\<close>

definition execute :: "'w gov_ext \<Rightarrow> env \<Rightarrow> u64 \<Rightarrow> ('w, unit) gov_act" where
  "execute X E i =
     abind (load_proposal i) (\<lambda>p.
     aseq (arefuse (pr_executed p) AlreadyExecuted)
     (abind (aread gov_settings) (\<lambda>r. abind (alift r) (\<lambda>(weight_sum, threshold_bps, voting_period).
      aseq (arefuse (\<not> quorum_met E weight_sum threshold_bps voting_period p \<or> pr_yes_weight p \<le> pr_no_weight p) QuorumNotMet)
      (aseq (require_matured X E i p)
      (aseq (store_proposal i (p\<lparr>pr_executed := True\<rparr>))
      (aseq (invoke_target X E (pr_target p) (pr_function p) (pr_args p))
      (gov_publish (ProposalExecutedEvent i (pr_target p) (pr_function p))))))))))"

definition prune_proposal :: "env \<Rightarrow> u64 \<Rightarrow> ('w, unit) gov_act" where
  "prune_proposal E i =
     abind (load_proposal i) (\<lambda>p.
     abind (aread (\<lambda>s. ragequit_is_approved E s p)) (\<lambda>approved.
     aseq (arefuse (\<not> pr_executed p \<and> sequence E \<le> pr_deadline_ledger p) ProposalActive)
     (aseq (arefuse (\<not> pr_executed p \<and> approved \<and> sequence E \<le> u32_saturating_add (pr_deadline_ledger p) RAGEQUIT_WINDOW) ProposalActive)
     (amodify (\<lambda>s. s\<lparr>gv_proposal := (gv_proposal s)(i := None)\<rparr>)))))"

definition set_treasury_token :: "env \<Rightarrow> address \<Rightarrow> ('w, unit) gov_act" where
  "set_treasury_token E tok = aseq (alift (require_auth E (current_contract_address E)))
     (amodify (\<lambda>s. s\<lparr>gv_treasury_token := Some tok\<rparr>))"

section \<open>Ragequit\<close>

definition ragequit_payout :: "i128 \<Rightarrow> u64 \<Rightarrow> u64 \<Rightarrow> (gov_error, i128) result" where
  "ragequit_payout balance deposit deposit_sum =
     (if balance < 0 then Err GovMathOverflow
      else let denominator = (if deposit_sum = 0 then deposit else deposit_sum) in
        if \<not> balance * int deposit < 2 ^ 128 then Err GovMathOverflow
        else let payout = balance * int deposit div int denominator in
          if \<not> payout < 2 ^ 127 then Err GovMathOverflow else Ok payout)"

definition ragequit_process :: "'w gov_ext \<Rightarrow> env \<Rightarrow> address \<Rightarrow> u64 \<Rightarrow> ('w, unit) gov_act" where
  "ragequit_process X E voter i =
     abind (load_proposal i) (\<lambda>p.
     aseq (arefuse (pr_executed p) AlreadyExecuted)
     (abind (aread (\<lambda>s. gv_dissent s (i, voter))) (\<lambda>dissent.
      aseq (arefuse (\<not> dissent) NotADissenter)
      (abind (aread (\<lambda>s. ragequit_is_approved E s p)) (\<lambda>approved.
       aseq (arefuse (\<not> approved) ProposalNotApproved)
       (aseq (arefuse (sequence E > u32_saturating_add (pr_deadline_ledger p) RAGEQUIT_WINDOW) RagequitWindowClosed)
       (abind (aread (\<lambda>s. gv_ragequit s (i, voter))) (\<lambda>quit.
        aseq (arefuse quit AlreadyRagequit)
        (abind (aread (\<lambda>s. gv_deposit s voter)) (\<lambda>d. abind (alift (ok_or d NotAMember)) (\<lambda>deposit.
         aseq (arefuse (deposit = 0) NotAMember)
         (abind (aread gv_treasury_token) (\<lambda>t. abind (alift (ok_or t TreasuryNotConfigured)) (\<lambda>treasury.
          abind (aread (\<lambda>s. (gov_balance X E treasury s, unwrap_or (gv_total_deposits s) 0))) (\<lambda>(balance, deposit_sum).
          abind (alift (ragequit_payout balance deposit deposit_sum)) (\<lambda>payout.
          abind (aread (\<lambda>s. quadratic_weight E s voter)) (\<lambda>weight.
          aseq (amodify (\<lambda>s. s\<lparr>gv_deposit := (gv_deposit s)(voter := None), gv_quarantined := (gv_quarantined s)(voter \<mapsto> deposit),
            gv_ragequit := (gv_ragequit s)((i, voter) := True), gv_total_deposits := Some (saturating_sub deposit_sum deposit),
            gv_total_weight := Some (saturating_sub (unwrap_or (gv_total_weight s) 0) weight)\<rparr>))
          (aseq (gov_publish (RagequitEvent i voter deposit payout))
          (gov_pay X treasury (current_contract_address E) voter payout)))))))))))))))))))"

definition ragequit :: "'w gov_ext \<Rightarrow> env \<Rightarrow> address \<Rightarrow> u64 \<Rightarrow> ('w, unit) gov_act" where
  "ragequit X E voter i = aseq (alift (require_auth E voter)) (ragequit_process X E voter i)"

section \<open>The timelock queue\<close>

definition enable_timelock :: "env \<Rightarrow> ('w, unit) gov_act" where
  "enable_timelock E = aseq (alift (require_auth E (current_contract_address E)))
     (aseq (amodify (\<lambda>s. s\<lparr>gv_timelock := Some True\<rparr>)) (gov_publish TimelockEnabled))"

definition queue_proposal :: "'w gov_ext \<Rightarrow> env \<Rightarrow> address \<Rightarrow> u64 \<Rightarrow> ('w, u32) gov_act" where
  "queue_proposal X E caller i =
     aseq (alift (require_auth E caller))
     (aseq (member_deposit caller)
     (abind (load_proposal i) (\<lambda>p.
      aseq (arefuse (pr_executed p) AlreadyExecuted)
      (abind (aread (\<lambda>s. gv_queued s i)) (\<lambda>q.
       aseq (arefuse (q \<noteq> None) AlreadyQueued)
       (abind (aread (\<lambda>s. timelock_is_approved E s p)) (\<lambda>r. abind (alift r) (\<lambda>approved.
        aseq (arefuse (\<not> approved) QuorumNotMet)
        (let execution_ledger = u32_saturating_add (sequence E) TIMELOCK_DELAY_LEDGERS; hash = proposal_call_hash X p in
         aseq (amodify (\<lambda>s. s\<lparr>gv_queued := (gv_queued s)(i \<mapsto> \<lparr>qp_call_hash = hash, qp_execution_ledger = execution_ledger\<rparr>)\<rparr>))
         (aseq (gov_publish (TransactionQueued i hash execution_ledger))
         (aret execution_ledger)))))))))))"

definition execute_queued :: "'w gov_ext \<Rightarrow> env \<Rightarrow> u64 \<Rightarrow> ('w, unit) gov_act" where
  "execute_queued X E i = abind (aread (\<lambda>s. gv_queued s i)) (\<lambda>q. aseq (arefuse (q = None) TimelockRequired) (execute X E i))"

section \<open>Proposals with a simulation report\<close>

definition set_config :: "address option \<Rightarrow> bool \<Rightarrow> ('w, unit) gov_act" where
  "set_config simulator required = aseq (arefuse (required \<and> simulator = None) SimulationNotConfigured)
     (amodify (\<lambda>s. s\<lparr>gv_simulation := Some \<lparr>sc_simulator = simulator, sc_required = required\<rparr>\<rparr>))"

definition set_simulation_config :: "env \<Rightarrow> address \<Rightarrow> address option \<Rightarrow> bool \<Rightarrow> ('w, unit) gov_act" where
  "set_simulation_config E member simulator required =
     aseq (alift (require_auth E member)) (aseq (member_deposit member) (set_config simulator required))"

definition simulated_proposal :: "'w gov_ext \<Rightarrow> env \<Rightarrow> address \<Rightarrow> address \<Rightarrow> string \<Rightarrow> host_value list \<Rightarrow> simulation_report \<Rightarrow> ('w, u64) gov_act" where
  "simulated_proposal X E proposer target function args report =
     aseq (member_deposit proposer)
     (abind (aread (\<lambda>s. case gv_simulation s of None \<Rightarrow> None | Some c \<Rightarrow> sc_simulator c)) (\<lambda>r.
      abind (alift (ok_or r SimulationNotConfigured)) (\<lambda>registered.
      aseq (arefuse (sr_simulator report \<noteq> registered) SimulationMismatch)
      (abind (aread (\<lambda>s. unwrap_or (gv_proposal_count s) 0)) (\<lambda>i.
       abind (alift (u64_add i 1)) (\<lambda>next_id.
       aseq (arefuse (sr_sim_hash report \<noteq> sim_hash X (current_contract_address E) next_id target function args) SimulationMismatch)
       (aseq (arefuse (sr_outcome report \<noteq> SIM_OK) SimulationFailed)
       (abind (aread gv_voting_period) (\<lambda>vp. abind (alift (ok_or vp InvalidVotingPeriod)) (\<lambda>voting_period.
        abind (alift (u32_add (sequence E) voting_period)) (\<lambda>deadline_ledger.
        aseq (store_proposal next_id (fresh_proposal proposer target function args deadline_ledger))
        (aseq (amodify (\<lambda>s. s\<lparr>gv_sim_attestation := (gv_sim_attestation s)(next_id \<mapsto> report), gv_proposal_count := Some next_id\<rparr>))
        (aseq (gov_publish (ProposalCreated next_id proposer target function deadline_ledger))
        (aret next_id))))))))))))))"

definition propose_with_simulation :: "'w gov_ext \<Rightarrow> env \<Rightarrow> address \<Rightarrow> address \<Rightarrow> string \<Rightarrow> host_value list \<Rightarrow> simulation_report \<Rightarrow> ('w, u64) gov_act" where
  "propose_with_simulation X E proposer target function args report =
     aseq (alift (require_auth E proposer)) (simulated_proposal X E proposer target function args report)"

section \<open>Vote escrow\<close>

definition set_ve_token :: "env \<Rightarrow> address \<Rightarrow> (ve_error, 'w governance, unit) action" where
  "set_ve_token E tok =
     aseq (alift (require_auth E (current_contract_address E)))
     (abind (aread gv_ve_token) (\<lambda>t.
      aseq (arefuse (t \<noteq> None) TokenAlreadySet)
      (amodify (\<lambda>s. s\<lparr>gv_ve_token := Some tok\<rparr>))))"

definition create_lock :: "'w gov_ext \<Rightarrow> env \<Rightarrow> address \<Rightarrow> i128 \<Rightarrow> u32 \<Rightarrow> (ve_error, 'w governance, unit) action" where
  "create_lock X E user amount unlock_ledger =
     aseq (alift (require_auth E user))
     (aseq (arefuse (amount \<le> 0) VeInvalidAmount)
     (abind (aread gv_ve_token) (\<lambda>t. abind (alift (ok_or t TokenNotConfigured)) (\<lambda>tok.
      abind (aread (\<lambda>s. gv_lock s user)) (\<lambda>l.
      aseq (arefuse (l \<noteq> None) AlreadyLocked)
      (let duration = saturating_sub unlock_ledger (sequence E) in
       aseq (arefuse (duration < MIN_LOCK_LEDGERS) LockTooShort)
       (aseq (arefuse (duration > MAX_LOCK_LEDGERS) LockTooLong)
       (aseq (amodify (\<lambda>s. s\<lparr>gv_lock := (gv_lock s)(user \<mapsto> \<lparr>vl_amount = amount, vl_start_ledger = sequence E, vl_unlock_ledger = unlock_ledger\<rparr>)\<rparr>))
       (aseq (gov_transfer X tok user (current_contract_address E) amount)
       (gov_publish (VeLocked user amount unlock_ledger)))))))))))"

definition withdraw_lock :: "'w gov_ext \<Rightarrow> env \<Rightarrow> address \<Rightarrow> (ve_error, 'w governance, unit) action" where
  "withdraw_lock X E user =
     aseq (alift (require_auth E user))
     (abind (aread (\<lambda>s. gv_lock s user)) (\<lambda>l. abind (alift (ok_or l NoLock)) (\<lambda>lock.
      aseq (arefuse (sequence E < vl_unlock_ledger lock) LockNotExpired)
      (abind (aread gv_ve_token) (\<lambda>t. abind (alift (ok_or t TokenNotConfigured)) (\<lambda>tok.
       aseq (amodify (\<lambda>s. s\<lparr>gv_lock := (gv_lock s)(user := None)\<rparr>))
       (aseq (gov_transfer X tok (current_contract_address E) user (vl_amount lock))
       (gov_publish (VeWithdrawn user (vl_amount lock))))))))))"

section \<open>The optimistic track\<close>

definition OPTIMISTIC_CHALLENGE_WINDOW :: u32 where "OPTIMISTIC_CHALLENGE_WINDOW = 17280"
definition VETO_THRESHOLD_BPS :: u32 where "VETO_THRESHOLD_BPS = 6667"

definition load_optimistic :: "u64 \<Rightarrow> ('w, optimistic_proposal) gov_act" where
  "load_optimistic i = abind (aread (\<lambda>s. gv_optimistic s i)) (\<lambda>p. alift (ok_or p OptimisticNotFound))"

definition store_optimistic :: "u64 \<Rightarrow> optimistic_proposal \<Rightarrow> ('w, unit) gov_act" where
  "store_optimistic i p = amodify (\<lambda>s. s\<lparr>gv_optimistic := (gv_optimistic s)(i \<mapsto> p)\<rparr>)"

definition optimistic_submit :: "env \<Rightarrow> address \<Rightarrow> address \<Rightarrow> string \<Rightarrow> host_value list \<Rightarrow> ('w, u64) gov_act" where
  "optimistic_submit E proposer target function args =
     aseq (alift (require_auth E proposer))
     (abind (aread (\<lambda>s. quadratic_weight E s proposer)) (\<lambda>weight.
      aseq (arefuse (weight = 0) NotAMember)
      (abind (aread (\<lambda>s. unwrap_or (gv_optimistic_count s) 0)) (\<lambda>n.
       abind (alift (u64_add n 1)) (\<lambda>i.
       aseq (amodify (\<lambda>s. s\<lparr>gv_optimistic_count := Some i\<rparr>))
       (abind (alift (u32_add (sequence E) OPTIMISTIC_CHALLENGE_WINDOW)) (\<lambda>deadline.
        aseq (store_optimistic i \<lparr>op_proposer = proposer, op_target = target, op_function = function, op_args = args,
          op_challenge_deadline_ledger = deadline, op_veto_weight = 0, op_executed = False, op_vetoed = False\<rparr>)
        (aseq (gov_publish (OptimisticQueuedEvent i proposer target function deadline))
        (aret i)))))))))"

definition veto_optimistic :: "env \<Rightarrow> address \<Rightarrow> u64 \<Rightarrow> ('w, unit) gov_act" where
  "veto_optimistic E voter i =
     aseq (alift (require_auth E voter))
     (abind (aread (\<lambda>s. quadratic_weight E s voter)) (\<lambda>weight.
      aseq (arefuse (weight = 0) NotAMember)
      (abind (load_optimistic i) (\<lambda>p.
       aseq (arefuse (op_executed p) AlreadyExecuted)
       (aseq (arefuse (op_vetoed p) OptimisticVetoed)
       (aseq (arefuse (sequence E > op_challenge_deadline_ledger p) ChallengeWindowClosed)
       (abind (aread (\<lambda>s. (gv_optimistic_veto s (i, voter), unwrap_or (gv_total_weight s) 0))) (\<lambda>(vetoed, weight_sum).
        aseq (arefuse vetoed AlreadyVetoed)
        (let veto_weight = u64_saturating_add (op_veto_weight p) weight;
             threshold_met = veto_weight * MAX_THRESHOLD_BPS \<ge> weight_sum * VETO_THRESHOLD_BPS
         in aseq (amodify (\<lambda>s. s\<lparr>gv_optimistic_veto := (gv_optimistic_veto s)((i, voter) := True)\<rparr>))
            (aseq (store_optimistic i (p\<lparr>op_veto_weight := veto_weight, op_vetoed := op_vetoed p \<or> threshold_met\<rparr>))
            (aseq (gov_publish (OptimisticVetoCastEvent i voter weight veto_weight))
            (gov_publish_if threshold_met (OptimisticVetoedEvent i)))))))))))))"

definition execute_optimistic :: "'w gov_ext \<Rightarrow> env \<Rightarrow> u64 \<Rightarrow> ('w, unit) gov_act" where
  "execute_optimistic X E i =
     abind (load_optimistic i) (\<lambda>p.
     aseq (arefuse (op_executed p) AlreadyExecuted)
     (aseq (arefuse (op_vetoed p) OptimisticVetoed)
     (aseq (store_optimistic i (p\<lparr>op_executed := True\<rparr>))
     (aseq (invoke_target X E (op_target p) (op_function p) (op_args p))
     (gov_publish (OptimisticExecutedEvent i (op_target p) (op_function p)))))))"

section \<open>Reads\<close>

definition get_proposal :: "'w governance \<Rightarrow> u64 \<Rightarrow> (gov_error, proposal) result" where
  "get_proposal s i = ok_or (gv_proposal s i) GovProposalNotFound"

definition is_member :: "'w governance \<Rightarrow> address \<Rightarrow> bool" where
  "is_member s a \<longleftrightarrow> gv_deposit s a \<noteq> None"

definition get_member_deposit :: "'w governance \<Rightarrow> address \<Rightarrow> u64" where
  "get_member_deposit s a = unwrap_or (gv_deposit s a) 0"

definition get_total_weight :: "'w governance \<Rightarrow> u64" where
  "get_total_weight s = unwrap_or (gv_total_weight s) 0"

definition get_total_deposits :: "'w governance \<Rightarrow> u64" where
  "get_total_deposits s = unwrap_or (gv_total_deposits s) 0"

definition get_quarantined :: "'w governance \<Rightarrow> address \<Rightarrow> u64" where
  "get_quarantined s a = unwrap_or (gv_quarantined s a) 0"

end
