(* ===== verification/Governance_Funding.thy ===== *)
theory Governance_Funding
  imports Complex_Main Governance_Ops
begin

text \<open>
  Donations to bounties and the quadratic match (\<open>governance/src/qf.rs\<close>). Each bounty keeps a running sum of scaled square roots,
  updated at every donation; the lemmas relate it to the contributions of the donors.
\<close>

section \<open>The match\<close>

definition QF_SCALE :: nat where "QF_SCALE = 10000000"
definition QF_SCALE_SQ :: nat where "QF_SCALE_SQ = QF_SCALE * QF_SCALE"

definition scaled_sqrt :: "i128 \<Rightarrow> (qf_error, nat) result" where
  "scaled_sqrt amount =
     (if amount \<le> 0 then Ok 0
      else if \<not> nat amount * QF_SCALE_SQ < 2 ^ 128 then Err QfMathOverflow
      else isqrt_u128 (nat amount * QF_SCALE_SQ))"

definition to_u128 :: "i128 \<Rightarrow> (qf_error, nat) result" where
  "to_u128 x = (if x < 0 then Err QfMathOverflow else Ok (nat x))"

definition match_from_scaled :: "nat \<Rightarrow> i128 \<Rightarrow> (qf_error, i128) result" where
  "match_from_scaled sqrt_sum_scaled total_donated =
     (if \<not> sqrt_sum_scaled * sqrt_sum_scaled < 2 ^ 128 then Err QfMathOverflow
      else let scaled_match = sqrt_sum_scaled * sqrt_sum_scaled div QF_SCALE_SQ in
        obind (to_u128 total_donated) (\<lambda>donated.
        let matched = saturating_sub scaled_match donated in
        if \<not> matched < 2 ^ 127 then Err QfMathOverflow else Ok (int matched)))"

section \<open>Operations\<close>

type_synonym ('w, 'a) qf_act = "(qf_error, 'w governance, 'a) action"

definition qf_load_bounty :: "u64 \<Rightarrow> ('w, bounty_funding) qf_act" where
  "qf_load_bounty b = abind (aread (\<lambda>s. gv_bounty s b)) (\<lambda>x. alift (ok_or x BountyNotFound))"

definition qf_store_bounty :: "u64 \<Rightarrow> bounty_funding \<Rightarrow> ('w, unit) qf_act" where
  "qf_store_bounty b x = amodify (\<lambda>s. s\<lparr>gv_bounty := (gv_bounty s)(b \<mapsto> x)\<rparr>)"

definition qf_open_bounty :: "env \<Rightarrow> u64 \<Rightarrow> address \<Rightarrow> ('w, unit) qf_act" where
  "qf_open_bounty E b recipient =
     aseq (alift (require_auth E (current_contract_address E)))
     (abind (aread (\<lambda>s. gv_bounty s b)) (\<lambda>x.
      aseq (arefuse (x \<noteq> None) BountyAlreadyExists)
      (aseq (qf_store_bounty b \<lparr>bf_recipient = recipient, bf_total_donated = 0, bf_sqrt_sum_scaled = 0, bf_completed = False, bf_match_paid = 0\<rparr>)
      (gov_publish (QfBountyOpened b recipient)))))"

definition qf_token :: "('w, address) qf_act" where
  "qf_token = abind (aread gv_treasury_token) (\<lambda>t. alift (ok_or t QfTreasuryNotConfigured))"

definition qf_checked :: "int \<Rightarrow> (qf_error, i128) result" where
  "qf_checked x = ok_or (i128_checked x) QfMathOverflow"

text \<open>The running sum after a donor's contribution grows from \<open>previous\<close> to \<open>cumulative\<close>.\<close>

definition next_sqrt_sum :: "i128 \<Rightarrow> i128 \<Rightarrow> i128 \<Rightarrow> (qf_error, i128) result" where
  "next_sqrt_sum running previous cumulative =
     obind (scaled_sqrt cumulative) (\<lambda>t_new.
     obind (scaled_sqrt previous) (\<lambda>t_old.
     obind (to_u128 running) (\<lambda>u.
     if t_new < t_old then Err QfMathOverflow
     else if \<not> u + (t_new - t_old) < 2 ^ 128 then Err QfMathOverflow
     else if \<not> u + (t_new - t_old) < 2 ^ 127 then Err QfMathOverflow
     else Ok (int (u + (t_new - t_old))))))"

definition qf_donate :: "'w gov_ext \<Rightarrow> env \<Rightarrow> address \<Rightarrow> u64 \<Rightarrow> i128 \<Rightarrow> ('w, unit) qf_act" where
  "qf_donate X E donor b amount =
     aseq (alift (require_auth E donor))
     (aseq (arefuse (amount \<le> 0) QfInvalidAmount)
     (abind qf_token (\<lambda>tok.
      abind (qf_load_bounty b) (\<lambda>bounty.
      aseq (arefuse (bf_completed bounty) BountyNotOpen)
      (abind (aread (\<lambda>s. unwrap_or (gv_donation s (b, donor)) 0)) (\<lambda>previous.
       abind (alift (qf_checked (previous + amount))) (\<lambda>cumulative.
       abind (alift (next_sqrt_sum (bf_sqrt_sum_scaled bounty) previous cumulative)) (\<lambda>sqrt_sum.
       abind (alift (qf_checked (bf_total_donated bounty + amount))) (\<lambda>donated.
       aseq (amodify (\<lambda>s. s\<lparr>gv_donation := (gv_donation s)((b, donor) \<mapsto> cumulative)\<rparr>))
       (aseq (qf_store_bounty b (bounty\<lparr>bf_total_donated := donated, bf_sqrt_sum_scaled := sqrt_sum\<rparr>))
       (aseq (gov_transfer X tok donor (current_contract_address E) amount)
       (gov_publish (QfDonationReceived b donor amount cumulative)))))))))))))"

definition qf_preview_match :: "'w governance \<Rightarrow> u64 \<Rightarrow> (qf_error, i128) result" where
  "qf_preview_match s b = obind (ok_or (gv_bounty s b) BountyNotFound) (\<lambda>bounty.
     obind (to_u128 (bf_sqrt_sum_scaled bounty)) (\<lambda>t. match_from_scaled t (bf_total_donated bounty)))"

definition qf_complete_bounty :: "'w gov_ext \<Rightarrow> env \<Rightarrow> u64 \<Rightarrow> ('w, i128) qf_act" where
  "qf_complete_bounty X E b =
     aseq (alift (require_auth E (current_contract_address E)))
     (abind (qf_load_bounty b) (\<lambda>bounty.
      aseq (arefuse (bf_completed bounty) BountyAlreadyCompleted)
      (abind qf_token (\<lambda>tok.
       abind (alift (to_u128 (bf_sqrt_sum_scaled bounty))) (\<lambda>sqrt_sum_scaled.
       abind (alift (match_from_scaled sqrt_sum_scaled (bf_total_donated bounty))) (\<lambda>match_amount.
       abind (alift (to_u128 match_amount)) (\<lambda>match_u128.
       abind (aread (gov_balance X E tok)) (\<lambda>held. abind (alift (to_u128 held)) (\<lambda>balance.
       abind (alift (to_u128 (bf_total_donated bounty))) (\<lambda>donated.
       aseq (arefuse (balance < donated \<or> match_u128 > balance - donated) InsufficientTreasury)
       (abind (alift (qf_checked (bf_total_donated bounty + match_amount))) (\<lambda>payout.
        aseq (qf_store_bounty b (bounty\<lparr>bf_completed := True, bf_match_paid := match_amount\<rparr>))
        (aseq (gov_pay X tok (current_contract_address E) (bf_recipient bounty) payout)
        (aseq (gov_publish (QfBountyCompleted b (bf_recipient bounty) (bf_total_donated bounty) match_amount payout))
        (aret match_amount)))))))))))))))"

definition qf_get_donation :: "'w governance \<Rightarrow> u64 \<Rightarrow> address \<Rightarrow> i128" where
  "qf_get_donation s b donor = unwrap_or (gv_donation s (b, donor)) 0"

end
