(* ===== verification/Governance_Machine.thy ===== *)
theory Governance_Machine
  imports Governance_Funding
begin

text \<open>
  The governance contract as a machine over its ledger and its storage: every entry point is a call, the ledger never goes
  back, and the world outside may change between calls. What a committed call has established is stated call by call; the
  invariants of members, proposals and ballots follow along the steps.
\<close>

section \<open>When a step succeeds\<close>

lemma gov_steps_Ok_iff [ok_iff]:
  "gov_publish ev s = (r, s') \<longleftrightarrow> r = Ok () \<and> s' = s\<lparr>gv_events := gv_events s @ [ev]\<rparr>"
  "gov_transfer X tok a b y s = (Ok u, s') \<longleftrightarrow> (\<exists>w. tok_transfer (gx_token X) (gv_world s) tok a b y = Some w \<and> s' = s\<lparr>gv_world := w\<rparr>)"
  "invoke_target X E t f args s = (Ok u, s') \<longleftrightarrow> t \<noteq> current_contract_address E \<and>
     (\<exists>v w. gx_invoke X (gv_world s) t f args = Some (v, w) \<and> s' = s\<lparr>gv_world := w\<rparr>)"
  "register_deposit m d s = (q, s') \<longleftrightarrow> q = Ok () \<and> s' = s\<lparr>gv_deposit := (gv_deposit s)(m \<mapsto> d)\<rparr>"
  "member_deposit m s = (Ok u, s') \<longleftrightarrow> gv_deposit s m \<noteq> None \<and> s' = s"
  "load_proposal i s = (Ok p, s') \<longleftrightarrow> gv_proposal s i = Some p \<and> s' = s"
  "store_proposal i p s = (q, s') \<longleftrightarrow> q = Ok () \<and> s' = s\<lparr>gv_proposal := (gv_proposal s)(i \<mapsto> p)\<rparr>"
  "load_optimistic i s = (Ok o', s') \<longleftrightarrow> gv_optimistic s i = Some o' \<and> s' = s"
  "store_optimistic i o' s = (q, s') \<longleftrightarrow> q = Ok () \<and> s' = s\<lparr>gv_optimistic := (gv_optimistic s)(i \<mapsto> o')\<rparr>"
  by (auto simp: gov_publish_def gov_transfer_def invoke_target_def register_deposit_def member_deposit_def load_proposal_def
      store_proposal_def load_optimistic_def store_optimistic_def ok_iff split: if_splits)

lemma bounty_steps_Ok_iff [ok_iff]:
  "qf_load_bounty b s = (Ok x, s') \<longleftrightarrow> gv_bounty s b = Some x \<and> s' = s"
  "qf_store_bounty b x s = (r, s') \<longleftrightarrow> r = Ok () \<and> s' = s\<lparr>gv_bounty := (gv_bounty s)(b \<mapsto> x)\<rparr>"
  "qf_token s = (Ok t, s') \<longleftrightarrow> gv_treasury_token s = Some t \<and> s' = s"
  "qf_checked z = Ok y \<longleftrightarrow> y = z \<and> in_i128 z"
  "to_u128 z = Ok n \<longleftrightarrow> 0 \<le> z \<and> n = nat z"
  by (auto simp: qf_load_bounty_def qf_store_bounty_def qf_token_def qf_checked_def to_u128_def ok_iff)

definition paid :: "'w gov_ext \<Rightarrow> address \<Rightarrow> address \<Rightarrow> address \<Rightarrow> i128 \<Rightarrow> 'w \<Rightarrow> 'w \<Rightarrow> bool" where
  "paid X tok a b x w w' \<longleftrightarrow> (if x > 0 then tok_transfer (gx_token X) w tok a b x = Some w' else w' = w)"

definition event_if :: "bool \<Rightarrow> gov_event \<Rightarrow> gov_event list" where
  "event_if c ev = (if c then [ev] else [])"

lemma gov_pay_Ok_iff [ok_iff]:
  "gov_pay X tok a b x s = (Ok u, s') \<longleftrightarrow> (\<exists>w. paid X tok a b x (gv_world s) w \<and> s' = s\<lparr>gv_world := w\<rparr>)"
  "gov_publish_if c ev s = (r, s') \<longleftrightarrow> r = Ok () \<and> s' = s\<lparr>gv_events := gv_events s @ event_if c ev\<rparr>"
  by (auto simp: gov_pay_def paid_def gov_publish_if_def event_if_def ok_iff simp del: act_simps split: if_splits)

lemma gov_settings_Ok_iff [ok_iff]:
  "gov_settings s = Ok (a, b, c) \<longleftrightarrow> gv_total_weight s = Some a \<and> gv_threshold_bps s = Some b \<and> gv_voting_period s = Some c"
  by (auto simp: gov_settings_def ok_iff)

definition matured :: "'w gov_ext \<Rightarrow> env \<Rightarrow> u64 \<Rightarrow> proposal \<Rightarrow> 'w governance \<Rightarrow> bool" where
  "matured X E i p s \<longleftrightarrow> (timelock_enabled s \<longrightarrow>
     (\<exists>q. gv_queued s i = Some q \<and> qp_call_hash q = proposal_call_hash X p \<and> qp_execution_ledger q \<le> sequence E))"

definition dequeued :: "u64 \<Rightarrow> 'w governance \<Rightarrow> u64 \<rightharpoonup> queued_proposal" where
  "dequeued i s = (if timelock_enabled s then (gv_queued s)(i := None) else gv_queued s)"

lemma require_matured_Ok_iff [ok_iff]:
  "require_matured X E i p s = (Ok u, s') \<longleftrightarrow> matured X E i p s \<and> s' = s\<lparr>gv_queued := dequeued i s\<rparr>"
  unfolding matured_def dequeued_def require_matured_def by (auto simp: ok_iff not_less simp del: act_simps split: if_splits)

section \<open>What a committed call has done\<close>

lemma propose_Ok:
  assumes "propose E a t f args s = (Ok i, s')"
  obtains vp c where "authorized E a" "gv_deposit s a \<noteq> None" "\<not> simulation_required s" "i = unwrap_or (gv_proposal_count s) 0 + 1" "in_u64 i"
    "gv_voting_period s = Some vp" "in_u32 (sequence E + vp)"
    "s' = s\<lparr>gv_proposal_count := Some i, gv_proposal := (gv_proposal s)(i \<mapsto> fresh_proposal a t f args (sequence E + vp)),
       gv_events := gv_events s @ [ProposalCreated i a t f (sequence E + vp)]\<rparr>"
  using assms unfolding propose_def by (auto simp: ok_iff simp del: act_simps)

lemma simulated_Ok:
  assumes "propose_with_simulation X E a t f args rep s = (Ok i, s')"
  obtains vp cfg where "authorized E a" "gv_deposit s a \<noteq> None" "i = unwrap_or (gv_proposal_count s) 0 + 1" "in_u64 i"
    "gv_simulation s = Some cfg" "sc_simulator cfg = Some (sr_simulator rep)" "sr_outcome rep = SIM_OK"
    "sr_sim_hash rep = sim_hash X (current_contract_address E) i t f args"
    "gv_voting_period s = Some vp" "in_u32 (sequence E + vp)"
    "s' = s\<lparr>gv_proposal_count := Some i, gv_proposal := (gv_proposal s)(i \<mapsto> fresh_proposal a t f args (sequence E + vp)),
       gv_sim_attestation := (gv_sim_attestation s)(i \<mapsto> rep), gv_events := gv_events s @ [ProposalCreated i a t f (sequence E + vp)]\<rparr>"
  using assms unfolding propose_with_simulation_def simulated_proposal_def
  by (auto simp: ok_iff simp del: act_simps split: option.splits)

lemma vote_Ok:
  assumes "vote E v i b s = (Ok u, s')"
  obtains p where "authorized E v" "0 < quadratic_weight E s v" "gv_proposal s i = Some p" "\<not> pr_executed p" "sequence E \<le> pr_deadline_ledger p"
    "\<not> gv_voted s (i, v)" "gv_anonymous s i \<longrightarrow> gv_voting_key s v = None"
    "s' = s\<lparr>gv_voted := (gv_voted s)((i, v) := True), gv_dissent := (if b then gv_dissent s else (gv_dissent s)((i, v) := True)),
       gv_proposal := (gv_proposal s)(i \<mapsto> add_ballot b (quadratic_weight E s v) p),
       gv_events := gv_events s @ [VoteCast i v b (quadratic_weight E s v)]\<rparr>"
  using assms unfolding vote_def by (auto simp: ok_iff not_less simp del: act_simps split: if_splits)

lemma vote_anonymous_Ok:
  assumes "vote_anonymous X E i b ring sig s = (Ok u, s')"
  obtains p w where "gv_proposal s i = Some p" "\<not> pr_executed p" "sequence E \<le> pr_deadline_ledger p" "ring_weight E s i [] ring None = Ok (Some w)"
    "2 \<le> length ring" "ring_verify X E i ring (vote_message X E i b ring) sig" "\<not> gv_key_image s (i, rs_key_image sig)"
    "s' = s\<lparr>gv_anonymous := (gv_anonymous s)(i := True), gv_key_image := (gv_key_image s)((i, rs_key_image sig) := True),
       gv_proposal := (gv_proposal s)(i \<mapsto> add_ballot b w p), gv_events := gv_events s @ [AnonymousVoteCast i b w]\<rparr>"
  using assms unfolding vote_anonymous_def by (auto simp: ok_iff not_less simp del: act_simps)

lemma execute_Ok:
  assumes "execute X E i s = (Ok u, s')"
  obtains p W th vp v w where "gv_proposal s i = Some p" "\<not> pr_executed p" "gv_total_weight s = Some W" "gv_threshold_bps s = Some th"
    "gv_voting_period s = Some vp" "quorum_met E W th vp p" "pr_no_weight p < pr_yes_weight p"
    "matured X E i p s"
    "pr_target p \<noteq> current_contract_address E" "gx_invoke X (gv_world s) (pr_target p) (pr_function p) (pr_args p) = Some (v, w)"
    "s' = s\<lparr>gv_queued := dequeued i s,
       gv_proposal := (gv_proposal s)(i \<mapsto> p\<lparr>pr_executed := True\<rparr>), gv_world := w,
       gv_events := gv_events s @ [ProposalExecutedEvent i (pr_target p) (pr_function p)]\<rparr>"
  using assms unfolding execute_def by (auto simp: ok_iff not_le simp del: act_simps)

lemma prune_proposal_Ok:
  assumes "prune_proposal E i s = (Ok u, s')"
  obtains p where "gv_proposal s i = Some p"
    "pr_executed p \<or> pr_deadline_ledger p < sequence E \<and>
       (ragequit_is_approved E s p \<longrightarrow> u32_saturating_add (pr_deadline_ledger p) RAGEQUIT_WINDOW < sequence E)"
    "s' = s\<lparr>gv_proposal := (gv_proposal s)(i := None)\<rparr>"
  using assms unfolding prune_proposal_def by (auto simp: ok_iff simp del: act_simps)

lemma register_voting_key_Ok:
  assumes "register_voting_key X E m k s = (Ok u, s')"
  shows "authorized E m" "gv_deposit s m \<noteq> None" "gv_voting_key s m = None" "gv_key_member s k = None" "valid_public_key X k"
    "s' = s\<lparr>gv_voting_key := (gv_voting_key s)(m \<mapsto> k), gv_key_member := (gv_key_member s)(k \<mapsto> m)\<rparr>"
  using assms unfolding register_voting_key_def by (auto simp: ok_iff simp del: act_simps)

lemma ragequit_payout_Ok:
  assumes "ragequit_payout balance d t = Ok y" "0 < d"
  shows "0 \<le> balance" "y = balance * int d div int (if t = 0 then d else t)" "0 \<le> y"
  using assms by (auto simp: ragequit_payout_def Let_def pos_imp_zdiv_nonneg_iff split: if_splits)

lemma ragequit_Ok:
  assumes "ragequit X E v i s = (Ok u, s')"
  obtains p d tok y w where "authorized E v" "gv_proposal s i = Some p" "\<not> pr_executed p" "gv_dissent s (i, v)" "ragequit_is_approved E s p"
    "sequence E \<le> u32_saturating_add (pr_deadline_ledger p) RAGEQUIT_WINDOW" "\<not> gv_ragequit s (i, v)" "gv_deposit s v = Some d" "0 < d"
    "gv_treasury_token s = Some tok" "ragequit_payout (gov_balance X E tok s) d (unwrap_or (gv_total_deposits s) 0) = Ok y"
    "paid X tok (current_contract_address E) v y (gv_world s) w"
    "s' = s\<lparr>gv_deposit := (gv_deposit s)(v := None), gv_quarantined := (gv_quarantined s)(v \<mapsto> d), gv_ragequit := (gv_ragequit s)((i, v) := True),
       gv_total_deposits := Some (saturating_sub (unwrap_or (gv_total_deposits s) 0) d),
       gv_total_weight := Some (saturating_sub (unwrap_or (gv_total_weight s) 0) (quadratic_weight E s v)),
       gv_events := gv_events s @ [RagequitEvent i v d y], gv_world := w\<rparr>"
proof -
  have sel: "gv_events (s\<lparr>gv_deposit := a, gv_quarantined := b, gv_ragequit := c, gv_total_deposits := d, gv_total_weight := e\<rparr>) = gv_events s"
    "gv_world (s\<lparr>gv_deposit := a, gv_quarantined := b, gv_ragequit := c, gv_total_deposits := d, gv_total_weight := e, gv_events := f\<rparr>) = gv_world s"
    for a b c d e f by simp_all
  from assms show thesis unfolding ragequit_def ragequit_process_def
    by (simp only: ok_iff case_prod_conv split_paired_Ex prod.inject not_less result.inject not_not neq0_conv simp_thms ex_simps sel) (metis that sel)
qed

lemma queue_proposal_Ok:
  assumes "queue_proposal X E a i s = (Ok n, s')"
  obtains p W th vp where "authorized E a" "gv_deposit s a \<noteq> None" "gv_proposal s i = Some p" "\<not> pr_executed p" "gv_queued s i = None"
    "gv_total_weight s = Some W" "gv_threshold_bps s = Some th" "gv_voting_period s = Some vp" "quorum_met E W th vp p" "pr_no_weight p < pr_yes_weight p"
    "n = u32_saturating_add (sequence E) TIMELOCK_DELAY_LEDGERS"
    "s' = s\<lparr>gv_queued := (gv_queued s)(i \<mapsto> \<lparr>qp_call_hash = proposal_call_hash X p, qp_execution_ledger = n\<rparr>),
       gv_events := gv_events s @ [TransactionQueued i (proposal_call_hash X p) n]\<rparr>"
  using assms unfolding queue_proposal_def timelock_is_approved_def by (auto simp: ok_iff Let_def simp del: act_simps)

lemma execute_queued_vote_Ok: "execute_queued X E i s = (Ok u, s') \<Longrightarrow> execute X E i s = (Ok u, s') \<and> gv_queued s i \<noteq> None"
  unfolding execute_queued_def by (auto simp: ok_iff simp del: act_simps)

lemma gov_configuration_Ok:
  "set_treasury_token E t s = (Ok u, s') \<Longrightarrow> authorized E (current_contract_address E) \<and> s' = s\<lparr>gv_treasury_token := Some t\<rparr>"
  "enable_timelock E s = (Ok u, s') \<Longrightarrow> authorized E (current_contract_address E) \<and>
     s' = s\<lparr>gv_timelock := Some True, gv_events := gv_events s @ [TimelockEnabled]\<rparr>"
  "set_simulation_config E a sim req s = (Ok u, s') \<Longrightarrow> authorized E a \<and> gv_deposit s a \<noteq> None \<and>
     s' = s\<lparr>gv_simulation := Some \<lparr>sc_simulator = sim, sc_required = req\<rparr>\<rparr>"
  "set_ve_token E t s = (Ok u, s') \<Longrightarrow> authorized E (current_contract_address E) \<and> gv_ve_token s = None \<and> s' = s\<lparr>gv_ve_token := Some t\<rparr>"
  unfolding set_treasury_token_def enable_timelock_def set_simulation_config_def set_config_def set_ve_token_def
  by (auto simp: ok_iff simp del: act_simps)

lemma create_lock_Ok:
  assumes "create_lock X E a x n s = (Ok u, s')"
  obtains tok w where "authorized E a" "0 < x" "gv_ve_token s = Some tok" "gv_lock s a = None" "MIN_LOCK_LEDGERS \<le> saturating_sub n (sequence E)" "saturating_sub n (sequence E) \<le> MAX_LOCK_LEDGERS"
    "tok_transfer (gx_token X) (gv_world s) tok a (current_contract_address E) x = Some w"
    "s' = s\<lparr>gv_lock := (gv_lock s)(a \<mapsto> \<lparr>vl_amount = x, vl_start_ledger = sequence E, vl_unlock_ledger = n\<rparr>), gv_world := w,
       gv_events := gv_events s @ [VeLocked a x n]\<rparr>"
proof -
  have sel: "gv_world (s\<lparr>gv_lock := l\<rparr>) = gv_world s" "gv_events (s\<lparr>gv_lock := l, gv_world := w\<rparr>) = gv_events s" for l w by simp_all
  from assms show thesis unfolding create_lock_def Let_def
    by (simp only: ok_iff not_less not_le result.inject not_not simp_thms ex_simps sel) (metis that sel)
qed

lemma withdraw_lock_Ok:
  assumes "withdraw_lock X E a s = (Ok u, s')"
  obtains l tok w where "authorized E a" "gv_lock s a = Some l" "vl_unlock_ledger l \<le> sequence E" "gv_ve_token s = Some tok"
    "tok_transfer (gx_token X) (gv_world s) tok (current_contract_address E) a (vl_amount l) = Some w"
    "s' = s\<lparr>gv_lock := (gv_lock s)(a := None), gv_world := w, gv_events := gv_events s @ [VeWithdrawn a (vl_amount l)]\<rparr>"
  using assms unfolding withdraw_lock_def by (auto simp: ok_iff not_less simp del: act_simps)

lemma optimistic_submit_Ok:
  assumes "optimistic_submit E a t f args s = (Ok i, s')"
  shows "authorized E a" "0 < quadratic_weight E s a" "i = unwrap_or (gv_optimistic_count s) 0 + 1"
    "s' = s\<lparr>gv_optimistic_count := Some i, gv_optimistic := (gv_optimistic s)(i \<mapsto> \<lparr>op_proposer = a, op_target = t, op_function = f, op_args = args,
       op_challenge_deadline_ledger = sequence E + OPTIMISTIC_CHALLENGE_WINDOW, op_veto_weight = 0, op_executed = False, op_vetoed = False\<rparr>),
       gv_events := gv_events s @ [OptimisticQueuedEvent i a t f (sequence E + OPTIMISTIC_CHALLENGE_WINDOW)]\<rparr>"
  using assms unfolding optimistic_submit_def by (auto simp: ok_iff simp del: act_simps)

definition vetoed_by :: "'w governance \<Rightarrow> u64 \<Rightarrow> bool" where
  "vetoed_by s n \<longleftrightarrow> unwrap_or (gv_total_weight s) 0 * VETO_THRESHOLD_BPS \<le> n * MAX_THRESHOLD_BPS"

lemma veto_optimistic_Ok:
  assumes "veto_optimistic E a i s = (Ok u, s')"
  obtains p n where "authorized E a" "0 < quadratic_weight E s a" "gv_optimistic s i = Some p" "\<not> op_executed p" "\<not> op_vetoed p"
    "sequence E \<le> op_challenge_deadline_ledger p" "\<not> gv_optimistic_veto s (i, a)" "n = u64_saturating_add (op_veto_weight p) (quadratic_weight E s a)"
    "s' = s\<lparr>gv_optimistic_veto := (gv_optimistic_veto s)((i, a) := True),
       gv_optimistic := (gv_optimistic s)(i \<mapsto> p\<lparr>op_veto_weight := n, op_vetoed := vetoed_by s n\<rparr>),
       gv_events := gv_events s @ OptimisticVetoCastEvent i a (quadratic_weight E s a) n # event_if (vetoed_by s n) (OptimisticVetoedEvent i)\<rparr>"
  using assms unfolding veto_optimistic_def vetoed_by_def by (auto simp: ok_iff Let_def not_less simp del: act_simps)

lemma execute_optimistic_Ok:
  assumes "execute_optimistic X E i s = (Ok u, s')"
  obtains p v w where "gv_optimistic s i = Some p" "\<not> op_executed p" "\<not> op_vetoed p" "op_target p \<noteq> current_contract_address E"
    "gx_invoke X (gv_world s) (op_target p) (op_function p) (op_args p) = Some (v, w)"
    "s' = s\<lparr>gv_optimistic := (gv_optimistic s)(i \<mapsto> p\<lparr>op_executed := True\<rparr>), gv_world := w,
       gv_events := gv_events s @ [OptimisticExecutedEvent i (op_target p) (op_function p)]\<rparr>"
  using assms unfolding execute_optimistic_def by (auto simp: ok_iff simp del: act_simps)

lemma qf_open_bounty_Ok:
  assumes "qf_open_bounty E b r s = (Ok u, s')"
  shows "authorized E (current_contract_address E)" "gv_bounty s b = None"
    "s' = s\<lparr>gv_bounty := (gv_bounty s)(b \<mapsto> \<lparr>bf_recipient = r, bf_total_donated = 0, bf_sqrt_sum_scaled = 0, bf_completed = False, bf_match_paid = 0\<rparr>),
       gv_events := gv_events s @ [QfBountyOpened b r]\<rparr>"
  using assms unfolding qf_open_bounty_def by (auto simp: ok_iff simp del: act_simps)

lemma qf_donate_Ok:
  assumes "qf_donate X E d b x s = (Ok u, s')"
  obtains tok y t w where "authorized E d" "0 < x" "gv_treasury_token s = Some tok" "gv_bounty s b = Some y" "\<not> bf_completed y"
    "in_i128 (unwrap_or (gv_donation s (b, d)) 0 + x)" "in_i128 (bf_total_donated y + x)"
    "next_sqrt_sum (bf_sqrt_sum_scaled y) (unwrap_or (gv_donation s (b, d)) 0) (unwrap_or (gv_donation s (b, d)) 0 + x) = Ok t"
    "tok_transfer (gx_token X) (gv_world s) tok d (current_contract_address E) x = Some w"
    "s' = s\<lparr>gv_donation := (gv_donation s)((b, d) \<mapsto> unwrap_or (gv_donation s (b, d)) 0 + x),
       gv_bounty := (gv_bounty s)(b \<mapsto> y\<lparr>bf_total_donated := bf_total_donated y + x, bf_sqrt_sum_scaled := t\<rparr>), gv_world := w,
       gv_events := gv_events s @ [QfDonationReceived b d x (unwrap_or (gv_donation s (b, d)) 0 + x)]\<rparr>"
proof -
  have sel: "gv_bounty (s\<lparr>gv_donation := l\<rparr>) = gv_bounty s" "gv_world (s\<lparr>gv_donation := l, gv_bounty := m\<rparr>) = gv_world s"
    "gv_events (s\<lparr>gv_donation := l, gv_bounty := m, gv_world := w\<rparr>) = gv_events s" for l m w by simp_all
  from assms show thesis unfolding qf_donate_def
    by (simp only: ok_iff not_less not_le result.inject not_not simp_thms ex_simps sel) (metis that sel)
qed

lemma qf_complete_bounty_Ok:
  assumes "qf_complete_bounty X E b s = (Ok m, s')"
  obtains tok y w where "authorized E (current_contract_address E)" "gv_bounty s b = Some y" "\<not> bf_completed y" "gv_treasury_token s = Some tok"
    "0 \<le> bf_sqrt_sum_scaled y" "match_from_scaled (nat (bf_sqrt_sum_scaled y)) (bf_total_donated y) = Ok m" "0 \<le> m" "0 \<le> bf_total_donated y"
    "0 \<le> gov_balance X E tok s" "\<not> (nat (gov_balance X E tok s) < nat (bf_total_donated y) \<or> nat (gov_balance X E tok s) - nat (bf_total_donated y) < nat m)"
    "in_i128 (bf_total_donated y + m)"
    "paid X tok (current_contract_address E) (bf_recipient y) (bf_total_donated y + m) (gv_world s) w"
    "s' = s\<lparr>gv_bounty := (gv_bounty s)(b \<mapsto> y\<lparr>bf_completed := True, bf_match_paid := m\<rparr>), gv_world := w,
       gv_events := gv_events s @ [QfBountyCompleted b (bf_recipient y) (bf_total_donated y) m (bf_total_donated y + m)]\<rparr>"
proof -
  have sel: "gv_world (s\<lparr>gv_bounty := l\<rparr>) = gv_world s" "gv_events (s\<lparr>gv_bounty := l, gv_world := w\<rparr>) = gv_events s" for l w by simp_all
  from assms show thesis unfolding qf_complete_bounty_def
    by (simp only: ok_iff result.inject not_not simp_thms ex_simps sel) (metis that sel)
qed

section \<open>Calls and steps\<close>

datatype (plugins only: code size) gov_call =
    Propose address address string "host_value list"
  | ProposeWithSimulation address address string "host_value list" simulation_report
  | SetSimulationConfig address "address option" bool
  | Vote address u64 bool
  | RegisterVotingKey address bytes
  | VoteAnonymous u64 bool "bytes list" ring_signature
  | Execute u64
  | PruneProposal u64
  | SetTreasuryToken address
  | Ragequit address u64
  | EnableTimelock
  | QueueProposal address u64
  | ExecuteQueued u64
  | SetVeToken address
  | CreateLock address i128 u32
  | WithdrawLock address
  | OptimisticSubmit address address string "host_value list"
  | VetoOptimistic address u64
  | ExecuteOptimistic u64
  | QfOpenBounty u64 address
  | QfDonate address u64 i128
  | QfCompleteBounty u64

text \<open>What the host keeps of an invocation.\<close>

definition committed :: "('e, 's, 'a) action \<Rightarrow> 's \<Rightarrow> 's option" where
  "committed m s = (case m s of (Ok x, s') \<Rightarrow> Some s' | (Err e, s') \<Rightarrow> None | (Trap, s') \<Rightarrow> None)"

lemma committed_Some_iff [ok_iff]: "committed m s = Some s' \<longleftrightarrow> (\<exists>x. m s = (Ok x, s'))"
  by (auto simp: committed_def split: prod.splits result.splits)

primrec gov_run :: "'w gov_ext \<Rightarrow> env \<Rightarrow> gov_call \<Rightarrow> 'w governance \<Rightarrow> 'w governance option" where
  "gov_run X E (Propose a t f args) = committed (propose E a t f args)"
| "gov_run X E (ProposeWithSimulation a t f args rep) = committed (propose_with_simulation X E a t f args rep)"
| "gov_run X E (SetSimulationConfig a sim req) = committed (set_simulation_config E a sim req)"
| "gov_run X E (Vote v i b) = committed (vote E v i b)"
| "gov_run X E (RegisterVotingKey m k) = committed (register_voting_key X E m k)"
| "gov_run X E (VoteAnonymous i b ring sig) = committed (vote_anonymous X E i b ring sig)"
| "gov_run X E (Execute i) = committed (execute X E i)"
| "gov_run X E (PruneProposal i) = committed (prune_proposal E i)"
| "gov_run X E (SetTreasuryToken t) = committed (set_treasury_token E t)"
| "gov_run X E (Ragequit v i) = committed (ragequit X E v i)"
| "gov_run X E EnableTimelock = committed (enable_timelock E)"
| "gov_run X E (QueueProposal a i) = committed (queue_proposal X E a i)"
| "gov_run X E (ExecuteQueued i) = committed (execute_queued X E i)"
| "gov_run X E (SetVeToken t) = committed (set_ve_token E t)"
| "gov_run X E (CreateLock a x n) = committed (create_lock X E a x n)"
| "gov_run X E (WithdrawLock a) = committed (withdraw_lock X E a)"
| "gov_run X E (OptimisticSubmit a t f args) = committed (optimistic_submit E a t f args)"
| "gov_run X E (VetoOptimistic a i) = committed (veto_optimistic E a i)"
| "gov_run X E (ExecuteOptimistic i) = committed (execute_optimistic X E i)"
| "gov_run X E (QfOpenBounty b r) = committed (qf_open_bounty E b r)"
| "gov_run X E (QfDonate d b x) = committed (qf_donate X E d b x)"
| "gov_run X E (QfCompleteBounty b) = committed (qf_complete_bounty X E b)"

inductive gov_step :: "'w gov_ext \<Rightarrow> address \<Rightarrow> u32 \<times> 'w governance \<Rightarrow> u32 \<times> 'w governance \<Rightarrow> bool" for X self where
  call: "n \<le> sequence E \<Longrightarrow> current_contract_address E = self \<Longrightarrow> gov_run X E c s = Some s' \<Longrightarrow> gov_step X self (n, s) (sequence E, s')"
| elsewhere: "gov_step X self (n, s) (n, s\<lparr>gv_world := w\<rparr>)"

inductive gov_start :: "address \<Rightarrow> u32 \<times> 'w governance \<Rightarrow> bool" for self where
  construct: "gov_constructor E members deposits threshold period (governance_empty w) = (Ok (), s) \<Longrightarrow> current_contract_address E = self \<Longrightarrow>
    gov_start self (sequence E, s)"

inductive_cases gov_stepE: "gov_step X self (n, s) (n', s')"

end
