(* ===== verification/Governance_Ballots.thy ===== *)
theory Governance_Ballots
  imports Governance_Machine
begin

text \<open>
  The effect of a committed call on proposals and ballots, the books that follow from it (each tally is what the published
  ballots add up to, nobody is counted twice, nothing runs twice), and the books of the members and of the queue.
\<close>

section \<open>The published history\<close>

fun ballot_weight :: "u64 \<Rightarrow> bool \<Rightarrow> gov_event \<Rightarrow> nat" where
  "ballot_weight i b (VoteCast j v b' w) = (if j = i \<and> b' = b then w else 0)"
| "ballot_weight i b (AnonymousVoteCast j b' w) = (if j = i \<and> b' = b then w else 0)"
| "ballot_weight i b ev = 0"

fun voter_of :: "u64 \<Rightarrow> gov_event \<Rightarrow> address list" where
  "voter_of i (VoteCast j v b w) = (if j = i then [v] else [])"
| "voter_of i ev = []"

fun is_anonymous :: "u64 \<Rightarrow> gov_event \<Rightarrow> nat" where
  "is_anonymous i (AnonymousVoteCast j b w) = (if j = i then 1 else 0)"
| "is_anonymous i ev = 0"

fun is_execution :: "u64 \<Rightarrow> gov_event \<Rightarrow> nat" where
  "is_execution i (ProposalExecutedEvent j t f) = (if j = i then 1 else 0)"
| "is_execution i ev = 0"

definition ballots_cast :: "u64 \<Rightarrow> bool \<Rightarrow> gov_event list \<Rightarrow> nat" where
  "ballots_cast i b evs = sum_list (map (ballot_weight i b) evs)"

definition voters :: "u64 \<Rightarrow> gov_event list \<Rightarrow> address list" where
  "voters i evs = concat (map (voter_of i) evs)"

definition anonymous_ballots :: "u64 \<Rightarrow> gov_event list \<Rightarrow> nat" where
  "anonymous_ballots i evs = sum_list (map (is_anonymous i) evs)"

definition executions :: "u64 \<Rightarrow> gov_event list \<Rightarrow> nat" where
  "executions i evs = sum_list (map (is_execution i) evs)"

lemmas history_defs = ballots_cast_def voters_def anonymous_ballots_def executions_def

text \<open>Events that are neither a ballot nor an execution.\<close>

fun quiet :: "gov_event \<Rightarrow> bool" where
  "quiet (VoteCast j v b w) \<longleftrightarrow> False"
| "quiet (AnonymousVoteCast j b w) \<longleftrightarrow> False"
| "quiet (ProposalExecutedEvent j t f) \<longleftrightarrow> False"
| "quiet ev \<longleftrightarrow> True"

lemma quiet_history:
  "list_all quiet evs \<Longrightarrow> ballots_cast i b (old @ evs) = ballots_cast i b old"
  "list_all quiet evs \<Longrightarrow> voters i (old @ evs) = voters i old"
  "list_all quiet evs \<Longrightarrow> anonymous_ballots i (old @ evs) = anonymous_ballots i old"
  "list_all quiet evs \<Longrightarrow> executions i (old @ evs) = executions i old"
proof -
  have "quiet ev \<Longrightarrow> ballot_weight i b ev = 0 \<and> voter_of i ev = [] \<and> is_anonymous i ev = 0 \<and> is_execution i ev = 0" for ev by (cases ev) auto
  then have "list_all quiet evs \<Longrightarrow> sum_list (map (ballot_weight i b) evs) = 0 \<and> concat (map (voter_of i) evs) = [] \<and>
      sum_list (map (is_anonymous i) evs) = 0 \<and> sum_list (map (is_execution i) evs) = 0" by (induction evs) auto
  then show "list_all quiet evs \<Longrightarrow> ballots_cast i b (old @ evs) = ballots_cast i b old"
    "list_all quiet evs \<Longrightarrow> voters i (old @ evs) = voters i old"
    "list_all quiet evs \<Longrightarrow> anonymous_ballots i (old @ evs) = anonymous_ballots i old"
    "list_all quiet evs \<Longrightarrow> executions i (old @ evs) = executions i old" by (simp_all add: history_defs)
qed

section \<open>The effect of a call\<close>

inductive ballot_effect :: "env \<Rightarrow> 'w governance \<Rightarrow> 'w governance \<Rightarrow> bool" for E s s' where
  silent: "gv_proposal s' = gv_proposal s \<Longrightarrow> gv_proposal_count s' = gv_proposal_count s \<Longrightarrow> gv_voted s' = gv_voted s \<Longrightarrow> gv_key_image s' = gv_key_image s \<Longrightarrow>
    gv_events s' = gv_events s @ evs \<Longrightarrow> list_all quiet evs \<Longrightarrow> ballot_effect E s s'"
| proposed: "i = unwrap_or (gv_proposal_count s) 0 + 1 \<Longrightarrow> gv_proposal s' = (gv_proposal s)(i \<mapsto> fresh_proposal a t f args n) \<Longrightarrow>
    gv_proposal_count s' = Some i \<Longrightarrow> gv_voted s' = gv_voted s \<Longrightarrow> gv_key_image s' = gv_key_image s \<Longrightarrow>
    gv_events s' = gv_events s @ evs \<Longrightarrow> list_all quiet evs \<Longrightarrow> ballot_effect E s s'"
| voted: "gv_proposal s i = Some p \<Longrightarrow> \<not> pr_executed p \<Longrightarrow> \<not> gv_voted s (i, v) \<Longrightarrow> w = quadratic_weight E s v \<Longrightarrow> gv_voted s' = (gv_voted s)((i, v) := True) \<Longrightarrow>
    gv_proposal s' = (gv_proposal s)(i \<mapsto> add_ballot b w p) \<Longrightarrow> gv_proposal_count s' = gv_proposal_count s \<Longrightarrow> gv_key_image s' = gv_key_image s \<Longrightarrow>
    gv_events s' = gv_events s @ [VoteCast i v b w] \<Longrightarrow> ballot_effect E s s'"
| anonymous: "gv_proposal s i = Some p \<Longrightarrow> \<not> pr_executed p \<Longrightarrow> \<not> gv_key_image s (i, k) \<Longrightarrow> gv_key_image s' = (gv_key_image s)((i, k) := True) \<Longrightarrow>
    gv_proposal s' = (gv_proposal s)(i \<mapsto> add_ballot b w p) \<Longrightarrow> gv_proposal_count s' = gv_proposal_count s \<Longrightarrow> gv_voted s' = gv_voted s \<Longrightarrow>
    gv_events s' = gv_events s @ [AnonymousVoteCast i b w] \<Longrightarrow> ballot_effect E s s'"
| executed: "gv_proposal s i = Some p \<Longrightarrow> \<not> pr_executed p \<Longrightarrow> gv_proposal s' = (gv_proposal s)(i \<mapsto> p\<lparr>pr_executed := True\<rparr>) \<Longrightarrow>
    gv_proposal_count s' = gv_proposal_count s \<Longrightarrow> gv_voted s' = gv_voted s \<Longrightarrow> gv_key_image s' = gv_key_image s \<Longrightarrow>
    gv_events s' = gv_events s @ [ProposalExecutedEvent i (pr_target p) (pr_function p)] \<Longrightarrow> ballot_effect E s s'"
| pruned: "gv_proposal s' = (gv_proposal s)(i := None) \<Longrightarrow> gv_proposal_count s' = gv_proposal_count s \<Longrightarrow> gv_voted s' = gv_voted s \<Longrightarrow>
    gv_key_image s' = gv_key_image s \<Longrightarrow> gv_events s' = gv_events s \<Longrightarrow> ballot_effect E s s'"

lemma execute_effect: "execute X E i s = (Ok u, s') \<Longrightarrow> ballot_effect E s s'"
  by (erule execute_Ok) (rule ballot_effect.executed, simp+)

lemma gov_run_effect: "gov_run X E c s = Some s' \<Longrightarrow> ballot_effect E s s'"
proof (cases c)
  case (Propose a t f args)
  assume "gov_run X E c s = Some s'"
  then obtain i where "propose E a t f args s = (Ok i, s')" by (auto simp: Propose ok_iff)
  then show ?thesis by (rule propose_Ok) (rule ballot_effect.proposed, simp+)
next
  case (ProposeWithSimulation a t f args rep)
  assume "gov_run X E c s = Some s'"
  then obtain i where "propose_with_simulation X E a t f args rep s = (Ok i, s')" by (auto simp: ProposeWithSimulation ok_iff)
  then show ?thesis by (rule simulated_Ok) (rule ballot_effect.proposed, simp+)
next
  case (Vote v i b)
  assume "gov_run X E c s = Some s'"
  then have "vote E v i b s = (Ok (), s')" by (simp add: Vote ok_iff)
  then show ?thesis by (rule vote_Ok) (rule ballot_effect.voted, simp+)
next
  case (VoteAnonymous i b ring sig)
  assume "gov_run X E c s = Some s'"
  then have "vote_anonymous X E i b ring sig s = (Ok (), s')" by (simp add: VoteAnonymous ok_iff)
  then show ?thesis by (rule vote_anonymous_Ok) (rule ballot_effect.anonymous, simp+)
next
  case (PruneProposal i)
  assume "gov_run X E c s = Some s'"
  then have "prune_proposal E i s = (Ok (), s')" by (simp add: PruneProposal ok_iff)
  then show ?thesis by (rule prune_proposal_Ok) (rule ballot_effect.pruned, simp+)
next
  case (VetoOptimistic a i)
  assume "gov_run X E c s = Some s'"
  then have "veto_optimistic E a i s = (Ok (), s')" by (simp add: VetoOptimistic ok_iff)
  then show ?thesis by (rule veto_optimistic_Ok) (rule ballot_effect.silent, (simp add: event_if_def)+)
next
  case (QfCompleteBounty b)
  assume "gov_run X E c s = Some s'"
  then obtain m where "qf_complete_bounty X E b s = (Ok m, s')" by (auto simp: QfCompleteBounty ok_iff)
  then show ?thesis by (rule qf_complete_bounty_Ok) (rule ballot_effect.silent, simp+)
next
  case (QueueProposal a i)
  assume "gov_run X E c s = Some s'"
  then obtain n where "queue_proposal X E a i s = (Ok n, s')" by (auto simp: QueueProposal ok_iff)
  then show ?thesis by (rule queue_proposal_Ok) (rule ballot_effect.silent, simp+)
next
  case (OptimisticSubmit a t f args)
  assume "gov_run X E c s = Some s'"
  then obtain n where "optimistic_submit E a t f args s = (Ok n, s')" by (auto simp: OptimisticSubmit ok_iff)
  note optimistic_submit_Ok(4) [OF this]
  then show ?thesis by (intro ballot_effect.silent) simp+
next
  case (Execute i)
  assume "gov_run X E c s = Some s'"
  then show ?thesis by (auto simp: Execute ok_iff intro: execute_effect)
next
  case (ExecuteQueued i)
  assume "gov_run X E c s = Some s'"
  then show ?thesis by (auto simp: ExecuteQueued ok_iff dest!: execute_queued_vote_Ok intro: execute_effect)
qed (auto simp: ok_iff dest!: gov_configuration_Ok register_voting_key_Ok(6) qf_open_bounty_Ok(3)
       elim!: ragequit_Ok create_lock_Ok withdraw_lock_Ok execute_optimistic_Ok qf_donate_Ok intro!: ballot_effect.silent)

section \<open>The books of the ballots\<close>

definition tally_of :: "nat \<Rightarrow> u64" where
  "tally_of n = min n (2 ^ 64 - 1)"

definition proposal_books :: "gov_event list \<Rightarrow> u64 \<Rightarrow> u64 \<Rightarrow> proposal \<Rightarrow> bool" where
  "proposal_books evs c i p \<longleftrightarrow> 1 \<le> i \<and> i \<le> c \<and> pr_yes_weight p = tally_of (ballots_cast i True evs) \<and>
     pr_no_weight p = tally_of (ballots_cast i False evs) \<and> (\<not> pr_executed p \<longrightarrow> executions i evs = 0)"

definition ballot_inv :: "'w governance \<Rightarrow> bool" where
  "ballot_inv s \<longleftrightarrow> (\<exists>c. gv_proposal_count s = Some c \<and> (\<forall>i p. gv_proposal s i = Some p \<longrightarrow> proposal_books (gv_events s) c i p) \<and>
     (\<forall>i b. c < i \<longrightarrow> ballots_cast i b (gv_events s) = 0 \<and> executions i (gv_events s) = 0)) \<and>
     (\<forall>i. executions i (gv_events s) \<le> 1 \<and> distinct (voters i (gv_events s)) \<and> (\<forall>v \<in> set (voters i (gv_events s)). gv_voted s (i, v)) \<and>
        finite {k. gv_key_image s (i, k)} \<and> card {k. gv_key_image s (i, k)} = anonymous_ballots i (gv_events s))"

lemma tally_of_add: "u64_saturating_add (tally_of n) w = tally_of (n + w)"
  by (auto simp: tally_of_def u64_saturating_add_def)

lemma history_snoc [simp]:
  "ballots_cast i b (evs @ [ev]) = ballots_cast i b evs + ballot_weight i b ev"
  "voters i (evs @ [ev]) = voters i evs @ voter_of i ev"
  "anonymous_ballots i (evs @ [ev]) = anonymous_ballots i evs + is_anonymous i ev"
  "executions i (evs @ [ev]) = executions i evs + is_execution i ev"
  by (simp_all add: history_defs)

lemma add_ballot_books:
  assumes "proposal_books evs c i p" "ballot_weight i b ev = w" "ballot_weight i (\<not> b) ev = 0" "is_execution i ev = 0"
  shows "proposal_books (evs @ [ev]) c i (add_ballot b w p)"
  using assms by (cases b) (auto simp: proposal_books_def add_ballot_def tally_of_add)

lemma other_books:
  assumes "proposal_books evs c i p" "\<And>b. ballot_weight i b ev = 0" "is_execution i ev = 0"
  shows "proposal_books (evs @ [ev]) c i p"
  using assms by (auto simp: proposal_books_def)

lemma books_update:
  assumes "\<And>j p. m j = Some p \<Longrightarrow> proposal_books evs c j p" "proposal_books (evs @ [ev]) c i q"
    "\<And>j b. j \<noteq> i \<Longrightarrow> ballot_weight j b ev = 0 \<and> is_execution j ev = 0" "(m(i \<mapsto> q)) j = Some p'"
  shows "proposal_books (evs @ [ev]) c j p'"
proof (cases "j = i")
  case False
  then have "proposal_books evs c j p'" using assms(1,4) by simp
  then show ?thesis using assms(3) [OF False] by (intro other_books) auto
qed (use assms(2,4) in simp)

lemma key_image_insert:
  assumes "\<not> K (i, k)" "finite {x. K (i, x)}"
  shows "finite {x. (K((i, k) := True)) (i, x)}" "card {x. (K((i, k) := True)) (i, x)} = Suc (card {x. K (i, x)})"
proof -
  have "{x. (K((i, k) := True)) (i, x)} = insert k {x. K (i, x)}" by auto
  then show "finite {x. (K((i, k) := True)) (i, x)}" "card {x. (K((i, k) := True)) (i, x)} = Suc (card {x. K (i, x)})"
    using assms by simp_all
qed

lemma ballot_effect_inv:
  assumes "ballot_effect E s s'" "ballot_inv s"
  shows "ballot_inv s'"
proof -
  obtain c where c: "gv_proposal_count s = Some c" "\<And>i p. gv_proposal s i = Some p \<Longrightarrow> proposal_books (gv_events s) c i p"
      "\<And>i b. c < i \<Longrightarrow> ballots_cast i b (gv_events s) = 0 \<and> executions i (gv_events s) = 0"
    using assms(2) unfolding ballot_inv_def by blast
  have r: "executions i (gv_events s) \<le> 1" "distinct (voters i (gv_events s))" "\<And>v. v \<in> set (voters i (gv_events s)) \<Longrightarrow> gv_voted s (i, v)"
      "finite {k. gv_key_image s (i, k)}" "card {k. gv_key_image s (i, k)} = anonymous_ballots i (gv_events s)" for i
    using assms(2) unfolding ballot_inv_def by blast+
  from assms(1) show ?thesis
  proof cases
    case (silent evs)
    note q = quiet_history [OF silent(6)]
    then show ?thesis using assms(2) unfolding ballot_inv_def proposal_books_def silent(1-5) by simp
  next
    case (proposed i a t f args n evs)
    note q = quiet_history [OF proposed(7)]
    have i: "i = c + 1" using proposed(1) c(1) by simp
    have "proposal_books (gv_events s @ evs) i i (fresh_proposal a t f args n)"
      using c(3) [of i] by (simp add: proposal_books_def q fresh_proposal_def i tally_of_def)
    moreover have "proposal_books (gv_events s @ evs) i j p" if "gv_proposal s j = Some p" for j p
      using c(2) [OF that] by (auto simp: proposal_books_def q i)
    ultimately show ?thesis using c(3) r unfolding ballot_inv_def proposed(2-6) by (auto simp: q i)
  next
    case (voted i p v w b)
    have p: "proposal_books (gv_events s) c i p" using c(2) [OF voted(1)] .
    have "proposal_books (gv_events s @ [VoteCast i v b w]) c j p'" if "((gv_proposal s)(i \<mapsto> add_ballot b w p)) j = Some p'" for j p'
      using that by (rule books_update [OF c(2) add_ballot_books [OF p], rotated -1]) auto
    moreover have "v \<notin> set (voters i (gv_events s))" using r(3) voted(3) by blast
    moreover have "i \<le> c" using p by (simp add: proposal_books_def)
    ultimately show ?thesis using c(1,3) r unfolding ballot_inv_def voted(5-9) by (auto simp: c(1))
  next
    case (anonymous i p k b w)
    have p: "proposal_books (gv_events s) c i p" using c(2) [OF anonymous(1)] .
    have "proposal_books (gv_events s @ [AnonymousVoteCast i b w]) c j p'" if "((gv_proposal s)(i \<mapsto> add_ballot b w p)) j = Some p'" for j p'
      using that by (rule books_update [OF c(2) add_ballot_books [OF p], rotated -1]) auto
    moreover have "i \<le> c" using p by (simp add: proposal_books_def)
    moreover have "finite {x. ((gv_key_image s)((i, k) := True)) (j, x)} \<and>
        card {x. ((gv_key_image s)((i, k) := True)) (j, x)} = anonymous_ballots j (gv_events s) + (if i = j then 1 else 0)" for j
      using key_image_insert [of "gv_key_image s", OF anonymous(3) r(4)] r(4,5) by (cases "i = j") auto
    ultimately show ?thesis using c(1,3) r(1-3) unfolding ballot_inv_def anonymous(4-8) by (simp add: c(1))
  next
    case (executed i p)
    have p: "proposal_books (gv_events s) c i p" using c(2) [OF executed(1)] .
    have "proposal_books (gv_events s @ [ProposalExecutedEvent i (pr_target p) (pr_function p)]) c j p'"
      if "((gv_proposal s)(i \<mapsto> p\<lparr>pr_executed := True\<rparr>)) j = Some p'" for j p'
      using that by (rule books_update [OF c(2), rotated -1]) (use p in \<open>auto simp: proposal_books_def\<close>)
    moreover have "i \<le> c" "executions i (gv_events s) = 0" using p executed(2) by (simp_all add: proposal_books_def)
    ultimately show ?thesis using c(1,3) r unfolding ballot_inv_def executed(3-7) by (auto simp: c(1))
  next
    case (pruned i)
    then show ?thesis using c r unfolding ballot_inv_def by (auto split: if_splits)
  qed
qed

section \<open>The books of the members\<close>

definition deposit_total :: "(address \<rightharpoonup> u64) \<Rightarrow> nat" where
  "deposit_total m = (\<Sum>a\<in>dom m. the (m a))"

definition weight_total :: "(address \<rightharpoonup> u64) \<Rightarrow> nat" where
  "weight_total m = (\<Sum>a\<in>dom m. isqrt (the (m a)))"

definition deposits_ok :: "(address \<rightharpoonup> u64) \<Rightarrow> bool" where
  "deposits_ok m \<longleftrightarrow> finite (dom m) \<and> (\<forall>a d. m a = Some d \<longrightarrow> 0 < d) \<and> in_u64 (deposit_total m)"

definition member_inv :: "'w governance \<Rightarrow> bool" where
  "member_inv s \<longleftrightarrow> deposits_ok (gv_deposit s) \<and> gv_total_deposits s = Some (deposit_total (gv_deposit s))"

lemma total_insert:
  assumes "finite (dom m)" "m a = None"
  shows "deposit_total (m(a \<mapsto> d)) = deposit_total m + d" "weight_total (m(a \<mapsto> d)) = weight_total m + isqrt d"
proof -
  have "a \<notin> dom m" "(\<Sum>x\<in>dom m. the ((m(a \<mapsto> d)) x)) = (\<Sum>x\<in>dom m. the (m x))" "(\<Sum>x\<in>dom m. isqrt (the ((m(a \<mapsto> d)) x))) = (\<Sum>x\<in>dom m. isqrt (the (m x)))"
    using assms(2) by (auto intro!: sum.cong)
  then show "deposit_total (m(a \<mapsto> d)) = deposit_total m + d" "weight_total (m(a \<mapsto> d)) = weight_total m + isqrt d"
    using assms(1) by (simp_all add: deposit_total_def weight_total_def)
qed

lemma total_remove:
  assumes "finite (dom m)" "m a = Some d"
  shows "deposit_total (m(a := None)) + d = deposit_total m"
proof -
  have "m = (m(a := None))(a \<mapsto> d)" using assms(2) by auto
  then show ?thesis using total_insert(1) [of "m(a := None)" a d] assms(1) by simp
qed

lemma register_members_Ok:
  assumes "register_members E mds w d s = (Ok (w', d'), s')" "gv_lock s = Map.empty" "deposits_ok (gv_deposit s)"
    "d = deposit_total (gv_deposit s)" "w = weight_total (gv_deposit s)"
  shows "s' = s\<lparr>gv_deposit := gv_deposit s'\<rparr> \<and> deposits_ok (gv_deposit s') \<and> d' = deposit_total (gv_deposit s') \<and> w' = weight_total (gv_deposit s')"
  using assms
proof (induction mds arbitrary: w d s)
  case (Cons md mds)
  obtain m x where md: "md = (m, x)" by (cases md) auto
  let ?s = "s\<lparr>gv_deposit := (gv_deposit s)(m \<mapsto> x)\<rparr>"
  have x: "0 < x" "gv_deposit s m = None" "in_u64 (d + x)" using Cons.prems(1) by (auto simp: md ok_iff simp del: act_simps)
  have "quadratic_weight E ?s m = isqrt x"
    using x Cons.prems(2) by (auto simp: quadratic_weight_def voting_power_def u64_saturating_add_def Let_def in_u64_def min_def)
  then have run: "register_members E mds (w + isqrt x) (d + x) ?s = (Ok (w', d'), s')"
    using Cons.prems(1) by (auto simp: md ok_iff simp del: act_simps)
  have t: "deposit_total (gv_deposit ?s) = d + x" "weight_total (gv_deposit ?s) = w + isqrt x"
    using total_insert x(2) Cons.prems(3-5) by (auto simp: deposits_ok_def)
  then have "deposits_ok (gv_deposit ?s)" using Cons.prems(3) x by (auto simp: deposits_ok_def)
  from Cons.IH [OF run _ this t [symmetric]] Cons.prems(2)
  have i: "s' = ?s\<lparr>gv_deposit := gv_deposit s'\<rparr>" "deposits_ok (gv_deposit s') \<and> d' = deposit_total (gv_deposit s') \<and> w' = weight_total (gv_deposit s')" by simp_all
  have "s' = s\<lparr>gv_deposit := gv_deposit s'\<rparr>" using i(1) by simp
  then show ?case using i(2) by blast
qed (simp add: ok_iff)

lemma gov_constructor_Ok:
  assumes "gov_constructor E ms ds th vp (governance_empty w) = (Ok u, s)"
  shows "s = (governance_empty w)\<lparr>gv_deposit := gv_deposit s, gv_total_weight := gv_total_weight s, gv_total_deposits := gv_total_deposits s,
      gv_threshold_bps := Some th, gv_voting_period := Some vp, gv_proposal_count := Some 0\<rparr>"
    "member_inv s" "gv_total_weight s = Some (weight_total (gv_deposit s))" "1 \<le> th" "th \<le> 10000" "0 < vp"
proof -
  let ?e = "governance_empty w"
  obtain W D t where r: "register_members E (zip ms ds) 0 0 ?e = (Ok (W, D), t)" "1 \<le> th" "th \<le> 10000" "0 < vp"
      and s: "s = t\<lparr>gv_total_weight := Some W, gv_total_deposits := Some D, gv_threshold_bps := Some th, gv_voting_period := Some vp, gv_proposal_count := Some 0\<rparr>"
    using assms unfolding gov_constructor_def by (auto simp: ok_iff MIN_THRESHOLD_BPS_def MAX_THRESHOLD_BPS_def simp del: act_simps)
  have e: "gv_lock ?e = Map.empty" "deposits_ok (gv_deposit ?e)" "0 = deposit_total (gv_deposit ?e)" "0 = weight_total (gv_deposit ?e)"
    by (simp_all add: governance_empty_def deposits_ok_def deposit_total_def weight_total_def in_u64_def)
  note t = register_members_Ok [OF r(1) e]
  define dep where "dep = gv_deposit t"
  have t': "t = ?e\<lparr>gv_deposit := dep\<rparr>" "deposits_ok dep" "D = deposit_total dep" "W = weight_total dep" using t by (simp_all add: dep_def)
  show "s = ?e\<lparr>gv_deposit := gv_deposit s, gv_total_weight := gv_total_weight s, gv_total_deposits := gv_total_deposits s,
      gv_threshold_bps := Some th, gv_voting_period := Some vp, gv_proposal_count := Some 0\<rparr>"
    unfolding s t'(1) by simp
  show "member_inv s" "gv_total_weight s = Some (weight_total (gv_deposit s))" unfolding s t'(1) using t'(2-4) by (simp_all add: member_inv_def)
qed (use assms in \<open>auto simp: gov_constructor_def ok_iff MIN_THRESHOLD_BPS_def MAX_THRESHOLD_BPS_def simp del: act_simps\<close>)

text \<open>What a call does to the members and to the settings.\<close>

inductive member_effect :: "'w governance \<Rightarrow> 'w governance \<Rightarrow> bool" for s s' where
  kept: "gv_deposit s' = gv_deposit s \<Longrightarrow> gv_total_deposits s' = gv_total_deposits s \<Longrightarrow> gv_total_weight s' = gv_total_weight s \<Longrightarrow> member_effect s s'"
| left: "gv_deposit s v = Some d \<Longrightarrow> gv_deposit s' = (gv_deposit s)(v := None) \<Longrightarrow>
    gv_total_deposits s' = Some (saturating_sub (unwrap_or (gv_total_deposits s) 0) d) \<Longrightarrow>
    gv_total_weight s' \<noteq> None \<Longrightarrow> member_effect s s'"

lemma gov_run_members: "gov_run X E c s = Some s' \<Longrightarrow> member_effect s s' \<and> gv_threshold_bps s' = gv_threshold_bps s \<and> gv_voting_period s' = gv_voting_period s"
proof (cases c)
  case (Ragequit v i)
  assume "gov_run X E c s = Some s'"
  then have "ragequit X E v i s = (Ok (), s')" by (simp add: Ragequit ok_iff)
  then show ?thesis by (rule ragequit_Ok) (rule conjI, rule member_effect.left, simp+)
qed (auto simp: ok_iff dest!: execute_queued_vote_Ok gov_configuration_Ok register_voting_key_Ok(6) qf_open_bounty_Ok(3) optimistic_submit_Ok(4)
    elim!: propose_Ok simulated_Ok vote_Ok vote_anonymous_Ok execute_Ok prune_proposal_Ok queue_proposal_Ok veto_optimistic_Ok create_lock_Ok withdraw_lock_Ok
      execute_optimistic_Ok qf_donate_Ok qf_complete_bounty_Ok intro!: member_effect.kept)

lemma member_effect_inv: "member_effect s s' \<Longrightarrow> member_inv s \<Longrightarrow> member_inv s'"
proof (erule member_effect.cases)
  fix v d assume m: "member_inv s" "gv_deposit s v = Some d" "gv_deposit s' = (gv_deposit s)(v := None)"
    "gv_total_deposits s' = Some (saturating_sub (unwrap_or (gv_total_deposits s) 0) d)"
  then have "deposit_total (gv_deposit s') + d = deposit_total (gv_deposit s)" using total_remove [of "gv_deposit s"] by (simp add: member_inv_def deposits_ok_def)
  then show "member_inv s'" using m by (auto simp: member_inv_def deposits_ok_def saturating_sub_def in_u64_def split: if_splits)
qed (simp add: member_inv_def)

section \<open>The queue\<close>

lemma gov_run_queue:
  assumes "gov_run X E c s = Some s'"
  shows "(timelock_enabled s \<longrightarrow> timelock_enabled s') \<and>
    (\<forall>i q. gv_queued s' i = Some q \<longrightarrow> gv_queued s i = Some q \<or> qp_execution_ledger q = u32_saturating_add (sequence E) TIMELOCK_DELAY_LEDGERS)"
  using assms
  by (cases c) (auto simp: ok_iff timelock_enabled_def dequeued_def
    dest!: execute_queued_vote_Ok gov_configuration_Ok register_voting_key_Ok(6) qf_open_bounty_Ok(3) optimistic_submit_Ok(4)
    elim!: propose_Ok simulated_Ok vote_Ok vote_anonymous_Ok execute_Ok prune_proposal_Ok queue_proposal_Ok veto_optimistic_Ok create_lock_Ok withdraw_lock_Ok
      execute_optimistic_Ok qf_donate_Ok qf_complete_bounty_Ok ragequit_Ok split: if_splits)

text \<open>While the timelock is on, an entry that appears after ledger \<open>m\<close> unlocks at least the delay later.\<close>

definition delay_inv :: "u64 \<Rightarrow> u32 \<Rightarrow> u32 \<times> 'w governance \<Rightarrow> bool" where
  "delay_inv i m x \<longleftrightarrow> m \<le> fst x \<and> timelock_enabled (snd x) \<and>
     (\<forall>q. gv_queued (snd x) i = Some q \<longrightarrow> u32_saturating_add m TIMELOCK_DELAY_LEDGERS \<le> qp_execution_ledger q)"

interpretation queue: machine "gov_step X self" "delay_inv i m" for X self i m
proof unfold_locales
  fix x y assume i: "delay_inv i m x" and "gov_step X self x y"
  from \<open>gov_step X self x y\<close> show "delay_inv i m y"
  proof cases
    case (call n E c s s')
    have "u32_saturating_add m TIMELOCK_DELAY_LEDGERS \<le> u32_saturating_add (sequence E) TIMELOCK_DELAY_LEDGERS"
      using i call(1,3) by (auto simp: delay_inv_def u32_saturating_add_def)
    then show ?thesis using i call gov_run_queue [OF call(5)] unfolding delay_inv_def by fastforce
  next
    case (elsewhere n s w)
    then show ?thesis using i by (simp add: delay_inv_def timelock_enabled_def)
  qed
qed

section \<open>The machine\<close>

definition gov_inv :: "u32 \<times> 'w governance \<Rightarrow> bool" where
  "gov_inv x \<longleftrightarrow> ballot_inv (snd x) \<and> member_inv (snd x) \<and> (\<exists>th vp. gv_threshold_bps (snd x) = Some th \<and> gv_voting_period (snd x) = Some vp \<and>
     1 \<le> th \<and> th \<le> 10000 \<and> 0 < vp) \<and> gv_total_weight (snd x) \<noteq> None"

interpretation governance: machine "gov_step X self" gov_inv for X self
proof unfold_locales
  fix x y assume i: "gov_inv x" and "gov_step X self x y"
  from \<open>gov_step X self x y\<close> show "gov_inv y"
  proof cases
    case (call n E c s s')
    have m: "member_effect s s'" "gv_threshold_bps s' = gv_threshold_bps s" "gv_voting_period s' = gv_voting_period s"
      using gov_run_members [OF call(5)] by auto
    have "gv_total_weight s' \<noteq> None" using m(1) i by (cases rule: member_effect.cases) (auto simp: gov_inv_def call)
    then show ?thesis using i m(2,3) ballot_effect_inv [OF gov_run_effect [OF call(5)]] member_effect_inv [OF m(1)] by (simp add: gov_inv_def call)
  next
    case (elsewhere n s w)
    then show ?thesis using i by (simp add: gov_inv_def ballot_inv_def member_inv_def)
  qed
qed

lemma gov_start_inv: "gov_start self x \<Longrightarrow> gov_inv x"
proof (erule gov_start.cases)
  fix E ms ds th vp w and s assume x: "x = (sequence E, s)" and "gov_constructor E ms ds th vp (governance_empty w) = (Ok (), s)"
  note c = gov_constructor_Ok [OF this(2)]
  have "ballot_inv s" by (subst c(1)) (simp add: ballot_inv_def governance_empty_def history_defs)
  moreover have "gv_threshold_bps s = Some th" "gv_voting_period s = Some vp" by (subst c(1), simp)+
  ultimately show "gov_inv x" using c by (simp add: gov_inv_def x)
qed

lemma reachable_inv: "gov_start self x \<Longrightarrow> (gov_step X self)\<^sup>*\<^sup>* x y \<Longrightarrow> gov_inv y"
  using governance.steps_inv gov_start_inv by blast

text \<open>Ballots stay cast and who has left stays out.\<close>

definition gov_evolves :: "u32 \<times> 'w governance \<Rightarrow> u32 \<times> 'w governance \<Rightarrow> bool" where
  "gov_evolves x y \<longleftrightarrow> fst x \<le> fst y \<and> (\<forall>k. gv_voted (snd x) k \<longrightarrow> gv_voted (snd y) k) \<and> (\<forall>k. gv_key_image (snd x) k \<longrightarrow> gv_key_image (snd y) k) \<and>
     dom (gv_deposit (snd y)) \<subseteq> dom (gv_deposit (snd x)) \<and> (\<exists>evs. gv_events (snd y) = gv_events (snd x) @ evs)"

lemma gov_evolves_refl: "gov_evolves x x" by (simp add: gov_evolves_def)

lemma gov_evolves_trans: "gov_evolves x y \<Longrightarrow> gov_evolves y z \<Longrightarrow> gov_evolves x z"
  unfolding gov_evolves_def by (elim conjE exE, intro conjI allI impI) (auto intro: order_trans)

lemma gov_step_evolves: "gov_step X self x y \<Longrightarrow> gov_evolves x y"
proof (erule gov_step.cases)
  fix n E c and s s'
  assume xy: "x = (n, s)" "y = (sequence E, s')" "n \<le> sequence E" and run: "gov_run X E c s = Some s'"
  have "dom (gv_deposit s') \<subseteq> dom (gv_deposit s)" using gov_run_members [OF run] by (auto elim!: member_effect.cases split: if_splits)
  moreover have "(\<forall>k. gv_voted s k \<longrightarrow> gv_voted s' k) \<and> (\<forall>k. gv_key_image s k \<longrightarrow> gv_key_image s' k) \<and> (\<exists>evs. gv_events s' = gv_events s @ evs)"
    using gov_run_effect [OF run] by (cases rule: ballot_effect.cases) auto
  ultimately show "gov_evolves x y" using xy by (simp add: gov_evolves_def)
qed (simp add: gov_evolves_def)

lemma gov_steps_evolve: "(gov_step X self)\<^sup>*\<^sup>* x y \<Longrightarrow> gov_evolves x y"
  by (induction rule: rtranclp_induct) (auto intro: gov_evolves_refl gov_evolves_trans gov_step_evolves)

end
