(* ===== verification/Governance_Match.thy ===== *)
theory Governance_Match
  imports Governance_Ballots
begin

text \<open>
  The funding of bounties along the steps: each bounty's running sums are those of its donors' contributions, and the
  fixed-point match lies just below the quadratic-funding formula over the reals.
\<close>

section \<open>Scaled roots\<close>

definition root_of :: "i128 \<Rightarrow> nat" where
  "root_of c = (case scaled_sqrt c of Ok r \<Rightarrow> r | Err e \<Rightarrow> 0 | Trap \<Rightarrow> 0)"

lemma scaled_sqrt_Ok:
  assumes "scaled_sqrt c = Ok r"
  shows "root_of c = r" "0 < c \<Longrightarrow> is_root r (nat c * QF_SCALE_SQ)" "c \<le> 0 \<Longrightarrow> r = 0"
proof -
  show "root_of c = r" using assms by (simp add: root_of_def)
  show "c \<le> 0 \<Longrightarrow> r = 0" using assms by (simp add: scaled_sqrt_def)
  assume c: "0 < c"
  then have fits: "nat c * QF_SCALE_SQ < 2 ^ 128" using assms by (auto simp: scaled_sqrt_def split: if_splits)
  then obtain r' where "isqrt_u128 (nat c * QF_SCALE_SQ) = (Ok r' :: (qf_error, nat) result)" "is_root r' (nat c * QF_SCALE_SQ)"
    using isqrt_u128_root by blast
  then show "is_root r (nat c * QF_SCALE_SQ)" using assms c fits by (simp add: scaled_sqrt_def)
qed

lemma scaled_sqrt_total:
  assumes "nat c * QF_SCALE_SQ < 2 ^ 128"
  shows "\<exists>r. scaled_sqrt c = Ok r"
  using assms isqrt_u128_root [OF assms, where 'e = qf_error] by (auto simp: scaled_sqrt_def)

lemma scaled_sqrt_mono:
  assumes "scaled_sqrt c = Ok r" "scaled_sqrt c' = Ok r'" "c \<le> c'"
  shows "r \<le> r'"
proof (cases "0 < c")
  case True
  then show ?thesis using is_root_mono [OF scaled_sqrt_Ok(2) [OF assms(1)] scaled_sqrt_Ok(2) [OF assms(2)]] assms(3) by (simp add: nat_mono)
qed (use scaled_sqrt_Ok(3) [OF assms(1)] in simp)

lemma next_sqrt_sum_Ok:
  assumes "next_sqrt_sum t a b = Ok t'"
  shows "0 \<le> t" "t' = t + int (root_of b) - int (root_of a)" "scaled_sqrt b = Ok (root_of b)"
proof -
  obtain r r' where r: "scaled_sqrt b = Ok r" "scaled_sqrt a = Ok r'" "0 \<le> t" "r' \<le> r" "t' = int (nat t + (r - r'))"
    using assms by (auto simp: next_sqrt_sum_def obind_Ok_iff to_u128_def split: if_splits)
  then show "0 \<le> t" "t' = t + int (root_of b) - int (root_of a)" "scaled_sqrt b = Ok (root_of b)"
    using scaled_sqrt_Ok(1) [OF r(1)] scaled_sqrt_Ok(1) [OF r(2)] by (auto simp: of_nat_diff)
qed

section \<open>The books of the bounties\<close>

definition donors :: "(u64 \<times> address \<rightharpoonup> i128) \<Rightarrow> u64 \<Rightarrow> address set" where
  "donors m b = {d. m (b, d) \<noteq> None}"

definition given :: "(u64 \<times> address \<rightharpoonup> i128) \<Rightarrow> u64 \<Rightarrow> address \<Rightarrow> i128" where
  "given m b d = unwrap_or (m (b, d)) 0"

definition bounty_ok :: "(u64 \<times> address \<rightharpoonup> i128) \<Rightarrow> bounty_funding option \<Rightarrow> u64 \<Rightarrow> bool" where
  "bounty_ok m y b \<longleftrightarrow> finite (donors m b) \<and> (\<forall>d \<in> donors m b. 0 < given m b d \<and> scaled_sqrt (given m b d) = Ok (root_of (given m b d))) \<and>
     (case y of None \<Rightarrow> donors m b = {}
      | Some y \<Rightarrow> bf_total_donated y = (\<Sum>d\<in>donors m b. given m b d) \<and> bf_sqrt_sum_scaled y = (\<Sum>d\<in>donors m b. int (root_of (given m b d))))"

definition funding_inv :: "'w governance \<Rightarrow> bool" where
  "funding_inv s \<longleftrightarrow> (\<forall>b. bounty_ok (gv_donation s) (gv_bounty s b) b)"

lemma bounty_ok_cong: "(\<And>d. m' (b, d) = m (b, d)) \<Longrightarrow> bounty_ok m' y b = bounty_ok m y b"
proof -
  assume "\<And>d. m' (b, d) = m (b, d)"
  then have "donors m' b = donors m b" "given m' b = given m b" by (auto simp: donors_def given_def)
  then show ?thesis unfolding bounty_ok_def by (simp only:)
qed

lemma donors_update: "donors (m((b, d) \<mapsto> x)) b' = (if b' = b then insert d (donors m b) else donors m b')"
  by (auto simp: donors_def)

lemma given_update: "given (m((b, d) \<mapsto> x)) b' d' = (if b' = b \<and> d' = d then x else given m b' d')"
  by (auto simp: given_def)

lemma given_nondonor: "d \<notin> donors m b \<Longrightarrow> given m b d = 0"
  by (simp add: donors_def given_def)

lemma root_of_0: "root_of 0 = 0" by (simp add: root_of_def scaled_sqrt_def)

text \<open>A sum over donors when one of them gives more.\<close>

lemma donor_sum:
  fixes f :: "i128 \<Rightarrow> int"
  assumes "finite (donors m b)" "f 0 = 0"
  shows "(\<Sum>e\<in>donors (m((b, d) \<mapsto> x)) b. f (given (m((b, d) \<mapsto> x)) b e)) = (\<Sum>e\<in>donors m b. f (given m b e)) + f x - f (given m b d)"
proof -
  let ?D = "donors m b - {d}"
  have "(\<Sum>e\<in>insert d ?D. f (given (m((b, d) \<mapsto> x)) b e)) = f x + (\<Sum>e\<in>?D. f (given (m((b, d) \<mapsto> x)) b e))"
    using assms(1) by (subst sum.insert) (auto simp: given_update)
  moreover have "(\<Sum>e\<in>?D. f (given (m((b, d) \<mapsto> x)) b e)) = (\<Sum>e\<in>?D. f (given m b e))" by (intro sum.cong) (auto simp: given_update)
  moreover have "donors (m((b, d) \<mapsto> x)) b = insert d ?D" by (auto simp: donors_update)
  moreover have "(\<Sum>e\<in>donors m b. f (given m b e)) = f (given m b d) + (\<Sum>e\<in>?D. f (given m b e))"
    using assms given_nondonor [of d m b] by (cases "d \<in> donors m b") (simp_all add: sum.remove)
  ultimately show ?thesis by simp
qed

lemma donate_inv:
  assumes "funding_inv s" "gv_bounty s b = Some y" "0 < x"
    "next_sqrt_sum (bf_sqrt_sum_scaled y) (unwrap_or (gv_donation s (b, d)) 0) (unwrap_or (gv_donation s (b, d)) 0 + x) = Ok t"
    "gv_donation s' = (gv_donation s)((b, d) \<mapsto> unwrap_or (gv_donation s (b, d)) 0 + x)"
    "gv_bounty s' = (gv_bounty s)(b \<mapsto> y\<lparr>bf_total_donated := bf_total_donated y + x, bf_sqrt_sum_scaled := t\<rparr>)"
  shows "funding_inv s'"
proof -
  let ?m = "gv_donation s" and ?g = "given (gv_donation s) b d" and ?m' = "gv_donation s'"
  have m: "?m' = ?m((b, d) \<mapsto> ?g + x)" using assms(5) by (simp add: given_def)
  note t = next_sqrt_sum_Ok [OF assms(4) [folded given_def]]
  have "bounty_ok ?m (Some y) b" using assms(1,2) by (metis funding_inv_def)
  then have b: "finite (donors ?m b)" "\<And>e. e \<in> donors ?m b \<Longrightarrow> 0 < given ?m b e \<and> scaled_sqrt (given ?m b e) = Ok (root_of (given ?m b e))"
    "bf_total_donated y = (\<Sum>e\<in>donors ?m b. given ?m b e)" "bf_sqrt_sum_scaled y = (\<Sum>e\<in>donors ?m b. int (root_of (given ?m b e)))"
    by (auto simp: bounty_ok_def)
  have g: "0 \<le> ?g" using b(2) [of d] given_nondonor [of d ?m b] by (cases "d \<in> donors ?m b") auto
  have "bf_total_donated y + x = (\<Sum>e\<in>donors ?m' b. given ?m' b e)"
    using donor_sum [of ?m b "\<lambda>c. c", OF b(1)] by (simp add: m b)
  moreover have "t = (\<Sum>e\<in>donors ?m' b. int (root_of (given ?m' b e)))"
    using donor_sum [of ?m b "\<lambda>c. int (root_of c)", OF b(1)] t(2) by (simp add: m b root_of_0)
  moreover have "0 < given ?m' b e \<and> scaled_sqrt (given ?m' b e) = Ok (root_of (given ?m' b e))" if "e \<in> donors ?m' b" for e
    using that b(2) [of e] g assms(3) t(3) by (cases "e = d") (auto simp: m donors_update given_update)
  moreover have "finite (donors ?m' b)" using b(1) by (simp add: m donors_update)
  ultimately have own: "bounty_ok ?m' (gv_bounty s' b) b" by (simp add: bounty_ok_def assms(6))
  have "bounty_ok ?m' (gv_bounty s' b') b'" for b'
  proof (cases "b' = b")
    case False
    have "bounty_ok ?m (gv_bounty s b') b'" using assms(1) by (simp add: funding_inv_def)
    moreover have "bounty_ok ?m' y b' = bounty_ok ?m y b'" for y using False by (intro bounty_ok_cong) (simp add: m)
    ultimately show ?thesis using False by (simp add: assms(6))
  qed (use own in simp)
  then show ?thesis by (simp add: funding_inv_def)
qed

lemma funding_inv_same: "gv_donation s' = gv_donation s \<Longrightarrow> gv_bounty s' = gv_bounty s \<Longrightarrow> funding_inv s \<Longrightarrow> funding_inv s'"
  by (simp add: funding_inv_def)

lemma funding_inv_update:
  assumes "funding_inv s" "gv_donation s' = gv_donation s" "gv_bounty s' = (gv_bounty s)(b := y)" "bounty_ok (gv_donation s) y b"
  shows "funding_inv s'"
  using assms by (simp add: funding_inv_def)

lemma gov_run_bounties:
  assumes "gov_run X E c s = Some s'" "funding_inv s"
  shows "funding_inv s'"
proof (cases c)
  case (QfOpenBounty b r)
  then have o: "qf_open_bounty E b r s = (Ok (), s')" using assms(1) by (simp add: ok_iff)
  have "bounty_ok (gv_donation s) None b" using assms(2) qf_open_bounty_Ok(2) [OF o] by (metis funding_inv_def)
  then have "bounty_ok (gv_donation s) (Some \<lparr>bf_recipient = r, bf_total_donated = 0, bf_sqrt_sum_scaled = 0, bf_completed = False, bf_match_paid = 0\<rparr>) b"
    by (simp add: bounty_ok_def)
  then show ?thesis using assms(2) by (rule funding_inv_update [rotated -1]) (simp_all add: qf_open_bounty_Ok(3) [OF o])
next
  case (QfDonate d b x)
  then have "qf_donate X E d b x s = (Ok (), s')" using assms(1) by (simp add: ok_iff)
  then show ?thesis
  proof (rule qf_donate_Ok)
    fix tok y t w
    assume q: "0 < x" "gv_bounty s b = Some y"
      "next_sqrt_sum (bf_sqrt_sum_scaled y) (unwrap_or (gv_donation s (b, d)) 0) (unwrap_or (gv_donation s (b, d)) 0 + x) = Ok t"
      "s' = s\<lparr>gv_donation := (gv_donation s)((b, d) \<mapsto> unwrap_or (gv_donation s (b, d)) 0 + x),
         gv_bounty := (gv_bounty s)(b \<mapsto> y\<lparr>bf_total_donated := bf_total_donated y + x, bf_sqrt_sum_scaled := t\<rparr>), gv_world := w,
         gv_events := gv_events s @ [QfDonationReceived b d x (unwrap_or (gv_donation s (b, d)) 0 + x)]\<rparr>"
    show "funding_inv s'" using donate_inv [OF assms(2) q(2,1,3), of s'] by (simp add: q(4))
  qed
next
  case (QfCompleteBounty b)
  then obtain m where "qf_complete_bounty X E b s = (Ok m, s')" using assms(1) by (auto simp: ok_iff)
  then show ?thesis
  proof (rule qf_complete_bounty_Ok)
    fix y w tok
    assume q: "gv_bounty s b = Some y" "s' = s\<lparr>gv_bounty := (gv_bounty s)(b \<mapsto> y\<lparr>bf_completed := True, bf_match_paid := m\<rparr>), gv_world := w,
       gv_events := gv_events s @ [QfBountyCompleted b (bf_recipient y) (bf_total_donated y) m (bf_total_donated y + m)]\<rparr>"
    have "bounty_ok (gv_donation s) (Some y) b" using assms(2) q(1) by (metis funding_inv_def)
    then have "bounty_ok (gv_donation s) (Some (y\<lparr>bf_completed := True, bf_match_paid := m\<rparr>)) b" by (simp add: bounty_ok_def)
    then show "funding_inv s'" using assms(2) by (rule funding_inv_update [rotated -1]) (simp_all add: q(2))
  qed
qed (insert assms, auto simp: ok_iff intro!: funding_inv_same [OF _ _ assms(2)]
    dest!: execute_queued_vote_Ok gov_configuration_Ok register_voting_key_Ok(6) optimistic_submit_Ok(4)
    elim!: propose_Ok simulated_Ok vote_Ok vote_anonymous_Ok execute_Ok prune_proposal_Ok queue_proposal_Ok veto_optimistic_Ok create_lock_Ok withdraw_lock_Ok
      execute_optimistic_Ok ragequit_Ok)

interpretation funding: machine "gov_step X self" "\<lambda>x. funding_inv (snd x)" for X self
proof unfold_locales
  fix x y assume "funding_inv (snd x)" "gov_step X self x y"
  from this(2,1) show "funding_inv (snd y)"
  proof cases
    case (elsewhere n s w)
    then show ?thesis using \<open>funding_inv (snd x)\<close> by (simp add: funding_inv_def)
  qed (auto intro: gov_run_bounties)
qed

lemma gov_start_bounties: "gov_start self x \<Longrightarrow> funding_inv (snd x)"
proof (erule gov_start.cases)
  fix E ms ds th vp w and s assume x: "x = (sequence E, s)" and "gov_constructor E ms ds th vp (governance_empty w) = (Ok (), s)"
  note c = gov_constructor_Ok [OF this(2)]
  have "funding_inv s" by (subst c(1)) (simp add: funding_inv_def bounty_ok_def donors_def governance_empty_def)
  then show "funding_inv (snd x)" by (simp add: x)
qed

section \<open>The formula\<close>

text \<open>A scaled root is the real one times the scale, less than one unit short.\<close>

lemma root_of_bounds:
  assumes "0 < c" "scaled_sqrt c = Ok (root_of c)"
  shows "real (root_of c) \<le> 10000000 * sqrt (real_of_int c)" "10000000 * sqrt (real_of_int c) < real (root_of c) + 1"
proof -
  let ?r = "root_of c" and ?S = "10000000 * sqrt (real_of_int c)"
  have r: "is_root ?r (nat c * QF_SCALE_SQ)" using scaled_sqrt_Ok(2) [OF assms(2,1)] .
  have S: "?S * ?S = real (nat c * QF_SCALE_SQ)" using assms(1) by (simp add: QF_SCALE_SQ_def QF_SCALE_def)
  have "real (?r * ?r) \<le> real (nat c * QF_SCALE_SQ)" using r unfolding is_root_def by (simp only: of_nat_le_iff)
  then have "real ?r * real ?r \<le> ?S * ?S" unfolding S by simp
  then have "(real ?r)\<^sup>2 \<le> ?S\<^sup>2" by (simp only: power2_eq_square)
  then show "real ?r \<le> ?S" by (rule power2_le_imp_le) (use assms(1) in simp)
  have "real (nat c * QF_SCALE_SQ) < real ((?r + 1) * (?r + 1))" using r unfolding is_root_def by (simp only: of_nat_less_iff)
  then have "?S * ?S < (real ?r + 1) * (real ?r + 1)" unfolding S by (simp only: of_nat_mult of_nat_add of_nat_1)
  then have "?S\<^sup>2 < (real ?r + 1)\<^sup>2" by (simp only: power2_eq_square)
  then show "?S < real ?r + 1" by (rule power2_less_imp_less) simp
qed

lemma sum_le_square_of_roots:
  assumes "finite D" "\<And>d. d \<in> D \<Longrightarrow> 0 \<le> (g d :: real)"
  shows "(\<Sum>d\<in>D. g d) \<le> (\<Sum>d\<in>D. sqrt (g d))\<^sup>2"
  using assms
proof (induction D rule: finite_induct)
  case (insert x F)
  let ?S = "\<Sum>d\<in>F. sqrt (g d)"
  have "0 \<le> ?S" using insert.prems by (intro sum_nonneg) auto
  then have "(sqrt (g x))\<^sup>2 + ?S\<^sup>2 \<le> (sqrt (g x) + ?S)\<^sup>2" using insert.prems by (simp add: power2_sum)
  moreover have "(sqrt (g x))\<^sup>2 = g x" using insert.prems by simp
  ultimately show ?case using insert.IH insert.prems insert.hyps by (simp add: order_trans)
qed simp

text \<open>What the floored quotient loses.\<close>

lemma floor_quotient:
  "real (n div QF_SCALE_SQ) \<le> real n / 10 ^ 14" "real n / 10 ^ 14 < real (n div QF_SCALE_SQ) + 1"
proof -
  have k: "QF_SCALE_SQ = 10 ^ 14" by (simp add: QF_SCALE_SQ_def QF_SCALE_def)
  have "real (n div 10 ^ 14) = real_of_int \<lfloor>real n / real (10 ^ 14 :: nat)\<rfloor>" by (simp only: floor_divide_of_nat_eq of_int_of_nat_eq)
  then have q: "real (n div QF_SCALE_SQ) = real_of_int \<lfloor>real n / 10 ^ 14\<rfloor>" unfolding k by simp
  show "real (n div QF_SCALE_SQ) \<le> real n / 10 ^ 14" "real n / 10 ^ 14 < real (n div QF_SCALE_SQ) + 1" unfolding q by linarith+
qed

text \<open>The sum of scaled roots against the sum of real roots.\<close>

lemma root_sum_bounds:
  assumes "finite D" "\<And>d. d \<in> D \<Longrightarrow> 0 < g d \<and> scaled_sqrt (g d) = Ok (root_of (g d))"
  shows "real (\<Sum>d\<in>D. root_of (g d)) \<le> 10000000 * (\<Sum>d\<in>D. sqrt (real_of_int (g d)))"
    "10000000 * (\<Sum>d\<in>D. sqrt (real_of_int (g d))) - real (card D) \<le> real (\<Sum>d\<in>D. root_of (g d))"
    "real (card D) \<le> (\<Sum>d\<in>D. sqrt (real_of_int (g d)))"
proof -
  show "real (\<Sum>d\<in>D. root_of (g d)) \<le> 10000000 * (\<Sum>d\<in>D. sqrt (real_of_int (g d)))"
    unfolding of_nat_sum sum_distrib_left by (rule sum_mono) (use assms(2) root_of_bounds(1) in blast)
  have "(\<Sum>d\<in>D. 10000000 * sqrt (real_of_int (g d)) - 1) \<le> (\<Sum>d\<in>D. real (root_of (g d)))"
    by (rule sum_mono) (use assms(2) root_of_bounds(2) in \<open>fastforce simp: diff_le_eq intro: less_imp_le\<close>)
  then show "10000000 * (\<Sum>d\<in>D. sqrt (real_of_int (g d))) - real (card D) \<le> real (\<Sum>d\<in>D. root_of (g d))"
    by (simp add: sum_subtractf sum_distrib_left)
  have "(\<Sum>d\<in>D. 1) \<le> (\<Sum>d\<in>D. sqrt (real_of_int (g d)))" by (rule sum_mono) (use assms(2) in fastforce)
  then show "real (card D) \<le> (\<Sum>d\<in>D. sqrt (real_of_int (g d)))" by simp
qed

lemma match_from_scaled_Ok:
  assumes "match_from_scaled T n = Ok m"
  shows "m = max 0 (int (T * T div QF_SCALE_SQ) - n)" "0 \<le> n"
  using assms by (auto simp: match_from_scaled_def Let_def saturating_sub_def obind_Ok_iff to_u128_def max_def of_nat_diff split: if_splits)

lemma match_bounds:
  assumes "finite D" "\<And>d. d \<in> D \<Longrightarrow> 0 < g d \<and> scaled_sqrt (g d) = Ok (root_of (g d))"
    "match_from_scaled (\<Sum>d\<in>D. root_of (g d)) (\<Sum>d\<in>D. g d) = Ok m"
  defines "S \<equiv> \<Sum>d\<in>D. sqrt (real_of_int (g d))" and "C \<equiv> real_of_int (\<Sum>d\<in>D. g d)"
  shows "real_of_int m \<le> S\<^sup>2 - C" "S\<^sup>2 - C - 2 * S * real (card D) / 10000000 - 1 < real_of_int m"
proof -
  define T where "T = (\<Sum>d\<in>D. root_of (g d))"
  have b: "real T \<le> 10000000 * S" "10000000 * S - real (card D) \<le> real T" "real (card D) \<le> S"
    using root_sum_bounds [OF assms(1,2)] by (simp_all add: T_def S_def)
  have C: "C \<le> S\<^sup>2" unfolding C_def S_def of_int_sum using assms(1,2) by (intro sum_le_square_of_roots) (auto simp: less_imp_le)
  have m: "real_of_int m = max 0 (real (T * T div QF_SCALE_SQ) - C)"
    unfolding T_def C_def match_from_scaled_Ok(1) [OF assms(3)] by (simp only: of_int_max of_int_0 of_int_diff of_int_of_nat_eq)
  define R where "R = real T / 10000000"
  have R: "real (T * T) / 10 ^ 14 = R\<^sup>2" "0 \<le> R" "R \<le> S" "S - real (card D) / 10000000 \<le> R"
  proof -
    have R: "real T = 10000000 * R" by (simp add: R_def)
    show "real (T * T) / 10 ^ 14 = R\<^sup>2" unfolding of_nat_mult R by (simp add: power2_eq_square)
    show "0 \<le> R" by (simp add: R_def)
    show "R \<le> S" "S - real (card D) / 10000000 \<le> R" using b(1,2) unfolding R by simp_all
  qed
  note q = floor_quotient [of "T * T", unfolded R(1)]
  have "R\<^sup>2 \<le> S\<^sup>2" using R(2,3) by (intro power_mono) auto
  then show "real_of_int m \<le> S\<^sup>2 - C" using q(1) C by (simp add: m)
  have "0 \<le> S - real (card D) / 10000000" using b(3) by simp
  then have "(S - real (card D) / 10000000)\<^sup>2 \<le> R\<^sup>2" using R(4) by (intro power_mono) auto
  moreover have "S\<^sup>2 - 2 * S * real (card D) / 10000000 \<le> (S - real (card D) / 10000000)\<^sup>2" by (simp add: power2_diff)
  ultimately show "S\<^sup>2 - C - 2 * S * real (card D) / 10000000 - 1 < real_of_int m" using q(2) by (simp add: m)
qed

lemma match_single:
  assumes "0 < c" "scaled_sqrt c = Ok (root_of c)" "match_from_scaled (root_of c) c = Ok m"
  shows "m = 0"
proof -
  have "root_of c * root_of c \<le> nat c * QF_SCALE_SQ" using scaled_sqrt_Ok(2) [OF assms(2,1)] by (simp add: is_root_def)
  then have "root_of c * root_of c div QF_SCALE_SQ \<le> nat c * QF_SCALE_SQ div QF_SCALE_SQ" by (rule div_le_mono)
  then have "root_of c * root_of c div QF_SCALE_SQ \<le> nat c" by (simp add: QF_SCALE_SQ_def QF_SCALE_def)
  then show ?thesis using match_from_scaled_Ok(1) [OF assms(3)] assms(1) by simp
qed

end
