(* ===== verification/Governance_Claims.thy ===== *)
theory Governance_Claims
  imports Governance_Match
begin

text \<open>
  What the governance contract guarantees of executions: a proposal runs only on the ballots that were cast for it, with the quorum
  of its ledger and through the timelock where that is on, and only once. A small deployment runs through a proposal, a ballot
  and the execution.
\<close>

section \<open>A small deployment\<close>

definition gw_curve :: curve where
  "gw_curve = \<lparr>cv_decompress = (\<lambda>_. None), cv_compress = (\<lambda>_. []), cv_identity = 0, cv_base = 0, cv_add = (+), cv_mul = (*),
     cv_scalar = (\<lambda>_. None), cv_scalar_mod_order = (\<lambda>_. 0), cv_from_uniform = (\<lambda>_. 0)\<rparr>"

definition gw_ext :: "ledger gov_ext" where
  "gw_ext = \<lparr>gx_token = ledger_token, gx_invoke = (\<lambda>w t f args. Some (0, w)), gx_sha256 = (\<lambda>_. replicate 32 0), gx_network_id = [],
     gx_address_xdr = (\<lambda>_. []), gx_symbol_xdr = (\<lambda>_. []), gx_value_xdr = (\<lambda>_. []), gx_call_xdr = (\<lambda>_ _ _. []), gx_curve = gw_curve\<rparr>"

definition gw_env :: "u32 \<Rightarrow> env" where
  "gw_env n = \<lparr>sequence = n, timestamp = 0, current_contract_address = 1, authorized = (\<lambda>a. a = 2)\<rparr>"

definition gw_init :: "ledger governance" where
  "gw_init = (governance_empty (\<lambda>_ _. 0))\<lparr>gv_deposit := [2 \<mapsto> 1], gv_total_weight := Some 1, gv_total_deposits := Some 1,
     gv_threshold_bps := Some 6000, gv_voting_period := Some 100, gv_proposal_count := Some 0\<rparr>"

definition gw_proposal :: proposal where
  "gw_proposal = fresh_proposal 2 50 ''run'' [] 110"

definition gw_proposed :: "ledger governance" where
  "gw_proposed = gw_init\<lparr>gv_proposal_count := Some 1, gv_proposal := [1 \<mapsto> gw_proposal],
     gv_events := [ProposalCreated 1 2 50 ''run'' 110]\<rparr>"

definition gw_voted :: "ledger governance" where
  "gw_voted = gw_proposed\<lparr>gv_voted := (\<lambda>_. False)((1, 2) := True), gv_proposal := [1 \<mapsto> gw_proposal\<lparr>pr_yes_weight := 1\<rparr>],
     gv_events := [ProposalCreated 1 2 50 ''run'' 110, VoteCast 1 2 True 1]\<rparr>"

definition gw_executed :: "ledger governance" where
  "gw_executed = gw_voted\<lparr>gv_proposal := [1 \<mapsto> gw_proposal\<lparr>pr_yes_weight := 1, pr_executed := True\<rparr>],
     gv_events := [ProposalCreated 1 2 50 ''run'' 110, VoteCast 1 2 True 1, ProposalExecutedEvent 1 50 ''run'']\<rparr>"

lemma gw_weight: "gv_deposit s 2 = Some (Suc 0) \<Longrightarrow> gv_lock s 2 = None \<Longrightarrow> quadratic_weight E s 2 = Suc 0"
  by (simp add: quadratic_weight_def voting_power_def u64_saturating_add_def isqrt_def)

lemma read_step: "abind (aread f) g s = g (f s) s" by (simp add: abind_def)

lemmas gw_defs = read_step abind_simps aseq_simps gw_env_def gw_init_def gw_proposed_def gw_voted_def gw_executed_def gw_proposal_def fresh_proposal_def governance_empty_def

lemma gw_runs:
  "gov_constructor (gw_env 10) [2] [1] 6000 100 (governance_empty (\<lambda>_ _. 0)) = (Ok (), gw_init)"
  "propose (gw_env 10) 2 50 ''run'' [] gw_init = (Ok 1, gw_proposed)"
  "vote (gw_env 11) 2 1 True gw_proposed = (Ok (), gw_voted)"
  "execute gw_ext (gw_env 12) 1 gw_voted = (Ok (), gw_executed)"
proof -
  show "gov_constructor (gw_env 10) [2] [1] 6000 100 (governance_empty (\<lambda>_ _. 0)) = (Ok (), gw_init)"
    by (simp add: gw_weight gov_constructor_def MAX_MEMBERS_def MIN_THRESHOLD_BPS_def MAX_THRESHOLD_BPS_def register_deposit_def
        in_u64_def gw_defs)
  show "propose (gw_env 10) 2 50 ''run'' [] gw_init = (Ok 1, gw_proposed)"
    by (simp add: propose_def member_deposit_def simulation_required_def store_proposal_def gov_publish_def require_auth_def u64_add_def
        u32_add_def u32_checked_def in_u64_def in_u32_def gw_defs)
  show "vote (gw_env 11) 2 1 True gw_proposed = (Ok (), gw_voted)"
    by (simp add: gw_weight vote_def load_proposal_def store_proposal_def gov_publish_def require_auth_def add_ballot_def u64_saturating_add_def gw_defs)
  show "execute gw_ext (gw_env 12) 1 gw_voted = (Ok (), gw_executed)"
    by (simp add: execute_def load_proposal_def gov_settings_def quorum_met_def effective_bps_def current_quorum_bps_def QUORUM_FLOOR_BPS_def
        MAX_THRESHOLD_BPS_def require_matured_def timelock_enabled_def store_proposal_def invoke_target_def gov_publish_def saturating_sub_def
        in_u32_def Let_def gw_ext_def gw_defs)
qed

lemma gw_reach: "gov_start 1 (10, gw_init)" "(gov_step gw_ext 1)\<^sup>*\<^sup>* (10, gw_init) (11, gw_voted)"
proof -
  show "gov_start 1 (10, gw_init)" using gov_start.construct [OF gw_runs(1)] by (simp add: gw_env_def)
  have "gov_run gw_ext (gw_env 10) (Propose 2 50 ''run'' []) gw_init = Some gw_proposed" using gw_runs(2) by (simp add: committed_def)
  from gov_step.call [OF _ _ this, of 10 1] have p: "gov_step gw_ext 1 (10, gw_init) (10, gw_proposed)" by (simp add: gw_env_def)
  have "gov_run gw_ext (gw_env 11) (Vote 2 1 True) gw_proposed = Some gw_voted" using gw_runs(3) by (simp add: committed_def)
  from gov_step.call [OF _ _ this, of 10 1] have "gov_step gw_ext 1 (10, gw_proposed) (11, gw_voted)" by (simp add: gw_env_def)
  with p show "(gov_step gw_ext 1)\<^sup>*\<^sup>* (10, gw_init) (11, gw_voted)" by (meson converse_rtranclp_into_rtranclp rtranclp.rtrancl_refl)
qed

section \<open>Ballots and execution\<close>

text \<open>C40: a proposal runs once, on the ballots cast for it. When \<open>execute\<close> commits in a reachable state, the proposal's two tallies are
  the sums of the weights published with its ballots (saturating at 64 bits), no member voted openly twice and every anonymous
  ballot came with a key image of its own; the votes in favour outweigh those against and reach the quorum of the recorded total weight
  at that ledger, which decays with the age of the proposal; where the timelock is on, the same call was queued and its delay is over. It had not run
  before, and in no later state is it executed again.\<close>

theorem executions_voted:
  assumes start: "gov_start self x" and reach: "(gov_step X self)\<^sup>*\<^sup>* x (n, s)"
    and E: "n \<le> sequence E" "current_contract_address E = self" and run: "execute X E i s = (Ok (), s')"
  shows "\<exists>p W th vp. gv_proposal s i = Some p \<and> gv_total_weight s = Some W \<and> gv_threshold_bps s = Some th \<and> gv_voting_period s = Some vp \<and>
    pr_yes_weight p = tally_of (ballots_cast i True (gv_events s)) \<and> pr_no_weight p = tally_of (ballots_cast i False (gv_events s)) \<and>
    distinct (voters i (gv_events s)) \<and> card {k. gv_key_image s (i, k)} = anonymous_ballots i (gv_events s) \<and>
    pr_no_weight p < pr_yes_weight p \<and>
    W * current_quorum_bps th (sequence E - (pr_deadline_ledger p - vp)) vp \<le> pr_yes_weight p * 10000 \<and>
    (timelock_enabled s \<longrightarrow> (\<exists>q. gv_queued s i = Some q \<and> qp_call_hash q = proposal_call_hash X p \<and> qp_execution_ledger q \<le> sequence E)) \<and>
    executions i (gv_events s) = 0 \<and>
    (\<forall>m t. (gov_step X self)\<^sup>*\<^sup>* (sequence E, s') (m, t) \<longrightarrow> executions i (gv_events t) = 1 \<and> (\<forall>E' u. execute X E' i t \<noteq> (Ok (), u)))"
proof -
  have "gov_run X E (Execute i) s = Some s'" using run by (simp add: committed_def)
  then have "gov_step X self (n, s) (sequence E, s')" by (rule gov_step.call [OF E])
  with reach have reach': "(gov_step X self)\<^sup>*\<^sup>* x (sequence E, s')" by simp
  have inv: "ballot_inv s" using reachable_inv [OF start reach] by (simp add: gov_inv_def)
  obtain p W th vp where p: "gv_proposal s i = Some p" "\<not> pr_executed p" "gv_total_weight s = Some W" "gv_threshold_bps s = Some th"
      "gv_voting_period s = Some vp" "quorum_met E W th vp p" "pr_no_weight p < pr_yes_weight p" "matured X E i p s"
    and ev: "gv_events s' = gv_events s @ [ProposalExecutedEvent i (pr_target p) (pr_function p)]"
    using run by (rule execute_Ok) simp
  obtain c where books: "proposal_books (gv_events s) c i p" using inv p(1) unfolding ballot_inv_def by blast
  then have 0: "executions i (gv_events s) = 0" using p(2) by (simp add: proposal_books_def)
  have quorum: "W * current_quorum_bps th (sequence E - (pr_deadline_ledger p - vp)) vp \<le> pr_yes_weight p * 10000"
    using p(6) by (simp add: quorum_met_def effective_bps_def MAX_THRESHOLD_BPS_def saturating_sub_def Let_def)
  have later: "executions i (gv_events t) = 1 \<and> (\<forall>E' u. execute X E' i t \<noteq> (Ok (), u))"
    if t: "(gov_step X self)\<^sup>*\<^sup>* (sequence E, s') (m, t)" for m t
  proof -
    obtain evs where "gv_events t = gv_events s' @ evs" using gov_steps_evolve [OF t] by (auto simp: gov_evolves_def)
    then have ge: "1 \<le> executions i (gv_events t)" by (simp add: ev executions_def)
    have inv': "ballot_inv t" using reachable_inv [OF start rtranclp_trans [OF reach' t]] by (simp add: gov_inv_def)
    then have "executions i (gv_events t) \<le> 1" unfolding ballot_inv_def by blast
    moreover have "execute X E' i t \<noteq> (Ok (), u)" for E' u
    proof
      assume "execute X E' i t = (Ok (), u)"
      then obtain q where "gv_proposal t i = Some q" "\<not> pr_executed q" by (rule execute_Ok) blast
      then have "executions i (gv_events t) = 0" using inv' unfolding ballot_inv_def proposal_books_def by metis
      with ge show False by simp
    qed
    ultimately show ?thesis using ge by simp
  qed
  have "distinct (voters i (gv_events s))" "card {k. gv_key_image s (i, k)} = anonymous_ballots i (gv_events s)"
    using inv unfolding ballot_inv_def by blast+
  then show ?thesis using p(1,3-5,7) books quorum p(8) 0 later unfolding proposal_books_def matured_def by blast
qed

theorem executions_voted_witness:
  "execute gw_ext (gw_env 12) 1 gw_voted = (Ok (), gw_executed) \<and> executions 1 (gv_events gw_voted) = 0 \<and>
   (\<forall>E' u. execute gw_ext E' 1 gw_executed \<noteq> (Ok (), u))"
proof -
  have "11 \<le> sequence (gw_env 12)" "current_contract_address (gw_env 12) = 1" by (simp_all add: gw_env_def)
  from executions_voted [OF gw_reach this gw_runs(4)] gw_runs(4) show ?thesis by blast
qed

end
