(* ===== verification/Spec2Isabelle.thy ===== *)
theory Spec2Isabelle
  imports Receipt_Claims Vault_Claims Channel_Claims Stream_Claims Upto_Claims Insurance_Claims Multisig_Claims Treasury_Claims Governance_Claims
begin

text \<open>
  \<^bold>\<open>The accensa contracts.\<close>

  Accensa anchors payment receipts on a ledger and refunds payments out of merchant vaults. The
  contracts are Soroban (Rust) crates under \<open>src/contracts\<close>. This development models those that carry the
  product and those that hold other people's tokens, with everything they call that is in the repository:

    \<^item> \<open>receipt-anchor\<close>, a router that gives every merchant an append-only stream of Merkle roots and keeps
      the records in deployed \<open>receipt-shard\<close> contracts of 200 ids each; receipts are checked against an
      anchored root by a Merkle proof;
    \<^item> \<open>refund-vault\<close>, which holds a merchant's refund float and pays claims out of it through clock, oracle,
      cooldown and delay gates, takes a fee by a tier ladder, lends and invests the float, and keeps
      coupons, commitments, permits and escrowed NFTs; its clock gates live in \<open>refund-policy-time\<close>;
    \<^item> \<open>state-channel\<close>, payment channels between a sender and a receiver: escrow, signed states, closes, disputes
      with counter-evidence and watchtowers, hash locks, splicing and channels over several tokens;
    \<^item> \<open>stream-vault\<close>, linear payment streams from buyers to a merchant;
    \<^item> \<open>upto-authorization\<close>, metered payments: a buyer authorizes up to a ceiling and a facilitator settles the
      actual amount through a token allowance;
    \<^item> \<open>insurance\<close>, a pool with suppliers and borrowers whose positions accrue interest by indexes;
    \<^item> \<open>multisig-account\<close>, the threshold account that stands behind merchants and administrators: weighted
      signers, daily limits below the threshold, a pause and a queue of delayed transactions;
    \<^item> \<open>treasury\<close>, which vests tokens to beneficiaries, distributes yield to stakers, invests idle reserves in a weighted
      portfolio of strategies and swaps fees;
    \<^item> \<open>governance\<close>, the member body behind administrative addresses: proposals run once enough quadratic weight has voted for them,
      openly or by ring signature, with a timelock, an exit for dissenters, vote escrow, an optimistic track and matched bounties.

  \<^bold>\<open>Common ground.\<close> \<open>Prelude\<close> has bytes, the unsigned and signed ranges (\<open>u32\<close>, \<open>u64\<close> as naturals and
  \<open>i128\<close> as integers, with every operation that can overflow written as a checked, saturating or
  trapping one), the type \<open>result\<close> of an entry point (\<open>Ok\<close>, \<open>Err\<close> with the contract's error enum, \<open>Trap\<close>
  for a panic of the host; \<open>outcome\<close> is the instance for the enum most contracts share), the invocation environment (ledger sequence and time, the contract's own
  address, the addresses that authorized the call) and the collection \<open>ok_iff\<close> of rules that say when a
  step succeeds. \<open>Common\<close> models \<open>common/src\<close>: \<open>math.rs\<close>, \<open>nonce.rs\<close>, \<open>constant_time.rs\<close>, \<open>reentrancy.rs\<close>.
  \<open>Invocation\<close> has the steps of a call over the contract's storage: a failing call keeps the state it
  reached, and \<open>invoke\<close> is the host's rollback; the collection \<open>keeps_intro\<close> proves frame conditions of
  whole entry points.

  \<^bold>\<open>Receipts.\<close> \<open>Merkle\<close> (\<open>receipt-anchor/src/merkle.rs\<close>, \<open>zk_verifier.rs\<close>) folds proofs over any 32-byte
  hash; \<open>Incremental_Merkle\<close> (\<open>incremental_merkle.rs\<close>) is the frontier of the append-only tree with its byte
  slots, related to the batch builder. \<open>Receipt_Shard\<close> models all of \<open>receipt-shard/src\<close> (\<open>lib.rs\<close>,
  \<open>pruning.rs\<close>, \<open>diagnostics.rs\<close>, \<open>consolidation.rs\<close>) over the record \<open>shard\<close>, and states what the router relies on
  as a locale with the shard's operations as its interpretation. \<open>Receipt_Anchor\<close> models
  \<open>receipt-anchor/src/lib.rs\<close> over the record \<open>anchor\<close> and the map of its shards, with the reachable states of
  the whole system as an inductive relation: all calls of the router and every call of a shard that needs no
  authorization by the router, also the insertion of records by anyone, which a ghost component collects. \<open>Receipt_Claims\<close> holds the properties C1 to C8: records are
  durable until pruned and any other record that can be read was inserted past the router, indexes are exact, the rate limit bounds bursts, proofs of anchored leaves
  verify and forged ones exhibit a hash collision (for proofs of the tree's height, which is what the
  architecture note on proof lengths asks callers to check), the incremental root is the batch root,
  pruning ends and removes only what is old enough; further lemmas there treat refusals, consolidation, expiry and bounties.

  \<^bold>\<open>Refunds.\<close> \<open>Policy_Time\<close> models \<open>refund-policy-time/src\<close> and the interface \<open>clock_policy\<close> the vault relies
  on. \<open>Vault_State\<close> has the storage of \<open>refund-vault\<close> as the record \<open>vault\<close>, one field per storage key, its
  events, and the record \<open>externals\<close> of the contracts of others it calls: token, policies, oracles,
  strategies, NFT contract, flash borrower and signature check. \<open>Vault_Fees\<close> (\<open>tiers.rs\<close>, \<open>coupons.rs\<close>, the
  fee split), \<open>Vault_Oracle\<close> (\<open>oracle.rs\<close>), \<open>Vault_Strategy\<close> (\<open>strategy.rs\<close>), \<open>Vault_Claim\<close> (\<open>settlement.rs\<close> and
  \<open>claim_single\<close>), \<open>Refund_Vault\<close> (construction, deposits, refunds, batches, withdrawal, policy timelock,
  commit and reveal), \<open>Vault_Config\<close> (configuration, pause, administration), \<open>Vault_Funds\<close> (yield,
  \<open>dust.rs\<close>, \<open>flash_loan.rs\<close>) and \<open>Vault_Escrow\<close> (\<open>permit.rs\<close>, \<open>nft_escrow.rs\<close>) have one definition per function.
  \<open>Vault_Machine\<close> puts them together: \<open>vault_call\<close> has a constructor per entry point that changes storage,
  \<open>vault_reach\<close> the states reachable by committed calls and arbitrary steps of the outside world, and the
  vault's invariants are proved over it by rule induction. \<open>Vault_Claims\<close> holds C9 to C16: the books are
  sound in every reachable state, a refund moves exactly what it records, nonces are spent
  once, the policy changes only through its timelock, medians resist a
  minority, and vault and time policy together keep refunds in time. The
  same theory keeps further lemmas on single parts: the handover of administration, flash loans, coupons, previews, deployed principal, dust, escrowed
  tokens and the key of a permit, which the code does not relate to the depositor.

  \<^bold>\<open>Channels.\<close> \<open>Channel_Nonce\<close> (\<open>nonce.rs\<close>) is the sliding window of consumed nonces, bit for bit. \<open>Channel_State\<close>
  has the storage of \<open>state-channel\<close> as the record \<open>channels\<close>; \<open>Channel_Ops\<close> (\<open>lib.rs\<close>, \<open>dispute.rs\<close>, \<open>watchtower.rs\<close>,
  \<open>splice.rs\<close>, \<open>close.rs\<close>, \<open>delegation.rs\<close>, \<open>crypto.rs\<close>), \<open>Channel_Htlc\<close> (\<open>htlc.rs\<close>, \<open>hashlock.rs\<close>, \<open>subchannel.rs\<close>) and
  \<open>Channel_Assets\<close> (\<open>multi_asset.rs\<close>) have one definition per function. \<open>Escrow\<close> states what contracts that hold
  tokens have in common as two locales: a machine keeps an invariant along its steps, and an escrow
  never raises what it owes by more than what it holds. \<open>Channel_Machine\<close> has a constructor of \<open>channel_call\<close> per
  entry point and the step relation; \<open>Channel_Escrow\<close> shows that every call is backed and interprets the
  escrow locale; \<open>Channel_Lifecycle\<close> is the abstract life of a channel, which every step refines.
  \<open>Channel_Claims\<close> holds C17 to C22: solvency, exact settlement of disputes, the life cycle with nonces that
  updates and disputes never accept twice, the receiver's right to overturn a close, and two shortcomings of the code.

  \<^bold>\<open>Streams.\<close> \<open>Stream_Vault\<close> models \<open>stream-vault/src/lib.rs\<close> over the record \<open>streams\<close>. \<open>Stream_Escrow\<close> reasons about
  schedules (what has streamed is monotone, everything has streamed at the stop ledger, a resumption
  shifts the schedule) and about the machine, whose states carry the ledger sequence since a claim is
  bounded by what had streamed at its ledger; it interprets the escrow locale. \<open>Stream_Claims\<close> holds C23 to C25:
  solvency, the payout once a stream has ended, which only the token can refuse, and the effect of a pause.

  \<^bold>\<open>Metered payments.\<close> \<open>Upto_Authorization\<close> models \<open>upto-authorization/src\<close> (\<open>lib.rs\<close>, \<open>types.rs\<close>, \<open>inactivity.rs\<close>,
  \<open>domain.rs\<close>) over the record \<open>upto\<close> and a token with dated allowances. \<open>Upto_Machine\<close> counts what a buyer granted and
  was charged for a payment in the published events, shows that every call respects the balance of the two and
  interprets the machine locale. \<open>Upto_Claims\<close> holds C26 to C28: spending is bounded by what was granted, a
  settlement is exact and final, and the authorizations of one buyer share a single allowance.

  \<^bold>\<open>Insurance pool.\<close> \<open>Insurance_Pool\<close> models \<open>insurance/src\<close>: the interest curve and the accrual of indexes
  (\<open>interest.rs\<close>) and the pool over the record \<open>pool\<close> (\<open>lib.rs\<close>). \<open>Insurance_Interest\<close> bounds rates and accruals,
  \<open>Insurance_Escrow\<close> interprets the escrow locale with supply minus debt as what the pool owes, and
  \<open>Insurance_Claims\<close> holds C29 to C31: balanced interest, liquidity that is really there, and the overcharge of
  debtors whose position was opened after the index has grown.

  \<^bold>\<open>Threshold account.\<close> \<open>Multisig_Account\<close> (\<open>lib.rs\<close>, \<open>weights.rs\<close>, \<open>limits.rs\<close>, \<open>signers.rs\<close>, \<open>admin.rs\<close>) and \<open>Multisig_Queue\<close>
  (\<open>timelock.rs\<close>, \<open>ttl.rs\<close>, \<open>crypto.rs\<close>) model \<open>multisig-account/src\<close> over the record \<open>account\<close>. \<open>Multisig_Machine\<close> keeps the
  aggregate weight at or above the threshold through every call and \<open>Multisig_Auth\<close> the approver lists exact; both
  interpret the machine locale. \<open>Multisig_Claims\<close> holds C32 to C35: the account is never locked out, an
  authorization is earned by weight or by allowances, queued transactions run once with a fresh quorum, and the scalar
  check accepts exactly the canonical encodings.

  \<^bold>\<open>Treasury.\<close> \<open>Treasury_State\<close> (storage, \<open>lib.rs\<close>, \<open>vesting.rs\<close>, \<open>buyback.rs\<close>, \<open>liquidation.rs\<close>), \<open>Treasury_Portfolio\<close>
  (\<open>strategies.rs\<close>, \<open>sweep.rs\<close>, \<open>claim_vested\<close>) and \<open>Treasury_Distribution\<close> (\<open>distribution.rs\<close>, the machine) model
  \<open>treasury/src\<close> over the record \<open>treasury\<close>; the record \<open>treasury_ext\<close> has the contracts of others. \<open>Treasury_Machine\<close> states as
  the locale \<open>treasury_frame\<close> what moving principal leaves alone, interpreted for the schedules and for the yield books, and
  follows the schedules along the steps; \<open>Treasury_Yield\<close> does so for the accumulator and \<open>Treasury_Strategies\<close> for splits and
  allocations. \<open>Treasury_Claims\<close> holds C36 to C39: schedules are promises, yield is never paid beyond what was
  distributed, splits are exact and refused with the right error, and a strategy that has earned can never be removed.

  \<^bold>\<open>Governance.\<close> \<open>Governance_Math\<close> (\<open>math.rs\<close>, \<open>quorum.rs\<close>, \<open>power_for\<close>, the 128-bit root) shows that the square roots by Newton's iteration
  are exact and bounds the decaying quorum and the power of a lock. \<open>Governance_State\<close> has the storage as the record
  \<open>governance\<close>, weights, approval, the timelock gate, simulation hashes and ring signatures over an abstract curve; \<open>Governance_Ops\<close>
  (\<open>lib.rs\<close>, \<open>ragequit.rs\<close>, \<open>timelock.rs\<close>, \<open>simulation.rs\<close>, \<open>vetoken.rs\<close>, \<open>optimistic.rs\<close>) and \<open>Governance_Funding\<close> (\<open>qf.rs\<close>) have one
  definition per entry point of \<open>governance/src\<close>. \<open>Governance_Machine\<close> has a constructor of \<open>gov_call\<close> per entry point and the step relation,
  \<open>Governance_Ballots\<close> keeps members, proposals and ballots in step with the published events, and \<open>Governance_Match\<close> relates the running
  sum of a bounty to its donors and bounds the match; both interpret the machine locale. \<open>Governance_Claims\<close> holds C40: a
  proposal is executed only on the ballots cast for it, at the quorum of that ledger, and only once.

  \<^bold>\<open>Termination.\<close> The while loops of a shard's pruning and expiry, of binary search and of insertion sort
  are functions with a measure, as is Newton's iteration, so no fuel is involved; batches recurse on their lists. The router's
  loop over its shards, \<open>anchor_prune_loop\<close>, advances only as far as the shards it calls say, so it is a
  partial function into \<open>option\<close> with \<open>None\<close> for a run that does not end; C3 shows that it
  ends in every reachable state.

  \<^bold>\<open>What is assumed.\<close> Calls to other contracts are parameters. A callee acts on the outside world only:
  re-entry into the vault is refused by its lock (C15), and reads of oracles and policies do not change
  the world. Where a property speaks of balances it assumes the documented behaviour of a SEP-41 token
  (\<open>sep41\<close>), which is shown to be satisfiable by a ledger of balances. Hashes, address encodings and
  ed25519 are arbitrary functions; collision resistance is never assumed, a property names the collision
  instead. Authorization is the host's: \<open>authorized E a\<close> says that \<open>a\<close> signed the call.

  \<^bold>\<open>What is not modelled.\<close> Time-to-live extensions (expiry of storage is the host's concern), the
  replacement of a contract's code (\<open>upgrade_wasm\<close>), the encoding of arguments, \<open>signatures.rs\<close> of the router
  (point arithmetic of the host), and the crates beside the payment path: cross-chain,
  oracle, privacy, refund-policy-vdf, refund-vault-factory and reputation, and the liquid-staking contract of the governance crate.
\<close>

end
